(* ===== verification/VPrelude.thy ===== *)
theory VPrelude
  imports Main "HOL-Library.Word" "HOL-Library.Monad_Syntax"
begin

section \<open>Prelude\<close>

text \<open>
  What every component of the development shares.
  \<^item> The outcome of running C code is an option: \<open>Some r\<close> when the code returns \<open>r\<close>,
    \<open>None\<close> when it does not return normally, because a \<open>vassert\<close> of \<open>vdef.h\<close> fails
    (it dereferences address 0), a read or write leaves its object, \<open>free\<close> gets a pointer
    that \<open>malloc\<close> did not return, or an \<open>int\<close> overflows. Error codes (\<open>-1\<close>, \<open>NULL\<close>) are
    ordinary values inside \<open>Some\<close>.
  \<^item> Memory is a list of slots; \<open>rd\<close> and \<open>wr\<close> are the C reads and writes, which crash
    outside the object.
  \<^item> Bytes are \<open>8 word\<close>; multi-byte fields are stored least significant byte first, as on
    the machines the daemon is built for.
\<close>

unbundle bit_operations_syntax

type_synonym byte = "8 word"
type_synonym bytes = "8 word list"
type_synonym u16 = "16 word"
type_synonym u32 = "32 word"

named_theorems run_simps \<open>unfolding of the crash monad\<close>
named_theorems wf_intros \<open>introduction rules for the components' invariants\<close>

subsection \<open>Assertions and crashes\<close>

definition vassert :: "bool \<Rightarrow> unit option" where
  "vassert b = (if b then Some () else None)"

lemma vassert_bind [simp, run_simps]: "Option.bind (vassert b) f = (if b then f () else None)"
  by (simp add: vassert_def)

lemma bind_eq_Some [run_simps]:
  "(Option.bind m f = Some r) \<longleftrightarrow> (\<exists>x. m = Some x \<and> f x = Some r)"
  by (cases m) auto

lemma bind_eq_None [run_simps]:
  "(Option.bind m f = None) \<longleftrightarrow> (m = None \<or> (\<exists>x. m = Some x \<and> f x = None))"
  by (cases m) auto

text \<open>
  Code that may also run for ever, or whose model runs on fuel, gives an outcome: \<open>None\<close> for a run that has
  no end within the fuel, \<open>Some Crash\<close> for one that crashes.
\<close>

datatype 'a outcome = Crash | Done 'a

definition of_option :: "'a option \<Rightarrow> 'a outcome option" where
  "of_option r = Some (case r of None \<Rightarrow> Crash | Some x \<Rightarrow> Done x)"

definition then_run :: "'a outcome option \<Rightarrow> ('a \<Rightarrow> 'b outcome option) \<Rightarrow> 'b outcome option" where
  "then_run r f = (case r of None \<Rightarrow> None | Some Crash \<Rightarrow> Some Crash | Some (Done x) \<Rightarrow> f x)"

lemma of_option_simps [simp]: "of_option None = Some Crash" "of_option (Some x) = Some (Done x)"
  by (simp_all add: of_option_def)

lemma then_run_simps [simp]:
  "then_run None f = None" "then_run (Some Crash) f = Some Crash" "then_run (Some (Done x)) f = f x"
  by (simp_all add: then_run_def)

lemma then_run_eq_Done [run_simps]: "then_run r f = Some (Done y) \<longleftrightarrow> (\<exists>x. r = Some (Done x) \<and> f x = Some (Done y))"
  by (auto simp: then_run_def split: option.splits outcome.splits)

lemma of_option_eq_Done [run_simps]: "of_option r = Some (Done y) \<longleftrightarrow> r = Some y"
  by (cases r) auto

lemma then_run_cong [fundef_cong]:
  "r = r' \<Longrightarrow> (\<And>x. r' = Some (Done x) \<Longrightarrow> f x = g x) \<Longrightarrow> then_run r f = then_run r' g"
  by (auto simp: then_run_def split: option.splits outcome.splits)

subsection \<open>Reads and writes of a block of slots\<close>

definition rd :: "'a list \<Rightarrow> nat \<Rightarrow> 'a option" where
  "rd xs i = (if i < length xs then Some (xs ! i) else None)"

definition wr :: "'a list \<Rightarrow> nat \<Rightarrow> 'a \<Rightarrow> 'a list option" where
  "wr xs i x = (if i < length xs then Some (xs[i := x]) else None)"

lemma rd_in [simp]: "i < length xs \<Longrightarrow> rd xs i = Some (xs ! i)"
  by (simp add: rd_def)

lemma rd_out [simp]: "length xs \<le> i \<Longrightarrow> rd xs i = None"
  by (simp add: rd_def)

lemma wr_in [simp]: "i < length xs \<Longrightarrow> wr xs i x = Some (xs[i := x])"
  by (simp add: wr_def)

lemma wr_out [simp]: "length xs \<le> i \<Longrightarrow> wr xs i x = None"
  by (simp add: wr_def)

lemma rd_Some_iff: "rd xs i = Some x \<longleftrightarrow> i < length xs \<and> x = xs ! i"
  by (auto simp: rd_def)

lemma wr_Some_iff: "wr xs i x = Some ys \<longleftrightarrow> i < length xs \<and> ys = xs[i := x]"
  by (auto simp: wr_def)

subsection \<open>Insertion, deletion and search by index\<close>

definition list_ins :: "nat \<Rightarrow> 'a \<Rightarrow> 'a list \<Rightarrow> 'a list" where
  "list_ins i x xs = take i xs @ x # drop i xs"

definition list_del :: "nat \<Rightarrow> 'a list \<Rightarrow> 'a list" where
  "list_del i xs = take i xs @ drop (Suc i) xs"

lemma length_list_ins [simp]: "length (list_ins i x xs) = Suc (length xs)"
  by (simp add: list_ins_def)

lemma length_list_del [simp]: "i < length xs \<Longrightarrow> length (list_del i xs) = length xs - 1"
  by (simp add: list_del_def)

lemma set_list_ins [simp]: "set (list_ins i x xs) = insert x (set xs)"
proof -
  have "set (take i xs) \<union> set (drop i xs) = set xs"
    by (metis append_take_drop_id set_append)
  then show ?thesis by (auto simp: list_ins_def)
qed

lemma list_ins_length [simp]: "list_ins (length xs) x xs = xs @ [x]"
  by (simp add: list_ins_def)

lemma list_ins_0 [simp]: "list_ins 0 x xs = x # xs"
  by (simp add: list_ins_def)

lemma list_ins_Suc [simp]: "list_ins (Suc i) x (y # xs) = y # list_ins i x xs"
  by (simp add: list_ins_def)

lemma list_del_0 [simp]: "list_del 0 (x # xs) = xs"
  by (simp add: list_del_def)

lemma list_del_Suc [simp]: "list_del (Suc i) (x # xs) = x # list_del i xs"
  by (simp add: list_del_def)

lemma set_list_del_subset: "set (list_del i xs) \<subseteq> set xs"
  by (auto simp: list_del_def dest: in_set_takeD in_set_dropD)

text \<open>\<open>find_idx p xs\<close> is where a loop \<open>for (i = 0; i < n; i++) if (p) break;\<close> stops.\<close>

fun find_idx :: "('a \<Rightarrow> bool) \<Rightarrow> 'a list \<Rightarrow> nat option" where
  "find_idx p [] = None"
| "find_idx p (x # xs) = (if p x then Some 0 else map_option Suc (find_idx p xs))"

lemma find_idx_Some:
  "find_idx p xs = Some i \<Longrightarrow> i < length xs \<and> p (xs ! i) \<and> (\<forall>j < i. \<not> p (xs ! j))"
proof (induction xs arbitrary: i)
  case (Cons x xs)
  then show ?case
    by (auto split: if_splits simp: less_Suc_eq_0_disj)
qed simp

lemma find_idx_None [simp]: "find_idx p xs = None \<longleftrightarrow> (\<forall>x \<in> set xs. \<not> p x)"
  by (induction xs) auto

lemma find_idx_lt: "find_idx p xs = Some i \<Longrightarrow> i < length xs"
  by (simp add: find_idx_Some)

text \<open>Where that loop stops, and insertion there.\<close>

lemma find_idx_takeWhile:
  "find_idx p xs = (if \<exists>x \<in> set xs. p x then Some (length (takeWhile (\<lambda>x. \<not> p x) xs)) else None)"
  by (induction xs) auto

lemma list_ins_takeWhile:
  "list_ins (length (takeWhile q xs)) x xs = takeWhile q xs @ x # dropWhile q xs"
  by (induction xs) auto

subsection \<open>C strings as bytes\<close>

definition cstr :: "string \<Rightarrow> bytes" where
  "cstr s = map of_char s"

text \<open>The bytes a C string function sees: up to the first NUL.\<close>

definition until_nul :: "bytes \<Rightarrow> bytes" where
  "until_nul s = takeWhile (\<lambda>b. b \<noteq> 0) s"

lemma until_nul_id [simp]: "0 \<notin> set s \<Longrightarrow> until_nul s = s"
  by (auto simp: until_nul_def takeWhile_eq_all_conv)

subsection \<open>Little-endian encoding of words\<close>

definition le16 :: "u16 \<Rightarrow> bytes" where
  "le16 w = [ucast w, ucast (drop_bit 8 w)]"

definition le32 :: "u32 \<Rightarrow> bytes" where
  "le32 w = [ucast w, ucast (drop_bit 8 w), ucast (drop_bit 16 w), ucast (drop_bit 24 w)]"

definition of_le16 :: "bytes \<Rightarrow> u16" where
  "of_le16 bs = ucast (bs ! 0) OR push_bit 8 (ucast (bs ! 1))"

definition of_le32 :: "bytes \<Rightarrow> u32" where
  "of_le32 bs = ucast (bs ! 0) OR push_bit 8 (ucast (bs ! 1))
     OR push_bit 16 (ucast (bs ! 2)) OR push_bit 24 (ucast (bs ! 3))"

lemma length_le16 [simp]: "length (le16 w) = 2"
  by (simp add: le16_def)

lemma length_le32 [simp]: "length (le32 w) = 4"
  by (simp add: le32_def)

lemma of_le16_le16 [simp]: "of_le16 (le16 w @ r) = w"
  by (rule bit_word_eqI) (auto simp: of_le16_def le16_def bit_simps)

lemma of_le32_le32 [simp]: "of_le32 (le32 w @ r) = w"
proof (rule bit_word_eqI)
  fix n
  assume "n < LENGTH(32)"
  then show "bit (of_le32 (le32 w @ r)) n = bit w n"
    by (cases "n < 8"; cases "n < 16"; cases "n < 24") (auto simp: of_le32_def le32_def bit_simps)
qed

text \<open>Signed reading of a field, and of a C \<open>int\<close> stored in 32 bits.\<close>

definition int32_ok :: "int \<Rightarrow> bool" where
  "int32_ok i \<longleftrightarrow> - (2 ^ 31) \<le> i \<and> i < 2 ^ 31"

lemma sint_of_int32 [simp]: "int32_ok i \<Longrightarrow> sint (word_of_int i :: u32) = i"
  by (simp add: int32_ok_def signed_take_bit_int_eq_self sint_sbintrunc')

text \<open>\<open>int\<close> arithmetic that crashes on signed overflow.\<close>

definition int_add :: "int \<Rightarrow> int \<Rightarrow> int option" where
  "int_add a b = (if int32_ok (a + b) then Some (a + b) else None)"

lemma int_add_ok [simp]: "int32_ok (a + b) \<Longrightarrow> int_add a b = Some (a + b)"
  by (simp add: int_add_def)

end
