(* ===== verification/VArray.thy ===== *)
theory VArray
  imports VPrelude "HOL-Library.Multiset"
begin

section \<open>The growable array and the sorted array (utils/varray.c)\<close>

text \<open>
  \<open>struct varray\<close> is a record of its four fields. \<open>items\<close> is the allocated block: a list with
  one slot per pointer, \<open>None\<close> for a slot that holds \<open>NULL\<close> or was never written; the empty
  list is the \<open>NULL\<close> block of an array that never grew. Every access goes through \<open>rd\<close> and
  \<open>wr\<close>, so an index outside the block is a crash. The parameter \<open>mem\<close> of an operation
  that reallocates says whether \<open>realloc\<close> grants the request.
\<close>

record 'a varray =
  va_used :: nat
  va_capc :: nat
  va_first :: nat
  va_items :: "'a option list"

definition VARRAY_FIRST_CAPC :: nat where
  "VARRAY_FIRST_CAPC = 32"

definition varray_init :: "nat \<Rightarrow> 'a varray" where
  "varray_init first_capc =
     \<lparr>va_used = 0, va_capc = 0,
      va_first = (if first_capc = 0 then VARRAY_FIRST_CAPC else first_capc), va_items = []\<rparr>"

definition varray_deinit :: "'a varray \<Rightarrow> 'a varray" where
  "varray_deinit a = (if va_items a \<noteq> [] then a\<lparr>va_items := []\<rparr> else a)"

definition varray_size :: "'a varray \<Rightarrow> nat" where
  "varray_size a = va_used a"

definition varray_get :: "'a varray \<Rightarrow> int \<Rightarrow> 'a option option" where
  "varray_get a idx =
     (if va_items a = [] then Some None
      else if idx < 0 then Some None
      else if int (va_used a) \<le> idx then Some None
      else rd (va_items a) (nat idx))"

text \<open>\<open>r\<close> is what \<open>rand()\<close> returns.\<close>

definition varray_get_rand :: "'a varray \<Rightarrow> nat \<Rightarrow> 'a option option" where
  "varray_get_rand a r =
     (if va_items a = [] then Some None
      else do {
        vassert (va_used a \<noteq> 0);
        rd (va_items a) (r mod va_used a)
      })"

definition varray_set :: "'a varray \<Rightarrow> int \<Rightarrow> 'a option \<Rightarrow> (int \<times> 'a varray) option" where
  "varray_set a idx item =
     (if item = None then Some (-1, a)
      else if idx < 0 then Some (-1, a)
      else if int (va_used a) \<le> idx then Some (-1, a)
      else if va_items a = [] then Some (-1, a)
      else do {
        items \<leftarrow> wr (va_items a) (nat idx) item;
        Some (0, a\<lparr>va_items := items\<rparr>)
      })"

text \<open>\<open>realloc\<close> keeps the old slots up to the new length and leaves new ones unwritten.\<close>

definition realloc_slots :: "nat \<Rightarrow> 'a option list \<Rightarrow> 'a option list" where
  "realloc_slots n xs = take n xs @ replicate (n - length xs) None"

definition varray_extend :: "bool \<Rightarrow> 'a varray \<Rightarrow> (int \<times> 'a varray) option" where
  "varray_extend mem a = do {
     vassert (va_capc a \<le> va_used a);
     let capc = (if va_capc a = 0 then va_first a else va_capc a * 2);
     if \<not> mem then Some (-1, a)
     else Some (0, a\<lparr>va_capc := capc, va_items := realloc_slots capc (va_items a)\<rparr>)
   }"

text \<open>\<open>for (; i >= idx; i--) items[i+1] = items[i]\<close>, the last argument being the number of
  iterations left, so that \<open>i\<close> is \<open>idx + n\<close>.\<close>

fun varray_shift_up :: "'a option list \<Rightarrow> nat \<Rightarrow> nat \<Rightarrow> 'a option list option" where
  "varray_shift_up items idx 0 = Some items"
| "varray_shift_up items idx (Suc n) = do {
     x \<leftarrow> rd items (idx + n);
     items' \<leftarrow> wr items (idx + n + 1) x;
     varray_shift_up items' idx n
   }"

definition varray_add :: "bool \<Rightarrow> 'a varray \<Rightarrow> int \<Rightarrow> 'a option \<Rightarrow> (int \<times> 'a varray) option" where
  "varray_add mem a idx new =
     (let i = va_used a in
      if idx < 0 then Some (-1, a)
      else if int (va_used a) \<le> idx then Some (-1, a)
      else if new = None then Some (-1, a)
      else do {
        (ret, a) \<leftarrow> (if va_capc a \<le> va_used a then varray_extend mem a else Some (0, a));
        if ret < 0 then Some (-1, a)
        else do {
          items \<leftarrow> varray_shift_up (va_items a) (nat idx) (i + 1 - nat idx);
          items \<leftarrow> wr items (nat idx) new;
          Some (0, a\<lparr>va_items := items, va_used := va_used a + 1\<rparr>)
        }
      })"

definition varray_add_tail :: "bool \<Rightarrow> 'a varray \<Rightarrow> 'a option \<Rightarrow> (int \<times> 'a varray) option" where
  "varray_add_tail mem a item =
     (if item = None then Some (-1, a)
      else do {
        (ret, a) \<leftarrow> (if va_capc a \<le> va_used a then varray_extend mem a else Some (0, a));
        if ret < 0 then Some (-1, a)
        else do {
          items \<leftarrow> wr (va_items a) (va_used a) item;
          Some (0, a\<lparr>va_items := items, va_used := va_used a + 1\<rparr>)
        }
      })"

definition varray_shrink :: "bool \<Rightarrow> 'a varray \<Rightarrow> (int \<times> 'a varray) option" where
  "varray_shrink mem a = do {
     let new_capc = va_capc a div 2;
     vassert (va_items a \<noteq> []);
     vassert (va_used a * 2 \<le> va_capc a);
     if va_capc a = va_first a then Some (0, a)
     else if \<not> mem then Some (-1, a)
     else Some (0, a\<lparr>va_capc := new_capc, va_items := realloc_slots new_capc (va_items a)\<rparr>)
   }"

text \<open>The shrink both removals start with.\<close>

definition varray_try_shrink :: "bool \<Rightarrow> 'a varray \<Rightarrow> (int \<times> 'a varray) option" where
  "varray_try_shrink mem a =
     (if va_first a \<le> va_capc a \<and> va_used a * 2 < va_capc a then varray_shrink mem a
      else Some (0, a))"

text \<open>\<open>for (i = idx; i < used; i++) items[i] = items[i+1]\<close>, with the iterations left.\<close>

fun varray_shift_down :: "'a option list \<Rightarrow> nat \<Rightarrow> nat \<Rightarrow> 'a option list option" where
  "varray_shift_down items i 0 = Some items"
| "varray_shift_down items i (Suc n) = do {
     x \<leftarrow> rd items (i + 1);
     items' \<leftarrow> wr items i x;
     varray_shift_down items' (i + 1) n
   }"

definition varray_del :: "bool \<Rightarrow> 'a varray \<Rightarrow> int \<Rightarrow> ('a option \<times> 'a varray) option" where
  "varray_del mem a idx =
     (if idx < 0 then Some (None, a)
      else if int (va_used a) \<le> idx then Some (None, a)
      else do {
        (ret, a) \<leftarrow> varray_try_shrink mem a;
        if ret < 0 then Some (None, a)
        else do {
          item \<leftarrow> rd (va_items a) (nat idx);
          items \<leftarrow> varray_shift_down (va_items a) (nat idx) (va_used a - nat idx);
          items \<leftarrow> wr items (va_used a) None;
          Some (item, a\<lparr>va_items := items, va_used := va_used a - 1\<rparr>)
        }
      })"

definition varray_pop_tail :: "bool \<Rightarrow> 'a varray \<Rightarrow> ('a option \<times> 'a varray) option" where
  "varray_pop_tail mem a = do {
     (ret, a) \<leftarrow> varray_try_shrink mem a;
     if ret < 0 then Some (None, a)
     else do {
       vassert (va_used a \<noteq> 0);
       item \<leftarrow> rd (va_items a) (va_used a - 1);
       items \<leftarrow> wr (va_items a) (va_used a - 1) None;
       Some (item, a\<lparr>va_items := items, va_used := va_used a - 1\<rparr>)
     }
   }"

text \<open>
  \<open>varray_iterate\<close>: the callback gets the item and the cookie, may change what the item
  points to and what the cookie points to, and stops the loop by returning a positive number.
\<close>

fun varray_iterate_from ::
  "('a \<Rightarrow> 's \<Rightarrow> (int \<times> 'a \<times> 's) option) \<Rightarrow> nat \<Rightarrow> nat \<Rightarrow> 'a option list \<Rightarrow> 's
    \<Rightarrow> ('a option list \<times> 's) option" where
  "varray_iterate_from cb i 0 items s = Some (items, s)"
| "varray_iterate_from cb i (Suc n) items s = do {
     p \<leftarrow> rd items i;
     x \<leftarrow> p;
     (ret, x', s') \<leftarrow> cb x s;
     items' \<leftarrow> wr items i (Some x');
     if 0 < ret then Some (items', s') else varray_iterate_from cb (i + 1) n items' s'
   }"

definition varray_iterate ::
  "'a varray \<Rightarrow> ('a \<Rightarrow> 's \<Rightarrow> (int \<times> 'a \<times> 's) option) \<Rightarrow> 's \<Rightarrow> ('a varray \<times> 's) option" where
  "varray_iterate a cb s = do {
     (items, s') \<leftarrow> varray_iterate_from cb 0 (va_used a) (va_items a) s;
     Some (a\<lparr>va_items := items\<rparr>, s')
   }"

text \<open>\<open>varray_zero\<close> pops until the size is 0; each pop takes one item, so as many rounds as
  there are items are enough, which \<open>varray_zero_empties\<close> below shows.\<close>

fun varray_zero_loop ::
  "nat \<Rightarrow> bool \<Rightarrow> ('a option \<Rightarrow> 's \<Rightarrow> 's) \<Rightarrow> 'a varray \<Rightarrow> 's \<Rightarrow> ('a varray \<times> 's) option" where
  "varray_zero_loop 0 mem cb a s = (if va_used a = 0 then Some (a, s) else None)"
| "varray_zero_loop (Suc n) mem cb a s =
     (if va_used a = 0 then Some (a, s)
      else do {
        (item, a') \<leftarrow> varray_pop_tail mem a;
        varray_zero_loop n mem cb a' (cb item s)
      })"

definition varray_zero ::
  "bool \<Rightarrow> 'a varray \<Rightarrow> ('a option \<Rightarrow> 's \<Rightarrow> 's) \<Rightarrow> 's \<Rightarrow> ('a varray \<times> 's) option" where
  "varray_zero mem a cb s = varray_zero_loop (va_used a) mem cb a s"

subsection \<open>The sorted array\<close>

text \<open>
  The comparison callback gets two items and the \<open>void*\<close> cookie. \<open>vsorted_array_add\<close> passes
  the cookie itself and \<open>vsorted_array_del\<close> the address of the field that holds it, so the two
  are told apart.
\<close>

datatype 'c vcookie = Cookie 'c | CookieAddr 'c

record ('a, 'c) vsorted_array =
  sa_array :: "'a varray"
  sa_cmp :: "'a \<Rightarrow> 'a \<Rightarrow> 'c vcookie \<Rightarrow> int"
  sa_cookie :: 'c

definition vsorted_array_init ::
  "nat \<Rightarrow> ('a \<Rightarrow> 'a \<Rightarrow> 'c vcookie \<Rightarrow> int) \<Rightarrow> 'c \<Rightarrow> ('a, 'c) vsorted_array" where
  "vsorted_array_init first_capc cb cookie =
     \<lparr>sa_array = varray_init first_capc, sa_cmp = cb, sa_cookie = cookie\<rparr>"

definition vsorted_array_deinit :: "('a, 'c) vsorted_array \<Rightarrow> ('a, 'c) vsorted_array" where
  "vsorted_array_deinit s = s\<lparr>sa_array := varray_deinit (sa_array s)\<rparr>"

definition vsorted_array_size :: "('a, 'c) vsorted_array \<Rightarrow> nat" where
  "vsorted_array_size s = varray_size (sa_array s)"

definition vsorted_array_get :: "('a, 'c) vsorted_array \<Rightarrow> int \<Rightarrow> 'a option option" where
  "vsorted_array_get s idx = varray_get (sa_array s) idx"

text \<open>The search loop shared by add and del: the first index \<open>i\<close> whose item satisfies \<open>p\<close>,
  or the size.\<close>

fun vsorted_array_scan :: "('a \<Rightarrow> bool) \<Rightarrow> 'a varray \<Rightarrow> nat \<Rightarrow> nat \<Rightarrow> nat option" where
  "vsorted_array_scan p a i 0 = Some i"
| "vsorted_array_scan p a i (Suc n) = do {
     item \<leftarrow> varray_get a (int i);
     x \<leftarrow> item;
     if p x then Some i else vsorted_array_scan p a (i + 1) n
   }"

definition vsorted_array_add ::
  "bool \<Rightarrow> ('a, 'c) vsorted_array \<Rightarrow> 'a option \<Rightarrow> (int \<times> ('a, 'c) vsorted_array) option" where
  "vsorted_array_add mem s new =
     (case new of
        None \<Rightarrow> Some (-1, s)
      | Some x \<Rightarrow> do {
          let sz = varray_size (sa_array s);
          i \<leftarrow> vsorted_array_scan (\<lambda>item. sa_cmp s item x (Cookie (sa_cookie s)) \<ge> 0)
                 (sa_array s) 0 sz;
          (ret, a) \<leftarrow> (if i < sz then varray_add mem (sa_array s) (int i) new
                       else varray_add_tail mem (sa_array s) new);
          Some (ret, s\<lparr>sa_array := a\<rparr>)
        })"

definition vsorted_array_del ::
  "bool \<Rightarrow> ('a, 'c) vsorted_array \<Rightarrow> 'a option \<Rightarrow> ('a option \<times> ('a, 'c) vsorted_array) option" where
  "vsorted_array_del mem s todel =
     (case todel of
        None \<Rightarrow> Some (None, s)
      | Some x \<Rightarrow> do {
          let sz = varray_size (sa_array s);
          i \<leftarrow> vsorted_array_scan (\<lambda>item. sa_cmp s x item (CookieAddr (sa_cookie s)) = 0)
                 (sa_array s) 0 sz;
          if sz \<le> i then Some (None, s)
          else do {
            (item, a) \<leftarrow> varray_del mem (sa_array s) (int i);
            Some (item, s\<lparr>sa_array := a\<rparr>)
          }
        })"

subsection \<open>The invariant and the abstraction\<close>

text \<open>
  A well-formed array owns exactly \<open>capc\<close> slots, uses at most those, holds no \<open>NULL\<close> among
  the used ones, and its capacity is 0 or \<open>first\<close> doubled some number of times.
\<close>

definition va_wf :: "'a varray \<Rightarrow> bool" where
  "va_wf a \<longleftrightarrow> 0 < va_first a \<and> va_used a \<le> va_capc a \<and> length (va_items a) = va_capc a
     \<and> (va_capc a = 0 \<or> (\<exists>k. va_capc a = va_first a * 2 ^ k))
     \<and> None \<notin> set (take (va_used a) (va_items a))"

definition va_list :: "'a varray \<Rightarrow> 'a list" where
  "va_list a = map the (take (va_used a) (va_items a))"

lemma va_wf_init [simp, wf_intros]: "va_wf (varray_init n)"
  by (simp add: va_wf_def varray_init_def VARRAY_FIRST_CAPC_def)

lemma va_list_init [simp]: "va_list (varray_init n) = []"
  by (simp add: va_list_def varray_init_def)

lemma va_list_length [simp]: "va_wf a \<Longrightarrow> length (va_list a) = va_used a"
  by (simp add: va_wf_def va_list_def)

lemma va_list_Nil: "va_wf a \<Longrightarrow> va_list a = [] \<longleftrightarrow> va_used a = 0"
  using va_list_length [of a] by (metis length_0_conv)

lemma va_size [simp]: "va_wf a \<Longrightarrow> varray_size a = length (va_list a)"
  by (simp add: varray_size_def)

lemma map_Some_the: "None \<notin> set xs \<Longrightarrow> map Some (map the xs) = xs"
  by (induction xs) auto

text \<open>The block is the abstract list followed by slots nobody looks at.\<close>

lemma va_items_split:
  assumes "va_wf a"
  obtains rest where "va_items a = map Some (va_list a) @ rest"
    and "length rest = va_capc a - va_used a"
proof
  have "map Some (va_list a) = take (va_used a) (va_items a)"
    using assms map_Some_the by (auto simp: va_list_def va_wf_def)
  then show "va_items a = map Some (va_list a) @ drop (va_used a) (va_items a)"
    by simp
  show "length (drop (va_used a) (va_items a)) = va_capc a - va_used a"
    using assms by (simp add: va_wf_def)
qed

lemma va_wfI:
  assumes "0 < va_first a" "va_items a = map Some xs @ rest" "va_used a = length xs"
    "va_capc a = length xs + length rest"
    "va_capc a = 0 \<or> (\<exists>k. va_capc a = va_first a * 2 ^ k)"
  shows "va_wf a \<and> va_list a = xs"
  using assms by (auto simp: va_wf_def va_list_def comp_def)

lemma va_capc_zero: "va_wf a \<Longrightarrow> va_items a = [] \<longleftrightarrow> va_capc a = 0"
  by (auto simp: va_wf_def)

lemma va_used_le: "va_wf a \<Longrightarrow> length (va_list a) \<le> va_capc a"
  by (simp add: va_wf_def va_list_def)

lemma va_nth: "va_wf a \<Longrightarrow> i < length (va_list a) \<Longrightarrow> va_items a ! i = Some (va_list a ! i)"
  by (metis va_items_split length_map nth_append nth_map)

lemma varray_get_spec [simp]:
  "va_wf a \<Longrightarrow> varray_get a (int i)
     = Some (if i < length (va_list a) then Some (va_list a ! i) else None)"
  using va_used_le [of a] va_nth [of a i]
  by (auto simp: varray_get_def va_wf_def)

lemma va_slot: "va_wf a \<Longrightarrow> i < va_used a \<Longrightarrow> rd (va_items a) i = Some (Some (va_list a ! i))"
  using va_nth [of a i] by (simp add: rd_def) (simp add: va_wf_def)

lemma varray_get_rand_spec:
  assumes "va_wf a" "va_list a \<noteq> []"
  shows "varray_get_rand a r = Some (Some (va_list a ! (r mod length (va_list a))))"
proof -
  have "va_used a \<noteq> 0" "va_items a \<noteq> []"
    using assms(2) by (auto simp: va_list_def)
  then show ?thesis
    using assms(1) by (simp add: varray_get_rand_def va_slot)
qed

subsection \<open>Growing: add at the tail and in the middle\<close>

definition grown_capc :: "'a varray \<Rightarrow> nat" where
  "grown_capc a = (if va_used a < va_capc a then va_capc a
                   else if va_capc a = 0 then va_first a else va_capc a * 2)"

lemma grown_capc_pow:
  assumes "va_wf a"
  shows "\<exists>k. grown_capc a = va_first a * 2 ^ k"
proof (cases "va_capc a = 0")
  case True
  then show ?thesis
    using assms by (auto simp: grown_capc_def va_wf_def intro: exI [of _ 0])
next
  case False
  then obtain k where "va_capc a = va_first a * 2 ^ k"
    using assms by (auto simp: va_wf_def)
  then have "va_capc a * 2 = va_first a * 2 ^ Suc k" by simp
  then show ?thesis
    using False \<open>va_capc a = va_first a * 2 ^ k\<close> unfolding grown_capc_def by metis
qed

lemma grown_capc_gt: "va_wf a \<Longrightarrow> va_used a < grown_capc a"
  by (auto simp: grown_capc_def va_wf_def)

text \<open>What both insertions do before they write: make room, keeping the list.\<close>

lemma varray_room:
  assumes "va_wf a"
  obtains a' rest where
    "(if va_capc a \<le> va_used a then varray_extend True a else Some (0, a)) = Some (0, a')"
    "va_capc a' = grown_capc a" "va_used a' = va_used a" "va_first a' = va_first a"
    "va_items a' = map Some (va_list a) @ rest"
    "length rest = grown_capc a - va_used a"
proof (cases "va_used a < va_capc a")
  case True
  obtain rest where "va_items a = map Some (va_list a) @ rest" "length rest = va_capc a - va_used a"
    using va_items_split [OF assms] by blast
  with True show ?thesis
    by (intro that [of a rest]) (simp_all add: grown_capc_def)
next
  case False
  then have full: "va_used a = va_capc a" using assms by (simp add: va_wf_def)
  obtain rest where items: "va_items a = map Some (va_list a) @ rest"
    and "length rest = va_capc a - va_used a"
    using va_items_split [OF assms] by blast
  with full have "rest = []" by simp
  with items have all: "va_items a = map Some (va_list a)" by simp
  have len: "length (va_list a) = va_capc a" using full assms by simp
  define c where "c = (if va_capc a = 0 then va_first a else va_capc a * 2)"
  have "va_capc a \<le> c" by (simp add: c_def)
  let ?b = "a\<lparr>va_capc := c, va_items := realloc_slots c (va_items a)\<rparr>"
  show ?thesis
  proof (rule that [of ?b "replicate (c - va_capc a) None"])
    show "(if va_capc a \<le> va_used a then varray_extend True a else Some (0, a)) = Some (0, ?b)"
      using full by (simp add: varray_extend_def c_def Let_def)
    show "va_capc ?b = grown_capc a"
      using full by (simp add: grown_capc_def c_def)
    show "va_items ?b = map Some (va_list a) @ replicate (c - va_capc a) None"
      using all len \<open>va_capc a \<le> c\<close> by (simp add: realloc_slots_def)
    show "length (replicate (c - va_capc a) (None :: 'a option)) = grown_capc a - va_used a"
      using full by (simp add: grown_capc_def c_def)
  qed simp_all
qed

text \<open>Adding at the tail always works when memory is there, and appends.\<close>

lemma varray_add_tail_spec:
  assumes "va_wf a"
  obtains a' where "varray_add_tail True a (Some x) = Some (0, a')" "va_wf a'"
    "va_list a' = va_list a @ [x]" "va_capc a' = grown_capc a" "va_first a' = va_first a"
proof -
  obtain b rest where room:
    "(if va_capc a \<le> va_used a then varray_extend True a else Some (0, a)) = Some (0, b)"
    "va_capc b = grown_capc a" "va_used b = va_used a" "va_first b = va_first a"
    "va_items b = map Some (va_list a) @ rest" "length rest = grown_capc a - va_used a"
    using varray_room [OF assms] by blast
  have len: "length (va_list a) = va_used a" using assms by simp
  obtain s rest' where rest: "rest = s # rest'"
    using room(6) grown_capc_gt [OF assms] by (cases rest) auto
  let ?c = "b\<lparr>va_items := (va_items b)[va_used b := Some x], va_used := va_used b + 1\<rparr>"
  have add: "varray_add_tail True a (Some x) = Some (0, ?c)"
    unfolding varray_add_tail_def room(1) using room len rest by simp
  have items: "va_items ?c = map Some (va_list a @ [x]) @ rest'"
    using room len rest by (simp add: list_update_append)
  have wf: "va_wf ?c \<and> va_list ?c = va_list a @ [x]"
    by (rule va_wfI [OF _ items])
      (use room rest len assms grown_capc_gt [OF assms] grown_capc_pow [OF assms]
        in \<open>simp_all add: va_wf_def\<close>)
  show ?thesis
    by (rule that [OF add wf [THEN conjunct1] wf [THEN conjunct2]]) (simp_all add: room(2,4))
qed

lemma varray_shift_up_spec:
  "varray_shift_up items idx n =
     (if n = 0 \<or> idx + n < length items
      then Some (take (idx + 1) items @ take n (drop idx items) @ drop (idx + 1 + n) items)
      else None)"
proof (induction n arbitrary: items)
  case 0
  then show ?case by simp
next
  case (Suc n)
  show ?case
  proof (cases "idx + Suc n < length items")
    case True
    let ?items = "items[idx + n + 1 := items ! (idx + n)]"
    have "varray_shift_up items idx (Suc n) = varray_shift_up ?items idx n"
      using True by simp
    also have "\<dots> = Some (take (idx + 1) ?items @ take n (drop idx ?items) @ drop (idx + 1 + n) ?items)"
      using True by (simp add: Suc.IH)
    also have "take (idx + 1) ?items = take (idx + 1) items" by simp
    also have "take n (drop idx ?items) = take n (drop idx items)"
      by (simp add: drop_update_swap)
    also have "drop (idx + 1 + n) ?items = items ! (idx + n) # drop (idx + 1 + Suc n) items"
      using True by (simp add: drop_update_swap Cons_nth_drop_Suc [symmetric] add.commute)
    also have "take n (drop idx items) @ items ! (idx + n) # drop (idx + 1 + Suc n) items
        = take (Suc n) (drop idx items) @ drop (idx + 1 + Suc n) items"
      using True by (simp add: take_Suc_conv_app_nth)
    finally show ?thesis using True by simp
  next
    case False
    then show ?thesis by (cases "idx + n < length items") simp_all
  qed
qed

text \<open>
  Inserting before position \<open>i\<close>: the shift loop copies one slot more than it has to (slot
  \<open>used\<close> to slot \<open>used + 1\<close>), so it leaves the block exactly when the block, grown if it
  was full, has a single free slot.
\<close>

lemma varray_add_spec:
  assumes "va_wf a" "i < va_used a"
  shows "(va_used a + 1 < grown_capc a \<longrightarrow>
      (\<exists>a'. varray_add True a (int i) (Some x) = Some (0, a') \<and> va_wf a'
        \<and> va_list a' = list_ins i x (va_list a) \<and> va_capc a' = grown_capc a
        \<and> va_first a' = va_first a))
    \<and> (grown_capc a \<le> va_used a + 1 \<longrightarrow> varray_add True a (int i) (Some x) = None)"
proof -
  obtain b rest where room:
    "(if va_capc a \<le> va_used a then varray_extend True a else Some (0, a)) = Some (0, b)"
    "va_capc b = grown_capc a" "va_used b = va_used a" "va_first b = va_first a"
    "va_items b = map Some (va_list a) @ rest" "length rest = grown_capc a - va_used a"
    using varray_room [OF assms(1)] by blast
  have len: "length (va_list a) = va_used a" using assms by simp
  have items_len: "length (va_items b) = grown_capc a"
    using room(5,6) len grown_capc_gt [OF assms(1)] by simp
  have n: "i + (va_used a + 1 - i) = va_used a + 1" "va_used a + 1 - i \<noteq> 0"
    using assms(2) by simp_all
  have run: "varray_add True a (int i) (Some x) =
      Option.bind (varray_shift_up (va_items b) i (va_used a + 1 - i)) (\<lambda>items.
        Option.bind (wr items i (Some x)) (\<lambda>items.
          Some (0, b\<lparr>va_items := items, va_used := va_used b + 1\<rparr>)))"
    unfolding varray_add_def Let_def room(1) using assms(2) by simp
  show ?thesis
  proof (cases "va_used a + 1 < grown_capc a")
    case False
    then have "varray_add True a (int i) (Some x) = None"
      unfolding run varray_shift_up_spec using items_len n by simp
    with False show ?thesis by simp
  next
    case True
    obtain s t rest' where rest: "rest = s # t # rest'"
      using room(6) True by (cases rest; cases "tl rest") auto
    let ?xs = "va_list a"
    let ?new = "map Some (list_ins i x ?xs) @ s # rest'"
    have shifted: "varray_shift_up (va_items b) i (va_used a + 1 - i)
        = Some (map Some (take (i + 1) ?xs) @ map Some (drop i ?xs) @ s # rest')"
      unfolding varray_shift_up_spec items_len room(5) using True assms(2) len rest n
      by (simp add: take_map drop_map)
    have "map Some (take (i + 1) ?xs) @ map Some (drop i ?xs) @ s # rest'
        = map Some (take i ?xs) @ Some (?xs ! i) # map Some (drop i ?xs) @ s # rest'"
      using assms(2) len by (simp add: take_Suc_conv_app_nth)
    then have upd: "wr (map Some (take (i + 1) ?xs) @ map Some (drop i ?xs) @ s # rest') i (Some x)
        = Some ?new"
      using assms(2) len by (simp add: wr_def list_ins_def list_update_append)
    let ?c = "b\<lparr>va_items := ?new, va_used := va_used b + 1\<rparr>"
    have add: "varray_add True a (int i) (Some x) = Some (0, ?c)"
      unfolding run shifted Option.bind.bind_lunit upd by (rule refl)
    have wf: "va_wf ?c \<and> va_list ?c = list_ins i x ?xs"
      by (rule va_wfI [where rest = "s # rest'"])
        (use room rest len assms grown_capc_gt [OF assms(1)] grown_capc_pow [OF assms(1)]
          in \<open>simp_all add: va_wf_def\<close>)
    show ?thesis
      using True add wf room(2,4) by simp
  qed
qed

subsection \<open>Shrinking: delete and pop\<close>

lemma varray_shift_down_spec:
  "varray_shift_down items i n =
     (if n = 0 \<or> i + n < length items
      then Some (take i items @ take n (drop (i + 1) items) @ drop (i + n) items)
      else None)"
proof (induction n arbitrary: items i)
  case 0
  then show ?case by simp
next
  case (Suc n)
  show ?case
  proof (cases "i + 1 < length items")
    case True
    let ?items = "items[i := items ! (i + 1)]"
    have step: "varray_shift_down items i (Suc n) = varray_shift_down ?items (i + 1) n"
      using True by simp
    have moved: "take (i + 1) ?items = take i items @ [items ! (i + 1)]"
      using True by (simp add: take_Suc_conv_app_nth)
    have "drop (i + 1) items = items ! (i + 1) # drop (i + 2) items"
      using True by (simp add: Cons_nth_drop_Suc)
    then have "take (Suc n) (drop (i + 1) items) = items ! (i + 1) # take n (drop (i + 2) items)"
      by simp
    moreover have "drop (i + 1 + n) ?items = drop (i + Suc n) items"
      "drop (i + 1 + 1) ?items = drop (i + 2) items" by simp_all
    ultimately show ?thesis
      unfolding step Suc.IH moved using True by (cases n) (auto simp: numeral_2_eq_2)
  next
    case False
    then show ?thesis by (cases "i < length items") simp_all
  qed
qed

lemma capc_halves:
  assumes "va_wf a" "va_used a * 2 < va_capc a" "va_capc a \<noteq> va_first a"
  shows "\<exists>k. va_capc a div 2 = va_first a * 2 ^ k" and "va_used a < va_capc a div 2"
proof -
  obtain k where k: "va_capc a = va_first a * 2 ^ k"
    using assms by (auto simp: va_wf_def)
  then obtain j where j: "k = Suc j" using assms(3) by (cases k) auto
  then have half: "va_capc a div 2 = va_first a * 2 ^ j" using k by simp
  then show "\<exists>k. va_capc a div 2 = va_first a * 2 ^ k" by blast
  have "va_capc a = (va_capc a div 2) * 2" using k j by simp
  then show "va_used a < va_capc a div 2" using assms(2) by linarith
qed

lemma varray_try_shrink_spec:
  assumes "va_wf a"
  obtains b where "varray_try_shrink True a = Some (0, b)" "va_wf b" "va_list b = va_list a"
    "va_used b = va_used a" "va_first b = va_first a"
    "va_used b = va_capc b \<longleftrightarrow> va_used a = va_capc a"
proof (cases "va_first a \<le> va_capc a \<and> va_used a * 2 < va_capc a \<and> va_capc a \<noteq> va_first a")
  case False
  have "va_used a * 2 < va_capc a \<Longrightarrow> va_items a \<noteq> []"
    using assms by (auto simp: va_wf_def)
  then have "varray_try_shrink True a = Some (0, a)"
    using False by (auto simp: varray_try_shrink_def varray_shrink_def)
  then show ?thesis using assms that by blast
next
  case True
  obtain rest where items: "va_items a = map Some (va_list a) @ rest"
    and rest: "length rest = va_capc a - va_used a"
    using va_items_split [OF assms] by blast
  have len: "length (va_list a) = va_used a" using assms by simp
  define c where "c = va_capc a div 2"
  have half: "\<exists>k. c = va_first a * 2 ^ k" "va_used a < c"
    using capc_halves [OF assms] True by (simp_all add: c_def)
  let ?b = "a\<lparr>va_capc := c, va_items := realloc_slots c (va_items a)\<rparr>"
  have "va_items a \<noteq> []" using True assms by (auto simp: va_wf_def)
  then have run: "varray_try_shrink True a = Some (0, ?b)"
    using True by (simp add: varray_try_shrink_def varray_shrink_def c_def Let_def)
  have "c \<le> length (va_items a)" using assms by (simp add: va_wf_def c_def)
  then have items': "va_items ?b = map Some (va_list a) @ take (c - va_used a) rest"
    using half(2) len by (simp add: realloc_slots_def items)
  have wf: "va_wf ?b \<and> va_list ?b = va_list a"
    by (rule va_wfI [OF _ items'])
      (use half rest len assms True in \<open>simp_all add: va_wf_def c_def\<close>)
  show ?thesis
    by (rule that [OF run wf [THEN conjunct1] wf [THEN conjunct2]]) (use half True in auto)
qed

text \<open>
  Deleting position \<open>i\<close>: the shift loop reads one slot past the used ones and the last write
  clears that slot, so the deletion leaves the block exactly when the array is full.
\<close>

lemma varray_del_spec:
  assumes "va_wf a" "i < va_used a"
  shows "(va_used a < va_capc a \<longrightarrow>
      (\<exists>a'. varray_del True a (int i) = Some (Some (va_list a ! i), a') \<and> va_wf a'
        \<and> va_list a' = list_del i (va_list a) \<and> va_first a' = va_first a \<and> va_used a' < va_capc a'))
    \<and> (va_used a = va_capc a \<longrightarrow> varray_del True a (int i) = None)"
proof -
  obtain b where b: "varray_try_shrink True a = Some (0, b)" "va_wf b" "va_list b = va_list a"
    "va_used b = va_used a" "va_first b = va_first a"
    "va_used b = va_capc b \<longleftrightarrow> va_used a = va_capc a"
    using varray_try_shrink_spec [OF assms(1)] by blast
  let ?xs = "va_list a"
  have len: "length ?xs = va_used a" using assms by simp
  obtain rest where items: "va_items b = map Some ?xs @ rest"
    and rest: "length rest = va_capc b - va_used a"
    using va_items_split [OF b(2)] b(3,4) by auto
  have cap: "length (va_items b) = va_capc b" "va_used a \<le> va_capc b"
    using b(2,4) by (auto simp: va_wf_def)
  have slot: "rd (va_items b) i = Some (Some (?xs ! i))"
    using va_slot [OF b(2)] assms(2) b(3,4) by simp
  have n: "i + (va_used a - i) = va_used a" "va_used a - i \<noteq> 0" using assms(2) by simp_all
  have run: "varray_del True a (int i) =
      Option.bind (varray_shift_down (va_items b) i (va_used a - i)) (\<lambda>items.
        Option.bind (wr items (va_used a) None) (\<lambda>items.
          Some (Some (?xs ! i), b\<lparr>va_items := items, va_used := va_used b - 1\<rparr>)))"
    unfolding varray_del_def b(1) using assms(2) by (simp add: b(4) slot)
  show ?thesis
  proof (cases "va_used a = va_capc a")
    case True
    then have "va_capc b = va_used a" using b(4,6) by simp
    then have "varray_del True a (int i) = None"
      unfolding run varray_shift_down_spec cap(1) n(1) using n(2) by simp
    with True show ?thesis by simp
  next
    case False
    then have lt: "va_used a < va_capc b" using b(4,6) cap(2) by simp
    then obtain s rest' where s: "rest = s # rest'" using rest by (cases rest) auto
    have "take i (va_items b) @ take (va_used a - i) (drop (i + 1) (va_items b)) @ drop (va_used a) (va_items b)
        = map Some (list_del i ?xs) @ s # s # rest'"
      using assms(2) len by (simp add: items s list_del_def take_map drop_map)
    then have shifted: "varray_shift_down (va_items b) i (va_used a - i)
        = Some (map Some (list_del i ?xs) @ s # s # rest')"
      unfolding varray_shift_down_spec cap(1) n(1) using lt by simp
    have upd: "wr (map Some (list_del i ?xs) @ s # s # rest') (va_used a) None
        = Some (map Some (list_del i ?xs) @ s # None # rest')"
      using assms(2) len by (cases "va_used a") (simp_all add: wr_def list_update_append)
    let ?c = "b\<lparr>va_items := map Some (list_del i ?xs) @ s # None # rest', va_used := va_used b - 1\<rparr>"
    have del: "varray_del True a (int i) = Some (Some (?xs ! i), ?c)"
      unfolding run shifted Option.bind.bind_lunit upd by (rule refl)
    have wf: "va_wf ?c \<and> va_list ?c = list_del i ?xs"
      by (rule va_wfI [where rest = "s # None # rest'"])
        (use b rest s len assms lt in \<open>auto simp: va_wf_def\<close>)
    have "va_used ?c < va_capc ?c" using lt assms(2) b(4) by simp
    then show ?thesis using False del wf b(5) by simp
  qed
qed

text \<open>Popping the tail never leaves the block; on an empty array it reads slot \<open>-1\<close>.\<close>

lemma varray_pop_tail_spec:
  assumes "va_wf a" "va_list a \<noteq> []"
  obtains a' where "varray_pop_tail True a = Some (Some (last (va_list a)), a')" "va_wf a'"
    "va_list a' = butlast (va_list a)" "va_first a' = va_first a"
proof -
  obtain b where b: "varray_try_shrink True a = Some (0, b)" "va_wf b" "va_list b = va_list a"
    "va_used b = va_used a" "va_first b = va_first a"
    using varray_try_shrink_spec [OF assms(1)] by metis
  obtain ys y where xs: "va_list a = ys @ [y]"
    using assms(2) by (metis append_butlast_last_id)
  then have used: "va_used a = Suc (length ys)"
    using va_list_length [OF assms(1)] by simp
  obtain rest where items: "va_items b = map Some ys @ Some y # rest"
    and rest: "length rest = va_capc b - va_used a"
    using va_items_split [OF b(2)] b(3,4) xs by auto
  let ?c = "b\<lparr>va_items := map Some ys @ None # rest, va_used := va_used b - 1\<rparr>"
  have pop: "varray_pop_tail True a = Some (Some y, ?c)"
    unfolding varray_pop_tail_def b(1)
    by (simp add: b(4) used items rd_def wr_def nth_append list_update_append)
  have "va_used b \<le> va_capc b" using b(2) by (simp add: va_wf_def)
  then have wf: "va_wf ?c \<and> va_list ?c = ys"
    by (intro va_wfI [where rest = "None # rest"])
      (use b rest used in \<open>auto simp: va_wf_def\<close>)
  show ?thesis
    by (rule that [OF _ wf [THEN conjunct1]]) (use pop wf b(5) xs in simp_all)
qed

lemma varray_pop_tail_empty:
  assumes "va_wf a" "va_list a = []"
  shows "varray_pop_tail True a = None"
proof -
  obtain b where "varray_try_shrink True a = Some (0, b)" "va_used b = va_used a"
    using varray_try_shrink_spec [OF assms(1)] by metis
  moreover have "va_used a = 0" using assms by (simp add: va_list_Nil)
  ultimately show ?thesis by (simp add: varray_pop_tail_def)
qed

lemma varray_zero_loop_spec:
  assumes "va_wf a" "va_used a \<le> n"
  shows "\<exists>a'. varray_zero_loop n True cb a s = Some (a', fold (\<lambda>x. cb (Some x)) (rev (va_list a)) s)
    \<and> va_wf a' \<and> va_list a' = []"
  using assms
proof (induction n arbitrary: a s)
  case 0
  then have "va_list a = []" by (simp add: va_list_Nil)
  with 0 show ?case by simp
next
  case (Suc n)
  show ?case
  proof (cases "va_list a = []")
    case True
    then have "va_used a = 0" using Suc.prems(1) by (simp add: va_list_Nil)
    with Suc.prems True show ?thesis by simp
  next
    case False
    obtain b where b: "varray_pop_tail True a = Some (Some (last (va_list a)), b)" "va_wf b"
      "va_list b = butlast (va_list a)"
      using varray_pop_tail_spec [OF Suc.prems(1) False] by metis
    have used: "va_used a = length (va_list a)" "va_used b = length (va_list a) - 1"
      using Suc.prems(1) b(2,3) va_list_length [OF b(2)] by simp_all
    then have "va_used a \<noteq> 0" "va_used b \<le> n" using False Suc.prems(2) by auto
    moreover obtain ys y where "va_list a = ys @ [y]"
      using False by (metis append_butlast_last_id)
    ultimately show ?thesis
      using Suc.IH [OF b(2), of "cb (Some (last (va_list a))) s"] b by simp
  qed
qed

lemma varray_zero_empties:
  "va_wf a \<Longrightarrow> \<exists>a'. varray_zero True a cb s = Some (a', fold (\<lambda>x. cb (Some x)) (rev (va_list a)) s)
    \<and> va_wf a' \<and> va_list a' = []"
  by (simp add: varray_zero_def varray_zero_loop_spec)

subsection \<open>Iterating\<close>

text \<open>What \<open>varray_iterate\<close> does to the list: the callback on each item in order, until it
  returns a positive number.\<close>

fun list_iterate :: "('a \<Rightarrow> 's \<Rightarrow> (int \<times> 'a \<times> 's) option) \<Rightarrow> 'a list \<Rightarrow> 's \<Rightarrow> ('a list \<times> 's) option" where
  "list_iterate cb [] s = Some ([], s)"
| "list_iterate cb (x # xs) s = do {
     (ret, x', s') \<leftarrow> cb x s;
     if 0 < ret then Some (x' # xs, s')
     else do {
       (xs', s'') \<leftarrow> list_iterate cb xs s';
       Some (x' # xs', s'')
     }
   }"

lemma list_iterate_length:
  "list_iterate cb xs s = Some (ys, t) \<Longrightarrow> length ys = length xs"
proof (induction xs arbitrary: s ys t)
  case Nil
  then show ?case by simp
next
  case (Cons x xs)
  then obtain ret x' s' where "cb x s = Some (ret, x', s')"
    by (cases "cb x s") auto
  with Cons.prems show ?case
    by (cases "list_iterate cb xs s'") (auto split: if_splits dest: Cons.IH)
qed

lemma varray_iterate_from_spec:
  "varray_iterate_from cb (length pre) (length xs) (pre @ map Some xs @ rest) s
     = map_option (\<lambda>(ys, t). (pre @ map Some ys @ rest, t)) (list_iterate cb xs s)"
proof (induction xs arbitrary: pre s)
  case Nil
  then show ?case by simp
next
  case (Cons x xs)
  show ?case
  proof (cases "cb x s")
    case None
    then show ?thesis by (simp add: rd_def nth_append)
  next
    case (Some r)
    obtain ret x' s' where r: "r = (ret, x', s')" by (cases r) auto
    show ?thesis
      using Some r Cons.IH [of "pre @ [Some x']" s']
      by (cases "list_iterate cb xs s'")
        (auto simp: rd_def wr_def nth_append list_update_append)
  qed
qed

lemma varray_iterate_spec:
  assumes "va_wf a" "list_iterate cb (va_list a) s = Some (ys, t)"
  obtains a' where "varray_iterate a cb s = Some (a', t)" "va_wf a'" "va_list a' = ys"
    "va_first a' = va_first a" "va_capc a' = va_capc a"
proof -
  obtain rest where items: "va_items a = map Some (va_list a) @ rest"
    and rest: "length rest = va_capc a - va_used a"
    using va_items_split [OF assms(1)] by blast
  have len: "length (va_list a) = va_used a" "length ys = va_used a"
    using assms list_iterate_length by force+
  let ?b = "a\<lparr>va_items := map Some ys @ rest\<rparr>"
  have "varray_iterate a cb s = Some (?b, t)"
    using varray_iterate_from_spec [of cb "[]" "va_list a" rest s] assms(2) len items
    by (simp add: varray_iterate_def)
  moreover have "va_wf ?b \<and> va_list ?b = ys"
    by (rule va_wfI [where rest = rest]) (use assms len rest in \<open>auto simp: va_wf_def\<close>)
  ultimately show ?thesis by (intro that [of ?b]) auto
qed

subsection \<open>Sorted insertion\<close>

lemma vsorted_array_scan_spec:
  assumes "va_wf a" "i + n = length (va_list a)"
  shows "vsorted_array_scan p a i n
    = Some (i + length (takeWhile (\<lambda>x. \<not> p x) (drop i (va_list a))))"
  using assms(2)
proof (induction n arbitrary: i)
  case 0
  then show ?case by simp
next
  case (Suc n)
  then have "drop i (va_list a) = va_list a ! i # drop (i + 1) (va_list a)"
    by (simp add: Cons_nth_drop_Suc)
  moreover have "varray_get a (int i) = Some (Some (va_list a ! i))"
    using Suc.prems assms(1) by (simp del: va_list_length)
  ultimately show ?case
    using Suc.IH [of "i + 1"] Suc.prems by simp
qed

text \<open>The list after inserting \<open>x\<close> before the first item that it is at least as good as.\<close>

definition sorted_ins :: "('a \<Rightarrow> 'a \<Rightarrow> int) \<Rightarrow> 'a \<Rightarrow> 'a list \<Rightarrow> 'a list" where
  "sorted_ins cmp x xs =
     takeWhile (\<lambda>y. cmp y x < 0) xs @ x # dropWhile (\<lambda>y. cmp y x < 0) xs"

lemma mset_sorted_ins [simp]: "mset (sorted_ins cmp x xs) = add_mset x (mset xs)"
  by (induction xs) (auto simp: sorted_ins_def)

lemma set_sorted_ins [simp]: "set (sorted_ins cmp x xs) = insert x (set xs)"
  by (metis mset_sorted_ins set_mset_add_mset_insert set_mset_mset)

lemma mset_fold_sorted_ins: "mset (fold (sorted_ins cmp) xs ys) = mset xs + mset ys"
  by (induction xs arbitrary: ys) simp_all

text \<open>The insertion is at the tail, or it is in the middle and the shift stays in the block.\<close>

definition ins_fits :: "('a \<Rightarrow> 'a \<Rightarrow> int) \<Rightarrow> 'a \<Rightarrow> 'a varray \<Rightarrow> bool" where
  "ins_fits cmp x a \<longleftrightarrow> (\<forall>y \<in> set (va_list a). cmp y x < 0) \<or> va_used a + 1 < grown_capc a"

lemma vsorted_array_add_spec:
  fixes s :: "('a, 'c) vsorted_array"
  assumes "va_wf (sa_array s)"
  defines "cmp \<equiv> \<lambda>y x. sa_cmp s y x (Cookie (sa_cookie s))"
  shows "(ins_fits cmp x (sa_array s) \<longrightarrow>
      (\<exists>a'. vsorted_array_add True s (Some x) = Some (0, s\<lparr>sa_array := a'\<rparr>) \<and> va_wf a'
        \<and> va_list a' = sorted_ins cmp x (va_list (sa_array s))
        \<and> va_capc a' = grown_capc (sa_array s) \<and> va_first a' = va_first (sa_array s)))
    \<and> (\<not> ins_fits cmp x (sa_array s) \<longrightarrow> vsorted_array_add True s (Some x) = None)"
proof -
  let ?a = "sa_array s"
  let ?xs = "va_list ?a"
  let ?q = "\<lambda>y. cmp y x < 0"
  let ?i = "length (takeWhile ?q ?xs)"
  have len: "length ?xs = va_used ?a" using assms(1) by simp
  have scan: "vsorted_array_scan (\<lambda>y. sa_cmp s y x (Cookie (sa_cookie s)) \<ge> 0) ?a 0 (va_used ?a)
      = Some ?i"
    using vsorted_array_scan_spec [OF assms(1), of 0 "va_used ?a"] len
    by (simp add: cmp_def not_le)
  have ins: "sorted_ins cmp x ?xs = list_ins ?i x ?xs"
    by (simp add: sorted_ins_def list_ins_takeWhile)
  show ?thesis
  proof (cases "\<forall>y \<in> set ?xs. ?q y")
    case True
    then have "takeWhile ?q ?xs = ?xs" by (simp add: takeWhile_eq_all_conv)
    then have "?i = va_used ?a" using len by (simp only:)
    then have run: "vsorted_array_add True s (Some x) = map_option (\<lambda>(ret, a). (ret, s\<lparr>sa_array := a\<rparr>))
        (varray_add_tail True ?a (Some x))"
      using scan by (cases "varray_add_tail True ?a (Some x)")
        (auto simp: vsorted_array_add_def varray_size_def)
    obtain a' where "varray_add_tail True ?a (Some x) = Some (0, a')" "va_wf a'"
      "va_list a' = ?xs @ [x]" "va_capc a' = grown_capc ?a" "va_first a' = va_first ?a"
      using varray_add_tail_spec [OF assms(1)] by blast
    moreover have "sorted_ins cmp x ?xs = ?xs @ [x]"
      using ins \<open>?i = va_used ?a\<close> len by (metis list_ins_length)
    ultimately show ?thesis using run True by (auto simp: ins_fits_def)
  next
    case False
    then have lt: "?i < va_used ?a"
      using len by (metis length_takeWhile_le nat_less_le takeWhile_eq_take take_all
          takeWhile_eq_all_conv order_refl)
    then have run: "vsorted_array_add True s (Some x) = map_option (\<lambda>(ret, a). (ret, s\<lparr>sa_array := a\<rparr>))
        (varray_add True ?a (int ?i) (Some x))"
      using scan by (cases "varray_add True ?a (int ?i) (Some x)")
        (auto simp: vsorted_array_add_def varray_size_def)
    show ?thesis
      unfolding run ins ins_fits_def using varray_add_spec [OF assms(1) lt, of x] False
      by (auto simp: not_less)
  qed
qed

subsection \<open>The contract of a ranking\<close>

text \<open>
  What a comparison callback must promise for the insertion to keep the array sorted, on the
  items that satisfy \<open>ok\<close>: \<open>cmp y x \<ge> 0\<close> says that \<open>x\<close> is at least as good as \<open>y\<close>, one of two
  items is at least as good as the other, and the relation is transitive. A list is ranked when
  every item is at least as good as the ones behind it.
\<close>

locale ranking =
  fixes ok :: "'a \<Rightarrow> bool" and cmp :: "'a \<Rightarrow> 'a \<Rightarrow> int"
  assumes total: "\<lbrakk>ok x; ok y; cmp y x < 0\<rbrakk> \<Longrightarrow> cmp x y \<ge> 0"
    and trans: "\<lbrakk>ok x; ok y; ok z; cmp z y \<ge> 0; cmp y x \<ge> 0\<rbrakk> \<Longrightarrow> cmp z x \<ge> 0"
begin

lemma sorted_ins_ranked:
  assumes "sorted_wrt (\<lambda>a b. cmp b a \<ge> 0) xs" "\<forall>y \<in> set xs. ok y" "ok x"
  shows "sorted_wrt (\<lambda>a b. cmp b a \<ge> 0) (sorted_ins cmp x xs)"
  using assms
proof (induction xs)
  case Nil
  then show ?case by (simp add: sorted_ins_def)
next
  case (Cons y ys)
  show ?case
  proof (cases "cmp y x < 0")
    case True
    have "sorted_ins cmp x (y # ys) = y # sorted_ins cmp x ys"
      using True by (simp add: sorted_ins_def)
    then show ?thesis
      using Cons True total [of x y] by auto
  next
    case False
    then show ?thesis
      using Cons.prems trans [of x y] by (auto simp: sorted_ins_def)
  qed
qed

lemma fold_sorted_ins_ranked:
  assumes "sorted_wrt (\<lambda>a b. cmp b a \<ge> 0) ys" "\<forall>y \<in> set ys. ok y" "\<forall>x \<in> set xs. ok x"
  shows "sorted_wrt (\<lambda>a b. cmp b a \<ge> 0) (fold (sorted_ins cmp) xs ys)"
  using assms
proof (induction xs arbitrary: ys)
  case (Cons x xs)
  then show ?case using sorted_ins_ranked [of ys x] by simp
qed simp

text \<open>The first \<open>n\<close> of a ranked list are at least as good as the rest.\<close>

lemma ranked_take_best:
  assumes "sorted_wrt (\<lambda>a b. cmp b a \<ge> 0) xs" "x \<in> set (take n xs)" "y \<in> set (drop n xs)"
  shows "cmp y x \<ge> 0"
  using assms by (metis append_take_drop_id sorted_wrt_append)

end

end
