(* ===== verification/BeCodec.thy ===== *)
theory BeCodec
  imports VPrelude
begin

section \<open>The bencode codec (vdht_core.c)\<close>

text \<open>
  A \<open>struct be_node\<close> is a value of \<open>be_node\<close>: a \<open>BE_STR\<close> carries the bytes behind its length
  header, \<open>BE_LIST\<close> and \<open>BE_DICT\<close> the items before the terminating \<open>NULL\<close>. The decoder gets the
  bytes of the buffer from the cursor \<open>*data\<close> on, all that is allocated, and \<open>*data_len\<close>; reading
  past the last of them is a crash. A result \<open>Some None\<close> is the code's \<open>NULL\<close> (or \<open>-1\<close>).
  Allocation is taken to succeed here, except for the absurd sizes that a negative length gives.
\<close>

datatype be_node =
    BeStr bytes
  | BeInt int
  | BeList "be_node list"
  | BeDict "(bytes \<times> be_node) list"

subsection \<open>Decimal numbers of the C library\<close>

definition c_isspace :: "byte \<Rightarrow> bool" where
  "c_isspace b \<longleftrightarrow> b = 32 \<or> (9 \<le> b \<and> b \<le> 13)"

definition c_isdigit :: "byte \<Rightarrow> bool" where
  "c_isdigit b \<longleftrightarrow> 48 \<le> b \<and> b \<le> 57"

fun digits_val :: "nat \<Rightarrow> bytes \<Rightarrow> nat" where
  "digits_val acc [] = acc"
| "digits_val acc (d # ds) = digits_val (acc * 10 + (unat d - 48)) ds"

text \<open>
  \<open>strtol(s, &endp, 10)\<close> on a 64-bit \<open>long\<close>: the value, the distance from \<open>s\<close> to \<open>endp\<close> and
  whether \<open>errno\<close> is set. Without digits the value is 0 and \<open>endp\<close> is \<open>s\<close>. A scan that reaches
  the end of the allocated bytes reads past them.
\<close>

definition strtol :: "bytes \<Rightarrow> (int \<times> nat \<times> bool) option" where
  "strtol s =
     (let ws = length (takeWhile c_isspace s);
          s1 = drop ws s;
          neg = (s1 \<noteq> [] \<and> hd s1 = 45);
          sg = (if s1 \<noteq> [] \<and> (hd s1 = 45 \<or> hd s1 = 43) then 1 else 0);
          ds = takeWhile c_isdigit (drop sg s1);
          n = ws + sg + length ds;
          v = (if neg then - int (digits_val 0 ds) else int (digits_val 0 ds))
      in do {
        vassert (n < length s);
        if ds = [] then Some (0, 0, False)
        else if v < - (2 ^ 63) then Some (- (2 ^ 63), n, True)
        else if 2 ^ 63 \<le> v then Some (2 ^ 63 - 1, n, True)
        else Some (v, n, False)
      })"

text \<open>The cast \<open>(int32_t)\<close>.\<close>

definition to_int32 :: "int \<Rightarrow> int" where
  "to_int32 v = sint (word_of_int v :: u32)"

text \<open>The conversion \<open>%i\<close> of \<open>snprintf\<close>.\<close>

fun dec_nat :: "nat \<Rightarrow> bytes" where
  "dec_nat n = (if n < 10 then [of_nat (48 + n)] else dec_nat (n div 10) @ [of_nat (48 + n mod 10)])"

declare dec_nat.simps [simp del]

definition dec_int :: "int \<Rightarrow> bytes" where
  "dec_int i = (if i < 0 then 45 # dec_nat (nat (- i)) else dec_nat (nat i))"

subsection \<open>Freeing\<close>

text \<open>
  The nodes that \<open>be_free\<close> meets on an error path of the decoder: a \<open>BE_STR\<close> whose \<open>val.s\<close> may
  still be \<open>NULL\<close>, a list that is \<open>NULL\<close>-terminated, a dictionary whose last \<open>val\<close> was written
  (\<open>NULL\<close>) or was not.
\<close>

datatype be_partial =
    PStr "bytes option"
  | PInt
  | PList "be_node list"
  | PDict "(bytes \<times> be_node) list" bool

text \<open>
  \<open>be_free\<close> of a \<open>BE_STR\<close> with \<open>val.s = NULL\<close> gives \<open>free\<close> the address \<open>-4\<close>; the walk over a
  dictionary whose last \<open>val\<close> was never written reads an indeterminate pointer. Complete
  nodes are freed without trouble.
\<close>

fun be_free :: "be_partial \<Rightarrow> unit option" where
  "be_free (PStr s) = (if s = None then None else Some ())"
| "be_free PInt = Some ()"
| "be_free (PList l) = Some ()"
| "be_free (PDict d terminated) = (if terminated then Some () else None)"

subsection \<open>Decoding\<close>

definition be_decode_int :: "bytes \<Rightarrow> int \<Rightarrow> (int \<times> bytes \<times> int) option option" where
  "be_decode_int data data_len = do {
     (v, n, err) \<leftarrow> strtol data;
     if err then Some None
     else Some (Some (to_int32 v, drop n data, data_len - int n))
   }"

text \<open>
  \<open>malloc(sizeof(int32_t) + len + 1)\<close> with \<open>len < -5\<close> asks for nearly \<open>2^64\<close> bytes and fails;
  with \<open>-5 \<le> len < 0\<close> it succeeds, and the header or the \<open>memcpy\<close> that follows leaves the block.
\<close>

definition be_decode_bytes :: "bytes \<Rightarrow> int \<Rightarrow> (bytes \<times> bytes \<times> int) option option" where
  "be_decode_bytes data data_len = do {
     r \<leftarrow> be_decode_int data data_len;
     case r of
       None \<Rightarrow> Some None
     | Some (len, data, data_len) \<Rightarrow>
         if data_len - 1 < len then Some None
         else do {
           c \<leftarrow> rd data 0;
           if c = 58 then
             (if len < -5 then Some None
              else do {
                vassert (0 \<le> len);
                let data = drop 1 data;
                vassert (nat len \<le> length data);
                Some (Some (take (nat len) data, drop (nat len) data, data_len - 1 - len))
              })
           else Some None
         }
   }"

text \<open>
  \<open>_be_decode\<close> and the loops of its list and dictionary cases. The first argument bounds the
  number of nested calls and iterations; \<open>be_decode_fuel\<close> below shows that what \<open>be_decode\<close>
  gives is enough.
\<close>

fun be_decode_node :: "nat \<Rightarrow> bytes \<Rightarrow> int \<Rightarrow> (be_node \<times> bytes \<times> int) option option"
and be_decode_list :: "nat \<Rightarrow> be_node list \<Rightarrow> bytes \<Rightarrow> int \<Rightarrow> (be_node \<times> bytes \<times> int) option option"
and be_decode_dict ::
  "nat \<Rightarrow> (bytes \<times> be_node) list \<Rightarrow> bytes \<Rightarrow> int \<Rightarrow> (be_node \<times> bytes \<times> int) option option"
where
  "be_decode_node 0 data data_len = None"
| "be_decode_node (Suc f) data data_len = do {
     vassert (0 < data_len);
     c \<leftarrow> rd data 0;
     if c = 108 then be_decode_list f [] (drop 1 data) (data_len - 1)
     else if c = 100 then be_decode_dict f [] (drop 1 data) (data_len - 1)
     else if c = 105 then do {
       r \<leftarrow> be_decode_int (drop 1 data) (data_len - 1);
       case r of
         None \<Rightarrow> do { be_free PInt; Some None }
       | Some (i, data, data_len) \<Rightarrow> do {
           c \<leftarrow> rd data 0;
           if c \<noteq> 101 then do { be_free PInt; Some None }
           else Some (Some (BeInt i, drop 1 data, data_len - 1))
         }
     }
     else if c_isdigit c then do {
       r \<leftarrow> be_decode_bytes data data_len;
       case r of
         None \<Rightarrow> do { be_free (PStr None); Some None }
       | Some (s, data, data_len) \<Rightarrow> Some (Some (BeStr s, data, data_len))
     }
     else Some None
   }"
| "be_decode_list 0 l data data_len = None"
| "be_decode_list (Suc f) l data data_len = do {
     c \<leftarrow> rd data 0;
     if c = 101 then Some (Some (BeList l, drop 1 data, data_len - 1))
     else do {
       r \<leftarrow> be_decode_node f data data_len;
       case r of
         None \<Rightarrow> do { be_free (PList l); Some None }
       | Some (n, data, data_len) \<Rightarrow> be_decode_list f (l @ [n]) data data_len
     }
   }"
| "be_decode_dict 0 d data data_len = None"
| "be_decode_dict (Suc f) d data data_len = do {
     c \<leftarrow> rd data 0;
     if c = 101 then Some (Some (BeDict d, drop 1 data, data_len - 1))
     else do {
       r \<leftarrow> be_decode_bytes data data_len;
       case r of
         None \<Rightarrow> do { be_free (PDict d False); Some None }
       | Some (key, data, data_len) \<Rightarrow> do {
           r \<leftarrow> be_decode_node f data data_len;
           case r of
             None \<Rightarrow> do { be_free (PDict d True); Some None }
           | Some (n, data, data_len) \<Rightarrow> be_decode_dict f (d @ [(key, n)]) data data_len
         }
     }
   }"

definition be_decode :: "bytes \<Rightarrow> int \<Rightarrow> be_node option option" where
  "be_decode data len = do {
     r \<leftarrow> be_decode_node (2 * length data + 1) data len;
     Some (map_option fst r)
   }"

text \<open>A string literal comes with its terminating NUL.\<close>

definition be_decode_str :: "string \<Rightarrow> be_node option option" where
  "be_decode_str s = be_decode (cstr s @ [0]) (int (length s))"

subsection \<open>Building and reading nodes\<close>

definition be_create_dict :: "be_node option option" where
  "be_create_dict = be_decode_str ''de''"

definition be_create_list :: "be_node option option" where
  "be_create_list = be_decode_str ''le''"

definition be_create_str :: "string \<Rightarrow> be_node" where
  "be_create_str s = BeStr (cstr s)"

definition be_create_buf :: "bytes \<Rightarrow> be_node option" where
  "be_create_buf buf = do { vassert (0 < length buf); Some (BeStr buf) }"

definition be_create_int :: "int \<Rightarrow> be_node" where
  "be_create_int num = BeInt num"

fun be_add_keypair :: "be_node \<Rightarrow> string \<Rightarrow> be_node \<Rightarrow> be_node option" where
  "be_add_keypair (BeDict d) str node = Some (BeDict (d @ [(cstr str, node)]))"
| "be_add_keypair _ str node = None"

fun be_add_list :: "be_node \<Rightarrow> be_node \<Rightarrow> be_node option" where
  "be_add_list (BeList l) node = Some (BeList (l @ [node]))"
| "be_add_list _ node = None"

text \<open>The functions that read a node get a pointer that may be \<open>NULL\<close> (\<open>None\<close>).\<close>

fun be_unpack_int :: "be_node option \<Rightarrow> int \<Rightarrow> (int \<times> int) option" where
  "be_unpack_int None val = None"
| "be_unpack_int (Some (BeInt i)) val = Some (0, i)"
| "be_unpack_int (Some _) val = Some (-1, val)"

text \<open>\<open>buf\<close> is the memory the bytes are copied to, of which \<open>len\<close> bytes may be written.\<close>

fun be_unpack_buf :: "be_node option \<Rightarrow> bytes \<Rightarrow> nat \<Rightarrow> (int \<times> bytes) option" where
  "be_unpack_buf None buf len = None"
| "be_unpack_buf (Some (BeStr s)) buf len = do {
     vassert (0 < len);
     if len < length s then Some (-1, buf)
     else do {
       vassert (length s \<le> length buf);
       Some (0, s @ drop (length s) buf)
     }
   }"
| "be_unpack_buf (Some _) buf len = do { vassert (0 < len); Some (-1, buf) }"

fun be_find_in :: "(bytes \<times> be_node) list \<Rightarrow> bytes \<Rightarrow> be_node option" where
  "be_find_in [] key = None"
| "be_find_in ((k, n) # d) key = (if key = until_nul k then Some n else be_find_in d key)"

fun be_find_node :: "be_node option \<Rightarrow> string \<Rightarrow> be_node option option" where
  "be_find_node None key = None"
| "be_find_node (Some (BeDict d)) key = Some (be_find_in d (cstr key))"
| "be_find_node (Some _) key = Some None"

subsection \<open>Encoding\<close>

text \<open>
  \<open>be_encode node buf len\<close> returns the bytes it wrote at \<open>buf\<close>; \<open>snprint\<close> is the pair of an
  \<open>snprintf\<close> and the test \<open>ret >= len-off\<close> after it, with \<open>room = len - off\<close>. The \<open>memcpy\<close> of
  a string's bytes is not bounded by the code.
\<close>

definition snprint :: "int \<Rightarrow> bytes \<Rightarrow> bytes option" where
  "snprint room s = (if int (length s) \<ge> room then None else Some s)"

fun be_encode :: "be_node \<Rightarrow> int \<Rightarrow> bytes option option"
and be_encode_list :: "be_node list \<Rightarrow> int \<Rightarrow> bytes option option"
and be_encode_dict :: "(bytes \<times> be_node) list \<Rightarrow> int \<Rightarrow> bytes option option"
where
  "be_encode (BeStr s) len = do {
     vassert (0 < len);
     case snprint len (dec_int (int (length s)) @ [58]) of
       None \<Rightarrow> Some None
     | Some h \<Rightarrow> do {
         vassert (int (length h + length s) \<le> len);
         Some (Some (h @ s))
       }
   }"
| "be_encode (BeInt i) len = do {
     vassert (0 < len);
     Some (snprint len (105 # dec_int i @ [101]))
   }"
| "be_encode (BeList l) len = do {
     vassert (0 < len);
     case snprint len [108] of
       None \<Rightarrow> Some None
     | Some h \<Rightarrow> do {
         r \<leftarrow> be_encode_list l (len - 1);
         Some (map_option ((@) h) r)
       }
   }"
| "be_encode (BeDict d) len = do {
     vassert (0 < len);
     case snprint len [100] of
       None \<Rightarrow> Some None
     | Some h \<Rightarrow> do {
         r \<leftarrow> be_encode_dict d (len - 1);
         Some (map_option ((@) h) r)
       }
   }"
| "be_encode_list [] room = Some (snprint room [101])"
| "be_encode_list (n # l) room = do {
     r \<leftarrow> be_encode n room;
     case r of
       None \<Rightarrow> Some None
     | Some s \<Rightarrow> do {
         r \<leftarrow> be_encode_list l (room - int (length s));
         Some (map_option ((@) s) r)
       }
   }"
| "be_encode_dict [] room = Some (snprint room [101])"
| "be_encode_dict ((key, n) # d) room =
     (case snprint room (dec_int (int (length key)) @ 58 # until_nul key) of
        None \<Rightarrow> Some None
      | Some k \<Rightarrow> do {
          r \<leftarrow> be_encode n (room - int (length k));
          case r of
            None \<Rightarrow> Some None
          | Some s \<Rightarrow> do {
              r \<leftarrow> be_encode_dict d (room - int (length k) - int (length s));
              Some (map_option ((@) (k @ s)) r)
            }
        })"

subsection \<open>Decimal round trip\<close>

lemma digits_val_append: "digits_val acc (xs @ ys) = digits_val (digits_val acc xs) ys"
  by (induction xs arbitrary: acc) auto

lemma unat_digit: "n < 10 \<Longrightarrow> unat (of_nat (48 + n) :: byte) = 48 + n"
  by (simp add: unat_of_nat del: of_nat_add)

lemma c_isdigit_digit: "n < 10 \<Longrightarrow> c_isdigit (of_nat (48 + n))"
  unfolding c_isdigit_def word_le_nat_alt by (simp add: unat_digit del: of_nat_add)

lemma c_isdigit_not [simp]:
  "c_isdigit b \<Longrightarrow> \<not> c_isspace b"
  "c_isdigit b \<Longrightarrow> b \<noteq> 45" "c_isdigit b \<Longrightarrow> b \<noteq> 43"
  "c_isdigit b \<Longrightarrow> b \<noteq> 100" "c_isdigit b \<Longrightarrow> b \<noteq> 101"
  "c_isdigit b \<Longrightarrow> b \<noteq> 105" "c_isdigit b \<Longrightarrow> b \<noteq> 108"
  by (auto simp: c_isdigit_def c_isspace_def word_le_nat_alt)

lemma dec_nat_props:
  "dec_nat n \<noteq> [] \<and> (\<forall>d \<in> set (dec_nat n). c_isdigit d) \<and> digits_val 0 (dec_nat n) = n"
proof (induction n rule: dec_nat.induct)
  case (1 n)
  show ?case
  proof (cases "n < 10")
    case True
    then show ?thesis
      using c_isdigit_digit [OF True] unat_digit [OF True] by (simp add: dec_nat.simps)
  next
    case False
    have "n mod 10 < 10" by simp
    then have "c_isdigit (of_nat (48 + n mod 10))"
      "unat (of_nat (48 + n mod 10) :: byte) = 48 + n mod 10"
      using c_isdigit_digit unat_digit by blast+
    moreover have "dec_nat n = dec_nat (n div 10) @ [of_nat (48 + n mod 10)]"
      using False by (subst dec_nat.simps) simp
    ultimately show ?thesis
      using False 1 by (auto simp: digits_val_append simp del: of_nat_add)
  qed
qed

lemma dec_nat_digits: "d \<in> set (dec_nat n) \<Longrightarrow> c_isdigit d"
  using dec_nat_props by blast

lemma dec_nat_nonempty [simp]: "dec_nat n \<noteq> []"
  using dec_nat_props by blast

lemma digits_val_dec_nat [simp]: "digits_val 0 (dec_nat n) = n"
  using dec_nat_props by blast

lemma dec_int_nat [simp]: "dec_int (int n) = dec_nat n"
  by (simp add: dec_int_def)

lemma takeWhile_digits:
  assumes "\<not> c_isdigit c"
  shows "takeWhile c_isdigit (dec_nat n @ c # rest) = dec_nat n"
  using assms dec_nat_digits by (simp add: takeWhile_append2)

lemma dec_nat_hd: obtains d ds where "dec_nat n = d # ds" "c_isdigit d"
  using dec_nat_digits [of _ n] by (cases "dec_nat n") auto

lemma strtol_dec_nat:
  assumes "\<not> c_isdigit c" "n < 2 ^ 63"
  shows "strtol (dec_nat n @ c # rest) = Some (int n, length (dec_nat n), False)"
proof -
  obtain d ds where d: "dec_nat n = d # ds" "c_isdigit d" using dec_nat_hd by blast
  have "takeWhile c_isdigit (d # ds @ c # rest) = d # ds"
    using takeWhile_digits [OF assms(1), of n rest] d by simp
  moreover have "digits_val 0 (d # ds) = n" using digits_val_dec_nat [of n] d by simp
  moreover have "int n < 9223372036854775808" using assms(2) by simp
  ultimately show ?thesis
    unfolding strtol_def Let_def d(1) using d(2) by simp
qed

lemma strtol_dec_int:
  assumes "\<not> c_isdigit c" "int32_ok i"
  shows "strtol (dec_int i @ c # rest) = Some (i, length (dec_int i), False)"
proof (cases "i < 0")
  case False
  then show ?thesis
    using strtol_dec_nat [OF assms(1), of "nat i"] assms(2) by (simp add: dec_int_def int32_ok_def)
next
  case True
  let ?n = "nat (- i)"
  obtain d ds where d: "dec_nat ?n = d # ds" "c_isdigit d" using dec_nat_hd by blast
  have "takeWhile c_isdigit (d # ds @ c # rest) = d # ds"
    using takeWhile_digits [OF assms(1), of ?n rest] d by simp
  moreover have "digits_val 0 (d # ds) = ?n" using digits_val_dec_nat [of ?n] d by simp
  moreover have "\<not> c_isspace 45" by (simp add: c_isspace_def word_le_nat_alt)
  ultimately show ?thesis
    unfolding strtol_def Let_def dec_int_def using True assms(2) d by (simp add: int32_ok_def)
qed

lemma to_int32_id [simp]: "int32_ok i \<Longrightarrow> to_int32 i = i"
  by (simp add: to_int32_def)

lemma be_decode_int_dec:
  assumes "\<not> c_isdigit c" "int32_ok i"
  shows "be_decode_int (dec_int i @ c # rest) data_len
    = Some (Some (i, c # rest, data_len - int (length (dec_int i))))"
  using strtol_dec_int [OF assms] assms(2) by (simp add: be_decode_int_def)

subsection \<open>The decoder consumes its input, so its fuel is enough\<close>

lemma be_decode_int_consumes:
  "be_decode_int data dl = Some (Some (i, data', dl')) \<Longrightarrow> length data' \<le> length data"
  by (auto simp: be_decode_int_def run_simps split: if_splits)

lemma be_decode_bytes_consumes:
  assumes "be_decode_bytes data dl = Some (Some (s, data', dl'))"
  shows "length data' < length data"
proof -
  obtain len d1 dl1 where i: "be_decode_int data dl = Some (Some (len, d1, dl1))"
    using assms by (auto simp: be_decode_bytes_def run_simps split: option.splits)
  moreover from i assms have "length data' < length d1"
    by (auto simp: be_decode_bytes_def run_simps rd_Some_iff Let_def split: if_splits)
  ultimately show ?thesis using be_decode_int_consumes by fastforce
qed

lemma be_decode_consumes:
  "(be_decode_node f data dl = Some (Some (n, data', dl')) \<longrightarrow> length data' < length data)
   \<and> (be_decode_list f l data dl = Some (Some (n, data', dl')) \<longrightarrow> length data' < length data)
   \<and> (be_decode_dict f d data dl = Some (Some (n, data', dl')) \<longrightarrow> length data' < length data)"
proof (induction f arbitrary: l d data dl n data' dl')
  case 0
  then show ?case by simp
next
  case (Suc f)
  note node = Suc.IH [THEN conjunct1, rule_format]
    and list = Suc.IH [THEN conjunct2, THEN conjunct1, rule_format]
    and dict = Suc.IH [THEN conjunct2, THEN conjunct2, rule_format]
  show ?case
  proof (intro conjI impI)
    assume "be_decode_node (Suc f) data dl = Some (Some (n, data', dl'))"
    then show "length data' < length data"
      by (auto simp: rd_Some_iff simp flip: length_greater_0_conv
          split: if_splits option.splits Option.bind_splits
          dest!: list dict be_decode_int_consumes be_decode_bytes_consumes)
  next
    assume "be_decode_list (Suc f) l data dl = Some (Some (n, data', dl'))"
    then show "length data' < length data"
      by (auto simp: run_simps rd_Some_iff split: if_splits option.splits dest!: list node)
  next
    assume "be_decode_dict (Suc f) d data dl = Some (Some (n, data', dl'))"
    then show "length data' < length data"
      by (auto simp: run_simps rd_Some_iff split: if_splits option.splits
          dest!: dict node be_decode_bytes_consumes)
  qed
qed

text \<open>One more unit of fuel changes nothing once there are two for each byte that is left.\<close>

lemma be_decode_fuel_Suc:
  "(2 * length data + 1 \<le> f \<longrightarrow> be_decode_node (Suc f) data dl = be_decode_node f data dl)
   \<and> (2 * length data + 2 \<le> f \<longrightarrow> be_decode_list (Suc f) l data dl = be_decode_list f l data dl)
   \<and> (2 * length data + 2 \<le> f \<longrightarrow> be_decode_dict (Suc f) d data dl = be_decode_dict f d data dl)"
proof (induction f arbitrary: l d data dl)
  case 0
  then show ?case by simp
next
  case (Suc f)
  note node = Suc.IH [THEN conjunct1, rule_format]
    and list = Suc.IH [THEN conjunct2, THEN conjunct1, rule_format]
    and dict = Suc.IH [THEN conjunct2, THEN conjunct2, rule_format]
  show ?case
  proof (intro conjI impI)
    assume "2 * length data + 1 \<le> Suc f"
    then show "be_decode_node (Suc (Suc f)) data dl = be_decode_node (Suc f) data dl"
      using list [of "drop 1 data"] dict [of "drop 1 data"]
      by (cases data) (simp_all del: be_decode_list.simps be_decode_dict.simps)
  next
    assume fuel: "2 * length data + 2 \<le> Suc f"
    have tail: "be_decode_list (Suc f) l' data' dl' = be_decode_list f l' data' dl'"
      if "be_decode_node f data dl = Some (Some (n, data', dl'))" for l' n data' dl'
      using be_decode_consumes that fuel by (intro list) fastforce
    have here: "be_decode_node (Suc f) data dl = be_decode_node f data dl"
      using fuel by (intro node) simp
    show "be_decode_list (Suc (Suc f)) l data dl = be_decode_list (Suc f) l data dl"
      by (subst be_decode_list.simps(2) [of "Suc f"], subst be_decode_list.simps(2) [of f])
        (auto simp: here tail simp del: be_decode_list.simps be_decode_node.simps
          split: option.splits Option.bind_splits)
  next
    assume fuel: "2 * length data + 2 \<le> Suc f"
    have here: "be_decode_node (Suc f) data1 dl1 = be_decode_node f data1 dl1"
      if "be_decode_bytes data dl = Some (Some (s, data1, dl1))" for s data1 dl1
      using be_decode_bytes_consumes [OF that] fuel by (intro node) simp
    have tail: "be_decode_dict (Suc f) d' data' dl' = be_decode_dict f d' data' dl'"
      if "be_decode_bytes data dl = Some (Some (s, data1, dl1))"
        "be_decode_node f data1 dl1 = Some (Some (n, data', dl'))" for d' n s data1 dl1 data' dl'
      using be_decode_bytes_consumes [OF that(1)] be_decode_consumes that(2) fuel
      by (intro dict) fastforce
    show "be_decode_dict (Suc (Suc f)) d data dl = be_decode_dict (Suc f) d data dl"
      by (subst be_decode_dict.simps(2) [of "Suc f"], subst be_decode_dict.simps(2) [of f])
        (auto simp: here tail simp del: be_decode_dict.simps be_decode_node.simps
          split: option.splits Option.bind_splits)
  qed
qed

lemma be_decode_fuel:
  "2 * length data + 1 \<le> f \<Longrightarrow> be_decode_node f data dl = be_decode_node (2 * length data + 1) data dl"
proof (induction f)
  case (Suc f)
  then show ?case
    using be_decode_fuel_Suc [of data f dl] by (cases "2 * length data + 1 \<le> f") (auto simp: le_Suc_eq)
qed simp

subsection \<open>What the encoder writes\<close>

text \<open>The encoding of a node without regard to the buffer, and the nodes it is faithful for:
  integers of 32 bits, lengths of 31 bits and keys without a NUL.\<close>

fun be_enc :: "be_node \<Rightarrow> bytes" where
  "be_enc (BeStr s) = dec_nat (length s) @ 58 # s"
| "be_enc (BeInt i) = 105 # dec_int i @ [101]"
| "be_enc (BeList l) = 108 # concat (map be_enc l) @ [101]"
| "be_enc (BeDict d) =
     100 # concat (map (\<lambda>(k, n). dec_nat (length k) @ 58 # until_nul k @ be_enc n) d) @ [101]"

fun be_wf :: "be_node \<Rightarrow> bool" where
  "be_wf (BeStr s) \<longleftrightarrow> length s < 2 ^ 31"
| "be_wf (BeInt i) \<longleftrightarrow> int32_ok i"
| "be_wf (BeList l) \<longleftrightarrow> (\<forall>n \<in> set l. be_wf n)"
| "be_wf (BeDict d) \<longleftrightarrow> (\<forall>(k, n) \<in> set d. length k < 2 ^ 31 \<and> 0 \<notin> set k \<and> be_wf n)"

definition be_enc_items :: "(bytes \<times> be_node) list \<Rightarrow> bytes" where
  "be_enc_items d = concat (map (\<lambda>(k, n). dec_nat (length k) @ 58 # until_nul k @ be_enc n) d)"

lemma be_enc_items_simps [simp]:
  "be_enc_items [] = []"
  "be_enc_items ((k, n) # d) = dec_nat (length k) @ 58 # until_nul k @ be_enc n @ be_enc_items d"
  by (simp_all add: be_enc_items_def)

lemma be_enc_BeDict: "be_enc (BeDict d) = 100 # be_enc_items d @ [101]"
  by (simp add: be_enc_items_def)

text \<open>With room to spare the encoder returns exactly this encoding and stays in the buffer.\<close>

lemma be_encode_spec:
  "int (length (be_enc n)) < len \<Longrightarrow> be_encode n len = Some (Some (be_enc n))"
  "int (length (concat (map be_enc l))) + 1 < room
    \<Longrightarrow> be_encode_list l room = Some (Some (concat (map be_enc l) @ [101]))"
  "int (length (be_enc_items d)) + 1 < room
    \<Longrightarrow> be_encode_dict d room = Some (Some (be_enc_items d @ [101]))"
proof (induction n len and l room and d room rule: be_encode_be_encode_list_be_encode_dict.induct)
  case (8 key n d room)
  let ?k = "dec_nat (length key) @ 58 # until_nul key"
  have room: "int (length ?k) + int (length (be_enc n)) + int (length (be_enc_items d)) + 1 < room"
    using 8(3) by simp
  then have k: "snprint room (dec_int (int (length key)) @ 58 # until_nul key) = Some ?k"
    by (simp add: snprint_def)
  have n: "be_encode n (room - int (length ?k)) = Some (Some (be_enc n))"
    by (rule 8(1)) (use k room in auto)
  moreover have "be_encode_dict d (room - int (length ?k) - int (length (be_enc n)))
      = Some (Some (be_enc_items d @ [101]))"
    by (rule 8(2) [OF k n refl]) (use room in simp)
  ultimately show ?case unfolding be_encode_dict.simps k by simp
qed (auto simp: snprint_def vassert_def be_enc_BeDict algebra_simps simp del: be_enc.simps(4))

subsection \<open>Decoding what was encoded\<close>

lemma be_decode_bytes_enc:
  assumes "length s < 2 ^ 31" "int (length (dec_nat (length s)) + 1 + length s) \<le> dl"
  shows "be_decode_bytes (dec_nat (length s) @ 58 # s @ rest) dl
    = Some (Some (s, rest, dl - int (length (dec_nat (length s)) + 1 + length s)))"
proof -
  have "int32_ok (int (length s))" using assms(1) by (simp add: int32_ok_def)
  moreover have "\<not> c_isdigit 58" by (simp add: c_isdigit_def word_le_nat_alt)
  ultimately have "be_decode_int (dec_nat (length s) @ 58 # s @ rest) dl
      = Some (Some (int (length s), 58 # s @ rest, dl - int (length (dec_nat (length s)))))"
    using be_decode_int_dec [of 58 "int (length s)" "s @ rest" dl] by simp
  then show ?thesis using assms(2) by (simp add: be_decode_bytes_def Let_def)
qed

lemma be_enc_hd: obtains c cs where "be_enc n = c # cs" "c \<noteq> 101"
proof (cases n)
  case (BeStr s)
  obtain d ds where "dec_nat (length s) = d # ds" "c_isdigit d" using dec_nat_hd by blast
  then show ?thesis using that BeStr by auto
qed (use that in auto)

lemma dec_nat_not_e: "dec_nat n @ r \<noteq> 101 # r'"
proof -
  obtain d ds where "dec_nat n = d # ds" "c_isdigit d" using dec_nat_hd by blast
  then show ?thesis by auto
qed

lemma rd_dec_nat: "\<exists>c. rd (dec_nat n @ r) 0 = Some c \<and> c \<noteq> 101 \<and> c_isdigit c"
proof -
  obtain d ds where "dec_nat n = d # ds" "c_isdigit d" using dec_nat_hd by blast
  then show ?thesis by auto
qed

text \<open>The number of nested calls and iterations the decoder needs for a node.\<close>

fun be_depth :: "be_node \<Rightarrow> nat" where
  "be_depth (BeStr s) = 1"
| "be_depth (BeInt i) = 1"
| "be_depth (BeList l) = Suc (Suc (sum_list (map (\<lambda>n. Suc (be_depth n)) l)))"
| "be_depth (BeDict d) = Suc (Suc (sum_list (map (\<lambda>(k, n). Suc (be_depth n)) d)))"

definition list_depth :: "be_node list \<Rightarrow> nat" where
  "list_depth l = Suc (sum_list (map (\<lambda>n. Suc (be_depth n)) l))"

definition dict_depth :: "(bytes \<times> be_node) list \<Rightarrow> nat" where
  "dict_depth d = Suc (sum_list (map (\<lambda>(k, n). Suc (be_depth n)) d))"

lemma depth_simps [simp]:
  "list_depth [] = 1" "list_depth (n # l) = Suc (be_depth n) + list_depth l"
  "dict_depth [] = 1" "dict_depth ((k, n) # d) = Suc (be_depth n) + dict_depth d"
  by (simp_all add: list_depth_def dict_depth_def)

lemma be_decode_enc_loops:
  "(\<forall>n \<in> set l. \<forall>f rest dl. be_depth n \<le> f \<longrightarrow> int (length (be_enc n)) \<le> dl \<longrightarrow>
      be_decode_node f (be_enc n @ rest) dl = Some (Some (n, rest, dl - int (length (be_enc n)))))
    \<Longrightarrow> list_depth l \<le> f \<Longrightarrow> int (length (concat (map be_enc l))) + 1 \<le> dl
    \<Longrightarrow> be_decode_list f acc (concat (map be_enc l) @ 101 # rest) dl
      = Some (Some (BeList (acc @ l), rest, dl - int (length (concat (map be_enc l))) - 1))"
proof (induction l arbitrary: f acc dl)
  case Nil
  then obtain g where "f = Suc g" by (cases f) auto
  then show ?case by simp
next
  case (Cons n l)
  then obtain g where g: "f = Suc g" "be_depth n \<le> g" "list_depth l \<le> g" by (cases f) auto
  obtain c cs where c: "be_enc n = c # cs" "c \<noteq> 101" using be_enc_hd by blast
  let ?rest = "concat (map be_enc l) @ 101 # rest"
  have "be_decode_node g (be_enc n @ ?rest) dl = Some (Some (n, ?rest, dl - int (length (be_enc n))))"
    using Cons.prems g(2) by simp
  then have "be_decode_list f acc (be_enc n @ ?rest) dl
      = be_decode_list g (acc @ [n]) ?rest (dl - int (length (be_enc n)))"
    using c by (simp add: g(1))
  also have "\<dots> = Some (Some (BeList ((acc @ [n]) @ l), rest,
      dl - int (length (be_enc n)) - int (length (concat (map be_enc l))) - 1))"
    by (rule Cons.IH) (use Cons.prems g(3) in auto)
  finally show ?case by (simp add: algebra_simps)
qed

lemma be_decode_enc_items:
  "(\<forall>(k, n) \<in> set d. length k < 2 ^ 31 \<and> 0 \<notin> set k \<and>
      (\<forall>f rest dl. be_depth n \<le> f \<longrightarrow> int (length (be_enc n)) \<le> dl \<longrightarrow>
      be_decode_node f (be_enc n @ rest) dl = Some (Some (n, rest, dl - int (length (be_enc n))))))
    \<Longrightarrow> dict_depth d \<le> f \<Longrightarrow> int (length (be_enc_items d)) + 1 \<le> dl
    \<Longrightarrow> be_decode_dict f acc (be_enc_items d @ 101 # rest) dl
      = Some (Some (BeDict (acc @ d), rest, dl - int (length (be_enc_items d)) - 1))"
proof (induction d arbitrary: f acc dl)
  case Nil
  then obtain g where "f = Suc g" by (cases f) auto
  then show ?case by simp
next
  case (Cons kn d)
  obtain k n where kn: "kn = (k, n)" by (cases kn)
  with Cons.prems obtain g where g: "f = Suc g" "be_depth n \<le> g" "dict_depth d \<le> g"
    by (cases f) auto
  let ?dl1 = "dl - int (length (dec_nat (length k)) + 1 + length k)"
  let ?rest = "be_enc_items d @ 101 # rest"
  have k: "until_nul k = k" "length k < 2 ^ 31" using Cons.prems(1) kn by simp_all
  have key: "be_decode_bytes (dec_nat (length k) @ 58 # k @ (be_enc n @ ?rest)) dl
      = Some (Some (k, be_enc n @ ?rest, ?dl1))"
    by (rule be_decode_bytes_enc) (use Cons.prems(3) k kn in auto)
  have val: "be_decode_node g (be_enc n @ ?rest) ?dl1
      = Some (Some (n, ?rest, ?dl1 - int (length (be_enc n))))"
    using Cons.prems g(2) kn k by auto
  obtain c where c: "rd (dec_nat (length k) @ 58 # k @ be_enc n @ ?rest) 0 = Some c" "c \<noteq> 101"
    using rd_dec_nat by blast
  have "be_decode_dict f acc (be_enc_items (kn # d) @ 101 # rest) dl
      = be_decode_dict g (acc @ [(k, n)]) ?rest (?dl1 - int (length (be_enc n)))"
    using key val c by (simp add: g(1) kn k)
  also have "\<dots> = Some (Some (BeDict ((acc @ [(k, n)]) @ d), rest,
      ?dl1 - int (length (be_enc n)) - int (length (be_enc_items d)) - 1))"
    by (rule Cons.IH) (use Cons.prems g(3) kn k in auto)
  finally show ?case by (simp add: kn k algebra_simps)
qed

lemma be_decode_node_enc:
  "be_wf n \<Longrightarrow> be_depth n \<le> f \<Longrightarrow> int (length (be_enc n)) \<le> dl
    \<Longrightarrow> be_decode_node f (be_enc n @ rest) dl = Some (Some (n, rest, dl - int (length (be_enc n))))"
proof (induction n arbitrary: f rest dl)
  case (BeStr s)
  then obtain g where g: "f = Suc g" by (cases f) auto
  have "be_decode_bytes (dec_nat (length s) @ 58 # s @ rest) dl
      = Some (Some (s, rest, dl - int (length (dec_nat (length s)) + 1 + length s)))"
    by (rule be_decode_bytes_enc) (use BeStr in auto)
  moreover obtain c where "rd (dec_nat (length s) @ 58 # s @ rest) 0 = Some c" "c_isdigit c"
    using rd_dec_nat by blast
  ultimately show ?case using BeStr.prems by (simp add: g)
next
  case (BeInt i)
  then obtain g where g: "f = Suc g" by (cases f) auto
  have "\<not> c_isdigit 101" by (simp add: c_isdigit_def word_le_nat_alt)
  then have "be_decode_int (dec_int i @ 101 # rest) (dl - 1)
      = Some (Some (i, 101 # rest, dl - 1 - int (length (dec_int i))))"
    using BeInt.prems by (intro be_decode_int_dec) auto
  then show ?case using BeInt.prems by (simp add: g)
next
  case (BeList l)
  then obtain g where g: "f = Suc g" by (cases f) auto
  have "be_decode_list g [] (concat (map be_enc l) @ 101 # rest) (dl - 1)
      = Some (Some (BeList ([] @ l), rest, dl - 1 - int (length (concat (map be_enc l))) - 1))"
    by (rule be_decode_enc_loops) (use BeList g in \<open>auto simp: list_depth_def\<close>)
  then show ?case using BeList.prems by (simp add: g algebra_simps)
next
  case (BeDict d)
  then obtain g where g: "f = Suc g" by (cases f) auto
  have "be_decode_dict g [] (be_enc_items d @ 101 # rest) (dl - 1)
      = Some (Some (BeDict ([] @ d), rest, dl - 1 - int (length (be_enc_items d)) - 1))"
    by (rule be_decode_enc_items)
      (use BeDict g in \<open>fastforce simp: dict_depth_def be_enc_BeDict simp del: be_enc.simps\<close>)+
  then show ?case using BeDict.prems by (simp add: g be_enc_BeDict del: be_enc.simps)
qed

lemma dec_nat_length_pos [simp]: "0 < length (dec_nat n)"
  by simp

lemma be_depth_lt: "be_depth n < 2 * length (be_enc n)"
proof (induction n)
  case (BeList l)
  then have "sum_list (map (\<lambda>n. Suc (be_depth n)) l) \<le> 2 * length (concat (map be_enc l))"
    by (induction l) fastforce+
  then show ?case by simp
next
  case (BeDict d)
  then have "sum_list (map (\<lambda>(k, n). Suc (be_depth n)) d) \<le> 2 * length (be_enc_items d)"
    by (induction d) fastforce+
  then show ?case by (simp add: be_enc_BeDict del: be_enc.simps)
qed (auto simp: dec_int_def)

text \<open>The round trip, with anything behind the message in the buffer.\<close>

lemma be_decode_enc:
  assumes "be_wf n" "int (length (be_enc n)) \<le> dl"
  shows "be_decode (be_enc n @ rest) dl = Some (Some n)"
proof -
  have "be_depth n \<le> 2 * length (be_enc n @ rest) + 1"
    using be_depth_lt [of n] by simp
  note run = be_decode_node_enc [OF assms(1) this assms(2)]
  show ?thesis
    unfolding be_decode_def run by simp
qed

lemma be_decode_encode:
  assumes "be_wf n" "int (length (be_enc n)) < len"
  obtains s where "be_encode n len = Some (Some s)" "be_decode (s @ rest) (int (length s)) = Some (Some n)"
  using be_encode_spec(1) [OF assms(2)] be_decode_enc [OF assms(1)] by fastforce

lemma be_create_dict_ok [simp]: "be_create_dict = Some (Some (BeDict []))"
  using be_decode_enc [of "BeDict []" 2 "[0]"]
  by (simp add: be_create_dict_def be_decode_str_def cstr_def)

lemma be_create_list_ok [simp]: "be_create_list = Some (Some (BeList []))"
  using be_decode_enc [of "BeList []" 2 "[0]"]
  by (simp add: be_create_list_def be_decode_str_def cstr_def)

subsection \<open>What the decoder does with broken messages\<close>

text \<open>
  Where a byte string is announced and its length is more than the message holds, or no colon
  follows, the error path frees a node whose string was never allocated.
\<close>

lemma be_decode_bad_string:
  assumes "data \<noteq> []" "c_isdigit (hd data)" "be_decode_bytes data dl = Some None"
  shows "be_decode data dl = None"
  using assms by (cases data) (simp_all add: be_decode_def)

lemma be_decode_bad_key:
  assumes "data = 100 # data'" "data' \<noteq> []" "hd data' \<noteq> 101"
    "be_decode_bytes data' (dl - 1) = Some None"
  shows "be_decode data dl = None"
  using assms by (cases data') (simp_all add: be_decode_def)

lemma be_decode_truncated:
  "dl \<le> 0 \<Longrightarrow> be_decode data dl = None"
  by (simp add: be_decode_def)

end
