(* ===== verification/NodeId.thy ===== *)
theory NodeId
  imports BeCodec
begin

section \<open>Nonces, node IDs, metrics, versions and service hashes (vnodeId.c)\<close>

text \<open>
  \<open>struct vnonce\<close>, \<open>struct vtoken\<close> (a node ID, a metric or a version) and \<open>struct vsrvcHash\<close> are
  fixed arrays of bytes: lists whose length the invariants \<open>nonce_wf\<close> and \<open>tok_wf\<close> fix.
  The sources of randomness (\<open>time\<close>, \<open>rand\<close>, the process and thread IDs, the MAC address) are
  arguments; \<open>rnd seed i\<close> is what the \<open>i\<close>-th \<open>rand()\<close> after \<open>srand(seed)\<close> returns.
\<close>

type_synonym vnonce = bytes
type_synonym vtoken = bytes
type_synonym vsrvcHash = bytes

definition VNONCE_LEN :: nat where "VNONCE_LEN = 4"
definition VTOKEN_LEN :: nat where "VTOKEN_LEN = 20"
definition VTOKEN_INTLEN :: nat where "VTOKEN_INTLEN = 5"
definition VTOKEN_BITLEN :: nat where "VTOKEN_BITLEN = 160"
definition VSRVCHASH_LEN :: nat where "VSRVCHASH_LEN = 20"

definition nonce_wf :: "vnonce \<Rightarrow> bool" where
  "nonce_wf n \<longleftrightarrow> length n = VNONCE_LEN"

definition tok_wf :: "vtoken \<Rightarrow> bool" where
  "tok_wf t \<longleftrightarrow> length t = VTOKEN_LEN"

subsection \<open>Making fresh nonces and tokens\<close>

text \<open>The second component is the new value of \<open>nonce_dynamic_magic\<close>.\<close>

definition vnonce_make :: "(u32 \<Rightarrow> nat \<Rightarrow> u32) \<Rightarrow> u32 \<Rightarrow> u32 \<Rightarrow> vnonce \<times> u32" where
  "vnonce_make rnd now magic =
     (let seed = now + magic in (le32 (rnd seed 0), seed))"

text \<open>The flag \<open>got\<close> is a local variable that starts at 0 in every call, so every call adds the
  six shifted bytes of the MAC address to the static \<open>hash\<close> again.\<close>

definition get_macaddr_hash :: "bytes \<Rightarrow> u32 \<Rightarrow> u32" where
  "get_macaddr_hash macaddr hash =
     fold (\<lambda>i h. h + word_of_int (uint (macaddr ! i) * 2 ^ i)) [0..<6] hash"

text \<open>The last two components are the new \<open>token_dynamic_magic\<close> and MAC hash.\<close>

definition vtoken_make ::
  "(u32 \<Rightarrow> nat \<Rightarrow> u32) \<Rightarrow> u32 \<Rightarrow> u32 \<Rightarrow> u32 \<Rightarrow> bytes \<Rightarrow> u32 \<Rightarrow> u32 \<Rightarrow> vtoken \<times> u32 \<times> u32" where
  "vtoken_make rnd now self pid macaddr hash magic =
     (let hash = get_macaddr_hash macaddr hash;
          seed = now + magic + self + pid + hash
      in (map (\<lambda>i. ucast (rnd seed i)) [0..<VTOKEN_LEN], seed, hash))"

subsection \<open>Equality and copies\<close>

definition vnonce_equal :: "vnonce \<Rightarrow> vnonce \<Rightarrow> bool" where
  "vnonce_equal a b \<longleftrightarrow> of_le32 a = of_le32 b"

definition vnonce_copy :: "vnonce \<Rightarrow> vnonce" where
  "vnonce_copy src = le32 (of_le32 src)"

text \<open>\<open>for (; i < n; i++) if (a->data[i] != b->data[i]) return 0; return 1;\<close>\<close>

fun data_equal :: "nat \<Rightarrow> bytes \<Rightarrow> bytes \<Rightarrow> bool" where
  "data_equal 0 a b = True"
| "data_equal (Suc n) a b = (if hd a \<noteq> hd b then False else data_equal n (tl a) (tl b))"

definition vtoken_equal :: "vtoken \<Rightarrow> vtoken \<Rightarrow> bool" where
  "vtoken_equal a b = data_equal VTOKEN_LEN a b"

definition vtoken_copy :: "vtoken \<Rightarrow> vtoken" where
  "vtoken_copy src = map (\<lambda>i. src ! i) [0..<VTOKEN_LEN]"

definition vsrvcHash_equal :: "vsrvcHash \<Rightarrow> vsrvcHash \<Rightarrow> bool" where
  "vsrvcHash_equal a b = data_equal VSRVCHASH_LEN a b"

definition vsrvcHash_copy :: "vsrvcHash \<Rightarrow> vsrvcHash" where
  "vsrvcHash_copy src = map (\<lambda>i. src ! i) [0..<VSRVCHASH_LEN]"

subsection \<open>Hexadecimal text\<close>

definition hex_digit :: "byte \<Rightarrow> byte" where
  "hex_digit n = (if n < 10 then 48 + n else 87 + n)"

text \<open>The loop of the three \<open>strlize\<close> functions: \<open>snprintf(buf+sz, len-sz, "%x%x", ...)\<close> for each
  byte; \<open>Some None\<close> is the return of \<open>-1\<close>.\<close>

fun hex_strlize :: "bytes \<Rightarrow> int \<Rightarrow> bytes option" where
  "hex_strlize [] room = Some []"
| "hex_strlize (d # ds) room =
     (case snprint room [hex_digit (drop_bit 4 d), hex_digit (d AND 15)] of
        None \<Rightarrow> None
      | Some s \<Rightarrow> map_option ((@) s) (hex_strlize ds (room - int (length s))))"

definition vnonce_strlize :: "vnonce \<Rightarrow> int \<Rightarrow> bytes option option" where
  "vnonce_strlize nonce len = do { vassert (0 < len); Some (hex_strlize (take VNONCE_LEN nonce) len) }"

definition vtoken_strlize :: "vtoken \<Rightarrow> int \<Rightarrow> bytes option option" where
  "vtoken_strlize token len = do { vassert (0 < len); Some (hex_strlize (take VTOKEN_LEN token) len) }"

definition vsrvcHash_strlize :: "vsrvcHash \<Rightarrow> int \<Rightarrow> bytes option option" where
  "vsrvcHash_strlize hash len = do { vassert (0 < len); Some (hex_strlize (take VSRVCHASH_LEN hash) len) }"

text \<open>
  \<open>sscanf(data, "%x", &v)\<close> on a string of one character: 1 and the digit's value, \<open>-1\<close> (end of
  input) when the character is NUL or white space, 0 otherwise; only in the first case \<open>v\<close> is
  assigned.
\<close>

definition sscanf_x1 :: "byte \<Rightarrow> u32 \<Rightarrow> int \<times> u32" where
  "sscanf_x1 c v =
     (if 48 \<le> c \<and> c \<le> 57 then (1, ucast (c - 48))
      else if 97 \<le> c \<and> c \<le> 102 then (1, ucast (c - 87))
      else if 65 \<le> c \<and> c \<le> 70 then (1, ucast (c - 55))
      else if c = 0 \<or> c_isspace c then (-1, v)
      else (0, v))"

text \<open>The loop of the two \<open>unstrlize\<close> functions: \<open>n\<close> bytes are left, the first at index \<open>i\<close>; the
  string's memory is \<open>s\<close>, and \<open>high\<close> and \<open>low\<close> keep their values between iterations.\<close>

fun hex_unstrlize :: "nat \<Rightarrow> nat \<Rightarrow> bytes \<Rightarrow> u32 \<Rightarrow> u32 \<Rightarrow> bytes \<Rightarrow> (int \<times> bytes) option" where
  "hex_unstrlize 0 i s high low data = Some (0, data)"
| "hex_unstrlize (Suc n) i s high low data = do {
     c \<leftarrow> rd s 0;
     let (ret, high) = sscanf_x1 c high;
     if ret = 0 then Some (-1, data)
     else do {
       c \<leftarrow> rd s 1;
       let (ret, low) = sscanf_x1 c low;
       if ret = 0 then Some (-1, data)
       else do {
         data \<leftarrow> wr data i (ucast (push_bit 4 high OR (15 AND low)));
         hex_unstrlize n (i + 1) (drop 2 s) high low data
       }
     }
   }"

definition vnonce_unstrlize :: "bytes \<Rightarrow> vnonce \<Rightarrow> (int \<times> vnonce) option" where
  "vnonce_unstrlize id_str nonce = hex_unstrlize VNONCE_LEN 0 id_str 0 0 nonce"

definition vtoken_unstrlize :: "bytes \<Rightarrow> vtoken \<Rightarrow> (int \<times> vtoken) option" where
  "vtoken_unstrlize id_str token = hex_unstrlize VTOKEN_LEN 0 id_str 0 0 token"

subsection \<open>Distance and buckets\<close>

definition vnodeId_dist :: "vtoken \<Rightarrow> vtoken \<Rightarrow> vtoken" where
  "vnodeId_dist a b = map (\<lambda>i. a ! i XOR b ! i) [0..<VTOKEN_LEN]"

text \<open>The loop of \<open>_aux_distance\<close> with \<open>n\<close> iterations left, so that \<open>i = VTOKEN_BITLEN - n\<close>.\<close>

fun aux_distance_from :: "nat \<Rightarrow> vtoken \<Rightarrow> nat" where
  "aux_distance_from 0 m = 0"
| "aux_distance_from (Suc n) m =
     (let i = VTOKEN_BITLEN - Suc n;
          bit = VTOKEN_BITLEN - i - 1;
          byte = i div 8;
          bbit = 7 - i mod 8;
          comp = push_bit bbit 1 :: byte
      in if comp AND m ! byte \<noteq> 0 then bit else aux_distance_from n m)"

definition aux_distance :: "vtoken \<Rightarrow> nat" where
  "aux_distance m = aux_distance_from VTOKEN_BITLEN m"

definition vnodeId_bucket :: "vtoken \<Rightarrow> vtoken \<Rightarrow> nat" where
  "vnodeId_bucket a b = aux_distance (vnodeId_dist a b)"

fun metric_cmp_from :: "nat \<Rightarrow> bytes \<Rightarrow> bytes \<Rightarrow> int" where
  "metric_cmp_from 0 a b = 0"
| "metric_cmp_from (Suc n) a b =
     (if hd a < hd b then 1
      else if hd b < hd a then -1
      else metric_cmp_from n (tl a) (tl b))"

definition vnodeMetric_cmp :: "vtoken \<Rightarrow> vtoken \<Rightarrow> int" where
  "vnodeMetric_cmp a b = metric_cmp_from VTOKEN_LEN a b"

text \<open>\<open>hash += id->data[i] % VTOKEN_BITLEN\<close>, then \<open>hash % VTOKEN_BITLEN\<close>.\<close>

definition vsrvcId_bucket :: "vtoken \<Rightarrow> nat" where
  "vsrvcId_bucket srvcId =
     fold (\<lambda>i hash. hash + unat (srvcId ! i) mod VTOKEN_BITLEN) [0..<VTOKEN_LEN] 0 mod VTOKEN_BITLEN"

subsection \<open>Versions\<close>

definition vnodeVer_unknown :: vtoken where
  "vnodeVer_unknown = replicate VTOKEN_LEN 0"

text \<open>
  \<open>vnodeVer_strlize\<close> writes at \<open>buf + offset\<close> with \<open>len - offset\<close> bytes of room. The first
  \<open>snprintf\<close> is not checked against \<open>len\<close>, so the room may become negative, which as a
  \<open>size_t\<close> bounds nothing.
\<close>

fun ver_strlize_from :: "bytes \<Rightarrow> int \<Rightarrow> bytes option option" where
  "ver_strlize_from [] room = Some (Some [])"
| "ver_strlize_from (d # ds) room = do {
     vassert (0 \<le> room);
     case snprint room [46] of
       None \<Rightarrow> Some None
     | Some dot \<Rightarrow>
         (case snprint (room - 1) (dec_nat (unat d)) of
            None \<Rightarrow> Some None
          | Some s \<Rightarrow> do {
              r \<leftarrow> ver_strlize_from ds (room - 1 - int (length s));
              Some (map_option ((@) (dot @ s)) r)
            })
   }"

definition vnodeVer_strlize :: "vtoken \<Rightarrow> int \<Rightarrow> bytes option option" where
  "vnodeVer_strlize ver len = do {
     vassert (0 < len);
     let s = dec_nat (unat (ver ! 0));
     r \<leftarrow> ver_strlize_from (take (VTOKEN_INTLEN - 1) (drop 1 ver)) (len - int (length s));
     Some (map_option ((@) s) r)
   }"

text \<open>The loop \<open>while(*s != '\0')\<close>: each round moves past a dot, so one more round than there
  are bytes is never needed.\<close>

fun ver_unstrlize_loop :: "nat \<Rightarrow> bytes \<Rightarrow> nat \<Rightarrow> vtoken \<Rightarrow> (int \<times> vtoken) option" where
  "ver_unstrlize_loop 0 s i ver = None"
| "ver_unstrlize_loop (Suc f) s i ver = do {
     c \<leftarrow> rd s 0;
     if c = 0 then Some (0, ver)
     else if c \<noteq> 46 then Some (-1, ver)
     else do {
       let s = drop 1 s;
       (v, n, err) \<leftarrow> strtol s;
       if err then Some (-1, ver)
       else do {
         ver \<leftarrow> wr ver i (word_of_int v);
         ver_unstrlize_loop f (drop n s) (i + 1) ver
       }
     }
   }"

definition vnodeVer_unstrlize :: "bytes \<Rightarrow> vtoken \<Rightarrow> (int \<times> vtoken) option" where
  "vnodeVer_unstrlize ver_str ver = do {
     (v, n, err) \<leftarrow> strtol ver_str;
     if err then Some (-1, ver)
     else do {
       ver \<leftarrow> wr ver 0 (word_of_int v);
       ver_unstrlize_loop (length ver_str + 1) (drop n ver_str) 1 ver
     }
   }"


section \<open>What these operations do\<close>

subsection \<open>Equality and copies\<close>

lemma data_equal_iff:
  "length a = n \<Longrightarrow> length b = n \<Longrightarrow> data_equal n a b \<longleftrightarrow> a = b"
proof (induction n arbitrary: a b)
  case (Suc n)
  then obtain x xs y ys where "a = x # xs" "b = y # ys" by (metis length_Suc_conv)
  with Suc show ?case by simp
qed simp

lemma vtoken_equal_iff [simp]: "tok_wf a \<Longrightarrow> tok_wf b \<Longrightarrow> vtoken_equal a b \<longleftrightarrow> a = b"
  by (simp add: vtoken_equal_def tok_wf_def data_equal_iff)

lemma map_nth_take: "length xs = n \<Longrightarrow> map (\<lambda>i. xs ! i) [0..<n] = xs"
  by (auto simp: map_nth)

lemma vtoken_copy_id [simp]: "tok_wf t \<Longrightarrow> vtoken_copy t = t"
  by (simp add: vtoken_copy_def tok_wf_def map_nth_take)

lemma tok_wf_copy [simp, wf_intros]: "tok_wf (vtoken_copy t)"
  by (simp add: tok_wf_def vtoken_copy_def)

lemma tok_wf_unknown [simp, wf_intros]: "tok_wf vnodeVer_unknown"
  by (simp add: tok_wf_def vnodeVer_unknown_def)

lemma vsrvcHash_equal_iff [simp]: "tok_wf a \<Longrightarrow> tok_wf b \<Longrightarrow> vsrvcHash_equal a b \<longleftrightarrow> a = b"
  by (simp add: vsrvcHash_equal_def tok_wf_def VTOKEN_LEN_def VSRVCHASH_LEN_def data_equal_iff)

lemma vsrvcHash_copy_id [simp]: "tok_wf t \<Longrightarrow> vsrvcHash_copy t = t"
  by (simp add: vsrvcHash_copy_def tok_wf_def VTOKEN_LEN_def VSRVCHASH_LEN_def map_nth_take)

lemma tok_wf_hash_copy [simp, wf_intros]: "tok_wf (vsrvcHash_copy t)"
  by (simp add: tok_wf_def vsrvcHash_copy_def VSRVCHASH_LEN_def VTOKEN_LEN_def)

lemma byte_bit_out: "8 \<le> n \<Longrightarrow> \<not> bit (b :: byte) n"
  using bit_imp_le_length [of b n] by auto

lemma bit_of_le32:
  "bit (of_le32 [a, b, c, d]) n \<longleftrightarrow>
     (if n < 8 then bit a n else if n < 16 then bit b (n - 8)
      else if n < 24 then bit c (n - 16) else n < 32 \<and> bit d (n - 24))"
  by (auto simp: of_le32_def bit_or_iff bit_push_bit_iff bit_ucast_iff byte_bit_out)

lemma of_le32_bytes:
  fixes a b c d :: byte
  shows "ucast (of_le32 [a, b, c, d]) = a"
    "ucast (drop_bit 8 (of_le32 [a, b, c, d])) = b"
    "ucast (drop_bit 16 (of_le32 [a, b, c, d])) = c"
    "ucast (drop_bit 24 (of_le32 [a, b, c, d])) = d"
  by (rule bit_word_eqI; simp add: bit_of_le32 bit_ucast_iff bit_drop_bit_eq)+

lemma list4:
  assumes "length n = 4"
  obtains a b c d where "n = [a, b, c, d]"
proof -
  have "length n = Suc (Suc (Suc (Suc 0)))" using assms by simp
  then show thesis using that by (auto simp: length_Suc_conv)
qed

lemma le32_of_le32: "length n = 4 \<Longrightarrow> le32 (of_le32 n) = n"
  by (erule list4) (simp only: le32_def of_le32_bytes)

lemma vnonce_equal_iff [simp]:
  assumes "nonce_wf a" "nonce_wf b"
  shows "vnonce_equal a b \<longleftrightarrow> a = b"
  using assms unfolding vnonce_equal_def nonce_wf_def VNONCE_LEN_def by (metis le32_of_le32)

lemma vnonce_copy_id [simp]: "nonce_wf n \<Longrightarrow> vnonce_copy n = n"
  by (simp add: vnonce_copy_def nonce_wf_def VNONCE_LEN_def le32_of_le32)

lemma nonce_wf_make [wf_intros]: "nonce_wf (fst (vnonce_make rnd now magic))"
  by (simp add: vnonce_make_def nonce_wf_def VNONCE_LEN_def Let_def)

lemma tok_wf_make [wf_intros]: "tok_wf (fst (vtoken_make rnd now self pid mac hash magic))"
  by (simp add: vtoken_make_def tok_wf_def Let_def)

subsection \<open>The hexadecimal round trip\<close>

definition hex_of :: "bytes \<Rightarrow> bytes" where
  "hex_of ds = concat (map (\<lambda>d. [hex_digit (drop_bit 4 d), hex_digit (d AND 15)]) ds)"

lemma hex_of_simps [simp]:
  "hex_of [] = []"
  "hex_of (d # ds) = hex_digit (drop_bit 4 d) # hex_digit (d AND 15) # hex_of ds"
  by (simp_all add: hex_of_def)

lemma length_hex_of [simp]: "length (hex_of ds) = 2 * length ds"
  by (induction ds) auto

lemma hex_strlize_spec:
  "0 < room \<Longrightarrow> hex_strlize ds room = (if 2 * int (length ds) < room then Some (hex_of ds) else None)"
  by (induction ds arbitrary: room) (auto simp: snprint_def)

lemma mask4: "(15 :: byte) = mask 4" "(15 :: u32) = mask 4"
  by (simp_all add: mask_eq_exp_minus_1)

lemma nibble_lt: "drop_bit 4 (d :: byte) < 16" "(d :: byte) AND 15 < 16"
proof -
  have "unat (drop_bit 4 d) < 16"
    using unsigned_less [of d, where 'a = nat] by (subst unat_drop_bit_eq) (simp add: drop_bit_eq_div)
  then show "drop_bit 4 (d :: byte) < 16"
    by (simp add: word_less_nat_alt)
  show "(d :: byte) AND 15 < 16"
    using word_and_le1 [of d 15] by (simp add: word_le_def word_less_def)
qed

lemma sscanf_hex_digit:
  assumes "n < 16"
  shows "sscanf_x1 (hex_digit n) v = (1, ucast n)"
proof -
  have "unat n < 16" using assms by (simp add: word_less_nat_alt)
  then have "unat n \<in> set [0..<16]" by simp
  then have "n \<in> set (map of_nat [0..<16])" by (metis imageI list.set_map of_nat_unat ucast_id)
  then show ?thesis
    by (simp add: upt_rec) (elim disjE; simp add: hex_digit_def sscanf_x1_def)
qed

lemma nibbles: "ucast (push_bit 4 (ucast (drop_bit 4 d)) OR (15 AND ucast (d AND 15)) :: u32) = (d :: byte)"
  unfolding mask4
  by (rule bit_word_eqI) (auto simp: bit_simps)


lemma hex_unstrlize_spec:
  "i + length ds \<le> length data \<Longrightarrow>
     hex_unstrlize (length ds) i (hex_of ds @ rest) high low data =
       Some (0, take i data @ ds @ drop (i + length ds) data)"
proof (induction ds arbitrary: i high low data)
  case (Cons d ds)
  then have i: "i < length data" by simp
  have "hex_unstrlize (length (d # ds)) i (hex_of (d # ds) @ rest) high low data =
      hex_unstrlize (length ds) (i + 1) (hex_of ds @ rest)
        (ucast (drop_bit 4 d)) (ucast (d AND 15)) (data[i := d])"
    using i by (simp add: sscanf_hex_digit nibble_lt rd_def Let_def nibbles)
  also have "\<dots> = Some (0, take (i + 1) (data[i := d]) @ ds @ drop (i + 1 + length ds) (data[i := d]))"
    using Cons.prems by (intro Cons.IH) simp
  also have "take (i + 1) (data[i := d]) = take i data @ [d]"
    using i by (simp add: take_Suc_conv_app_nth)
  finally show ?case by simp
qed simp

lemma vtoken_hex_roundtrip:
  assumes "tok_wf t" "tok_wf old"
  shows "vtoken_unstrlize (hex_of t @ rest) old = Some (0, t)"
  using hex_unstrlize_spec [of 0 t old rest 0 0] assms
  by (simp add: vtoken_unstrlize_def tok_wf_def)

lemma vnonce_hex_roundtrip:
  assumes "nonce_wf t" "nonce_wf old"
  shows "vnonce_unstrlize (hex_of t @ rest) old = Some (0, t)"
  using hex_unstrlize_spec [of 0 t old rest 0 0] assms
  by (simp add: vnonce_unstrlize_def nonce_wf_def)

lemma vtoken_strlize_spec:
  assumes "tok_wf t" "0 < len"
  shows "vtoken_strlize t len = Some (if 40 < len then Some (hex_of t) else None)"
  using assms by (simp add: vtoken_strlize_def hex_strlize_spec tok_wf_def VTOKEN_LEN_def)

subsection \<open>The metric as a number\<close>

text \<open>A token read as a number, its first byte the most significant.\<close>

definition be_val :: "bytes \<Rightarrow> nat" where
  "be_val bs = foldl (\<lambda>v b. v * 256 + unat b) 0 bs"

lemma be_val_snoc [simp]: "be_val (bs @ [b]) = be_val bs * 256 + unat b"
  by (simp add: be_val_def)

lemma be_val_Nil [simp]: "be_val [] = 0"
  by (simp add: be_val_def)

lemma unat_byte: "unat (b :: byte) < 256"
  using unsigned_less [of b, where 'a = nat] by simp

lemma be_val_Cons: "be_val (b # bs) = unat b * 256 ^ length bs + be_val bs"
proof (induction bs rule: rev_induct)
  case (snoc c bs)
  have "be_val (b # bs @ [c]) = be_val (b # bs) * 256 + unat c"
    using be_val_snoc [of "b # bs" c] by simp
  with snoc show ?case by (simp add: distrib_right)
qed (simp add: be_val_def)

lemma be_val_lt: "be_val bs < 256 ^ length bs"
proof (induction bs rule: rev_induct)
  case (snoc c bs)
  have "be_val bs * 256 + unat c < (be_val bs + 1) * 256" using unat_byte [of c] by simp
  also have "\<dots> \<le> 256 ^ length bs * 256" using snoc by (intro mult_right_mono) auto
  finally show ?case by simp
qed simp

lemma be_val_lex:
  assumes "length xs = length ys" "x < y"
  shows "be_val (x # xs) < be_val (y # ys)"
proof -
  have "unat x * 256 ^ length xs + be_val xs < (unat x + 1) * 256 ^ length xs"
    using be_val_lt [of xs] by simp
  also have "\<dots> \<le> unat y * 256 ^ length ys"
    using assms by (simp add: word_less_nat_alt del: mult_Suc)
  finally show ?thesis by (simp add: be_val_Cons)
qed

lemma metric_cmp_from_spec:
  "\<lbrakk>length a = n; length b = n\<rbrakk> \<Longrightarrow>
     metric_cmp_from n a b = sgn (int (be_val b) - int (be_val a))"
proof (induction n arbitrary: a b)
  case (Suc n)
  then obtain x xs y ys where ab: "a = x # xs" "b = y # ys" "length xs = n" "length ys = n"
    by (metis length_Suc_conv)
  consider "x < y" | "y < x" | "x = y" by fastforce
  then show ?case
  proof cases
    case 1
    then show ?thesis using be_val_lex [of xs ys x y] ab by simp
  next
    case 2
    then show ?thesis using be_val_lex [of ys xs y x] ab by auto
  next
    case 3
    then show ?thesis using Suc.IH [of xs ys] ab by (simp add: be_val_Cons)
  qed
qed simp

lemma vnodeMetric_cmp_spec:
  "tok_wf a \<Longrightarrow> tok_wf b \<Longrightarrow> vnodeMetric_cmp a b = sgn (int (be_val b) - int (be_val a))"
  by (simp add: vnodeMetric_cmp_def tok_wf_def metric_cmp_from_spec)


subsection \<open>The XOR metric\<close>

lemma tok_wf_dist [simp, wf_intros]: "tok_wf (vnodeId_dist a b)"
  by (simp add: tok_wf_def vnodeId_dist_def)

lemma vnodeId_dist_map2:
  "tok_wf a \<Longrightarrow> tok_wf b \<Longrightarrow> vnodeId_dist a b = map2 (XOR) a b"
  by (rule nth_equalityI) (auto simp: tok_wf_def vnodeId_dist_def)

lemma vnodeId_dist_sym: "vnodeId_dist a b = vnodeId_dist b a"
  by (simp add: vnodeId_dist_def xor.commute)

lemma vnodeId_dist_self: "vnodeId_dist a a = vnodeVer_unknown"
  by (rule nth_equalityI) (auto simp: vnodeId_dist_def vnodeVer_unknown_def)

lemma xor_cancel: "(a :: byte) XOR b = 0 \<longleftrightarrow> a = b"
  by (metis xor.left_neutral xor.assoc xor_self_eq xor.commute)

lemma vnodeId_dist_0:
  "tok_wf a \<Longrightarrow> tok_wf b \<Longrightarrow> vnodeId_dist a b = vnodeVer_unknown \<longleftrightarrow> a = b"
  by (auto simp: vnodeId_dist_self vnodeVer_unknown_def vnodeId_dist_def list_eq_iff_nth_eq
      tok_wf_def xor_cancel)

lemma vnodeId_dist_chain:
  "vnodeId_dist (vnodeId_dist a b) (vnodeId_dist b c) = vnodeId_dist a c"
  by (auto simp: vnodeId_dist_def intro!: bit_word_eqI simp: bit_simps)

lemma be_val_0_iff: "be_val bs = 0 \<longleftrightarrow> (\<forall>b \<in> set bs. b = 0)"
  by (induction bs rule: rev_induct) (auto simp: unat_eq_zero)

lemma nat_xor_le: "(a :: nat) XOR b \<le> a + b"
proof (induction a arbitrary: b rule: less_induct)
  case (less a)
  show ?case
  proof (cases "a = 0")
    case False
    then have "a div 2 XOR b div 2 \<le> a div 2 + b div 2" by (intro less) simp
    moreover have "a XOR b = of_bool (odd a \<noteq> odd b) + 2 * (a div 2 XOR b div 2)"
      by (rule xor_rec)
    ultimately show ?thesis by (auto split: if_splits) presburger+
  qed simp
qed

lemma be_val_xor_le:
  "length a = length b \<Longrightarrow> be_val (map2 (XOR) a b) \<le> be_val a + be_val b"
proof (induction a arbitrary: b rule: rev_induct)
  case (snoc x xs)
  from snoc.prems have "b \<noteq> []" by auto
  then obtain ys y where b: "b = ys @ [y]" by (metis append_butlast_last_id)
  have "unat (x XOR y) \<le> unat x + unat y"
    by (simp add: unsigned_xor_eq nat_xor_le)
  then show ?case using snoc.IH [of ys] snoc.prems b by simp
qed simp

lemma vnodeId_dist_triangle:
  assumes "tok_wf a" "tok_wf b" "tok_wf c"
  shows "be_val (vnodeId_dist a c) \<le> be_val (vnodeId_dist a b) + be_val (vnodeId_dist b c)"
proof -
  have "vnodeId_dist a c = map2 (XOR) (vnodeId_dist a b) (vnodeId_dist b c)"
    by (metis vnodeId_dist_chain vnodeId_dist_map2 tok_wf_dist)
  then show ?thesis
    using be_val_xor_le [of "vnodeId_dist a b" "vnodeId_dist b c"] by (simp add: vnodeId_dist_def)
qed

subsection \<open>Buckets\<close>

text \<open>The bits of a token, numbered as \<open>_aux_distance\<close> numbers them: bit \<open>k\<close> has weight \<open>2 ^ k\<close>.\<close>

definition tok_bit :: "vtoken \<Rightarrow> nat \<Rightarrow> bool" where
  "tok_bit m k = bit (m ! ((VTOKEN_BITLEN - 1 - k) div 8)) (k mod 8)"

lemma bbit_mod8: "n < 160 \<Longrightarrow> 7 - (160 - Suc n) mod 8 = n mod 8"
proof -
  have "\<forall>n \<in> set [0..<160]. 7 - (160 - Suc n) mod 8 = n mod 8" by code_simp
  then show "n < 160 \<Longrightarrow> 7 - (160 - Suc n) mod 8 = n mod 8" by simp
qed

lemma aux_distance_step:
  assumes "n < VTOKEN_BITLEN"
  shows "aux_distance_from (Suc n) m = (if tok_bit m n then n else aux_distance_from n m)"
proof -
  have "7 - (VTOKEN_BITLEN - Suc n) mod 8 = n mod 8"
    using bbit_mod8 [of n] assms unfolding VTOKEN_BITLEN_def by simp
  moreover have "VTOKEN_BITLEN - (VTOKEN_BITLEN - Suc n) - 1 = n"
    using assms by simp
  moreover have "(push_bit k 1 AND b \<noteq> 0) = bit b k" for k and b :: byte
    by (simp add: and.commute [of _ b] and_exp_eq_0_iff_not_bit)
  ultimately show ?thesis
    by (simp add: tok_bit_def Let_def)
qed

lemma aux_distance_from_spec:
  assumes "n \<le> VTOKEN_BITLEN" "\<exists>k < n. tok_bit m k"
  shows "aux_distance_from n m < n \<and> tok_bit m (aux_distance_from n m) \<and>
    (\<forall>k. aux_distance_from n m < k \<and> k < n \<longrightarrow> \<not> tok_bit m k)"
  using assms
proof (induction n)
  case (Suc n)
  show ?case
  proof (cases "tok_bit m n")
    case True
    then show ?thesis using Suc.prems by (auto simp: aux_distance_step simp del: aux_distance_from.simps)
  next
    case False
    then have "\<exists>k < n. tok_bit m k" using Suc.prems by (metis less_antisym)
    then show ?thesis using False Suc
      by (auto simp: aux_distance_step less_Suc_eq simp del: aux_distance_from.simps)
  qed
qed simp

lemma aux_distance_from_0: "(\<forall>k < n. \<not> tok_bit m k) \<Longrightarrow> n \<le> VTOKEN_BITLEN \<Longrightarrow> aux_distance_from n m = 0"
  by (induction n) (simp_all add: aux_distance_step del: aux_distance_from.simps(2))

lemma bit_shift_add:
  assumes "u < 256"
  shows "bit (v * 256 + u) k = (if k < 8 then bit u k else bit (v :: nat) (k - 8))"
proof (cases "k < 8")
  case True
  then have "(256 :: nat) = 2 * 2 ^ (7 - k) * 2 ^ k"
    by (simp flip: power_Suc power_add)
  then have "v * 256 + u = u + 2 * 2 ^ (7 - k) * v * 2 ^ k" by simp
  then have "(v * 256 + u) div 2 ^ k = 2 * (2 ^ (7 - k) * v) + u div 2 ^ k"
    by (metis add.commute div_mult_self1 mult.assoc power_not_zero zero_neq_numeral)
  then show ?thesis using True by (simp add: bit_iff_odd)
next
  case False
  then have "(2 :: nat) ^ k = 256 * 2 ^ (k - 8)"
    using power_add [of "2 :: nat" 8 "k - 8"] by simp
  then have "(v * 256 + u) div 2 ^ k = v div 2 ^ (k - 8)"
    using assms by (simp add: div_mult2_eq)
  then show ?thesis using False by (simp add: bit_iff_odd)
qed

lemma be_val_bit:
  "bit (be_val bs) k = (k < 8 * length bs \<and> bit (bs ! ((8 * length bs - 1 - k) div 8)) (k mod 8))"
proof (induction bs arbitrary: k rule: rev_induct)
  case (snoc b bs)
  show ?case
  proof (cases "k < 8")
    case True
    then have "(8 * Suc (length bs) - 1 - k) div 8 = length bs" by simp
    then show ?thesis using True unat_byte [of b] by (simp add: bit_shift_add bit_unsigned_iff)
  next
    case False
    then obtain j where j: "k = j + 8" by (metis add.commute le_add_diff_inverse not_less)
    have "bit (be_val (bs @ [b])) k = bit (be_val bs) j"
      using unat_byte [of b] False j by (simp add: bit_shift_add)
    also have "\<dots> = (j < 8 * length bs \<and> bit ((bs @ [b]) ! ((8 * length bs - 1 - j) div 8)) (j mod 8))"
      using snoc.IH [of j] by (auto simp: nth_append)
    finally show ?thesis by (simp add: j)
  qed
qed simp

lemma tok_bit_be_val: "tok_wf m \<Longrightarrow> bit (be_val m) k = (k < VTOKEN_BITLEN \<and> tok_bit m k)"
  by (simp add: be_val_bit tok_bit_def tok_wf_def VTOKEN_LEN_def VTOKEN_BITLEN_def)

lemma top_bit_bounds:
  assumes "bit (v :: nat) k" "\<And>j. k < j \<Longrightarrow> \<not> bit v j"
  shows "2 ^ k \<le> v \<and> v < 2 ^ (k + 1)"
proof
  show "2 ^ k \<le> v"
  proof (rule ccontr)
    assume "\<not> 2 ^ k \<le> v"
    then have "take_bit k v = v" by (simp add: take_bit_nat_eq_self_iff)
    then show False using assms(1) by (metis bit_take_bit_iff order_less_irrefl)
  qed
  have "take_bit (k + 1) v = v"
  proof (rule bit_eqI)
    fix n show "bit (take_bit (k + 1) v) n = bit v n"
      using assms(2) [of n] by (cases "k < n") (auto simp: bit_take_bit_iff)
  qed
  then show "v < 2 ^ (k + 1)" by (simp only: take_bit_nat_eq_self_iff)
qed

lemma aux_distance_spec:
  assumes "tok_wf m" "be_val m \<noteq> 0"
  shows "2 ^ aux_distance m \<le> be_val m \<and> be_val m < 2 ^ (aux_distance m + 1)
    \<and> aux_distance m < VTOKEN_BITLEN"
proof -
  obtain k where "bit (be_val m) k" using assms(2) bit_eqI [of "be_val m" 0] by auto
  then have "\<exists>k < VTOKEN_BITLEN. tok_bit m k" using tok_bit_be_val [OF assms(1)] by blast
  from aux_distance_from_spec [OF order.refl this]
  have *: "aux_distance m < VTOKEN_BITLEN" "tok_bit m (aux_distance m)"
    "\<And>k. aux_distance m < k \<Longrightarrow> k < VTOKEN_BITLEN \<Longrightarrow> \<not> tok_bit m k"
    by (auto simp: aux_distance_def)
  have "2 ^ aux_distance m \<le> be_val m \<and> be_val m < 2 ^ (aux_distance m + 1)"
    by (rule top_bit_bounds) (use * tok_bit_be_val [OF assms(1)] in auto)
  then show ?thesis using *(1) by simp
qed

lemma aux_distance_lt: "aux_distance m < VTOKEN_BITLEN"
proof (cases "\<exists>k < VTOKEN_BITLEN. tok_bit m k")
  case True
  then show ?thesis using aux_distance_from_spec [OF order.refl True] by (simp add: aux_distance_def)
next
  case False
  then show ?thesis
    using aux_distance_from_0 [of VTOKEN_BITLEN m] by (auto simp: aux_distance_def VTOKEN_BITLEN_def)
qed

lemma vnodeId_bucket_lt: "vnodeId_bucket a b < VTOKEN_BITLEN"
  by (simp add: vnodeId_bucket_def aux_distance_lt)

lemma vnodeId_bucket_self: "vnodeId_bucket a a = 0"
proof -
  have "be_val vnodeVer_unknown = 0" by (simp add: be_val_0_iff vnodeVer_unknown_def)
  then have "\<forall>k < VTOKEN_BITLEN. \<not> tok_bit vnodeVer_unknown k"
    using tok_bit_be_val [OF tok_wf_unknown] by simp
  then show ?thesis
    by (simp add: vnodeId_bucket_def vnodeId_dist_self aux_distance_def aux_distance_from_0)
qed

lemma vnodeId_bucket_spec:
  assumes "tok_wf a" "tok_wf b" "a \<noteq> b"
  shows "2 ^ vnodeId_bucket a b \<le> be_val (vnodeId_dist a b) \<and>
    be_val (vnodeId_dist a b) < 2 ^ (vnodeId_bucket a b + 1)"
proof -
  have "be_val (vnodeId_dist a b) \<noteq> 0"
  proof
    assume "be_val (vnodeId_dist a b) = 0"
    then have "\<forall>x \<in> set (vnodeId_dist a b). x = 0" by (simp add: be_val_0_iff)
    then have "vnodeId_dist a b = vnodeVer_unknown"
      by (simp add: vnodeVer_unknown_def list_eq_iff_nth_eq vnodeId_dist_def)
    then show False using vnodeId_dist_0 [OF assms(1,2)] assms(3) by simp
  qed
  then show ?thesis using aux_distance_spec [of "vnodeId_dist a b"] by (simp add: vnodeId_bucket_def)
qed

lemma vsrvcId_bucket_lt: "vsrvcId_bucket t < VTOKEN_BITLEN"
  by (simp add: vsrvcId_bucket_def VTOKEN_BITLEN_def)


subsection \<open>Version texts\<close>

definition ver_tail_text :: "bytes \<Rightarrow> bytes" where
  "ver_tail_text ds = concat (map (\<lambda>d. 46 # dec_nat (unat d)) ds)"

definition ver_text :: "bytes \<Rightarrow> bytes" where
  "ver_text ds = dec_nat (unat (hd ds)) @ ver_tail_text (tl ds)"

lemma ver_tail_text_simps [simp]:
  "ver_tail_text [] = []"
  "ver_tail_text (d # ds) = 46 # dec_nat (unat d) @ ver_tail_text ds"
  by (simp_all add: ver_tail_text_def)

lemma ver_strlize_from_spec:
  "0 < room \<Longrightarrow> ver_strlize_from ds room =
     Some (if int (length (ver_tail_text ds)) < room then Some (ver_tail_text ds) else None)"
proof (induction ds arbitrary: room)
  case (Cons d ds)
  let ?n = "int (length (dec_nat (unat d)))"
  show ?case
  proof (cases "1 + ?n < room")
    case True
    then show ?thesis using Cons.IH [of "room - 1 - ?n"] by (simp add: snprint_def)
  next
    case False
    then show ?thesis using Cons.prems by (simp add: snprint_def)
  qed
qed simp

lemma vnodeVer_strlize_spec:
  assumes "tok_wf v" "int (length (ver_text (take 5 v))) < len"
  shows "vnodeVer_strlize v len = Some (Some (ver_text (take 5 v)))"
proof -
  obtain d ds where v: "v = d # ds" using assms(1) by (cases v) (auto simp: tok_wf_def VTOKEN_LEN_def)
  have "vnodeVer_strlize v len =
      Some (map_option ((@) (dec_nat (unat d)))
        (if int (length (ver_tail_text (take 4 ds))) < len - int (length (dec_nat (unat d)))
         then Some (ver_tail_text (take 4 ds)) else None))"
    using assms(2) unfolding v
    by (simp add: vnodeVer_strlize_def VTOKEN_INTLEN_def ver_strlize_from_spec ver_text_def)
  then show ?thesis using assms(2) unfolding v by (simp add: ver_text_def)
qed

lemma strtol_byte:
  "\<not> c_isdigit c \<Longrightarrow> strtol (dec_nat (unat (d :: byte)) @ c # rest) =
     Some (int (unat d), length (dec_nat (unat d)), False)"
  using strtol_dec_nat [of c "unat d" rest] unat_byte [of d] by simp

lemma ver_tail_text_hd: "\<exists>c r. ver_tail_text ds @ 0 # rest = c # r \<and> \<not> c_isdigit c"
  by (cases ds) (auto simp: c_isdigit_def)

lemma ver_unstrlize_loop_spec:
  "\<lbrakk>length ds < f; length ver = VTOKEN_LEN\<rbrakk> \<Longrightarrow>
     ver_unstrlize_loop f (ver_tail_text ds @ 0 # rest) i ver =
       (if i + length ds \<le> VTOKEN_LEN \<or> ds = [] then
          Some (0, take i ver @ ds @ drop (i + length ds) ver)
        else None)"
proof (induction ds arbitrary: f i ver)
  case Nil
  then show ?case by (cases f) (auto simp: rd_def)
next
  case (Cons d ds)
  then obtain f' where f: "f = Suc f'" by (cases f) auto
  obtain c r where c: "ver_tail_text ds @ 0 # rest = c # r" "\<not> c_isdigit c"
    using ver_tail_text_hd by blast
  have st: "strtol (dec_nat (unat d) @ ver_tail_text ds @ 0 # rest) =
      Some (int (unat d), length (dec_nat (unat d)), False)"
    using strtol_byte [OF c(2), of d r] c(1) by simp
  show ?case
  proof (cases "i < VTOKEN_LEN")
    case True
    have "ver_unstrlize_loop f (ver_tail_text (d # ds) @ 0 # rest) i ver =
        ver_unstrlize_loop f' (ver_tail_text ds @ 0 # rest) (i + 1) (ver[i := d])"
      using True Cons.prems f st by (simp add: rd_def)
    also have "\<dots> = (if i + 1 + length ds \<le> VTOKEN_LEN \<or> ds = [] then
          Some (0, take (i + 1) (ver[i := d]) @ ds @ drop (i + 1 + length ds) (ver[i := d]))
        else None)"
      using Cons.IH [of f' "ver[i := d]" "i + 1"] Cons.prems f by simp
    also have "take (i + 1) (ver[i := d]) = take i ver @ [d]"
      using True Cons.prems by (simp add: take_Suc_conv_app_nth)
    finally show ?thesis using True by auto
  next
    case False
    then show ?thesis using Cons.prems f st by (simp add: rd_def)
  qed
qed

lemma vnodeVer_unstrlize_spec:
  assumes "ds \<noteq> []" "tok_wf ver"
  shows "vnodeVer_unstrlize (ver_text ds @ 0 # rest) ver =
    (if length ds \<le> VTOKEN_LEN then Some (0, ds @ drop (length ds) ver) else None)"
proof -
  obtain d es where ds: "ds = d # es" using assms(1) by (cases ds) auto
  obtain c r where c: "ver_tail_text es @ 0 # rest = c # r" "\<not> c_isdigit c"
    using ver_tail_text_hd by blast
  have st: "strtol (dec_nat (unat d) @ ver_tail_text es @ 0 # rest) =
      Some (int (unat d), length (dec_nat (unat d)), False)"
    using strtol_byte [OF c(2), of d r] c(1) by simp
  have len: "length es \<le> length (ver_tail_text es)"
    by (induction es) auto
  obtain x xs where v: "ver = x # xs" using assms(2) by (cases ver) (auto simp: tok_wf_def VTOKEN_LEN_def)
  then have "length (d # xs) = VTOKEN_LEN" using assms(2) by (simp add: tok_wf_def)
  then have "vnodeVer_unstrlize (ver_text ds @ 0 # rest) ver =
      (if 1 + length es \<le> VTOKEN_LEN \<or> es = [] then
          Some (0, take 1 (d # xs) @ es @ drop (1 + length es) (d # xs)) else None)"
    using ver_unstrlize_loop_spec [of es "length (ver_text ds @ 0 # rest) + 1" "d # xs" rest 1] st len
    by (simp add: vnodeVer_unstrlize_def ver_text_def ds v)
  then show ?thesis by (auto simp: ds v VTOKEN_LEN_def)
qed

end
