(* ===== verification/NodeInfo.thy ===== *)
theory NodeInfo
  imports NodeId
begin

section \<open>Socket addresses, node infos, connections and service infos (vmisc.c, vnodeId.c)\<close>

text \<open>
  A \<open>vnodeInfo\<close> or \<open>vsrvcInfo\<close> is a header followed by an array of typed addresses. The model
  keeps the array as the list of the slots the object really has, apart from the fields
  \<open>naddrs\<close> and \<open>capc\<close>, which may disagree with it when they came from the network. Objects made
  by \<open>malloc\<close> (\<open>vnodeInfo_alloc\<close>) can be resized; those of the relax pool or the stack, with
  room for 12 addresses, cannot: \<open>realloc\<close> of such a pointer crashes. The slots that \<open>realloc\<close>
  adds are shown as zeros; no operation reads a slot beyond \<open>naddrs\<close>.
\<close>

subsection \<open>Socket addresses\<close>

record sockaddr_in =
  sin_family :: u16
  sin_port :: u16
  sin_addr :: u32
  sin_zero :: bytes

definition AF_INET :: u16 where "AF_INET = 2"

text \<open>The port and address are kept in network byte order.\<close>

definition htons :: "u16 \<Rightarrow> u16" where
  "htons p = of_le16 (rev (le16 p))"

definition htonl :: "u32 \<Rightarrow> u32" where
  "htonl a = of_le32 (rev (le32 a))"

definition sockaddr_zero :: sockaddr_in where
  "sockaddr_zero = \<lparr>sin_family = 0, sin_port = 0, sin_addr = 0, sin_zero = replicate 8 0\<rparr>"

definition vsockaddr_within_same_network :: "sockaddr_in \<Rightarrow> sockaddr_in \<Rightarrow> bool" where
  "vsockaddr_within_same_network a b =
     (if sin_family a \<noteq> sin_family b \<or> sin_addr a \<noteq> sin_addr b then False else True)"

definition vsockaddr_copy :: "sockaddr_in \<Rightarrow> sockaddr_in" where
  "vsockaddr_copy src = src"

definition vsockaddr_equal :: "sockaddr_in \<Rightarrow> sockaddr_in \<Rightarrow> bool" where
  "vsockaddr_equal a b =
     (if sin_family a \<noteq> sin_family b \<or> sin_addr a \<noteq> sin_addr b \<or> sin_port a \<noteq> sin_port b
      then False else True)"

definition vsockaddr_convert2 :: "u32 \<Rightarrow> u16 \<Rightarrow> sockaddr_in" where
  "vsockaddr_convert2 ip port = sockaddr_zero
     \<lparr>sin_family := AF_INET, sin_port := htons port, sin_addr := htonl ip\<rparr>"

text \<open>\<open>ntohl\<close> and \<open>ntohs\<close> are the same byte swaps as \<open>htonl\<close> and \<open>htons\<close>.\<close>

definition vsockaddr_unconvert2 :: "sockaddr_in \<Rightarrow> u32 \<times> u16" where
  "vsockaddr_unconvert2 addr = (htonl (sin_addr addr), htons (sin_port addr))"

datatype addr_class = VADDR_CLASS_A | VADDR_CLASS_B | VADDR_CLASS_C | VADDR_CLASS_D | VADDR_CLASS_E

fun sockaddr_class_scan :: "(addr_class \<times> u32) list \<Rightarrow> u32 \<Rightarrow> addr_class" where
  "sockaddr_class_scan [] haddr = VADDR_CLASS_E"
| "sockaddr_class_scan ((klass, m) # ps) haddr =
     (if haddr AND m = 0 then klass else sockaddr_class_scan ps haddr)"

definition aux_sockaddr_class :: "u32 \<Rightarrow> addr_class" where
  "aux_sockaddr_class haddr = sockaddr_class_scan
     [(VADDR_CLASS_A, 0x80000000), (VADDR_CLASS_B, 0x40000000),
      (VADDR_CLASS_C, 0x20000000), (VADDR_CLASS_D, 0x10000000)] haddr"

definition priv_patterns :: "(addr_class \<times> u32 \<times> u32) list" where
  "priv_patterns =
     [(VADDR_CLASS_A, 0xff000000, 0x0a000000),
      (VADDR_CLASS_B, 0xfff00000, 0xac100000),
      (VADDR_CLASS_C, 0xffff0000, 0xc0a80000)]"

definition vsockaddr_is_private :: "sockaddr_in \<Rightarrow> bool" where
  "vsockaddr_is_private addr =
     (let haddr = htonl (sin_addr addr); klass = aux_sockaddr_class haddr
      in find_idx (\<lambda>(k, mask, pat). klass = k \<and> haddr AND mask = pat) priv_patterns \<noteq> None)"

definition vsockaddr_is_public :: "sockaddr_in \<Rightarrow> bool" where
  "vsockaddr_is_public addr \<longleftrightarrow> \<not> vsockaddr_is_private addr"

subsection \<open>Typed addresses\<close>

record vsockaddr_in =
  va_addr :: sockaddr_in
  va_type :: u32

definition vsockaddr_zero :: vsockaddr_in where
  "vsockaddr_zero = \<lparr>va_addr = sockaddr_zero, va_type = 0\<rparr>"

definition VSOCKADDR_LOCAL :: u32 where "VSOCKADDR_LOCAL = 0"
definition VSOCKADDR_UPNP :: u32 where "VSOCKADDR_UPNP = 1"
definition VSOCKADDR_REFLEXIVE :: u32 where "VSOCKADDR_REFLEXIVE = 2"
definition VSOCKADDR_RELAY :: u32 where "VSOCKADDR_RELAY = 3"
definition VSOCKADDR_UNKNOWN :: u32 where "VSOCKADDR_UNKNOWN = 4"
definition VSOCKADDR_BUTT :: u32 where "VSOCKADDR_BUTT = 5"

definition VSOCKADDR_TYPE :: "u32 \<Rightarrow> u32" where
  "VSOCKADDR_TYPE ty = 0x00ff AND ty"

text \<open>
  The two loops the info structures share: the search for an equal address from index \<open>i\<close> on
  with \<open>n\<close> slots to go, and the insertion that shifts the addresses of a greater type up from
  index \<open>i\<close> and writes the new one; \<open>key\<close> reads the type the comparison uses.
\<close>

fun addr_find :: "nat \<Rightarrow> nat \<Rightarrow> vsockaddr_in list \<Rightarrow> sockaddr_in \<Rightarrow> nat option option" where
  "addr_find 0 i slots addr = Some None"
| "addr_find (Suc n) i slots addr = do {
     a \<leftarrow> rd slots i;
     if vsockaddr_equal (va_addr a) addr then Some (Some i)
     else addr_find n (i + 1) slots addr
   }"

fun addr_put :: "(u32 \<Rightarrow> u32) \<Rightarrow> nat \<Rightarrow> vsockaddr_in list \<Rightarrow> vsockaddr_in \<Rightarrow> vsockaddr_in list option" where
  "addr_put key 0 slots v = wr slots 0 v"
| "addr_put key (Suc i) slots v = do {
     p \<leftarrow> rd slots i;
     if key (va_type p) > key (va_type v) then do {
       slots \<leftarrow> wr slots (Suc i) p;
       addr_put key i slots v
     }
     else wr slots (Suc i) v
   }"

subsection \<open>Node infos\<close>

record vnodeInfo =
  ni_id :: vtoken
  ni_ver :: vtoken
  ni_weight :: int
  ni_naddrs :: int
  ni_capc :: int
  ni_addrs :: "vsockaddr_in list"
  ni_heap :: bool

definition VNODEINFO_MAX_ADDRS :: int where "VNODEINFO_MAX_ADDRS = 12"
definition VNODEINFO_MIN_ADDRS :: int where "VNODEINFO_MIN_ADDRS = 4"

definition vnodeInfo_relax_alloc :: "bool \<Rightarrow> vnodeInfo option" where
  "vnodeInfo_relax_alloc mem =
     (if \<not> mem then None
      else Some \<lparr>ni_id = replicate 20 0, ni_ver = replicate 20 0, ni_weight = 0, ni_naddrs = 0,
                 ni_capc = VNODEINFO_MAX_ADDRS, ni_addrs = replicate 12 vsockaddr_zero,
                 ni_heap = False\<rparr>)"

definition vnodeInfo_relax_init :: "vnodeInfo \<Rightarrow> vtoken \<Rightarrow> vtoken \<Rightarrow> int \<Rightarrow> vnodeInfo option" where
  "vnodeInfo_relax_init nodei nid ver weight = do {
     vassert (0 \<le> weight);
     Some (nodei\<lparr>ni_id := vtoken_copy nid, ni_ver := vtoken_copy ver, ni_weight := weight,
                 ni_naddrs := 0, ni_capc := VNODEINFO_MAX_ADDRS\<rparr>)
   }"

definition vnodeInfo_alloc :: "bool \<Rightarrow> vnodeInfo option" where
  "vnodeInfo_alloc mem =
     (if \<not> mem then None
      else Some \<lparr>ni_id = replicate 20 0, ni_ver = replicate 20 0, ni_weight = 0, ni_naddrs = 0,
                 ni_capc = VNODEINFO_MIN_ADDRS, ni_addrs = replicate 4 vsockaddr_zero,
                 ni_heap = True\<rparr>)"

definition vnodeInfo_init :: "vnodeInfo \<Rightarrow> vtoken \<Rightarrow> vtoken \<Rightarrow> int \<Rightarrow> vnodeInfo option" where
  "vnodeInfo_init nodei nid ver weight = do {
     vassert (0 \<le> weight);
     Some (nodei\<lparr>ni_id := vtoken_copy nid, ni_ver := vtoken_copy ver, ni_weight := weight,
                 ni_naddrs := 0, ni_capc := VNODEINFO_MIN_ADDRS\<rparr>)
   }"

definition resized :: "nat \<Rightarrow> vsockaddr_in list \<Rightarrow> vsockaddr_in list" where
  "resized n slots = take n slots @ replicate (n - length slots) vsockaddr_zero"

text \<open>\<open>realloc(nodei, sizeof(vnodeInfo) + sizeof(struct vsockaddr_in) * capc)\<close>: the four slots of the
  type and \<open>capc\<close> more. \<open>Some None\<close> is the return of NULL.\<close>

definition vnodeInfo_grow :: "bool \<Rightarrow> vnodeInfo \<Rightarrow> vnodeInfo option option" where
  "vnodeInfo_grow mem nodei = do {
     vassert (ni_heap nodei);
     if \<not> mem then Some None
     else Some (Some (nodei\<lparr>ni_addrs := resized (nat (4 + ni_capc nodei)) (ni_addrs nodei),
                            ni_capc := ni_capc nodei + VNODEINFO_MIN_ADDRS\<rparr>))
   }"

definition vnodeInfo_add_addr ::
  "bool \<Rightarrow> vnodeInfo \<Rightarrow> sockaddr_in \<Rightarrow> u32 \<Rightarrow> (int \<times> vnodeInfo) option" where
  "vnodeInfo_add_addr mem nodei addr ty =
     (if ni_naddrs nodei \<ge> VNODEINFO_MAX_ADDRS then Some (-1, nodei)
      else do {
        grown \<leftarrow> (if ni_naddrs nodei \<ge> ni_capc nodei then vnodeInfo_grow mem nodei
                  else Some (Some nodei));
        case grown of
          None \<Rightarrow> Some (-1, nodei)
        | Some nodei \<Rightarrow> do {
            found \<leftarrow> addr_find (nat (ni_naddrs nodei)) 0 (ni_addrs nodei) addr;
            case found of
              Some i \<Rightarrow> do {
                a \<leftarrow> rd (ni_addrs nodei) i;
                if VSOCKADDR_TYPE ty \<noteq> VSOCKADDR_UNKNOWN \<and> VSOCKADDR_TYPE (va_type a) \<noteq> VSOCKADDR_TYPE ty
                then Some (0, nodei\<lparr>ni_addrs := (ni_addrs nodei)[i := a\<lparr>va_type := ty\<rparr>]\<rparr>)
                else Some (0, nodei)
              }
            | None \<Rightarrow> do {
                vassert (0 \<le> ni_naddrs nodei);
                slots \<leftarrow> addr_put VSOCKADDR_TYPE (nat (ni_naddrs nodei)) (ni_addrs nodei)
                          \<lparr>va_addr = vsockaddr_copy addr, va_type = ty\<rparr>;
                Some (1, nodei\<lparr>ni_addrs := slots, ni_naddrs := ni_naddrs nodei + 1\<rparr>)
              }
          }
      })"

definition vnodeInfo_has_addr :: "vnodeInfo \<Rightarrow> sockaddr_in \<Rightarrow> bool option" where
  "vnodeInfo_has_addr nodei addr = do {
     found \<leftarrow> addr_find (nat (ni_naddrs nodei)) 0 (ni_addrs nodei) addr;
     Some (found \<noteq> None)
   }"

text \<open>The loop of \<open>vnodeInfo_copy\<close>: \<open>n\<close> addresses of the source are left, the first at \<open>i\<close>.\<close>

fun nodeInfo_copy_addrs ::
  "bool \<Rightarrow> nat \<Rightarrow> nat \<Rightarrow> int \<Rightarrow> vnodeInfo \<Rightarrow> vsockaddr_in list \<Rightarrow> (int \<times> vnodeInfo) option" where
  "nodeInfo_copy_addrs mem 0 i updated dest src = Some (if updated \<noteq> 0 then 1 else 0, dest)"
| "nodeInfo_copy_addrs mem (Suc n) i updated dest src = do {
     a \<leftarrow> rd src i;
     (ret, dest) \<leftarrow> vnodeInfo_add_addr mem dest (va_addr a) (va_type a);
     if ret < 0 then Some (-1, dest)
     else nodeInfo_copy_addrs mem n (i + 1) (updated + 1) dest src
   }"

definition vnodeInfo_copy :: "bool \<Rightarrow> vnodeInfo \<Rightarrow> vnodeInfo \<Rightarrow> (int \<times> vnodeInfo) option" where
  "vnodeInfo_copy mem dest src = do {
     vassert (0 \<le> ni_capc dest \<and> nat (ni_capc dest) \<le> length (ni_addrs dest));
     let cleared = replicate (nat (ni_capc dest)) vsockaddr_zero @ drop (nat (ni_capc dest)) (ni_addrs dest);
     nodeInfo_copy_addrs mem (nat (ni_naddrs src)) 0 0
       (dest\<lparr>ni_id := vtoken_copy (ni_id src), ni_ver := vtoken_copy (ni_ver src),
             ni_weight := ni_weight src, ni_naddrs := 0, ni_addrs := cleared\<rparr>) (ni_addrs src)
   }"

definition vnodeInfo_is_fake :: "vnodeInfo \<Rightarrow> bool" where
  "vnodeInfo_is_fake nodei = vtoken_equal (ni_ver nodei) vnodeVer_unknown"

text \<open>
  The first loop of \<open>vnodeInfo_merge\<close>. It keeps looking addresses up through the pointer \<open>dest\<close>
  it read before the loop, which \<open>realloc\<close> has freed once an insertion has grown the object
  (seen as a change of \<open>capc\<close>): \<open>stale\<close>.
\<close>

fun nodeInfo_merge_fake ::
  "bool \<Rightarrow> nat \<Rightarrow> nat \<Rightarrow> int \<Rightarrow> bool \<Rightarrow> vnodeInfo \<Rightarrow> vsockaddr_in list \<Rightarrow> (int \<times> vnodeInfo) option" where
  "nodeInfo_merge_fake mem 0 i updated stale dest src = Some (if updated \<noteq> 0 then 1 else 0, dest)"
| "nodeInfo_merge_fake mem (Suc n) i updated stale dest src = do {
     a \<leftarrow> rd src i;
     vassert (\<not> stale);
     has \<leftarrow> vnodeInfo_has_addr dest (va_addr a);
     if has then nodeInfo_merge_fake mem n (i + 1) updated stale dest src
     else do {
       (ret, dest') \<leftarrow> vnodeInfo_add_addr mem dest (va_addr a) (va_type a);
       if ret < 0 then Some (-1, dest')
       else nodeInfo_merge_fake mem n (i + 1) (updated + 1) (ni_capc dest' \<noteq> ni_capc dest) dest' src
     }
   }"

text \<open>The second loop: the address is copied, the type kept.\<close>

fun nodeInfo_merge_addrs ::
  "nat \<Rightarrow> nat \<Rightarrow> int \<Rightarrow> vsockaddr_in list \<Rightarrow> vsockaddr_in list \<Rightarrow> (int \<times> vsockaddr_in list) option" where
  "nodeInfo_merge_addrs 0 i updated dest src = Some (if updated \<noteq> 0 then 1 else 0, dest)"
| "nodeInfo_merge_addrs (Suc n) i updated dest src = do {
     d \<leftarrow> rd dest i;
     s \<leftarrow> rd src i;
     if vsockaddr_equal (va_addr d) (va_addr s) then nodeInfo_merge_addrs n (i + 1) updated dest src
     else nodeInfo_merge_addrs n (i + 1) (updated + 1)
       (dest[i := \<lparr>va_addr = vsockaddr_copy (va_addr s), va_type = VSOCKADDR_TYPE (va_type d)\<rparr>]) src
   }"

definition vnodeInfo_merge :: "bool \<Rightarrow> vnodeInfo \<Rightarrow> vnodeInfo \<Rightarrow> (int \<times> vnodeInfo) option" where
  "vnodeInfo_merge mem dest src =
     (if \<not> vtoken_equal (ni_id dest) (ni_id src) then Some (0, dest)
      else if vnodeInfo_is_fake src then
        nodeInfo_merge_fake mem (nat (ni_naddrs src)) 0 0 False dest (ni_addrs src)
      else if ni_naddrs dest \<noteq> ni_naddrs src then do {
        (ret, dest) \<leftarrow> vnodeInfo_copy mem dest src;
        if ret < 0 then Some (-1, dest) else Some (1, dest)
      }
      else do {
        (updated, slots) \<leftarrow> nodeInfo_merge_addrs (nat (ni_naddrs src)) 0 0 (ni_addrs dest) (ni_addrs src);
        Some (updated, dest\<lparr>ni_ver := vtoken_copy (ni_ver src), ni_weight := ni_weight src,
                            ni_addrs := slots\<rparr>)
      })"

text \<open>The address of the last slot in use; a crash when there is none.\<close>

definition vnodeInfo_worst_addr :: "vnodeInfo \<Rightarrow> sockaddr_in option" where
  "vnodeInfo_worst_addr nodei = do {
     vassert (0 \<le> ni_naddrs nodei - 1);
     a \<leftarrow> rd (ni_addrs nodei) (nat (ni_naddrs nodei - 1));
     Some (va_addr a)
   }"

definition vnodeInfo_size :: "vnodeInfo \<Rightarrow> int" where
  "vnodeInfo_size nodei = 20 + 20 + 4 + (2 + 2) + ni_naddrs nodei * 20"

subsection \<open>Connections\<close>

record vnodeConn =
  vc_priority :: int
  vc_laddr :: sockaddr_in
  vc_raddr :: sockaddr_in

definition vnodeConn_set :: "vnodeConn \<Rightarrow> vsockaddr_in \<Rightarrow> vsockaddr_in \<Rightarrow> vnodeConn" where
  "vnodeConn_set conn local remote = conn
     \<lparr>vc_laddr := vsockaddr_copy (va_addr local), vc_raddr := vsockaddr_copy (va_addr remote),
      vc_priority := uint (VSOCKADDR_TYPE (va_type local)) + uint (VSOCKADDR_TYPE (va_type remote))\<rparr>"

definition vnodeConn_set_raw :: "vnodeConn \<Rightarrow> sockaddr_in \<Rightarrow> sockaddr_in \<Rightarrow> vnodeConn" where
  "vnodeConn_set_raw conn laddr raddr = conn
     \<lparr>vc_laddr := vsockaddr_copy laddr, vc_raddr := vsockaddr_copy raddr,
      vc_priority := uint VSOCKADDR_UNKNOWN + uint VSOCKADDR_UNKNOWN\<rparr>"

definition vnodeConn_adjust :: "vnodeConn \<Rightarrow> vnodeConn \<Rightarrow> vnodeConn" where
  "vnodeConn_adjust old neo =
     (if vc_priority neo > vc_priority old then old
      else old\<lparr>vc_priority := vc_priority neo, vc_laddr := vsockaddr_copy (vc_laddr neo),
               vc_raddr := vsockaddr_copy (vc_raddr neo)\<rparr>)"

subsection \<open>Service infos\<close>

record vsrvcInfo =
  si_hash :: vsrvcHash
  si_hostid :: vtoken
  si_nice :: int
  si_proto :: int
  si_naddrs :: int
  si_capc :: int
  si_addrs :: "vsockaddr_in list"
  si_heap :: bool

definition VSRVCINFO_MAX_ADDRS :: int where "VSRVCINFO_MAX_ADDRS = 12"
definition VSRVCINFO_MIN_ADDRS :: int where "VSRVCINFO_MIN_ADDRS = 2"

definition vsrvcInfo_relax_init ::
  "vsrvcInfo \<Rightarrow> vsrvcHash \<Rightarrow> vtoken \<Rightarrow> int \<Rightarrow> int \<Rightarrow> vsrvcInfo" where
  "vsrvcInfo_relax_init srvci hash hostId nice proto =
     srvci\<lparr>si_hash := vsrvcHash_copy hash, si_hostid := vtoken_copy hostId, si_nice := nice,
           si_proto := proto, si_naddrs := 0, si_capc := VSRVCINFO_MAX_ADDRS\<rparr>"

definition vsrvcInfo_alloc :: "bool \<Rightarrow> vsrvcInfo option" where
  "vsrvcInfo_alloc mem =
     (if \<not> mem then None
      else Some \<lparr>si_hash = replicate 20 0, si_hostid = replicate 20 0, si_nice = 0, si_proto = 0,
                 si_naddrs = 0, si_capc = VSRVCINFO_MIN_ADDRS,
                 si_addrs = replicate 2 vsockaddr_zero, si_heap = True\<rparr>)"

definition vsrvcInfo_init ::
  "vsrvcInfo \<Rightarrow> vsrvcHash \<Rightarrow> vtoken \<Rightarrow> int \<Rightarrow> int \<Rightarrow> vsrvcInfo option" where
  "vsrvcInfo_init srvci hash hostId nice proto = do {
     vassert (0 \<le> nice);
     Some (srvci\<lparr>si_hash := vsrvcHash_copy hash, si_hostid := vtoken_copy hostId, si_nice := nice,
                 si_proto := proto, si_naddrs := 0, si_capc := VSRVCINFO_MIN_ADDRS\<rparr>)
   }"

definition vsrvcInfo_grow :: "bool \<Rightarrow> vsrvcInfo \<Rightarrow> vsrvcInfo option option" where
  "vsrvcInfo_grow mem srvci = do {
     vassert (si_heap srvci);
     if \<not> mem then Some None
     else Some (Some (srvci\<lparr>si_addrs := resized (nat (2 + si_capc srvci)) (si_addrs srvci),
                            si_capc := si_capc srvci + VSRVCINFO_MIN_ADDRS\<rparr>))
   }"

definition vsrvcInfo_add_addr ::
  "bool \<Rightarrow> vsrvcInfo \<Rightarrow> sockaddr_in \<Rightarrow> u32 \<Rightarrow> (int \<times> vsrvcInfo) option" where
  "vsrvcInfo_add_addr mem srvci addr ty = do {
     vassert (ty < VSOCKADDR_BUTT);
     if si_naddrs srvci \<ge> VSRVCINFO_MAX_ADDRS then Some (-1, srvci)
     else do {
       grown \<leftarrow> (if si_naddrs srvci \<ge> si_capc srvci then vsrvcInfo_grow mem srvci
                 else Some (Some srvci));
       case grown of
         None \<Rightarrow> Some (-1, srvci)
       | Some srvci \<Rightarrow> do {
           found \<leftarrow> addr_find (nat (si_naddrs srvci)) 0 (si_addrs srvci) addr;
           case found of
             Some i \<Rightarrow> do {
               a \<leftarrow> rd (si_addrs srvci) i;
               if va_type a \<noteq> ty
               then Some (0, srvci\<lparr>si_addrs := (si_addrs srvci)[i := a\<lparr>va_type := ty\<rparr>]\<rparr>)
               else Some (0, srvci)
             }
           | None \<Rightarrow> do {
               vassert (0 \<le> si_naddrs srvci);
               slots \<leftarrow> addr_put (\<lambda>t. t) (nat (si_naddrs srvci)) (si_addrs srvci)
                         \<lparr>va_addr = vsockaddr_copy addr, va_type = ty\<rparr>;
               Some (0, srvci\<lparr>si_addrs := slots, si_naddrs := si_naddrs srvci + 1\<rparr>)
             }
         }
     }
   }"

text \<open>The loop of \<open>vsrvcInfo_del_addr\<close>: slots \<open>i\<close> to \<open>i + n - 1\<close> get their successors.\<close>

fun addr_close_gap :: "nat \<Rightarrow> nat \<Rightarrow> vsockaddr_in list \<Rightarrow> vsockaddr_in list option" where
  "addr_close_gap 0 i slots = Some slots"
| "addr_close_gap (Suc n) i slots = do {
     a \<leftarrow> rd slots (i + 1);
     slots \<leftarrow> wr slots i a;
     addr_close_gap n (i + 1) slots
   }"

definition vsrvcInfo_del_addr :: "vsrvcInfo \<Rightarrow> sockaddr_in \<Rightarrow> vsrvcInfo option" where
  "vsrvcInfo_del_addr srvci addr = do {
     found \<leftarrow> addr_find (nat (si_naddrs srvci)) 0 (si_addrs srvci) addr;
     case found of
       None \<Rightarrow> Some srvci
     | Some i \<Rightarrow> do {
         slots \<leftarrow> addr_close_gap (nat (si_naddrs srvci) - 1 - i) i (si_addrs srvci);
         Some (srvci\<lparr>si_addrs := slots, si_naddrs := si_naddrs srvci - 1\<rparr>)
       }
   }"

definition vsrvcInfo_is_empty :: "vsrvcInfo \<Rightarrow> bool" where
  "vsrvcInfo_is_empty srvci \<longleftrightarrow> si_naddrs srvci = 0"

definition vsrvcInfo_size :: "vsrvcInfo \<Rightarrow> int" where
  "vsrvcInfo_size srvci = 20 + 20 + (2 + 2) + (2 + 2) + si_naddrs srvci * 20"

fun srvcInfo_copy_addrs ::
  "bool \<Rightarrow> nat \<Rightarrow> nat \<Rightarrow> vsrvcInfo \<Rightarrow> vsockaddr_in list \<Rightarrow> (int \<times> vsrvcInfo) option" where
  "srvcInfo_copy_addrs mem 0 i dest src = Some (0, dest)"
| "srvcInfo_copy_addrs mem (Suc n) i dest src = do {
     a \<leftarrow> rd src i;
     (ret, dest) \<leftarrow> vsrvcInfo_add_addr mem dest (va_addr a) (va_type a);
     if ret < 0 then Some (-1, dest)
     else srvcInfo_copy_addrs mem n (i + 1) dest src
   }"

definition vsrvcInfo_copy :: "bool \<Rightarrow> vsrvcInfo \<Rightarrow> vsrvcInfo \<Rightarrow> (int \<times> vsrvcInfo) option" where
  "vsrvcInfo_copy mem dest src =
     srvcInfo_copy_addrs mem (nat (si_naddrs src)) 0
       (dest\<lparr>si_hash := vsrvcHash_copy (si_hash src), si_hostid := vtoken_copy (si_hostid src),
             si_nice := si_nice src, si_proto := si_proto src, si_naddrs := 0\<rparr>) (si_addrs src)"


section \<open>What these operations do\<close>

subsection \<open>Byte order and address classes\<close>

lemma of_le16_bytes:
  fixes a b :: byte
  shows "ucast (of_le16 [a, b]) = a" "ucast (drop_bit 8 (of_le16 [a, b])) = b"
  by (rule bit_word_eqI; auto simp: of_le16_def bit_simps byte_bit_out)+

lemma le16_of_le16: "le16 (of_le16 [a, b]) = [a, b]"
  by (simp only: le16_def of_le16_bytes)

lemma htons_htons [simp]: "htons (htons p) = p"
  using of_le16_le16 [of p "[]"] by (simp add: htons_def le16_def of_le16_bytes)

lemma htonl_htonl [simp]: "htonl (htonl a) = a"
  using of_le32_le32 [of a "[]"] by (simp add: htonl_def le32_def of_le32_bytes)

lemma vsockaddr_convert2_unconvert2:
  "vsockaddr_unconvert2 (vsockaddr_convert2 ip port) = (ip, port)"
  by (simp add: vsockaddr_unconvert2_def vsockaddr_convert2_def)

lemma vsockaddr_copy_id [simp]: "vsockaddr_copy a = a"
  by (simp add: vsockaddr_copy_def)

definition sa_key :: "sockaddr_in \<Rightarrow> u16 \<times> u32 \<times> u16" where
  "sa_key a = (sin_family a, sin_addr a, sin_port a)"

lemma vsockaddr_equal_iff [simp]: "vsockaddr_equal a b \<longleftrightarrow> sa_key a = sa_key b"
  by (auto simp: vsockaddr_equal_def sa_key_def)

subsection \<open>The shared loops\<close>

definition addr_in :: "vsockaddr_in list \<Rightarrow> sockaddr_in \<Rightarrow> bool" where
  "addr_in xs a \<longleftrightarrow> (\<exists>x \<in> set xs. sa_key (va_addr x) = sa_key a)"

lemma va_eta [simp]: "\<lparr>va_addr = va_addr x, va_type = va_type x\<rparr> = x"
  by simp

lemma addr_find_spec:
  "i + n \<le> length slots \<Longrightarrow>
     addr_find n i slots a =
       Some (map_option ((+) i) (find_idx (\<lambda>x. sa_key (va_addr x) = sa_key a) (take n (drop i slots))))"
proof (induction n arbitrary: i)
  case (Suc n)
  then have "take (Suc n) (drop i slots) = slots ! i # take n (drop (Suc i) slots)"
    by (simp add: Cons_nth_drop_Suc [symmetric])
  then show ?case
    using Suc by (auto simp: option.map_comp comp_def intro!: option.map_cong)
qed simp

lemma addr_find_take:
  assumes "n \<le> length slots"
  shows "addr_find n 0 slots a = Some (find_idx (\<lambda>x. sa_key (va_addr x) = sa_key a) (take n slots))"
  using addr_find_spec [of 0 n slots a] assms by (simp add: option.map_ident comp_def plus_nat.add_0 [abs_def])

lemma addr_find_None:
  "n \<le> length slots \<Longrightarrow> \<not> addr_in (take n slots) a \<Longrightarrow> addr_find n 0 slots a = Some None"
  by (auto simp: addr_find_take addr_in_def)

lemma addr_find_Some:
  assumes "n \<le> length slots" "addr_in (take n slots) a"
  obtains i where "addr_find n 0 slots a = Some (Some i)" "i < n" "sa_key (va_addr (slots ! i)) = sa_key a"
proof -
  have "find_idx (\<lambda>x. sa_key (va_addr x) = sa_key a) (take n slots) \<noteq> None"
    using assms(2) by (simp add: addr_in_def)
  then obtain i where "find_idx (\<lambda>x. sa_key (va_addr x) = sa_key a) (take n slots) = Some i" by blast
  then show ?thesis
    using that find_idx_Some assms(1) by (fastforce simp: addr_find_take)
qed

text \<open>Insertion behind the addresses whose type is not greater.\<close>

definition addr_ins :: "(u32 \<Rightarrow> u32) \<Rightarrow> vsockaddr_in \<Rightarrow> vsockaddr_in list \<Rightarrow> vsockaddr_in list" where
  "addr_ins key v xs =
     rev (dropWhile (\<lambda>p. key (va_type p) > key (va_type v)) (rev xs)) @ v #
     rev (takeWhile (\<lambda>p. key (va_type p) > key (va_type v)) (rev xs))"

lemma addr_ins_simps [simp]:
  "addr_ins key v [] = [v]"
  "addr_ins key v (xs @ [p]) =
     (if key (va_type p) > key (va_type v) then addr_ins key v xs @ [p] else xs @ [p, v])"
  by (simp_all add: addr_ins_def)

lemma set_addr_ins [simp]: "set (addr_ins key v xs) = insert v (set xs)"
  by (induction xs rule: rev_induct) auto

lemma length_addr_ins [simp]: "length (addr_ins key v xs) = Suc (length xs)"
  by (induction xs rule: rev_induct) auto

lemma distinct_addr_ins:
  "distinct (map f (addr_ins key v xs)) \<longleftrightarrow> distinct (map f (v # xs))"
  by (induction xs rule: rev_induct) auto

lemma sorted_addr_ins:
  "sorted (map (\<lambda>x. key (va_type x)) xs) \<Longrightarrow> sorted (map (\<lambda>x. key (va_type x)) (addr_ins key v xs))"
  by (induction xs rule: rev_induct) (auto simp: sorted_append)

lemma addr_ins_last:
  "sorted (map (\<lambda>x. key (va_type x)) (xs @ [v])) \<Longrightarrow> addr_ins key v xs = xs @ [v]"
  by (induction xs rule: rev_induct) (auto simp: sorted_append)

lemma addr_put_spec:
  "i < length slots \<Longrightarrow>
     addr_put key i slots v = Some (addr_ins key v (take i slots) @ drop (Suc i) slots)"
proof (induction i arbitrary: slots)
  case 0
  then show ?case by (cases slots) auto
next
  case (Suc i)
  then have t: "take (Suc i) slots = take i slots @ [slots ! i]" by (simp add: take_Suc_conv_app_nth)
  show ?case
  proof (cases "key (va_type (slots ! i)) > key (va_type v)")
    case True
    have "addr_put key i (slots[Suc i := slots ! i]) v =
        Some (addr_ins key v (take i slots) @ drop (Suc i) (slots[Suc i := slots ! i]))"
      using Suc.IH [of "slots[Suc i := slots ! i]"] Suc.prems by simp
    also have "drop (Suc i) (slots[Suc i := slots ! i]) = slots ! i # drop (Suc (Suc i)) slots"
      using Suc.prems by (simp add: Cons_nth_drop_Suc [symmetric])
    finally show ?thesis using True Suc.prems t by simp
  next
    case False
    then have "addr_ins key v (take (Suc i) slots) = take (Suc i) slots @ [v]" by (simp add: t)
    then show ?thesis using False Suc.prems by (simp add: upd_conv_take_nth_drop)
  qed
qed

lemma resized_spec [simp]:
  "length (resized n xs) = n" "k \<le> length xs \<Longrightarrow> k \<le> n \<Longrightarrow> take k (resized n xs) = take k xs"
  by (auto simp: resized_def min_def)

subsection \<open>Adding typed addresses: the contract\<close>

text \<open>
  What both info structures promise of their \<open>add_addr\<close>: as long as there is memory and room, a
  new address goes behind those of lower or equal type. Copying an info is adding the addresses
  of the source one by one.
\<close>

locale addr_holder =
  fixes lst :: "'s \<Rightarrow> vsockaddr_in list"
    and wf :: "'s \<Rightarrow> bool"
    and okty :: "u32 \<Rightarrow> bool"
    and key :: "u32 \<Rightarrow> u32"
    and add :: "'s \<Rightarrow> sockaddr_in \<Rightarrow> u32 \<Rightarrow> (int \<times> 's) option"
    and same :: "'s \<Rightarrow> 's \<Rightarrow> bool"
  assumes add_new:
    "\<lbrakk>wf s; okty t; length (lst s) < 12; \<not> addr_in (lst s) a\<rbrakk> \<Longrightarrow>
       \<exists>r s'. add s a t = Some (r, s') \<and> 0 \<le> r \<and> wf s' \<and> same s s' \<and>
         lst s' = addr_ins key \<lparr>va_addr = a, va_type = t\<rparr> (lst s)"
    and same_refl: "same s s"
    and same_trans: "same s s1 \<Longrightarrow> same s1 s2 \<Longrightarrow> same s s2"
begin

fun add_all :: "vsockaddr_in list \<Rightarrow> 's \<Rightarrow> (int \<times> 's) option" where
  "add_all [] s = Some (0, s)"
| "add_all (x # xs) s = do {
     (ret, s) \<leftarrow> add s (va_addr x) (va_type x);
     if ret < 0 then Some (-1, s) else add_all xs s
   }"

lemma add_all_spec:
  assumes "wf s" "length (lst s) + length xs \<le> 12"
    "\<forall>x \<in> set xs. okty (va_type x)" "distinct (map (\<lambda>x. sa_key (va_addr x)) (lst s @ xs))"
  shows "\<exists>s'. add_all xs s = Some (0, s') \<and> wf s' \<and> same s s' \<and>
    lst s' = fold (addr_ins key) xs (lst s)"
  using assms
proof (induction xs arbitrary: s)
  case Nil
  then show ?case by (simp add: same_refl)
next
  case (Cons x xs)
  have "sa_key (va_addr x) \<notin> (\<lambda>x. sa_key (va_addr x)) ` set (lst s)"
    using Cons.prems(4) by simp
  then have "\<not> addr_in (lst s) (va_addr x)" by (auto simp: addr_in_def image_iff)
  then have "\<exists>r s'. add s (va_addr x) (va_type x) = Some (r, s') \<and> 0 \<le> r \<and> wf s' \<and> same s s' \<and>
      lst s' = addr_ins key x (lst s)"
    using add_new [of s "va_type x" "va_addr x"] Cons.prems by simp
  then obtain r s' where s': "add s (va_addr x) (va_type x) = Some (r, s')" "0 \<le> r" "wf s'"
      "same s s'" "lst s' = addr_ins key x (lst s)"
    by blast
  have "distinct (map (\<lambda>x. sa_key (va_addr x)) (lst s' @ xs))"
    using Cons.prems(4) by (simp add: s'(5) distinct_addr_ins)
  then obtain s'' where "add_all xs s' = Some (0, s'')" "wf s''" "same s' s''"
      "lst s'' = fold (addr_ins key) xs (lst s')"
    using Cons.IH [of s'] Cons.prems s' by auto
  then show ?case using s' same_trans by auto
qed

lemma add_all_sorted:
  assumes "wf s" "lst s = []" "length xs \<le> 12" "\<forall>x \<in> set xs. okty (va_type x)"
    "distinct (map (\<lambda>x. sa_key (va_addr x)) xs)" "sorted (map (\<lambda>x. key (va_type x)) xs)"
  shows "\<exists>s'. add_all xs s = Some (0, s') \<and> wf s' \<and> same s s' \<and> lst s' = xs"
proof -
  have "sorted (map (\<lambda>x. key (va_type x)) (ys @ zs)) \<Longrightarrow> fold (addr_ins key) zs ys = ys @ zs" for ys zs
  proof (induction zs arbitrary: ys)
    case (Cons z zs)
    have "sorted (map (\<lambda>x. key (va_type x)) (ys @ [z]))" using Cons.prems by (simp add: sorted_append)
    then have "addr_ins key z ys = ys @ [z]" by (rule addr_ins_last)
    then show ?case using Cons.IH [of "ys @ [z]"] Cons.prems by simp
  qed simp
  from this [of "[]" xs] show ?thesis using add_all_spec [of s xs] assms by simp
qed

end


subsection \<open>Node infos\<close>

definition ni_list :: "vnodeInfo \<Rightarrow> vsockaddr_in list" where
  "ni_list n = take (nat (ni_naddrs n)) (ni_addrs n)"

definition addrs_distinct :: "vsockaddr_in list \<Rightarrow> bool" where
  "addrs_distinct xs \<longleftrightarrow> distinct (map (\<lambda>x. sa_key (va_addr x)) xs)"

text \<open>What every node info the daemon builds itself satisfies.\<close>

definition node_wf :: "vnodeInfo \<Rightarrow> bool" where
  "node_wf n \<longleftrightarrow> tok_wf (ni_id n) \<and> tok_wf (ni_ver n) \<and>
     0 \<le> ni_naddrs n \<and> ni_naddrs n \<le> ni_capc n \<and> ni_capc n = int (length (ni_addrs n)) \<and>
     (if ni_heap n then ni_capc n \<in> {4, 8, 12} else ni_capc n = 12) \<and>
     addrs_distinct (ni_list n)"

text \<open>What is needed of a node info others are copied from: received ones need not agree with
  their \<open>capc\<close>.\<close>

definition node_src :: "vnodeInfo \<Rightarrow> bool" where
  "node_src n \<longleftrightarrow> tok_wf (ni_id n) \<and> tok_wf (ni_ver n) \<and> 0 \<le> ni_naddrs n \<and> ni_naddrs n \<le> 12 \<and>
     nat (ni_naddrs n) \<le> length (ni_addrs n) \<and> addrs_distinct (ni_list n)"

lemma node_wf_src: "node_wf n \<Longrightarrow> node_src n"
  by (auto simp: node_wf_def node_src_def split: if_splits)

lemma length_src_list: "node_src n \<Longrightarrow> length (ni_list n) = nat (ni_naddrs n)"
  by (auto simp: node_src_def ni_list_def min_def)

lemma node_src_tok: "node_src n \<Longrightarrow> tok_wf (ni_id n)" "node_src n \<Longrightarrow> tok_wf (ni_ver n)"
  by (simp_all add: node_src_def)

lemma node_wf_tok: "node_wf n \<Longrightarrow> tok_wf (ni_id n)" "node_wf n \<Longrightarrow> tok_wf (ni_ver n)"
  by (simp_all add: node_wf_def)

lemma length_ni_list: "node_wf n \<Longrightarrow> length (ni_list n) = nat (ni_naddrs n)"
  by (auto simp: node_wf_def ni_list_def min_def)

lemma node_wf_le: "node_wf n \<Longrightarrow> ni_naddrs n \<le> 12"
  by (auto simp: node_wf_def split: if_splits)

lemma node_wf_grow:
  assumes "node_wf n" "ni_naddrs n < 12" "ni_naddrs n \<ge> ni_capc n"
  shows "\<exists>n'. vnodeInfo_grow mem n = Some (if mem then Some n' else None) \<and>
    (mem \<longrightarrow> node_wf n' \<and> ni_naddrs n' = ni_naddrs n \<and> ni_naddrs n' < ni_capc n' \<and>
      ni_list n' = ni_list n \<and> ni_id n' = ni_id n \<and> ni_ver n' = ni_ver n \<and>
      ni_weight n' = ni_weight n \<and> ni_heap n' = ni_heap n)"
proof -
  let ?n' = "n\<lparr>ni_addrs := resized (nat (4 + ni_capc n)) (ni_addrs n), ni_capc := ni_capc n + 4\<rparr>"
  have h: "ni_heap n" "ni_naddrs n = ni_capc n" "ni_capc n \<in> {4, 8}" "ni_capc n = int (length (ni_addrs n))"
    using assms by (auto simp: node_wf_def split: if_splits)
  have l: "ni_list ?n' = ni_list n"
    using h by (auto simp: ni_list_def)
  have "node_wf ?n'"
    using assms(1) h unfolding node_wf_def l by auto
  then show ?thesis
    using h l by (intro exI [of _ ?n']) (simp add: vnodeInfo_grow_def VNODEINFO_MIN_ADDRS_def)
qed

lemma vnodeInfo_add_addr_room:
  assumes "node_wf n" "ni_naddrs n < ni_capc n"
  shows "vnodeInfo_add_addr mem n a t =
    (case addr_find (nat (ni_naddrs n)) 0 (ni_addrs n) a of
       None \<Rightarrow> None
     | Some (Some i) \<Rightarrow>
         Some (0, if VSOCKADDR_TYPE t \<noteq> VSOCKADDR_UNKNOWN \<and>
                     VSOCKADDR_TYPE (va_type (ni_addrs n ! i)) \<noteq> VSOCKADDR_TYPE t
                  then n\<lparr>ni_addrs := (ni_addrs n)[i := (ni_addrs n ! i)\<lparr>va_type := t\<rparr>]\<rparr> else n)
     | Some None \<Rightarrow>
         Some (1, n\<lparr>ni_addrs := addr_ins VSOCKADDR_TYPE \<lparr>va_addr = a, va_type = t\<rparr> (ni_list n) @
                        drop (Suc (nat (ni_naddrs n))) (ni_addrs n),
                    ni_naddrs := ni_naddrs n + 1\<rparr>))"
proof -
  have "nat (ni_naddrs n) < length (ni_addrs n)" "0 \<le> ni_naddrs n"
    using assms by (auto simp: node_wf_def)
  moreover have "ni_naddrs n < 12" using assms by (auto simp: node_wf_def split: if_splits)
  moreover have "i < length (ni_addrs n)"
    if "addr_find (nat (ni_naddrs n)) 0 (ni_addrs n) a = Some (Some i)" for i
  proof -
    have "nat (ni_naddrs n) \<le> length (ni_addrs n)" using calculation(1) by simp
    then have "find_idx (\<lambda>x. sa_key (va_addr x) = sa_key a) (take (nat (ni_naddrs n)) (ni_addrs n)) = Some i"
      using that by (simp add: addr_find_take)
    then show ?thesis using find_idx_lt by fastforce
  qed
  ultimately show ?thesis
    using assms(2)
    by (cases "addr_find (nat (ni_naddrs n)) 0 (ni_addrs n) a")
      (simp_all add: vnodeInfo_add_addr_def VNODEINFO_MAX_ADDRS_def addr_put_spec ni_list_def split: option.split)
qed

definition ni_same :: "vnodeInfo \<Rightarrow> vnodeInfo \<Rightarrow> bool" where
  "ni_same m n \<longleftrightarrow> ni_id m = ni_id n \<and> ni_ver m = ni_ver n \<and> ni_weight m = ni_weight n \<and>
     ni_heap m = ni_heap n"

lemma vnodeInfo_add_addr_new_room:
  assumes "node_wf n" "ni_naddrs n < ni_capc n" "\<not> addr_in (ni_list n) a"
  shows "\<exists>n'. vnodeInfo_add_addr mem n a t = Some (1, n') \<and> node_wf n' \<and> ni_same n n' \<and>
    ni_naddrs n' = ni_naddrs n + 1 \<and> ni_capc n' = ni_capc n \<and>
    ni_list n' = addr_ins VSOCKADDR_TYPE \<lparr>va_addr = a, va_type = t\<rparr> (ni_list n)"
proof -
  let ?v = "\<lparr>va_addr = a, va_type = t\<rparr>"
  let ?n' = "n\<lparr>ni_addrs := addr_ins VSOCKADDR_TYPE ?v (ni_list n) @
      drop (Suc (nat (ni_naddrs n))) (ni_addrs n), ni_naddrs := ni_naddrs n + 1\<rparr>"
  have b: "nat (ni_naddrs n) < length (ni_addrs n)" "0 \<le> ni_naddrs n"
    using assms by (auto simp: node_wf_def)
  have "addr_find (nat (ni_naddrs n)) 0 (ni_addrs n) a = Some None"
    using b assms(3) by (intro addr_find_None) (auto simp: ni_list_def)
  then have e: "vnodeInfo_add_addr mem n a t = Some (1, ?n')"
    by (simp add: vnodeInfo_add_addr_room [OF assms(1,2)])
  have l: "ni_list ?n' = addr_ins VSOCKADDR_TYPE ?v (ni_list n)"
    using b length_ni_list [OF assms(1)] by (simp add: ni_list_def nat_add_distrib)
  have "addrs_distinct (addr_ins VSOCKADDR_TYPE ?v (ni_list n))"
    using assms(1,3) by (auto simp: node_wf_def addrs_distinct_def distinct_addr_ins addr_in_def)
  moreover have "length (ni_addrs ?n') = length (ni_addrs n)"
    using b length_ni_list [OF assms(1)] by simp
  ultimately have "node_wf ?n'"
    using assms(1,2) b unfolding node_wf_def l by auto
  then show ?thesis using e l by (intro exI [of _ ?n']) (simp add: ni_same_def)
qed

lemma vnodeInfo_add_addr_grow:
  assumes "node_wf n" "ni_naddrs n < 12" "ni_naddrs n \<ge> ni_capc n"
    "vnodeInfo_grow True n = Some (Some n')" "ni_naddrs n' = ni_naddrs n" "ni_naddrs n' < ni_capc n'"
  shows "vnodeInfo_add_addr True n a t = vnodeInfo_add_addr True n' a t"
  using assms by (simp add: vnodeInfo_add_addr_def VNODEINFO_MAX_ADDRS_def)

lemma vnodeInfo_add_addr_new:
  assumes "node_wf n" "ni_naddrs n < 12" "\<not> addr_in (ni_list n) a"
  shows "\<exists>n'. vnodeInfo_add_addr True n a t = Some (1, n') \<and> node_wf n' \<and> ni_same n n' \<and>
    ni_naddrs n' = ni_naddrs n + 1 \<and>
    ni_list n' = addr_ins VSOCKADDR_TYPE \<lparr>va_addr = a, va_type = t\<rparr> (ni_list n)"
proof (cases "ni_naddrs n < ni_capc n")
  case True
  then show ?thesis using vnodeInfo_add_addr_new_room [OF assms(1) True assms(3)] by blast
next
  case False
  then obtain m where m: "vnodeInfo_grow True n = Some (Some m)" "node_wf m" "ni_naddrs m = ni_naddrs n"
      "ni_naddrs m < ni_capc m" "ni_list m = ni_list n" "ni_same n m"
    using node_wf_grow [OF assms(1,2), of True] by (auto simp: ni_same_def)
  then show ?thesis
    using vnodeInfo_add_addr_new_room [OF m(2,4), of a True t] assms False
      vnodeInfo_add_addr_grow [OF assms(1,2) _ m(1,3,4), of a t]
    by (auto simp: ni_same_def)
qed

lemma vnodeInfo_add_addr_full:
  "ni_naddrs n \<ge> 12 \<Longrightarrow> vnodeInfo_add_addr mem n a t = Some (-1, n)"
  by (simp add: vnodeInfo_add_addr_def VNODEINFO_MAX_ADDRS_def)

lemma vnodeInfo_add_addr_nomem:
  assumes "node_wf n" "ni_naddrs n < 12" "ni_naddrs n \<ge> ni_capc n"
  shows "vnodeInfo_add_addr False n a t = Some (-1, n)"
  using node_wf_grow [OF assms, of False] assms
  by (simp add: vnodeInfo_add_addr_def VNODEINFO_MAX_ADDRS_def)

interpretation nih: addr_holder ni_list node_wf "\<lambda>_. True" VSOCKADDR_TYPE
  "vnodeInfo_add_addr True" ni_same
proof
  fix s a and t :: u32
  assume *: "node_wf s" "length (ni_list s) < 12" "\<not> addr_in (ni_list s) a"
  then have "ni_naddrs s < 12" by (simp add: length_ni_list)
  then show "\<exists>r s'. vnodeInfo_add_addr True s a t = Some (r, s') \<and> 0 \<le> r \<and> node_wf s' \<and> ni_same s s' \<and>
      ni_list s' = addr_ins VSOCKADDR_TYPE \<lparr>va_addr = a, va_type = t\<rparr> (ni_list s)"
    using vnodeInfo_add_addr_new [OF *(1) _ *(3), of t] by fastforce
qed (auto simp: ni_same_def)


lemma vnodeInfo_add_addr_known:
  assumes "node_wf n" "ni_naddrs n < ni_capc n" "addr_in (ni_list n) a"
  shows "\<exists>n'. vnodeInfo_add_addr mem n a t = Some (0, n') \<and> node_wf n' \<and> ni_same n n' \<and>
    map va_addr (ni_list n') = map va_addr (ni_list n)"
proof -
  have b: "nat (ni_naddrs n) \<le> length (ni_addrs n)" using assms by (auto simp: node_wf_def)
  obtain i where i: "addr_find (nat (ni_naddrs n)) 0 (ni_addrs n) a = Some (Some i)" "i < nat (ni_naddrs n)"
    using addr_find_Some [OF b] assms(3) by (auto simp: ni_list_def)
  let ?m = "n\<lparr>ni_addrs := (ni_addrs n)[i := (ni_addrs n ! i)\<lparr>va_type := t\<rparr>]\<rparr>"
  have l: "map va_addr (ni_list ?m) = map va_addr (ni_list n)"
    using i b by (auto simp: ni_list_def list_eq_iff_nth_eq nth_list_update)
  then have "map (\<lambda>x. sa_key (va_addr x)) (ni_list ?m) = map (\<lambda>x. sa_key (va_addr x)) (ni_list n)"
    by (metis (no_types, lifting) list.map_comp comp_def map_cong)
  then have "node_wf ?m"
    using assms(1) by (auto simp: node_wf_def addrs_distinct_def)
  then show ?thesis
    using l i assms(1) by (auto simp: vnodeInfo_add_addr_room [OF assms(1,2)] ni_same_def)
qed

lemma vnodeInfo_has_addr_spec:
  assumes "node_wf n"
  shows "vnodeInfo_has_addr n a = Some (addr_in (ni_list n) a)"
proof -
  have b: "nat (ni_naddrs n) \<le> length (ni_addrs n)" using assms by (auto simp: node_wf_def)
  show ?thesis
  proof (cases "addr_in (ni_list n) a")
    case True
    then show ?thesis using addr_find_Some [OF b] by (fastforce simp: vnodeInfo_has_addr_def ni_list_def)
  next
    case False
    then show ?thesis using addr_find_None [OF b] by (simp add: vnodeInfo_has_addr_def ni_list_def)
  qed
qed

lemma nodeInfo_copy_addrs_add_all:
  assumes "i + n \<le> length src" "nih.add_all (take n (drop i src)) d = Some (0, d')"
  shows "nodeInfo_copy_addrs True n i u d src = Some (if u + int n \<noteq> 0 then 1 else 0, d')"
  using assms
proof (induction n arbitrary: i u d)
  case (Suc n)
  have t: "take (Suc n) (drop i src) = src ! i # take n (drop (i + 1) src)"
    using Suc.prems(1) by (simp add: Cons_nth_drop_Suc [symmetric])
  obtain r e where e: "vnodeInfo_add_addr True d (va_addr (src ! i)) (va_type (src ! i)) = Some (r, e)"
      "0 \<le> r" "nih.add_all (take n (drop (i + 1) src)) e = Some (0, d')"
    using Suc.prems(2) unfolding t by (auto split: Option.bind_splits if_splits)
  then show ?case
    using Suc.IH [of "i + 1" e "u + 1"] Suc.prems(1) by (simp add: algebra_simps)
qed simp

definition addrs_sorted :: "(u32 \<Rightarrow> u32) \<Rightarrow> vsockaddr_in list \<Rightarrow> bool" where
  "addrs_sorted key xs \<longleftrightarrow> sorted (map (\<lambda>x. key (va_type x)) xs)"

text \<open>Copying into an info of the daemon's own, or into a fresh peer's, whose capacity is 0.\<close>

definition copy_target :: "vnodeInfo \<Rightarrow> bool" where
  "copy_target d \<longleftrightarrow> node_wf d \<or> ni_heap d \<and> ni_capc d = 0 \<and> length (ni_addrs d) = 4"

lemma copy_fresh:
  assumes "ni_heap d" "ni_capc d = 0" "ni_naddrs d = 0" "length (ni_addrs d) = 4"
  shows "vnodeInfo_add_addr True d a t = vnodeInfo_add_addr True (d\<lparr>ni_capc := 4\<rparr>) a t"
  using assms
  by (simp add: vnodeInfo_add_addr_def VNODEINFO_MAX_ADDRS_def vnodeInfo_grow_def resized_def
      VNODEINFO_MIN_ADDRS_def)

lemma nodeInfo_copy_addrs_fresh:
  assumes "ni_heap d" "ni_capc d = 0" "ni_naddrs d = 0" "length (ni_addrs d) = 4" "0 < n"
  shows "nodeInfo_copy_addrs True n i u d src = nodeInfo_copy_addrs True n i u (d\<lparr>ni_capc := 4\<rparr>) src"
  using assms copy_fresh [OF assms(1-4)] by (cases n) simp_all

lemma vnodeInfo_copy_gen:
  assumes "copy_target d" "node_src s" "0 < ni_naddrs s \<or> node_wf d"
  shows "\<exists>d'. vnodeInfo_copy True d s = Some (if ni_naddrs s = 0 then 0 else 1, d') \<and> node_wf d' \<and>
    ni_id d' = ni_id s \<and> ni_ver d' = ni_ver s \<and> ni_weight d' = ni_weight s \<and>
    ni_heap d' = ni_heap d \<and> ni_list d' = fold (addr_ins VSOCKADDR_TYPE) (ni_list s) []"
proof -
  define fill where "fill = (if node_wf d then replicate (length (ni_addrs d)) vsockaddr_zero else ni_addrs d)"
  let ?d = "d\<lparr>ni_id := ni_id s, ni_ver := ni_ver s, ni_weight := ni_weight s, ni_naddrs := 0, ni_addrs := fill\<rparr>"
  define e where "e = (if node_wf d then ?d else ?d\<lparr>ni_capc := 4\<rparr>)"
  have l0: "ni_list e = []" by (simp add: ni_list_def e_def)
  have wf: "node_wf e"
  proof (cases "node_wf d")
    case True
    then show ?thesis using node_src_tok [OF assms(2)] l0 unfolding node_wf_def [of e]
      by (auto simp: addrs_distinct_def e_def fill_def node_wf_def split: if_splits)
  next
    case False
    then show ?thesis using node_src_tok [OF assms(2)] l0 assms(1) unfolding node_wf_def [of e]
      by (auto simp: addrs_distinct_def e_def fill_def copy_target_def)
  qed
  moreover have "length (ni_list s) \<le> 12" "distinct (map (\<lambda>x. sa_key (va_addr x)) (ni_list s))"
    using assms(2) length_src_list [OF assms(2)] by (auto simp: node_src_def addrs_distinct_def)
  ultimately obtain d' where d': "nih.add_all (ni_list s) e = Some (0, d')" "node_wf d'" "ni_same e d'"
      "ni_list d' = fold (addr_ins VSOCKADDR_TYPE) (ni_list s) []"
    using nih.add_all_spec [of e "ni_list s"] l0 by auto
  let ?n = "nat (ni_naddrs s)"
  have "nodeInfo_copy_addrs True ?n 0 0 e (ni_addrs s) = Some (if 0 + int ?n \<noteq> 0 then 1 else 0, d')"
    using d'(1) assms(2) by (intro nodeInfo_copy_addrs_add_all) (auto simp: ni_list_def node_src_def)
  moreover have "nodeInfo_copy_addrs True ?n 0 0 ?d (ni_addrs s) = nodeInfo_copy_addrs True ?n 0 0 e (ni_addrs s)"
  proof (cases "node_wf d")
    case False
    then have "ni_heap ?d" "ni_capc ?d = 0" "ni_naddrs ?d = 0" "length (ni_addrs ?d) = 4" "0 < ?n"
      using assms(1,3) by (auto simp: copy_target_def fill_def)
    from nodeInfo_copy_addrs_fresh [OF this, of 0 0 "ni_addrs s"] False show ?thesis by (simp add: e_def)
  qed (simp add: e_def)
  moreover have "vnodeInfo_copy True d s = nodeInfo_copy_addrs True ?n 0 0 ?d (ni_addrs s)"
  proof (cases "node_wf d")
    case True
    then have "0 \<le> ni_capc d" "nat (ni_capc d) = length (ni_addrs d)" by (auto simp: node_wf_def)
    then show ?thesis using True node_src_tok [OF assms(2)] by (simp add: vnodeInfo_copy_def Let_def fill_def)
  next
    case False
    then show ?thesis using assms(1) node_src_tok [OF assms(2)]
      by (simp add: vnodeInfo_copy_def Let_def fill_def copy_target_def)
  qed
  moreover have "ni_same ?d d'" using d'(3) by (simp add: ni_same_def e_def split: if_splits)
  ultimately show ?thesis using d'(2,4) assms(2) by (simp add: ni_same_def node_src_def)
qed

lemma fold_addr_ins_sorted:
  assumes "addrs_sorted key xs"
  shows "fold (addr_ins key) xs [] = xs"
proof -
  have "sorted (map (\<lambda>x. key (va_type x)) (ys @ zs)) \<Longrightarrow> fold (addr_ins key) zs ys = ys @ zs" for ys zs
  proof (induction zs arbitrary: ys)
    case (Cons z zs)
    have "sorted (map (\<lambda>x. key (va_type x)) (ys @ [z]))" using Cons.prems by (simp add: sorted_append)
    then have "addr_ins key z ys = ys @ [z]" by (rule addr_ins_last)
    then show ?case using Cons.IH [of "ys @ [z]"] Cons.prems by simp
  qed simp
  from this [of "[]" xs] show ?thesis using assms by (simp add: addrs_sorted_def)
qed

lemma length_fold_addr_ins [simp]: "length (fold (addr_ins key) xs ys) = length xs + length ys"
  by (induction xs arbitrary: ys) simp_all

lemma set_fold_addr_ins [simp]: "set (fold (addr_ins key) xs ys) = set xs \<union> set ys"
  by (induction xs arbitrary: ys) auto

lemma vnodeInfo_copy_spec:
  assumes "node_wf d" "node_src s" "addrs_sorted VSOCKADDR_TYPE (ni_list s)"
  shows "\<exists>d'. vnodeInfo_copy True d s = Some (if ni_naddrs s = 0 then 0 else 1, d') \<and> node_wf d' \<and>
    ni_id d' = ni_id s \<and> ni_ver d' = ni_ver s \<and> ni_weight d' = ni_weight s \<and>
    ni_heap d' = ni_heap d \<and> ni_list d' = ni_list s"
  using vnodeInfo_copy_gen [OF _ assms(2), of d] assms(1) fold_addr_ins_sorted [OF assms(3)]
  by (simp add: copy_target_def)

text \<open>Merging. A fake source adds its one address; a second new address after a resize would be
  looked up through a freed pointer.\<close>

lemma vnodeInfo_merge_other:
  "\<lbrakk>node_wf d; node_src s; ni_id d \<noteq> ni_id s\<rbrakk> \<Longrightarrow> vnodeInfo_merge mem d s = Some (0, d)"
  by (simp add: vnodeInfo_merge_def node_wf_def node_src_def)

lemma vnodeInfo_is_fake_iff: "tok_wf (ni_ver n) \<Longrightarrow> vnodeInfo_is_fake n \<longleftrightarrow> ni_ver n = vnodeVer_unknown"
  by (simp add: vnodeInfo_is_fake_def)

definition merge_slot :: "vsockaddr_in \<Rightarrow> vsockaddr_in \<Rightarrow> vsockaddr_in" where
  "merge_slot d s =
     (if sa_key (va_addr d) = sa_key (va_addr s) then d
      else \<lparr>va_addr = va_addr s, va_type = VSOCKADDR_TYPE (va_type d)\<rparr>)"

lemma sa_key_merge_slot [simp]: "sa_key (va_addr (merge_slot d s)) = sa_key (va_addr s)"
  by (simp add: merge_slot_def)

lemma nodeInfo_merge_addrs_spec:
  "\<lbrakk>i + n \<le> length d; i + n \<le> length s\<rbrakk> \<Longrightarrow>
     \<exists>u'. nodeInfo_merge_addrs n i u d s =
       Some (u', take i d @ map2 merge_slot (take n (drop i d)) (take n (drop i s)) @ drop (i + n) d)"
proof (induction n arbitrary: i u d)
  case (Suc n)
  have t: "take (Suc n) (drop i xs) = xs ! i # take n (drop (Suc i) xs)" if "i < length xs" for xs :: "'x list"
    using that by (simp add: Cons_nth_drop_Suc [symmetric])
  define d1 where "d1 = d[i := merge_slot (d ! i) (s ! i)]"
  have "d1 = d" if "vsockaddr_equal (va_addr (d ! i)) (va_addr (s ! i))"
    using that by (simp add: d1_def merge_slot_def)
  then have "\<exists>v. nodeInfo_merge_addrs (Suc n) i u d s = nodeInfo_merge_addrs n (i + 1) v d1 s"
    using Suc.prems by (auto simp: d1_def merge_slot_def)
  moreover have "take (i + 1) d1 = take i d @ [merge_slot (d ! i) (s ! i)]"
    using Suc.prems by (simp add: d1_def take_Suc_conv_app_nth)
  moreover have "drop (i + 1) d1 = drop (i + 1) d" "drop (i + 1 + n) d1 = drop (i + Suc n) d"
    by (simp_all add: d1_def)
  ultimately show ?case
    using Suc.IH [of "i + 1" d1] Suc.prems t [of d] t [of s] by (auto simp: d1_def)
qed simp

lemma vnodeInfo_merge_same_count:
  assumes "node_wf d" "node_src s" "ni_id d = ni_id s" "ni_ver s \<noteq> vnodeVer_unknown"
    "ni_naddrs d = ni_naddrs s"
  shows "\<exists>u d'. vnodeInfo_merge mem d s = Some (u, d') \<and> node_wf d' \<and> ni_id d' = ni_id d \<and>
    ni_heap d' = ni_heap d \<and> ni_ver d' = ni_ver s \<and> ni_weight d' = ni_weight s \<and> ni_list d' = map2 merge_slot (ni_list d) (ni_list s)"
proof -
  let ?n = "nat (ni_naddrs s)"
  have b: "?n \<le> length (ni_addrs d)" "?n \<le> length (ni_addrs s)"
    using assms(1,2,5) by (auto simp: node_wf_def node_src_def)
  obtain u where u: "nodeInfo_merge_addrs ?n 0 0 (ni_addrs d) (ni_addrs s) =
      Some (u, map2 merge_slot (ni_list d) (ni_list s) @ drop ?n (ni_addrs d))"
    using nodeInfo_merge_addrs_spec [of 0 ?n "ni_addrs d" "ni_addrs s" 0] b assms(5)
    by (auto simp: ni_list_def)
  let ?d = "d\<lparr>ni_ver := ni_ver s, ni_weight := ni_weight s,
      ni_addrs := map2 merge_slot (ni_list d) (ni_list s) @ drop ?n (ni_addrs d)\<rparr>"
  have len: "length (ni_list d) = ?n" "length (ni_list s) = ?n"
    using length_ni_list [OF assms(1)] length_src_list [OF assms(2)] assms(5) by auto
  then have l: "ni_list ?d = map2 merge_slot (ni_list d) (ni_list s)"
    using assms(5) by (simp add: ni_list_def [of ?d])
  have "map (\<lambda>x. sa_key (va_addr x)) (map2 merge_slot (ni_list d) (ni_list s)) =
      map (\<lambda>x. sa_key (va_addr x)) (ni_list s)"
    using len by (auto simp: list_eq_iff_nth_eq)
  then have "addrs_distinct (map2 merge_slot (ni_list d) (ni_list s))"
    using assms(2) by (simp only: addrs_distinct_def node_src_def)
  then have "node_wf ?d"
    using assms(1) node_src_tok [OF assms(2)] len b unfolding node_wf_def l by auto
  moreover have "vnodeInfo_merge mem d s = Some (u, ?d)"
    using assms u vnodeInfo_is_fake_iff [OF node_src_tok(2) [OF assms(2)]] by (simp add: vnodeInfo_merge_def node_wf_tok [OF assms(1)] node_src_tok [OF assms(2)])
  ultimately show ?thesis using l by (intro exI [of _ u] exI [of _ ?d]) simp
qed

lemma vnodeInfo_merge_other_count:
  assumes "node_wf d" "node_src s" "ni_id d = ni_id s" "ni_ver s \<noteq> vnodeVer_unknown"
    "ni_naddrs d \<noteq> ni_naddrs s" "addrs_sorted VSOCKADDR_TYPE (ni_list s)"
  shows "\<exists>d'. vnodeInfo_merge True d s = Some (1, d') \<and> node_wf d' \<and> ni_ver d' = ni_ver s \<and>
    ni_weight d' = ni_weight s \<and> ni_list d' = ni_list s"
  using vnodeInfo_copy_spec [OF assms(1,2,6)] assms(3,4,5) vnodeInfo_is_fake_iff [OF node_src_tok(2) [OF assms(2)]]
  by (auto simp: vnodeInfo_merge_def node_wf_tok [OF assms(1)] node_src_tok [OF assms(2)])

lemma vnodeInfo_merge_fake_one:
  assumes "node_wf d" "node_src s" "ni_id d = ni_id s" "ni_ver s = vnodeVer_unknown"
    "ni_naddrs s = 1" "ni_naddrs d < 12"
  shows "\<exists>d'. vnodeInfo_merge True d s =
      Some (if addr_in (ni_list d) (va_addr (hd (ni_list s))) then 0 else 1, d') \<and> node_wf d' \<and>
    ni_same d d' \<and>
    ni_list d' = (if addr_in (ni_list d) (va_addr (hd (ni_list s))) then ni_list d
      else addr_ins VSOCKADDR_TYPE (hd (ni_list s)) (ni_list d))"
proof -
  obtain x xs where x: "ni_addrs s = x # xs"
    using assms(2,5) by (cases "ni_addrs s") (auto simp: node_src_def)
  then have hd: "ni_list s = [x]" using assms(5) by (simp add: ni_list_def)
  have m: "vnodeInfo_merge True d s = nodeInfo_merge_fake True (Suc 0) 0 0 False d (ni_addrs s)"
    using assms vnodeInfo_is_fake_iff [OF node_src_tok(2) [OF assms(2)]]
    by (simp add: vnodeInfo_merge_def node_wf_tok [OF assms(1)] node_src_tok [OF assms(2)] del: nodeInfo_merge_fake.simps)
  show ?thesis
  proof (cases "addr_in (ni_list d) (va_addr x)")
    case True
    then show ?thesis using assms(1) m hd x
      by (simp add: vnodeInfo_has_addr_spec ni_same_def)
  next
    case False
    then obtain d' where "vnodeInfo_add_addr True d (va_addr x) (va_type x) = Some (1, d')" "node_wf d'"
        "ni_same d d'" "ni_list d' = addr_ins VSOCKADDR_TYPE x (ni_list d)"
      using vnodeInfo_add_addr_new [OF assms(1,6) False, of "va_type x"] by auto
    then show ?thesis using False m hd x assms(1) by (simp add: vnodeInfo_has_addr_spec)
  qed
qed


text \<open>What others may tell us about a node, and that merging it in always succeeds: with a fake
  source of one address the freed pointer is never used.\<close>

definition node_news :: "vnodeInfo \<Rightarrow> bool" where
  "node_news s \<longleftrightarrow> node_src s \<and> 1 \<le> ni_naddrs s \<and> (ni_ver s = vnodeVer_unknown \<longrightarrow> ni_naddrs s = 1)"

lemma vnodeInfo_merge_fake_full:
  assumes "node_wf d" "node_src s" "ni_id d = ni_id s" "ni_ver s = vnodeVer_unknown"
    "ni_naddrs s = 1" "ni_naddrs d = 12"
  shows "\<exists>r. vnodeInfo_merge mem d s = Some (r, d)"
proof -
  obtain x xs where x: "ni_addrs s = x # xs"
    using assms(2,5) by (cases "ni_addrs s") (auto simp: node_src_def)
  have m: "vnodeInfo_merge mem d s = nodeInfo_merge_fake mem (Suc 0) 0 0 False d (ni_addrs s)"
    using assms vnodeInfo_is_fake_iff [OF node_src_tok(2) [OF assms(2)]]
    by (simp add: vnodeInfo_merge_def node_wf_tok [OF assms(1)] node_src_tok [OF assms(2)]
        del: nodeInfo_merge_fake.simps)
  show ?thesis
    using m x assms(1,6) by (simp add: vnodeInfo_has_addr_spec vnodeInfo_add_addr_full)
qed

lemma vnodeInfo_merge_total:
  assumes "node_wf d" "node_news s"
  shows "\<exists>r d'. vnodeInfo_merge True d s = Some (r, d') \<and> node_wf d' \<and> ni_id d' = ni_id d \<and>
    ni_heap d' = ni_heap d \<and> (1 \<le> ni_naddrs d \<longrightarrow> 1 \<le> ni_naddrs d')"
proof -
  have s: "node_src s" "1 \<le> ni_naddrs s" using assms(2) by (simp_all add: node_news_def)
  have n: "ni_naddrs m = int (length (ni_list m))" if "node_wf m" for m
    using length_ni_list [OF that] that by (simp add: node_wf_def)
  have ns: "ni_naddrs s = int (length (ni_list s))" using length_src_list [OF s(1)] s(2) by simp
  consider "ni_id d \<noteq> ni_id s"
    | "ni_id d = ni_id s" "ni_ver s = vnodeVer_unknown" "ni_naddrs s = 1" "ni_naddrs d < 12"
    | "ni_id d = ni_id s" "ni_ver s = vnodeVer_unknown" "ni_naddrs s = 1" "ni_naddrs d = 12"
    | "ni_id d = ni_id s" "ni_ver s \<noteq> vnodeVer_unknown" "ni_naddrs d = ni_naddrs s"
    | "ni_id d = ni_id s" "ni_ver s \<noteq> vnodeVer_unknown" "ni_naddrs d \<noteq> ni_naddrs s"
    using assms(2) node_wf_le [OF assms(1)] unfolding node_news_def by fastforce
  then show ?thesis
  proof cases
    case 1
    then show ?thesis using vnodeInfo_merge_other [OF assms(1) s(1)] assms(1) by blast
  next
    case 2
    obtain d' where d': "vnodeInfo_merge True d s =
          Some (if addr_in (ni_list d) (va_addr (hd (ni_list s))) then 0 else 1, d')" "node_wf d'" "ni_same d d'"
        "ni_list d' = (if addr_in (ni_list d) (va_addr (hd (ni_list s))) then ni_list d
          else addr_ins VSOCKADDR_TYPE (hd (ni_list s)) (ni_list d))"
      using vnodeInfo_merge_fake_one [OF assms(1) s(1) 2] by blast
    then have "length (ni_list d) \<le> length (ni_list d')" by simp
    then show ?thesis using d'(1-3) n [OF assms(1)] n [OF d'(2)] by (auto simp: ni_same_def)
  next
    case 3
    then show ?thesis using vnodeInfo_merge_fake_full [OF assms(1) s(1) 3] assms(1) by blast
  next
    case 4
    obtain u d' where d': "vnodeInfo_merge True d s = Some (u, d')" "node_wf d'"
        "ni_list d' = map2 merge_slot (ni_list d) (ni_list s)" "ni_id d' = ni_id d" "ni_heap d' = ni_heap d"
      using vnodeInfo_merge_same_count [OF assms(1) s(1) 4] by blast
    then show ?thesis using n [OF assms(1)] n [OF d'(2)] ns 4(3) by auto
  next
    case 5
    obtain d' where d': "vnodeInfo_copy True d s = Some (1, d')" "node_wf d'" "ni_id d' = ni_id s"
        "ni_heap d' = ni_heap d" "ni_list d' = fold (addr_ins VSOCKADDR_TYPE) (ni_list s) []"
      using vnodeInfo_copy_gen [of d s] assms(1) s by (auto simp: copy_target_def)
    have "vnodeInfo_merge True d s = Some (1, d')"
      using d'(1) 5 vnodeInfo_is_fake_iff [OF node_src_tok(2) [OF s(1)]]
      by (simp add: vnodeInfo_merge_def node_wf_tok [OF assms(1)] node_src_tok [OF s(1)])
    then show ?thesis using d' 5 ns n [OF d'(2)] s(2) by auto
  qed
qed

text \<open>What merging an info of the same node leaves: a source of unknown version adds its address, one
  with as many addresses overwrites them slot by slot, any other replaces the list.\<close>

lemma vnodeInfo_merge_cases:
  assumes "node_wf d" "node_src s" "ni_ver s = vnodeVer_unknown \<Longrightarrow> ni_naddrs s \<le> 1"
  shows "\<exists>r d'. vnodeInfo_merge True d s = Some (r, d') \<and> node_wf d' \<and> ni_id d' = ni_id d \<and>
    (if ni_id d \<noteq> ni_id s then r = 0 \<and> d' = d
     else if ni_ver s = vnodeVer_unknown then
       ni_ver d' = ni_ver d \<and> ni_weight d' = ni_weight d \<and>
       ni_list d' = (if ni_naddrs s = 0 \<or> addr_in (ni_list d) (va_addr (hd (ni_list s))) \<or> ni_naddrs d = 12 then ni_list d
         else addr_ins VSOCKADDR_TYPE (hd (ni_list s)) (ni_list d))
     else
       ni_ver d' = ni_ver s \<and> ni_weight d' = ni_weight s \<and>
       ni_list d' = (if ni_naddrs d = ni_naddrs s then map2 merge_slot (ni_list d) (ni_list s)
         else fold (addr_ins VSOCKADDR_TYPE) (ni_list s) []))"
proof -
  note fake = vnodeInfo_is_fake_iff [OF node_src_tok(2) [OF assms(2)]]
  consider "ni_id d \<noteq> ni_id s"
    | "ni_id d = ni_id s" "ni_ver s = vnodeVer_unknown" "ni_naddrs s = 0"
    | "ni_id d = ni_id s" "ni_ver s = vnodeVer_unknown" "ni_naddrs s = 1" "ni_naddrs d < 12"
    | "ni_id d = ni_id s" "ni_ver s = vnodeVer_unknown" "ni_naddrs s = 1" "ni_naddrs d = 12"
    | "ni_id d = ni_id s" "ni_ver s \<noteq> vnodeVer_unknown" "ni_naddrs d = ni_naddrs s"
    | "ni_id d = ni_id s" "ni_ver s \<noteq> vnodeVer_unknown" "ni_naddrs d \<noteq> ni_naddrs s"
    using assms(2,3) node_wf_le [OF assms(1)] unfolding node_src_def by fastforce
  then show ?thesis
  proof cases
    case 1
    then show ?thesis using vnodeInfo_merge_other [OF assms(1,2)] assms(1) by auto
  next
    case 2
    then have "vnodeInfo_merge True d s = Some (0, d)"
      using fake by (simp add: vnodeInfo_merge_def node_wf_tok [OF assms(1)] node_src_tok [OF assms(2)])
    then show ?thesis using 2 assms(1) by auto
  next
    case 3
    from vnodeInfo_merge_fake_one [OF assms(1,2) 3] 3 show ?thesis by (fastforce simp: ni_same_def)
  next
    case 4
    obtain r where "vnodeInfo_merge True d s = Some (r, d)" using vnodeInfo_merge_fake_full [OF assms(1,2) 4] by blast
    then show ?thesis using 4 assms(1) by auto
  next
    case 5
    from vnodeInfo_merge_same_count [OF assms(1,2) 5, of True] 5 show ?thesis by auto
  next
    case 6
    obtain d' where d': "vnodeInfo_copy True d s = Some (if ni_naddrs s = 0 then 0 else 1, d')" "node_wf d'"
        "ni_id d' = ni_id s" "ni_ver d' = ni_ver s" "ni_weight d' = ni_weight s"
        "ni_list d' = fold (addr_ins VSOCKADDR_TYPE) (ni_list s) []"
      using vnodeInfo_copy_gen [of d s] assms(1,2) by (auto simp: copy_target_def)
    then have "vnodeInfo_merge True d s = Some (1, d')"
      using 6 fake by (simp add: vnodeInfo_merge_def node_wf_tok [OF assms(1)] node_src_tok [OF assms(2)])
    then show ?thesis using d' 6 by auto
  qed
qed

text \<open>A second address after the one that makes the info grow is looked up in freed memory.\<close>

lemma vnodeInfo_merge_fake_stale:
  assumes "node_wf d" "node_src s" "ni_id d = ni_id s" "ni_ver s = vnodeVer_unknown"
    "2 \<le> ni_naddrs s" "ni_naddrs d = ni_capc d" "ni_naddrs d < 12" "\<not> addr_in (ni_list d) (va_addr (hd (ni_list s)))"
  shows "vnodeInfo_merge True d s = None"
proof -
  obtain x y zs where x: "ni_addrs s = x # y # zs"
    using assms(2,5) by (cases "ni_addrs s"; cases "tl (ni_addrs s)") (auto simp: node_src_def)
  have hd: "hd (ni_list s) = x" using assms(5) x by (simp add: ni_list_def nat_eq_iff hd_take)
  obtain k where k: "nat (ni_naddrs s) = Suc (Suc k)" using assms(5) by (metis nat_le_iff int_nat_eq le_add_diff_inverse2 add_2_eq_Suc' nat_mono nat_2 numeral_2_eq_2)
  obtain d' where d': "vnodeInfo_add_addr True d (va_addr x) (va_type x) = Some (1, d')" "node_wf d'" "ni_naddrs d' = ni_naddrs d + 1"
    using vnodeInfo_add_addr_new [OF assms(1,7), of "va_addr x" "va_type x"] assms(8) hd by auto
  have "ni_capc d' \<noteq> ni_capc d" using d'(2,3) assms(6) by (auto simp: node_wf_def)
  then show ?thesis
    using assms(1,3,4,8) hd d'(1) x k vnodeInfo_is_fake_iff [OF node_src_tok(2) [OF assms(2)]]
    by (simp add: vnodeInfo_merge_def node_wf_tok [OF assms(1)] node_src_tok [OF assms(2)] vnodeInfo_has_addr_spec)
qed

subsection \<open>Service infos\<close>

definition si_list :: "vsrvcInfo \<Rightarrow> vsockaddr_in list" where
  "si_list n = take (nat (si_naddrs n)) (si_addrs n)"

definition srvc_wf :: "vsrvcInfo \<Rightarrow> bool" where
  "srvc_wf n \<longleftrightarrow> tok_wf (si_hash n) \<and> tok_wf (si_hostid n) \<and>
     0 \<le> si_naddrs n \<and> si_naddrs n \<le> si_capc n \<and> si_capc n = int (length (si_addrs n)) \<and>
     (if si_heap n then si_capc n \<in> {2, 4, 6, 8, 10, 12} else si_capc n = 12) \<and>
     addrs_distinct (si_list n) \<and> (\<forall>x \<in> set (si_list n). va_type x < VSOCKADDR_BUTT)"

definition si_same :: "vsrvcInfo \<Rightarrow> vsrvcInfo \<Rightarrow> bool" where
  "si_same m n \<longleftrightarrow> si_hash m = si_hash n \<and> si_hostid m = si_hostid n \<and> si_nice m = si_nice n \<and>
     si_proto m = si_proto n \<and> si_heap m = si_heap n"

lemma srvc_wf_tok: "srvc_wf n \<Longrightarrow> tok_wf (si_hash n)" "srvc_wf n \<Longrightarrow> tok_wf (si_hostid n)"
  by (simp_all add: srvc_wf_def)

lemma length_si_list: "srvc_wf n \<Longrightarrow> length (si_list n) = nat (si_naddrs n)"
  by (auto simp: srvc_wf_def si_list_def min_def)

lemma srvc_wf_le: "srvc_wf n \<Longrightarrow> si_naddrs n \<le> 12"
  by (auto simp: srvc_wf_def split: if_splits)

lemma srvc_wf_grow:
  assumes "srvc_wf n" "si_naddrs n < 12" "si_naddrs n \<ge> si_capc n"
  obtains n' where "vsrvcInfo_grow True n = Some (Some n')" "srvc_wf n'"
    "si_naddrs n' = si_naddrs n" "si_naddrs n' < si_capc n'" "si_list n' = si_list n" "si_same n n'"
proof -
  let ?n' = "n\<lparr>si_addrs := resized (nat (2 + si_capc n)) (si_addrs n), si_capc := si_capc n + 2\<rparr>"
  have h: "si_heap n" "si_naddrs n = si_capc n" "si_capc n \<in> {2, 4, 6, 8, 10}"
      "si_capc n = int (length (si_addrs n))"
    using assms by (auto simp: srvc_wf_def split: if_splits)
  have l: "si_list ?n' = si_list n"
    using h by (auto simp: si_list_def)
  have "srvc_wf ?n'"
    using assms(1) h unfolding srvc_wf_def l by auto
  then show ?thesis
    using that [of ?n'] h l by (simp add: vsrvcInfo_grow_def VSRVCINFO_MIN_ADDRS_def si_same_def)
qed

lemma vsrvcInfo_add_addr_new_room:
  assumes "srvc_wf n" "si_naddrs n < si_capc n" "\<not> addr_in (si_list n) a" "t < VSOCKADDR_BUTT"
  shows "\<exists>n'. vsrvcInfo_add_addr mem n a t = Some (0, n') \<and> srvc_wf n' \<and> si_same n n' \<and>
    si_naddrs n' = si_naddrs n + 1 \<and>
    si_list n' = addr_ins (\<lambda>t. t) \<lparr>va_addr = a, va_type = t\<rparr> (si_list n)"
proof -
  let ?v = "\<lparr>va_addr = a, va_type = t\<rparr>"
  let ?n' = "n\<lparr>si_addrs := addr_ins (\<lambda>t. t) ?v (si_list n) @
      drop (Suc (nat (si_naddrs n))) (si_addrs n), si_naddrs := si_naddrs n + 1\<rparr>"
  have b: "nat (si_naddrs n) < length (si_addrs n)" "0 \<le> si_naddrs n" "si_naddrs n < 12"
    using assms(1,2) by (auto simp: srvc_wf_def split: if_splits)
  have "addr_find (nat (si_naddrs n)) 0 (si_addrs n) a = Some None"
    using b assms(3) by (intro addr_find_None) (auto simp: si_list_def)
  then have e: "vsrvcInfo_add_addr mem n a t = Some (0, ?n')"
    using b assms(2,4) by (simp add: vsrvcInfo_add_addr_def VSRVCINFO_MAX_ADDRS_def addr_put_spec si_list_def)
  have l: "si_list ?n' = addr_ins (\<lambda>t. t) ?v (si_list n)"
    using b length_si_list [OF assms(1)] by (simp add: si_list_def nat_add_distrib)
  have "addrs_distinct (addr_ins (\<lambda>t. t) ?v (si_list n))"
    using assms(1,3) by (auto simp: srvc_wf_def addrs_distinct_def distinct_addr_ins addr_in_def)
  moreover have "length (si_addrs ?n') = length (si_addrs n)"
    using b length_si_list [OF assms(1)] by simp
  ultimately have "srvc_wf ?n'"
    using assms(1,2,4) b unfolding srvc_wf_def l by auto
  then show ?thesis using e l by (intro exI [of _ ?n']) (simp add: si_same_def)
qed

lemma vsrvcInfo_add_addr_new:
  assumes "srvc_wf n" "si_naddrs n < 12" "\<not> addr_in (si_list n) a" "t < VSOCKADDR_BUTT"
  shows "\<exists>n'. vsrvcInfo_add_addr True n a t = Some (0, n') \<and> srvc_wf n' \<and> si_same n n' \<and>
    si_naddrs n' = si_naddrs n + 1 \<and>
    si_list n' = addr_ins (\<lambda>t. t) \<lparr>va_addr = a, va_type = t\<rparr> (si_list n)"
proof (cases "si_naddrs n < si_capc n")
  case True
  then show ?thesis using vsrvcInfo_add_addr_new_room [OF assms(1) True assms(3,4)] by blast
next
  case False
  then obtain m where m: "vsrvcInfo_grow True n = Some (Some m)" "srvc_wf m"
      "si_naddrs m = si_naddrs n" "si_naddrs m < si_capc m" "si_list m = si_list n" "si_same n m"
    using srvc_wf_grow [OF assms(1,2)] by (metis not_less)
  then have "vsrvcInfo_add_addr True n a t = vsrvcInfo_add_addr True m a t"
    using False assms(2) by (simp add: vsrvcInfo_add_addr_def VSRVCINFO_MAX_ADDRS_def)
  then show ?thesis
    using vsrvcInfo_add_addr_new_room [OF m(2,4), of a t True] assms m by (auto simp: si_same_def)
qed

interpretation sih: addr_holder si_list srvc_wf "\<lambda>t. t < VSOCKADDR_BUTT" "\<lambda>t. t"
  "vsrvcInfo_add_addr True" si_same
proof
  fix s a and t :: u32
  assume *: "srvc_wf s" "t < VSOCKADDR_BUTT" "length (si_list s) < 12" "\<not> addr_in (si_list s) a"
  then have "si_naddrs s < 12" by (simp add: length_si_list)
  then show "\<exists>r s'. vsrvcInfo_add_addr True s a t = Some (r, s') \<and> 0 \<le> r \<and> srvc_wf s' \<and> si_same s s' \<and>
      si_list s' = addr_ins (\<lambda>t. t) \<lparr>va_addr = a, va_type = t\<rparr> (si_list s)"
    using vsrvcInfo_add_addr_new [OF *(1) _ *(4,2)] by fastforce
qed (auto simp: si_same_def)

lemma srvcInfo_copy_addrs_add_all:
  assumes "i + n \<le> length src" "sih.add_all (take n (drop i src)) d = Some (0, d')"
  shows "srvcInfo_copy_addrs True n i d src = Some (0, d')"
  using assms
proof (induction n arbitrary: i d)
  case (Suc n)
  have t: "take (Suc n) (drop i src) = src ! i # take n (drop (i + 1) src)"
    using Suc.prems(1) by (simp add: Cons_nth_drop_Suc [symmetric])
  obtain r e where e: "vsrvcInfo_add_addr True d (va_addr (src ! i)) (va_type (src ! i)) = Some (r, e)"
      "0 \<le> r" "sih.add_all (take n (drop (i + 1) src)) e = Some (0, d')"
    using Suc.prems(2) unfolding t by (auto split: Option.bind_splits if_splits)
  then show ?case
    using Suc.IH [of "i + 1" e] Suc.prems(1) by simp
qed simp

text \<open>What is needed of a service info others are copied from.\<close>

definition srvc_src :: "vsrvcInfo \<Rightarrow> bool" where
  "srvc_src n \<longleftrightarrow> tok_wf (si_hash n) \<and> tok_wf (si_hostid n) \<and> 0 \<le> si_naddrs n \<and> si_naddrs n \<le> 12 \<and>
     nat (si_naddrs n) \<le> length (si_addrs n) \<and> addrs_distinct (si_list n) \<and>
     (\<forall>x \<in> set (si_list n). va_type x < VSOCKADDR_BUTT)"

lemma srvc_wf_src: "srvc_wf n \<Longrightarrow> srvc_src n"
  using srvc_wf_le by (auto simp: srvc_wf_def srvc_src_def)

lemma length_srvc_src: "srvc_src n \<Longrightarrow> length (si_list n) = nat (si_naddrs n)"
  by (auto simp: srvc_src_def si_list_def min_def)

lemma vsrvcInfo_copy_gen:
  assumes "srvc_wf d" "srvc_src s"
  shows "\<exists>d'. vsrvcInfo_copy True d s = Some (0, d') \<and> srvc_wf d' \<and> si_hash d' = si_hash s \<and>
    si_hostid d' = si_hostid s \<and> si_nice d' = si_nice s \<and> si_proto d' = si_proto s \<and> si_heap d' = si_heap d \<and>
    si_list d' = fold (addr_ins (\<lambda>t. t)) (si_list s) []"
proof -
  let ?d = "d\<lparr>si_hash := si_hash s, si_hostid := si_hostid s, si_nice := si_nice s,
      si_proto := si_proto s, si_naddrs := 0\<rparr>"
  have l0: "si_list ?d = []" by (simp add: si_list_def)
  have "srvc_wf ?d"
    using assms unfolding srvc_wf_def l0 by (auto simp: addrs_distinct_def srvc_src_def)
  moreover have "length (si_list s) \<le> 12" "distinct (map (\<lambda>x. sa_key (va_addr x)) (si_list s))"
      "\<forall>x \<in> set (si_list s). va_type x < VSOCKADDR_BUTT"
    using assms(2) length_srvc_src [OF assms(2)]
    by (simp_all add: srvc_src_def addrs_distinct_def nat_le_iff)
  ultimately obtain d' where d': "sih.add_all (si_list s) ?d = Some (0, d')" "srvc_wf d'" "si_same ?d d'"
      "si_list d' = fold (addr_ins (\<lambda>t. t)) (si_list s) []"
    using sih.add_all_spec [of ?d "si_list s"] l0 by auto
  have "srvcInfo_copy_addrs True (nat (si_naddrs s)) 0 ?d (si_addrs s) = Some (0, d')"
    using d'(1) assms(2) by (intro srvcInfo_copy_addrs_add_all) (auto simp: si_list_def srvc_src_def)
  then show ?thesis
    using d' assms(2) by (auto simp: vsrvcInfo_copy_def si_same_def srvc_src_def)
qed

lemma vsrvcInfo_copy_spec:
  assumes "srvc_wf d" "srvc_wf s" "addrs_sorted (\<lambda>t. t) (si_list s)"
  shows "\<exists>d'. vsrvcInfo_copy True d s = Some (0, d') \<and> srvc_wf d' \<and> si_hash d' = si_hash s \<and>
    si_hostid d' = si_hostid s \<and> si_nice d' = si_nice s \<and> si_proto d' = si_proto s \<and>
    si_list d' = si_list s"
  using vsrvcInfo_copy_gen [OF assms(1) srvc_wf_src [OF assms(2)]] fold_addr_ins_sorted [OF assms(3)] by auto

lemma addr_close_gap_spec:
  "i + n < length slots \<Longrightarrow> addr_close_gap n i slots =
     Some (take i slots @ take n (drop (Suc i) slots) @ drop (i + n) slots)"
proof (induction n arbitrary: i slots)
  case (Suc n)
  let ?s = "slots[i := slots ! Suc i]"
  have "addr_close_gap (Suc n) i slots = addr_close_gap n (Suc i) ?s"
    using Suc.prems by simp
  also have "\<dots> = Some (take (Suc i) ?s @ take n (drop (Suc (Suc i)) ?s) @ drop (Suc i + n) ?s)"
    using Suc.IH [of "Suc i" ?s] Suc.prems by simp
  also have "take (Suc i) ?s = take i slots @ [slots ! Suc i]"
    using Suc.prems by (simp add: take_Suc_conv_app_nth)
  finally show ?case
    using Suc.prems by (simp add: Cons_nth_drop_Suc [symmetric])
qed simp

lemma filter_distinct_key:
  assumes "distinct (map f (xs @ y # zs))"
  shows "filter (\<lambda>x. f x \<noteq> f y) (xs @ y # zs) = xs @ zs"
proof -
  have "f x \<noteq> f y" if "x \<in> set xs \<or> x \<in> set zs" for x
    using assms that by (force simp: image_iff)
  then have "filter (\<lambda>x. f x \<noteq> f y) xs = xs" "filter (\<lambda>x. f x \<noteq> f y) zs = zs"
    by (auto simp: filter_id_conv)
  then show ?thesis by simp
qed

lemma srvc_wf_shrink:
  assumes "srvc_wf n" "si_hash m = si_hash n" "si_hostid m = si_hostid n" "si_capc m = si_capc n"
    "si_heap m = si_heap n" "length (si_addrs m) = length (si_addrs n)"
    "0 \<le> si_naddrs m" "si_naddrs m \<le> si_naddrs n"
    "addrs_distinct (si_list m)" "set (si_list m) \<subseteq> set (si_list n)"
  shows "srvc_wf m"
  using assms unfolding srvc_wf_def by auto

lemma vsrvcInfo_del_addr_spec:
  assumes "srvc_wf n"
  shows "\<exists>n'. vsrvcInfo_del_addr n a = Some n' \<and> srvc_wf n' \<and> si_same n n' \<and>
    si_list n' = filter (\<lambda>x. sa_key (va_addr x) \<noteq> sa_key a) (si_list n)"
proof (cases "addr_in (si_list n) a")
  case False
  have "nat (si_naddrs n) \<le> length (si_addrs n)" using assms by (auto simp: srvc_wf_def)
  then have "vsrvcInfo_del_addr n a = Some n"
    using False by (simp add: vsrvcInfo_del_addr_def si_list_def addr_find_None)
  moreover have "filter (\<lambda>x. sa_key (va_addr x) \<noteq> sa_key a) (si_list n) = si_list n"
    using False by (auto simp: addr_in_def intro!: filter_True)
  ultimately show ?thesis using assms by (simp add: si_same_def)
next
  case True
  have b: "nat (si_naddrs n) \<le> length (si_addrs n)" using assms by (auto simp: srvc_wf_def)
  obtain i where i: "addr_find (nat (si_naddrs n)) 0 (si_addrs n) a = Some (Some i)"
      "i < nat (si_naddrs n)" "sa_key (va_addr (si_addrs n ! i)) = sa_key a"
    using addr_find_Some [OF b] True by (auto simp: si_list_def)
  let ?k = "nat (si_naddrs n)"
  let ?slots = "take i (si_addrs n) @ take (?k - 1 - i) (drop (Suc i) (si_addrs n)) @ drop (?k - 1) (si_addrs n)"
  let ?m = "n\<lparr>si_addrs := ?slots, si_naddrs := si_naddrs n - 1\<rparr>"
  have "addr_close_gap (?k - 1 - i) i (si_addrs n) = Some ?slots"
    using addr_close_gap_spec [of i "?k - 1 - i" "si_addrs n"] i b by simp
  then have e: "vsrvcInfo_del_addr n a = Some ?m"
    using i by (simp add: vsrvcInfo_del_addr_def)
  have len: "length ?slots = length (si_addrs n)" using i b by auto
  have split: "si_list n = take i (si_addrs n) @ si_addrs n ! i # take (?k - 1 - i) (drop (Suc i) (si_addrs n))"
  proof -
    have "si_list n = take i (si_list n) @ si_list n ! i # drop (Suc i) (si_list n)"
      using i length_si_list [OF assms] by (simp add: id_take_nth_drop)
    then show ?thesis using i by (simp add: si_list_def drop_take min_absorb1)
  qed
  have l: "si_list ?m = take i (si_addrs n) @ take (?k - 1 - i) (drop (Suc i) (si_addrs n))"
  proof -
    have "length (take i (si_addrs n) @ take (?k - 1 - i) (drop (Suc i) (si_addrs n))) = ?k - 1"
      using i b by simp
    then have "take (?k - 1) ?slots = take i (si_addrs n) @ take (?k - 1 - i) (drop (Suc i) (si_addrs n))"
      by (metis append.assoc append_eq_conv_conj)
    moreover have "nat (si_naddrs ?m) = ?k - 1" by simp
    moreover have "si_addrs ?m = ?slots" by simp
    ultimately show ?thesis unfolding si_list_def by metis
  qed
  have d: "addrs_distinct (si_list n)" using assms by (simp add: srvc_wf_def)
  have f: "filter (\<lambda>x. sa_key (va_addr x) \<noteq> sa_key a) (si_list n) = si_list ?m"
    using filter_distinct_key [of "\<lambda>x. sa_key (va_addr x)"] d
    unfolding split l addrs_distinct_def i(3) [symmetric] by blast
  have "addrs_distinct (si_list ?m)"
    using d unfolding split l addrs_distinct_def by auto
  moreover have "set (si_list ?m) \<subseteq> set (si_list n)" unfolding f [symmetric] by auto
  ultimately have "srvc_wf ?m"
    using srvc_wf_shrink [OF assms] i len by simp
  then show ?thesis using e f by (intro exI [of _ ?m]) (simp add: si_same_def)
qed

end
