(* ===== verification/DhtMsg.thy ===== *)
theory DhtMsg
  imports VArray NodeInfo
begin

section \<open>The DHT messages (vdht.c)\<close>

text \<open>
  A message is a bencoded dictionary \<open>{"t": nonce, "y": "q" or "r", "q"/"r": name, "a": arguments}\<close>
  whose binary fields are the memory images of the C structures, so the images are part of the
  protocol: \<open>sa_image\<close> to \<open>srvc_image\<close> give them for a little-endian machine.
\<close>

subsection \<open>Message kinds\<close>

abbreviation (input) VDHT_PING :: int where "VDHT_PING \<equiv> 0"
abbreviation (input) VDHT_PING_R :: int where "VDHT_PING_R \<equiv> 1"
abbreviation (input) VDHT_FIND_NODE :: int where "VDHT_FIND_NODE \<equiv> 2"
abbreviation (input) VDHT_FIND_NODE_R :: int where "VDHT_FIND_NODE_R \<equiv> 3"
abbreviation (input) VDHT_FIND_CLOSEST_NODES :: int where "VDHT_FIND_CLOSEST_NODES \<equiv> 4"
abbreviation (input) VDHT_FIND_CLOSEST_NODES_R :: int where "VDHT_FIND_CLOSEST_NODES_R \<equiv> 5"
abbreviation (input) VDHT_REFLEX :: int where "VDHT_REFLEX \<equiv> 6"
abbreviation (input) VDHT_REFLEX_R :: int where "VDHT_REFLEX_R \<equiv> 7"
abbreviation (input) VDHT_PROBE :: int where "VDHT_PROBE \<equiv> 8"
abbreviation (input) VDHT_PROBE_R :: int where "VDHT_PROBE_R \<equiv> 9"
abbreviation (input) VDHT_POST_SERVICE :: int where "VDHT_POST_SERVICE \<equiv> 10"
abbreviation (input) VDHT_FIND_SERVICE :: int where "VDHT_FIND_SERVICE \<equiv> 11"
abbreviation (input) VDHT_FIND_SERVICE_R :: int where "VDHT_FIND_SERVICE_R \<equiv> 12"
abbreviation (input) VDHT_UNKNOWN :: int where "VDHT_UNKNOWN \<equiv> 13"

definition dhtId_global_desc :: "(int \<times> string) list" where
  "dhtId_global_desc =
     [(VDHT_PING, ''ping''), (VDHT_PING_R, ''ping_rsp''),
      (VDHT_FIND_NODE, ''find_node''), (VDHT_FIND_NODE_R, ''find_node_rsp''),
      (VDHT_FIND_CLOSEST_NODES, ''find_closest_nodes''),
      (VDHT_FIND_CLOSEST_NODES_R, ''find_closest_nodes_rsp''),
      (VDHT_REFLEX, ''reflex''), (VDHT_REFLEX_R, ''reflex_rsp''),
      (VDHT_PROBE, ''probe''), (VDHT_PROBE_R, ''probe_rsp''),
      (VDHT_POST_SERVICE, ''post_service''),
      (VDHT_FIND_SERVICE, ''find_service''), (VDHT_FIND_SERVICE_R, ''find_service_rsp'')]"

definition dhtId_query_desc :: "(int \<times> string) list" where
  "dhtId_query_desc =
     [(VDHT_PING, ''ping''), (VDHT_FIND_NODE, ''find_node''),
      (VDHT_FIND_CLOSEST_NODES, ''find_closest_nodes''), (VDHT_REFLEX, ''reflex''),
      (VDHT_PROBE, ''probe''), (VDHT_POST_SERVICE, ''post_service''),
      (VDHT_FIND_SERVICE, ''find_service'')]"

definition dhtId_rsp_desc :: "(int \<times> string) list" where
  "dhtId_rsp_desc =
     [(VDHT_PING_R, ''ping''), (VDHT_FIND_NODE_R, ''find_node''),
      (VDHT_FIND_CLOSEST_NODES_R, ''find_closest_nodes''), (VDHT_REFLEX_R, ''reflex''),
      (VDHT_PROBE_R, ''probe''), (VDHT_FIND_SERVICE_R, ''find_service'')]"

text \<open>The scan of a table for a name, which the C functions compare with \<open>strcmp\<close>.\<close>

fun desc_scan :: "(int \<times> string) list \<Rightarrow> bytes \<Rightarrow> int \<Rightarrow> int" where
  "desc_scan [] name dflt = dflt"
| "desc_scan ((i, d) # ds) name dflt =
     (if until_nul name = cstr d then i else desc_scan ds name dflt)"

fun id_scan :: "(int \<times> string) list \<Rightarrow> int \<Rightarrow> string option" where
  "id_scan [] dhtId = None"
| "id_scan ((i, d) # ds) dhtId = (if i = dhtId then Some d else id_scan ds dhtId)"

definition vdht_get_desc :: "int \<Rightarrow> string option" where
  "vdht_get_desc dhtId =
     (if dhtId < 0 \<or> dhtId \<ge> VDHT_UNKNOWN then Some ''unknown dht''
      else id_scan dhtId_global_desc dhtId)"

definition vdht_get_dhtId_by_desc :: "bytes \<Rightarrow> int" where
  "vdht_get_dhtId_by_desc dht_str = desc_scan dhtId_global_desc dht_str (-1)"

definition vdht_get_queryId :: "bytes \<Rightarrow> int" where
  "vdht_get_queryId desc = desc_scan dhtId_query_desc desc VDHT_UNKNOWN"

definition vdht_get_rspId :: "bytes \<Rightarrow> int" where
  "vdht_get_rspId desc = desc_scan dhtId_rsp_desc desc VDHT_UNKNOWN"

definition BUF_SZ :: int where "BUF_SZ = 1024"

definition vdht_buf_len :: int where
  "vdht_buf_len = 4 * BUF_SZ - 4 - 4"

subsection \<open>Memory images\<close>

definition sa_image :: "sockaddr_in \<Rightarrow> bytes" where
  "sa_image a = le16 (sin_family a) @ le16 (sin_port a) @ le32 (sin_addr a) @ sin_zero a"

definition sa_parse :: "bytes \<Rightarrow> sockaddr_in" where
  "sa_parse b = \<lparr>sin_family = of_le16 b, sin_port = of_le16 (drop 2 b),
     sin_addr = of_le32 (drop 4 b), sin_zero = take 8 (drop 8 b)\<rparr>"

definition va_image :: "vsockaddr_in \<Rightarrow> bytes" where
  "va_image v = sa_image (va_addr v) @ le32 (va_type v)"

definition va_parse :: "bytes \<Rightarrow> vsockaddr_in" where
  "va_parse b = \<lparr>va_addr = sa_parse b, va_type = of_le32 (drop 16 b)\<rparr>"

fun slots_parse :: "nat \<Rightarrow> bytes \<Rightarrow> vsockaddr_in list" where
  "slots_parse 0 b = []"
| "slots_parse (Suc n) b = va_parse b # slots_parse n (drop 20 b)"

definition node_image :: "vnodeInfo \<Rightarrow> bytes" where
  "node_image n = ni_id n @ ni_ver n @ le32 (word_of_int (ni_weight n)) @
     le16 (word_of_int (ni_naddrs n)) @ le16 (word_of_int (ni_capc n)) @
     concat (map va_image (ni_addrs n))"

text \<open>The object \<open>old\<close> after its memory has become \<open>b\<close>.\<close>

definition node_parse :: "vnodeInfo \<Rightarrow> bytes \<Rightarrow> vnodeInfo" where
  "node_parse old b = \<lparr>ni_id = take 20 b, ni_ver = take 20 (drop 20 b),
     ni_weight = sint (of_le32 (drop 40 b)), ni_naddrs = sint (of_le16 (drop 44 b)),
     ni_capc = sint (of_le16 (drop 46 b)),
     ni_addrs = slots_parse (length (ni_addrs old)) (drop 48 b), ni_heap = ni_heap old\<rparr>"

definition srvc_image :: "vsrvcInfo \<Rightarrow> bytes" where
  "srvc_image s = si_hash s @ si_hostid s @ le16 (word_of_int (si_nice s)) @
     le16 (word_of_int (si_proto s)) @ le16 (word_of_int (si_naddrs s)) @
     le16 (word_of_int (si_capc s)) @ concat (map va_image (si_addrs s))"

definition srvc_parse :: "vsrvcInfo \<Rightarrow> bytes \<Rightarrow> vsrvcInfo" where
  "srvc_parse old b = \<lparr>si_hash = take 20 b, si_hostid = take 20 (drop 20 b),
     si_nice = sint (of_le16 (drop 40 b)), si_proto = sint (of_le16 (drop 42 b)),
     si_naddrs = sint (of_le16 (drop 44 b)), si_capc = sint (of_le16 (drop 46 b)),
     si_addrs = slots_parse (length (si_addrs old)) (drop 48 b), si_heap = si_heap old\<rparr>"

definition sizeof_relax :: nat where "sizeof_relax = 288"
definition sizeof_vsockaddr :: nat where "sizeof_vsockaddr = 20"

text \<open>\<open>be_create_buf\<close> of an info structure, which reads \<open>vnodeInfo_size\<close> bytes of it.\<close>

definition be_create_node_buf :: "vnodeInfo \<Rightarrow> be_node option" where
  "be_create_node_buf n = do {
     vassert (0 < vnodeInfo_size n \<and> nat (vnodeInfo_size n) \<le> length (node_image n));
     be_create_buf (take (nat (vnodeInfo_size n)) (node_image n))
   }"

definition be_create_srvc_buf :: "vsrvcInfo \<Rightarrow> be_node option" where
  "be_create_srvc_buf s = do {
     vassert (0 < vsrvcInfo_size s \<and> nat (vsrvcInfo_size s) \<le> length (srvc_image s));
     be_create_buf (take (nat (vsrvcInfo_size s)) (srvc_image s))
   }"

subsection \<open>Encoders\<close>

text \<open>What every encoder starts with (the dictionary with \<open>"t"\<close>, \<open>"y"\<close> and the message's name) and
  ends with (the arguments under \<open>"a"\<close> and the encoding).\<close>

definition enc_begin :: "vnonce \<Rightarrow> string \<Rightarrow> string \<Rightarrow> be_node option option" where
  "enc_begin nonce y name = do {
     d \<leftarrow> be_create_dict;
     case d of
       None \<Rightarrow> Some None
     | Some dict \<Rightarrow> do {
         node \<leftarrow> be_create_buf nonce;
         dict \<leftarrow> be_add_keypair dict ''t'' node;
         dict \<leftarrow> be_add_keypair dict ''y'' (be_create_str y);
         dict \<leftarrow> be_add_keypair dict y (be_create_str name);
         Some (Some dict)
       }
   }"

definition enc_id :: "vtoken \<Rightarrow> be_node option" where
  "enc_id srcId = do {
     d \<leftarrow> be_create_dict;
     node \<leftarrow> be_create_buf srcId;
     dict \<leftarrow> d;
     be_add_keypair dict ''id'' node
   }"

definition enc_end :: "be_node option \<Rightarrow> be_node \<Rightarrow> int \<Rightarrow> bytes option option" where
  "enc_end d tmp sz =
     (case d of
        None \<Rightarrow> Some None
      | Some dict \<Rightarrow> do { dict \<leftarrow> be_add_keypair dict ''a'' tmp; be_encode dict sz })"

definition vdht_enc_ping :: "vnonce \<Rightarrow> vtoken \<Rightarrow> int \<Rightarrow> bytes option option" where
  "vdht_enc_ping nonce srcId sz = do {
     vassert (0 < sz);
     d \<leftarrow> enc_begin nonce ''q'' ''ping'';
     node \<leftarrow> enc_id srcId;
     enc_end d node sz
   }"

definition vdht_enc_ping_rsp :: "vnonce \<Rightarrow> vtoken \<Rightarrow> vnodeInfo \<Rightarrow> int \<Rightarrow> bytes option option" where
  "vdht_enc_ping_rsp nonce srcId result sz = do {
     vassert (0 < sz);
     d \<leftarrow> enc_begin nonce ''r'' ''ping'';
     tmp \<leftarrow> enc_id srcId;
     node \<leftarrow> be_create_node_buf result;
     tmp \<leftarrow> be_add_keypair tmp ''node'' node;
     enc_end d tmp sz
   }"

definition vdht_enc_find_node :: "vnonce \<Rightarrow> vtoken \<Rightarrow> vtoken \<Rightarrow> int \<Rightarrow> bytes option option" where
  "vdht_enc_find_node nonce srcId targetId sz = do {
     vassert (0 < sz);
     d \<leftarrow> enc_begin nonce ''q'' ''find_node'';
     tmp \<leftarrow> enc_id srcId;
     node \<leftarrow> be_create_buf targetId;
     tmp \<leftarrow> be_add_keypair tmp ''target'' node;
     enc_end d tmp sz
   }"

definition vdht_enc_find_node_rsp :: "vnonce \<Rightarrow> vtoken \<Rightarrow> vnodeInfo \<Rightarrow> int \<Rightarrow> bytes option option" where
  "vdht_enc_find_node_rsp nonce srcId result sz = do {
     vassert (0 < sz);
     d \<leftarrow> enc_begin nonce ''r'' ''find_node'';
     tmp \<leftarrow> enc_id srcId;
     node \<leftarrow> be_create_node_buf result;
     tmp \<leftarrow> be_add_keypair tmp ''node'' node;
     enc_end d tmp sz
   }"

definition vdht_enc_find_closest_nodes :: "vnonce \<Rightarrow> vtoken \<Rightarrow> vtoken \<Rightarrow> int \<Rightarrow> bytes option option" where
  "vdht_enc_find_closest_nodes nonce srcId targetId sz = do {
     vassert (0 < sz);
     d \<leftarrow> enc_begin nonce ''q'' ''find_closest_nodes'';
     tmp \<leftarrow> enc_id srcId;
     node \<leftarrow> be_create_buf targetId;
     tmp \<leftarrow> be_add_keypair tmp ''target'' node;
     enc_end d tmp sz
   }"

text \<open>The loop over the varray of node infos.\<close>

fun enc_node_list :: "nat \<Rightarrow> int \<Rightarrow> vnodeInfo varray \<Rightarrow> be_node \<Rightarrow> be_node option" where
  "enc_node_list 0 i closest lst = Some lst"
| "enc_node_list (Suc n) i closest lst = do {
     item \<leftarrow> varray_get closest i;
     nodei \<leftarrow> item;
     node \<leftarrow> be_create_node_buf nodei;
     lst \<leftarrow> be_add_list lst node;
     enc_node_list n (i + 1) closest lst
   }"

definition vdht_enc_find_closest_nodes_rsp ::
  "vnonce \<Rightarrow> vtoken \<Rightarrow> vnodeInfo varray \<Rightarrow> int \<Rightarrow> bytes option option" where
  "vdht_enc_find_closest_nodes_rsp nonce srcId closest sz = do {
     vassert (0 < sz);
     d \<leftarrow> enc_begin nonce ''r'' ''find_closest_nodes'';
     rslt \<leftarrow> enc_id srcId;
     l \<leftarrow> be_create_list;
     lst \<leftarrow> l;
     lst \<leftarrow> enc_node_list (varray_size closest) 0 closest lst;
     rslt \<leftarrow> be_add_keypair rslt ''nodes'' lst;
     enc_end d rslt sz
   }"

definition vdht_enc_reflex :: "vnonce \<Rightarrow> vtoken \<Rightarrow> int \<Rightarrow> bytes option option" where
  "vdht_enc_reflex nonce srcId sz = do {
     vassert (0 < sz);
     d \<leftarrow> enc_begin nonce ''q'' ''reflex'';
     node \<leftarrow> enc_id srcId;
     enc_end d node sz
   }"

definition vdht_enc_reflex_rsp :: "vnonce \<Rightarrow> vtoken \<Rightarrow> vsockaddr_in \<Rightarrow> int \<Rightarrow> bytes option option" where
  "vdht_enc_reflex_rsp nonce srcId reflective_addr sz = do {
     vassert (0 < sz);
     d \<leftarrow> enc_begin nonce ''r'' ''reflex'';
     tmp \<leftarrow> enc_id srcId;
     node \<leftarrow> be_create_buf (va_image reflective_addr);
     tmp \<leftarrow> be_add_keypair tmp ''m'' node;
     enc_end d tmp sz
   }"

definition vdht_enc_probe :: "vnonce \<Rightarrow> vtoken \<Rightarrow> vtoken \<Rightarrow> int \<Rightarrow> bytes option option" where
  "vdht_enc_probe nonce srcId destId sz = do {
     vassert (0 < sz);
     d \<leftarrow> enc_begin nonce ''q'' ''probe'';
     tmp \<leftarrow> enc_id srcId;
     node \<leftarrow> be_create_buf destId;
     tmp \<leftarrow> be_add_keypair tmp ''target'' node;
     enc_end d tmp sz
   }"

definition vdht_enc_probe_rsp :: "vnonce \<Rightarrow> vtoken \<Rightarrow> int \<Rightarrow> bytes option option" where
  "vdht_enc_probe_rsp nonce srcId sz = do {
     vassert (0 < sz);
     d \<leftarrow> enc_begin nonce ''r'' ''probe'';
     tmp \<leftarrow> enc_id srcId;
     enc_end d tmp sz
   }"

definition vdht_enc_post_service :: "vnonce \<Rightarrow> vtoken \<Rightarrow> vsrvcInfo \<Rightarrow> int \<Rightarrow> bytes option option" where
  "vdht_enc_post_service nonce srcId srvci sz = do {
     vassert (0 < sz);
     d \<leftarrow> enc_begin nonce ''q'' ''post_service'';
     tmp \<leftarrow> enc_id srcId;
     node \<leftarrow> be_create_srvc_buf srvci;
     tmp \<leftarrow> be_add_keypair tmp ''service'' node;
     enc_end d tmp sz
   }"

definition vdht_enc_find_service :: "vnonce \<Rightarrow> vtoken \<Rightarrow> vsrvcHash \<Rightarrow> int \<Rightarrow> bytes option option" where
  "vdht_enc_find_service nonce srcId srvcHash sz = do {
     vassert (0 < sz);
     d \<leftarrow> enc_begin nonce ''q'' ''find_service'';
     tmp \<leftarrow> enc_id srcId;
     node \<leftarrow> be_create_buf srvcHash;
     tmp \<leftarrow> be_add_keypair tmp ''target'' node;
     enc_end d tmp sz
   }"

definition vdht_enc_find_service_rsp :: "vnonce \<Rightarrow> vtoken \<Rightarrow> vsrvcInfo \<Rightarrow> int \<Rightarrow> bytes option option" where
  "vdht_enc_find_service_rsp nonce srcId result sz = do {
     vassert (0 < sz);
     d \<leftarrow> enc_begin nonce ''r'' ''find_service'';
     tmp \<leftarrow> enc_id srcId;
     node \<leftarrow> be_create_srvc_buf result;
     tmp \<leftarrow> be_add_keypair tmp ''service'' node;
     enc_end d tmp sz
   }"

subsection \<open>Decoders\<close>

text \<open>\<open>node->val.s\<close>: a crash when the node is \<open>NULL\<close> or holds something else.\<close>

fun val_s :: "be_node option \<Rightarrow> bytes option" where
  "val_s (Some (BeStr s)) = Some s"
| "val_s _ = None"

definition aux_unpack_dhtId :: "be_node \<Rightarrow> int option" where
  "aux_unpack_dhtId dict =
     (case dict of
        BeDict d \<Rightarrow> do {
          node \<leftarrow> be_find_node (Some dict) ''y'';
          y \<leftarrow> val_s node;
          if until_nul y = cstr ''q'' then do {
            node \<leftarrow> be_find_node (Some dict) ''q'';
            s \<leftarrow> val_s node;
            Some (vdht_get_queryId s)
          }
          else if until_nul y = cstr ''r'' then do {
            node \<leftarrow> be_find_node (Some dict) ''r'';
            s \<leftarrow> val_s node;
            Some (vdht_get_rspId s)
          }
          else Some VDHT_UNKNOWN
        }
      | _ \<Rightarrow> Some (-1))"

text \<open>\<open>Some None\<close> is the return of \<open>-1\<close>; otherwise the message kind and the decoded dictionary.\<close>

definition vdht_dec_begin :: "bytes \<Rightarrow> int \<Rightarrow> (int \<times> be_node) option option" where
  "vdht_dec_begin buf len = do {
     vassert (len \<noteq> 0);
     r \<leftarrow> be_decode buf len;
     case r of
       None \<Rightarrow> Some None
     | Some dict \<Rightarrow> do {
         ret \<leftarrow> aux_unpack_dhtId dict;
         if ret < 0 \<or> ret \<ge> VDHT_UNKNOWN then Some None
         else Some (Some (ret, dict))
       }
   }"

text \<open>The pair of \<open>be_find_node\<close> and \<open>be_unpack_buf\<close> all decoders are made of; the result of the
  latter is not looked at.\<close>

definition dec_buf :: "be_node option \<Rightarrow> string \<Rightarrow> bytes \<Rightarrow> nat \<Rightarrow> bytes option" where
  "dec_buf dict key buf len = do {
     node \<leftarrow> be_find_node dict key;
     (ret, buf) \<leftarrow> be_unpack_buf node buf len;
     Some buf
   }"

definition vdht_dec_ping :: "be_node \<Rightarrow> vnonce \<Rightarrow> vtoken \<Rightarrow> (vnonce \<times> vtoken) option" where
  "vdht_dec_ping ctxt nonce srcId = do {
     nonce \<leftarrow> dec_buf (Some ctxt) ''t'' nonce VNONCE_LEN;
     node \<leftarrow> be_find_node (Some ctxt) ''a'';
     srcId \<leftarrow> dec_buf node ''id'' srcId VTOKEN_LEN;
     Some (nonce, srcId)
   }"

definition dec_node :: "be_node option \<Rightarrow> string \<Rightarrow> vnodeInfo \<Rightarrow> vnodeInfo option" where
  "dec_node dict key result = do {
     b \<leftarrow> dec_buf dict key (node_image result) sizeof_relax;
     Some (node_parse result b)
   }"

definition dec_srvc :: "be_node option \<Rightarrow> string \<Rightarrow> vsrvcInfo \<Rightarrow> vsrvcInfo option" where
  "dec_srvc dict key result = do {
     b \<leftarrow> dec_buf dict key (srvc_image result) sizeof_relax;
     Some (srvc_parse result b)
   }"

definition vdht_dec_ping_rsp :: "be_node \<Rightarrow> vnonce \<Rightarrow> vnodeInfo \<Rightarrow> (vnonce \<times> vnodeInfo) option" where
  "vdht_dec_ping_rsp ctxt nonce result = do {
     nonce \<leftarrow> dec_buf (Some ctxt) ''t'' nonce VNONCE_LEN;
     node \<leftarrow> be_find_node (Some ctxt) ''a'';
     result \<leftarrow> dec_node node ''node'' result;
     Some (nonce, result)
   }"

definition vdht_dec_find_node ::
  "be_node \<Rightarrow> vnonce \<Rightarrow> vtoken \<Rightarrow> vtoken \<Rightarrow> (vnonce \<times> vtoken \<times> vtoken) option" where
  "vdht_dec_find_node ctxt nonce srcId targetId = do {
     nonce \<leftarrow> dec_buf (Some ctxt) ''t'' nonce VNONCE_LEN;
     tmp \<leftarrow> be_find_node (Some ctxt) ''a'';
     srcId \<leftarrow> dec_buf tmp ''id'' srcId VTOKEN_LEN;
     targetId \<leftarrow> dec_buf tmp ''target'' targetId VTOKEN_LEN;
     Some (nonce, srcId, targetId)
   }"

definition vdht_dec_find_node_rsp ::
  "be_node \<Rightarrow> vnonce \<Rightarrow> vtoken \<Rightarrow> vnodeInfo \<Rightarrow> (vnonce \<times> vtoken \<times> vnodeInfo) option" where
  "vdht_dec_find_node_rsp ctxt nonce srcId result = do {
     nonce \<leftarrow> dec_buf (Some ctxt) ''t'' nonce VNONCE_LEN;
     tmp \<leftarrow> be_find_node (Some ctxt) ''a'';
     srcId \<leftarrow> dec_buf tmp ''id'' srcId VTOKEN_LEN;
     result \<leftarrow> dec_node tmp ''node'' result;
     Some (nonce, srcId, result)
   }"

definition vdht_dec_find_closest_nodes ::
  "be_node \<Rightarrow> vnonce \<Rightarrow> vtoken \<Rightarrow> vtoken \<Rightarrow> (vnonce \<times> vtoken \<times> vtoken) option" where
  "vdht_dec_find_closest_nodes ctxt nonce srcId targetId = do {
     nonce \<leftarrow> dec_buf (Some ctxt) ''t'' nonce VNONCE_LEN;
     tmp \<leftarrow> be_find_node (Some ctxt) ''a'';
     srcId \<leftarrow> dec_buf tmp ''id'' srcId VTOKEN_LEN;
     targetId \<leftarrow> dec_buf tmp ''target'' targetId VTOKEN_LEN;
     Some (nonce, srcId, targetId)
   }"

text \<open>\<open>tmp->val.l\<close>: a crash when there is no list.\<close>

fun val_l :: "be_node option \<Rightarrow> be_node list option" where
  "val_l (Some (BeList l)) = Some l"
| "val_l _ = None"

text \<open>The loop over the nodes; \<open>mem\<close> says for each whether the pool has a structure left, and
  \<open>grow\<close> whether the varray can grow.\<close>

fun dec_node_list ::
  "(nat \<Rightarrow> bool) \<Rightarrow> bool \<Rightarrow> nat \<Rightarrow> be_node list \<Rightarrow> vnodeInfo varray \<Rightarrow> vnodeInfo varray option" where
  "dec_node_list mem grow i [] closest = Some closest"
| "dec_node_list mem grow i (node # l) closest =
     (case vnodeInfo_relax_alloc (mem i) of
        None \<Rightarrow> Some closest
      | Some nodei \<Rightarrow> do {
          (ret, b) \<leftarrow> be_unpack_buf (Some node) (node_image nodei) sizeof_relax;
          (ret, closest) \<leftarrow> varray_add_tail grow closest (Some (node_parse nodei b));
          dec_node_list mem grow (i + 1) l closest
        })"

definition vdht_dec_find_closest_nodes_rsp ::
  "(nat \<Rightarrow> bool) \<Rightarrow> bool \<Rightarrow> be_node \<Rightarrow> vnonce \<Rightarrow> vtoken \<Rightarrow> vnodeInfo varray \<Rightarrow>
     (vnonce \<times> vtoken \<times> vnodeInfo varray) option" where
  "vdht_dec_find_closest_nodes_rsp mem grow ctxt nonce srcId closest = do {
     nonce \<leftarrow> dec_buf (Some ctxt) ''t'' nonce VNONCE_LEN;
     tmp \<leftarrow> be_find_node (Some ctxt) ''a'';
     srcId \<leftarrow> dec_buf tmp ''id'' srcId VTOKEN_LEN;
     tmp \<leftarrow> be_find_node tmp ''nodes'';
     l \<leftarrow> val_l tmp;
     closest \<leftarrow> dec_node_list mem grow 0 l closest;
     Some (nonce, srcId, closest)
   }"

definition vdht_dec_reflex :: "be_node \<Rightarrow> vnonce \<Rightarrow> vtoken \<Rightarrow> (vnonce \<times> vtoken) option" where
  "vdht_dec_reflex ctxt nonce srcId = do {
     nonce \<leftarrow> dec_buf (Some ctxt) ''t'' nonce VNONCE_LEN;
     node \<leftarrow> be_find_node (Some ctxt) ''a'';
     srcId \<leftarrow> dec_buf node ''id'' srcId VTOKEN_LEN;
     Some (nonce, srcId)
   }"

definition vdht_dec_reflex_rsp ::
  "be_node \<Rightarrow> vnonce \<Rightarrow> vtoken \<Rightarrow> vsockaddr_in \<Rightarrow> (vnonce \<times> vtoken \<times> vsockaddr_in) option" where
  "vdht_dec_reflex_rsp ctxt nonce srcId reflexive_addr = do {
     nonce \<leftarrow> dec_buf (Some ctxt) ''t'' nonce VNONCE_LEN;
     tmp \<leftarrow> be_find_node (Some ctxt) ''a'';
     srcId \<leftarrow> dec_buf tmp ''id'' srcId VTOKEN_LEN;
     b \<leftarrow> dec_buf tmp ''m'' (va_image reflexive_addr) sizeof_vsockaddr;
     Some (nonce, srcId, va_parse b)
   }"

definition vdht_dec_probe ::
  "be_node \<Rightarrow> vnonce \<Rightarrow> vtoken \<Rightarrow> vtoken \<Rightarrow> (vnonce \<times> vtoken \<times> vtoken) option" where
  "vdht_dec_probe ctxt nonce srcId destId = do {
     nonce \<leftarrow> dec_buf (Some ctxt) ''t'' nonce VNONCE_LEN;
     tmp \<leftarrow> be_find_node (Some ctxt) ''a'';
     srcId \<leftarrow> dec_buf tmp ''id'' srcId VTOKEN_LEN;
     destId \<leftarrow> dec_buf tmp ''target'' destId VTOKEN_LEN;
     Some (nonce, srcId, destId)
   }"

definition vdht_dec_probe_rsp :: "be_node \<Rightarrow> vnonce \<Rightarrow> vtoken \<Rightarrow> (vnonce \<times> vtoken) option" where
  "vdht_dec_probe_rsp ctxt nonce srcId = do {
     nonce \<leftarrow> dec_buf (Some ctxt) ''t'' nonce VNONCE_LEN;
     node \<leftarrow> be_find_node (Some ctxt) ''a'';
     srcId \<leftarrow> dec_buf node ''id'' srcId VTOKEN_LEN;
     Some (nonce, srcId)
   }"

definition vdht_dec_post_service ::
  "be_node \<Rightarrow> vnonce \<Rightarrow> vtoken \<Rightarrow> vsrvcInfo \<Rightarrow> (vnonce \<times> vtoken \<times> vsrvcInfo) option" where
  "vdht_dec_post_service ctxt nonce srcId srvci = do {
     nonce \<leftarrow> dec_buf (Some ctxt) ''t'' nonce VNONCE_LEN;
     tmp \<leftarrow> be_find_node (Some ctxt) ''a'';
     srcId \<leftarrow> dec_buf tmp ''id'' srcId VTOKEN_LEN;
     srvci \<leftarrow> dec_srvc tmp ''service'' srvci;
     Some (nonce, srcId, srvci)
   }"

definition vdht_dec_find_service ::
  "be_node \<Rightarrow> vnonce \<Rightarrow> vtoken \<Rightarrow> vsrvcHash \<Rightarrow> (vnonce \<times> vtoken \<times> vsrvcHash) option" where
  "vdht_dec_find_service ctxt nonce srcId srvcHash = do {
     nonce \<leftarrow> dec_buf (Some ctxt) ''t'' nonce VNONCE_LEN;
     tmp \<leftarrow> be_find_node (Some ctxt) ''a'';
     srcId \<leftarrow> dec_buf tmp ''id'' srcId VTOKEN_LEN;
     srvcHash \<leftarrow> dec_buf tmp ''target'' srvcHash VSRVCHASH_LEN;
     Some (nonce, srcId, srvcHash)
   }"

definition vdht_dec_find_service_rsp ::
  "be_node \<Rightarrow> vnonce \<Rightarrow> vtoken \<Rightarrow> vsrvcInfo \<Rightarrow> (vnonce \<times> vtoken \<times> vsrvcInfo) option" where
  "vdht_dec_find_service_rsp ctxt nonce srcId result = do {
     nonce \<leftarrow> dec_buf (Some ctxt) ''t'' nonce VNONCE_LEN;
     tmp \<leftarrow> be_find_node (Some ctxt) ''a'';
     srcId \<leftarrow> dec_buf tmp ''id'' srcId VTOKEN_LEN;
     result \<leftarrow> dec_srvc tmp ''service'' result;
     Some (nonce, srcId, result)
   }"


section \<open>What these operations do\<close>

subsection \<open>Names\<close>

lemma cstr_keys [simp]:
  "cstr ''t'' = [116]" "cstr ''y'' = [121]" "cstr ''q'' = [113]" "cstr ''r'' = [114]"
  "cstr ''a'' = [97]" "cstr ''id'' = [105, 100]" "cstr ''m'' = [109]"
  "cstr ''node'' = [110, 111, 100, 101]" "cstr ''nodes'' = [110, 111, 100, 101, 115]"
  "cstr ''target'' = [116, 97, 114, 103, 101, 116]"
  "cstr ''service'' = [115, 101, 114, 118, 105, 99, 101]"
  by (simp_all add: cstr_def)

lemma cstr_names [simp]:
  "cstr ''ping'' = [112, 105, 110, 103]"
  "cstr ''find_node'' = [102, 105, 110, 100, 95, 110, 111, 100, 101]"
  "cstr ''find_closest_nodes'' =
    [102, 105, 110, 100, 95, 99, 108, 111, 115, 101, 115, 116, 95, 110, 111, 100, 101, 115]"
  "cstr ''reflex'' = [114, 101, 102, 108, 101, 120]"
  "cstr ''probe'' = [112, 114, 111, 98, 101]"
  "cstr ''post_service'' = [112, 111, 115, 116, 95, 115, 101, 114, 118, 105, 99, 101]"
  "cstr ''find_service'' = [102, 105, 110, 100, 95, 115, 101, 114, 118, 105, 99, 101]"
  by (simp_all add: cstr_def)

lemma query_ids [simp]:
  "vdht_get_queryId (cstr ''ping'') = VDHT_PING"
  "vdht_get_queryId (cstr ''find_node'') = VDHT_FIND_NODE"
  "vdht_get_queryId (cstr ''find_closest_nodes'') = VDHT_FIND_CLOSEST_NODES"
  "vdht_get_queryId (cstr ''reflex'') = VDHT_REFLEX"
  "vdht_get_queryId (cstr ''probe'') = VDHT_PROBE"
  "vdht_get_queryId (cstr ''post_service'') = VDHT_POST_SERVICE"
  "vdht_get_queryId (cstr ''find_service'') = VDHT_FIND_SERVICE"
  by (simp_all add: vdht_get_queryId_def dhtId_query_desc_def)

lemma rsp_ids [simp]:
  "vdht_get_rspId (cstr ''ping'') = VDHT_PING_R"
  "vdht_get_rspId (cstr ''find_node'') = VDHT_FIND_NODE_R"
  "vdht_get_rspId (cstr ''find_closest_nodes'') = VDHT_FIND_CLOSEST_NODES_R"
  "vdht_get_rspId (cstr ''reflex'') = VDHT_REFLEX_R"
  "vdht_get_rspId (cstr ''probe'') = VDHT_PROBE_R"
  "vdht_get_rspId (cstr ''find_service'') = VDHT_FIND_SERVICE_R"
  by (simp_all add: vdht_get_rspId_def dhtId_rsp_desc_def)

subsection \<open>Images\<close>

definition slot_wf :: "vsockaddr_in \<Rightarrow> bool" where
  "slot_wf v \<longleftrightarrow> length (sin_zero (va_addr v)) = 8"

lemma length_va_image [simp]: "slot_wf v \<Longrightarrow> length (va_image v) = 20"
  by (simp add: va_image_def sa_image_def slot_wf_def)

lemma va_parse_image [simp]: "slot_wf v \<Longrightarrow> va_parse (va_image v @ r) = v"
  by (cases v; cases "va_addr v") (simp add: va_parse_def va_image_def sa_parse_def sa_image_def slot_wf_def)

lemma va_parse_image' [simp]: "slot_wf v \<Longrightarrow> va_parse (va_image v) = v"
  using va_parse_image [of v "[]"] by (simp del: va_parse_image)

definition slots_image :: "vsockaddr_in list \<Rightarrow> bytes" where
  "slots_image xs = concat (map va_image xs)"

lemma slots_image_simps [simp]:
  "slots_image [] = []"
  "slots_image (x # xs) = va_image x @ slots_image xs"
  "slots_image (xs @ ys) = slots_image xs @ slots_image ys"
  by (simp_all add: slots_image_def)

lemma length_slots_image [simp]: "\<forall>v \<in> set xs. slot_wf v \<Longrightarrow> length (slots_image xs) = 20 * length xs"
  by (induction xs) auto

lemma slots_parse_image:
  "\<forall>v \<in> set xs. slot_wf v \<Longrightarrow> slots_parse (length xs) (slots_image xs @ r) = xs"
  by (induction xs) auto

lemma take_slots_image:
  assumes "\<forall>v \<in> set xs. slot_wf v" "k \<le> length xs"
  shows "take (20 * k) (slots_image xs) = slots_image (take k xs)"
proof -
  have "slots_image xs = slots_image (take k xs) @ slots_image (drop k xs)"
    by (metis append_take_drop_id slots_image_simps(3))
  moreover have "length (slots_image (take k xs)) = 20 * k"
    using assms by (subst length_slots_image) (auto dest: in_set_takeD)
  ultimately show ?thesis by (metis append_eq_conv_conj)
qed

lemma drop_slots_image:
  assumes "\<forall>v \<in> set xs. slot_wf v" "k \<le> length xs"
  shows "drop (20 * k) (slots_image xs) = slots_image (drop k xs)"
proof -
  have "slots_image xs = slots_image (take k xs) @ slots_image (drop k xs)"
    by (metis append_take_drop_id slots_image_simps(3))
  moreover have "length (slots_image (take k xs)) = 20 * k"
    using assms by (subst length_slots_image) (auto dest: in_set_takeD)
  ultimately show ?thesis by (metis append_eq_conv_conj)
qed

definition node_header :: "vnodeInfo \<Rightarrow> bytes" where
  "node_header n = ni_id n @ ni_ver n @ le32 (word_of_int (ni_weight n)) @
     le16 (word_of_int (ni_naddrs n)) @ le16 (word_of_int (ni_capc n))"

definition srvc_header :: "vsrvcInfo \<Rightarrow> bytes" where
  "srvc_header s = si_hash s @ si_hostid s @ le16 (word_of_int (si_nice s)) @
     le16 (word_of_int (si_proto s)) @ le16 (word_of_int (si_naddrs s)) @
     le16 (word_of_int (si_capc s))"

lemma node_image_eq: "node_image n = node_header n @ slots_image (ni_addrs n)"
  by (simp add: node_image_def node_header_def slots_image_def)

lemma srvc_image_eq: "srvc_image s = srvc_header s @ slots_image (si_addrs s)"
  by (simp add: srvc_image_def srvc_header_def slots_image_def)

lemma length_node_header [simp]: "tok_wf (ni_id n) \<Longrightarrow> tok_wf (ni_ver n) \<Longrightarrow> length (node_header n) = 48"
  by (simp add: node_header_def tok_wf_def VTOKEN_LEN_def)

lemma length_srvc_header [simp]: "tok_wf (si_hash n) \<Longrightarrow> tok_wf (si_hostid n) \<Longrightarrow> length (srvc_header n) = 48"
  by (simp add: srvc_header_def tok_wf_def VTOKEN_LEN_def)

definition int16_ok :: "int \<Rightarrow> bool" where
  "int16_ok i \<longleftrightarrow> - (2 ^ 15) \<le> i \<and> i < 2 ^ 15"

lemma sint_of_int16 [simp]: "int16_ok i \<Longrightarrow> sint (word_of_int i :: u16) = i"
  by (simp add: int16_ok_def signed_take_bit_int_eq_self sint_sbintrunc')

text \<open>What may be sent, and the structures messages are received into.\<close>

definition node_sendable :: "vnodeInfo \<Rightarrow> bool" where
  "node_sendable n \<longleftrightarrow> node_wf n \<and> int32_ok (ni_weight n) \<and> (\<forall>v \<in> set (ni_addrs n). slot_wf v)"

definition node_room :: "vnodeInfo \<Rightarrow> bool" where
  "node_room n \<longleftrightarrow> tok_wf (ni_id n) \<and> tok_wf (ni_ver n) \<and> length (ni_addrs n) = 12 \<and>
     (\<forall>v \<in> set (ni_addrs n). slot_wf v)"

text \<open>The structure \<open>old\<close> once the node info \<open>n\<close> has arrived in it: everything of \<open>n\<close>, its
  capacity included; only the slots behind its addresses stay as they were.\<close>

definition node_received :: "vnodeInfo \<Rightarrow> vnodeInfo \<Rightarrow> vnodeInfo" where
  "node_received n old = \<lparr>ni_id = ni_id n, ni_ver = ni_ver n, ni_weight = ni_weight n,
     ni_naddrs = ni_naddrs n, ni_capc = ni_capc n,
     ni_addrs = ni_list n @ drop (nat (ni_naddrs n)) (ni_addrs old), ni_heap = ni_heap old\<rparr>"

lemma vnodeInfo_size_nat:
  "node_wf n \<Longrightarrow> vnodeInfo_size n = int (48 + 20 * nat (ni_naddrs n))"
  by (simp add: vnodeInfo_size_def node_wf_def)

lemma node_buf_spec:
  assumes "node_sendable n"
  shows "be_create_node_buf n = Some (BeStr (node_header n @ slots_image (ni_list n)))"
proof -
  let ?k = "nat (ni_naddrs n)"
  have w: "node_wf n" "\<forall>v \<in> set (ni_addrs n). slot_wf v" "?k \<le> length (ni_addrs n)"
    using assms by (auto simp: node_sendable_def node_wf_def)
  have h: "length (node_header n) = 48" using node_wf_tok [OF w(1)] by simp
  then have "take (48 + 20 * ?k) (node_image n) = node_header n @ slots_image (ni_list n)"
    using take_slots_image [OF w(2,3)] by (simp add: node_image_eq ni_list_def)
  moreover have "0 < length (node_header n @ slots_image (ni_list n))" using h by simp
  moreover have "48 + 20 * ?k \<le> length (node_image n)" using w(2,3) h by (simp add: node_image_eq)
  ultimately show ?thesis
    unfolding be_create_node_buf_def be_create_buf_def vnodeInfo_size_nat [OF w(1)] nat_int by simp
qed

lemma node_parse_received:
  assumes "node_sendable n" "node_room old"
  shows "node_parse old (node_header n @ slots_image (ni_list n) @
      drop (48 + 20 * nat (ni_naddrs n)) (node_image old)) = node_received n old"
proof -
  let ?k = "nat (ni_naddrs n)"
  have w: "node_wf n" "\<forall>v \<in> set (ni_addrs n). slot_wf v" "?k \<le> 12" "int32_ok (ni_weight n)"
    using assms(1) node_wf_le by (fastforce simp: node_sendable_def)+
  have o: "\<forall>v \<in> set (ni_addrs old). slot_wf v" "?k \<le> length (ni_addrs old)"
      "length (node_header old) = 48" "length (ni_addrs old) = 12"
    using assms(2) w by (simp_all add: node_room_def)
  have i: "int16_ok (ni_naddrs n)" "int16_ok (ni_capc n)" "length (ni_id n) = 20" "length (ni_ver n) = 20"
    using w(1) node_wf_le [OF w(1)]
    by (auto simp: int16_ok_def node_wf_def tok_wf_def VTOKEN_LEN_def split: if_splits)
  have d: "drop (48 + 20 * ?k) (node_image old) = slots_image (drop ?k (ni_addrs old))"
    using drop_slots_image [OF o(1,2)] o(3) by (simp add: node_image_eq)
  let ?xs = "ni_list n @ drop ?k (ni_addrs old)"
  have "\<forall>v \<in> set ?xs. slot_wf v" using w(2) o(1) by (auto simp: ni_list_def dest: in_set_takeD in_set_dropD)
  moreover have "length ?xs = length (ni_addrs old)"
    using length_ni_list [OF w(1)] o(4) w(3) by simp
  ultimately have "slots_parse (length (ni_addrs old)) (slots_image ?xs) = ?xs"
    using slots_parse_image [of ?xs "[]"] by simp
  then show ?thesis
    unfolding d using i w(4) by (simp add: node_parse_def node_received_def node_header_def)
qed


definition srvc_sendable :: "vsrvcInfo \<Rightarrow> bool" where
  "srvc_sendable s \<longleftrightarrow> srvc_wf s \<and> int16_ok (si_nice s) \<and> int16_ok (si_proto s) \<and>
     (\<forall>v \<in> set (si_addrs s). slot_wf v)"

definition srvc_room :: "vsrvcInfo \<Rightarrow> bool" where
  "srvc_room s \<longleftrightarrow> tok_wf (si_hash s) \<and> tok_wf (si_hostid s) \<and> length (si_addrs s) = 12 \<and>
     (\<forall>v \<in> set (si_addrs s). slot_wf v)"

definition srvc_received :: "vsrvcInfo \<Rightarrow> vsrvcInfo \<Rightarrow> vsrvcInfo" where
  "srvc_received s old = \<lparr>si_hash = si_hash s, si_hostid = si_hostid s, si_nice = si_nice s,
     si_proto = si_proto s, si_naddrs = si_naddrs s, si_capc = si_capc s,
     si_addrs = si_list s @ drop (nat (si_naddrs s)) (si_addrs old), si_heap = si_heap old\<rparr>"

lemma vsrvcInfo_size_nat:
  "srvc_wf s \<Longrightarrow> vsrvcInfo_size s = int (48 + 20 * nat (si_naddrs s))"
  by (simp add: vsrvcInfo_size_def srvc_wf_def)

lemma srvc_buf_spec:
  assumes "srvc_sendable s"
  shows "be_create_srvc_buf s = Some (BeStr (srvc_header s @ slots_image (si_list s)))"
proof -
  let ?k = "nat (si_naddrs s)"
  have w: "srvc_wf s" "\<forall>v \<in> set (si_addrs s). slot_wf v" "?k \<le> length (si_addrs s)"
    using assms by (auto simp: srvc_sendable_def srvc_wf_def)
  have h: "length (srvc_header s) = 48" using srvc_wf_tok [OF w(1)] by simp
  then have "take (48 + 20 * ?k) (srvc_image s) = srvc_header s @ slots_image (si_list s)"
    using take_slots_image [OF w(2,3)] by (simp add: srvc_image_eq si_list_def)
  moreover have "0 < length (srvc_header s @ slots_image (si_list s))" using h by simp
  moreover have "48 + 20 * ?k \<le> length (srvc_image s)" using w(2,3) h by (simp add: srvc_image_eq)
  ultimately show ?thesis
    unfolding be_create_srvc_buf_def be_create_buf_def vsrvcInfo_size_nat [OF w(1)] nat_int by simp
qed

lemma srvc_parse_received:
  assumes "srvc_sendable s" "srvc_room old"
  shows "srvc_parse old (srvc_header s @ slots_image (si_list s) @
      drop (48 + 20 * nat (si_naddrs s)) (srvc_image old)) = srvc_received s old"
proof -
  let ?k = "nat (si_naddrs s)"
  have w: "srvc_wf s" "\<forall>v \<in> set (si_addrs s). slot_wf v" "?k \<le> 12"
      "int16_ok (si_nice s)" "int16_ok (si_proto s)"
    using assms(1) srvc_wf_le by (fastforce simp: srvc_sendable_def)+
  have o: "\<forall>v \<in> set (si_addrs old). slot_wf v" "?k \<le> length (si_addrs old)"
      "length (srvc_header old) = 48" "length (si_addrs old) = 12"
    using assms(2) w by (simp_all add: srvc_room_def)
  have i: "int16_ok (si_naddrs s)" "int16_ok (si_capc s)" "length (si_hash s) = 20" "length (si_hostid s) = 20"
    using w(1) srvc_wf_le [OF w(1)]
    by (auto simp: int16_ok_def srvc_wf_def tok_wf_def VTOKEN_LEN_def split: if_splits)
  have d: "drop (48 + 20 * ?k) (srvc_image old) = slots_image (drop ?k (si_addrs old))"
    using drop_slots_image [OF o(1,2)] o(3) by (simp add: srvc_image_eq)
  let ?xs = "si_list s @ drop ?k (si_addrs old)"
  have "\<forall>v \<in> set ?xs. slot_wf v" using w(2) o(1) by (auto simp: si_list_def dest: in_set_takeD in_set_dropD)
  moreover have "length ?xs = length (si_addrs old)"
    using length_si_list [OF w(1)] o(4) w(3) by simp
  ultimately have "slots_parse (length (si_addrs old)) (slots_image ?xs) = ?xs"
    using slots_parse_image [of ?xs "[]"] by simp
  then show ?thesis
    unfolding d using i w(4,5) by (simp add: srvc_parse_def srvc_received_def srvc_header_def)
qed

subsection \<open>The shape of a message\<close>

definition msg_tree :: "vnonce \<Rightarrow> string \<Rightarrow> string \<Rightarrow> (bytes \<times> be_node) list \<Rightarrow> be_node" where
  "msg_tree nonce y name args =
     BeDict [(cstr ''t'', BeStr nonce), (cstr ''y'', BeStr (cstr y)), (cstr y, BeStr (cstr name)),
             (cstr ''a'', BeDict args)]"

lemma enc_begin_eq:
  "nonce_wf nonce \<Longrightarrow> enc_begin nonce y name =
     Some (Some (BeDict [(cstr ''t'', BeStr nonce), (cstr ''y'', BeStr (cstr y)), (cstr y, BeStr (cstr name))]))"
  by (auto simp: enc_begin_def be_create_buf_def be_create_str_def nonce_wf_def VNONCE_LEN_def)

lemma enc_id_eq: "tok_wf src \<Longrightarrow> enc_id src = Some (BeDict [(cstr ''id'', BeStr src)])"
  by (auto simp: enc_id_def be_create_buf_def tok_wf_def VTOKEN_LEN_def)

lemma enc_end_eq:
  "enc_end (Some (BeDict [(cstr ''t'', BeStr nonce), (cstr ''y'', BeStr (cstr y)), (cstr y, BeStr (cstr name))]))
     (BeDict args) sz = be_encode (msg_tree nonce y name args) sz"
  by (simp add: enc_end_def msg_tree_def)

lemma tok_buf_eq: "tok_wf t \<Longrightarrow> be_create_buf t = Some (BeStr t)"
  by (auto simp: be_create_buf_def tok_wf_def VTOKEN_LEN_def)

lemma va_buf_eq: "slot_wf v \<Longrightarrow> be_create_buf (va_image v) = Some (BeStr (va_image v))"
  using length_va_image [of v] by (auto simp: be_create_buf_def)

text \<open>The arguments of a message: the message is at most 47 bytes longer than they are.\<close>

definition args_wf :: "(bytes \<times> be_node) list \<Rightarrow> bool" where
  "args_wf args \<longleftrightarrow> be_wf (BeDict args)"

lemma dec_nat_small [simp]:
  "n < 10 \<Longrightarrow> length (dec_nat n) = 1"
  "10 \<le> n \<Longrightarrow> n < 100 \<Longrightarrow> length (dec_nat n) = 2"
  by (subst dec_nat.simps; simp)+

lemma dec_nat_3: "n < 1000 \<Longrightarrow> length (dec_nat n) \<le> 3"
proof -
  assume "n < 1000"
  then have "n div 10 < 100" by simp
  then have "length (dec_nat (n div 10)) \<le> 2" by (cases "n div 10 < 10") auto
  then show ?thesis by (subst dec_nat.simps) simp
qed

lemma msg_tree_size:
  assumes "nonce_wf nonce" "y = ''q'' \<or> y = ''r''" "length name \<le> 18" "0 \<notin> set (cstr name)"
  shows "length (be_enc (msg_tree nonce y name args)) \<le> 47 + length (be_enc_items args)"
proof -
  have "length (dec_nat (length (cstr name))) \<le> 2"
    using assms(3) by (cases "length name < 10") (auto simp: cstr_def)
  then show ?thesis
    using assms(1,2,3) unfolding msg_tree_def
    by (auto simp: be_enc_BeDict nonce_wf_def VNONCE_LEN_def cstr_def simp del: be_enc.simps(4))
qed

text \<open>Sending a message and beginning to decode it.\<close>

definition kind_of :: "string \<Rightarrow> string \<Rightarrow> int" where
  "kind_of y name = (if y = ''q'' then vdht_get_queryId (cstr name) else vdht_get_rspId (cstr name))"

lemma msg_transfer:
  assumes "nonce_wf nonce" "y = ''q'' \<or> y = ''r''" "length name \<le> 18" "0 \<notin> set (cstr name)"
    and args: "args_wf args" "47 + length (be_enc_items args) < sz"
    and kind: "kind_of y name = k" "0 \<le> k" "k < VDHT_UNKNOWN"
  shows "\<exists>s. be_encode (msg_tree nonce y name args) (int sz) = Some (Some s) \<and> length s < sz \<and>
    vdht_dec_begin (s @ rest) (int (length s)) = Some (Some (k, msg_tree nonce y name args))"
proof -
  let ?t = "msg_tree nonce y name args"
  have wf: "be_wf ?t"
    using assms(1-4) args(1) by (auto simp: msg_tree_def args_wf_def nonce_wf_def VNONCE_LEN_def cstr_def)
  have len: "length (be_enc ?t) < sz"
    using msg_tree_size [OF assms(1-4), of args] args(2) by simp
  have "be_encode ?t (int sz) = Some (Some (be_enc ?t))"
    using be_encode_spec(1) [of ?t "int sz"] len by simp
  moreover have "be_decode (be_enc ?t @ rest) (int (length (be_enc ?t))) = Some (Some ?t)"
    using be_decode_enc [OF wf] by simp
  moreover have "aux_unpack_dhtId ?t = Some k"
    using assms(2,4) kind(1) by (auto simp: msg_tree_def aux_unpack_dhtId_def kind_of_def)
  moreover have "0 < length (be_enc ?t)" by (simp add: msg_tree_def)
  ultimately show ?thesis
    using len kind by (intro exI [of _ "be_enc ?t"]) (simp add: vdht_dec_begin_def)
qed


subsection \<open>Round trips\<close>

text \<open>One round trip for each shape of the arguments; the messages are its instances.\<close>

lemma dec_buf_hit:
  assumes "be_find_node dict key = Some (Some (BeStr s))" "0 < len" "length s \<le> len" "length s \<le> length buf"
  shows "dec_buf dict key buf len = Some (s @ drop (length s) buf)"
  using assms by (simp add: dec_buf_def)

lemma dec_nonce:
  "\<lbrakk>nonce_wf nonce; nonce_wf n0\<rbrakk> \<Longrightarrow>
     dec_buf (Some (msg_tree nonce y name args)) ''t'' n0 VNONCE_LEN = Some nonce"
  by (subst dec_buf_hit [where s = nonce]) (auto simp: msg_tree_def nonce_wf_def VNONCE_LEN_def)

lemma find_args:
  "y = ''q'' \<or> y = ''r'' \<Longrightarrow> be_find_node (Some (msg_tree nonce y name args)) ''a'' = Some (Some (BeDict args))"
  by (auto simp: msg_tree_def)

lemma dec_tok:
  assumes "be_find_in args (cstr key) = Some (BeStr t)" "tok_wf t" "tok_wf t0"
  shows "dec_buf (Some (BeDict args)) key t0 VTOKEN_LEN = Some t"
  using assms by (subst dec_buf_hit [where s = t]) (auto simp: tok_wf_def VTOKEN_LEN_def)

lemma dec_hash:
  assumes "be_find_in args (cstr key) = Some (BeStr t)" "tok_wf t" "tok_wf t0"
  shows "dec_buf (Some (BeDict args)) key t0 VSRVCHASH_LEN = Some t"
  using dec_tok [OF assms] by (simp add: VSRVCHASH_LEN_def VTOKEN_LEN_def)

lemma dec_addr:
  assumes "be_find_in args (cstr key) = Some (BeStr (va_image v))" "slot_wf v" "slot_wf v0"
  shows "dec_buf (Some (BeDict args)) key (va_image v0) sizeof_vsockaddr = Some (va_image v)"
  using assms by (subst dec_buf_hit [where s = "va_image v"]) (auto simp: sizeof_vsockaddr_def)

definition node_bytes :: "vnodeInfo \<Rightarrow> bytes" where
  "node_bytes n = node_header n @ slots_image (ni_list n)"

definition srvc_bytes :: "vsrvcInfo \<Rightarrow> bytes" where
  "srvc_bytes s = srvc_header s @ slots_image (si_list s)"

lemma length_node_bytes:
  assumes "node_sendable n"
  shows "length (node_bytes n) = 48 + 20 * nat (ni_naddrs n)"
proof -
  have "\<forall>v \<in> set (ni_list n). slot_wf v"
    using assms by (auto simp: ni_list_def node_sendable_def dest: in_set_takeD)
  moreover have "node_wf n" using assms by (simp add: node_sendable_def)
  ultimately show ?thesis using node_wf_tok length_ni_list by (simp add: node_bytes_def)
qed

lemma length_srvc_bytes:
  assumes "srvc_sendable n"
  shows "length (srvc_bytes n) = 48 + 20 * nat (si_naddrs n)"
proof -
  have "\<forall>v \<in> set (si_list n). slot_wf v"
    using assms by (auto simp: si_list_def srvc_sendable_def dest: in_set_takeD)
  moreover have "srvc_wf n" using assms by (simp add: srvc_sendable_def)
  ultimately show ?thesis using srvc_wf_tok length_si_list by (simp add: srvc_bytes_def)
qed

lemma node_bytes_le: "node_sendable n \<Longrightarrow> length (node_bytes n) \<le> 288"
  using node_wf_le [of n] by (auto simp: length_node_bytes node_sendable_def)

lemma srvc_bytes_le: "srvc_sendable n \<Longrightarrow> length (srvc_bytes n) \<le> 288"
  using srvc_wf_le [of n] by (auto simp: length_srvc_bytes srvc_sendable_def)

lemma unpack_node:
  assumes "node_sendable n" "node_room old"
  shows "\<exists>b. be_unpack_buf (Some (BeStr (node_bytes n))) (node_image old) sizeof_relax = Some (0, b) \<and>
    node_parse old b = node_received n old"
proof -
  have "length (node_image old) = 288"
    using assms(2) by (simp add: node_image_eq node_room_def)
  then show ?thesis
    using node_parse_received [OF assms] node_bytes_le [OF assms(1)] length_node_bytes [OF assms(1)]
    by (simp add: sizeof_relax_def node_bytes_def)
qed

lemma unpack_srvc:
  assumes "srvc_sendable n" "srvc_room old"
  shows "\<exists>b. be_unpack_buf (Some (BeStr (srvc_bytes n))) (srvc_image old) sizeof_relax = Some (0, b) \<and>
    srvc_parse old b = srvc_received n old"
proof -
  have "length (srvc_image old) = 288"
    using assms(2) by (simp add: srvc_image_eq srvc_room_def)
  then show ?thesis
    using srvc_parse_received [OF assms] srvc_bytes_le [OF assms(1)] length_srvc_bytes [OF assms(1)]
    by (simp add: sizeof_relax_def srvc_bytes_def)
qed

lemma dec_node_hit:
  assumes "be_find_in args (cstr key) = Some (BeStr (node_bytes n))" "node_sendable n" "node_room old"
  shows "dec_node (Some (BeDict args)) key old = Some (node_received n old)"
  using unpack_node [OF assms(2,3)] assms(1) by (auto simp: dec_node_def dec_buf_def simp del: be_unpack_buf.simps)

lemma dec_srvc_hit:
  assumes "be_find_in args (cstr key) = Some (BeStr (srvc_bytes n))" "srvc_sendable n" "srvc_room old"
  shows "dec_srvc (Some (BeDict args)) key old = Some (srvc_received n old)"
  using unpack_srvc [OF assms(2,3)] assms(1) by (auto simp: dec_srvc_def dec_buf_def simp del: be_unpack_buf.simps)

lemma until_nul_ids [simp]:
  "until_nul [105, 100] = [105, 100]" "until_nul [109] = [109]"
  by (simp_all add: until_nul_def)

lemma args_id_wf: "tok_wf t \<Longrightarrow> args_wf [(cstr ''id'', BeStr t)]"
  by (simp add: args_wf_def tok_wf_def VTOKEN_LEN_def)

lemma args_id_size: "tok_wf t \<Longrightarrow> length (be_enc_items [(cstr ''id'', BeStr t)]) = 27"
  by (simp add: tok_wf_def VTOKEN_LEN_def)

lemma args2_wf:
  "\<lbrakk>tok_wf t; key = ''target'' \<or> key = ''node'' \<or> key = ''m'' \<or> key = ''service'' \<or> key = ''nodes''; be_wf n\<rbrakk> \<Longrightarrow>
     args_wf [(cstr ''id'', BeStr t), (cstr key, n)]"
  by (auto simp: args_wf_def tok_wf_def VTOKEN_LEN_def)

lemma args2_size:
  "\<lbrakk>tok_wf t; key = ''target'' \<or> key = ''node'' \<or> key = ''m'' \<or> key = ''service'' \<or> key = ''nodes''\<rbrakk> \<Longrightarrow>
     length (be_enc_items [(cstr ''id'', BeStr t), (cstr key, n)]) \<le> 37 + length (be_enc n)"
  by (auto simp: tok_wf_def VTOKEN_LEN_def)

lemma length_be_enc_str: "length s < 1000 \<Longrightarrow> length (be_enc (BeStr s)) \<le> 4 + length s"
  using dec_nat_3 [of "length s"] by simp


lemma kind_of_simps [simp]:
  "kind_of ''q'' ''ping'' = VDHT_PING" "kind_of ''r'' ''ping'' = VDHT_PING_R"
  "kind_of ''q'' ''find_node'' = VDHT_FIND_NODE" "kind_of ''r'' ''find_node'' = VDHT_FIND_NODE_R"
  "kind_of ''q'' ''find_closest_nodes'' = VDHT_FIND_CLOSEST_NODES"
  "kind_of ''r'' ''find_closest_nodes'' = VDHT_FIND_CLOSEST_NODES_R"
  "kind_of ''q'' ''reflex'' = VDHT_REFLEX" "kind_of ''r'' ''reflex'' = VDHT_REFLEX_R"
  "kind_of ''q'' ''probe'' = VDHT_PROBE" "kind_of ''r'' ''probe'' = VDHT_PROBE_R"
  "kind_of ''q'' ''post_service'' = VDHT_POST_SERVICE"
  "kind_of ''q'' ''find_service'' = VDHT_FIND_SERVICE"
  "kind_of ''r'' ''find_service'' = VDHT_FIND_SERVICE_R"
  unfolding kind_of_def using query_ids rsp_ids by auto

text \<open>A message \<open>m\<close> of kind \<open>k\<close> sent with the buffer's size arrives, with anything behind it in
  the receiver's buffer, as the dictionary from which \<open>dec\<close> reads \<open>v\<close>.\<close>

definition arrives :: "bytes option option \<Rightarrow> int \<Rightarrow> (be_node \<Rightarrow> 'r option) \<Rightarrow> 'r \<Rightarrow> bytes \<Rightarrow> bool" where
  "arrives m k dec v rest \<longleftrightarrow>
     (\<exists>s dict. m = Some (Some s) \<and> int (length s) < vdht_buf_len \<and>
        vdht_dec_begin (s @ rest) (int (length s)) = Some (Some (k, dict)) \<and> dec dict = Some v)"

lemma arrivesI:
  assumes "m = be_encode (msg_tree nonce y name args) vdht_buf_len"
    "nonce_wf nonce" "y = ''q'' \<or> y = ''r''" "length name \<le> 18" "0 \<notin> set (cstr name)"
    "args_wf args" "length (be_enc_items args) < 4000"
    "kind_of y name = k" "0 \<le> k" "k < VDHT_UNKNOWN"
    "dec (msg_tree nonce y name args) = Some v"
  shows "arrives m k dec v rest"
  using msg_transfer [OF assms(2-6), of 4088 k rest] assms
  by (auto simp: arrives_def vdht_buf_len_def BUF_SZ_def)

lemma names_no_nul [simp]:
  "0 \<notin> set (cstr ''ping'')" "0 \<notin> set (cstr ''find_node'')" "0 \<notin> set (cstr ''find_closest_nodes'')"
  "0 \<notin> set (cstr ''reflex'')" "0 \<notin> set (cstr ''probe'')" "0 \<notin> set (cstr ''post_service'')"
  "0 \<notin> set (cstr ''find_service'')"
  by simp_all

lemma find_keys [simp]:
  "be_find_in ((cstr ''id'', n) # d) (cstr ''id'') = Some n"
  "be_find_in [(cstr ''id'', m), (cstr ''target'', n)] (cstr ''target'') = Some n"
  "be_find_in [(cstr ''id'', m), (cstr ''node'', n)] (cstr ''node'') = Some n"
  "be_find_in [(cstr ''id'', m), (cstr ''nodes'', n)] (cstr ''nodes'') = Some n"
  "be_find_in [(cstr ''id'', m), (cstr ''service'', n)] (cstr ''service'') = Some n"
  "be_find_in [(cstr ''id'', m), (cstr ''m'', n)] (cstr ''m'') = Some n"
  by simp_all

lemma args_tok_small:
  assumes "tok_wf t" "tok_wf u" "key = ''target'' \<or> key = ''node'' \<or> key = ''m'' \<or> key = ''service'' \<or> key = ''nodes''"
  shows "length (be_enc_items [(cstr ''id'', BeStr t), (cstr key, BeStr u)]) < 4000"
proof -
  have "length (be_enc (BeStr u)) \<le> 24"
    using assms(2) length_be_enc_str [of u] by (simp add: tok_wf_def VTOKEN_LEN_def)
  then show ?thesis using args2_size [OF assms(1,3), of "BeStr u"] by linarith
qed

lemma args_str_small:
  assumes "tok_wf t" "length u \<le> 288"
    "key = ''target'' \<or> key = ''node'' \<or> key = ''m'' \<or> key = ''service'' \<or> key = ''nodes''"
  shows "length (be_enc_items [(cstr ''id'', BeStr t), (cstr key, BeStr u)]) < 4000"
proof -
  have "length (be_enc (BeStr u)) \<le> 292"
    using assms(2) length_be_enc_str [of u] by simp
  then show ?thesis using args2_size [OF assms(1,3), of "BeStr u"] by linarith
qed

lemma tok_be_wf: "tok_wf t \<Longrightarrow> be_wf (BeStr t)"
  by (simp add: tok_wf_def VTOKEN_LEN_def)

lemma str_be_wf: "length u \<le> 288 \<Longrightarrow> be_wf (BeStr u)"
  by simp

lemma add_arg: "be_add_keypair (BeDict d) key n = Some (BeDict (d @ [(cstr key, n)]))"
  by simp

lemma node_buf_eq: "node_sendable n \<Longrightarrow> be_create_node_buf n = Some (BeStr (node_bytes n))"
  by (simp add: node_buf_spec node_bytes_def)

lemma srvc_buf_eq: "srvc_sendable n \<Longrightarrow> be_create_srvc_buf n = Some (BeStr (srvc_bytes n))"
  by (simp add: srvc_buf_spec srvc_bytes_def)

lemmas enc_eqs = enc_begin_eq enc_id_eq enc_end_eq tok_buf_eq va_buf_eq node_buf_eq srvc_buf_eq add_arg

lemmas dec_args =
  dec_tok [OF find_keys(1)] dec_tok [OF find_keys(2)] dec_hash [OF find_keys(2)]
  dec_node_hit [OF find_keys(3)] dec_srvc_hit [OF find_keys(5)] dec_addr [OF find_keys(6)]

lemmas dec_eqs = dec_nonce find_args dec_args

lemmas size_eqs = args_id_wf args_id_size args2_wf args_tok_small args_str_small tok_be_wf str_be_wf
  node_bytes_le srvc_bytes_le

lemma buf_len_pos [simp]: "0 < vdht_buf_len"
  by (simp add: vdht_buf_len_def BUF_SZ_def)

lemmas unfold_less = cstr_keys cstr_names be_enc_items_simps be_add_keypair.simps be_wf.simps

text \<open>Messages that carry only the sender's ID.\<close>

lemma ping_arrives:
  assumes "nonce_wf nonce" "tok_wf src" "nonce_wf n0" "tok_wf t0"
  shows "arrives (vdht_enc_ping nonce src vdht_buf_len) VDHT_PING
    (\<lambda>d. vdht_dec_ping d n0 t0) (nonce, src) rest"
  by (rule arrivesI [where nonce = nonce and y = "''q''" and name = "''ping''" and
        args = "[(cstr ''id'', BeStr src)]"])
    (use assms in \<open>simp_all add: vdht_enc_ping_def vdht_dec_ping_def enc_eqs dec_eqs size_eqs
      del: unfold_less\<close>)

lemma reflex_arrives:
  assumes "nonce_wf nonce" "tok_wf src" "nonce_wf n0" "tok_wf t0"
  shows "arrives (vdht_enc_reflex nonce src vdht_buf_len) VDHT_REFLEX
    (\<lambda>d. vdht_dec_reflex d n0 t0) (nonce, src) rest"
  by (rule arrivesI [where nonce = nonce and y = "''q''" and name = "''reflex''" and
        args = "[(cstr ''id'', BeStr src)]"])
    (use assms in \<open>simp_all add: vdht_enc_reflex_def vdht_dec_reflex_def enc_eqs dec_eqs size_eqs
      del: unfold_less\<close>)

lemma probe_rsp_arrives:
  assumes "nonce_wf nonce" "tok_wf src" "nonce_wf n0" "tok_wf t0"
  shows "arrives (vdht_enc_probe_rsp nonce src vdht_buf_len) VDHT_PROBE_R
    (\<lambda>d. vdht_dec_probe_rsp d n0 t0) (nonce, src) rest"
  by (rule arrivesI [where nonce = nonce and y = "''r''" and name = "''probe''" and
        args = "[(cstr ''id'', BeStr src)]"])
    (use assms in \<open>simp_all add: vdht_enc_probe_rsp_def vdht_dec_probe_rsp_def enc_eqs dec_eqs size_eqs
      del: unfold_less\<close>)

text \<open>Queries with a target.\<close>

lemma find_node_arrives:
  assumes "nonce_wf nonce" "tok_wf src" "tok_wf target" "nonce_wf n0" "tok_wf t0" "tok_wf t1"
  shows "arrives (vdht_enc_find_node nonce src target vdht_buf_len) VDHT_FIND_NODE
    (\<lambda>d. vdht_dec_find_node d n0 t0 t1) (nonce, src, target) rest"
  by (rule arrivesI [where nonce = nonce and y = "''q''" and name = "''find_node''" and
        args = "[(cstr ''id'', BeStr src), (cstr ''target'', BeStr target)]"])
    (use assms in \<open>simp_all add: vdht_enc_find_node_def vdht_dec_find_node_def enc_eqs dec_eqs size_eqs
      del: unfold_less\<close>)

lemma find_closest_nodes_arrives:
  assumes "nonce_wf nonce" "tok_wf src" "tok_wf target" "nonce_wf n0" "tok_wf t0" "tok_wf t1"
  shows "arrives (vdht_enc_find_closest_nodes nonce src target vdht_buf_len) VDHT_FIND_CLOSEST_NODES
    (\<lambda>d. vdht_dec_find_closest_nodes d n0 t0 t1) (nonce, src, target) rest"
  by (rule arrivesI [where nonce = nonce and y = "''q''" and name = "''find_closest_nodes''" and
        args = "[(cstr ''id'', BeStr src), (cstr ''target'', BeStr target)]"])
    (use assms in \<open>simp_all add: vdht_enc_find_closest_nodes_def vdht_dec_find_closest_nodes_def
      enc_eqs dec_eqs size_eqs del: unfold_less\<close>)

lemma probe_arrives:
  assumes "nonce_wf nonce" "tok_wf src" "tok_wf target" "nonce_wf n0" "tok_wf t0" "tok_wf t1"
  shows "arrives (vdht_enc_probe nonce src target vdht_buf_len) VDHT_PROBE
    (\<lambda>d. vdht_dec_probe d n0 t0 t1) (nonce, src, target) rest"
  by (rule arrivesI [where nonce = nonce and y = "''q''" and name = "''probe''" and
        args = "[(cstr ''id'', BeStr src), (cstr ''target'', BeStr target)]"])
    (use assms in \<open>simp_all add: vdht_enc_probe_def vdht_dec_probe_def enc_eqs dec_eqs size_eqs
      del: unfold_less\<close>)

lemma find_service_arrives:
  assumes "nonce_wf nonce" "tok_wf src" "tok_wf hash" "nonce_wf n0" "tok_wf t0" "tok_wf t1"
  shows "arrives (vdht_enc_find_service nonce src hash vdht_buf_len) VDHT_FIND_SERVICE
    (\<lambda>d. vdht_dec_find_service d n0 t0 t1) (nonce, src, hash) rest"
  by (rule arrivesI [where nonce = nonce and y = "''q''" and name = "''find_service''" and
        args = "[(cstr ''id'', BeStr src), (cstr ''target'', BeStr hash)]"])
    (use assms in \<open>simp_all add: vdht_enc_find_service_def vdht_dec_find_service_def enc_eqs dec_eqs size_eqs
      del: unfold_less\<close>)

text \<open>Messages with a node info, a service info or an address.\<close>

lemma ping_rsp_arrives:
  assumes "nonce_wf nonce" "tok_wf src" "node_sendable n" "nonce_wf n0" "node_room old"
  shows "arrives (vdht_enc_ping_rsp nonce src n vdht_buf_len) VDHT_PING_R
    (\<lambda>d. vdht_dec_ping_rsp d n0 old) (nonce, node_received n old) rest"
  by (rule arrivesI [where nonce = nonce and y = "''r''" and name = "''ping''" and
        args = "[(cstr ''id'', BeStr src), (cstr ''node'', BeStr (node_bytes n))]"])
    (use assms in \<open>simp_all add: vdht_enc_ping_rsp_def vdht_dec_ping_rsp_def enc_eqs dec_eqs size_eqs
      del: unfold_less\<close>)

lemma find_node_rsp_arrives:
  assumes "nonce_wf nonce" "tok_wf src" "node_sendable n" "nonce_wf n0" "tok_wf t0" "node_room old"
  shows "arrives (vdht_enc_find_node_rsp nonce src n vdht_buf_len) VDHT_FIND_NODE_R
    (\<lambda>d. vdht_dec_find_node_rsp d n0 t0 old) (nonce, src, node_received n old) rest"
  by (rule arrivesI [where nonce = nonce and y = "''r''" and name = "''find_node''" and
        args = "[(cstr ''id'', BeStr src), (cstr ''node'', BeStr (node_bytes n))]"])
    (use assms in \<open>simp_all add: vdht_enc_find_node_rsp_def vdht_dec_find_node_rsp_def enc_eqs dec_eqs
      size_eqs del: unfold_less\<close>)

lemma post_service_arrives:
  assumes "nonce_wf nonce" "tok_wf src" "srvc_sendable s" "nonce_wf n0" "tok_wf t0" "srvc_room old"
  shows "arrives (vdht_enc_post_service nonce src s vdht_buf_len) VDHT_POST_SERVICE
    (\<lambda>d. vdht_dec_post_service d n0 t0 old) (nonce, src, srvc_received s old) rest"
  by (rule arrivesI [where nonce = nonce and y = "''q''" and name = "''post_service''" and
        args = "[(cstr ''id'', BeStr src), (cstr ''service'', BeStr (srvc_bytes s))]"])
    (use assms in \<open>simp_all add: vdht_enc_post_service_def vdht_dec_post_service_def enc_eqs dec_eqs
      size_eqs del: unfold_less\<close>)

lemma find_service_rsp_arrives:
  assumes "nonce_wf nonce" "tok_wf src" "srvc_sendable s" "nonce_wf n0" "tok_wf t0" "srvc_room old"
  shows "arrives (vdht_enc_find_service_rsp nonce src s vdht_buf_len) VDHT_FIND_SERVICE_R
    (\<lambda>d. vdht_dec_find_service_rsp d n0 t0 old) (nonce, src, srvc_received s old) rest"
  by (rule arrivesI [where nonce = nonce and y = "''r''" and name = "''find_service''" and
        args = "[(cstr ''id'', BeStr src), (cstr ''service'', BeStr (srvc_bytes s))]"])
    (use assms in \<open>simp_all add: vdht_enc_find_service_rsp_def vdht_dec_find_service_rsp_def enc_eqs
      dec_eqs size_eqs del: unfold_less\<close>)

lemma reflex_rsp_arrives:
  assumes "nonce_wf nonce" "tok_wf src" "slot_wf v" "nonce_wf n0" "tok_wf t0" "slot_wf v0"
  shows "arrives (vdht_enc_reflex_rsp nonce src v vdht_buf_len) VDHT_REFLEX_R
    (\<lambda>d. vdht_dec_reflex_rsp d n0 t0 v0) (nonce, src, v) rest"
  by (rule arrivesI [where nonce = nonce and y = "''r''" and name = "''reflex''" and
        args = "[(cstr ''id'', BeStr src), (cstr ''m'', BeStr (va_image v))]"])
    (use assms in \<open>simp_all add: vdht_enc_reflex_rsp_def vdht_dec_reflex_rsp_def enc_eqs dec_eqs
      size_eqs del: unfold_less\<close>)


text \<open>The answer to \<open>find_closest_nodes\<close>: a list of node infos.\<close>

lemma enc_node_list_spec:
  assumes "va_wf closest" "\<forall>n \<in> set (va_list closest). node_sendable n" "i + k = length (va_list closest)"
  shows "enc_node_list k (int i) closest (BeList l) =
    Some (BeList (l @ map (\<lambda>n. BeStr (node_bytes n)) (drop i (va_list closest))))"
  using assms(3)
proof (induction k arbitrary: i l)
  case (Suc k)
  then have "i < length (va_list closest)" by simp
  moreover from this have "node_sendable (va_list closest ! i)" using assms(2) by simp
  moreover have "drop i (va_list closest) = va_list closest ! i # drop (Suc i) (va_list closest)"
    using calculation(1) by (simp add: Cons_nth_drop_Suc)
  moreover have "enc_node_list k (int i + 1) closest (BeList m) =
      Some (BeList (m @ map (\<lambda>n. BeStr (node_bytes n)) (drop (Suc i) (va_list closest))))" for m
    using Suc.IH [of "Suc i" m] Suc.prems by (simp add: add.commute)
  ultimately show ?case
    using varray_get_spec [OF assms(1), of i]
    by (simp add: node_buf_eq del: va_list_length varray_get_spec)
qed simp

definition relax_zero :: vnodeInfo where
  "relax_zero = \<lparr>ni_id = replicate 20 0, ni_ver = replicate 20 0, ni_weight = 0, ni_naddrs = 0,
     ni_capc = VNODEINFO_MAX_ADDRS, ni_addrs = replicate 12 vsockaddr_zero, ni_heap = False\<rparr>"

lemma relax_alloc_zero [simp]: "vnodeInfo_relax_alloc True = Some relax_zero"
  by (simp add: vnodeInfo_relax_alloc_def relax_zero_def)

lemma relax_zero_room [simp]: "node_room relax_zero"
  by (simp add: node_room_def relax_zero_def tok_wf_def VTOKEN_LEN_def slot_wf_def
      vsockaddr_zero_def sockaddr_zero_def)

lemma dec_node_list_spec:
  assumes "\<forall>n \<in> set ns. node_sendable n" "va_wf closest"
  shows "\<exists>closest'. dec_node_list (\<lambda>_. True) True i (map (\<lambda>n. BeStr (node_bytes n)) ns) closest = Some closest' \<and>
    va_wf closest' \<and> va_list closest' = va_list closest @ map (\<lambda>n. node_received n relax_zero) ns"
  using assms
proof (induction ns arbitrary: i closest)
  case (Cons n ns)
  obtain b where b: "be_unpack_buf (Some (BeStr (node_bytes n))) (node_image relax_zero) sizeof_relax = Some (0, b)"
      "node_parse relax_zero b = node_received n relax_zero"
    using unpack_node [OF _ relax_zero_room] Cons.prems by auto
  obtain c where c: "varray_add_tail True closest (Some (node_received n relax_zero)) = Some (0, c)" "va_wf c"
      "va_list c = va_list closest @ [node_received n relax_zero]"
    by (rule varray_add_tail_spec [OF Cons.prems(2), of "node_received n relax_zero"])
  show ?case
    using Cons.IH [of c "i + 1"] Cons.prems b c by (simp del: be_unpack_buf.simps)
qed simp

lemma node_list_size:
  "\<forall>n \<in> set ns. node_sendable n \<Longrightarrow>
     length (be_enc (BeList (map (\<lambda>n. BeStr (node_bytes n)) ns))) \<le> 2 + 292 * length ns"
proof (induction ns)
  case (Cons n ns)
  have "length (node_bytes n) \<le> 288" using Cons.prems node_bytes_le by simp
  then have "length (be_enc (BeStr (node_bytes n))) \<le> 292"
    using length_be_enc_str [of "node_bytes n"] by linarith
  with Cons show ?case by simp
qed simp

lemma find_closest_nodes_rsp_arrives:
  assumes "nonce_wf nonce" "tok_wf src" "va_wf closest" "\<forall>n \<in> set (va_list closest). node_sendable n"
    "length (va_list closest) \<le> 13" "nonce_wf n0" "tok_wf t0"
  shows "\<exists>received. va_list received = map (\<lambda>n. node_received n relax_zero) (va_list closest) \<and>
    arrives (vdht_enc_find_closest_nodes_rsp nonce src closest vdht_buf_len) VDHT_FIND_CLOSEST_NODES_R
      (\<lambda>d. vdht_dec_find_closest_nodes_rsp (\<lambda>_. True) True d n0 t0 (varray_init 0)) (nonce, src, received) rest"
proof -
  let ?ns = "va_list closest"
  let ?l = "map (\<lambda>n. BeStr (node_bytes n)) ?ns"
  obtain r where r: "dec_node_list (\<lambda>_. True) True 0 ?l (varray_init 0) = Some r" "va_wf r"
      "va_list r = map (\<lambda>n. node_received n relax_zero) ?ns"
    using dec_node_list_spec [OF assms(4), of "varray_init 0" 0] by auto
  have sz: "length (be_enc (BeList ?l)) \<le> 3798"
    using node_list_size [OF assms(4)] assms(5) by simp
  have small: "length (be_enc_items [(cstr ''id'', BeStr src), (cstr ''nodes'', BeList ?l)]) < 4000"
    using args2_size [OF assms(2), of "''nodes''" "BeList ?l"] sz
    by (simp del: be_enc.simps unfold_less)
  have "\<forall>n \<in> set ?ns. length (node_bytes n) \<le> 288" using assms(4) node_bytes_le by blast
  then have wf: "be_wf (BeList ?l)" by fastforce
  have keys: "until_nul (cstr ''nodes'') = cstr ''nodes''" "until_nul (cstr ''id'') = cstr ''id''"
      "cstr ''nodes'' \<noteq> cstr ''id''"
    by simp_all
  have enc: "enc_node_list (varray_size closest) 0 closest (BeList []) = Some (BeList ?l)"
    using enc_node_list_spec [OF assms(3,4), of 0 "varray_size closest" "[]"] va_size [OF assms(3)]
    by (simp del: va_size va_list_length)
  have "arrives (vdht_enc_find_closest_nodes_rsp nonce src closest vdht_buf_len) VDHT_FIND_CLOSEST_NODES_R
      (\<lambda>d. vdht_dec_find_closest_nodes_rsp (\<lambda>_. True) True d n0 t0 (varray_init 0)) (nonce, src, r) rest"
    by (rule arrivesI [where nonce = nonce and y = "''r''" and name = "''find_closest_nodes''" and
          args = "[(cstr ''id'', BeStr src), (cstr ''nodes'', BeList ?l)]"])
      (use assms(1,2,6,7) keys enc r(1) wf small in \<open>simp_all add: vdht_enc_find_closest_nodes_rsp_def
        vdht_dec_find_closest_nodes_rsp_def enc_eqs dec_eqs args2_wf
        del: unfold_less be_enc.simps va_size va_list_length\<close>)
  then show ?thesis using r(3) by blast
qed

end
