(* ===== verification/NodeSpace.thy ===== *)
theory NodeSpace
  imports DhtMsg
begin

section \<open>The node routing space (vroute_node.c)\<close>

text \<open>
  The routing table: 160 buckets of peers, the bucket of a node given by the XOR distance of its
  ID to our own. A peer is a node info with the connection last chosen for it and the counters of
  its pings. Operations that send messages do so through \<open>route->dht_ops\<close>: here a function \<open>dht\<close>
  from the call and the state \<open>'r\<close> of the rest of the route to the call's result and the new
  state. \<open>mem\<close> tells whether allocations succeed, \<open>now\<close> is the value of \<open>time(NULL)\<close>. The peers in
  the arrays are separate heap objects, each pointed to by one slot, so a change made through the
  pointer is a change of the slot's value.
\<close>

subsection \<open>Peers\<close>

record vpeer =
  vp_conn :: vnodeConn
  vp_nodei :: vnodeInfo
  vp_tick_ts :: int
  vp_next_tmo :: int
  vp_ntry_pings :: int
  vp_ntry_probes :: int

record node_bucket =
  bk_peers :: "vpeer varray"
  bk_ts :: int

record node_space =
  ns_myid :: vtoken
  ns_myver :: vtoken
  ns_zaddr :: sockaddr_in
  ns_bucket_sz :: int
  ns_init_next_tmo :: int
  ns_max_next_tmo :: int
  ns_max_next_tmo_unreachable :: int
  ns_next_tmo_step :: int
  ns_max_probe_tms :: int
  ns_max_ping_tms :: int
  ns_bucket :: "node_bucket list"

definition NBUCKETS :: nat where "NBUCKETS = VTOKEN_BITLEN"

definition VADD_BY_OTHER :: int where "VADD_BY_OTHER = 0"
definition VADD_BY_PING_RSP :: int where "VADD_BY_PING_RSP = 1"

text \<open>The calls of \<open>struct vroute_dht_ops\<close> the node space makes.\<close>

datatype dht_call =
    DhtPing vnodeConn
  | DhtFindNode vnodeConn vtoken
  | DhtFindClosestNodes vnodeConn vtoken
  | DhtReflex vnodeConn
  | DhtProbe vnodeConn vtoken
  | DhtPostService vnodeConn vsrvcInfo
  | DhtFindService vnodeConn vsrvcHash

definition conn_zero :: vnodeConn where
  "conn_zero = \<lparr>vc_priority = 0, vc_laddr = sockaddr_zero, vc_raddr = sockaddr_zero\<rparr>"

text \<open>The \<open>memset\<close> after \<open>vnodeInfo_alloc\<close> also clears the capacity.\<close>

definition vpeer_alloc :: "bool \<Rightarrow> vpeer option" where
  "vpeer_alloc mem =
     (case vnodeInfo_alloc mem of
        None \<Rightarrow> None
      | Some nodei \<Rightarrow>
          if \<not> mem then None
          else Some \<lparr>vp_conn = conn_zero, vp_nodei = nodei\<lparr>ni_capc := 0\<rparr>, vp_tick_ts = 0,
                     vp_next_tmo = 0, vp_ntry_pings = 0, vp_ntry_probes = 0\<rparr>)"

definition vpeer_init ::
  "bool \<Rightarrow> int \<Rightarrow> vpeer \<Rightarrow> node_space \<Rightarrow> vnodeInfo \<Rightarrow> (int \<times> vpeer) option" where
  "vpeer_init mem now peer space nodei = do {
     (ret, ni) \<leftarrow> vnodeInfo_copy mem (vp_nodei peer) nodei;
     worst \<leftarrow> vnodeInfo_worst_addr ni;
     Some (0, peer\<lparr>vp_nodei := ni, vp_conn := vnodeConn_set_raw (vp_conn peer) (ns_zaddr space) worst,
       vp_tick_ts := now, vp_next_tmo := ns_init_next_tmo space, vp_ntry_pings := 0,
       vp_ntry_probes := 0\<rparr>)
   }"

definition vminimum :: "int \<Rightarrow> int \<Rightarrow> int" where
  "vminimum x y = (if x \<ge> y then y else x)"

definition peer_flagged :: "int \<Rightarrow> vpeer \<Rightarrow> node_space \<Rightarrow> int \<Rightarrow> vpeer option" where
  "peer_flagged now peer space flag =
     (if flag = VADD_BY_PING_RSP then
        Some (peer\<lparr>vp_next_tmo :=
            (if vp_ntry_pings peer > 2 then ns_init_next_tmo space
             else vminimum (vp_next_tmo peer + ns_next_tmo_step space) (ns_max_next_tmo space)),
          vp_ntry_pings := 0, vp_tick_ts := now\<rparr>)
      else if flag = VADD_BY_OTHER then Some peer
      else None)"

definition vpeer_update ::
  "bool \<Rightarrow> int \<Rightarrow> vpeer \<Rightarrow> node_space \<Rightarrow> vnodeInfo \<Rightarrow> int \<Rightarrow> (int \<times> vpeer) option" where
  "vpeer_update mem now peer space nodei flag = do {
     peer \<leftarrow> peer_flagged now peer space flag;
     (ret, ni) \<leftarrow> vnodeInfo_merge mem (vp_nodei peer) nodei;
     let peer = peer\<lparr>vp_nodei := ni\<rparr>;
     if ret < 0 then Some (-1, peer)
     else if ret > 0 then do {
       worst \<leftarrow> vnodeInfo_worst_addr ni;
       Some (ret, peer\<lparr>vp_conn := vnodeConn_set_raw (vp_conn peer) (ns_zaddr space) worst,
                       vp_ntry_probes := 0\<rparr>)
     }
     else Some (ret, peer)
   }"

subsection \<open>Callbacks of the iterations\<close>

text \<open>The cookie of \<open>_aux_space_find_worst_nodei_cb\<close>; \<open>fw_pos\<close> is the position of the item in the
  array, and \<open>fw_want\<close> the position of the peer that \<open>want\<close> points to.\<close>

record find_worst =
  fw_pos :: nat
  fw_min_wgt :: int
  fw_max_try :: int
  fw_found :: bool
  fw_want :: "nat option"

definition aux_space_find_worst_nodei_cb ::
  "vtoken \<Rightarrow> vpeer \<Rightarrow> find_worst \<Rightarrow> (int \<times> vpeer \<times> find_worst) option" where
  "aux_space_find_worst_nodei_cb nid peer fw =
     (let next_fw = fw\<lparr>fw_pos := fw_pos fw + 1\<rparr>;
          here = Some (fw_pos fw)
      in if vtoken_equal (ni_id (vp_nodei peer)) nid then
           Some (1, peer, next_fw\<lparr>fw_want := here, fw_found := True\<rparr>)
         else if fw_max_try fw < vp_ntry_pings peer then
           Some (0, peer, next_fw\<lparr>fw_want := here, fw_max_try := vp_ntry_pings peer\<rparr>)
         else if fw_min_wgt fw > ni_weight (vp_nodei peer) then
           Some (0, peer, next_fw\<lparr>fw_want := here, fw_min_wgt := ni_weight (vp_nodei peer)\<rparr>)
         else Some (0, peer, next_fw))"

definition dht_ret :: "vpeer \<Rightarrow> (int \<times> 'r) option \<Rightarrow> (int \<times> vpeer \<times> 'r) option" where
  "dht_ret peer m = do { (ret, r) \<leftarrow> m; Some (if ret < 0 then -1 else 0, peer, r) }"

definition aux_space_probe_node_cb ::
  "(dht_call \<Rightarrow> 'r \<Rightarrow> (int \<times> 'r) option) \<Rightarrow> node_space \<Rightarrow> vtoken \<Rightarrow> vpeer \<Rightarrow> 'r \<Rightarrow>
     (int \<times> vpeer \<times> 'r) option" where
  "aux_space_probe_node_cb dht space targetId peer r =
     (if vp_next_tmo peer \<ge> ns_max_next_tmo_unreachable space then Some (0, peer, r)
      else if vnodeInfo_is_fake (vp_nodei peer) then Some (0, peer, r)
      else dht_ret peer (dht (DhtFindNode (vp_conn peer) targetId) r))"

definition aux_space_air_service_cb ::
  "(dht_call \<Rightarrow> 'r \<Rightarrow> (int \<times> 'r) option) \<Rightarrow> node_space \<Rightarrow> vsrvcInfo \<Rightarrow> vpeer \<Rightarrow> 'r \<Rightarrow>
     (int \<times> vpeer \<times> 'r) option" where
  "aux_space_air_service_cb dht space srvci peer r =
     (if vp_next_tmo peer \<ge> ns_max_next_tmo_unreachable space then Some (0, peer, r)
      else if vnodeInfo_is_fake (vp_nodei peer) then Some (0, peer, r)
      else dht_ret peer (dht (DhtPostService (vp_conn peer) srvci) r))"

definition aux_space_probe_service_cb ::
  "(dht_call \<Rightarrow> 'r \<Rightarrow> (int \<times> 'r) option) \<Rightarrow> node_space \<Rightarrow> vsrvcHash \<Rightarrow> vpeer \<Rightarrow> 'r \<Rightarrow>
     (int \<times> vpeer \<times> 'r) option" where
  "aux_space_probe_service_cb dht space hash peer r =
     (if vp_next_tmo peer \<ge> ns_max_next_tmo_unreachable space then Some (0, peer, r)
      else if vnodeInfo_is_fake (vp_nodei peer) then Some (0, peer, r)
      else dht_ret peer (dht (DhtFindService (vp_conn peer) hash) r))"

definition aux_space_reflex_addr_cb ::
  "(dht_call \<Rightarrow> 'r \<Rightarrow> (int \<times> 'r) option) \<Rightarrow> node_space \<Rightarrow> sockaddr_in \<Rightarrow> vpeer \<Rightarrow> 'r \<Rightarrow>
     (int \<times> vpeer \<times> 'r) option" where
  "aux_space_reflex_addr_cb dht space addr peer r =
     (if vp_next_tmo peer \<ge> ns_max_next_tmo_unreachable space then Some (0, peer, r)
      else if \<not> vsockaddr_is_public (vc_raddr (vp_conn peer)) then Some (0, peer, r)
      else dht_ret peer
        (dht (DhtReflex (vnodeConn_set_raw conn_zero addr (vc_raddr (vp_conn peer)))) r))"

text \<open>The loop counts \<open>j\<close> up to the number of addresses and uses \<open>addrs[i]\<close> with \<open>i\<close> still 0.\<close>

fun probe_addrs ::
  "(dht_call \<Rightarrow> 'r \<Rightarrow> (int \<times> 'r) option) \<Rightarrow> vsockaddr_in \<Rightarrow> vnodeInfo \<Rightarrow> nat \<Rightarrow> 'r \<Rightarrow> 'r option" where
  "probe_addrs dht laddr nodei 0 r = Some r"
| "probe_addrs dht laddr nodei (Suc n) r = do {
     a \<leftarrow> rd (ni_addrs nodei) 0;
     (ret, r) \<leftarrow> dht (DhtProbe (vnodeConn_set conn_zero laddr a) (ni_id nodei)) r;
     probe_addrs dht laddr nodei n r
   }"

definition aux_space_probe_connectivity_cb ::
  "(dht_call \<Rightarrow> 'r \<Rightarrow> (int \<times> 'r) option) \<Rightarrow> node_space \<Rightarrow> vsockaddr_in \<Rightarrow> vpeer \<Rightarrow> 'r \<Rightarrow>
     (int \<times> vpeer \<times> 'r) option" where
  "aux_space_probe_connectivity_cb dht space laddr peer r =
     (if vp_ntry_probes peer \<ge> ns_max_probe_tms space then Some (0, peer, r)
      else if vp_next_tmo peer \<ge> ns_max_next_tmo_unreachable space then Some (0, peer, r)
      else if vnodeInfo_is_fake (vp_nodei peer) then Some (0, peer, r)
      else do {
        r \<leftarrow> probe_addrs dht laddr (vp_nodei peer) (nat (ni_naddrs (vp_nodei peer))) r;
        Some (0, peer\<lparr>vp_ntry_probes := vp_ntry_probes peer + 1\<rparr>, r)
      })"

definition aux_space_ping_nodei_cb ::
  "(dht_call \<Rightarrow> 'r \<Rightarrow> (int \<times> 'r) option) \<Rightarrow> node_space \<Rightarrow> int \<Rightarrow> int \<Rightarrow> vpeer \<Rightarrow> 'r \<Rightarrow>
     (int \<times> vpeer \<times> 'r) option" where
  "aux_space_ping_nodei_cb dht space now later peer r =
     (if vp_tick_ts peer + vp_next_tmo peer > now then Some (0, peer, r)
      else if vp_ntry_pings peer > ns_max_ping_tms space \<and> vnodeInfo_is_fake (vp_nodei peer)
      then Some (0, peer, r)
      else do {
        (ret, r) \<leftarrow> dht (DhtPing (vp_conn peer)) r;
        let peer = peer\<lparr>vp_ntry_pings := vp_ntry_pings peer + 1, vp_tick_ts := later\<rparr>;
        let peer = (if vp_ntry_pings peer > ns_max_ping_tms space
            then peer\<lparr>vp_next_tmo := vminimum (vp_next_tmo peer + ns_next_tmo_step space)
                                           (ns_max_next_tmo_unreachable space)\<rparr>
            else peer);
        Some (0, peer, r)
      })"

text \<open>The comparison of two peers, of which \<open>target\<close> is the one to be inserted.\<close>

definition aux_space_weight_cmp_cb :: "vpeer \<Rightarrow> vpeer \<Rightarrow> vtoken vcookie \<Rightarrow> int" where
  "aux_space_weight_cmp_cb peer target cookie =
     (case cookie of
        Cookie targetId \<Rightarrow>
          if vp_ntry_pings target > vp_ntry_pings peer then -1
          else if \<not> vtoken_equal (ni_ver (vp_nodei target)) (ni_ver (vp_nodei peer)) then -1
          else if ni_weight (vp_nodei target) > ni_weight (vp_nodei peer) then 1
          else vnodeMetric_cmp (vnodeId_dist (ni_id (vp_nodei target)) targetId)
                               (vnodeId_dist (ni_id (vp_nodei peer)) targetId)
      | CookieAddr _ \<Rightarrow> 0)"

subsection \<open>Operations\<close>

text \<open>The loop that looks for the peer with an ID in a bucket.\<close>

fun peers_scan :: "nat \<Rightarrow> nat \<Rightarrow> vpeer varray \<Rightarrow> vtoken \<Rightarrow> (nat \<times> vpeer) option option" where
  "peers_scan 0 i peers nid = Some None"
| "peers_scan (Suc n) i peers nid = do {
     item \<leftarrow> varray_get peers (int i);
     peer \<leftarrow> item;
     if vtoken_equal (ni_id (vp_nodei peer)) nid then Some (Some (i, peer))
     else peers_scan n (i + 1) peers nid
   }"

definition space_scan :: "node_space \<Rightarrow> vtoken \<Rightarrow> (nat \<times> vpeer) option option" where
  "space_scan space nid = do {
     bk \<leftarrow> rd (ns_bucket space) (vnodeId_bucket (ns_myid space) nid);
     peers_scan (varray_size (bk_peers bk)) 0 (bk_peers bk) nid
   }"

text \<open>A change of peer \<open>i\<close> of bucket \<open>idx\<close> through its pointer.\<close>

definition put_peer :: "node_space \<Rightarrow> nat \<Rightarrow> nat \<Rightarrow> vpeer \<Rightarrow> node_space" where
  "put_peer space idx i peer =
     (let bk = ns_bucket space ! idx; ps = bk_peers bk
      in space\<lparr>ns_bucket := (ns_bucket space)
           [idx := bk\<lparr>bk_peers := ps\<lparr>va_items := (va_items ps)[i := Some peer]\<rparr>\<rparr>]\<rparr>)"

definition vroute_node_space_kick_node :: "int \<Rightarrow> node_space \<Rightarrow> vtoken \<Rightarrow> (int \<times> node_space) option" where
  "vroute_node_space_kick_node now space nid = do {
     f \<leftarrow> space_scan space nid;
     case f of
       None \<Rightarrow> Some (0, space)
     | Some (i, peer) \<Rightarrow>
         Some (1, put_peer space (vnodeId_bucket (ns_myid space) nid) i
           (peer\<lparr>vp_tick_ts := now,
                 vp_next_tmo := (if vp_ntry_pings peer > 1 then ns_init_next_tmo space
                                 else vp_next_tmo peer)\<rparr>))
   }"

text \<open>
  Adding a node: the search over its bucket leaves in \<open>fw\<close> whether the node is there and which
  peer to update or replace; \<open>add_node_place\<close> is what follows the search. The new node info is
  also changed: its weight grows when it runs our version.
\<close>

definition add_node_place ::
  "bool \<Rightarrow> int \<Rightarrow> node_space \<Rightarrow> nat \<Rightarrow> node_bucket \<Rightarrow> vnodeInfo \<Rightarrow> int \<Rightarrow> find_worst \<Rightarrow> (int \<times> node_space) option" where
  "add_node_place mem now space idx bk nodei flag fw =
     (let full = int (varray_size (bk_peers bk)) \<ge> ns_bucket_sz space in
      if fw_found fw \<or> (fw_want fw \<noteq> None \<and> full) then do {
        i \<leftarrow> fw_want fw;
        item \<leftarrow> varray_get (bk_peers bk) (int i);
        want \<leftarrow> item;
        (ret, want) \<leftarrow> vpeer_update mem now want space nodei flag;
        let space' = put_peer space idx i want;
        Some (0, if ret > 0 then space'\<lparr>ns_bucket := (ns_bucket space')
                   [idx := (ns_bucket space' ! idx)\<lparr>bk_ts := now\<rparr>]\<rparr> else space')
      }
      else if \<not> full then
        (case vpeer_alloc mem of
           None \<Rightarrow> Some (-1, space)
         | Some want \<Rightarrow> do {
             (ret, want) \<leftarrow> vpeer_init mem now want space nodei;
             (ret, ps) \<leftarrow> varray_add_tail mem (bk_peers bk) (Some want);
             Some (0, space\<lparr>ns_bucket := (ns_bucket space)[idx := bk\<lparr>bk_peers := ps, bk_ts := now\<rparr>]\<rparr>)
           })
      else Some (0, space))"

definition vroute_node_space_add_node ::
  "bool \<Rightarrow> int \<Rightarrow> node_space \<Rightarrow> vnodeInfo \<Rightarrow> int \<Rightarrow> (int \<times> node_space \<times> vnodeInfo) option" where
  "vroute_node_space_add_node mem now space nodei flag =
     (if vtoken_equal (ns_myid space) (ni_id nodei) then Some (0, space, nodei)
      else do {
        w \<leftarrow> (if vtoken_equal (ns_myver space) (ni_ver nodei) then int_add (ni_weight nodei) 1
              else Some (ni_weight nodei));
        let nodei = nodei\<lparr>ni_weight := w\<rparr>;
        let idx = vnodeId_bucket (ns_myid space) (ni_id nodei);
        bk \<leftarrow> rd (ns_bucket space) idx;
        (ps, fw) \<leftarrow> varray_iterate (bk_peers bk) (aux_space_find_worst_nodei_cb (ni_id nodei))
          \<lparr>fw_pos = 0, fw_min_wgt = ni_weight nodei, fw_max_try = 3, fw_found = False, fw_want = None\<rparr>;
        (ret, space) \<leftarrow> add_node_place mem now space idx bk nodei flag fw;
        Some (ret, space, nodei)
      })"

definition vroute_node_space_find_node ::
  "bool \<Rightarrow> node_space \<Rightarrow> vtoken \<Rightarrow> vnodeInfo \<Rightarrow> (int \<times> vnodeInfo) option" where
  "vroute_node_space_find_node mem space targetId nodei = do {
     f \<leftarrow> space_scan space targetId;
     case f of
       None \<Rightarrow> Some (0, nodei)
     | Some (i, peer) \<Rightarrow> do {
         (ret, nodei) \<leftarrow> vnodeInfo_copy mem nodei (vp_nodei peer);
         w \<leftarrow> (if vtoken_equal (ni_ver (vp_nodei peer)) (ns_myver space)
               then int_add (ni_weight nodei) (-1) else Some (ni_weight nodei));
         Some (1, nodei\<lparr>ni_weight := w\<rparr>)
       }
   }"

text \<open>The first loop of \<open>find_closest_nodes\<close>: over the peers of a bucket, then over the buckets.\<close>

fun closest_peers ::
  "bool \<Rightarrow> node_space \<Rightarrow> vtoken \<Rightarrow> nat \<Rightarrow> nat \<Rightarrow> vpeer varray \<Rightarrow> (vpeer, vtoken) vsorted_array \<Rightarrow>
     (vpeer, vtoken) vsorted_array option" where
  "closest_peers mem space targetId 0 j peers sarray = Some sarray"
| "closest_peers mem space targetId (Suc n) j peers sarray = do {
     item \<leftarrow> varray_get peers (int j);
     peer \<leftarrow> item;
     if vtoken_equal (ni_id (vp_nodei peer)) targetId then closest_peers mem space targetId n (j + 1) peers sarray
     else if vnodeInfo_is_fake (vp_nodei peer) then closest_peers mem space targetId n (j + 1) peers sarray
     else if vp_next_tmo peer \<ge> ns_max_next_tmo_unreachable space
     then closest_peers mem space targetId n (j + 1) peers sarray
     else do {
       (ret, sarray) \<leftarrow> vsorted_array_add mem sarray (Some peer);
       closest_peers mem space targetId n (j + 1) peers sarray
     }
   }"

fun closest_buckets ::
  "bool \<Rightarrow> node_space \<Rightarrow> vtoken \<Rightarrow> nat \<Rightarrow> nat \<Rightarrow> (vpeer, vtoken) vsorted_array \<Rightarrow>
     (vpeer, vtoken) vsorted_array option" where
  "closest_buckets mem space targetId 0 i sarray = Some sarray"
| "closest_buckets mem space targetId (Suc n) i sarray = do {
     bk \<leftarrow> rd (ns_bucket space) i;
     sarray \<leftarrow> closest_peers mem space targetId (varray_size (bk_peers bk)) 0 (bk_peers bk) sarray;
     closest_buckets mem space targetId n (i + 1) sarray
   }"

text \<open>The second loop, with \<open>n\<close> items of the sorted array to go.\<close>

fun closest_collect ::
  "bool \<Rightarrow> node_space \<Rightarrow> int \<Rightarrow> nat \<Rightarrow> nat \<Rightarrow> (vpeer, vtoken) vsorted_array \<Rightarrow> vnodeInfo varray \<Rightarrow>
     (int \<times> vnodeInfo varray) option" where
  "closest_collect mem space num 0 i sarray closest = Some (int i, closest)"
| "closest_collect mem space num (Suc n) i sarray closest = do {
     item \<leftarrow> vsorted_array_get sarray (int i);
     if int i \<ge> num then Some (int i, closest)
     else
       (case vnodeInfo_relax_alloc mem of
          None \<Rightarrow> Some (int i, closest)
        | Some nodei \<Rightarrow> do {
            peer \<leftarrow> item;
            (ret, nodei) \<leftarrow> vnodeInfo_copy mem nodei (vp_nodei peer);
            w \<leftarrow> (if vtoken_equal (ni_ver nodei) (ns_myver space)
                  then int_add (ni_weight nodei) (-1) else Some (ni_weight nodei));
            (ret, closest) \<leftarrow> varray_add_tail mem closest (Some (nodei\<lparr>ni_weight := w\<rparr>));
            closest_collect mem space num n (i + 1) sarray closest
          })
   }"

definition vroute_node_space_find_closest_nodes ::
  "bool \<Rightarrow> node_space \<Rightarrow> vtoken \<Rightarrow> vnodeInfo varray \<Rightarrow> int \<Rightarrow> (int \<times> vnodeInfo varray) option" where
  "vroute_node_space_find_closest_nodes mem space targetId closest num = do {
     vassert (0 < num);
     sarray \<leftarrow> closest_buckets mem space targetId NBUCKETS 0
                 (vsorted_array_init 0 aux_space_weight_cmp_cb targetId);
     closest_collect mem space num (vsorted_array_size sarray) 0 sarray closest
   }"

text \<open>\<open>varray_iterate\<close> over all buckets, from bucket \<open>i\<close> on.\<close>

fun buckets_iterate ::
  "(vpeer \<Rightarrow> 'r \<Rightarrow> (int \<times> vpeer \<times> 'r) option) \<Rightarrow> nat \<Rightarrow> nat \<Rightarrow> node_space \<Rightarrow> 'r \<Rightarrow> (node_space \<times> 'r) option" where
  "buckets_iterate cb 0 i space r = Some (space, r)"
| "buckets_iterate cb (Suc n) i space r = do {
     bk \<leftarrow> rd (ns_bucket space) i;
     (ps, r) \<leftarrow> varray_iterate (bk_peers bk) cb r;
     buckets_iterate cb n (i + 1) (space\<lparr>ns_bucket := (ns_bucket space)[i := bk\<lparr>bk_peers := ps\<rparr>]\<rparr>) r
   }"

definition vroute_node_space_probe_node ::
  "(dht_call \<Rightarrow> 'r \<Rightarrow> (int \<times> 'r) option) \<Rightarrow> node_space \<Rightarrow> vtoken \<Rightarrow> 'r \<Rightarrow> (int \<times> node_space \<times> 'r) option" where
  "vroute_node_space_probe_node dht space targetId r = do {
     f \<leftarrow> space_scan space targetId;
     if f \<noteq> None then Some (0, space, r)
     else do {
       (space, r) \<leftarrow> buckets_iterate (aux_space_probe_node_cb dht space targetId) NBUCKETS 0 space r;
       Some (0, space, r)
     }
   }"

definition vroute_node_space_air_service ::
  "(dht_call \<Rightarrow> 'r \<Rightarrow> (int \<times> 'r) option) \<Rightarrow> node_space \<Rightarrow> vsrvcInfo \<Rightarrow> 'r \<Rightarrow> (int \<times> node_space \<times> 'r) option" where
  "vroute_node_space_air_service dht space srvci r = do {
     (space, r) \<leftarrow> buckets_iterate (aux_space_air_service_cb dht space srvci) NBUCKETS 0 space r;
     Some (0, space, r)
   }"

definition vroute_node_space_probe_service ::
  "(dht_call \<Rightarrow> 'r \<Rightarrow> (int \<times> 'r) option) \<Rightarrow> node_space \<Rightarrow> vsrvcHash \<Rightarrow> 'r \<Rightarrow> (int \<times> node_space \<times> 'r) option" where
  "vroute_node_space_probe_service dht space hash r = do {
     (space, r) \<leftarrow> buckets_iterate (aux_space_probe_service_cb dht space hash) NBUCKETS 0 space r;
     Some (0, space, r)
   }"

definition vroute_node_space_reflex_addr ::
  "(dht_call \<Rightarrow> 'r \<Rightarrow> (int \<times> 'r) option) \<Rightarrow> node_space \<Rightarrow> sockaddr_in \<Rightarrow> 'r \<Rightarrow> (int \<times> node_space \<times> 'r) option" where
  "vroute_node_space_reflex_addr dht space addr r = do {
     (space, r) \<leftarrow> buckets_iterate (aux_space_reflex_addr_cb dht space addr) NBUCKETS 0 space r;
     Some (0, space, r)
   }"

definition vroute_node_space_adjust_connectivity ::
  "node_space \<Rightarrow> vtoken \<Rightarrow> vnodeConn \<Rightarrow> (int \<times> node_space) option" where
  "vroute_node_space_adjust_connectivity space targetId conn = do {
     f \<leftarrow> space_scan space targetId;
     case f of
       None \<Rightarrow> Some (0, space)
     | Some (i, peer) \<Rightarrow>
         Some (0, put_peer space (vnodeId_bucket (ns_myid space) targetId) i
           (peer\<lparr>vp_conn := vnodeConn_adjust (vp_conn peer) conn\<rparr>))
   }"

definition vroute_node_space_probe_connectivity ::
  "(dht_call \<Rightarrow> 'r \<Rightarrow> (int \<times> 'r) option) \<Rightarrow> node_space \<Rightarrow> vsockaddr_in \<Rightarrow> 'r \<Rightarrow> (int \<times> node_space \<times> 'r) option" where
  "vroute_node_space_probe_connectivity dht space laddr r = do {
     (space, r) \<leftarrow> buckets_iterate (aux_space_probe_connectivity_cb dht space laddr) NBUCKETS 0 space r;
     Some (0, space, r)
   }"

text \<open>The loop of \<open>tick\<close>; \<open>rnd i\<close> is the random number drawn for bucket \<open>i\<close>, \<open>later\<close> what
  \<open>time(NULL)\<close> returns after the first call.\<close>

fun tick_buckets ::
  "(dht_call \<Rightarrow> 'r \<Rightarrow> (int \<times> 'r) option) \<Rightarrow> int \<Rightarrow> int \<Rightarrow> (nat \<Rightarrow> nat) \<Rightarrow> nat \<Rightarrow> nat \<Rightarrow> node_space \<Rightarrow> 'r \<Rightarrow>
     (node_space \<times> 'r) option" where
  "tick_buckets dht now later rnd 0 i space r = Some (space, r)"
| "tick_buckets dht now later rnd (Suc n) i space r = do {
     bk \<leftarrow> rd (ns_bucket space) i;
     (ps, r) \<leftarrow> varray_iterate (bk_peers bk) (aux_space_ping_nodei_cb dht space now later) r;
     let bk = bk\<lparr>bk_peers := ps\<rparr>;
     let space = space\<lparr>ns_bucket := (ns_bucket space)[i := bk]\<rparr>;
     if varray_size ps = 0 then tick_buckets dht now later rnd n (i + 1) space r
     else if bk_ts bk + ns_max_next_tmo space > now then tick_buckets dht now later rnd n (i + 1) space r
     else do {
       item \<leftarrow> varray_get_rand ps (rnd i);
       peer \<leftarrow> item;
       if vp_next_tmo peer \<ge> ns_max_next_tmo_unreachable space
       then tick_buckets dht now later rnd n (i + 1) space r
       else if vnodeInfo_is_fake (vp_nodei peer)
       then tick_buckets dht now later rnd n (i + 1) space r
       else do {
         (ret, r) \<leftarrow> dht (DhtFindClosestNodes (vp_conn peer) (ns_myid space)) r;
         tick_buckets dht now later rnd n (i + 1)
           (space\<lparr>ns_bucket := (ns_bucket space)[i := bk\<lparr>bk_ts := later\<rparr>]\<rparr>) r
       }
     }
   }"

definition vroute_node_space_tick ::
  "(dht_call \<Rightarrow> 'r \<Rightarrow> (int \<times> 'r) option) \<Rightarrow> int \<Rightarrow> int \<Rightarrow> (nat \<Rightarrow> nat) \<Rightarrow> node_space \<Rightarrow> 'r \<Rightarrow>
     (int \<times> node_space \<times> 'r) option" where
  "vroute_node_space_tick dht now later rnd space r = do {
     (space, r) \<leftarrow> tick_buckets dht now later rnd NBUCKETS 0 space r;
     Some (0, space, r)
   }"

text \<open>Clearing: every bucket is emptied from its tail, each peer freed (a freed peer has no value
  any more).\<close>

fun pop_all :: "bool \<Rightarrow> nat \<Rightarrow> vpeer varray \<Rightarrow> vpeer varray option" where
  "pop_all mem 0 ps = (if varray_size ps > 0 then None else Some ps)"
| "pop_all mem (Suc n) ps =
     (if varray_size ps > 0 then do {
        (item, ps) \<leftarrow> varray_pop_tail mem ps;
        peer \<leftarrow> item;
        pop_all mem n ps
      }
      else Some ps)"

fun clear_buckets :: "bool \<Rightarrow> node_bucket list \<Rightarrow> node_bucket list option" where
  "clear_buckets mem [] = Some []"
| "clear_buckets mem (bk # bks) = do {
     ps \<leftarrow> pop_all mem (varray_size (bk_peers bk)) (bk_peers bk);
     bks \<leftarrow> clear_buckets mem bks;
     Some (bk\<lparr>bk_peers := ps\<rparr> # bks)
   }"

definition vroute_node_space_clear :: "bool \<Rightarrow> node_space \<Rightarrow> node_space option" where
  "vroute_node_space_clear mem space = do {
     bks \<leftarrow> clear_buckets mem (ns_bucket space);
     Some (space\<lparr>ns_bucket := bks\<rparr>)
   }"

text \<open>
  Initialisation. The configuration is given by what \<open>get_dht_address\<close>, \<open>get_route_bucket_sz\<close> and
  \<open>get_route_max_next_tmo\<close> return, the database by the result of preparing its table; \<open>version\<close> is
  the string \<open>vhost_get_version()\<close> and \<open>myver0\<close> the memory it is parsed into.
\<close>

definition vroute_node_space_init ::
  "(int \<times> sockaddr_in) \<Rightarrow> int \<Rightarrow> int \<Rightarrow> int \<Rightarrow> bytes \<Rightarrow> vtoken \<Rightarrow> vtoken \<Rightarrow> node_space option option" where
  "vroute_node_space_init dht_address bucket_sz max_next_tmo db_ret version myver0 myid =
     (if fst dht_address < 0 then Some None
      else if db_ret < 0 then Some None
      else do {
        (ret, ver) \<leftarrow> vnodeVer_unstrlize version myver0;
        Some (Some \<lparr>ns_myid = vtoken_copy myid, ns_myver = ver, ns_zaddr = snd dht_address,
          ns_bucket_sz = bucket_sz, ns_init_next_tmo = 2, ns_max_next_tmo = max_next_tmo,
          ns_max_next_tmo_unreachable = max_next_tmo * 4, ns_next_tmo_step = 5,
          ns_max_probe_tms = 3, ns_max_ping_tms = 3,
          ns_bucket = replicate NBUCKETS \<lparr>bk_peers = varray_init 8, bk_ts = 0\<rparr>\<rparr>)
      })"


section \<open>What these operations do\<close>

subsection \<open>The invariant\<close>

definition pid :: "vpeer \<Rightarrow> vtoken" where
  "pid p = ni_id (vp_nodei p)"

definition peer_wf :: "vtoken \<Rightarrow> nat \<Rightarrow> vpeer \<Rightarrow> bool" where
  "peer_wf myid i p \<longleftrightarrow> node_wf (vp_nodei p) \<and> ni_heap (vp_nodei p) \<and> 1 \<le> ni_naddrs (vp_nodei p) \<and>
     pid p \<noteq> myid \<and> vnodeId_bucket myid (pid p) = i"

definition bucket_wf :: "vtoken \<Rightarrow> int \<Rightarrow> nat \<Rightarrow> node_bucket \<Rightarrow> bool" where
  "bucket_wf myid sz i bk \<longleftrightarrow> va_wf (bk_peers bk) \<and> (\<forall>p \<in> set (va_list (bk_peers bk)). peer_wf myid i p) \<and>
     distinct (map pid (va_list (bk_peers bk))) \<and> int (length (va_list (bk_peers bk))) \<le> sz"

definition space_wf :: "node_space \<Rightarrow> bool" where
  "space_wf space \<longleftrightarrow> tok_wf (ns_myid space) \<and> tok_wf (ns_myver space) \<and>
     length (ns_bucket space) = NBUCKETS \<and>
     (\<forall>i < NBUCKETS. bucket_wf (ns_myid space) (ns_bucket_sz space) i (ns_bucket space ! i))"

text \<open>The peers of a bucket.\<close>

definition bucket_list :: "node_space \<Rightarrow> nat \<Rightarrow> vpeer list" where
  "bucket_list space i = va_list (bk_peers (ns_bucket space ! i))"

lemma bucket_in_range [simp]: "vnodeId_bucket a b < NBUCKETS"
  by (simp add: NBUCKETS_def vnodeId_bucket_lt)

lemma space_wfD:
  assumes "space_wf space" "i < NBUCKETS"
  shows "va_wf (bk_peers (ns_bucket space ! i))" "\<forall>p \<in> set (bucket_list space i). peer_wf (ns_myid space) i p"
    "distinct (map pid (bucket_list space i))" "int (length (bucket_list space i)) \<le> ns_bucket_sz space"
    "i < length (ns_bucket space)"
  using assms by (auto simp: space_wf_def bucket_wf_def bucket_list_def simp del: va_list_length)

lemma peer_wf_tok: "peer_wf myid i p \<Longrightarrow> tok_wf (ni_id (vp_nodei p))" "peer_wf myid i p \<Longrightarrow> tok_wf (ni_ver (vp_nodei p))"
  by (simp_all add: peer_wf_def node_wf_tok)

lemma va_put:
  assumes "va_wf ps" "i < length (va_list ps)"
  shows "va_wf (ps\<lparr>va_items := (va_items ps)[i := Some x]\<rparr>)"
    "va_list (ps\<lparr>va_items := (va_items ps)[i := Some x]\<rparr>) = (va_list ps)[i := x]"
proof -
  have "i < va_used ps" using assms by simp
  then have t: "take (va_used ps) ((va_items ps)[i := Some x]) = (take (va_used ps) (va_items ps))[i := Some x]"
    by (simp add: take_update_swap)
  show "va_wf (ps\<lparr>va_items := (va_items ps)[i := Some x]\<rparr>)"
    using assms(1) unfolding va_wf_def by (auto simp: t dest!: set_update_subset_insert [THEN subsetD])
  show "va_list (ps\<lparr>va_items := (va_items ps)[i := Some x]\<rparr>) = (va_list ps)[i := x]"
    by (simp add: va_list_def t map_update)
qed

lemma bucket_list_put [simp]:
  assumes "space_wf space" "idx < NBUCKETS" "i < length (bucket_list space idx)"
  shows "bucket_list (put_peer space idx i p) idx = (bucket_list space idx)[i := p]"
  using assms va_put [of "bk_peers (ns_bucket space ! idx)" i p] space_wfD [OF assms(1,2)]
  by (simp add: bucket_list_def put_peer_def Let_def del: va_list_length)

lemma bucket_list_put_other [simp]: "j \<noteq> idx \<Longrightarrow> bucket_list (put_peer space idx i p) j = bucket_list space j"
  by (simp add: bucket_list_def put_peer_def Let_def)

lemma put_peer_fields [simp]:
  "ns_myid (put_peer space idx i p) = ns_myid space" "ns_myver (put_peer space idx i p) = ns_myver space"
  "ns_bucket_sz (put_peer space idx i p) = ns_bucket_sz space"
  "length (ns_bucket (put_peer space idx i p)) = length (ns_bucket space)"
  by (simp_all add: put_peer_def Let_def)

lemma space_wf_put [wf_intros]:
  assumes "space_wf space" "idx < NBUCKETS" "i < length (bucket_list space idx)"
    "peer_wf (ns_myid space) idx p" "pid p = pid (bucket_list space idx ! i)"
  shows "space_wf (put_peer space idx i p)"
proof -
  note w = space_wfD [OF assms(1,2)]
  have "map pid ((bucket_list space idx)[i := p]) = map pid (bucket_list space idx)"
    using assms(3,5) by (metis list_update_id map_update nth_map)
  then have "distinct (map pid ((bucket_list space idx)[i := p]))" using w(3) by simp
  moreover have "\<forall>q \<in> set ((bucket_list space idx)[i := p]). peer_wf (ns_myid space) idx q"
    using w(2) assms(4) by (auto dest!: set_update_subset_insert [THEN subsetD])
  ultimately have "bucket_wf (ns_myid space) (ns_bucket_sz space) idx (ns_bucket (put_peer space idx i p) ! idx)"
    using w va_put [of "bk_peers (ns_bucket space ! idx)" i p] assms(3)
    by (simp add: bucket_wf_def put_peer_def Let_def bucket_list_def del: va_list_length)
  moreover have "ns_bucket (put_peer space idx i p) ! j = ns_bucket space ! j" if "j \<noteq> idx" for j
    using that by (simp add: put_peer_def Let_def)
  ultimately show ?thesis using assms(1) unfolding space_wf_def by (metis put_peer_fields)
qed

subsection \<open>Looking up a peer\<close>

lemma peers_scan_spec:
  assumes "va_wf ps" "\<forall>p \<in> set (va_list ps). tok_wf (pid p)" "tok_wf nid" "i + n = length (va_list ps)"
  shows "peers_scan n i ps nid =
    Some (map_option (\<lambda>k. (i + k, va_list ps ! (i + k))) (find_idx (\<lambda>p. pid p = nid) (drop i (va_list ps))))"
  using assms(4)
proof (induction n arbitrary: i)
  case (Suc n)
  then have i: "i < length (va_list ps)" by simp
  have d: "drop i (va_list ps) = va_list ps ! i # drop (Suc i) (va_list ps)"
    using i by (simp add: Cons_nth_drop_Suc)
  have "vtoken_equal (ni_id (vp_nodei (va_list ps ! i))) nid = (pid (va_list ps ! i) = nid)"
    using assms(2,3) i nth_mem unfolding pid_def by fastforce
  then show ?case
    using Suc.IH [of "i + 1"] Suc.prems i varray_get_spec [OF assms(1), of i] unfolding d
    by (auto simp: option.map_comp comp_def simp del: va_list_length varray_get_spec intro!: option.map_cong)
qed simp

lemma space_scan_spec:
  assumes "space_wf space" "tok_wf nid"
  defines "ps \<equiv> bucket_list space (vnodeId_bucket (ns_myid space) nid)"
  shows "space_scan space nid = Some (map_option (\<lambda>k. (k, ps ! k)) (find_idx (\<lambda>p. pid p = nid) ps))"
proof -
  let ?idx = "vnodeId_bucket (ns_myid space) nid"
  note w = space_wfD [OF assms(1) bucket_in_range [of "ns_myid space" nid]]
  have "\<forall>p \<in> set (bucket_list space ?idx). tok_wf (pid p)"
    using w(2) peer_wf_tok unfolding pid_def by blast
  then have "peers_scan (va_used (bk_peers (ns_bucket space ! ?idx))) 0 (bk_peers (ns_bucket space ! ?idx)) nid =
      Some (map_option (\<lambda>k. (0 + k, ps ! (0 + k))) (find_idx (\<lambda>p. pid p = nid) (drop 0 ps)))"
    using w(1) assms(2) unfolding ps_def bucket_list_def by (intro peers_scan_spec) auto
  then show ?thesis using w(1,5) by (simp add: space_scan_def)
qed

lemma find_pid:
  assumes "distinct (map pid ps)" "k < length ps" "pid (ps ! k) = nid"
  shows "find_idx (\<lambda>p. pid p = nid) ps = Some k"
  using assms
proof (induction ps arbitrary: k)
  case (Cons p ps)
  show ?case
  proof (cases k)
    case (Suc j)
    then have "nid \<in> pid ` set ps" using Cons.prems nth_mem [of j ps] by auto
    then have "pid p \<noteq> nid" using Cons.prems by auto
    then show ?thesis using Cons Suc by simp
  qed (use Cons.prems in simp)
qed simp


lemma find_pid_None: "find_idx (\<lambda>p. pid p = nid) ps = None \<longleftrightarrow> nid \<notin> set (map pid ps)"
  by (auto simp: image_iff)

subsection \<open>Adding a node\<close>

lemma find_worst_iterate:
  assumes "\<forall>p \<in> set ps. tok_wf (pid p)" "tok_wf nid" "\<not> fw_found fw"
  shows "\<exists>fw'. list_iterate (aux_space_find_worst_nodei_cb nid) ps fw = Some (ps, fw') \<and>
    (case find_idx (\<lambda>p. pid p = nid) ps of
       Some k \<Rightarrow> fw_found fw' \<and> fw_want fw' = Some (fw_pos fw + k)
     | None \<Rightarrow> \<not> fw_found fw' \<and>
         (fw_want fw' = fw_want fw \<or> (\<exists>k < length ps. fw_want fw' = Some (fw_pos fw + k))))"
  using assms
proof (induction ps arbitrary: fw)
  case (Cons p ps)
  have eq: "vtoken_equal (ni_id (vp_nodei p)) nid = (pid p = nid)"
    using Cons.prems by (simp add: pid_def)
  show ?case
  proof (cases "pid p = nid")
    case True
    then show ?thesis using eq by (simp add: aux_space_find_worst_nodei_cb_def Let_def)
  next
    case False
    obtain g where g: "aux_space_find_worst_nodei_cb nid p fw = Some (0, p, g)" "\<not> fw_found g"
        "fw_pos g = fw_pos fw + 1" "fw_want g = fw_want fw \<or> fw_want g = Some (fw_pos fw)"
    proof -
      have "\<exists>g. aux_space_find_worst_nodei_cb nid p fw = Some (0, p, g) \<and> \<not> fw_found g \<and>
          fw_pos g = fw_pos fw + 1 \<and> (fw_want g = fw_want fw \<or> fw_want g = Some (fw_pos fw))"
        using eq False Cons.prems(3) by (simp add: aux_space_find_worst_nodei_cb_def Let_def)
      then show thesis using that by blast
    qed
    obtain h where h: "list_iterate (aux_space_find_worst_nodei_cb nid) ps g = Some (ps, h)"
      "case find_idx (\<lambda>p. pid p = nid) ps of
         Some k \<Rightarrow> fw_found h \<and> fw_want h = Some (fw_pos g + k)
       | None \<Rightarrow> \<not> fw_found h \<and> (fw_want h = fw_want g \<or> (\<exists>k < length ps. fw_want h = Some (fw_pos g + k)))"
      using Cons.IH [of g] Cons.prems g(2) by auto
    have run: "list_iterate (aux_space_find_worst_nodei_cb nid) (p # ps) fw = Some (p # ps, h)"
      using g(1) h(1) by simp
    define r where "r = find_idx (\<lambda>p. pid p = nid) ps"
    have e: "find_idx (\<lambda>p. pid p = nid) (p # ps) = map_option Suc r" using False by (simp add: r_def)
    show ?thesis
    proof (cases r)
      case None
      have "\<not> fw_found h" "fw_want h = fw_want fw \<or> (\<exists>k < length (p # ps). fw_want h = Some (fw_pos fw + k))"
        using h(2) [folded r_def] g(3,4) None by (auto intro: exI [of _ 0] exI [of _ "Suc _"])
      then show ?thesis unfolding e None by (intro exI [of _ h] conjI run) simp
    next
      case (Some k)
      then show ?thesis using h(2) [folded r_def] g(3) unfolding e by (intro exI [of _ h] conjI run) simp
    qed
  qed
qed simp

text \<open>What \<open>add_node\<close> does to its bucket, in terms of the peers with the new node's ID.\<close>

definition fw_init :: "vnodeInfo \<Rightarrow> find_worst" where
  "fw_init nodei = \<lparr>fw_pos = 0, fw_min_wgt = ni_weight nodei, fw_max_try = 3, fw_found = False, fw_want = None\<rparr>"

lemma add_node_iterate:
  assumes "space_wf space" "tok_wf nid"
  defines "idx \<equiv> vnodeId_bucket (ns_myid space) nid"
  shows "\<exists>ps fw. varray_iterate (bk_peers (ns_bucket space ! idx)) (aux_space_find_worst_nodei_cb nid)
      (fw_init nodei) = Some (ps, fw) \<and>
    (case find_idx (\<lambda>p. pid p = nid) (bucket_list space idx) of
       Some k \<Rightarrow> fw_found fw \<and> fw_want fw = Some k
     | None \<Rightarrow> \<not> fw_found fw \<and> (fw_want fw = None \<or> (\<exists>k < length (bucket_list space idx). fw_want fw = Some k)))"
proof -
  have w: "va_wf (bk_peers (ns_bucket space ! idx))" "\<forall>p \<in> set (bucket_list space idx). tok_wf (pid p)"
    using space_wfD [OF assms(1), of idx] peer_wf_tok unfolding pid_def idx_def by auto
  obtain fw where fw: "list_iterate (aux_space_find_worst_nodei_cb nid) (bucket_list space idx) (fw_init nodei) =
      Some (bucket_list space idx, fw)"
    "case find_idx (\<lambda>p. pid p = nid) (bucket_list space idx) of
       Some k \<Rightarrow> fw_found fw \<and> fw_want fw = Some k
     | None \<Rightarrow> \<not> fw_found fw \<and> (fw_want fw = None \<or> (\<exists>k < length (bucket_list space idx). fw_want fw = Some k))"
    using find_worst_iterate [OF w(2) assms(2), of "fw_init nodei"]
    unfolding fw_init_def find_worst.simps add_0 by blast
  obtain ps where "varray_iterate (bk_peers (ns_bucket space ! idx)) (aux_space_find_worst_nodei_cb nid)
      (fw_init nodei) = Some (ps, fw)"
    by (rule varray_iterate_spec [OF w(1) fw(1) [unfolded bucket_list_def]])
  then show ?thesis using fw(2) by blast
qed

lemma vpeer_update_spec:
  assumes "peer_wf myid i p" "node_news nodei" "flag = VADD_BY_OTHER \<or> flag = VADD_BY_PING_RSP"
  shows "\<exists>ret p'. vpeer_update True now p space nodei flag = Some (ret, p') \<and> peer_wf myid i p' \<and> pid p' = pid p \<and>
    (pid p \<noteq> ni_id nodei \<longrightarrow> ret = 0 \<and> vp_nodei p' = vp_nodei p \<and> vp_conn p' = vp_conn p)"
proof -
  obtain q where q: "peer_flagged now p space flag = Some q" "vp_nodei q = vp_nodei p" "vp_conn q = vp_conn p"
    using assms(3) by (auto simp: peer_flagged_def VADD_BY_OTHER_def VADD_BY_PING_RSP_def)
  have p: "node_wf (vp_nodei p)" "1 \<le> ni_naddrs (vp_nodei p)" using assms(1) by (simp_all add: peer_wf_def)
  obtain r d where d: "vnodeInfo_merge True (vp_nodei p) nodei = Some (r, d)" "node_wf d"
      "ni_id d = pid p" "ni_heap d = ni_heap (vp_nodei p)" "1 \<le> ni_naddrs d"
    using vnodeInfo_merge_total [OF p(1) assms(2)] p(2) by (auto simp: pid_def)
  have worst: "\<exists>w. vnodeInfo_worst_addr d = Some w"
    using d(2,5) by (auto simp: vnodeInfo_worst_addr_def node_wf_def rd_def)
  have "\<exists>p'. vpeer_update True now p space nodei flag = Some (if r < 0 then -1 else r, p') \<and> vp_nodei p' = d \<and>
      (r = 0 \<longrightarrow> vp_conn p' = vp_conn p)"
    using q d(1) worst by (auto simp: vpeer_update_def Let_def)
  then obtain p' where p': "vpeer_update True now p space nodei flag = Some (if r < 0 then -1 else r, p')"
      "vp_nodei p' = d" "r = 0 \<longrightarrow> vp_conn p' = vp_conn p"
    by blast
  have "peer_wf myid i p'" "pid p' = pid p"
    using assms(1) p'(2) d by (auto simp: peer_wf_def pid_def)
  moreover have "r = 0 \<and> d = vp_nodei p" if "pid p \<noteq> ni_id nodei"
    using vnodeInfo_merge_other [OF p(1)] d(1) assms(2) that by (simp add: pid_def node_news_def)
  ultimately show ?thesis using p' by auto
qed

lemma vpeer_init_spec:
  assumes "node_news nodei" "vpeer_alloc True = Some fresh"
  shows "\<exists>p. vpeer_init True now fresh space nodei = Some (0, p) \<and> node_wf (vp_nodei p) \<and>
    ni_heap (vp_nodei p) \<and> pid p = ni_id nodei \<and> ni_ver (vp_nodei p) = ni_ver nodei \<and>
    ni_weight (vp_nodei p) = ni_weight nodei \<and>
    ni_list (vp_nodei p) = fold (addr_ins VSOCKADDR_TYPE) (ni_list nodei) [] \<and> 1 \<le> ni_naddrs (vp_nodei p) \<and>
    vp_next_tmo p = ns_init_next_tmo space \<and> vp_ntry_pings p = 0 \<and> vp_tick_ts p = now"
proof -
  have s: "node_src nodei" "1 \<le> ni_naddrs nodei" using assms(1) by (simp_all add: node_news_def)
  have "copy_target (vp_nodei fresh)" "ni_heap (vp_nodei fresh)"
    using assms(2) by (auto simp: vpeer_alloc_def vnodeInfo_alloc_def copy_target_def)
  then obtain d where d: "vnodeInfo_copy True (vp_nodei fresh) nodei = Some (1, d)" "node_wf d" "ni_heap d"
      "ni_id d = ni_id nodei" "ni_ver d = ni_ver nodei" "ni_weight d = ni_weight nodei"
      "ni_list d = fold (addr_ins VSOCKADDR_TYPE) (ni_list nodei) []"
    using vnodeInfo_copy_gen [of "vp_nodei fresh" nodei] s by auto
  have "length (ni_list d) = length (ni_list nodei)" using d(7) by simp
  then have n: "1 \<le> ni_naddrs d"
    using length_ni_list [OF d(2)] length_src_list [OF s(1)] s(2) by simp
  then have "\<exists>w. vnodeInfo_worst_addr d = Some w"
    using d(2) by (auto simp: vnodeInfo_worst_addr_def node_wf_def rd_def)
  then show ?thesis using d n by (auto simp: vpeer_init_def pid_def)
qed

lemma vpeer_alloc_True: "\<exists>fresh. vpeer_alloc True = Some fresh"
  by (simp add: vpeer_alloc_def vnodeInfo_alloc_def)

text \<open>A node info without an address: the code reads the slot before its first one.\<close>

lemma vpeer_init_addressless:
  assumes "vpeer_alloc True = Some fresh" "ni_naddrs nodei = 0" "tok_wf (ni_id nodei)" "tok_wf (ni_ver nodei)"
  shows "vpeer_init True now fresh space nodei = None"
  using assms by (auto simp: vpeer_init_def vnodeInfo_copy_def vnodeInfo_worst_addr_def Let_def split: Option.bind_splits)

lemma add_node_self:
  "\<lbrakk>space_wf space; tok_wf (ni_id nodei); ni_id nodei = ns_myid space\<rbrakk> \<Longrightarrow>
     vroute_node_space_add_node mem now space nodei flag = Some (0, space, nodei)"
  by (simp add: vroute_node_space_add_node_def space_wf_def)


text \<open>The node info as \<open>add_node\<close> stores it: one heavier when it runs our version.\<close>

definition weighed :: "node_space \<Rightarrow> vnodeInfo \<Rightarrow> vnodeInfo" where
  "weighed space nodei =
     nodei\<lparr>ni_weight := (if ni_ver nodei = ns_myver space then ni_weight nodei + 1 else ni_weight nodei)\<rparr>"

lemma weighed_fields [simp]:
  "ni_id (weighed space n) = ni_id n" "ni_ver (weighed space n) = ni_ver n"
  "ni_naddrs (weighed space n) = ni_naddrs n" "ni_list (weighed space n) = ni_list n"
  by (simp_all add: weighed_def ni_list_def)

lemma node_news_weighed [simp]: "node_news (weighed space n) = node_news n"
  by (simp add: node_news_def node_src_def weighed_def ni_list_def)

definition add_ok :: "node_space \<Rightarrow> vnodeInfo \<Rightarrow> int \<Rightarrow> bool" where
  "add_ok space nodei flag \<longleftrightarrow> space_wf space \<and> node_news nodei \<and> int32_ok (ni_weight nodei + 1) \<and>
     ni_id nodei \<noteq> ns_myid space \<and> (flag = VADD_BY_OTHER \<or> flag = VADD_BY_PING_RSP)"

abbreviation home :: "node_space \<Rightarrow> vnodeInfo \<Rightarrow> nat" where
  "home space nodei \<equiv> vnodeId_bucket (ns_myid space) (ni_id nodei)"

lemma add_okD:
  assumes "add_ok space nodei flag"
  shows "space_wf space" "node_news nodei" "tok_wf (ni_id nodei)" "tok_wf (ni_ver nodei)"
    "ni_id nodei \<noteq> ns_myid space" "flag = VADD_BY_OTHER \<or> flag = VADD_BY_PING_RSP"
  using assms by (auto simp: add_ok_def node_news_def node_src_tok)

lemma add_node_start:
  assumes "add_ok space nodei flag"
  shows "\<exists>fw. (case find_idx (\<lambda>p. pid p = ni_id nodei) (bucket_list space (home space nodei)) of
       Some k \<Rightarrow> fw_found fw \<and> fw_want fw = Some k
     | None \<Rightarrow> \<not> fw_found fw \<and>
         (fw_want fw = None \<or> (\<exists>k < length (bucket_list space (home space nodei)). fw_want fw = Some k))) \<and>
    vroute_node_space_add_node mem now space nodei flag =
      map_option (\<lambda>(ret, space'). (ret, space', weighed space nodei))
        (add_node_place mem now space (home space nodei) (ns_bucket space ! home space nodei)
           (weighed space nodei) flag fw)"
proof -
  note d = add_okD [OF assms]
  let ?idx = "home space nodei"
  obtain ps fw where fw: "varray_iterate (bk_peers (ns_bucket space ! ?idx))
      (aux_space_find_worst_nodei_cb (ni_id nodei)) (fw_init (weighed space nodei)) = Some (ps, fw)"
    "case find_idx (\<lambda>p. pid p = ni_id nodei) (bucket_list space ?idx) of
       Some k \<Rightarrow> fw_found fw \<and> fw_want fw = Some k
     | None \<Rightarrow> \<not> fw_found fw \<and> (fw_want fw = None \<or> (\<exists>k < length (bucket_list space ?idx). fw_want fw = Some k))"
    using add_node_iterate [OF d(1,3), of "weighed space nodei"] by blast
  have w: "(if vtoken_equal (ns_myver space) (ni_ver nodei) then int_add (ni_weight nodei) 1
      else Some (ni_weight nodei)) = Some (ni_weight (weighed space nodei))"
    using assms d(1,4) by (auto simp: weighed_def add_ok_def space_wf_def)
  have e: "nodei\<lparr>ni_weight := ni_weight (weighed space nodei)\<rparr> = weighed space nodei"
    by (simp add: weighed_def)
  have s: "\<not> vtoken_equal (ns_myid space) (ni_id nodei)" "?idx < length (ns_bucket space)"
    using d(1,3,5) space_wfD(5) [OF d(1) bucket_in_range] by (auto simp: space_wf_def)
  have run: "varray_iterate (bk_peers (ns_bucket space ! ?idx)) (aux_space_find_worst_nodei_cb (ni_id nodei))
      \<lparr>fw_pos = 0, fw_min_wgt = ni_weight (weighed space nodei), fw_max_try = 3, fw_found = False, fw_want = None\<rparr> =
      Some (ps, fw)"
    using fw(1) by (simp add: fw_init_def)
  have "vroute_node_space_add_node mem now space nodei flag =
      map_option (\<lambda>(ret, space'). (ret, space', weighed space nodei))
        (add_node_place mem now space ?idx (ns_bucket space ! ?idx) (weighed space nodei) flag fw)"
    using s w by (simp add: vroute_node_space_add_node_def Let_def e run map_conv_bind_option)
      (simp add: case_prod_beta' comp_def)
  then show ?thesis using fw(2) by blast
qed

lemma put_peer_ts:
  assumes "space_wf space" "idx < NBUCKETS"
  shows "space_wf (space\<lparr>ns_bucket := (ns_bucket space)[idx := (ns_bucket space ! idx)\<lparr>bk_ts := t\<rparr>]\<rparr>)"
    "bucket_list (space\<lparr>ns_bucket := (ns_bucket space)[idx := (ns_bucket space ! idx)\<lparr>bk_ts := t\<rparr>]\<rparr>) i =
       bucket_list space i"
  using assms
  by (auto simp: space_wf_def bucket_wf_def bucket_list_def nth_list_update)

text \<open>Updating peer \<open>k\<close> of the home bucket.\<close>

lemma add_node_update:
  assumes "add_ok space nodei flag" "k < length (bucket_list space (home space nodei))" "fw_want fw = Some k"
    "fw_found fw \<or> int (length (bucket_list space (home space nodei))) \<ge> ns_bucket_sz space"
  shows "\<exists>space' p'. add_node_place True now space (home space nodei) (ns_bucket space ! home space nodei)
        (weighed space nodei) flag fw = Some (0, space') \<and> space_wf space' \<and>
      ns_myid space' = ns_myid space \<and>
      (\<forall>i. bucket_list space' i = (if i = home space nodei then (bucket_list space i)[k := p'] else bucket_list space i)) \<and>
      pid p' = pid (bucket_list space (home space nodei) ! k) \<and>
      (pid p' \<noteq> ni_id nodei \<longrightarrow> vp_nodei p' = vp_nodei (bucket_list space (home space nodei) ! k))"
proof -
  note d = add_okD [OF assms(1)]
  let ?idx = "home space nodei"
  let ?p = "bucket_list space ?idx ! k"
  note w = space_wfD [OF d(1) bucket_in_range [of "ns_myid space" "ni_id nodei"]]
  have p: "peer_wf (ns_myid space) ?idx ?p" using w(2) assms(2) by simp
  obtain ret p' where p': "vpeer_update True now ?p space (weighed space nodei) flag = Some (ret, p')"
      "peer_wf (ns_myid space) ?idx p'" "pid p' = pid ?p"
      "pid ?p \<noteq> ni_id nodei \<longrightarrow> vp_nodei p' = vp_nodei ?p"
    using vpeer_update_spec [OF p _ d(6), where nodei = "weighed space nodei" and now = now and space = space]
      d(2) by auto
  let ?s = "put_peer space ?idx k p'"
  let ?t = "?s\<lparr>ns_bucket := (ns_bucket ?s)[?idx := (ns_bucket ?s ! ?idx)\<lparr>bk_ts := now\<rparr>]\<rparr>"
  have s: "space_wf ?s" using d(1) assms(2) p'(2,3) by (intro space_wf_put) auto
  have t: "space_wf ?t" "\<And>i. bucket_list ?t i = bucket_list ?s i"
    using put_peer_ts [OF s bucket_in_range] by auto
  have get: "varray_get (bk_peers (ns_bucket space ! ?idx)) (int k) = Some (Some ?p)"
    using w(1) assms(2) by (simp add: bucket_list_def)
  have "add_node_place True now space ?idx (ns_bucket space ! ?idx) (weighed space nodei) flag fw =
      Some (0, if ret > 0 then ?t else ?s)"
    using assms(3,4) get p'(1) w(1) by (auto simp: add_node_place_def Let_def bucket_list_def)
  moreover have "bucket_list ?s i = (if i = ?idx then (bucket_list space i)[k := p'] else bucket_list space i)" for i
    using d(1) assms(2) by simp
  moreover have "ns_myid ?t = ns_myid space" by (simp add: put_peer_def Let_def)
  ultimately show ?thesis
    using s t p'(3,4) by (intro exI [of _ "if ret > 0 then ?t else ?s"] exI [of _ p']) auto
qed

text \<open>Appending a peer to the home bucket.\<close>

lemma add_node_append:
  assumes "add_ok space nodei flag" "ni_id nodei \<notin> set (map pid (bucket_list space (home space nodei)))"
    "\<not> fw_found fw" "int (length (bucket_list space (home space nodei))) < ns_bucket_sz space"
  shows "\<exists>space' p'. add_node_place True now space (home space nodei) (ns_bucket space ! home space nodei)
        (weighed space nodei) flag fw = Some (0, space') \<and> space_wf space' \<and>
      ns_myid space' = ns_myid space \<and> ns_myver space' = ns_myver space \<and>
      (\<forall>i. bucket_list space' i = (if i = home space nodei then bucket_list space i @ [p'] else bucket_list space i)) \<and>
      pid p' = ni_id nodei \<and> ni_ver (vp_nodei p') = ni_ver nodei \<and>
      ni_weight (vp_nodei p') = ni_weight (weighed space nodei) \<and>
      ni_list (vp_nodei p') = fold (addr_ins VSOCKADDR_TYPE) (ni_list nodei) []"
proof -
  note d = add_okD [OF assms(1)]
  let ?idx = "home space nodei"
  let ?bk = "ns_bucket space ! ?idx"
  note w = space_wfD [OF d(1) bucket_in_range [of "ns_myid space" "ni_id nodei"]]
  obtain fresh where fresh: "vpeer_alloc True = Some fresh" using vpeer_alloc_True by blast
  obtain p where p: "vpeer_init True now fresh space (weighed space nodei) = Some (0, p)"
      "node_wf (vp_nodei p)" "ni_heap (vp_nodei p)" "pid p = ni_id nodei" "ni_ver (vp_nodei p) = ni_ver nodei"
      "ni_weight (vp_nodei p) = ni_weight (weighed space nodei)"
      "ni_list (vp_nodei p) = fold (addr_ins VSOCKADDR_TYPE) (ni_list nodei) []" "1 \<le> ni_naddrs (vp_nodei p)"
    using vpeer_init_spec [OF _ fresh, of "weighed space nodei"] d(2) by auto
  obtain ps where ps: "varray_add_tail True (bk_peers ?bk) (Some p) = Some (0, ps)" "va_wf ps"
      "va_list ps = va_list (bk_peers ?bk) @ [p]"
    by (rule varray_add_tail_spec [OF w(1), of p])
  let ?s = "space\<lparr>ns_bucket := (ns_bucket space)[?idx := ?bk\<lparr>bk_peers := ps, bk_ts := now\<rparr>]\<rparr>"
  have e: "add_node_place True now space ?idx ?bk (weighed space nodei) flag fw = Some (0, ?s)"
    using assms(3,4) fresh p(1) ps(1) w(1) by (simp add: add_node_place_def Let_def bucket_list_def)
  have l: "bucket_list ?s i = (if i = ?idx then bucket_list space i @ [p] else bucket_list space i)" for i
    using w(5) ps(3) by (simp add: bucket_list_def)
  have "peer_wf (ns_myid space) ?idx p"
    using p d(5) by (simp add: peer_wf_def)
  moreover have "distinct (map pid (bucket_list space ?idx @ [p]))"
    using w(3) assms(2) p(4) by simp
  ultimately have "bucket_wf (ns_myid space) (ns_bucket_sz space) ?idx (?bk\<lparr>bk_peers := ps, bk_ts := now\<rparr>)"
    using w(2) ps assms(4) by (simp add: bucket_wf_def bucket_list_def del: va_list_length)
  then have "space_wf ?s"
    using d(1) by (auto simp: space_wf_def nth_list_update)
  then show ?thesis using e l p by (intro exI [of _ ?s] exI [of _ p]) simp
qed


lemma add_node_placed:
  assumes "add_ok space nodei flag"
  defines "ids s \<equiv> map pid (bucket_list s (home space nodei))"
  shows "\<exists>space'. vroute_node_space_add_node True now space nodei flag = Some (0, space', weighed space nodei) \<and>
    space_wf space' \<and> ns_myid space' = ns_myid space \<and>
    (\<forall>i. i \<noteq> home space nodei \<longrightarrow> bucket_list space' i = bucket_list space i) \<and>
    ids space' = (if ni_id nodei \<in> set (ids space) \<or> int (length (ids space)) \<ge> ns_bucket_sz space
      then ids space else ids space @ [ni_id nodei])"
proof -
  let ?ps = "bucket_list space (home space nodei)"
  note d = add_okD [OF assms(1)]
  note w = space_wfD [OF d(1) bucket_in_range [of "ns_myid space" "ni_id nodei"]]
  obtain fw where fw: "case find_idx (\<lambda>p. pid p = ni_id nodei) ?ps of
       Some k \<Rightarrow> fw_found fw \<and> fw_want fw = Some k
     | None \<Rightarrow> \<not> fw_found fw \<and> (fw_want fw = None \<or> (\<exists>k < length ?ps. fw_want fw = Some k))"
    and run: "vroute_node_space_add_node True now space nodei flag =
      map_option (\<lambda>(ret, space'). (ret, space', weighed space nodei))
        (add_node_place True now space (home space nodei) (ns_bucket space ! home space nodei)
           (weighed space nodei) flag fw)"
    using add_node_start [OF assms(1)] by blast
  have size: "varray_size (bk_peers (ns_bucket space ! home space nodei)) = length ?ps"
    using w(1) by (simp add: bucket_list_def)
  show ?thesis
  proof (cases "find_idx (\<lambda>p. pid p = ni_id nodei) ?ps")
    case (Some k)
    then have k: "k < length ?ps" "fw_want fw = Some k" "fw_found fw"
      using fw find_idx_lt by auto
    have "ni_id nodei \<in> set (ids space)"
      using Some find_pid_None [of "ni_id nodei" ?ps] unfolding ids_def by (metis option.distinct(1))
    then show ?thesis using add_node_update [OF assms(1) k(1,2), of now] k(1,3) run
      by (auto simp: ids_def map_update list_update_same_conv)
  next
    case None
    then have new: "ni_id nodei \<notin> set (map pid ?ps)" unfolding find_pid_None .
    have nf: "\<not> fw_found fw" and want: "fw_want fw = None \<or> (\<exists>k < length ?ps. fw_want fw = Some k)"
      using fw unfolding None by auto
    show ?thesis
    proof (cases "int (length ?ps) < ns_bucket_sz space")
      case True
      then show ?thesis using add_node_append [OF assms(1) new nf, of now] new run by (auto simp: ids_def)
    next
      case False
      then show ?thesis
      proof (cases "fw_want fw")
        case None
        then have "add_node_place True now space (home space nodei) (ns_bucket space ! home space nodei)
            (weighed space nodei) flag fw = Some (0, space)"
          using False nf size by (simp add: add_node_place_def)
        then show ?thesis using run d(1) False by (simp add: ids_def)
      next
        case (Some k)
        then have k: "k < length ?ps" "fw_want fw = Some k" using want by auto
        then show ?thesis using False add_node_update [OF assms(1) k, of now] run
          by (auto simp: ids_def map_update list_update_same_conv)
      qed
    qed
  qed
qed

lemma add_node_wf:
  assumes "add_ok space nodei flag"
  shows "\<exists>space'. vroute_node_space_add_node True now space nodei flag = Some (0, space', weighed space nodei) \<and>
    space_wf space' \<and> ns_myid space' = ns_myid space"
  using add_node_placed [OF assms, of now] by blast

text \<open>A full bucket: the node is not added, whatever peer was chosen to make room, because merging
  a node info of another ID changes nothing.\<close>

lemma add_node_full:
  assumes "add_ok space nodei flag" "ni_id nodei \<notin> set (map pid (bucket_list space (home space nodei)))"
    "int (length (bucket_list space (home space nodei))) = ns_bucket_sz space"
  shows "\<exists>space'. vroute_node_space_add_node True now space nodei flag = Some (0, space', weighed space nodei) \<and>
    (\<forall>i. map vp_nodei (bucket_list space' i) = map vp_nodei (bucket_list space i))"
proof -
  let ?ps = "bucket_list space (home space nodei)"
  note d = add_okD [OF assms(1)]
  note w = space_wfD [OF d(1) bucket_in_range [of "ns_myid space" "ni_id nodei"]]
  have none: "find_idx (\<lambda>p. pid p = ni_id nodei) ?ps = None" using assms(2) unfolding find_pid_None .
  obtain fw where fw: "\<not> fw_found fw" "fw_want fw = None \<or> (\<exists>k < length ?ps. fw_want fw = Some k)"
    and run: "vroute_node_space_add_node True now space nodei flag =
      map_option (\<lambda>(ret, space'). (ret, space', weighed space nodei))
        (add_node_place True now space (home space nodei) (ns_bucket space ! home space nodei)
           (weighed space nodei) flag fw)"
    using add_node_start [OF assms(1), of True now] unfolding none by auto
  have size: "int (varray_size (bk_peers (ns_bucket space ! home space nodei))) = ns_bucket_sz space"
    using w(1) assms(3) by (simp add: bucket_list_def)
  show ?thesis
  proof (cases "fw_want fw")
    case None
    then show ?thesis using run fw(1) size by (simp add: add_node_place_def)
  next
    case (Some k)
    then have k: "k < length ?ps" using fw(2) by auto
    have full: "fw_found fw \<or> int (length ?ps) \<ge> ns_bucket_sz space" using assms(3) by simp
    obtain space' p' where s: "add_node_place True now space (home space nodei) (ns_bucket space ! home space nodei)
        (weighed space nodei) flag fw = Some (0, space')"
      "\<forall>i. bucket_list space' i = (if i = home space nodei then (bucket_list space i)[k := p'] else bucket_list space i)"
      "pid p' = pid (?ps ! k)" "pid p' \<noteq> ni_id nodei \<longrightarrow> vp_nodei p' = vp_nodei (?ps ! k)"
      using add_node_update [OF assms(1) k Some full, of now] by blast
    have "pid (?ps ! k) \<noteq> ni_id nodei" using assms(2) k by (metis length_map nth_map nth_mem)
    then have "map vp_nodei (?ps[k := p']) = map vp_nodei ?ps"
      using s(3,4) k by (metis list_update_id map_update nth_map)
    then show ?thesis using run s(1,2) by auto
  qed
qed

lemma add_node_new:
  assumes "add_ok space nodei flag" "ni_id nodei \<notin> set (map pid (bucket_list space (home space nodei)))"
    "int (length (bucket_list space (home space nodei))) < ns_bucket_sz space"
  shows "\<exists>space' p. vroute_node_space_add_node True now space nodei flag = Some (0, space', weighed space nodei) \<and>
    space_wf space' \<and> ns_myid space' = ns_myid space \<and> ns_myver space' = ns_myver space \<and>
    (\<forall>i. bucket_list space' i = (if i = home space nodei then bucket_list space i @ [p] else bucket_list space i)) \<and>
    pid p = ni_id nodei \<and> ni_ver (vp_nodei p) = ni_ver nodei \<and>
    ni_weight (vp_nodei p) = ni_weight (weighed space nodei) \<and>
    ni_list (vp_nodei p) = fold (addr_ins VSOCKADDR_TYPE) (ni_list nodei) []"
proof -
  let ?ps = "bucket_list space (home space nodei)"
  have none: "find_idx (\<lambda>p. pid p = ni_id nodei) ?ps = None" using assms(2) unfolding find_pid_None .
  obtain fw where fw: "\<not> fw_found fw"
    and run: "vroute_node_space_add_node True now space nodei flag =
      map_option (\<lambda>(ret, space'). (ret, space', weighed space nodei))
        (add_node_place True now space (home space nodei) (ns_bucket space ! home space nodei)
           (weighed space nodei) flag fw)"
    using add_node_start [OF assms(1), of True now] unfolding none by auto
  show ?thesis using add_node_append [OF assms(1,2) fw assms(3), of now] run by auto
qed


subsection \<open>Kicking, finding and clearing\<close>

lemma kick_node_absent:
  assumes "space_wf space" "tok_wf nid"
    "nid \<notin> set (map pid (bucket_list space (vnodeId_bucket (ns_myid space) nid)))"
  shows "vroute_node_space_kick_node now space nid = Some (0, space)"
  using space_scan_spec [OF assms(1,2)] assms(3)
  unfolding find_pid_None [symmetric] vroute_node_space_kick_node_def by simp

definition kicked :: "node_space \<Rightarrow> int \<Rightarrow> vpeer \<Rightarrow> vpeer" where
  "kicked space now p = p\<lparr>vp_tick_ts := now,
     vp_next_tmo := (if vp_ntry_pings p > 1 then ns_init_next_tmo space else vp_next_tmo p)\<rparr>"

lemma kick_node_known:
  assumes "space_wf space" "tok_wf nid"
    "find_idx (\<lambda>p. pid p = nid) (bucket_list space (vnodeId_bucket (ns_myid space) nid)) = Some k"
  shows "\<exists>space'. vroute_node_space_kick_node now space nid = Some (1, space') \<and> space_wf space' \<and>
    (\<forall>i. bucket_list space' i = (if i = vnodeId_bucket (ns_myid space) nid
       then (bucket_list space i)[k := kicked space now (bucket_list space i ! k)] else bucket_list space i))"
proof -
  let ?idx = "vnodeId_bucket (ns_myid space) nid"
  let ?p = "bucket_list space ?idx ! k"
  have k: "k < length (bucket_list space ?idx)" using assms(3) find_idx_lt by auto
  have "peer_wf (ns_myid space) ?idx ?p"
    using space_wfD(2) [OF assms(1), of ?idx] k by simp
  then have "peer_wf (ns_myid space) ?idx (kicked space now ?p)" "pid (kicked space now ?p) = pid ?p"
    by (simp_all add: peer_wf_def pid_def kicked_def)
  then have "space_wf (put_peer space ?idx k (kicked space now ?p))"
    using assms(1) k by (intro space_wf_put) auto
  moreover have "vroute_node_space_kick_node now space nid = Some (1, put_peer space ?idx k (kicked space now ?p))"
    using space_scan_spec [OF assms(1,2)] assms(3) unfolding vroute_node_space_kick_node_def kicked_def by simp
  ultimately show ?thesis using assms(1) k by (intro exI [of _ "put_peer space ?idx k (kicked space now ?p)"]) simp
qed

lemma addrs_sorted_fold: "addrs_sorted key ys \<Longrightarrow> addrs_sorted key (fold (addr_ins key) xs ys)"
  by (induction xs arbitrary: ys) (auto simp: addrs_sorted_def intro: sorted_addr_ins)

lemma fold_addr_ins_idem:
  "fold (addr_ins key) (fold (addr_ins key) xs []) [] = fold (addr_ins key) xs []"
  by (rule fold_addr_ins_sorted, rule addrs_sorted_fold) (simp add: addrs_sorted_def)

text \<open>The weight that the outside sees.\<close>

definition unweighed :: "node_space \<Rightarrow> vnodeInfo \<Rightarrow> int" where
  "unweighed space n = (if ni_ver n = ns_myver space then ni_weight n - 1 else ni_weight n)"

lemma find_node_spec:
  assumes "space_wf space" "tok_wf nid" "node_wf out"
    "find_idx (\<lambda>p. pid p = nid) (bucket_list space (vnodeId_bucket (ns_myid space) nid)) = Some k"
  defines "n \<equiv> vp_nodei (bucket_list space (vnodeId_bucket (ns_myid space) nid) ! k)"
  assumes "int32_ok (unweighed space n)"
  shows "\<exists>found. vroute_node_space_find_node True space nid out = Some (1, found) \<and> node_wf found \<and>
    ni_id found = nid \<and> ni_ver found = ni_ver n \<and> ni_weight found = unweighed space n \<and>
    ni_list found = fold (addr_ins VSOCKADDR_TYPE) (ni_list n) []"
proof -
  let ?idx = "vnodeId_bucket (ns_myid space) nid"
  have k: "k < length (bucket_list space ?idx)" "pid (bucket_list space ?idx ! k) = nid"
    using find_idx_Some [OF assms(4)] by auto
  have n: "node_wf n" "1 \<le> ni_naddrs n"
    using space_wfD(2) [OF assms(1) bucket_in_range [of "ns_myid space" nid]] nth_mem [OF k(1)]
    by (auto simp: n_def peer_wf_def)
  obtain d where d: "vnodeInfo_copy True out n = Some (1, d)" "node_wf d" "ni_id d = ni_id n" "ni_ver d = ni_ver n"
      "ni_weight d = ni_weight n" "ni_list d = fold (addr_ins VSOCKADDR_TYPE) (ni_list n) []"
    using vnodeInfo_copy_gen [of out n] assms(3) n node_wf_src [OF n(1)] by (auto simp: copy_target_def)
  have w: "(if vtoken_equal (ni_ver n) (ns_myver space) then int_add (ni_weight d) (-1) else Some (ni_weight d)) =
      Some (unweighed space n)"
    using assms(1,6) d(5) node_wf_tok [OF n(1)] by (auto simp: unweighed_def space_wf_def)
  let ?f = "d\<lparr>ni_weight := unweighed space n\<rparr>"
  have "vroute_node_space_find_node True space nid out = Some (1, ?f)"
    using space_scan_spec [OF assms(1,2)] assms(4) d(1) w unfolding n_def vroute_node_space_find_node_def
    by simp
  moreover have "node_wf ?f" using d(2) by (auto simp: node_wf_def ni_list_def)
  moreover have "ni_list ?f = ni_list d" by (simp add: ni_list_def)
  ultimately show ?thesis using d k(2) by (intro exI [of _ ?f]) (simp add: n_def pid_def)
qed

lemma find_node_absent:
  assumes "space_wf space" "tok_wf nid"
    "nid \<notin> set (map pid (bucket_list space (vnodeId_bucket (ns_myid space) nid)))"
  shows "vroute_node_space_find_node mem space nid out = Some (0, out)"
  using space_scan_spec [OF assms(1,2)] assms(3)
  unfolding find_pid_None [symmetric] vroute_node_space_find_node_def by simp

text \<open>A node added to a bucket with room is found again, with the weight it came with.\<close>

lemma add_then_find:
  assumes "add_ok space nodei flag" "ni_id nodei \<notin> set (map pid (bucket_list space (home space nodei)))"
    "int (length (bucket_list space (home space nodei))) < ns_bucket_sz space" "int32_ok (ni_weight nodei)" "node_wf out"
  shows "\<exists>space' found. vroute_node_space_add_node True now space nodei flag = Some (0, space', weighed space nodei) \<and>
    vroute_node_space_find_node True space' (ni_id nodei) out = Some (1, found) \<and>
    ni_id found = ni_id nodei \<and> ni_ver found = ni_ver nodei \<and> ni_weight found = ni_weight nodei \<and>
    ni_list found = fold (addr_ins VSOCKADDR_TYPE) (ni_list nodei) []"
proof -
  obtain space' p where s: "vroute_node_space_add_node True now space nodei flag = Some (0, space', weighed space nodei)"
      "space_wf space'" "ns_myid space' = ns_myid space" "ns_myver space' = ns_myver space"
      "bucket_list space' (home space nodei) = bucket_list space (home space nodei) @ [p]"
      "pid p = ni_id nodei" "ni_ver (vp_nodei p) = ni_ver nodei"
      "ni_weight (vp_nodei p) = ni_weight (weighed space nodei)"
      "ni_list (vp_nodei p) = fold (addr_ins VSOCKADDR_TYPE) (ni_list nodei) []"
    using add_node_new [OF assms(1-3), of now] by auto
  let ?l = "bucket_list space' (home space nodei)"
  let ?k = "length (bucket_list space (home space nodei))"
  have "distinct (map pid ?l)" using space_wfD(3) [OF s(2) bucket_in_range] .
  moreover have "pid (?l ! ?k) = ni_id nodei" "?k < length ?l" using s(5,6) by simp_all
  ultimately have "find_idx (\<lambda>p. pid p = ni_id nodei) ?l = Some ?k" by (intro find_pid)
  then have f: "find_idx (\<lambda>p. pid p = ni_id nodei) (bucket_list space' (vnodeId_bucket (ns_myid space') (ni_id nodei))) = Some ?k"
    using s(3) by simp
  have e: "bucket_list space' (vnodeId_bucket (ns_myid space') (ni_id nodei)) ! ?k = p"
    using s(3,5) by simp
  have w: "unweighed space' (vp_nodei p) = ni_weight nodei"
    using s(4,7,8) by (simp add: unweighed_def weighed_def)
  show ?thesis
    using find_node_spec [OF s(2) add_okD(3) [OF assms(1)] assms(5) f] assms(4) s(1,7,9) w
    unfolding e by (auto simp: fold_addr_ins_idem)
qed

lemma pop_all_empties:
  "va_wf ps \<Longrightarrow> n = length (va_list ps) \<Longrightarrow> \<exists>ps'. pop_all True n ps = Some ps' \<and> va_wf ps' \<and> va_list ps' = []"
proof (induction n arbitrary: ps)
  case 0
  then have "va_list ps = []" by (metis length_0_conv)
  moreover from this 0 have "va_used ps = 0" by (metis list.size(3) va_list_length)
  ultimately show ?case using 0 by (simp add: varray_size_def)
next
  case (Suc n)
  have l: "va_list ps \<noteq> []"
    using Suc.prems(2) by (metis list.size(3) nat.distinct(1))
  obtain ps' where ps': "varray_pop_tail True ps = Some (Some (last (va_list ps)), ps')" "va_wf ps'"
      "va_list ps' = butlast (va_list ps)"
    by (rule varray_pop_tail_spec [OF Suc.prems(1) l])
  have "0 < varray_size ps" using Suc.prems l by (simp add: va_size del: va_list_length)
  moreover have "n = length (va_list ps')" using Suc.prems(2) ps'(3) by (metis diff_Suc_1 length_butlast)
  ultimately show ?case using Suc.IH [of ps'] ps' by simp
qed


lemma clear_buckets_spec:
  "\<forall>bk \<in> set bks. va_wf (bk_peers bk) \<Longrightarrow>
     \<exists>bks'. clear_buckets True bks = Some bks' \<and> length bks' = length bks \<and>
       (\<forall>bk \<in> set bks'. va_wf (bk_peers bk) \<and> va_list (bk_peers bk) = [])"
proof (induction bks)
  case (Cons bk bks)
  obtain ps where "pop_all True (varray_size (bk_peers bk)) (bk_peers bk) = Some ps" "va_wf ps" "va_list ps = []"
    using pop_all_empties [of "bk_peers bk"] Cons.prems by auto
  then show ?case using Cons by fastforce
qed simp

lemma clear_spec:
  assumes "space_wf space" "0 \<le> ns_bucket_sz space"
  shows "\<exists>space'. vroute_node_space_clear True space = Some space' \<and> space_wf space' \<and>
    (\<forall>i < NBUCKETS. bucket_list space' i = [])"
proof -
  have "\<forall>bk \<in> set (ns_bucket space). va_wf (bk_peers bk)"
    using assms(1) by (auto simp: space_wf_def bucket_wf_def in_set_conv_nth)
  then obtain bks where b: "clear_buckets True (ns_bucket space) = Some bks" "length bks = NBUCKETS"
      "\<forall>bk \<in> set bks. va_wf (bk_peers bk) \<and> va_list (bk_peers bk) = []"
    using clear_buckets_spec assms(1) by (metis space_wf_def)
  have "space_wf (space\<lparr>ns_bucket := bks\<rparr>)"
    using assms b by (simp add: space_wf_def bucket_wf_def del: va_list_length)
  then show ?thesis
    using b by (intro exI [of _ "space\<lparr>ns_bucket := bks\<rparr>"]) (simp add: vroute_node_space_clear_def bucket_list_def)
qed

lemma init_spec:
  assumes "0 \<le> fst addr" "0 \<le> db_ret" "0 \<le> bucket_sz" "vnodeVer_unstrlize version ver0 = Some (ret, ver)"
    "tok_wf ver" "tok_wf myid"
  shows "\<exists>space. vroute_node_space_init addr bucket_sz max_tmo db_ret version ver0 myid = Some (Some space) \<and>
    space_wf space \<and> (\<forall>i < NBUCKETS. bucket_list space i = []) \<and> ns_myid space = myid"
  using assms
  by (simp add: vroute_node_space_init_def space_wf_def bucket_wf_def bucket_list_def)


subsection \<open>Sending to the peers: the contract with the route\<close>

text \<open>The calls whose arguments the route can encode.\<close>

fun call_wf :: "dht_call \<Rightarrow> bool" where
  "call_wf (DhtPing c) = True"
| "call_wf (DhtFindNode c t) = tok_wf t"
| "call_wf (DhtFindClosestNodes c t) = tok_wf t"
| "call_wf (DhtReflex c) = True"
| "call_wf (DhtProbe c t) = tok_wf t"
| "call_wf (DhtPostService c s) = srvc_sendable s"
| "call_wf (DhtFindService c h) = tok_wf h"

locale dht_ops =
  fixes dht :: "dht_call \<Rightarrow> 'r \<Rightarrow> (int \<times> 'r) option"
    and inv :: "'r \<Rightarrow> bool"
  assumes total: "\<lbrakk>inv r; call_wf c\<rbrakk> \<Longrightarrow> \<exists>ret r'. dht c r = Some (ret, r') \<and> inv r'"
begin

text \<open>A callback that keeps the peer's ID and node info, whatever it sends.\<close>

definition cb_ok :: "(vpeer \<Rightarrow> 'r \<Rightarrow> (int \<times> vpeer \<times> 'r) option) \<Rightarrow> bool" where
  "cb_ok cb \<longleftrightarrow> (\<forall>p r myid i. peer_wf myid i p \<and> inv r \<longrightarrow>
     (\<exists>ret p' r'. cb p r = Some (ret, p', r') \<and> vp_nodei p' = vp_nodei p \<and> inv r'))"

lemma dht_ret_ok:
  assumes "inv r" "call_wf c"
  shows "\<exists>ret r'. dht_ret p (dht c r) = Some (ret, p, r') \<and> inv r'"
  using total [OF assms] by (auto simp: dht_ret_def)

text \<open>The callbacks that send one message at most.\<close>

lemma cb_okI:
  assumes "\<And>p r. cb p r = Some (0, p, r) \<or> (\<exists>c. call_wf c \<and> cb p r = dht_ret p (dht c r))"
  shows "cb_ok cb"
  unfolding cb_ok_def
proof (intro allI impI)
  fix p r myid i
  assume "peer_wf myid i p \<and> inv r"
  then show "\<exists>ret p' r'. cb p r = Some (ret, p', r') \<and> vp_nodei p' = vp_nodei p \<and> inv r'"
    using assms [of p r] dht_ret_ok [of r _ p] by metis
qed

lemma cb_ok_probe_node: "tok_wf t \<Longrightarrow> cb_ok (aux_space_probe_node_cb dht space t)"
  by (rule cb_okI) (auto simp: aux_space_probe_node_cb_def intro!: exI [of _ "DhtFindNode _ t"])

lemma cb_ok_air_service: "srvc_sendable s \<Longrightarrow> cb_ok (aux_space_air_service_cb dht space s)"
  by (rule cb_okI) (auto simp: aux_space_air_service_cb_def intro!: exI [of _ "DhtPostService _ s"])

lemma cb_ok_probe_service: "tok_wf t \<Longrightarrow> cb_ok (aux_space_probe_service_cb dht space t)"
  by (rule cb_okI) (auto simp: aux_space_probe_service_cb_def intro!: exI [of _ "DhtFindService _ t"])

lemma cb_ok_reflex_addr: "cb_ok (aux_space_reflex_addr_cb dht space a)"
  by (rule cb_okI) (auto simp: aux_space_reflex_addr_cb_def intro!: exI [of _ "DhtReflex _"])

lemma probe_addrs_ok:
  "\<lbrakk>inv r; tok_wf (ni_id n); ni_addrs n \<noteq> []\<rbrakk> \<Longrightarrow> \<exists>r'. probe_addrs dht laddr n k r = Some r' \<and> inv r'"
proof (induction k arbitrary: r)
  case (Suc k)
  then obtain ret r1 where "dht (DhtProbe (vnodeConn_set conn_zero laddr (ni_addrs n ! 0)) (ni_id n)) r = Some (ret, r1)"
      "inv r1"
    using total [of r "DhtProbe (vnodeConn_set conn_zero laddr (ni_addrs n ! 0)) (ni_id n)"] by auto
  then show ?case using Suc by (simp add: rd_def)
qed simp

lemma cb_ok_probe_connectivity: "cb_ok (aux_space_probe_connectivity_cb dht space laddr)"
  unfolding cb_ok_def
proof (intro allI impI)
  fix p r myid i
  assume *: "peer_wf myid i p \<and> inv r"
  then have "tok_wf (ni_id (vp_nodei p))" by (auto intro: peer_wf_tok)
  moreover have "ni_addrs (vp_nodei p) \<noteq> []" using * by (auto simp: peer_wf_def node_wf_def)
  ultimately obtain r' where
    "probe_addrs dht laddr (vp_nodei p) (nat (ni_naddrs (vp_nodei p))) r = Some r'" "inv r'"
    using probe_addrs_ok * by blast
  then show "\<exists>ret p' r'. aux_space_probe_connectivity_cb dht space laddr p r = Some (ret, p', r') \<and>
      vp_nodei p' = vp_nodei p \<and> inv r'"
    using * by (simp add: aux_space_probe_connectivity_cb_def)
qed

lemma cb_ok_ping: "cb_ok (aux_space_ping_nodei_cb dht space now later)"
  unfolding cb_ok_def
proof (intro allI impI)
  fix p r myid i
  assume *: "peer_wf myid i p \<and> inv r"
  then obtain ret r' where "dht (DhtPing (vp_conn p)) r = Some (ret, r')" "inv r'"
    using total [of r "DhtPing (vp_conn p)"] by auto
  then show "\<exists>ret p' r'. aux_space_ping_nodei_cb dht space now later p r = Some (ret, p', r') \<and>
      vp_nodei p' = vp_nodei p \<and> inv r'"
    using * by (simp add: aux_space_ping_nodei_cb_def Let_def)
qed

lemma cb_okD:
  "\<lbrakk>cb_ok cb; peer_wf myid i p; inv r\<rbrakk> \<Longrightarrow>
     \<exists>ret p' r'. cb p r = Some (ret, p', r') \<and> vp_nodei p' = vp_nodei p \<and> inv r'"
  unfolding cb_ok_def by blast

lemma list_iterate_ok:
  assumes "cb_ok cb" "\<forall>p \<in> set ps. peer_wf myid i p" "inv r"
  shows "\<exists>ps' r'. list_iterate cb ps r = Some (ps', r') \<and> inv r' \<and> map vp_nodei ps' = map vp_nodei ps"
  using assms(2,3)
proof (induction ps arbitrary: r)
  case (Cons p ps)
  then obtain ret p' r1 where p: "cb p r = Some (ret, p', r1)" "vp_nodei p' = vp_nodei p" "inv r1"
    using cb_okD [OF assms(1), of myid i p r] by auto
  show ?case
  proof (cases "0 < ret")
    case False
    then show ?thesis using Cons.IH [of r1] Cons.prems p by auto
  qed (use p in simp)
qed simp

end

lemma peer_wf_same: "vp_nodei p = vp_nodei q \<Longrightarrow> peer_wf myid i p = peer_wf myid i q"
  by (simp add: peer_wf_def pid_def)

lemma map_pid_same:
  assumes "map vp_nodei xs = map vp_nodei ys"
  shows "map pid xs = map pid ys"
proof -
  have "map pid zs = map ni_id (map vp_nodei zs)" for zs by (simp add: pid_def)
  then show ?thesis using assms by presburger
qed

lemma bucket_wf_same:
  assumes "bucket_wf myid sz i bk" "va_wf ps" "map vp_nodei (va_list ps) = map vp_nodei (va_list (bk_peers bk))"
  shows "bucket_wf myid sz i (bk\<lparr>bk_peers := ps\<rparr>)"
proof -
  have "peer_wf myid i p" if p: "p \<in> set (va_list ps)" for p
  proof -
    have "vp_nodei p \<in> set (map vp_nodei (va_list ps))" using p by simp
    then have "vp_nodei p \<in> vp_nodei ` set (va_list (bk_peers bk))" unfolding assms(3) by simp
    then obtain q where "q \<in> set (va_list (bk_peers bk))" "vp_nodei p = vp_nodei q" by blast
    then show ?thesis using assms(1) peer_wf_same [of p q] by (simp add: bucket_wf_def)
  qed
  moreover have "length (va_list ps) = length (va_list (bk_peers bk))" using arg_cong [OF assms(3), of length] by simp
  ultimately show ?thesis
    using assms(1,2) map_pid_same [OF assms(3)] by (simp add: bucket_wf_def del: va_list_length)
qed

text \<open>The routing table up to what the callbacks may change.\<close>

definition same_nodes :: "node_space \<Rightarrow> node_space \<Rightarrow> bool" where
  "same_nodes s t \<longleftrightarrow> space_wf t \<and> ns_myid t = ns_myid s \<and> ns_myver t = ns_myver s \<and> ns_bucket_sz t = ns_bucket_sz s \<and>
     (\<forall>i < NBUCKETS. map vp_nodei (bucket_list t i) = map vp_nodei (bucket_list s i))"

lemma same_nodes_refl: "space_wf s \<Longrightarrow> same_nodes s s"
  by (simp add: same_nodes_def)

lemma same_nodes_trans: "same_nodes s t \<Longrightarrow> same_nodes t u \<Longrightarrow> same_nodes s u"
  by (auto simp: same_nodes_def)

lemma same_nodes_bucket:
  assumes "space_wf s" "i < NBUCKETS" "va_wf ps" "map vp_nodei (va_list ps) = map vp_nodei (bucket_list s i)"
  shows "same_nodes s (s\<lparr>ns_bucket := (ns_bucket s)[i := (ns_bucket s ! i)\<lparr>bk_peers := ps, bk_ts := t\<rparr>]\<rparr>)"
proof -
  have "bucket_wf (ns_myid s) (ns_bucket_sz s) i ((ns_bucket s ! i)\<lparr>bk_peers := ps\<rparr>)"
    using assms by (intro bucket_wf_same) (auto simp: space_wf_def bucket_list_def)
  then have "bucket_wf (ns_myid s) (ns_bucket_sz s) i ((ns_bucket s ! i)\<lparr>bk_peers := ps, bk_ts := t\<rparr>)"
    by (simp add: bucket_wf_def del: va_list_length)
  then show ?thesis
    using assms by (auto simp: same_nodes_def space_wf_def nth_list_update bucket_list_def)
qed

lemma same_nodes_peers:
  assumes "space_wf s" "i < NBUCKETS" "va_wf ps" "map vp_nodei (va_list ps) = map vp_nodei (bucket_list s i)"
  shows "same_nodes s (s\<lparr>ns_bucket := (ns_bucket s)[i := (ns_bucket s ! i)\<lparr>bk_peers := ps\<rparr>]\<rparr>)"
  using same_nodes_bucket [OF assms, of "bk_ts (ns_bucket s ! i)"] by simp

context dht_ops begin

lemma iterate_ok:
  assumes "cb_ok cb" "space_wf space" "i < NBUCKETS" "inv r"
  shows "\<exists>ps r'. varray_iterate (bk_peers (ns_bucket space ! i)) cb r = Some (ps, r') \<and> inv r' \<and> va_wf ps \<and>
    map vp_nodei (va_list ps) = map vp_nodei (bucket_list space i)"
proof -
  note w = space_wfD [OF assms(2,3)]
  obtain ps r' where l: "list_iterate cb (va_list (bk_peers (ns_bucket space ! i))) r = Some (ps, r')" "inv r'"
      "map vp_nodei ps = map vp_nodei (bucket_list space i)"
    using list_iterate_ok [OF assms(1) w(2) assms(4)] unfolding bucket_list_def by blast
  obtain a where "varray_iterate (bk_peers (ns_bucket space ! i)) cb r = Some (a, r')" "va_wf a" "va_list a = ps"
    by (rule varray_iterate_spec [OF w(1) l(1)])
  then show ?thesis using l by blast
qed

lemma buckets_iterate_ok:
  assumes "cb_ok cb" "space_wf space" "i + n = NBUCKETS" "inv r"
  shows "\<exists>space' r'. buckets_iterate cb n i space r = Some (space', r') \<and> inv r' \<and> same_nodes space space'"
  using assms(2-4)
proof (induction n arbitrary: i space r)
  case (Suc n)
  then have i: "i < NBUCKETS" by simp
  obtain ps r1 where p: "varray_iterate (bk_peers (ns_bucket space ! i)) cb r = Some (ps, r1)" "inv r1" "va_wf ps"
      "map vp_nodei (va_list ps) = map vp_nodei (bucket_list space i)"
    using iterate_ok [OF assms(1) Suc.prems(1) i Suc.prems(3)] by blast
  let ?s = "space\<lparr>ns_bucket := (ns_bucket space)[i := (ns_bucket space ! i)\<lparr>bk_peers := ps\<rparr>]\<rparr>"
  have s: "same_nodes space ?s" using same_nodes_peers [OF Suc.prems(1) i p(3,4)] .
  obtain space' r' where "buckets_iterate cb n (i + 1) ?s r1 = Some (space', r')" "inv r'" "same_nodes ?s space'"
    using Suc.IH [of ?s "i + 1" r1] s p(2) Suc.prems(2) by (auto simp: same_nodes_def)
  then show ?case
    using p(1) space_wfD(5) [OF Suc.prems(1) i] same_nodes_trans [OF s] by auto
qed (simp add: same_nodes_refl)

lemma all_buckets:
  assumes "cb_ok cb" "space_wf space" "inv r"
  obtains space' r' where "buckets_iterate cb NBUCKETS 0 space r = Some (space', r')" "inv r'" "same_nodes space space'"
  using buckets_iterate_ok [OF assms(1,2) _ assms(3), of 0 NBUCKETS] by auto

lemma probe_node_ok:
  assumes "space_wf space" "tok_wf t" "inv r"
  shows "\<exists>space' r'. vroute_node_space_probe_node dht space t r = Some (0, space', r') \<and> inv r' \<and> same_nodes space space'"
proof -
  obtain space' r' where "buckets_iterate (aux_space_probe_node_cb dht space t) NBUCKETS 0 space r = Some (space', r')"
      "inv r'" "same_nodes space space'"
    by (rule all_buckets [OF cb_ok_probe_node [OF assms(2), of space] assms(1,3)])
  then show ?thesis
    using space_scan_spec [OF assms(1,2)] same_nodes_refl [OF assms(1)] assms(3)
    by (simp add: vroute_node_space_probe_node_def)
qed

lemma air_service_ok:
  assumes "space_wf space" "srvc_sendable s" "inv r"
  shows "\<exists>space' r'. vroute_node_space_air_service dht space s r = Some (0, space', r') \<and> inv r' \<and> same_nodes space space'"
  by (rule all_buckets [OF cb_ok_air_service [OF assms(2), of space] assms(1,3)])
    (simp add: vroute_node_space_air_service_def)

lemma probe_service_ok:
  assumes "space_wf space" "tok_wf h" "inv r"
  shows "\<exists>space' r'. vroute_node_space_probe_service dht space h r = Some (0, space', r') \<and> inv r' \<and> same_nodes space space'"
  by (rule all_buckets [OF cb_ok_probe_service [OF assms(2), of space] assms(1,3)])
    (simp add: vroute_node_space_probe_service_def)

lemma reflex_addr_ok:
  assumes "space_wf space" "inv r"
  shows "\<exists>space' r'. vroute_node_space_reflex_addr dht space a r = Some (0, space', r') \<and> inv r' \<and> same_nodes space space'"
  by (rule all_buckets [OF cb_ok_reflex_addr [of space a] assms])
    (simp add: vroute_node_space_reflex_addr_def)

lemma probe_connectivity_ok:
  assumes "space_wf space" "inv r"
  shows "\<exists>space' r'. vroute_node_space_probe_connectivity dht space a r = Some (0, space', r') \<and> inv r' \<and> same_nodes space space'"
  by (rule all_buckets [OF cb_ok_probe_connectivity [of space a] assms])
    (simp add: vroute_node_space_probe_connectivity_def)

lemma tick_buckets_ok:
  assumes "space_wf space" "i + n = NBUCKETS" "inv r"
  shows "\<exists>space' r'. tick_buckets dht now later rnd n i space r = Some (space', r') \<and> inv r' \<and> same_nodes space space'"
  using assms
proof (induction n arbitrary: i space r)
  case (Suc n)
  then have i: "i < NBUCKETS" by simp
  note w = space_wfD [OF Suc.prems(1) i]
  obtain ps r1 where p: "varray_iterate (bk_peers (ns_bucket space ! i)) (aux_space_ping_nodei_cb dht space now later) r =
      Some (ps, r1)" "inv r1" "va_wf ps" "map vp_nodei (va_list ps) = map vp_nodei (bucket_list space i)"
    using iterate_ok [OF cb_ok_ping Suc.prems(1) i Suc.prems(3)] by blast
  let ?bk = "(ns_bucket space ! i)\<lparr>bk_peers := ps\<rparr>"
  let ?s = "\<lambda>bk. space\<lparr>ns_bucket := (ns_bucket space)[i := bk]\<rparr>"
  have s: "same_nodes space (?s ?bk)" using same_nodes_peers [OF Suc.prems(1) i p(3,4)] .
  have s': "same_nodes space (?s (?bk\<lparr>bk_ts := later\<rparr>))"
    using same_nodes_bucket [OF Suc.prems(1) i p(3,4), of later] by simp
  have go: "\<exists>space' r'. tick_buckets dht now later rnd n (i + 1) t r2 = Some (space', r') \<and> inv r' \<and> same_nodes space space'"
    if "same_nodes space t" "inv r2" for t r2
    using Suc.IH [of t "i + 1" r2] that Suc.prems(2) same_nodes_trans [OF that(1)] by (auto simp: same_nodes_def)
  have tail: "\<exists>space' r'. tick_buckets dht now later rnd n (i + 1) (?s (?bk\<lparr>bk_ts := later\<rparr>)) r2 = Some (space', r') \<and>
      inv r' \<and> same_nodes space space'" if "inv r2" for r2
    using go [OF s' that] .
  have rand: "\<exists>q. varray_get_rand ps (rnd i) = Some (Some q)" if "varray_size ps \<noteq> 0"
    using varray_get_rand_spec [OF p(3), of "rnd i"] that p(3) by (auto simp: va_size va_list_Nil varray_size_def)
  have call: "\<exists>ret r2. dht (DhtFindClosestNodes c (ns_myid space)) r1 = Some (ret, r2) \<and> inv r2" for c
    using total [OF p(2), of "DhtFindClosestNodes c (ns_myid space)"] Suc.prems(1) by (simp add: space_wf_def)
  have step: "tick_buckets dht now later rnd (Suc n) i space r =
      (if varray_size ps = 0 \<or> bk_ts (ns_bucket space ! i) + ns_max_next_tmo space > now
       then tick_buckets dht now later rnd n (i + 1) (?s ?bk) r1
       else do {
         item \<leftarrow> varray_get_rand ps (rnd i);
         peer \<leftarrow> item;
         if vp_next_tmo peer \<ge> ns_max_next_tmo_unreachable space \<or> vnodeInfo_is_fake (vp_nodei peer)
         then tick_buckets dht now later rnd n (i + 1) (?s ?bk) r1
         else do {
           (ret, r) \<leftarrow> dht (DhtFindClosestNodes (vp_conn peer) (ns_myid space)) r1;
           tick_buckets dht now later rnd n (i + 1) (?s (?bk\<lparr>bk_ts := later\<rparr>)) r
         }
       })"
    using p(1) w(5) by (auto simp: Let_def intro!: arg_cong2 [where f = Option.bind] ext)
  show ?case
  proof (cases "varray_size ps = 0 \<or> bk_ts (ns_bucket space ! i) + ns_max_next_tmo space > now")
    case True
    then show ?thesis using go [OF s p(2)] unfolding step by simp
  next
    case False
    then obtain q where q: "varray_get_rand ps (rnd i) = Some (Some q)" using rand by blast
    obtain ret r2 where r2: "dht (DhtFindClosestNodes (vp_conn q) (ns_myid space)) r1 = Some (ret, r2)" "inv r2"
      using call by blast
    show ?thesis
      using False q r2 go [OF s p(2)] tail [OF r2(2)] unfolding step by simp
  qed
qed (simp add: same_nodes_refl)

lemma tick_ok:
  assumes "space_wf space" "inv r"
  shows "\<exists>space' r'. vroute_node_space_tick dht now later rnd space r = Some (0, space', r') \<and> inv r' \<and> same_nodes space space'"
  using tick_buckets_ok [OF assms(1) _ assms(2), of 0 NBUCKETS now later rnd]
  by (auto simp: vroute_node_space_tick_def)

end

end
