(* ===== verification/TcktSpace.thy ===== *)
theory TcktSpace
  imports NodeSpace "HOL-Library.Multiset"
begin

section \<open>The ticket space (vroute_tckt.c)\<close>

text \<open>
  Tickets record what we have asked for and not yet got: the nonce of a query, so that a response
  is accepted only for a query we sent; a service somebody on this host waits for; a connection
  being probed. A ticket is used up when it is punched, or reaped three seconds after it was
  added. The callbacks of a service probe are functions of the client of the daemon; they act on
  the client's state \<open>'u\<close>. The \<open>cookie\<close> of a connection probe is always the route's node space,
  which the operations get as an argument. Times are unbounded \<open>int\<close>s: the code keeps the time of a ticket in 32
  bits, which is the same until 2038. The last section says what happens when the array of tickets has no free slot.
\<close>

type_synonym 'u number_cb = "vsrvcHash \<Rightarrow> int \<Rightarrow> int \<Rightarrow> 'u \<Rightarrow> 'u"
type_synonym 'u addr_cb = "vsrvcHash \<Rightarrow> sockaddr_in \<Rightarrow> u32 \<Rightarrow> bool \<Rightarrow> 'u \<Rightarrow> 'u"

datatype 'u ticket_info =
    NonceCheck vnonce
  | SrvcProbe vsrvcHash "'u number_cb" "'u addr_cb"
  | ConnProbe vnonce vtoken vnodeConn

abbreviation (input) VTICKET_TOKEN_CHECK :: int where "VTICKET_TOKEN_CHECK \<equiv> 0"
abbreviation (input) VTICKET_SRVC_PROBE :: int where "VTICKET_SRVC_PROBE \<equiv> 1"
abbreviation (input) VTICKET_CONN_PROBE :: int where "VTICKET_CONN_PROBE \<equiv> 2"
abbreviation (input) VPROTO_UNKNOWN :: int where "VPROTO_UNKNOWN \<equiv> 5"

fun tk_type :: "'u ticket_info \<Rightarrow> int" where
  "tk_type (NonceCheck _) = VTICKET_TOKEN_CHECK"
| "tk_type (SrvcProbe _ _ _) = VTICKET_SRVC_PROBE"
| "tk_type (ConnProbe _ _ _) = VTICKET_CONN_PROBE"

record 'u vticket_item =
  tk_ts :: int
  tk_info :: "'u ticket_info"

text \<open>The arguments tickets are checked with, by type.\<close>

datatype ticket_query = QueryNonce vnonce | QuerySrvc vsrvcInfo | QueryConn vnonce

fun tq_type :: "ticket_query \<Rightarrow> int" where
  "tq_type (QueryNonce _) = VTICKET_TOKEN_CHECK"
| "tq_type (QuerySrvc _) = VTICKET_SRVC_PROBE"
| "tq_type (QueryConn _) = VTICKET_CONN_PROBE"

record 'u tckt_space =
  ts_overdue_tmo :: int
  ts_tickets :: "'u vticket_item varray"

subsection \<open>Operations\<close>

definition vticket_init :: "int \<Rightarrow> 'u ticket_info \<Rightarrow> 'u vticket_item" where
  "vticket_init now argv = \<lparr>tk_ts = now, tk_info =
     (case argv of
        NonceCheck nonce \<Rightarrow> NonceCheck (vnonce_copy nonce)
      | SrvcProbe hash ncb icb \<Rightarrow> SrvcProbe (vsrvcHash_copy hash) ncb icb
      | ConnProbe nonce targetId conn \<Rightarrow> ConnProbe (vnonce_copy nonce) (vtoken_copy targetId) conn)\<rparr>"

text \<open>The address callbacks of a service, from address \<open>i\<close> on with \<open>n\<close> to go.\<close>

fun iterate_addrs :: "'u addr_cb \<Rightarrow> vsrvcInfo \<Rightarrow> nat \<Rightarrow> nat \<Rightarrow> 'u \<Rightarrow> 'u option" where
  "iterate_addrs icb srvci 0 i u = Some u"
| "iterate_addrs icb srvci (Suc n) i u = do {
     a \<leftarrow> rd (si_addrs srvci) i;
     iterate_addrs icb srvci n (i + 1)
       (icb (si_hash srvci) (va_addr a) (va_type a) (int i + 1 = si_naddrs srvci) u)
   }"

definition vticket_punch ::
  "'u vticket_item \<Rightarrow> ticket_query \<Rightarrow> node_space \<Rightarrow> 'u \<Rightarrow> (bool \<times> node_space \<times> 'u) option" where
  "vticket_punch ticket argv space u =
     (case (tk_info ticket, argv) of
        (NonceCheck n, QueryNonce nonce) \<Rightarrow> Some (vnonce_equal n nonce, space, u)
      | (SrvcProbe hash ncb icb, QuerySrvc srvci) \<Rightarrow>
          if vsrvcHash_equal hash (si_hash srvci) then do {
            u \<leftarrow> iterate_addrs icb srvci (nat (si_naddrs srvci)) 0
                   (ncb (si_hash srvci) (si_naddrs srvci) (si_proto srvci) u);
            Some (True, space, u)
          }
          else Some (False, space, u)
      | (ConnProbe n targetId conn, QueryConn nonce) \<Rightarrow>
          if vnonce_equal n nonce then do {
            (ret, space) \<leftarrow> vroute_node_space_adjust_connectivity space targetId conn;
            Some (True, space, u)
          }
          else Some (False, space, u)
      | _ \<Rightarrow> None)"

definition vticket_timedout_punch :: "'u vticket_item \<Rightarrow> 'u \<Rightarrow> 'u" where
  "vticket_timedout_punch ticket u =
     (case tk_info ticket of
        NonceCheck _ \<Rightarrow> u
      | SrvcProbe hash ncb icb \<Rightarrow> ncb hash 0 VPROTO_UNKNOWN u
      | ConnProbe _ _ _ \<Rightarrow> u)"

text \<open>Adding: when the array cannot grow the ticket is lost and 0 is returned all the same.\<close>

definition vroute_tckt_space_add_ticket ::
  "bool \<Rightarrow> int \<Rightarrow> 'u tckt_space \<Rightarrow> 'u ticket_info \<Rightarrow> (int \<times> 'u tckt_space) option" where
  "vroute_tckt_space_add_ticket mem now space argv =
     (if \<not> mem then Some (-1, space)
      else do {
        (ret, ts) \<leftarrow> varray_add_tail mem (ts_tickets space) (Some (vticket_init now argv));
        Some (0, space\<lparr>ts_tickets := ts\<rparr>)
      })"

text \<open>
  Checking: tickets of other types and tickets that do not match are passed over, a match is
  removed, and for nonces the search then ends. The loop runs while \<open>i\<close> is below the size, and
  either \<open>i\<close> grows or the size shrinks in each round, so \<open>size - i\<close> rounds, which the first argument
  counts, are enough. The ticket is freed whether or not \<open>varray_del\<close> could remove it; when it could
  not, the array is left with a dangling pointer, and the model stops there.
\<close>

fun check_loop ::
  "nat \<Rightarrow> bool \<Rightarrow> 'u vticket_item varray \<Rightarrow> ticket_query \<Rightarrow> nat \<Rightarrow> bool \<Rightarrow> node_space \<Rightarrow> 'u \<Rightarrow>
     (bool \<times> 'u vticket_item varray \<times> node_space \<times> 'u) option" where
  "check_loop 0 mem ts argv i found space u =
     (if i < varray_size ts then None else Some (found, ts, space, u))"
| "check_loop (Suc n) mem ts argv i found space u =
     (if i < varray_size ts then do {
        item \<leftarrow> varray_get ts (int i);
        ticket \<leftarrow> item;
        if tk_type (tk_info ticket) \<noteq> tq_type argv then check_loop n mem ts argv (i + 1) found space u
        else do {
          (done, space, u) \<leftarrow> vticket_punch ticket argv space u;
          if done then do {
            (item, ts) \<leftarrow> varray_del mem ts (int i);
            ticket \<leftarrow> item;
            if tq_type argv = VTICKET_TOKEN_CHECK then Some (True, ts, space, u)
            else check_loop n mem ts argv i True space u
          }
          else check_loop n mem ts argv (i + 1) found space u
        }
      }
      else Some (found, ts, space, u))"

definition vroute_tckt_space_check_ticket ::
  "bool \<Rightarrow> 'u tckt_space \<Rightarrow> ticket_query \<Rightarrow> node_space \<Rightarrow> 'u \<Rightarrow>
     (bool \<times> 'u tckt_space \<times> node_space \<times> 'u) option" where
  "vroute_tckt_space_check_ticket mem tspace argv space u = do {
     (found, ts, space, u) \<leftarrow> check_loop (varray_size (ts_tickets tspace)) mem (ts_tickets tspace) argv 0 False space u;
     Some (found, tspace\<lparr>ts_tickets := ts\<rparr>, space, u)
   }"

fun reap_loop ::
  "nat \<Rightarrow> bool \<Rightarrow> int \<Rightarrow> int \<Rightarrow> 'u vticket_item varray \<Rightarrow> nat \<Rightarrow> 'u \<Rightarrow> ('u vticket_item varray \<times> 'u) option" where
  "reap_loop 0 mem now tmo ts i u = (if i < varray_size ts then None else Some (ts, u))"
| "reap_loop (Suc n) mem now tmo ts i u =
     (if i < varray_size ts then do {
        item \<leftarrow> varray_get ts (int i);
        ticket \<leftarrow> item;
        if now - tk_ts ticket \<ge> tmo then do {
          let u = vticket_timedout_punch ticket u;
          (item, ts) \<leftarrow> varray_del mem ts (int i);
          ticket \<leftarrow> item;
          reap_loop n mem now tmo ts i u
        }
        else reap_loop n mem now tmo ts (i + 1) u
      }
      else Some (ts, u))"

definition vroute_tckt_space_timed_reap ::
  "bool \<Rightarrow> int \<Rightarrow> 'u tckt_space \<Rightarrow> 'u \<Rightarrow> ('u tckt_space \<times> 'u) option" where
  "vroute_tckt_space_timed_reap mem now tspace u = do {
     (ts, u) \<leftarrow> reap_loop (varray_size (ts_tickets tspace)) mem now (ts_overdue_tmo tspace) (ts_tickets tspace) 0 u;
     Some (tspace\<lparr>ts_tickets := ts\<rparr>, u)
   }"

fun clear_tickets :: "nat \<Rightarrow> bool \<Rightarrow> 'u vticket_item varray \<Rightarrow> 'u vticket_item varray option" where
  "clear_tickets 0 mem ts = (if varray_size ts > 0 then None else Some ts)"
| "clear_tickets (Suc n) mem ts =
     (if varray_size ts > 0 then do {
        (item, ts) \<leftarrow> varray_pop_tail mem ts;
        ticket \<leftarrow> item;
        clear_tickets n mem ts
      }
      else Some ts)"

definition vroute_tckt_space_clear :: "bool \<Rightarrow> 'u tckt_space \<Rightarrow> 'u tckt_space option" where
  "vroute_tckt_space_clear mem tspace = do {
     ts \<leftarrow> clear_tickets (varray_size (ts_tickets tspace)) mem (ts_tickets tspace);
     Some (tspace\<lparr>ts_tickets := ts\<rparr>)
   }"

definition vroute_tckt_space_init :: "'u tckt_space" where
  "vroute_tckt_space_init = \<lparr>ts_overdue_tmo = 3, ts_tickets = varray_init 8\<rparr>"

subsection \<open>The operations on the list of tickets\<close>

definition tckt_wf :: "'u tckt_space \<Rightarrow> bool" where
  "tckt_wf tspace \<longleftrightarrow> va_wf (ts_tickets tspace)"

text \<open>Removing a ticket needs a free slot behind the last one (see \<open>varray_del\<close>).\<close>

definition tckt_room :: "'u tckt_space \<Rightarrow> bool" where
  "tckt_room tspace \<longleftrightarrow> va_used (ts_tickets tspace) < va_capc (ts_tickets tspace)"

definition tickets :: "'u tckt_space \<Rightarrow> 'u vticket_item list" where
  "tickets tspace = va_list (ts_tickets tspace)"

fun punches :: "ticket_query \<Rightarrow> 'u ticket_info \<Rightarrow> bool" where
  "punches (QueryNonce nonce) (NonceCheck n) = vnonce_equal n nonce"
| "punches (QuerySrvc srvci) (SrvcProbe hash _ _) = vsrvcHash_equal hash (si_hash srvci)"
| "punches (QueryConn nonce) (ConnProbe n _ _) = vnonce_equal n nonce"
| "punches _ _ = False"

fun check_list ::
  "ticket_query \<Rightarrow> 'u vticket_item list \<Rightarrow> node_space \<Rightarrow> 'u \<Rightarrow>
     (bool \<times> 'u vticket_item list \<times> node_space \<times> 'u) option" where
  "check_list argv [] space u = Some (False, [], space, u)"
| "check_list argv (t # ts) space u =
     (if \<not> punches argv (tk_info t) then do {
        (found, ts', space, u) \<leftarrow> check_list argv ts space u;
        Some (found, t # ts', space, u)
      }
      else do {
        (done, space, u) \<leftarrow> vticket_punch t argv space u;
        if tq_type argv = VTICKET_TOKEN_CHECK then Some (True, ts, space, u)
        else do {
          (found, ts', space, u) \<leftarrow> check_list argv ts space u;
          Some (True, ts', space, u)
        }
      })"

lemma punches_type: "punches argv info \<Longrightarrow> tk_type info = tq_type argv"
  by (cases "(argv, info)" rule: punches.cases) auto

lemma punch_misses:
  "\<not> punches argv (tk_info t) \<Longrightarrow> tk_type (tk_info t) = tq_type argv \<Longrightarrow>
     vticket_punch t argv space u = Some (False, space, u)"
  by (cases "(argv, tk_info t)" rule: punches.cases) (auto simp: vticket_punch_def)

lemma punch_hits:
  "punches argv (tk_info t) \<Longrightarrow> vticket_punch t argv space u = Some (d, space', u') \<Longrightarrow> d"
  by (cases "(argv, tk_info t)" rule: punches.cases)
    (auto simp: vticket_punch_def run_simps split: if_splits)

text \<open>One round of the loop, in terms of the ticket it looks at.\<close>

lemma check_loop_step:
  assumes "va_wf ts" "i < length (va_list ts)"
  defines "t \<equiv> va_list ts ! i"
  shows "check_loop (Suc n) mem ts argv i found space u =
    (if \<not> punches argv (tk_info t) then check_loop n mem ts argv (i + 1) found space u
     else do {
       (done, space, u) \<leftarrow> vticket_punch t argv space u;
       (item, ts) \<leftarrow> varray_del mem ts (int i);
       ticket \<leftarrow> item;
       if tq_type argv = VTICKET_TOKEN_CHECK then Some (True, ts, space, u)
       else check_loop n mem ts argv i True space u
     })"
proof -
  have g: "varray_get ts (int i) = Some (Some t)"
    using assms by (simp del: va_list_length)
  have s: "i < varray_size ts" using assms by (simp del: va_list_length)
  show ?thesis
    using g s punch_misses [of argv t space u] punches_type [of argv "tk_info t"] punch_hits [of argv t space u]
    by (cases "vticket_punch t argv space u") (auto split: bind_splits)
qed

lemma take_drop_del: "i < length xs \<Longrightarrow> take i (list_del i xs) = take i xs \<and> drop i (list_del i xs) = drop (Suc i) xs"
  by (simp add: list_del_def)

lemma check_loop_refines:
  assumes "va_wf ts" "va_used ts < va_capc ts" "length (va_list ts) \<le> i + n" "i \<le> length (va_list ts)"
    "check_list argv (drop i (va_list ts)) space u = Some (f, l, space', u')"
  shows "\<exists>ts'. check_loop n True ts argv i found space u = Some (found \<or> f, ts', space', u') \<and> va_wf ts' \<and>
    va_used ts' < va_capc ts' \<and> va_list ts' = take i (va_list ts) @ l"
  using assms
proof (induction n arbitrary: ts i found space u f l)
  case 0
  then have "i = length (va_list ts)" by (simp del: va_list_length)
  with 0 show ?case by (simp del: va_list_length)
next
  case (Suc n)
  show ?case
  proof (cases "i = length (va_list ts)")
    case True
    with Suc.prems show ?thesis by (simp del: va_list_length)
  next
    case False
    then have i: "i < length (va_list ts)" using Suc.prems(4) by (simp del: va_list_length)
    let ?t = "va_list ts ! i"
    have d: "drop i (va_list ts) = ?t # drop (Suc i) (va_list ts)" by (rule Cons_nth_drop_Suc [symmetric, OF i])
    note step = check_loop_step [OF Suc.prems(1) i]
    note c = Suc.prems(5) [unfolded d]
    show ?thesis
    proof (cases "punches argv (tk_info ?t)")
      case False
      then obtain l' where l': "check_list argv (drop (i + 1) (va_list ts)) space u = Some (f, l', space', u')" "l = ?t # l'"
        using c by (auto simp: run_simps)
      obtain ts' where "check_loop n True ts argv (i + 1) found space u = Some (found \<or> f, ts', space', u')" "va_wf ts'"
          "va_used ts' < va_capc ts'" "va_list ts' = take (i + 1) (va_list ts) @ l'"
        using Suc.IH [OF Suc.prems(1,2) _ _ l'(1), of found] Suc.prems(3) i by (auto simp del: va_list_length)
      moreover have "take (i + 1) (va_list ts) @ l' = take i (va_list ts) @ l"
        using i l'(2) by (simp add: take_Suc_conv_app_nth del: va_list_length)
      ultimately show ?thesis unfolding step using False by auto
    next
      case True
      obtain dn s1 u1 where p: "vticket_punch ?t argv space u = Some (dn, s1, u1)"
        using c True by (auto simp: run_simps)
      have iu: "i < va_used ts" using i Suc.prems(1) by simp
      obtain ts1 where ts1: "varray_del True ts (int i) = Some (Some ?t, ts1)" "va_wf ts1"
          "va_list ts1 = list_del i (va_list ts)" "va_used ts1 < va_capc ts1"
        using varray_del_spec [OF Suc.prems(1) iu] Suc.prems(2) by blast
      show ?thesis
      proof (cases "tq_type argv = VTICKET_TOKEN_CHECK")
        case tok: True
        have "f" "l = drop (Suc i) (va_list ts)" "space' = s1" "u' = u1" using c True p tok by auto
        then show ?thesis unfolding step using True p tok ts1 by (simp add: list_del_def)
      next
        case tok: False
        have "Option.bind (check_list argv (drop (Suc i) (va_list ts)) s1 u1)
            (\<lambda>(found, ts', space, u). Some (True, ts', space, u)) = Some (f, l, space', u')"
          using c True p tok by simp
        then obtain f' where c0: "check_list argv (drop (Suc i) (va_list ts)) s1 u1 = Some (f', l, space', u')" "f"
          by (cases "check_list argv (drop (Suc i) (va_list ts)) s1 u1") auto
        then have c1: "check_list argv (drop i (va_list ts1)) s1 u1 = Some (f', l, space', u')" "f"
          using take_drop_del [OF i] unfolding ts1(3) by metis+
        have "length (va_list ts1) = length (va_list ts) - 1" using i ts1(3) by (simp del: va_list_length)
        then have "length (va_list ts1) \<le> i + n" "i \<le> length (va_list ts1)" using Suc.prems(3) i by linarith+
        then obtain ts' where "check_loop n True ts1 argv i True s1 u1 = Some (True \<or> f', ts', space', u')" "va_wf ts'"
          "va_used ts' < va_capc ts'" "va_list ts' = take i (va_list ts1) @ l"
          using Suc.IH [OF ts1(2,4) _ _ c1(1), of True] by blast
        then show ?thesis unfolding step using True p tok ts1 i c1(2) take_drop_del [OF i]
          by (simp del: va_list_length)
      qed
    qed
  qed
qed

lemma check_ticket_refines:
  assumes "tckt_wf tspace" "tckt_room tspace" "check_list argv (tickets tspace) space u = Some (f, l, space', u')"
  shows "\<exists>tspace'. vroute_tckt_space_check_ticket True tspace argv space u = Some (f, tspace', space', u') \<and>
    tckt_wf tspace' \<and> tckt_room tspace' \<and> tickets tspace' = l \<and> ts_overdue_tmo tspace' = ts_overdue_tmo tspace"
proof -
  have w: "va_wf (ts_tickets tspace)" "va_used (ts_tickets tspace) < va_capc (ts_tickets tspace)"
    using assms by (simp_all add: tckt_wf_def tckt_room_def)
  have c: "check_list argv (drop 0 (va_list (ts_tickets tspace))) space u = Some (f, l, space', u')"
    using assms by (simp add: tickets_def)
  obtain ts' where "check_loop (varray_size (ts_tickets tspace)) True (ts_tickets tspace) argv 0 False space u =
      Some (False \<or> f, ts', space', u')" "va_wf ts'" "va_used ts' < va_capc ts'"
      "va_list ts' = take 0 (va_list (ts_tickets tspace)) @ l"
    using check_loop_refines [OF w(1,2) _ _ c, of "varray_size (ts_tickets tspace)" False] w(1)
    by (auto simp del: va_list_length)
  then show ?thesis
    by (simp add: vroute_tckt_space_check_ticket_def tckt_wf_def tckt_room_def tickets_def del: va_list_length)
qed

subsection \<open>Adding, reaping and clearing\<close>

lemma add_ticket_spec:
  assumes "tckt_wf tspace"
  shows "\<exists>tspace'. vroute_tckt_space_add_ticket True now tspace argv = Some (0, tspace') \<and> tckt_wf tspace' \<and>
    tickets tspace' = tickets tspace @ [vticket_init now argv] \<and> ts_overdue_tmo tspace' = ts_overdue_tmo tspace"
proof -
  obtain ts where "varray_add_tail True (ts_tickets tspace) (Some (vticket_init now argv)) = Some (0, ts)" "va_wf ts"
      "va_list ts = va_list (ts_tickets tspace) @ [vticket_init now argv]"
    using varray_add_tail_spec [of "ts_tickets tspace" "vticket_init now argv"] assms by (auto simp: tckt_wf_def)
  then show ?thesis
    by (simp add: vroute_tckt_space_add_ticket_def tckt_wf_def tickets_def)
qed

definition overdue :: "int \<Rightarrow> int \<Rightarrow> 'u vticket_item \<Rightarrow> bool" where
  "overdue now tmo t \<longleftrightarrow> now - tk_ts t \<ge> tmo"

lemma reap_loop_step:
  assumes "va_wf ts" "i < length (va_list ts)"
  shows "reap_loop (Suc n) mem now tmo ts i u =
    (if overdue now tmo (va_list ts ! i) then do {
       (item, ts') \<leftarrow> varray_del mem ts (int i);
       ticket \<leftarrow> item;
       reap_loop n mem now tmo ts' i (vticket_timedout_punch (va_list ts ! i) u)
     }
     else reap_loop n mem now tmo ts (i + 1) u)"
  using assms by (simp add: overdue_def del: va_list_length)

lemma reap_loop_spec:
  assumes "va_wf ts" "va_used ts < va_capc ts" "length (va_list ts) \<le> i + n" "i \<le> length (va_list ts)"
  shows "\<exists>ts'. reap_loop n True now tmo ts i u =
      Some (ts', fold vticket_timedout_punch (filter (overdue now tmo) (drop i (va_list ts))) u) \<and> va_wf ts' \<and>
    va_used ts' < va_capc ts' \<and>
    va_list ts' = take i (va_list ts) @ filter (\<lambda>t. \<not> overdue now tmo t) (drop i (va_list ts))"
  using assms
proof (induction n arbitrary: ts i u)
  case 0
  then have "i = length (va_list ts)" by (simp del: va_list_length)
  with 0 show ?case by (simp del: va_list_length)
next
  case (Suc n)
  show ?case
  proof (cases "i = length (va_list ts)")
    case True
    with Suc.prems show ?thesis by (simp del: va_list_length)
  next
    case False
    then have i: "i < length (va_list ts)" using Suc.prems(4) by (simp del: va_list_length)
    let ?t = "va_list ts ! i"
    have d: "drop i (va_list ts) = ?t # drop (Suc i) (va_list ts)" by (rule Cons_nth_drop_Suc [symmetric, OF i])
    show ?thesis
    proof (cases "overdue now tmo ?t")
      case False
      obtain ts' where "reap_loop n True now tmo ts (i + 1) u =
          Some (ts', fold vticket_timedout_punch (filter (overdue now tmo) (drop (i + 1) (va_list ts))) u)" "va_wf ts'"
          "va_used ts' < va_capc ts'"
          "va_list ts' = take (i + 1) (va_list ts) @ filter (\<lambda>t. \<not> overdue now tmo t) (drop (i + 1) (va_list ts))"
        using Suc.IH [OF Suc.prems(1,2), of "i + 1" u] Suc.prems(3) i by (auto simp del: va_list_length)
      then show ?thesis
        unfolding reap_loop_step [OF Suc.prems(1) i] d using False i
        by (simp add: take_Suc_conv_app_nth del: va_list_length)
    next
      case True
      have iu: "i < va_used ts" using i Suc.prems(1) by simp
      obtain ts1 where ts1: "varray_del True ts (int i) = Some (Some ?t, ts1)" "va_wf ts1"
          "va_list ts1 = list_del i (va_list ts)" "va_used ts1 < va_capc ts1"
        using varray_del_spec [OF Suc.prems(1) iu] Suc.prems(2) by blast
      have "length (va_list ts1) = length (va_list ts) - 1" using i ts1(3) by (simp del: va_list_length)
      then have "length (va_list ts1) \<le> i + n" "i \<le> length (va_list ts1)" using Suc.prems(3) i by linarith+
      then show ?thesis
        using Suc.IH [OF ts1(2,4), of i "vticket_timedout_punch ?t u"] ts1 take_drop_del [OF i] True
        unfolding reap_loop_step [OF Suc.prems(1) i] d by simp
    qed
  qed
qed

lemma timed_reap_spec:
  assumes "tckt_wf tspace" "tckt_room tspace"
  shows "\<exists>tspace'. vroute_tckt_space_timed_reap True now tspace u =
      Some (tspace', fold vticket_timedout_punch (filter (overdue now (ts_overdue_tmo tspace)) (tickets tspace)) u) \<and>
    tckt_wf tspace' \<and> tckt_room tspace' \<and> ts_overdue_tmo tspace' = ts_overdue_tmo tspace \<and>
    tickets tspace' = filter (\<lambda>t. \<not> overdue now (ts_overdue_tmo tspace) t) (tickets tspace)"
proof -
  obtain ts' where "reap_loop (varray_size (ts_tickets tspace)) True now (ts_overdue_tmo tspace) (ts_tickets tspace) 0 u =
      Some (ts', fold vticket_timedout_punch (filter (overdue now (ts_overdue_tmo tspace)) (tickets tspace)) u)"
      "va_wf ts'" "va_used ts' < va_capc ts'"
      "va_list ts' = filter (\<lambda>t. \<not> overdue now (ts_overdue_tmo tspace) t) (tickets tspace)"
    using reap_loop_spec [of "ts_tickets tspace" 0 "varray_size (ts_tickets tspace)" now "ts_overdue_tmo tspace" u] assms
    by (auto simp: tckt_wf_def tckt_room_def tickets_def simp del: va_list_length)
  then show ?thesis
    by (simp add: vroute_tckt_space_timed_reap_def tckt_wf_def tckt_room_def tickets_def)
qed

text \<open>With no free slot behind the last ticket the first removal reads past the array.\<close>

lemma reap_full_crashes:
  assumes "tckt_wf tspace" "\<not> tckt_room tspace" "tickets tspace \<noteq> []"
    "overdue now (ts_overdue_tmo tspace) (hd (tickets tspace))"
  shows "vroute_tckt_space_timed_reap True now tspace u = None"
proof -
  let ?ts = "ts_tickets tspace"
  have w: "va_wf ?ts" using assms(1) by (simp add: tckt_wf_def)
  have u: "0 < va_used ?ts" using assms(3) w by (simp add: tickets_def va_list_Nil)
  have "va_used ?ts = va_capc ?ts" using assms(2) w by (simp add: tckt_room_def va_wf_def)
  then have d: "varray_del True ?ts (int 0) = None" using varray_del_spec [OF w u] by blast
  obtain n where n: "varray_size ?ts = Suc n" using u by (cases "va_used ?ts") (auto simp: varray_size_def)
  have "0 < length (va_list ?ts)" using assms(3) by (simp add: tickets_def)
  then have "reap_loop (Suc n) True now (ts_overdue_tmo tspace) ?ts 0 u = None"
    using d assms(3,4) reap_loop_step [OF w, of 0 n True now "ts_overdue_tmo tspace" u]
    by (simp add: tickets_def hd_conv_nth del: reap_loop.simps)
  then show ?thesis by (simp add: vroute_tckt_space_timed_reap_def n del: reap_loop.simps)
qed

lemma clear_tickets_spec:
  "va_wf ts \<Longrightarrow> length (va_list ts) = n \<Longrightarrow> \<exists>ts'. clear_tickets n True ts = Some ts' \<and> va_wf ts' \<and> va_list ts' = []"
proof (induction n arbitrary: ts)
  case 0
  then show ?case by (simp add: va_size del: va_list_length)
next
  case (Suc n)
  then have ne: "va_list ts \<noteq> []" by (metis list.size(3) nat.distinct(1))
  obtain ts1 where ts1: "varray_pop_tail True ts = Some (Some (last (va_list ts)), ts1)" "va_wf ts1"
      "va_list ts1 = butlast (va_list ts)"
    by (rule varray_pop_tail_spec [OF Suc.prems(1) ne])
  have "0 < varray_size ts" using Suc.prems ne by (simp add: va_size del: va_list_length)
  moreover have "length (va_list ts1) = n" using Suc.prems(2) ts1(3) by simp
  ultimately show ?case using Suc.IH [OF ts1(2)] ts1(1) by simp
qed

lemma tckt_clear_spec:
  assumes "tckt_wf tspace"
  shows "\<exists>tspace'. vroute_tckt_space_clear True tspace = Some tspace' \<and> tckt_wf tspace' \<and> tickets tspace' = []"
  using clear_tickets_spec [of "ts_tickets tspace"] assms
  by (auto simp: vroute_tckt_space_clear_def tckt_wf_def tickets_def va_size simp del: va_list_length)

lemma tckt_init_spec:
  "tckt_wf vroute_tckt_space_init" "tickets vroute_tckt_space_init = []" "ts_overdue_tmo vroute_tckt_space_init = 3"
  by (simp_all add: vroute_tckt_space_init_def tckt_wf_def tickets_def)

subsection \<open>Checks of each type\<close>

definition waits_for :: "vnonce \<Rightarrow> 'u vticket_item \<Rightarrow> bool" where
  "waits_for nonce t \<longleftrightarrow> punches (QueryNonce nonce) (tk_info t)"

lemma check_list_nonce:
  "check_list (QueryNonce nonce) ts space u =
     Some (\<exists>t \<in> set ts. waits_for nonce t,
       takeWhile (\<lambda>t. \<not> waits_for nonce t) ts @ tl (dropWhile (\<lambda>t. \<not> waits_for nonce t) ts), space, u)"
proof (induction ts)
  case (Cons t ts)
  show ?case
  proof (cases "waits_for nonce t")
    case True
    then obtain n where "tk_info t = NonceCheck n" "vnonce_equal n nonce"
      by (cases "tk_info t") (auto simp: waits_for_def)
    then show ?thesis by (simp add: vticket_punch_def waits_for_def)
  next
    case False
    then show ?thesis using Cons by (simp add: waits_for_def)
  qed
qed simp

text \<open>What a service probe's client is told when its service arrives.\<close>

definition tell_service :: "vsrvcInfo \<Rightarrow> 'u vticket_item \<Rightarrow> 'u \<Rightarrow> 'u" where
  "tell_service s t u =
     (case tk_info t of
        SrvcProbe hash ncb icb \<Rightarrow>
          fold (\<lambda>i. icb (si_hash s) (va_addr (si_addrs s ! i)) (va_type (si_addrs s ! i)) (int i + 1 = si_naddrs s))
            [0..<nat (si_naddrs s)] (ncb (si_hash s) (si_naddrs s) (si_proto s) u)
      | _ \<Rightarrow> u)"

lemma iterate_addrs_fold:
  "i + n \<le> length (si_addrs s) \<Longrightarrow> iterate_addrs icb s n i u =
     Some (fold (\<lambda>i. icb (si_hash s) (va_addr (si_addrs s ! i)) (va_type (si_addrs s ! i)) (int i + 1 = si_naddrs s))
       [i..<i + n] u)"
proof (induction n arbitrary: i u)
  case (Suc n)
  have "[i..<i + Suc n] = i # [Suc i..<Suc i + n]" by (simp add: upt_rec)
  then show ?case using Suc by simp
qed simp

lemma check_list_srvc:
  assumes "nat (si_naddrs s) \<le> length (si_addrs s)"
  shows "check_list (QuerySrvc s) ts space u =
     Some (\<exists>t \<in> set ts. punches (QuerySrvc s) (tk_info t), filter (\<lambda>t. \<not> punches (QuerySrvc s) (tk_info t)) ts, space,
       fold (tell_service s) (filter (\<lambda>t. punches (QuerySrvc s) (tk_info t)) ts) u)"
proof (induction ts arbitrary: u)
  case (Cons t ts)
  show ?case
  proof (cases "punches (QuerySrvc s) (tk_info t)")
    case True
    then obtain hash ncb icb where "tk_info t = SrvcProbe hash ncb icb" "vsrvcHash_equal hash (si_hash s)"
      by (cases "tk_info t") auto
    then show ?thesis
      using Cons assms by (simp add: vticket_punch_def iterate_addrs_fold tell_service_def)
  next
    case False
    then show ?thesis using Cons by simp
  qed
qed simp

text \<open>Tickets hold well-formed IDs and nonces, whatever they were made from.\<close>

fun info_wf :: "'u ticket_info \<Rightarrow> bool" where
  "info_wf (NonceCheck n) = nonce_wf n"
| "info_wf (SrvcProbe hash _ _) = tok_wf hash"
| "info_wf (ConnProbe n targetId _) = (nonce_wf n \<and> tok_wf targetId)"

lemma nonce_wf_copy [simp, wf_intros]: "nonce_wf (vnonce_copy n)"
  by (simp add: nonce_wf_def vnonce_copy_def VNONCE_LEN_def)

lemma info_wf_init [simp]: "info_wf (tk_info (vticket_init now argv))"
  by (cases argv) (simp_all add: vticket_init_def)

definition tickets_wf :: "'u tckt_space \<Rightarrow> bool" where
  "tickets_wf tspace \<longleftrightarrow> tckt_wf tspace \<and> (\<forall>t \<in> set (tickets tspace). info_wf (tk_info t))"


lemma same_nodes_put:
  assumes "space_wf space" "idx < NBUCKETS" "i < length (bucket_list space idx)"
    "vp_nodei p = vp_nodei (bucket_list space idx ! i)"
  shows "same_nodes space (put_peer space idx i p)"
proof -
  have "peer_wf (ns_myid space) idx (bucket_list space idx ! i)"
    using space_wfD(2) [OF assms(1,2)] assms(3) by simp
  then have "peer_wf (ns_myid space) idx p" using peer_wf_same [OF assms(4)] by simp
  moreover have "pid p = pid (bucket_list space idx ! i)" using assms(4) by (simp add: pid_def)
  ultimately have "space_wf (put_peer space idx i p)" using space_wf_put [OF assms(1-3)] by simp
  moreover have "map vp_nodei ((bucket_list space idx)[i := p]) = map vp_nodei (bucket_list space idx)"
    using assms(3,4) by (simp add: map_update list_update_same_conv)
  then have "map vp_nodei (bucket_list (put_peer space idx i p) j) = map vp_nodei (bucket_list space j)" for j
    using bucket_list_put [OF assms(1-3)] by (cases "j = idx") simp_all
  ultimately show ?thesis by (simp add: same_nodes_def)
qed

definition adjusted :: "vnodeConn \<Rightarrow> vpeer \<Rightarrow> vpeer" where
  "adjusted conn p = p\<lparr>vp_conn := vnodeConn_adjust (vp_conn p) conn\<rparr>"

lemma adjust_connectivity_spec:
  assumes "space_wf space" "tok_wf t"
  shows "\<exists>space'. vroute_node_space_adjust_connectivity space t conn = Some (0, space') \<and> same_nodes space space' \<and>
    (\<forall>i < NBUCKETS. bucket_list space' i = map (\<lambda>p. if pid p = t \<and> i = vnodeId_bucket (ns_myid space) t
       then adjusted conn p else p) (bucket_list space i))"
proof (cases "find_idx (\<lambda>p. pid p = t) (bucket_list space (vnodeId_bucket (ns_myid space) t))")
  case None
  then have "pid p \<noteq> t" if "p \<in> set (bucket_list space (vnodeId_bucket (ns_myid space) t))" for p
    using that by simp
  then have "map (\<lambda>p. if pid p = t \<and> i = vnodeId_bucket (ns_myid space) t then adjusted conn p else p)
      (bucket_list space i) = bucket_list space i" for i
    by (intro map_idI) auto
  then show ?thesis
    using space_scan_spec [OF assms] assms(1) None
    by (simp add: vroute_node_space_adjust_connectivity_def same_nodes_refl del: find_idx_None)
next
  case (Some k)
  let ?b = "vnodeId_bucket (ns_myid space) t"
  let ?ps = "bucket_list space ?b"
  have k: "k < length ?ps" "pid (?ps ! k) = t" using find_idx_Some [OF Some] by auto
  have "?ps[k := adjusted conn (?ps ! k)] = map (\<lambda>p. if pid p = t then adjusted conn p else p) ?ps"
  proof (rule nth_equalityI)
    fix j assume "j < length (?ps[k := adjusted conn (?ps ! k)])"
    then have j: "j < length ?ps" by simp
    have "pid (?ps ! j) = t \<longleftrightarrow> j = k"
      using nth_eq_iff_index_eq [of "map pid ?ps" j k] space_wfD(3) [OF assms(1) bucket_in_range] j k by simp
    then show "?ps[k := adjusted conn (?ps ! k)] ! j = map (\<lambda>p. if pid p = t then adjusted conn p else p) ?ps ! j"
      using j k by (auto simp: nth_list_update)
  qed simp
  then have "bucket_list (put_peer space ?b k (adjusted conn (?ps ! k))) i =
      map (\<lambda>p. if pid p = t \<and> i = ?b then adjusted conn p else p) (bucket_list space i)" if "i < NBUCKETS" for i
    using bucket_list_put [OF assms(1) bucket_in_range k(1)] by (cases "i = ?b") simp_all
  moreover have "same_nodes space (put_peer space ?b k (adjusted conn (?ps ! k)))"
    by (rule same_nodes_put [OF assms(1) bucket_in_range k(1)]) (simp add: adjusted_def)
  ultimately show ?thesis
    using space_scan_spec [OF assms] Some by (simp add: vroute_node_space_adjust_connectivity_def adjusted_def)
qed

lemma check_list_conn:
  assumes "space_wf space" "\<forall>t \<in> set ts. info_wf (tk_info t)"
  shows "\<exists>space'. check_list (QueryConn nonce) ts space u =
     Some (\<exists>t \<in> set ts. punches (QueryConn nonce) (tk_info t), filter (\<lambda>t. \<not> punches (QueryConn nonce) (tk_info t)) ts,
       space', u) \<and> same_nodes space space'"
  using assms
proof (induction ts arbitrary: space)
  case (Cons t ts)
  show ?case
  proof (cases "punches (QueryConn nonce) (tk_info t)")
    case True
    then obtain n targetId conn where t: "tk_info t = ConnProbe n targetId conn" "vnonce_equal n nonce"
      by (cases "tk_info t") auto
    then have "tok_wf targetId" using Cons.prems(2) by (metis info_wf.simps(3) list.set_intros(1))
    then obtain s1 where s1: "vroute_node_space_adjust_connectivity space targetId conn = Some (0, s1)" "same_nodes space s1"
      using adjust_connectivity_spec [OF Cons.prems(1)] by blast
    then obtain s2 where "check_list (QueryConn nonce) ts s1 u =
       Some (\<exists>t \<in> set ts. punches (QueryConn nonce) (tk_info t), filter (\<lambda>t. \<not> punches (QueryConn nonce) (tk_info t)) ts,
       s2, u)" "same_nodes s1 s2"
      using Cons.IH [of s1] Cons.prems(2) by (auto simp: same_nodes_def)
    then show ?thesis
      using t s1 same_nodes_trans [OF s1(2)] by (auto simp: vticket_punch_def)
  next
    case False
    obtain s1 where "check_list (QueryConn nonce) ts space u =
       Some (\<exists>t \<in> set ts. punches (QueryConn nonce) (tk_info t), filter (\<lambda>t. \<not> punches (QueryConn nonce) (tk_info t)) ts,
       s1, u)" "same_nodes space s1"
      using Cons.IH [OF Cons.prems(1)] Cons.prems(2) by auto
    then show ?thesis using False by auto
  qed
qed (simp add: same_nodes_refl)

subsection \<open>Pending queries\<close>

text \<open>
  What the route needs to know of the tickets to trust a response: the nonces that queries were
  sent with and no response has been accepted for.
\<close>

fun nonce_of :: "'u ticket_info \<Rightarrow> vnonce option" where
  "nonce_of (NonceCheck n) = Some n"
| "nonce_of _ = None"

definition pending :: "'u tckt_space \<Rightarrow> vnonce multiset" where
  "pending tspace = mset (List.map_filter (\<lambda>t. nonce_of (tk_info t)) (tickets tspace))"

fun settle_times :: "('n \<Rightarrow> 's \<Rightarrow> (bool \<times> 's) option) \<Rightarrow> nat \<Rightarrow> 'n \<Rightarrow> 's \<Rightarrow> (nat \<times> 's) option" where
  "settle_times settle 0 n s = Some (0, s)"
| "settle_times settle (Suc k) n s = do {
     (accepted, s) \<leftarrow> settle n s;
     (m, s) \<leftarrow> settle_times settle k n s;
     Some ((if accepted then 1 else 0) + m, s)
   }"

locale pending_checks =
  fixes ok :: "'s \<Rightarrow> bool" and room :: "'s \<Rightarrow> bool" and valid :: "'n \<Rightarrow> bool"
    and outstanding :: "'s \<Rightarrow> 'n multiset"
    and issue :: "'n \<Rightarrow> 's \<Rightarrow> 's option" and settle :: "'n \<Rightarrow> 's \<Rightarrow> (bool \<times> 's) option"
  assumes issues: "\<lbrakk>ok s; valid n\<rbrakk> \<Longrightarrow> \<exists>s'. issue n s = Some s' \<and> ok s' \<and> outstanding s' = add_mset n (outstanding s)"
    and settles: "\<lbrakk>ok s; room s; valid n\<rbrakk> \<Longrightarrow>
      \<exists>s'. settle n s = Some (n \<in># outstanding s, s') \<and> ok s' \<and> room s' \<and> outstanding s' = outstanding s - {#n#}"
begin

text \<open>Of any number of responses with a nonce, as many are accepted as queries were sent with it.\<close>

lemma settle_times_count:
  "\<lbrakk>ok s; room s; valid n\<rbrakk> \<Longrightarrow> \<exists>s'. settle_times settle k n s = Some (min k (count (outstanding s) n), s') \<and>
     ok s' \<and> room s' \<and> count (outstanding s') n = count (outstanding s) n - k \<and>
     (\<forall>m. m \<noteq> n \<longrightarrow> count (outstanding s') m = count (outstanding s) m)"
proof (induction k arbitrary: s)
  case (Suc k)
  obtain s1 where s1: "settle n s = Some (n \<in># outstanding s, s1)" "ok s1" "room s1" "outstanding s1 = outstanding s - {#n#}"
    using settles [OF Suc.prems] by blast
  obtain s2 where "settle_times settle k n s1 = Some (min k (count (outstanding s1) n), s2)" "ok s2" "room s2"
      "count (outstanding s2) n = count (outstanding s1) n - k"
      "\<forall>m. m \<noteq> n \<longrightarrow> count (outstanding s2) m = count (outstanding s1) m"
    using Suc.IH [OF s1(2,3) Suc.prems(3)] by blast
  then show ?case using s1 by (cases "count (outstanding s) n") (auto simp: not_in_iff simp flip: count_greater_zero_iff)
qed simp

lemma unasked_refused:
  "\<lbrakk>ok s; room s; valid n; n \<notin># outstanding s\<rbrakk> \<Longrightarrow> \<exists>s'. settle n s = Some (False, s') \<and> outstanding s' = outstanding s"
  using settles [of s n] by (auto simp: diff_single_trivial)

lemma asked_accepted_once:
  assumes "ok s" "valid n" "n \<notin># outstanding s" "issue n s = Some s1" "room s1"
  shows "\<exists>s2 s3. settle n s1 = Some (True, s2) \<and> settle n s2 = Some (False, s3)"
proof -
  have s1: "ok s1" "outstanding s1 = add_mset n (outstanding s)" using issues [OF assms(1,2)] assms(4) by auto
  obtain s2 where s2: "settle n s1 = Some (True, s2)" "ok s2" "room s2" "outstanding s2 = outstanding s"
    using settles [OF s1(1) assms(5,2)] s1(2) by auto
  then show ?thesis using unasked_refused [OF s2(2,3) assms(2)] assms(3) by auto
qed

end

definition issue_check :: "int \<Rightarrow> vnonce \<Rightarrow> 'u tckt_space \<Rightarrow> 'u tckt_space option" where
  "issue_check now nonce tspace =
     map_option snd (vroute_tckt_space_add_ticket True now tspace (NonceCheck nonce))"

definition settle_check :: "node_space \<Rightarrow> 'u \<Rightarrow> vnonce \<Rightarrow> 'u tckt_space \<Rightarrow> (bool \<times> 'u tckt_space) option" where
  "settle_check space u nonce tspace =
     map_option (\<lambda>(found, tspace, _). (found, tspace)) (vroute_tckt_space_check_ticket True tspace (QueryNonce nonce) space u)"

lemma waits_for_iff: "info_wf (tk_info t) \<Longrightarrow> nonce_wf n \<Longrightarrow> waits_for n t \<longleftrightarrow> nonce_of (tk_info t) = Some n"
  by (cases "tk_info t") (auto simp: waits_for_def)

lemma pending_settled:
  assumes "\<forall>t \<in> set ts. info_wf (tk_info t)" "nonce_wf n"
  defines "f \<equiv> List.map_filter (\<lambda>t. nonce_of (tk_info t))"
  shows "mset (f (takeWhile (\<lambda>t. \<not> waits_for n t) ts @ tl (dropWhile (\<lambda>t. \<not> waits_for n t) ts))) = mset (f ts) - {#n#}"
    and "(\<exists>t \<in> set ts. waits_for n t) \<longleftrightarrow> n \<in># mset (f ts)"
  using assms(1)
proof (induction ts)
  case (Cons t ts)
  {
    case 1
    then have "waits_for n t \<longleftrightarrow> nonce_of (tk_info t) = Some n" using assms(2) waits_for_iff by auto
    then show ?case using Cons 1 by (cases "nonce_of (tk_info t)") (auto simp: f_def map_filter_simps)
  next
    case 2
    then have "waits_for n t \<longleftrightarrow> nonce_of (tk_info t) = Some n" using assms(2) waits_for_iff by auto
    then show ?case using Cons 2 by (cases "nonce_of (tk_info t)") (auto simp: f_def map_filter_simps)
  }
qed (simp_all add: f_def map_filter_simps)

interpretation tickets: pending_checks tickets_wf tckt_room nonce_wf pending "issue_check now" "settle_check space u"
  for now space and u :: 'u
proof
  fix s :: "'u tckt_space" and n
  assume s: "tickets_wf s" "nonce_wf n"
  obtain s' where "vroute_tckt_space_add_ticket True now s (NonceCheck n) = Some (0, s')" "tckt_wf s'"
      "tickets s' = tickets s @ [vticket_init now (NonceCheck n)]"
    using add_ticket_spec s(1) unfolding tickets_wf_def by blast
  then show "\<exists>s'. issue_check now n s = Some s' \<and> tickets_wf s' \<and> pending s' = add_mset n (pending s)"
    using s by (auto simp: issue_check_def tickets_wf_def pending_def vticket_init_def map_filter_def)
next
  fix s :: "'u tckt_space" and n
  assume s: "tickets_wf s" "tckt_room s" "nonce_wf n"
  let ?l = "takeWhile (\<lambda>t. \<not> waits_for n t) (tickets s) @ tl (dropWhile (\<lambda>t. \<not> waits_for n t) (tickets s))"
  obtain s' where s': "vroute_tckt_space_check_ticket True s (QueryNonce n) space u =
      Some (\<exists>t \<in> set (tickets s). waits_for n t, s', space, u)" "tckt_wf s'" "tckt_room s'" "tickets s' = ?l"
    using check_ticket_refines [OF _ s(2) check_list_nonce] s(1) unfolding tickets_wf_def by blast
  have "set ?l \<subseteq> set (tickets s)"
  proof -
    have "set (tl xs) \<subseteq> set xs" for xs :: "'u vticket_item list" by (cases xs) auto
    then show ?thesis by (fastforce dest: set_takeWhileD set_dropWhileD)
  qed
  then have "tickets_wf s'" using s(1) s'(2,4) by (auto simp: tickets_wf_def)
  then show "\<exists>s'. settle_check space u n s = Some (n \<in># pending s, s') \<and> tickets_wf s' \<and> tckt_room s' \<and>
      pending s' = pending s - {#n#}"
    using s' pending_settled [of "tickets s" n] s(1,3)
    by (auto simp: settle_check_def pending_def tickets_wf_def)
qed
subsection \<open>With no free slot\<close>

text \<open>In a full array the first removal reads past the slots; a search or a reaping that removes nothing goes through.\<close>

lemma check_loop_full:
  assumes "va_wf ts" "va_used ts = va_capc ts" "length (va_list ts) \<le> i + n" "i \<le> length (va_list ts)"
  shows "check_loop n True ts argv i found space u =
    (if \<exists>t \<in> set (drop i (va_list ts)). punches argv (tk_info t) then None else Some (found, ts, space, u))"
  using assms(3,4)
proof (induction n arbitrary: i)
  case 0
  then have "i = length (va_list ts)" by (simp del: va_list_length)
  with assms(1) show ?case by (simp del: va_list_length)
next
  case (Suc n)
  show ?case
  proof (cases "i = length (va_list ts)")
    case True
    with assms(1) show ?thesis by (simp del: va_list_length)
  next
    case False
    then have i: "i < length (va_list ts)" using Suc.prems(2) by (simp del: va_list_length)
    have d: "drop i (va_list ts) = va_list ts ! i # drop (Suc i) (va_list ts)" by (rule Cons_nth_drop_Suc [symmetric, OF i])
    have "i < va_used ts" using i assms(1) by simp
    then have del: "varray_del True ts (int i) = None" using varray_del_spec [OF assms(1)] assms(2) by blast
    have ih: "check_loop n True ts argv (Suc i) found space u =
        (if \<exists>t \<in> set (drop (Suc i) (va_list ts)). punches argv (tk_info t) then None else Some (found, ts, space, u))"
      by (rule Suc.IH) (use Suc.prems i in \<open>simp_all del: va_list_length\<close>)
    show ?thesis unfolding check_loop_step [OF assms(1) i] d
      by (cases "vticket_punch (va_list ts ! i) argv space u") (simp_all add: ih del split: prod.splits)
  qed
qed

lemma check_loop_fails:
  assumes "va_wf ts" "va_used ts < va_capc ts" "length (va_list ts) \<le> i + n" "i \<le> length (va_list ts)"
    "check_list argv (drop i (va_list ts)) space u = None"
  shows "check_loop n True ts argv i found space u = None"
  using assms
proof (induction n arbitrary: ts i found space u)
  case 0
  then have "i = length (va_list ts)" by (simp del: va_list_length)
  with 0 show ?case by (simp del: va_list_length)
next
  case (Suc n)
  have i: "i < length (va_list ts)" using Suc.prems(4,5) by (cases "i = length (va_list ts)") (simp_all del: va_list_length)
  let ?t = "va_list ts ! i"
  have d: "drop i (va_list ts) = ?t # drop (Suc i) (va_list ts)" by (rule Cons_nth_drop_Suc [symmetric, OF i])
  note step = check_loop_step [OF Suc.prems(1) i]
  note c = Suc.prems(5) [unfolded d]
  have iu: "i < va_used ts" using i Suc.prems(1) by simp
  obtain ts1 where ts1: "varray_del True ts (int i) = Some (Some ?t, ts1)" "va_wf ts1"
      "va_list ts1 = list_del i (va_list ts)" "va_used ts1 < va_capc ts1"
    using varray_del_spec [OF Suc.prems(1) iu] Suc.prems(2) by blast
  show ?case
  proof (cases "punches argv (tk_info ?t)")
    case False
    then have "check_list argv (drop (i + 1) (va_list ts)) space u = None"
      using c by (cases "check_list argv (drop (Suc i) (va_list ts)) space u") auto
    then have "check_loop n True ts argv (i + 1) found space u = None"
      using Suc.IH [OF Suc.prems(1,2)] Suc.prems(3) i by (auto simp del: va_list_length)
    then show ?thesis unfolding step using False by simp
  next
    case hit: True
    show ?thesis
    proof (cases "vticket_punch ?t argv space u")
      case None
      then show ?thesis unfolding step using hit by simp
    next
      case (Some r)
      obtain dn s1 u1 where p: "vticket_punch ?t argv space u = Some (dn, s1, u1)" using Some by (cases r) auto
      have tok: "tq_type argv \<noteq> VTICKET_TOKEN_CHECK" using c hit p by auto
      then have "check_list argv (drop (Suc i) (va_list ts)) s1 u1 = None"
        using c hit p by (cases "check_list argv (drop (Suc i) (va_list ts)) s1 u1") auto
      then have c1: "check_list argv (drop i (va_list ts1)) s1 u1 = None"
        using take_drop_del [OF i] unfolding ts1(3) by metis
      have "length (va_list ts1) = length (va_list ts) - 1" using i ts1(3) by (simp del: va_list_length)
      then have "length (va_list ts1) \<le> i + n" "i \<le> length (va_list ts1)" using Suc.prems(3) i by linarith+
      then have "check_loop n True ts1 argv i True s1 u1 = None" using Suc.IH [OF ts1(2,4) _ _ c1] by blast
      then show ?thesis unfolding step using hit p ts1(1) tok by simp
    qed
  qed
qed

lemma check_list_misses: "\<forall>t \<in> set ts. \<not> punches argv (tk_info t) \<Longrightarrow> check_list argv ts space u = Some (False, ts, space, u)"
  by (induction ts) auto

text \<open>The outcome of a search in every case.\<close>

definition removable :: "('u ticket_info \<Rightarrow> bool) \<Rightarrow> 'u tckt_space \<Rightarrow> bool" where
  "removable P tspace \<longleftrightarrow> tckt_room tspace \<or> (\<forall>t \<in> set (tickets tspace). \<not> P (tk_info t))"

lemma tckt_full: "tckt_wf tspace \<Longrightarrow> \<not> tckt_room tspace \<Longrightarrow> va_used (ts_tickets tspace) = va_capc (ts_tickets tspace)"
  by (simp add: tckt_wf_def tckt_room_def va_wf_def)

lemma check_ticket_full:
  assumes "tckt_wf tspace" "\<not> tckt_room tspace"
  shows "vroute_tckt_space_check_ticket True tspace argv space u =
    (if \<exists>t \<in> set (tickets tspace). punches argv (tk_info t) then None else Some (False, tspace, space, u))"
proof -
  have w: "va_wf (ts_tickets tspace)" using assms(1) by (simp add: tckt_wf_def)
  show ?thesis
    using check_loop_full [OF w tckt_full [OF assms], of 0 "varray_size (ts_tickets tspace)" argv False space u] w
    by (simp add: vroute_tckt_space_check_ticket_def tickets_def del: va_list_length)
qed

lemma check_ticket_cases:
  assumes "tckt_wf tspace"
  shows "if removable (punches argv) tspace
    then (case check_list argv (tickets tspace) space u of
        None \<Rightarrow> vroute_tckt_space_check_ticket True tspace argv space u = None
      | Some (f, l, space', u') \<Rightarrow> \<exists>tspace'. vroute_tckt_space_check_ticket True tspace argv space u = Some (f, tspace', space', u') \<and>
          tckt_wf tspace' \<and> (tckt_room tspace \<longrightarrow> tckt_room tspace') \<and> tickets tspace' = l \<and> ts_overdue_tmo tspace' = ts_overdue_tmo tspace)
    else vroute_tckt_space_check_ticket True tspace argv space u = None"
proof (cases "tckt_room tspace")
  case False
  then show ?thesis
    using check_ticket_full [OF assms False, of argv space u] check_list_misses [of "tickets tspace" argv space u] assms
    by (auto simp: removable_def)
next
  case True
  have w: "va_wf (ts_tickets tspace)" "va_used (ts_tickets tspace) < va_capc (ts_tickets tspace)"
    using assms True by (simp_all add: tckt_wf_def tckt_room_def)
  show ?thesis
  proof (cases "check_list argv (tickets tspace) space u")
    case None
    then have "check_loop (varray_size (ts_tickets tspace)) True (ts_tickets tspace) argv 0 False space u = None"
      using check_loop_fails [OF w, of 0 "varray_size (ts_tickets tspace)"] w(1) by (simp add: tickets_def del: va_list_length)
    then show ?thesis using None by (simp add: vroute_tckt_space_check_ticket_def)
  next
    case (Some r)
    then show ?thesis using check_ticket_refines [OF assms True, of argv space u] True
      by (cases r) (auto simp: removable_def)
  qed
qed

lemma reap_loop_full:
  assumes "va_wf ts" "va_used ts = va_capc ts" "length (va_list ts) \<le> i + n" "i \<le> length (va_list ts)"
  shows "reap_loop n True now tmo ts i u =
    (if \<exists>t \<in> set (drop i (va_list ts)). overdue now tmo t then None else Some (ts, u))"
  using assms(3,4)
proof (induction n arbitrary: i)
  case 0
  then have "i = length (va_list ts)" by (simp del: va_list_length)
  with assms(1) show ?case by (simp del: va_list_length)
next
  case (Suc n)
  show ?case
  proof (cases "i = length (va_list ts)")
    case True
    with assms(1) show ?thesis by (simp del: va_list_length)
  next
    case False
    then have i: "i < length (va_list ts)" using Suc.prems(2) by (simp del: va_list_length)
    have d: "drop i (va_list ts) = va_list ts ! i # drop (Suc i) (va_list ts)" by (rule Cons_nth_drop_Suc [symmetric, OF i])
    have "i < va_used ts" using i assms(1) by simp
    then have del: "varray_del True ts (int i) = None" using varray_del_spec [OF assms(1)] assms(2) by blast
    have ih: "reap_loop n True now tmo ts (Suc i) u =
        (if \<exists>t \<in> set (drop (Suc i) (va_list ts)). overdue now tmo t then None else Some (ts, u))"
      by (rule Suc.IH) (use Suc.prems i in \<open>simp_all del: va_list_length\<close>)
    show ?thesis unfolding reap_loop_step [OF assms(1) i] d by (simp add: ih del)
  qed
qed

lemma timed_reap_full:
  assumes "tckt_wf tspace" "\<not> tckt_room tspace"
  shows "vroute_tckt_space_timed_reap True now tspace u =
    (if \<exists>t \<in> set (tickets tspace). overdue now (ts_overdue_tmo tspace) t then None else Some (tspace, u))"
proof -
  have w: "va_wf (ts_tickets tspace)" using assms(1) by (simp add: tckt_wf_def)
  show ?thesis
    using reap_loop_full [OF w tckt_full [OF assms], of 0 "varray_size (ts_tickets tspace)" now "ts_overdue_tmo tspace" u] w
    by (simp add: vroute_tckt_space_timed_reap_def tickets_def del: va_list_length)
qed

lemma settle_times_full:
  assumes "tickets_wf tspace" "\<not> tckt_room tspace" "nonce_wf n"
  shows "settle_times (settle_check space u) k n tspace = (if k = 0 \<or> n \<notin># pending tspace then Some (0, tspace) else None)"
proof -
  have wf: "tckt_wf tspace" "\<forall>t \<in> set (tickets tspace). info_wf (tk_info t)" using assms(1) by (simp_all add: tickets_wf_def)
  have "(\<exists>t \<in> set (tickets tspace). waits_for n t) \<longleftrightarrow> n \<in># pending tspace"
    using pending_settled(2) [OF wf(2) assms(3)] by (simp add: pending_def)
  then have one: "settle_check space u n tspace = (if n \<in># pending tspace then None else Some (False, tspace))"
    using check_ticket_full [OF wf(1) assms(2), of "QueryNonce n" space u] by (simp add: settle_check_def waits_for_def split: if_splits)
  show ?thesis by (induction k) (simp_all add: one)
qed

end
