(* ===== verification/SrvcSpace.thy ===== *)
theory SrvcSpace
  imports NodeSpace
begin

section \<open>The service space (vroute_srvc.c)\<close>

text \<open>
  The services other nodes have announced, in buckets by the ID of the host that offers them, each
  with the time it was received. The services of a bucket are separate heap objects; a change
  through the pointer \<open>to\<close> is a change of its slot.
\<close>

record vservice =
  sv_srvci :: vsrvcInfo
  sv_rcv_ts :: int

record srvc_space =
  ss_bucket_sz :: int
  ss_bucket :: "vservice varray list"

subsection \<open>Operations\<close>

definition vservice_alloc :: "bool \<Rightarrow> vservice option" where
  "vservice_alloc mem =
     (case vsrvcInfo_alloc mem of
        None \<Rightarrow> None
      | Some srvci \<Rightarrow> if \<not> mem then None else Some \<lparr>sv_srvci = srvci, sv_rcv_ts = 0\<rparr>)"

definition vservice_init :: "bool \<Rightarrow> vservice \<Rightarrow> vsrvcInfo \<Rightarrow> int \<Rightarrow> vservice option" where
  "vservice_init mem item srvci ts = do {
     (ret, s) \<leftarrow> vsrvcInfo_copy mem (sv_srvci item) srvci;
     Some (item\<lparr>sv_srvci := s, sv_rcv_ts := ts\<rparr>)
   }"

text \<open>The conversion of a \<open>time_t\<close> difference to \<open>int\<close>.\<close>

definition to_int :: "int \<Rightarrow> int" where
  "to_int d = sint (word_of_int d :: u32)"

text \<open>The cookie of the search; \<open>sp_pos\<close> is the position of the item in the array.\<close>

record srvc_pick =
  sp_pos :: nat
  sp_to :: "nat option"
  sp_max_period :: int
  sp_found :: bool

definition aux_srvc_add_service_cb ::
  "vsrvcInfo \<Rightarrow> int \<Rightarrow> vservice \<Rightarrow> srvc_pick \<Rightarrow> (int \<times> vservice \<times> srvc_pick) option" where
  "aux_srvc_add_service_cb srvci now item sp =
     (let next_sp = sp\<lparr>sp_pos := sp_pos sp + 1\<rparr>; here = Some (sp_pos sp) in
      if vtoken_equal (si_hostid (sv_srvci item)) (si_hostid srvci) \<and>
         vsrvcHash_equal (si_hash (sv_srvci item)) (si_hash srvci)
      then Some (1, item, next_sp\<lparr>sp_to := here, sp_found := True\<rparr>)
      else if to_int (now - sv_rcv_ts item) > sp_max_period sp
      then Some (0, item, next_sp\<lparr>sp_to := here, sp_max_period := to_int (now - sv_rcv_ts item)\<rparr>)
      else Some (0, item, next_sp))"

text \<open>What follows the search over the bucket \<open>services\<close>, number \<open>b\<close>.\<close>

definition add_service_place ::
  "bool \<Rightarrow> int \<Rightarrow> srvc_space \<Rightarrow> nat \<Rightarrow> vservice varray \<Rightarrow> vsrvcInfo \<Rightarrow> srvc_pick \<Rightarrow> (int \<times> srvc_space) option" where
  "add_service_place mem now space b services srvci sp =
     (let full = int (varray_size services) \<ge> ss_bucket_sz space in
      if sp_found sp \<or> (sp_to sp \<noteq> None \<and> full) then do {
        i \<leftarrow> sp_to sp;
        item \<leftarrow> varray_get services (int i);
        to \<leftarrow> item;
        to \<leftarrow> vservice_init mem to srvci now;
        Some (0, space\<lparr>ss_bucket := (ss_bucket space)
          [b := services\<lparr>va_items := (va_items services)[i := Some to]\<rparr>]\<rparr>)
      }
      else if \<not> full then
        (case vservice_alloc mem of
           None \<Rightarrow> Some (-1, space)
         | Some to \<Rightarrow> do {
             to \<leftarrow> vservice_init mem to srvci now;
             (ret, services) \<leftarrow> varray_add_tail mem services (Some to);
             Some (0, space\<lparr>ss_bucket := (ss_bucket space)[b := services]\<rparr>)
           })
      else Some (0, space))"

definition vroute_srvc_space_add_service ::
  "bool \<Rightarrow> int \<Rightarrow> srvc_space \<Rightarrow> vsrvcInfo \<Rightarrow> (int \<times> srvc_space) option" where
  "vroute_srvc_space_add_service mem now space srvci = do {
     let b = vsrvcId_bucket (si_hostid srvci);
     services \<leftarrow> rd (ss_bucket space) b;
     (services, sp) \<leftarrow> varray_iterate services (aux_srvc_add_service_cb srvci now)
       \<lparr>sp_pos = 0, sp_to = None, sp_max_period = 0, sp_found = False\<rparr>;
     add_service_place mem now space b services srvci sp
   }"

text \<open>The search for the best service: the pointer \<open>to\<close> and the least \<open>nice\<close> so far.\<close>

definition aux_srvc_get_service_cb ::
  "vsrvcHash \<Rightarrow> vservice \<Rightarrow> vservice option \<times> int \<Rightarrow> (int \<times> vservice \<times> vservice option \<times> int) option" where
  "aux_srvc_get_service_cb hash item ck =
     (if vsrvcHash_equal (si_hash (sv_srvci item)) hash \<and> si_nice (sv_srvci item) < snd ck
      then Some (0, item, Some item, si_nice (sv_srvci item))
      else Some (0, item, ck))"

text \<open>The loop over the buckets; the best service so far is copied out after every bucket.\<close>

fun get_service_loop ::
  "bool \<Rightarrow> vsrvcHash \<Rightarrow> vservice varray list \<Rightarrow> vservice option \<times> int \<Rightarrow> vsrvcInfo \<Rightarrow> bool \<Rightarrow>
     (bool \<times> vsrvcInfo) option" where
  "get_service_loop mem hash [] ck srvci found = Some (found, srvci)"
| "get_service_loop mem hash (services # bks) ck srvci found = do {
     (services, ck) \<leftarrow> varray_iterate services (aux_srvc_get_service_cb hash) ck;
     case fst ck of
       None \<Rightarrow> get_service_loop mem hash bks ck srvci found
     | Some to \<Rightarrow> do {
         (ret, srvci) \<leftarrow> vsrvcInfo_copy mem srvci (sv_srvci to);
         get_service_loop mem hash bks ck srvci True
       }
   }"

definition vroute_srvc_space_get_service ::
  "bool \<Rightarrow> srvc_space \<Rightarrow> vsrvcHash \<Rightarrow> vsrvcInfo \<Rightarrow> (bool \<times> vsrvcInfo) option" where
  "vroute_srvc_space_get_service mem space hash srvci =
     get_service_loop mem hash (ss_bucket space) (None, 100) srvci False"

text \<open>Clearing deletes slot 0 until the bucket is empty; \<open>vservice_free\<close> asserts its argument.\<close>

fun del_services :: "nat \<Rightarrow> bool \<Rightarrow> vservice varray \<Rightarrow> vservice varray option" where
  "del_services 0 mem services = (if varray_size services > 0 then None else Some services)"
| "del_services (Suc n) mem services =
     (if varray_size services > 0 then do {
        (item, services) \<leftarrow> varray_del mem services 0;
        s \<leftarrow> item;
        del_services n mem services
      }
      else Some services)"

fun clear_services :: "bool \<Rightarrow> vservice varray list \<Rightarrow> vservice varray list option" where
  "clear_services mem [] = Some []"
| "clear_services mem (services # bks) = do {
     services \<leftarrow> del_services (varray_size services) mem services;
     bks \<leftarrow> clear_services mem bks;
     Some (services # bks)
   }"

definition vroute_srvc_space_clear :: "bool \<Rightarrow> srvc_space \<Rightarrow> srvc_space option" where
  "vroute_srvc_space_clear mem space = do {
     bks \<leftarrow> clear_services mem (ss_bucket space);
     Some (space\<lparr>ss_bucket := bks\<rparr>)
   }"

text \<open>\<open>bucket_sz\<close> is what \<open>get_route_bucket_sz\<close> returns.\<close>

definition vroute_srvc_space_init :: "int \<Rightarrow> srvc_space" where
  "vroute_srvc_space_init bucket_sz =
     \<lparr>ss_bucket_sz = bucket_sz, ss_bucket = replicate NBUCKETS (varray_init 8)\<rparr>"

section \<open>What these operations do\<close>

subsection \<open>The invariant\<close>

definition skey :: "vsrvcInfo \<Rightarrow> vtoken \<times> vsrvcHash" where
  "skey s = (si_hostid s, si_hash s)"

definition service_wf :: "nat \<Rightarrow> vservice \<Rightarrow> bool" where
  "service_wf b v \<longleftrightarrow> srvc_wf (sv_srvci v) \<and> vsrvcId_bucket (si_hostid (sv_srvci v)) = b"

definition srvc_list :: "srvc_space \<Rightarrow> nat \<Rightarrow> vservice list" where
  "srvc_list space b = va_list (ss_bucket space ! b)"

definition srvcs_wf :: "srvc_space \<Rightarrow> bool" where
  "srvcs_wf space \<longleftrightarrow> length (ss_bucket space) = NBUCKETS \<and>
     (\<forall>b < NBUCKETS. va_wf (ss_bucket space ! b) \<and> (\<forall>v \<in> set (srvc_list space b). service_wf b v) \<and>
        distinct (map (\<lambda>v. skey (sv_srvci v)) (srvc_list space b)) \<and>
        int (length (srvc_list space b)) \<le> ss_bucket_sz space)"

lemma srvcs_wfD:
  assumes "srvcs_wf space" "b < NBUCKETS"
  shows "va_wf (ss_bucket space ! b)" "\<forall>v \<in> set (srvc_list space b). service_wf b v"
    "distinct (map (\<lambda>v. skey (sv_srvci v)) (srvc_list space b))"
    "int (length (srvc_list space b)) \<le> ss_bucket_sz space" "b < length (ss_bucket space)"
  using assms by (auto simp: srvcs_wf_def)

lemma srvc_bucket_lt [simp]: "vsrvcId_bucket t < NBUCKETS"
  by (simp add: NBUCKETS_def vsrvcId_bucket_lt)

lemma srvcs_wf_update:
  assumes "srvcs_wf space" "b < NBUCKETS" "va_wf a" "\<forall>v \<in> set (va_list a). service_wf b v"
    "distinct (map (\<lambda>v. skey (sv_srvci v)) (va_list a))" "int (length (va_list a)) \<le> ss_bucket_sz space"
  shows "srvcs_wf (space\<lparr>ss_bucket := (ss_bucket space)[b := a]\<rparr>)"
    "srvc_list (space\<lparr>ss_bucket := (ss_bucket space)[b := a]\<rparr>) i = (if i = b then va_list a else srvc_list space i)"
proof -
  show l: "srvc_list (space\<lparr>ss_bucket := (ss_bucket space)[b := a]\<rparr>) i = (if i = b then va_list a else srvc_list space i)" for i
    using srvcs_wfD(5) [OF assms(1,2)] by (simp add: srvc_list_def)
  show "srvcs_wf (space\<lparr>ss_bucket := (ss_bucket space)[b := a]\<rparr>)"
    using assms unfolding srvcs_wf_def l by (auto simp: nth_list_update)
qed

subsection \<open>Adding a service\<close>

definition period :: "int \<Rightarrow> vservice \<Rightarrow> int" where
  "period now v = to_int (now - sv_rcv_ts v)"

lemma add_service_search:
  assumes "\<forall>v \<in> set vs. srvc_wf (sv_srvci v)" "srvc_src s" "\<not> sp_found sp"
  shows "\<exists>sp'. list_iterate (aux_srvc_add_service_cb s now) vs sp = Some (vs, sp') \<and>
    (case find_idx (\<lambda>v. skey (sv_srvci v) = skey s) vs of
       Some k \<Rightarrow> sp_found sp' \<and> sp_to sp' = Some (sp_pos sp + k)
     | None \<Rightarrow> \<not> sp_found sp' \<and> (\<forall>v \<in> set vs. period now v \<le> sp_max_period sp') \<and>
         sp_max_period sp \<le> sp_max_period sp' \<and>
         (sp_to sp' = sp_to sp \<and> sp_max_period sp' = sp_max_period sp \<or>
          (\<exists>k < length vs. sp_to sp' = Some (sp_pos sp + k) \<and> period now (vs ! k) = sp_max_period sp' \<and>
             (\<forall>j < k. period now (vs ! j) < sp_max_period sp') \<and> sp_max_period sp < sp_max_period sp')))"
  using assms
proof (induction vs arbitrary: sp)
  case (Cons v vs)
  have t: "tok_wf (si_hostid (sv_srvci v))" "tok_wf (si_hash (sv_srvci v))" "tok_wf (si_hostid s)" "tok_wf (si_hash s)"
    using Cons.prems srvc_wf_tok by (auto simp: srvc_src_def)
  show ?case
  proof (cases "skey (sv_srvci v) = skey s")
    case True
    then show ?thesis using t by (simp add: aux_srvc_add_service_cb_def skey_def Let_def)
  next
    case False
    define g where "g = (if period now v > sp_max_period sp
      then sp\<lparr>sp_pos := sp_pos sp + 1, sp_to := Some (sp_pos sp), sp_max_period := period now v\<rparr>
      else sp\<lparr>sp_pos := sp_pos sp + 1\<rparr>)"
    have g: "aux_srvc_add_service_cb s now v sp = Some (0, v, g)"
      using False t by (auto simp: aux_srvc_add_service_cb_def skey_def Let_def g_def period_def)
    have gf: "\<not> sp_found g" "sp_pos g = sp_pos sp + 1" "sp_max_period sp \<le> sp_max_period g" "period now v \<le> sp_max_period g"
        "sp_to g = sp_to sp \<and> sp_max_period g = sp_max_period sp \<or>
         sp_to g = Some (sp_pos sp) \<and> period now v = sp_max_period g \<and> sp_max_period sp < sp_max_period g"
      using Cons.prems(3) by (simp_all add: g_def)
    obtain h where h: "list_iterate (aux_srvc_add_service_cb s now) vs g = Some (vs, h)"
      "case find_idx (\<lambda>v. skey (sv_srvci v) = skey s) vs of
         Some k \<Rightarrow> sp_found h \<and> sp_to h = Some (sp_pos g + k)
       | None \<Rightarrow> \<not> sp_found h \<and> (\<forall>v \<in> set vs. period now v \<le> sp_max_period h) \<and>
           sp_max_period g \<le> sp_max_period h \<and>
           (sp_to h = sp_to g \<and> sp_max_period h = sp_max_period g \<or>
            (\<exists>k < length vs. sp_to h = Some (sp_pos g + k) \<and> period now (vs ! k) = sp_max_period h \<and>
               (\<forall>j < k. period now (vs ! j) < sp_max_period h) \<and> sp_max_period g < sp_max_period h))"
      using Cons.IH [of g] Cons.prems gf(1) by auto
    have run: "list_iterate (aux_srvc_add_service_cb s now) (v # vs) sp = Some (v # vs, h)"
      using g h(1) by simp
    define r where "r = find_idx (\<lambda>v. skey (sv_srvci v) = skey s) vs"
    have e: "find_idx (\<lambda>v. skey (sv_srvci v) = skey s) (v # vs) = map_option Suc r" using False by (simp add: r_def)
    show ?thesis
    proof (cases r)
      case None
      note hn = h(2) [folded r_def, unfolded None option.case]
      have "sp_to h = sp_to sp \<and> sp_max_period h = sp_max_period sp \<or>
          (\<exists>k < length (v # vs). sp_to h = Some (sp_pos sp + k) \<and> period now ((v # vs) ! k) = sp_max_period h \<and>
             (\<forall>j < k. period now ((v # vs) ! j) < sp_max_period h) \<and> sp_max_period sp < sp_max_period h)"
      proof (cases "sp_to h = sp_to g \<and> sp_max_period h = sp_max_period g")
        case True
        then show ?thesis using gf(5) by (auto intro!: exI [of _ 0])
      next
        case False
        then obtain k where k: "k < length vs" "sp_to h = Some (sp_pos g + k)" "period now (vs ! k) = sp_max_period h"
            "\<forall>j < k. period now (vs ! j) < sp_max_period h" "sp_max_period g < sp_max_period h"
          using hn by blast
        then have "\<forall>j < Suc k. period now ((v # vs) ! j) < sp_max_period h"
          using gf(4) by (auto simp: less_Suc_eq_0_disj)
        then show ?thesis using k gf(2,3) by (intro disjI2 exI [of _ "Suc k"]) auto
      qed
      then show ?thesis unfolding e None using hn gf(3,4) by (intro exI [of _ h] conjI run) auto
    next
      case (Some k)
      then show ?thesis using h(2) [folded r_def] gf(2) unfolding e by (intro exI [of _ h] conjI run) simp
    qed
  qed
qed simp

text \<open>A service as stored.\<close>

definition stored :: "vsrvcInfo \<Rightarrow> int \<Rightarrow> vservice \<Rightarrow> bool" where
  "stored s now v \<longleftrightarrow> srvc_wf (sv_srvci v) \<and> skey (sv_srvci v) = skey s \<and> si_nice (sv_srvci v) = si_nice s \<and>
     si_proto (sv_srvci v) = si_proto s \<and> si_list (sv_srvci v) = fold (addr_ins (\<lambda>t. t)) (si_list s) [] \<and> sv_rcv_ts v = now"

lemma vservice_init_spec:
  "srvc_wf (sv_srvci v) \<Longrightarrow> srvc_src s \<Longrightarrow> \<exists>v'. vservice_init True v s now = Some v' \<and> stored s now v'"
  using vsrvcInfo_copy_gen [of "sv_srvci v" s] by (auto simp: vservice_init_def stored_def skey_def)

lemma vservice_alloc_True: "\<exists>v. vservice_alloc True = Some v \<and> srvc_wf (sv_srvci v)"
  by (simp add: vservice_alloc_def vsrvcInfo_alloc_def srvc_wf_def VSRVCINFO_MIN_ADDRS_def si_list_def addrs_distinct_def
      tok_wf_def VTOKEN_LEN_def)

lemma stored_wf: "stored s now v \<Longrightarrow> service_wf (vsrvcId_bucket (si_hostid s)) v"
  by (auto simp: stored_def service_wf_def skey_def)

definition sbucket :: "srvc_space \<Rightarrow> vsrvcInfo \<Rightarrow> vservice list" where
  "sbucket space s = srvc_list space (vsrvcId_bucket (si_hostid s))"

text \<open>
  What adding does to the service's bucket: a service of the same host and hash is replaced, otherwise the new
  one is appended while there is room, otherwise it replaces the first of those received longest ago, and nothing
  changes when none was received before \<open>now\<close>.
\<close>

definition oldest :: "int \<Rightarrow> vservice list \<Rightarrow> nat option" where
  "oldest now vs = find_idx (\<lambda>v. 0 < period now v \<and> (\<forall>w \<in> set vs. period now w \<le> period now v)) vs"

lemma oldest_None: "\<forall>w \<in> set vs. period now w \<le> 0 \<Longrightarrow> oldest now vs = None"
  by (auto simp: oldest_def)

lemma oldest_Some:
  assumes "k < length vs" "0 < period now (vs ! k)" "\<forall>w \<in> set vs. period now w \<le> period now (vs ! k)"
    "\<forall>j < k. period now (vs ! j) < period now (vs ! k)"
  shows "oldest now vs = Some k"
proof -
  let ?P = "\<lambda>v. 0 < period now v \<and> (\<forall>w \<in> set vs. period now w \<le> period now v)"
  have k: "?P (vs ! k)" using assms(2,3) by simp
  then obtain j where j: "find_idx ?P vs = Some j" using assms(1) by (cases "find_idx ?P vs") auto
  note js = find_idx_Some [OF j] find_idx_lt [OF j]
  have "\<not> j < k" using js assms(1,4) by (meson leD nth_mem)
  moreover have "\<not> k < j" using js k by blast
  ultimately show ?thesis using j by (simp add: oldest_def)
qed

definition added :: "int \<Rightarrow> int \<Rightarrow> vsrvcInfo \<Rightarrow> vservice \<Rightarrow> vservice list \<Rightarrow> vservice list \<Rightarrow> bool" where
  "added sz now s v vs vs' \<longleftrightarrow>
     (case find_idx (\<lambda>v. skey (sv_srvci v) = skey s) vs of
        Some k \<Rightarrow> vs' = vs[k := v]
      | None \<Rightarrow>
          if int (length vs) < sz then vs' = vs @ [v]
          else case oldest now vs of Some k \<Rightarrow> vs' = vs[k := v] | None \<Rightarrow> vs' = vs)"

lemma distinct_skeys_update:
  assumes "distinct (map f vs)" "k < length vs" "f v \<notin> f ` set vs \<or> f v = f (vs ! k)"
  shows "distinct (map f (vs[k := v]))"
proof (cases "f v = f (vs ! k)")
  case True
  then have "map f (vs[k := v]) = map f vs" using assms(2) by (simp add: map_update list_update_same_conv)
  then show ?thesis using assms(1) by simp
next
  case False
  then show ?thesis using assms by (auto simp: map_update intro!: distinct_list_update)
qed

lemma added_wf:
  assumes "srvcs_wf space" "stored s now v" "added (ss_bucket_sz space) now s v (sbucket space s) vs'"
  shows "(\<forall>w \<in> set vs'. service_wf (vsrvcId_bucket (si_hostid s)) w) \<and> distinct (map (\<lambda>v. skey (sv_srvci v)) vs') \<and>
    int (length vs') \<le> ss_bucket_sz space"
proof -
  let ?b = "vsrvcId_bucket (si_hostid s)" and ?f = "\<lambda>v. skey (sv_srvci v)"
  note w = srvcs_wfD [OF assms(1) srvc_bucket_lt, of "si_hostid s", folded sbucket_def]
  have v: "service_wf ?b v" "?f v = skey s" using stored_wf [OF assms(2)] assms(2) by (simp_all add: stored_def)
  have upd: ?thesis if "vs' = (sbucket space s)[k := v]" "k < length (sbucket space s)"
      "?f v \<notin> ?f ` set (sbucket space s) \<or> ?f v = ?f (sbucket space s ! k)" for k
    unfolding that(1) using w v distinct_skeys_update [OF w(3) that(2,3)] set_update_subset_insert [of "sbucket space s" k v]
    by auto
  show ?thesis
  proof (cases "find_idx (\<lambda>v. ?f v = skey s) (sbucket space s)")
    case (Some k)
    then show ?thesis using upd [of k] find_idx_Some [OF Some] assms(3) v(2) by (auto simp: added_def)
  next
    case None
    then have n: "?f v \<notin> ?f ` set (sbucket space s)" using v(2) by auto
    consider "vs' = sbucket space s @ [v]" "int (length (sbucket space s)) < ss_bucket_sz space" | "vs' = sbucket space s" |
        k where "vs' = (sbucket space s)[k := v]" "k < length (sbucket space s)"
      using assms(3) None unfolding added_def oldest_def by (auto split: if_splits option.splits dest: find_idx_lt)
    then show ?thesis using upd n w v by cases auto
  qed
qed

lemma add_service_spec:
  assumes "srvcs_wf space" "srvc_src s"
  shows "\<exists>space' v. vroute_srvc_space_add_service True now space s = Some (0, space') \<and> srvcs_wf space' \<and>
    ss_bucket_sz space' = ss_bucket_sz space \<and> stored s now v \<and>
    added (ss_bucket_sz space) now s v (sbucket space s) (sbucket space' s) \<and>
    (\<forall>i. i \<noteq> vsrvcId_bucket (si_hostid s) \<longrightarrow> srvc_list space' i = srvc_list space i)"
proof -
  let ?b = "vsrvcId_bucket (si_hostid s)" and ?f = "\<lambda>v. skey (sv_srvci v)"
  let ?a = "ss_bucket space ! ?b" and ?vs = "sbucket space s"
  note w = srvcs_wfD [OF assms(1) srvc_bucket_lt, of "si_hostid s", folded sbucket_def]
  have vs: "va_list ?a = ?vs" by (simp add: sbucket_def srvc_list_def)
  let ?sp = "\<lparr>sp_pos = 0, sp_to = None, sp_max_period = 0, sp_found = False\<rparr>"
  have "\<forall>v \<in> set ?vs. srvc_wf (sv_srvci v)" using w(2) by (simp add: service_wf_def)
  then obtain sp where sp: "list_iterate (aux_srvc_add_service_cb s now) ?vs ?sp = Some (?vs, sp)"
    "case find_idx (\<lambda>v. ?f v = skey s) ?vs of
       Some k \<Rightarrow> sp_found sp \<and> sp_to sp = Some k
     | None \<Rightarrow> \<not> sp_found sp \<and> (\<forall>v \<in> set ?vs. period now v \<le> sp_max_period sp) \<and>
         (sp_to sp = None \<and> sp_max_period sp = 0 \<or>
          (\<exists>k < length ?vs. sp_to sp = Some k \<and> period now (?vs ! k) = sp_max_period sp \<and>
             (\<forall>j < k. period now (?vs ! j) < sp_max_period sp) \<and> 0 < sp_max_period sp))"
  proof -
    assume v: "\<forall>v \<in> set ?vs. srvc_wf (sv_srvci v)"
    obtain sp where sp: "list_iterate (aux_srvc_add_service_cb s now) ?vs ?sp = Some (?vs, sp)"
      "case find_idx (\<lambda>v. ?f v = skey s) ?vs of
         Some k \<Rightarrow> sp_found sp \<and> sp_to sp = Some (sp_pos ?sp + k)
       | None \<Rightarrow> \<not> sp_found sp \<and> (\<forall>v \<in> set ?vs. period now v \<le> sp_max_period sp) \<and> sp_max_period ?sp \<le> sp_max_period sp \<and>
           (sp_to sp = sp_to ?sp \<and> sp_max_period sp = sp_max_period ?sp \<or>
            (\<exists>k < length ?vs. sp_to sp = Some (sp_pos ?sp + k) \<and> period now (?vs ! k) = sp_max_period sp \<and>
               (\<forall>j < k. period now (?vs ! j) < sp_max_period sp) \<and> sp_max_period ?sp < sp_max_period sp))"
      using add_service_search [OF v assms(2), of ?sp now] by auto
    show thesis
    proof (rule that [OF sp(1)])
      show "case find_idx (\<lambda>v. ?f v = skey s) ?vs of
          Some k \<Rightarrow> sp_found sp \<and> sp_to sp = Some k
        | None \<Rightarrow> \<not> sp_found sp \<and> (\<forall>v \<in> set ?vs. period now v \<le> sp_max_period sp) \<and>
            (sp_to sp = None \<and> sp_max_period sp = 0 \<or>
             (\<exists>k < length ?vs. sp_to sp = Some k \<and> period now (?vs ! k) = sp_max_period sp \<and>
                (\<forall>j < k. period now (?vs ! j) < sp_max_period sp) \<and> 0 < sp_max_period sp))"
        using sp(2) by (cases "find_idx (\<lambda>v. ?f v = skey s) ?vs") (simp_all only: option.case srvc_pick.simps add_0, blast+)
    qed
  qed
  obtain a where a: "varray_iterate ?a (aux_srvc_add_service_cb s now) ?sp = Some (a, sp)" "va_wf a" "va_list a = ?vs"
    by (rule varray_iterate_spec [OF w(1) sp(1) [folded vs]]) (simp add: vs)
  have run: "vroute_srvc_space_add_service True now space s = add_service_place True now space ?b a s sp"
    using a(1) w(5) by (simp add: vroute_srvc_space_add_service_def Let_def)
  have put: "\<exists>space' v. add_service_place True now space ?b a s sp = Some (0, space') \<and> stored s now v \<and>
      (\<exists>c. space' = space\<lparr>ss_bucket := (ss_bucket space)[?b := c]\<rparr> \<and> va_wf c \<and> va_list c = ?vs[k := v])"
    if k: "sp_to sp = Some k" "k < length ?vs" "sp_found sp \<or> int (length ?vs) \<ge> ss_bucket_sz space" for k
  proof -
    have "srvc_wf (sv_srvci (?vs ! k))" using w(2) k(2) by (simp add: service_wf_def)
    then obtain v where v: "vservice_init True (?vs ! k) s now = Some v" "stored s now v"
      using vservice_init_spec assms(2) by blast
    have g: "varray_get a (int k) = Some (Some (?vs ! k))" using varray_get_spec [OF a(2), of k] a(3) k(2) by simp
    have "va_wf (a\<lparr>va_items := (va_items a)[k := Some v]\<rparr>)" "va_list (a\<lparr>va_items := (va_items a)[k := Some v]\<rparr>) = ?vs[k := v]"
      using va_put [OF a(2), of k v] a(3) k(2) by simp_all
    then show ?thesis
      using k v g a(2,3) by (auto simp: add_service_place_def Let_def va_size simp del: va_list_length varray_get_spec)
  qed
  have main: "\<exists>space' v c. add_service_place True now space ?b a s sp = Some (0, space') \<and> stored s now v \<and>
      space' = space\<lparr>ss_bucket := (ss_bucket space)[?b := c]\<rparr> \<and> va_wf c \<and> added (ss_bucket_sz space) now s v ?vs (va_list c)"
  proof (cases "find_idx (\<lambda>v. ?f v = skey s) ?vs")
    case (Some k)
    then show ?thesis using sp(2) put [of k] find_idx_lt [OF Some] by (fastforce simp: added_def)
  next
    case None
    note sn = sp(2) [unfolded None option.case]
    obtain v0 where v0: "vservice_alloc True = Some v0" "srvc_wf (sv_srvci v0)" using vservice_alloc_True by blast
    obtain v where v: "vservice_init True v0 s now = Some v" "stored s now v" using vservice_init_spec [OF v0(2) assms(2)] by blast
    show ?thesis
    proof (cases "int (length ?vs) < ss_bucket_sz space")
      case True
      obtain c where c: "varray_add_tail True a (Some v) = Some (0, c)" "va_wf c" "va_list c = va_list a @ [v]"
        by (rule varray_add_tail_spec [OF a(2)])
      have "add_service_place True now space ?b a s sp = Some (0, space\<lparr>ss_bucket := (ss_bucket space)[?b := c]\<rparr>)"
        using True sn v0 v a(2,3) c(1) by (simp add: add_service_place_def Let_def va_size del: va_list_length)
      moreover have "added (ss_bucket_sz space) now s v ?vs (va_list c)"
        using True None c(3) a(3) by (simp add: added_def del: find_idx_None)
      ultimately show ?thesis using v(2) c(2) by blast
    next
      case full: False
      show ?thesis
      proof (cases "sp_to sp")
        case to: None
        then have z: "\<forall>w \<in> set ?vs. period now w \<le> 0" using sn by auto
        have "add_service_place True now space ?b a s sp = Some (0, space)"
          using full to sn a(2,3) by (simp add: add_service_place_def Let_def va_size del: va_list_length)
        moreover have "space = space\<lparr>ss_bucket := (ss_bucket space)[?b := ?a]\<rparr>" by simp
        moreover have "added (ss_bucket_sz space) now s v ?vs (va_list ?a)" using None full oldest_None [OF z] vs
          by (simp add: added_def del: find_idx_None)
        ultimately show ?thesis using v(2) w(1) by blast
      next
        case (Some k)
        then have k: "k < length ?vs" and o: "oldest now ?vs = Some k" using sn by (auto intro: oldest_Some)
        obtain space' v c where "add_service_place True now space ?b a s sp = Some (0, space')" "stored s now v"
            "space' = space\<lparr>ss_bucket := (ss_bucket space)[?b := c]\<rparr>" "va_wf c" "va_list c = ?vs[k := v]"
          using put [OF Some k] full by auto
        moreover have "added (ss_bucket_sz space) now s v ?vs (?vs[k := v])"
          using None full o by (simp add: added_def del: find_idx_None)
        ultimately show ?thesis by metis
      qed
    qed
  qed
  then obtain space' v c where m: "add_service_place True now space ?b a s sp = Some (0, space')" "stored s now v"
      "space' = space\<lparr>ss_bucket := (ss_bucket space)[?b := c]\<rparr>" "va_wf c" "added (ss_bucket_sz space) now s v ?vs (va_list c)"
    by blast
  note cw = added_wf [OF assms(1) m(2,5)]
  have "srvcs_wf space'" "srvc_list space' i = (if i = ?b then va_list c else srvc_list space i)" for i
    unfolding m(3) using srvcs_wf_update [OF assms(1) srvc_bucket_lt m(4), of "si_hostid s"] cw by blast+
  then show ?thesis using run m by (intro exI [of _ space'] exI [of _ v]) (simp add: sbucket_def)
qed

subsection \<open>The best service\<close>

definition better :: "vsrvcHash \<Rightarrow> vservice \<Rightarrow> vservice option \<times> int \<Rightarrow> vservice option \<times> int" where
  "better hash v ck =
     (if si_hash (sv_srvci v) = hash \<and> si_nice (sv_srvci v) < snd ck then (Some v, si_nice (sv_srvci v)) else ck)"

lemma get_service_search:
  "\<forall>v \<in> set vs. srvc_wf (sv_srvci v) \<Longrightarrow> tok_wf hash \<Longrightarrow>
     list_iterate (aux_srvc_get_service_cb hash) vs ck = Some (vs, fold (better hash) vs ck)"
proof (induction vs arbitrary: ck)
  case (Cons v vs)
  then have "aux_srvc_get_service_cb hash v ck = Some (0, v, better hash v ck)"
    using srvc_wf_tok [of "sv_srvci v"] by (cases ck) (simp add: aux_srvc_get_service_cb_def better_def)
  then show ?case using Cons by simp
qed simp

lemma fold_better:
  defines "cand \<equiv> \<lambda>hash vs m. {v \<in> set vs. si_hash (sv_srvci v) = hash \<and> si_nice (sv_srvci v) < m}"
  shows "(cand hash vs m = {} \<and> fold (better hash) vs (t, m) = (t, m)) \<or>
    (\<exists>v \<in> cand hash vs m. fold (better hash) vs (t, m) = (Some v, si_nice (sv_srvci v)) \<and>
       (\<forall>w \<in> cand hash vs m. si_nice (sv_srvci v) \<le> si_nice (sv_srvci w)))"
proof (induction vs arbitrary: t m)
  case Nil
  then show ?case by (simp add: cand_def)
next
  case (Cons v vs)
  show ?case
  proof (cases "si_hash (sv_srvci v) = hash \<and> si_nice (sv_srvci v) < m")
    case True
    let ?n = "si_nice (sv_srvci v)"
    have f: "fold (better hash) (v # vs) (t, m) = fold (better hash) vs (Some v, ?n)" using True by (simp add: better_def)
    have v: "v \<in> cand hash (v # vs) m" using True by (simp add: cand_def)
    have sub: "w \<in> cand hash (v # vs) m \<Longrightarrow> w = v \<or> w \<in> cand hash vs ?n \<or> ?n \<le> si_nice (sv_srvci w)" for w
      by (auto simp: cand_def)
    have sup: "w \<in> cand hash vs ?n \<Longrightarrow> w \<in> cand hash (v # vs) m \<and> si_nice (sv_srvci w) < ?n" for w
      using True by (auto simp: cand_def)
    from Cons.IH [of ?n "Some v"] show ?thesis
    proof (elim disjE conjE bexE)
      assume "cand hash vs ?n = {}" "fold (better hash) vs (Some v, ?n) = (Some v, ?n)"
      then show ?thesis using f v sub by (intro disjI2 bexI [of _ v]) auto
    next
      fix w assume w: "w \<in> cand hash vs ?n" "fold (better hash) vs (Some v, ?n) = (Some w, si_nice (sv_srvci w))"
        "\<forall>x \<in> cand hash vs ?n. si_nice (sv_srvci w) \<le> si_nice (sv_srvci x)"
      then show ?thesis using f sub sup [OF w(1)] by (intro disjI2 bexI [of _ w]) fastforce+
    qed
  next
    case False
    then have "fold (better hash) (v # vs) (t, m) = fold (better hash) vs (t, m)" "cand hash (v # vs) m = cand hash vs m"
      by (auto simp: better_def cand_def)
    then show ?thesis using Cons.IH [of m t] by simp
  qed
qed

lemma fold_better_fst:
  "fst (fold (better hash) vs ck) = fst ck \<or> (\<exists>v \<in> set vs. fst (fold (better hash) vs ck) = Some v)"
proof (induction vs arbitrary: ck)
  case (Cons v vs)
  show ?case using Cons.IH [of "better hash v ck"] by (auto simp: better_def)
qed simp

lemma fold_better_Some: "fst ck \<noteq> None \<Longrightarrow> fst (fold (better hash) vs ck) \<noteq> None"
  using fold_better_fst [of hash vs ck] by auto

lemma get_service_loop_spec:
  assumes "\<forall>a \<in> set bks. va_wf a \<and> (\<forall>v \<in> set (va_list a). srvc_wf (sv_srvci v))" "tok_wf hash" "srvc_wf out"
    "case fst ck of None \<Rightarrow> \<not> found | Some v \<Rightarrow> srvc_wf (sv_srvci v)"
    "bks = [] \<longrightarrow> fst ck = None"
  shows "\<exists>out'. get_service_loop True hash bks ck out found =
      Some (found \<or> fst (fold (better hash) (concat (map va_list bks)) ck) \<noteq> None, out') \<and> srvc_wf out' \<and>
    (case fst (fold (better hash) (concat (map va_list bks)) ck) of
       None \<Rightarrow> out' = out
     | Some v \<Rightarrow> skey out' = skey (sv_srvci v) \<and> si_nice out' = si_nice (sv_srvci v) \<and> si_proto out' = si_proto (sv_srvci v) \<and>
         si_list out' = fold (addr_ins (\<lambda>t. t)) (si_list (sv_srvci v)) [])"
  using assms
proof (induction bks arbitrary: ck out found)
  case Nil
  then show ?case by auto
next
  case (Cons a bks)
  have a: "va_wf a" "\<forall>v \<in> set (va_list a). srvc_wf (sv_srvci v)" using Cons.prems(1) by auto
  let ?ck = "fold (better hash) (va_list a) ck"
  obtain a' where a': "varray_iterate a (aux_srvc_get_service_cb hash) ck = Some (a', ?ck)"
    by (rule varray_iterate_spec [OF a(1) get_service_search [OF a(2) Cons.prems(2)]])
  have r: "\<forall>a \<in> set bks. va_wf a \<and> (\<forall>v \<in> set (va_list a). srvc_wf (sv_srvci v))" using Cons.prems(1) by auto
  show ?case
  proof (cases "fst ?ck")
    case None
    have "\<not> found"
    proof (cases "fst ck")
      case (Some v)
      then show ?thesis using None fold_better_Some [of ck hash "va_list a"] by simp
    qed (use Cons.prems(4) in simp)
    then show ?thesis using Cons.IH [OF r Cons.prems(2,3), of found ?ck] None a' by simp
  next
    case (Some v)
    have "fst ?ck = fst ck \<or> (\<exists>v \<in> set (va_list a). fst ?ck = Some v)"
      by (rule fold_better_fst)
    then have v: "srvc_wf (sv_srvci v)" using Some a(2) Cons.prems(4) by (auto split: option.splits)
    obtain o1 where o1: "vsrvcInfo_copy True out (sv_srvci v) = Some (0, o1)" "srvc_wf o1" "skey o1 = skey (sv_srvci v)"
        "si_nice o1 = si_nice (sv_srvci v)" "si_proto o1 = si_proto (sv_srvci v)"
        "si_list o1 = fold (addr_ins (\<lambda>t. t)) (si_list (sv_srvci v)) []"
      using vsrvcInfo_copy_gen [OF Cons.prems(3) srvc_wf_src [OF v]] by (auto simp: skey_def)
    show ?thesis
    proof (cases "bks = []")
      case True
      then show ?thesis using a' Some o1 by simp
    next
      case False
      then show ?thesis using Cons.IH [OF r Cons.prems(2) o1(2), of True ?ck] o1(1) Some a' v
          fold_better_Some [of ?ck hash "concat (map va_list bks)"] by auto
    qed
  qed
qed

definition offers :: "srvc_space \<Rightarrow> vsrvcHash \<Rightarrow> vservice set" where
  "offers space hash = {v. (\<exists>b < NBUCKETS. v \<in> set (srvc_list space b)) \<and> si_hash (sv_srvci v) = hash \<and>
     si_nice (sv_srvci v) < 100}"

lemma get_service_spec:
  assumes "srvcs_wf space" "tok_wf hash" "srvc_wf out"
  shows "(offers space hash = {} \<and> vroute_srvc_space_get_service True space hash out = Some (False, out)) \<or>
    (\<exists>v \<in> offers space hash. \<exists>out'. vroute_srvc_space_get_service True space hash out = Some (True, out') \<and> srvc_wf out' \<and>
       skey out' = skey (sv_srvci v) \<and> si_nice out' = si_nice (sv_srvci v) \<and> si_proto out' = si_proto (sv_srvci v) \<and>
       si_list out' = fold (addr_ins (\<lambda>t. t)) (si_list (sv_srvci v)) [] \<and>
       (\<forall>w \<in> offers space hash. si_nice (sv_srvci v) \<le> si_nice (sv_srvci w)))"
proof -
  let ?vs = "concat (map va_list (ss_bucket space))"
  let ?c = "{v \<in> set ?vs. si_hash (sv_srvci v) = hash \<and> si_nice (sv_srvci v) < 100}"
  have l: "length (ss_bucket space) = NBUCKETS" using assms(1) by (simp add: srvcs_wf_def)
  have o: "offers space hash = ?c"
    using l by (auto simp: offers_def srvc_list_def in_set_conv_nth [of _ "ss_bucket space"] Bex_def)
  have bks: "\<forall>a \<in> set (ss_bucket space). va_wf a \<and> (\<forall>v \<in> set (va_list a). srvc_wf (sv_srvci v))"
    using assms(1) by (auto simp: srvcs_wf_def srvc_list_def service_wf_def in_set_conv_nth [of _ "ss_bucket space"])
  obtain out' where out': "get_service_loop True hash (ss_bucket space) (None, 100) out False =
      Some (fst (fold (better hash) ?vs (None, 100)) \<noteq> None, out')" "srvc_wf out'"
    "case fst (fold (better hash) ?vs (None, 100)) of
       None \<Rightarrow> out' = out
     | Some v \<Rightarrow> skey out' = skey (sv_srvci v) \<and> si_nice out' = si_nice (sv_srvci v) \<and> si_proto out' = si_proto (sv_srvci v) \<and>
         si_list out' = fold (addr_ins (\<lambda>t. t)) (si_list (sv_srvci v)) []"
    using get_service_loop_spec [OF bks assms(2,3), of False "(None, 100)"] by auto
  from fold_better [of ?vs hash 100 None] show ?thesis
  proof (elim disjE conjE bexE)
    assume "?c = {}" "fold (better hash) ?vs (None, 100) = (None, 100)"
    then show ?thesis using out' o by (simp add: vroute_srvc_space_get_service_def)
  next
    fix v assume v: "v \<in> ?c" "fold (better hash) ?vs (None, 100) = (Some v, si_nice (sv_srvci v))"
      "\<forall>w \<in> ?c. si_nice (sv_srvci v) \<le> si_nice (sv_srvci w)"
    then have "v \<in> offers space hash" "\<forall>w \<in> offers space hash. si_nice (sv_srvci v) \<le> si_nice (sv_srvci w)"
      unfolding o by blast+
    moreover have "fst (fold (better hash) ?vs (None, 100)) = Some v" using v(2) by simp
    ultimately show ?thesis using out' by (auto simp: vroute_srvc_space_get_service_def)
  qed
qed

subsection \<open>Clearing\<close>

lemma del_services_spec:
  "\<lbrakk>va_wf a; length (va_list a) = n; va_used a < va_capc a \<or> va_list a = []\<rbrakk> \<Longrightarrow>
     \<exists>a'. del_services n True a = Some a' \<and> va_wf a' \<and> va_list a' = []"
proof (induction n arbitrary: a)
  case 0
  then show ?case by (simp add: va_size del: va_list_length)
next
  case (Suc n)
  then have "va_list a \<noteq> []" by (metis list.size(3) nat.distinct(1))
  then have u: "0 < va_used a" "va_used a < va_capc a" using Suc.prems by (auto simp: va_list_Nil)
  obtain a1 where a1: "varray_del True a (int 0) = Some (Some (va_list a ! 0), a1)" "va_wf a1" "va_list a1 = list_del 0 (va_list a)"
      "va_used a1 < va_capc a1"
    using varray_del_spec [OF Suc.prems(1) u(1)] u(2) by blast
  have "length (va_list a1) = n" using Suc.prems(2) a1(3) by (simp del: va_list_length)
  moreover have "0 < varray_size a" using Suc.prems by (simp add: va_size del: va_list_length)
  ultimately show ?case using Suc.IH [OF a1(2)] a1(1,4) by simp
qed

text \<open>A bucket all of whose slots are used cannot be cleared: the first deletion reads past the slots.\<close>

lemma del_services_full:
  assumes "va_wf a" "va_used a = va_capc a" "va_list a \<noteq> []"
  shows "del_services (varray_size a) True a = None"
proof -
  have u: "0 < va_used a" using assms by (simp add: va_list_Nil)
  then have "varray_del True a (int 0) = None" using varray_del_spec [OF assms(1) u] assms(2) by blast
  moreover obtain n where n: "varray_size a = Suc n" using u by (cases "va_used a") (auto simp: varray_size_def)
  ultimately show ?thesis unfolding n using n by simp
qed

lemma clear_services_spec:
  "\<forall>a \<in> set bks. va_wf a \<and> (va_used a < va_capc a \<or> va_list a = []) \<Longrightarrow>
     \<exists>bks'. clear_services True bks = Some bks' \<and> length bks' = length bks \<and> (\<forall>a \<in> set bks'. va_wf a \<and> va_list a = [])"
proof (induction bks)
  case (Cons a bks)
  then obtain a' where "del_services (varray_size a) True a = Some a'" "va_wf a'" "va_list a' = []"
    using del_services_spec [of a "varray_size a"] by (auto simp: va_size)
  then show ?case using Cons by fastforce
qed simp

lemma srvc_clear_spec:
  assumes "srvcs_wf space" "0 \<le> ss_bucket_sz space"
    "\<forall>b < NBUCKETS. va_used (ss_bucket space ! b) < va_capc (ss_bucket space ! b) \<or> srvc_list space b = []"
  shows "\<exists>space'. vroute_srvc_space_clear True space = Some space' \<and> srvcs_wf space' \<and> (\<forall>b < NBUCKETS. srvc_list space' b = [])"
proof -
  have "\<forall>a \<in> set (ss_bucket space). va_wf a \<and> (va_used a < va_capc a \<or> va_list a = [])"
    using assms by (auto simp: srvcs_wf_def srvc_list_def in_set_conv_nth)
  then obtain bks where "clear_services True (ss_bucket space) = Some bks" "length bks = NBUCKETS"
      "\<forall>a \<in> set bks. va_wf a \<and> va_list a = []"
    using clear_services_spec assms(1) by (metis srvcs_wf_def)
  then show ?thesis using assms(2) by (simp add: vroute_srvc_space_clear_def srvcs_wf_def srvc_list_def)
qed

lemma srvc_init_spec:
  "0 \<le> sz \<Longrightarrow> srvcs_wf (vroute_srvc_space_init sz)" "b < NBUCKETS \<Longrightarrow> srvc_list (vroute_srvc_space_init sz) b = []"
  by (simp_all add: vroute_srvc_space_init_def srvcs_wf_def srvc_list_def)

end
