(* ===== verification/Msger.thy ===== *)
theory Msger
  imports DhtMsg
begin

section \<open>The messenger and the ticker (vmsger.c, vticker.c, vhost.c)\<close>

text \<open>
  Messages leave the daemon through a queue, which the socket code empties, and arrive through
  \<open>dsptch\<close>, which unpacks them and calls the callbacks registered for their kind. Both halves of
  \<open>struct vmsger\<close> have a lock of their own. The callbacks run on the state \<open>'r\<close> of the rest of the
  program, which holds the sending half (a callback answers by pushing), so the sending half is a
  record of its own. The lists are \<open>vlist\<close>s, circular doubly linked lists of separate objects:
  \<open>vlist_add_tail\<close> appends, \<open>vlist_pop_head\<close> takes the head, \<open>__vlist_for_each\<close> goes through in
  order. The 110-byte copy of an address in \<open>vmsg_sys_init\<close> is the copy of its \<open>sockaddr_in\<close>.
\<close>

subsection \<open>Messages\<close>

abbreviation (input) VMSG_DHT :: int where "VMSG_DHT \<equiv> 1"

definition DHT_MAGIC :: u32 where "DHT_MAGIC = 0x58681506"

record vmsg_usr =
  mu_msgId :: int
  mu_addr :: sockaddr_in
  mu_spec :: sockaddr_in
  mu_len :: int
  mu_data :: bytes

record vmsg_sys =
  ms_addr :: sockaddr_in
  ms_spec :: sockaddr_in
  ms_len :: int
  ms_data :: bytes

definition vmsg_buf_alloc :: "bool \<Rightarrow> int \<Rightarrow> bytes option" where
  "vmsg_buf_alloc mem sz =
     (let bsz = (if sz > 0 then sz * BUF_SZ else BUF_SZ)
      in if mem then Some (replicate (nat bsz) 0) else None)"

text \<open>The data starts as \<open>NULL\<close> when \<open>sz\<close> is 0.\<close>

definition vmsg_sys_alloc :: "bool \<Rightarrow> int \<Rightarrow> vmsg_sys option option" where
  "vmsg_sys_alloc mem sz = do {
     vassert (sz \<ge> 0);
     Some (if mem then Some \<lparr>ms_addr = sockaddr_zero, ms_spec = sockaddr_zero, ms_len = sz,
                             ms_data = replicate (nat sz) 0\<rparr>
           else None)
   }"

definition vmsg_sys_init ::
  "vmsg_sys \<Rightarrow> sockaddr_in option \<Rightarrow> sockaddr_in option \<Rightarrow> int \<Rightarrow> bytes \<Rightarrow> vmsg_sys option" where
  "vmsg_sys_init ms addr spec len data = do {
     vassert (len > 0);
     let ms = (case addr of None \<Rightarrow> ms | Some a \<Rightarrow> ms\<lparr>ms_addr := a\<rparr>);
     let ms = (case spec of None \<Rightarrow> ms | Some a \<Rightarrow> ms\<lparr>ms_spec := a\<rparr>);
     Some (ms\<lparr>ms_len := len, ms_data := data\<rparr>)
   }"

definition vmsg_sys_refresh :: "vmsg_sys \<Rightarrow> int \<Rightarrow> vmsg_sys option" where
  "vmsg_sys_refresh ms buf_len = do {
     vassert (buf_len > 0);
     vassert (nat buf_len \<le> length (ms_data ms));
     Some \<lparr>ms_addr = sockaddr_zero, ms_spec = sockaddr_zero, ms_len = buf_len,
           ms_data = replicate (nat buf_len) 0 @ drop (nat buf_len) (ms_data ms)\<rparr>
   }"

definition vmsg_usr_init ::
  "int \<Rightarrow> sockaddr_in \<Rightarrow> sockaddr_in \<Rightarrow> int \<Rightarrow> bytes \<Rightarrow> vmsg_usr option" where
  "vmsg_usr_init msgId addr spec len data = do {
     vassert (msgId \<ge> 0);
     vassert (len > 0);
     Some \<lparr>mu_msgId = msgId, mu_addr = addr, mu_spec = spec, mu_len = len, mu_data = data\<rparr>
   }"

text \<open>
  \<open>vhost\<close>'s callbacks. Packing writes the kind and the magic number into the 8 bytes that
  \<open>vdht_buf_alloc\<close> reserves in front of the buffer. Unpacking reads them; a message without the
  magic number is accepted too, and then \<open>um\<close> stays what it was, the unset local variable of
  \<open>_vmsger_dsptch\<close>.
\<close>

definition aux_vhost_pack_msg_cb :: "vmsg_usr \<Rightarrow> vmsg_sys \<Rightarrow> (int \<times> vmsg_sys) option" where
  "aux_vhost_pack_msg_cb um sm =
     (if mu_msgId um = VMSG_DHT then do {
        sm \<leftarrow> vmsg_sys_init sm (Some (mu_addr um)) (Some (mu_spec um)) (mu_len um + 8)
                (le32 DHT_MAGIC @ le32 (word_of_int (mu_msgId um)) @ mu_data um);
        Some (0, sm)
      }
      else Some (-1, sm))"

definition get_uint32 :: "bytes \<Rightarrow> u32 option" where
  "get_uint32 b = (if length b < 4 then None else Some (of_le32 b))"

definition aux_vhost_unpack_msg_cb :: "vmsg_sys \<Rightarrow> vmsg_usr \<Rightarrow> (int \<times> vmsg_usr) option" where
  "aux_vhost_unpack_msg_cb sm um = do {
     magic \<leftarrow> get_uint32 (ms_data sm);
     msgId \<leftarrow> get_uint32 (drop 4 (ms_data sm));
     if magic = DHT_MAGIC then do {
       um \<leftarrow> vmsg_usr_init (sint msgId) (ms_addr sm) (ms_spec sm) (ms_len sm - 8) (drop 8 (ms_data sm));
       Some (0, um)
     }
     else Some (0, um)
   }"

subsection \<open>The messenger\<close>

record vmsg_outq =
  mq_msgs :: "vmsg_sys list"
  mq_pack_cb :: "vmsg_usr \<Rightarrow> vmsg_sys \<Rightarrow> (int \<times> vmsg_sys) option"

record 'r vmsg_cb =
  mcb_msgId :: int
  mcb_cb :: "vmsg_usr \<Rightarrow> 'r \<Rightarrow> (int \<times> 'r) option"

record 'r vmsg_inq =
  mi_cbs :: "'r vmsg_cb list"
  mi_unpack_cb :: "vmsg_sys \<Rightarrow> vmsg_usr \<Rightarrow> (int \<times> vmsg_usr) option"

text \<open>The loop over the callbacks, whose results are not looked at.\<close>

fun dsptch_cbs :: "'r vmsg_cb list \<Rightarrow> vmsg_usr \<Rightarrow> 'r \<Rightarrow> 'r option" where
  "dsptch_cbs [] um r = Some r"
| "dsptch_cbs (mcb # cbs) um r =
     (if mcb_msgId mcb = mu_msgId um then do {
        (ret, r) \<leftarrow> mcb_cb mcb um r;
        dsptch_cbs cbs um r
      }
      else dsptch_cbs cbs um r)"

definition vmsger_dsptch :: "'r vmsg_inq \<Rightarrow> vmsg_usr \<Rightarrow> vmsg_sys \<Rightarrow> 'r \<Rightarrow> (int \<times> 'r) option" where
  "vmsger_dsptch msger usr_msg msg r = do {
     (ret, usr_msg) \<leftarrow> mi_unpack_cb msger msg usr_msg;
     if ret < 0 then Some (-1, r)
     else do { r \<leftarrow> dsptch_cbs (mi_cbs msger) usr_msg r; Some (0, r) }
   }"

definition vmsger_add_cb ::
  "bool \<Rightarrow> 'r vmsg_inq \<Rightarrow> (vmsg_usr \<Rightarrow> 'r \<Rightarrow> (int \<times> 'r) option) \<Rightarrow> int \<Rightarrow> (int \<times> 'r vmsg_inq) option" where
  "vmsger_add_cb mem msger cb msgid = do {
     vassert (msgid > 0);
     if \<exists>mcb \<in> set (mi_cbs msger). mcb_msgId mcb = msgid then Some (0, msger)
     else if \<not> mem then Some (-1, msger)
     else Some (0, msger\<lparr>mi_cbs := mi_cbs msger @ [\<lparr>mcb_msgId = msgid, mcb_cb = cb\<rparr>]\<rparr>)
   }"

definition vmsger_push :: "bool \<Rightarrow> vmsg_outq \<Rightarrow> vmsg_usr \<Rightarrow> (int \<times> vmsg_outq) option" where
  "vmsger_push mem msger mu = do {
     alloc \<leftarrow> vmsg_sys_alloc mem 0;
     case alloc of
       None \<Rightarrow> Some (-1, msger)
     | Some ms \<Rightarrow> do {
         (ret, ms) \<leftarrow> mq_pack_cb msger mu ms;
         if ret < 0 then Some (-1, msger)
         else Some (0, msger\<lparr>mq_msgs := mq_msgs msger @ [ms]\<rparr>)
       }
   }"

definition vmsger_popable :: "vmsg_outq \<Rightarrow> bool" where
  "vmsger_popable msger = (mq_msgs msger \<noteq> [])"

definition vmsger_pop :: "vmsg_outq \<Rightarrow> int \<times> vmsg_sys option \<times> vmsg_outq" where
  "vmsger_pop msger =
     (case mq_msgs msger of
        [] \<Rightarrow> (-1, None, msger)
      | ms # rest \<Rightarrow> (0, Some ms, msger\<lparr>mq_msgs := rest\<rparr>))"

definition vmsger_clear :: "'r vmsg_inq \<Rightarrow> vmsg_outq \<Rightarrow> 'r vmsg_inq \<times> vmsg_outq" where
  "vmsger_clear msger_in msger_out = (msger_in\<lparr>mi_cbs := []\<rparr>, msger_out\<lparr>mq_msgs := []\<rparr>)"

text \<open>\<open>vmsger_init\<close> and the registration of the two callbacks by \<open>vhost\<close>.\<close>

definition vmsger_init ::
  "(vmsg_usr \<Rightarrow> vmsg_sys \<Rightarrow> (int \<times> vmsg_sys) option) \<Rightarrow>
   (vmsg_sys \<Rightarrow> vmsg_usr \<Rightarrow> (int \<times> vmsg_usr) option) \<Rightarrow> 'r vmsg_inq \<times> vmsg_outq" where
  "vmsger_init pack_cb unpack_cb =
     (\<lparr>mi_cbs = [], mi_unpack_cb = unpack_cb\<rparr>, \<lparr>mq_msgs = [], mq_pack_cb = pack_cb\<rparr>)"

subsection \<open>The ticker\<close>

text \<open>A ticker is the list of its callbacks, which run in order on each tick of its timer.\<close>

type_synonym 'r vticker = "('r \<Rightarrow> 'r option) list"

definition vticker_add_cb :: "bool \<Rightarrow> 'r vticker \<Rightarrow> ('r \<Rightarrow> 'r option) \<Rightarrow> int \<times> 'r vticker" where
  "vticker_add_cb mem ticker cb = (if \<not> mem then (-1, ticker) else (0, ticker @ [cb]))"

definition vticker_clear :: "'r vticker \<Rightarrow> 'r vticker" where
  "vticker_clear ticker = []"

fun aux_timer_cb :: "'r vticker \<Rightarrow> 'r \<Rightarrow> 'r option" where
  "aux_timer_cb [] r = Some r"
| "aux_timer_cb (cb # cbs) r = do { r \<leftarrow> cb r; aux_timer_cb cbs r }"


section \<open>What these operations do\<close>

lemma push_spec:
  assumes "mq_pack_cb q mu \<lparr>ms_addr = sockaddr_zero, ms_spec = sockaddr_zero, ms_len = 0, ms_data = []\<rparr>
    = Some (ret, ms)"
  shows "vmsger_push True q mu = Some (if ret < 0 then (-1, q) else (0, q\<lparr>mq_msgs := mq_msgs q @ [ms]\<rparr>))"
  using assms by (simp add: vmsger_push_def vmsg_sys_alloc_def)

text \<open>What \<open>vhost\<close> makes of a message of the DHT.\<close>

definition packed :: "vmsg_usr \<Rightarrow> vmsg_sys" where
  "packed mu = \<lparr>ms_addr = mu_addr mu, ms_spec = mu_spec mu, ms_len = mu_len mu + 8,
     ms_data = le32 DHT_MAGIC @ le32 (word_of_int (mu_msgId mu)) @ mu_data mu\<rparr>"

definition dht_msg :: "vmsg_usr \<Rightarrow> bool" where
  "dht_msg mu \<longleftrightarrow> mu_msgId mu = VMSG_DHT \<and> 0 < mu_len mu"

lemma pack_spec: "dht_msg mu \<Longrightarrow> aux_vhost_pack_msg_cb mu sm = Some (0, packed mu)"
  by (simp add: aux_vhost_pack_msg_cb_def vmsg_sys_init_def packed_def dht_msg_def)

lemma pack_other: "mu_msgId mu \<noteq> VMSG_DHT \<Longrightarrow> aux_vhost_pack_msg_cb mu sm = Some (-1, sm)"
  by (simp add: aux_vhost_pack_msg_cb_def)

lemma unpack_packed:
  assumes "dht_msg mu"
  shows "aux_vhost_unpack_msg_cb (packed mu) um = Some (0, mu)"
  using assms by (simp add: aux_vhost_unpack_msg_cb_def packed_def get_uint32_def vmsg_usr_init_def
      dht_msg_def)

text \<open>Receiving happens into a zeroed buffer of 8 kB; \<open>len\<close> is what the socket returned.\<close>

lemma unpack_magic:
  assumes "length (ms_data sm) \<ge> 8" "of_le32 (ms_data sm) = DHT_MAGIC"
  shows "aux_vhost_unpack_msg_cb sm um =
    (if sint (of_le32 (drop 4 (ms_data sm))) < 0 \<or> ms_len sm \<le> 8 then None
     else Some (0, \<lparr>mu_msgId = sint (of_le32 (drop 4 (ms_data sm))), mu_addr = ms_addr sm,
       mu_spec = ms_spec sm, mu_len = ms_len sm - 8, mu_data = drop 8 (ms_data sm)\<rparr>))"
proof -
  have "\<not> length (drop 4 (ms_data sm)) < 4" using assms by simp
  then show ?thesis
    using assms by (simp add: aux_vhost_unpack_msg_cb_def get_uint32_def vmsg_usr_init_def not_less not_le
        del: length_drop)
qed

lemma unpack_no_magic:
  assumes "length (ms_data sm) \<ge> 8" "of_le32 (ms_data sm) \<noteq> DHT_MAGIC"
  shows "aux_vhost_unpack_msg_cb sm um = Some (0, um)"
  using assms by (simp add: aux_vhost_unpack_msg_cb_def get_uint32_def)

subsection \<open>Callbacks\<close>

definition cbs_wf :: "'r vmsg_inq \<Rightarrow> bool" where
  "cbs_wf msger \<longleftrightarrow> distinct (map mcb_msgId (mi_cbs msger)) \<and> (\<forall>mcb \<in> set (mi_cbs msger). 0 < mcb_msgId mcb)"

definition cb_for :: "'r vmsg_inq \<Rightarrow> int \<Rightarrow> 'r vmsg_cb option" where
  "cb_for msger i = find (\<lambda>mcb. mcb_msgId mcb = i) (mi_cbs msger)"

lemma dsptch_cbs_skip: "\<forall>mcb \<in> set cbs. mcb_msgId mcb \<noteq> mu_msgId um \<Longrightarrow> dsptch_cbs cbs um r = Some r"
  by (induction cbs) auto

lemma dsptch_cbs_one:
  "distinct (map mcb_msgId cbs) \<Longrightarrow> dsptch_cbs cbs um r =
     (case find (\<lambda>mcb. mcb_msgId mcb = mu_msgId um) cbs of
        None \<Rightarrow> Some r
      | Some mcb \<Rightarrow> map_option snd (mcb_cb mcb um r))"
proof (induction cbs)
  case (Cons c cbs)
  show ?case
  proof (cases "mcb_msgId c = mu_msgId um")
    case True
    then have "\<forall>m \<in> set cbs. mcb_msgId m \<noteq> mu_msgId um" using Cons.prems by force
    then have "dsptch_cbs cbs um r' = Some r'" for r' by (rule dsptch_cbs_skip)
    then show ?thesis using True by (cases "mcb_cb c um r") auto
  qed (use Cons in simp)
qed simp

lemma dsptch_spec:
  assumes "cbs_wf msger" "mi_unpack_cb msger msg um0 = Some (ret, um)" "0 \<le> ret"
  shows "vmsger_dsptch msger um0 msg r =
    (case cb_for msger (mu_msgId um) of
       None \<Rightarrow> Some (0, r)
     | Some mcb \<Rightarrow> map_option (\<lambda>(_, r). (0, r)) (mcb_cb mcb um r))"
proof (cases "cb_for msger (mu_msgId um)")
  case (Some mcb)
  then show ?thesis using assms
    by (cases "mcb_cb mcb um r") (auto simp: vmsger_dsptch_def dsptch_cbs_one cbs_wf_def cb_for_def)
qed (use assms in \<open>simp add: vmsger_dsptch_def dsptch_cbs_one cbs_wf_def cb_for_def\<close>)

lemma add_cb_spec:
  assumes "cbs_wf msger" "0 < i"
  obtains m' where "vmsger_add_cb True msger cb i = Some (0, m')" "cbs_wf m'"
    "cb_for m' i = (case cb_for msger i of None \<Rightarrow> Some \<lparr>mcb_msgId = i, mcb_cb = cb\<rparr> | Some c \<Rightarrow> Some c)"
    "\<And>j. j \<noteq> i \<Longrightarrow> cb_for m' j = cb_for msger j" "mi_unpack_cb m' = mi_unpack_cb msger"
proof (cases "\<exists>mcb \<in> set (mi_cbs msger). mcb_msgId mcb = i")
  case True
  then have "cb_for msger i \<noteq> None" by (auto simp: cb_for_def find_None_iff)
  then show ?thesis using True assms by (intro that[of msger]) (auto simp: vmsger_add_cb_def)
next
  case False
  let ?c = "\<lparr>mcb_msgId = i, mcb_cb = cb\<rparr>"
  have none: "cb_for msger i = None" using False by (auto simp: cb_for_def find_None_iff)
  have app: "find p (xs @ [x]) = (case find p xs of None \<Rightarrow> (if p x then Some x else None) | Some y \<Rightarrow> Some y)"
    for p and xs :: "'a vmsg_cb list" and x by (induction xs) auto
  show ?thesis
  proof (rule that[of "msger\<lparr>mi_cbs := mi_cbs msger @ [?c]\<rparr>"])
    show "cb_for (msger\<lparr>mi_cbs := mi_cbs msger @ [?c]\<rparr>) i =
      (case cb_for msger i of None \<Rightarrow> Some ?c | Some c \<Rightarrow> Some c)"
      using none by (simp add: cb_for_def app)
    show "cb_for (msger\<lparr>mi_cbs := mi_cbs msger @ [?c]\<rparr>) j = cb_for msger j" if "j \<noteq> i" for j
      using that by (simp add: cb_for_def app split: option.split)
  qed (use False assms in \<open>auto simp: vmsger_add_cb_def cbs_wf_def\<close>)
qed

subsection \<open>The queue\<close>

text \<open>What a sender relies on: pushing appends to the contents, popping takes the first.\<close>

locale fifo =
  fixes push :: "'m \<Rightarrow> 'q \<Rightarrow> 'q option" and pop :: "'q \<Rightarrow> ('w \<times> 'q) option"
    and contents :: "'q \<Rightarrow> 'w list" and wire :: "'m \<Rightarrow> 'w" and valid :: "'q \<Rightarrow> bool"
  assumes push_back: "valid q \<Longrightarrow> push m q = Some q' \<Longrightarrow> valid q' \<and> contents q' = contents q @ [wire m]"
    and pop_empty: "valid q \<Longrightarrow> contents q = [] \<Longrightarrow> pop q = None"
    and pop_front: "valid q \<Longrightarrow> contents q = w # ws \<Longrightarrow> \<exists>q'. pop q = Some (w, q') \<and> valid q' \<and> contents q' = ws"

text \<open>Pushing a list of messages, and popping \<open>n\<close> times.\<close>

fun push_all :: "('m \<Rightarrow> 'q \<Rightarrow> 'q option) \<Rightarrow> 'm list \<Rightarrow> 'q \<Rightarrow> 'q option" where
  "push_all push [] q = Some q"
| "push_all push (m # ms) q = do { q \<leftarrow> push m q; push_all push ms q }"

fun pop_upto :: "('q \<Rightarrow> ('w \<times> 'q) option) \<Rightarrow> nat \<Rightarrow> 'q \<Rightarrow> 'w list \<times> 'q" where
  "pop_upto pop 0 q = ([], q)"
| "pop_upto pop (Suc n) q =
     (case pop q of None \<Rightarrow> ([], q)
      | Some (w, q') \<Rightarrow> (let (ws, q'') = pop_upto pop n q' in (w # ws, q'')))"

context fifo
begin

lemma push_all_contents:
  "valid q \<Longrightarrow> push_all push ms q = Some q' \<Longrightarrow> valid q' \<and> contents q' = contents q @ map wire ms"
proof (induction ms arbitrary: q)
  case (Cons m ms)
  obtain q1 where q1: "push m q = Some q1" "push_all push ms q1 = Some q'"
    using Cons.prems(2) by (auto simp: run_simps)
  show ?case using push_back[OF Cons.prems(1) q1(1)] Cons.IH[OF _ q1(2)] by simp
qed simp

lemma pop_upto_contents:
  "valid q \<Longrightarrow> \<exists>q'. pop_upto pop n q = (take n (contents q), q') \<and> valid q' \<and> contents q' = drop n (contents q)"
proof (induction n arbitrary: q)
  case (Suc n)
  show ?case
  proof (cases "contents q")
    case Nil
    then show ?thesis using Suc.prems pop_empty by simp
  next
    case (Cons w ws)
    obtain q1 where q1: "pop q = Some (w, q1)" "valid q1" "contents q1 = ws"
      using pop_front[OF Suc.prems Cons] by blast
    then show ?thesis using Suc.IH[OF q1(2)] Cons by auto
  qed
qed simp

lemma sent_in_order:
  assumes "valid q" "push_all push ms q = Some q'" "contents q = []"
  shows "fst (pop_upto pop (length ms) q') = map wire ms"
proof -
  have "valid q'" "contents q' = map wire ms" using push_all_contents[OF assms(1,2)] assms(3) by auto
  then show ?thesis using pop_upto_contents[of q' "length ms"] by auto
qed

end

text \<open>The messenger's queue, with \<open>vhost\<close>'s packing; a push of another kind of message fails and
  leaves the queue alone.\<close>

definition send_dht :: "vmsg_usr \<Rightarrow> vmsg_outq \<Rightarrow> vmsg_outq option" where
  "send_dht mu q = do {
     (ret, q') \<leftarrow> vmsger_push True q mu;
     if ret < 0 then None else Some q'
   }"

definition take_msg :: "vmsg_outq \<Rightarrow> (vmsg_sys \<times> vmsg_outq) option" where
  "take_msg q = (case vmsger_pop q of (ret, Some ms, q') \<Rightarrow> Some (ms, q') | _ \<Rightarrow> None)"

lemma push_dht:
  assumes "mq_pack_cb q = aux_vhost_pack_msg_cb" "dht_msg mu"
  shows "vmsger_push True q mu = Some (0, q\<lparr>mq_msgs := mq_msgs q @ [packed mu]\<rparr>)"
  using assms pack_spec[OF assms(2)] by (simp add: vmsger_push_def vmsg_sys_alloc_def)

lemma send_dht_Some:
  assumes "mq_pack_cb q = aux_vhost_pack_msg_cb" "send_dht mu q = Some q'"
  shows "q' = q\<lparr>mq_msgs := mq_msgs q @ [packed mu]\<rparr>"
proof -
  have "mu_msgId mu = VMSG_DHT"
    using assms by (auto simp: send_dht_def vmsger_push_def vmsg_sys_alloc_def aux_vhost_pack_msg_cb_def
        split: if_splits)
  then show ?thesis
    using assms by (auto simp: send_dht_def vmsger_push_def vmsg_sys_alloc_def aux_vhost_pack_msg_cb_def
        vmsg_sys_init_def packed_def run_simps split: if_splits)
qed

interpretation outq: fifo send_dht take_msg mq_msgs packed "\<lambda>q. mq_pack_cb q = aux_vhost_pack_msg_cb"
proof
  fix q m q' assume "mq_pack_cb q = aux_vhost_pack_msg_cb" "send_dht m q = Some q'"
  then show "mq_pack_cb q' = aux_vhost_pack_msg_cb \<and> mq_msgs q' = mq_msgs q @ [packed m]"
    using send_dht_Some[of q m q'] by simp
qed (auto simp: take_msg_def vmsger_pop_def)

lemma send_dht_all:
  assumes "mq_pack_cb q = aux_vhost_pack_msg_cb" "\<forall>mu \<in> set mus. dht_msg mu"
  shows "push_all send_dht mus q = Some (q\<lparr>mq_msgs := mq_msgs q @ map packed mus\<rparr>)"
  using assms by (induction mus arbitrary: q) (auto simp: send_dht_def push_dht)

lemma timer_cbs_append: "aux_timer_cb (xs @ ys) r = do { r \<leftarrow> aux_timer_cb xs r; aux_timer_cb ys r }"
proof (induction xs arbitrary: r)
  case (Cons x xs)
  then show ?case by (cases "x r") auto
qed simp

end
