(* ===== verification/VNode.thy ===== *)
theory VNode
  imports NodeInfo VArray
begin

section \<open>Our own node: addresses and services (vnode.c)\<close>

text \<open>
  The state of \<open>struct vnode\<close>: our node info with the addresses we are known by, the services
  posted on this host, and the state of its life cycle. Here are the operations that need nothing
  of the route; those that send messages through it are in theory \<open>Host\<close>. The function-local
  statics of \<open>_aux_node_get_eaddrs\<close> and \<open>_aux_node_reflex_NAT\<close> are fields. The services are separate
  heap objects, each pointed to by one slot. The UPnP client (vupnpc.c, over the miniupnpc library)
  is the argument \<open>upnpc_map\<close>: \<open>None\<close> when it is not workable, otherwise the outcome of the mapping
  of an address, \<open>None\<close> for an error.
\<close>

datatype vnode_mode = VDHT_OFF | VDHT_UP | VDHT_RUN | VDHT_DOWN | VDHT_ERR

record nat_probe_data =
  np_dirty_mark :: bool
  np_laddr :: sockaddr_in
  np_eaddr :: sockaddr_in

record vnode =
  vn_is_symm_nat :: bool
  vn_tick_tmo :: int
  vn_tick_ts :: int
  vn_wb_tmo :: int
  vn_wb_ts :: int
  vn_mode :: vnode_mode
  vn_nice :: int
  vn_services :: "vsrvcInfo varray"
  vn_nodei :: vnodeInfo
  vn_nat :: nat_probe_data
  vn_reflex_ts :: int
  vn_nreflexs :: int

subsection \<open>Flags in the type of an address\<close>

definition need_portmap :: "u32 \<Rightarrow> bool" where "need_portmap ty = bit ty 16"
definition clear_portmap :: "u32 \<Rightarrow> u32" where "clear_portmap ty = unset_bit 16 ty"
definition set_portmap :: "u32 \<Rightarrow> u32" where "set_portmap ty = set_bit 16 ty"
definition need_reflex :: "u32 \<Rightarrow> bool" where "need_reflex ty = bit ty 17"
definition clear_reflex :: "u32 \<Rightarrow> u32" where "clear_reflex ty = unset_bit 17 ty"
definition set_reflex :: "u32 \<Rightarrow> u32" where "set_reflex ty = set_bit 17 ty"
definition need_probe :: "u32 \<Rightarrow> bool" where "need_probe ty = bit ty 18"
definition set_probe :: "u32 \<Rightarrow> u32" where "set_probe ty = set_bit 18 ty"

subsection \<open>Life cycle\<close>

text \<open>The outcome of setting up the UPnP client is only logged.\<close>

definition vnode_start :: "vnode \<Rightarrow> int \<times> vnode" where
  "vnode_start node = (if vn_mode node \<noteq> VDHT_OFF then (0, node) else (0, node\<lparr>vn_mode := VDHT_UP\<rparr>))"

definition vnode_stop :: "vnode \<Rightarrow> int \<times> vnode" where
  "vnode_stop node =
     (if vn_mode node = VDHT_OFF \<or> vn_mode node = VDHT_ERR then (0, node)
      else (0, node\<lparr>vn_mode := VDHT_DOWN\<rparr>))"

subsection \<open>Our addresses\<close>

text \<open>The loop of \<open>_aux_node_get_uaddrs\<close>, whose bound grows with the addresses it adds; there are at
  most 12, so with the first argument 12 it does not run out.\<close>

fun uaddrs_loop ::
  "nat \<Rightarrow> bool \<Rightarrow> (sockaddr_in \<Rightarrow> sockaddr_in option) \<Rightarrow> nat \<Rightarrow> vnodeInfo \<Rightarrow> vnodeInfo option" where
  "uaddrs_loop 0 mem upnpc i nodei = (if int i < ni_naddrs nodei then None else Some nodei)"
| "uaddrs_loop (Suc n) mem upnpc i nodei =
     (if int i < ni_naddrs nodei then do {
        a \<leftarrow> rd (ni_addrs nodei) i;
        if \<not> need_portmap (va_type a) then uaddrs_loop n mem upnpc (i + 1) nodei
        else do {
          let nodei = nodei\<lparr>ni_addrs := (ni_addrs nodei)[i := a\<lparr>va_type := clear_portmap (va_type a)\<rparr>]\<rparr>;
          case upnpc (va_addr a) of
            None \<Rightarrow> uaddrs_loop n mem upnpc (i + 1) nodei
          | Some uaddr \<Rightarrow> do {
              (ret, nodei) \<leftarrow> vnodeInfo_add_addr mem nodei uaddr
                (if vsockaddr_is_private uaddr then VSOCKADDR_UPNP else VSOCKADDR_REFLEXIVE);
              uaddrs_loop n mem upnpc (i + 1) nodei
            }
        }
      }
      else Some nodei)"

definition aux_node_get_uaddrs ::
  "bool \<Rightarrow> (sockaddr_in \<Rightarrow> sockaddr_in option) option \<Rightarrow> vnode \<Rightarrow> vnode option" where
  "aux_node_get_uaddrs mem upnpc_map node =
     (case upnpc_map of
        None \<Rightarrow> Some node
      | Some upnpc \<Rightarrow> do {
          nodei \<leftarrow> uaddrs_loop 12 mem upnpc 0 (vn_nodei node);
          Some (node\<lparr>vn_nodei := nodei\<rparr>)
        })"

definition aux_node_reflex_NAT :: "vnode \<Rightarrow> sockaddr_in \<Rightarrow> sockaddr_in \<Rightarrow> vnode" where
  "aux_node_reflex_NAT node laddr eaddr =
     (let nat = vn_nat node in
      if \<not> vsockaddr_is_public eaddr then node
      else if \<not> np_dirty_mark nat then
        node\<lparr>vn_nat := \<lparr>np_dirty_mark = True, np_laddr = vsockaddr_copy laddr, np_eaddr = vsockaddr_copy eaddr\<rparr>\<rparr>
      else if \<not> vsockaddr_equal (np_laddr nat) laddr then node
      else if \<not> vsockaddr_equal (np_eaddr nat) eaddr then node\<lparr>vn_is_symm_nat := True\<rparr>
      else node)"

text \<open>The loop of \<open>_vnode_reflex_addr\<close>, with \<open>n\<close> addresses to go. After the insertion the flag is
  cleared at index \<open>i\<close> again.\<close>

fun reflex_loop ::
  "bool \<Rightarrow> sockaddr_in \<Rightarrow> vsockaddr_in \<Rightarrow> nat \<Rightarrow> nat \<Rightarrow> vnodeInfo \<Rightarrow> vnodeInfo option" where
  "reflex_loop mem laddr eaddr 0 i nodei = Some nodei"
| "reflex_loop mem laddr eaddr (Suc n) i nodei = do {
     a \<leftarrow> rd (ni_addrs nodei) i;
     if \<not> need_reflex (va_type a) then reflex_loop mem laddr eaddr n (i + 1) nodei
     else if \<not> vsockaddr_equal laddr (va_addr a) then reflex_loop mem laddr eaddr n (i + 1) nodei
     else do {
       (ret, nodei) \<leftarrow> vnodeInfo_add_addr mem nodei (va_addr eaddr) (va_type eaddr);
       a \<leftarrow> rd (ni_addrs nodei) i;
       Some (nodei\<lparr>ni_addrs := (ni_addrs nodei)[i := a\<lparr>va_type := clear_reflex (va_type a)\<rparr>]\<rparr>)
     }
   }"

definition vnode_reflex_addr :: "bool \<Rightarrow> vnode \<Rightarrow> sockaddr_in \<Rightarrow> vsockaddr_in \<Rightarrow> (int \<times> vnode) option" where
  "vnode_reflex_addr mem node laddr eaddr = do {
     let node = aux_node_reflex_NAT node laddr (va_addr eaddr);
     nodei \<leftarrow> reflex_loop mem laddr eaddr (nat (ni_naddrs (vn_nodei node))) 0 (vn_nodei node);
     Some (0, node\<lparr>vn_nodei := nodei\<rparr>)
   }"

definition vnode_has_addr :: "vnode \<Rightarrow> sockaddr_in \<Rightarrow> bool option" where
  "vnode_has_addr node addr = vnodeInfo_has_addr (vn_nodei node) addr"

definition own_addr_type :: "sockaddr_in \<Rightarrow> u32" where
  "own_addr_type addr =
     set_probe (if vsockaddr_is_private addr then set_reflex (set_portmap VSOCKADDR_LOCAL)
                else VSOCKADDR_REFLEXIVE)"

definition aux_node_add_addr_cb :: "bool \<Rightarrow> sockaddr_in \<Rightarrow> vnodeInfo \<Rightarrow> vnodeInfo option" where
  "aux_node_add_addr_cb mem addr nodei = do {
     (ret, nodei) \<leftarrow> vnodeInfo_add_addr mem nodei addr (own_addr_type addr);
     Some nodei
   }"

fun add_host_addrs :: "bool \<Rightarrow> sockaddr_in list \<Rightarrow> vnodeInfo \<Rightarrow> vnodeInfo option" where
  "add_host_addrs mem [] nodei = Some nodei"
| "add_host_addrs mem (a # as) nodei = do {
     nodei \<leftarrow> aux_node_add_addr_cb mem a nodei;
     add_host_addrs mem as nodei
   }"

text \<open>
  \<open>cfg\<close> is what \<open>get_dht_address\<close> returns; \<open>hostaddrs\<close> lists the addresses \<open>vhostaddr_get_first\<close>
  and \<open>vhostaddr_get_next\<close> find, with the configured port. The loop takes at most two after the
  first.
\<close>

definition aux_node_get_nodeinfo ::
  "bool \<Rightarrow> vnodeInfo \<Rightarrow> vtoken \<Rightarrow> bytes \<Rightarrow> vtoken \<Rightarrow> int \<times> sockaddr_in \<Rightarrow> (u16 \<Rightarrow> sockaddr_in list) \<Rightarrow>
     (int \<times> vnodeInfo) option" where
  "aux_node_get_nodeinfo mem nodei myid version ver0 cfg hostaddrs = do {
     (ret, ver) \<leftarrow> vnodeVer_unstrlize version ver0;
     nodei \<leftarrow> vnodeInfo_relax_init nodei myid ver 0;
     if fst cfg < 0 then Some (-1, nodei)
     else if sin_addr (snd cfg) \<noteq> 0 then do {
       nodei \<leftarrow> aux_node_add_addr_cb mem (snd cfg) nodei;
       Some (0, nodei)
     }
     else
       (case hostaddrs (htons (sin_port (snd cfg))) of
          [] \<Rightarrow> Some (-1, nodei)
        | a # as \<Rightarrow> do {
            nodei \<leftarrow> add_host_addrs mem (a # take 2 as) nodei;
            Some (0, nodei)
          })
   }"

definition vnode_init ::
  "bool \<Rightarrow> vtoken \<Rightarrow> bytes \<Rightarrow> vtoken \<Rightarrow> int \<times> sockaddr_in \<Rightarrow> (u16 \<Rightarrow> sockaddr_in list) \<Rightarrow> int \<Rightarrow>
     vnode option option" where
  "vnode_init mem myid version ver0 cfg hostaddrs wb_tmo = do {
     nodei0 \<leftarrow> vnodeInfo_relax_alloc True;
     (ret, nodei) \<leftarrow> aux_node_get_nodeinfo mem nodei0 myid version ver0 cfg hostaddrs;
     Some (if ret < 0 then None
           else Some \<lparr>vn_is_symm_nat = False, vn_tick_tmo = 30, vn_tick_ts = 0, vn_wb_tmo = wb_tmo,
             vn_wb_ts = 0, vn_mode = VDHT_OFF, vn_nice = 5, vn_services = varray_init 4,
             vn_nodei = nodei,
             vn_nat = \<lparr>np_dirty_mark = False, np_laddr = sockaddr_zero, np_eaddr = sockaddr_zero\<rparr>,
             vn_reflex_ts = 0, vn_nreflexs = 0\<rparr>)
   }"

subsection \<open>The services of this host\<close>

abbreviation (input) VPROTO_RES0 :: int where "VPROTO_RES0 \<equiv> 0"
abbreviation (input) VPROTO_RES1 :: int where "VPROTO_RES1 \<equiv> 3"

text \<open>The search all operations begin with: the first service with the hash, with \<open>n\<close> slots to go.\<close>

fun srvc_scan :: "nat \<Rightarrow> nat \<Rightarrow> vsrvcInfo varray \<Rightarrow> vsrvcHash \<Rightarrow> (nat \<times> vsrvcInfo) option option" where
  "srvc_scan 0 i services hash = Some None"
| "srvc_scan (Suc n) i services hash = do {
     item \<leftarrow> varray_get services (int i);
     srvci \<leftarrow> item;
     if vsrvcHash_equal (si_hash srvci) hash then Some (Some (i, srvci))
     else srvc_scan n (i + 1) services hash
   }"

definition services_scan :: "vnode \<Rightarrow> vsrvcHash \<Rightarrow> (nat \<times> vsrvcInfo) option option" where
  "services_scan node hash = srvc_scan (varray_size (vn_services node)) 0 (vn_services node) hash"

definition vnode_srvc_post :: "bool \<Rightarrow> vnode \<Rightarrow> vsrvcHash \<Rightarrow> vsockaddr_in \<Rightarrow> int \<Rightarrow> (int \<times> vnode) option" where
  "vnode_srvc_post mem node hash addr proto = do {
     vassert (proto > VPROTO_RES0 \<and> proto < VPROTO_RES1);
     f \<leftarrow> services_scan node hash;
     case f of
       Some (i, srvci) \<Rightarrow>
         if proto \<noteq> si_proto srvci then Some (-1, node)
         else do {
           (r, srvci) \<leftarrow> vsrvcInfo_add_addr mem srvci (va_addr addr) (va_type addr);
           (r, services) \<leftarrow> varray_set (vn_services node) (int i) (Some srvci);
           Some (0, node\<lparr>vn_services := services\<rparr>)
         }
     | None \<Rightarrow>
         (case vsrvcInfo_alloc mem of
            None \<Rightarrow> Some (-1, node)
          | Some srvci \<Rightarrow> do {
              srvci \<leftarrow> vsrvcInfo_init srvci hash (ni_id (vn_nodei node)) (vn_nice node) proto;
              (r, srvci) \<leftarrow> vsrvcInfo_add_addr mem srvci (va_addr addr) (va_type addr);
              (r, services) \<leftarrow> varray_add_tail mem (vn_services node) (Some srvci);
              w \<leftarrow> int_add (ni_weight (vn_nodei node)) 1;
              Some (0, node\<lparr>vn_services := services, vn_nodei := (vn_nodei node)\<lparr>ni_weight := w\<rparr>\<rparr>)
            })
   }"

text \<open>Removal of the service in slot \<open>i\<close>; \<open>vsrvcInfo_free\<close> asserts that there was one.\<close>

definition drop_service :: "bool \<Rightarrow> vnode \<Rightarrow> nat \<Rightarrow> vnode option" where
  "drop_service mem node i = do {
     (item, services) \<leftarrow> varray_del mem (vn_services node) (int i);
     srvci \<leftarrow> item;
     w \<leftarrow> int_add (ni_weight (vn_nodei node)) (-1);
     Some (node\<lparr>vn_services := services, vn_nodei := (vn_nodei node)\<lparr>ni_weight := w\<rparr>\<rparr>)
   }"

definition vnode_srvc_unpost :: "bool \<Rightarrow> vnode \<Rightarrow> vsrvcHash \<Rightarrow> sockaddr_in \<Rightarrow> (int \<times> vnode) option" where
  "vnode_srvc_unpost mem node hash addr = do {
     f \<leftarrow> services_scan node hash;
     case f of
       None \<Rightarrow> Some (0, node)
     | Some (i, srvci) \<Rightarrow> do {
         srvci \<leftarrow> vsrvcInfo_del_addr srvci addr;
         let services = vn_services node;
         let node = node\<lparr>vn_services := services\<lparr>va_items := (va_items services)[i := Some srvci]\<rparr>\<rparr>;
         if vsrvcInfo_is_empty srvci then do { node \<leftarrow> drop_service mem node i; Some (0, node) }
         else Some (0, node)
       }
   }"

definition vnode_srvc_unpost_ext :: "bool \<Rightarrow> vnode \<Rightarrow> vsrvcHash \<Rightarrow> (int \<times> vnode) option" where
  "vnode_srvc_unpost_ext mem node hash = do {
     f \<leftarrow> services_scan node hash;
     case f of
       None \<Rightarrow> Some (0, node)
     | Some (i, srvci) \<Rightarrow> do { node \<leftarrow> drop_service mem node i; Some (0, node) }
   }"

text \<open>The callback of the loop of \<open>_vnode_renice\<close>; \<open>nice\<close> is what \<open>get_nice\<close> returns.\<close>

fun renice_loop :: "nat \<Rightarrow> nat \<Rightarrow> int \<Rightarrow> vsrvcInfo varray \<Rightarrow> vsrvcInfo varray option" where
  "renice_loop 0 i nice services = Some services"
| "renice_loop (Suc n) i nice services = do {
     item \<leftarrow> varray_get services (int i);
     srvci \<leftarrow> item;
     renice_loop n (i + 1) nice
       (services\<lparr>va_items := (va_items services)[i := Some (srvci\<lparr>si_nice := nice\<rparr>)]\<rparr>)
   }"

definition vnode_renice :: "int \<Rightarrow> vnode \<Rightarrow> (int \<times> vnode) option" where
  "vnode_renice nice node = do {
     services \<leftarrow> renice_loop (varray_size (vn_services node)) 0 nice (vn_services node);
     Some (0, node\<lparr>vn_nice := nice, vn_services := services\<rparr>)
   }"

fun pop_services :: "nat \<Rightarrow> bool \<Rightarrow> vsrvcInfo varray \<Rightarrow> vsrvcInfo varray option" where
  "pop_services 0 mem services = (if varray_size services > 0 then None else Some services)"
| "pop_services (Suc n) mem services =
     (if varray_size services > 0 then do {
        (item, services) \<leftarrow> varray_pop_tail mem services;
        srvci \<leftarrow> item;
        pop_services n mem services
      }
      else Some services)"

definition vnode_clear :: "bool \<Rightarrow> vnode \<Rightarrow> vnode option" where
  "vnode_clear mem node = do {
     services \<leftarrow> pop_services (varray_size (vn_services node)) mem (vn_services node);
     Some (node\<lparr>vn_services := services\<rparr>)
   }"


section \<open>What these operations do\<close>

subsection \<open>The invariant\<close>

definition services_of :: "vnode \<Rightarrow> vsrvcInfo list" where
  "services_of node = va_list (vn_services node)"

definition own_service :: "vnode \<Rightarrow> vsrvcInfo \<Rightarrow> bool" where
  "own_service node s \<longleftrightarrow> srvc_wf s \<and> si_heap s \<and> si_hostid s = ni_id (vn_nodei node) \<and> si_nice s = vn_nice node"

text \<open>Our weight is the number of services we offer.\<close>

definition vnode_wf :: "vnode \<Rightarrow> bool" where
  "vnode_wf node \<longleftrightarrow> node_wf (vn_nodei node) \<and> \<not> ni_heap (vn_nodei node) \<and> va_wf (vn_services node) \<and>
     (\<forall>s \<in> set (services_of node). own_service node s) \<and> distinct (map si_hash (services_of node)) \<and>
     ni_weight (vn_nodei node) = int (length (services_of node)) \<and> 0 \<le> vn_nice node"

lemma vnode_wfD:
  assumes "vnode_wf node"
  shows "node_wf (vn_nodei node)" "va_wf (vn_services node)" "\<forall>s \<in> set (services_of node). own_service node s"
    "distinct (map si_hash (services_of node))" "ni_weight (vn_nodei node) = int (length (services_of node))"
    "0 \<le> vn_nice node" "\<not> ni_heap (vn_nodei node)"
  using assms by (auto simp: vnode_wf_def)

lemma service_tok: "vnode_wf node \<Longrightarrow> s \<in> set (services_of node) \<Longrightarrow> tok_wf (si_hash s)"
  using vnode_wfD(3) srvc_wf_tok by (auto simp: own_service_def)

lemma node_wf_weight [simp]: "node_wf (n\<lparr>ni_weight := w\<rparr>) = node_wf n"
  by (cases n) (simp add: node_wf_def ni_list_def)

subsection \<open>Looking up a service\<close>

lemma srvc_scan_spec:
  assumes "va_wf ps" "\<forall>p \<in> set (va_list ps). tok_wf (si_hash p)" "tok_wf h" "i + n = length (va_list ps)"
  shows "srvc_scan n i ps h =
    Some (map_option (\<lambda>k. (i + k, va_list ps ! (i + k))) (find_idx (\<lambda>p. si_hash p = h) (drop i (va_list ps))))"
  using assms(4)
proof (induction n arbitrary: i)
  case (Suc n)
  then have i: "i < length (va_list ps)" by simp
  have d: "drop i (va_list ps) = va_list ps ! i # drop (Suc i) (va_list ps)"
    using i by (simp add: Cons_nth_drop_Suc)
  have "vsrvcHash_equal (si_hash (va_list ps ! i)) h = (si_hash (va_list ps ! i) = h)"
    using assms(2,3) i nth_mem by fastforce
  then show ?case
    using Suc.IH [of "i + 1"] Suc.prems i varray_get_spec [OF assms(1), of i] unfolding d
    by (auto simp: option.map_comp comp_def simp del: va_list_length varray_get_spec intro!: option.map_cong)
qed simp

lemma services_scan_spec:
  assumes "vnode_wf node" "tok_wf h"
  shows "services_scan node h = Some (map_option (\<lambda>k. (k, services_of node ! k))
    (find_idx (\<lambda>s. si_hash s = h) (services_of node)))"
  using srvc_scan_spec [of "vn_services node" h 0 "length (services_of node)"] vnode_wfD(2) [OF assms(1)]
    service_tok [OF assms(1)] assms(2)
  by (simp add: services_scan_def services_of_def del: va_list_length)

lemma find_hash:
  assumes "find_idx (\<lambda>s. si_hash s = h) ss = Some k"
  shows "k < length ss" "ss ! k \<in> set ss" "si_hash (ss ! k) = h"
  using find_idx_Some [OF assms] by auto

text \<open>A change of slot \<open>i\<close>.\<close>

lemma set_slot:
  assumes "va_wf a" "i < length (va_list a)"
  shows "va_wf (a\<lparr>va_items := (va_items a)[i := Some x]\<rparr>)"
    "va_list (a\<lparr>va_items := (va_items a)[i := Some x]\<rparr>) = (va_list a)[i := x]"
    "va_used (a\<lparr>va_items := (va_items a)[i := Some x]\<rparr>) = va_used a"
    "va_capc (a\<lparr>va_items := (va_items a)[i := Some x]\<rparr>) = va_capc a"
proof -
  let ?b = "a\<lparr>va_items := (va_items a)[i := Some x]\<rparr>"
  have u: "i < va_used a" "va_used a \<le> length (va_items a)"
    using assms by (simp_all add: va_wf_def)
  have t: "take (va_used a) (va_items ?b) = (take (va_used a) (va_items a))[i := Some x]"
    using u by (simp add: take_update_swap)
  have "None \<notin> set (take (va_used a) (va_items ?b))"
    using assms(1) set_update_subset_insert [of "take (va_used a) (va_items a)" i "Some x"] unfolding t
    by (auto simp: va_wf_def)
  then show "va_wf ?b" using assms(1) by (auto simp: va_wf_def)
  show "va_list ?b = (va_list a)[i := x]"
    using t by (simp add: va_list_def map_update)
qed auto

lemma varray_set_spec:
  assumes "va_wf a" "i < length (va_list a)"
  shows "varray_set a (int i) (Some x) = Some (0, a\<lparr>va_items := (va_items a)[i := Some x]\<rparr>)"
proof -
  have "i < va_used a" "va_used a \<le> length (va_items a)"
    using assms by (simp_all add: va_wf_def)
  then show ?thesis by (auto simp: varray_set_def)
qed

text \<open>What an update of a service that keeps its hash and owner does to the invariant.\<close>

lemma vnode_wf_set:
  assumes "vnode_wf node" "i < length (services_of node)" "own_service node s"
    "si_hash s = si_hash (services_of node ! i)"
  defines "node' \<equiv> node\<lparr>vn_services := (vn_services node)\<lparr>va_items := (va_items (vn_services node))[i := Some s]\<rparr>\<rparr>"
  shows "vnode_wf node'" "services_of node' = (services_of node)[i := s]"
proof -
  show l: "services_of node' = (services_of node)[i := s]"
    using set_slot(2) [OF vnode_wfD(2) [OF assms(1)]] assms(2) by (simp add: node'_def services_of_def)
  have o: "own_service node' = own_service node" by (auto simp: own_service_def node'_def)
  have h: "map si_hash ((services_of node)[i := s]) = map si_hash (services_of node)"
    using assms(2,4) by (auto simp: list_eq_iff_nth_eq nth_list_update)
  have "\<forall>x \<in> set ((services_of node)[i := s]). own_service node x"
    using vnode_wfD(3) [OF assms(1)] assms(3) by (auto dest!: set_update_subset_insert [THEN subsetD])
  then show "vnode_wf node'"
    using assms(1) set_slot(1) [OF vnode_wfD(2) [OF assms(1)]] assms(2)
    unfolding vnode_wf_def l o h by (simp add: node'_def services_of_def)
qed

subsection \<open>Addresses of a service\<close>

definition retyped :: "sockaddr_in \<Rightarrow> u32 \<Rightarrow> vsockaddr_in list \<Rightarrow> vsockaddr_in list" where
  "retyped a t = map (\<lambda>x. if sa_key (va_addr x) = sa_key a then x\<lparr>va_type := t\<rparr> else x)"

lemma retyped_keys: "map (\<lambda>x. sa_key (va_addr x)) (retyped a t xs) = map (\<lambda>x. sa_key (va_addr x)) xs"
  by (simp add: retyped_def)

lemma retyped_update:
  assumes "distinct (map (\<lambda>x. sa_key (va_addr x)) xs)" "i < length xs" "sa_key (va_addr (xs ! i)) = sa_key a"
  shows "xs[i := (xs ! i)\<lparr>va_type := t\<rparr>] = retyped a t xs"
proof (rule nth_equalityI)
  fix j assume "j < length (xs[i := (xs ! i)\<lparr>va_type := t\<rparr>])"
  then have j: "j < length xs" by simp
  have "sa_key (va_addr (xs ! j)) = sa_key a \<longleftrightarrow> j = i"
    using assms j nth_eq_iff_index_eq [OF assms(1), of j i] by auto
  then show "xs[i := (xs ! i)\<lparr>va_type := t\<rparr>] ! j = retyped a t xs ! j"
    using j by (auto simp: retyped_def nth_list_update)
qed (simp add: retyped_def)

lemma vsrvcInfo_add_addr_known_room:
  assumes "srvc_wf s" "si_naddrs s < si_capc s" "addr_in (si_list s) a" "t < VSOCKADDR_BUTT"
  shows "\<exists>s'. vsrvcInfo_add_addr mem s a t = Some (0, s') \<and> srvc_wf s' \<and> si_same s s' \<and>
    si_list s' = retyped a t (si_list s)"
proof -
  have b: "nat (si_naddrs s) \<le> length (si_addrs s)" "si_naddrs s < 12"
    using assms by (auto simp: srvc_wf_def split: if_splits)
  obtain i where i: "addr_find (nat (si_naddrs s)) 0 (si_addrs s) a = Some (Some i)" "i < nat (si_naddrs s)"
      "sa_key (va_addr (si_addrs s ! i)) = sa_key a"
    using addr_find_Some [OF b(1)] assms(3) by (auto simp: si_list_def)
  let ?m = "s\<lparr>si_addrs := (si_addrs s)[i := (si_addrs s ! i)\<lparr>va_type := t\<rparr>]\<rparr>"
  have d: "distinct (map (\<lambda>x. sa_key (va_addr x)) (si_list s))"
    using assms(1) by (simp add: srvc_wf_def addrs_distinct_def)
  have il: "i < length (si_list s)" "si_list s ! i = si_addrs s ! i"
    using i b by (auto simp: si_list_def)
  have "si_list ?m = (si_list s)[i := (si_list s ! i)\<lparr>va_type := t\<rparr>]"
    using i b il by (simp add: si_list_def take_update_swap)
  then have l: "si_list ?m = retyped a t (si_list s)"
    using retyped_update [OF d il(1)] il i(3) by simp
  have "\<forall>x \<in> set (retyped a t (si_list s)). va_type x < VSOCKADDR_BUTT"
    using assms(1,4) by (auto simp: retyped_def srvc_wf_def)
  then have w: "srvc_wf ?m"
    using assms(1) d unfolding srvc_wf_def l addrs_distinct_def retyped_keys by auto
  have same: "?m = s" if "va_type (si_addrs s ! i) = t"
  proof -
    have "(si_addrs s ! i)\<lparr>va_type := t\<rparr> = si_addrs s ! i" using that by (cases "si_addrs s ! i") simp
    then show ?thesis by simp
  qed
  have "vsrvcInfo_add_addr mem s a t = Some (0, ?m)"
    using i b assms(2,4) same by (auto simp: vsrvcInfo_add_addr_def VSRVCINFO_MAX_ADDRS_def)
  then show ?thesis using w l by (intro exI [of _ ?m]) (simp add: si_same_def)
qed

definition addr_added :: "sockaddr_in \<Rightarrow> u32 \<Rightarrow> vsockaddr_in list \<Rightarrow> vsockaddr_in list" where
  "addr_added a t xs =
     (if length xs \<ge> 12 then xs
      else if addr_in xs a then retyped a t xs
      else addr_ins (\<lambda>t. t) \<lparr>va_addr = a, va_type = t\<rparr> xs)"

lemma vsrvcInfo_add_addr_spec:
  assumes "srvc_wf s" "t < VSOCKADDR_BUTT"
  obtains r s' where "vsrvcInfo_add_addr True s a t = Some (r, s')" "srvc_wf s'" "si_same s s'"
    "si_list s' = addr_added a t (si_list s)"
proof (cases "si_naddrs s < 12")
  case False
  then have "vsrvcInfo_add_addr True s a t = Some (-1, s)"
    using assms by (simp add: vsrvcInfo_add_addr_def VSRVCINFO_MAX_ADDRS_def)
  then show ?thesis
    using that [of "-1" s] assms False length_si_list [OF assms(1)] srvc_wf_le [OF assms(1)]
    by (auto simp: si_same_def addr_added_def nat_le_iff)
next
  case lt: True
  have len: "length (si_list s) < 12" using lt length_si_list [OF assms(1)] by simp
  show ?thesis
  proof (cases "addr_in (si_list s) a")
    case False
    then show ?thesis
      using vsrvcInfo_add_addr_new [OF assms(1) lt False assms(2)] that len by (auto simp: addr_added_def)
  next
    case True
    obtain m where m: "srvc_wf m" "si_naddrs m < si_capc m" "si_list m = si_list s" "si_same s m"
        "vsrvcInfo_add_addr True s a t = vsrvcInfo_add_addr True m a t"
    proof (cases "si_naddrs s < si_capc s")
      case True
      then show ?thesis using that [of s] assms(1) by (simp add: si_same_def)
    next
      case False
      then obtain m where "vsrvcInfo_grow True s = Some (Some m)" "srvc_wf m" "si_naddrs m = si_naddrs s"
          "si_naddrs m < si_capc m" "si_list m = si_list s" "si_same s m"
        using srvc_wf_grow [OF assms(1) lt] by (metis not_less)
      then show ?thesis using that [of m] False lt
        by (simp add: vsrvcInfo_add_addr_def VSRVCINFO_MAX_ADDRS_def)
    qed
    have "addr_in (si_list m) a" using True m(3) by simp
    then show ?thesis
      using vsrvcInfo_add_addr_known_room [OF m(1,2) _ assms(2)] that m len True
      by (fastforce simp: addr_added_def si_same_def)
  qed
qed

subsection \<open>Posting\<close>

lemma post_known:
  assumes "vnode_wf node" "tok_wf h" "proto \<in> {1, 2}" "va_type addr < VSOCKADDR_BUTT"
    "find_idx (\<lambda>s. si_hash s = h) (services_of node) = Some i"
  obtains "proto \<noteq> si_proto (services_of node ! i)" "vnode_srvc_post True node h addr proto = Some (-1, node)"
  | s' node' where "proto = si_proto (services_of node ! i)"
    "vnode_srvc_post True node h addr proto = Some (0, node')" "vnode_wf node'"
    "services_of node' = (services_of node)[i := s']" "si_same (services_of node ! i) s'"
    "si_list s' = addr_added (va_addr addr) (va_type addr) (si_list (services_of node ! i))"
    "vn_nodei node' = vn_nodei node"
proof -
  let ?s = "services_of node ! i"
  note k = find_hash [OF assms(5)]
  have sc: "services_scan node h = Some (Some (i, ?s))"
    using services_scan_spec [OF assms(1,2)] assms(5) by simp
  have p: "0 < proto" "proto < 3" using assms(3) by auto
  show thesis
  proof (cases "proto = si_proto ?s")
    case False
    then show thesis using that(1) sc p by (simp add: vnode_srvc_post_def)
  next
    case True
    have o: "own_service node ?s" using vnode_wfD(3) [OF assms(1)] k(2) by blast
    then have w: "srvc_wf ?s" by (simp add: own_service_def)
    obtain r s' where s': "vsrvcInfo_add_addr True ?s (va_addr addr) (va_type addr) = Some (r, s')"
        "srvc_wf s'" "si_same ?s s'" "si_list s' = addr_added (va_addr addr) (va_type addr) (si_list ?s)"
      using vsrvcInfo_add_addr_spec [OF w assms(4)] by blast
    let ?n = "node\<lparr>vn_services := (vn_services node)\<lparr>va_items := (va_items (vn_services node))[i := Some s']\<rparr>\<rparr>"
    have os: "own_service node s'" "si_hash s' = si_hash ?s" using o s' by (auto simp: own_service_def si_same_def)
    have "i < length (va_list (vn_services node))" using k(1) by (simp add: services_of_def)
    then have "vnode_srvc_post True node h addr proto = Some (0, ?n)"
      using sc p True s'(1) varray_set_spec [OF vnode_wfD(2) [OF assms(1)]]
      by (simp add: vnode_srvc_post_def)
    then show thesis
      using that(2) [of ?n s'] True s' vnode_wf_set [OF assms(1) k(1) os] by simp
  qed
qed

lemma post_new:
  assumes "vnode_wf node" "tok_wf h" "proto \<in> {1, 2}" "va_type addr < VSOCKADDR_BUTT"
    "h \<notin> si_hash ` set (services_of node)" "int (length (services_of node)) + 1 < 2 ^ 31"
  obtains s node' where "vnode_srvc_post True node h addr proto = Some (0, node')" "vnode_wf node'"
    "services_of node' = services_of node @ [s]" "si_hash s = h" "si_proto s = proto"
    "si_list s = [addr]" "vn_nodei node' = (vn_nodei node)\<lparr>ni_weight := ni_weight (vn_nodei node) + 1\<rparr>"
proof -
  have p: "0 < proto" "proto < 3" using assms(3) by auto
  have "find_idx (\<lambda>s. si_hash s = h) (services_of node) = None" using assms(5) by auto
  then have sc: "services_scan node h = Some None" using services_scan_spec [OF assms(1,2)] by simp
  obtain f0 where f0: "vsrvcInfo_alloc True = Some f0" by (simp add: vsrvcInfo_alloc_def)
  have idw: "tok_wf (ni_id (vn_nodei node))" using vnode_wfD(1) [OF assms(1)] by (rule node_wf_tok)
  obtain f where f: "vsrvcInfo_init f0 h (ni_id (vn_nodei node)) (vn_nice node) proto = Some f"
    "srvc_wf f" "si_list f = []" "si_hash f = h" "si_hostid f = ni_id (vn_nodei node)" "si_nice f = vn_nice node"
    "si_proto f = proto" "si_heap f"
    using vnode_wfD(6) [OF assms(1)] assms(2) idw f0
    by (auto simp: vsrvcInfo_init_def vsrvcInfo_alloc_def srvc_wf_def si_list_def addrs_distinct_def
        VSRVCINFO_MIN_ADDRS_def)
  obtain r s where s: "vsrvcInfo_add_addr True f (va_addr addr) (va_type addr) = Some (r, s)"
      "srvc_wf s" "si_same f s" "si_list s = addr_added (va_addr addr) (va_type addr) (si_list f)"
    using vsrvcInfo_add_addr_spec [OF f(2) assms(4)] by blast
  obtain a' where a': "varray_add_tail True (vn_services node) (Some s) = Some (0, a')" "va_wf a'"
      "va_list a' = va_list (vn_services node) @ [s]"
    using varray_add_tail_spec [OF vnode_wfD(2) [OF assms(1)]] by blast
  let ?w = "ni_weight (vn_nodei node)"
  let ?ni = "(vn_nodei node)\<lparr>ni_weight := ?w + 1\<rparr>"
  let ?n = "node\<lparr>vn_services := a', vn_nodei := ?ni\<rparr>"
  have "int32_ok (?w + 1)" using vnode_wfD(5) [OF assms(1)] assms(6) by (simp add: int32_ok_def)
  then have e: "vnode_srvc_post True node h addr proto = Some (0, ?n)"
    using sc p f0 f(1) s(1) a'(1) by (simp add: vnode_srvc_post_def)
  have l: "services_of ?n = services_of node @ [s]" using a'(3) by (simp add: services_of_def)
  have os: "own_service node s" using s f by (auto simp: own_service_def si_same_def)
  have o: "own_service ?n = own_service node" by (auto simp: own_service_def)
  have hs: "si_hash s = h" using s f by (simp add: si_same_def)
  have "node_wf ?ni" using vnode_wfD(1) [OF assms(1)] by simp
  then have "vnode_wf ?n"
    using assms(1,5) a'(2) os hs unfolding vnode_wf_def l o by simp
  then show thesis
    using that [of ?n s] e l hs s f by (simp add: addr_added_def addr_in_def si_same_def)
qed

subsection \<open>Unposting\<close>

lemma drop_service_spec:
  assumes "vnode_wf node" "i < length (services_of node)"
    "int (length (services_of node)) < 2 ^ 31"
  shows "va_used (vn_services node) = va_capc (vn_services node) \<Longrightarrow> drop_service True node i = None"
    "va_used (vn_services node) < va_capc (vn_services node) \<Longrightarrow>
       \<exists>node'. drop_service True node i = Some node' \<and> vnode_wf node' \<and>
         services_of node' = list_del i (services_of node) \<and>
         vn_nodei node' = (vn_nodei node)\<lparr>ni_weight := ni_weight (vn_nodei node) - 1\<rparr>"
proof -
  note w = vnode_wfD [OF assms(1)]
  have i: "i < va_used (vn_services node)" using assms(2) w(2) by (simp add: services_of_def)
  note d = varray_del_spec [OF w(2) i]
  show "drop_service True node i = None" if "va_used (vn_services node) = va_capc (vn_services node)"
    using d that by (simp add: drop_service_def)
  assume "va_used (vn_services node) < va_capc (vn_services node)"
  then obtain a' where a': "varray_del True (vn_services node) (int i) = Some (Some (va_list (vn_services node) ! i), a')"
      "va_wf a'" "va_list a' = list_del i (va_list (vn_services node))"
    using d by blast
  let ?ni = "(vn_nodei node)\<lparr>ni_weight := ni_weight (vn_nodei node) - 1\<rparr>"
  let ?n = "node\<lparr>vn_services := a', vn_nodei := ?ni\<rparr>"
  have "int32_ok (ni_weight (vn_nodei node) + (-1))" using w(5) assms(2,3) by (simp add: int32_ok_def)
  then have e: "drop_service True node i = Some ?n" using a'(1) by (simp add: drop_service_def)
  have l: "services_of ?n = list_del i (services_of node)" using a'(3) by (simp add: services_of_def)
  have o: "own_service ?n = own_service node" by (auto simp: own_service_def)
  have "node_wf ?ni" using w(1) by simp
  moreover have "distinct (map si_hash (list_del i (services_of node)))"
  proof -
    have "map si_hash (list_del i (services_of node)) = list_del i (map si_hash (services_of node))"
      by (simp add: list_del_def take_map drop_map)
    moreover have "distinct (list_del i xs)" if "distinct xs" for xs :: "vsrvcHash list"
      using that set_take_disj_set_drop_if_distinct [OF that, of i "Suc i"] by (simp add: list_del_def)
    ultimately show ?thesis using w(4) by simp
  qed
  moreover have "\<forall>s \<in> set (list_del i (services_of node)). own_service node s"
    using w(3) set_list_del_subset by fast
  ultimately have "vnode_wf ?n"
    using a'(2) w assms(2) unfolding vnode_wf_def l o by (simp add: of_nat_diff)
  then show "\<exists>node'. drop_service True node i = Some node' \<and> vnode_wf node' \<and>
         services_of node' = list_del i (services_of node) \<and>
         vn_nodei node' = (vn_nodei node)\<lparr>ni_weight := ni_weight (vn_nodei node) - 1\<rparr>"
    using e l by (intro exI [of _ ?n]) simp
qed

definition services_room :: "vnode \<Rightarrow> bool" where
  "services_room node \<longleftrightarrow> va_used (vn_services node) < va_capc (vn_services node) \<and>
     int (length (services_of node)) < 2 ^ 31"

text \<open>The services without the one with a hash.\<close>

definition without :: "vsrvcHash \<Rightarrow> vsrvcInfo list \<Rightarrow> vsrvcInfo list" where
  "without h ss = filter (\<lambda>s. si_hash s \<noteq> h) ss"

lemma list_del_without:
  assumes "distinct (map si_hash ss)" "find_idx (\<lambda>s. si_hash s = h) ss = Some i"
  shows "list_del i ss = without h ss"
  using assms
proof (induction ss arbitrary: i)
  case (Cons s ss)
  show ?case
  proof (cases "si_hash s = h")
    case True
    then have "h \<notin> si_hash ` set ss" using Cons.prems(1) by auto
    then have "\<forall>t \<in> set ss. si_hash t \<noteq> h" by auto
    then show ?thesis using True Cons.prems(2) by (simp add: without_def)
  next
    case False
    then obtain j where "find_idx (\<lambda>s. si_hash s = h) ss = Some j" "i = Suc j" using Cons.prems(2) by auto
    then show ?thesis using False Cons by (simp add: without_def)
  qed
qed simp

lemma unpost_ext_spec:
  assumes "vnode_wf node" "tok_wf h" "services_room node"
  obtains node' where "vnode_srvc_unpost_ext True node h = Some (0, node')" "vnode_wf node'"
    "services_of node' = without h (services_of node)"
proof (cases "find_idx (\<lambda>s. si_hash s = h) (services_of node)")
  case None
  then have "without h (services_of node) = services_of node" by (auto simp: without_def)
  then show ?thesis using that [of node] None services_scan_spec [OF assms(1,2)] assms(1)
    by (simp add: vnode_srvc_unpost_ext_def del: find_idx_None)
next
  case (Some i)
  obtain node' where n: "drop_service True node i = Some node'" "vnode_wf node'"
      "services_of node' = list_del i (services_of node)"
    using drop_service_spec(2) [OF assms(1) find_hash(1) [OF Some]] assms(3) by (auto simp: services_room_def)
  show ?thesis
    using that [of node'] n Some services_scan_spec [OF assms(1,2)]
      list_del_without [OF vnode_wfD(4) [OF assms(1)] Some]
    by (simp add: vnode_srvc_unpost_ext_def)
qed

text \<open>When the array of services is full, removing one reads and writes behind its end.\<close>

lemma unpost_ext_full:
  assumes "vnode_wf node" "tok_wf h" "h \<in> si_hash ` set (services_of node)"
    "va_used (vn_services node) = va_capc (vn_services node)" "int (length (services_of node)) < 2 ^ 31"
  shows "vnode_srvc_unpost_ext True node h = None"
proof (cases "find_idx (\<lambda>s. si_hash s = h) (services_of node)")
  case None
  then show ?thesis using assms(3) by auto
next
  case (Some i)
  then show ?thesis
    using services_scan_spec [OF assms(1,2)] drop_service_spec(1) [OF assms(1) find_hash(1) [OF Some] assms(5,4)]
    by (simp add: vnode_srvc_unpost_ext_def)
qed

lemma unpost_spec:
  fixes a :: sockaddr_in
  assumes "vnode_wf node" "tok_wf h" "services_room node"
    "find_idx (\<lambda>s. si_hash s = h) (services_of node) = Some i"
  defines "left \<equiv> filter (\<lambda>x. sa_key (va_addr x) \<noteq> sa_key a) (si_list (services_of node ! i))"
  obtains node' where "vnode_srvc_unpost True node h a = Some (0, node')" "vnode_wf node'"
    "left = [] \<Longrightarrow> services_of node' = without h (services_of node)"
    "left \<noteq> [] \<Longrightarrow> \<exists>s'. services_of node' = (services_of node)[i := s'] \<and> si_list s' = left \<and>
       si_same (services_of node ! i) s'"
proof -
  let ?s = "services_of node ! i"
  note k = find_hash [OF assms(4)]
  have o: "own_service node ?s" using vnode_wfD(3) [OF assms(1)] k(2) by blast
  then obtain s' where s': "vsrvcInfo_del_addr ?s a = Some s'" "srvc_wf s'" "si_same ?s s'" "si_list s' = left"
    using vsrvcInfo_del_addr_spec [of ?s a] by (auto simp: own_service_def left_def)
  let ?n = "node\<lparr>vn_services := (vn_services node)\<lparr>va_items := (va_items (vn_services node))[i := Some s']\<rparr>\<rparr>"
  have os: "own_service node s'" "si_hash s' = si_hash ?s" using o s' by (auto simp: own_service_def si_same_def)
  note n = vnode_wf_set [OF assms(1) k(1) os]
  have sc: "services_scan node h = Some (Some (i, ?s))"
    using services_scan_spec [OF assms(1,2)] assms(4) by simp
  have e: "vsrvcInfo_is_empty s' \<longleftrightarrow> left = []"
    using s'(2,4) length_si_list [OF s'(2)] by (auto simp: vsrvcInfo_is_empty_def srvc_wf_def)
  show thesis
  proof (cases "left = []")
    case False
    then have "vnode_srvc_unpost True node h a = Some (0, ?n)"
      using sc s'(1) e by (simp add: vnode_srvc_unpost_def Let_def)
    then show thesis using that [of ?n] False s'(3,4) n by blast
  next
    case True
    have hs: "map si_hash ((services_of node)[i := s']) = map si_hash (services_of node)"
      using k(1) os(2) by (auto simp: list_eq_iff_nth_eq nth_list_update)
    have r: "va_used (vn_services ?n) < va_capc (vn_services ?n)" "int (length (services_of ?n)) < 2 ^ 31"
      using assms(3) n(2) by (simp_all add: services_room_def)
    obtain node' where node': "drop_service True ?n i = Some node'" "vnode_wf node'"
        "services_of node' = list_del i ((services_of node)[i := s'])"
      using drop_service_spec(2) [OF n(1) _ r(2) r(1), of i] n(2) k(1) by auto
    have "list_del i ((services_of node)[i := s']) = list_del i (services_of node)"
      by (simp add: list_del_def)
    then show thesis
      using that [of node'] sc s' e True node' list_del_without [OF vnode_wfD(4) [OF assms(1)] assms(4)]
      by (simp add: vnode_srvc_unpost_def)
  qed
qed

subsection \<open>Renicing and clearing\<close>

lemma renice_loop_spec:
  assumes "va_wf a" "i + n = length (va_list a)"
  shows "\<exists>a'. renice_loop n i nice a = Some a' \<and> va_wf a' \<and>
    va_list a' = take i (va_list a) @ map (\<lambda>s. s\<lparr>si_nice := nice\<rparr>) (drop i (va_list a))"
  using assms
proof (induction n arbitrary: i a)
  case (Suc n)
  let ?x = "(va_list a ! i)\<lparr>si_nice := nice\<rparr>"
  let ?b = "a\<lparr>va_items := (va_items a)[i := Some ?x]\<rparr>"
  have i: "i < length (va_list a)" using Suc.prems(2) by simp
  note b = set_slot [OF Suc.prems(1) i, of ?x]
  have "i + 1 + n = length (va_list ?b)" using b(2) Suc.prems(2) by simp
  then obtain a' where a': "renice_loop n (i + 1) nice ?b = Some a'" "va_wf a'"
      "va_list a' = take (i + 1) (va_list ?b) @ map (\<lambda>s. s\<lparr>si_nice := nice\<rparr>) (drop (i + 1) (va_list ?b))"
    using Suc.IH [OF b(1)] by blast
  have "va_list a' = take i (va_list a) @ map (\<lambda>s. s\<lparr>si_nice := nice\<rparr>) (drop i (va_list a))"
    using i unfolding a'(3) b(2) by (simp add: take_Suc_conv_app_nth Cons_nth_drop_Suc [symmetric])
  then show ?case
    using a' i varray_get_spec [OF Suc.prems(1)] by (intro exI [of _ a']) simp
qed simp

lemma renice_spec:
  assumes "vnode_wf node" "0 \<le> nice"
  obtains node' where "vnode_renice nice node = Some (0, node')" "vnode_wf node'" "vn_nice node' = nice"
    "services_of node' = map (\<lambda>s. s\<lparr>si_nice := nice\<rparr>) (services_of node)" "vn_nodei node' = vn_nodei node"
proof -
  note w = vnode_wfD [OF assms(1)]
  obtain a' where a': "renice_loop (varray_size (vn_services node)) 0 nice (vn_services node) = Some a'" "va_wf a'"
      "va_list a' = map (\<lambda>s. s\<lparr>si_nice := nice\<rparr>) (services_of node)"
    using renice_loop_spec [OF w(2), of 0 "varray_size (vn_services node)" nice] w(2)
    by (auto simp: services_of_def)
  let ?n = "node\<lparr>vn_nice := nice, vn_services := a'\<rparr>"
  have sl: "si_list (s\<lparr>si_nice := nice\<rparr>) = si_list s" for s by (simp add: si_list_def)
  have sw: "srvc_wf (s\<lparr>si_nice := nice\<rparr>) = srvc_wf s" for s
    unfolding srvc_wf_def sl by simp
  have l: "services_of ?n = map (\<lambda>s. s\<lparr>si_nice := nice\<rparr>) (services_of node)"
    using a'(3) by (simp add: services_of_def)
  have "vnode_wf ?n"
    using w assms(2) a'(2) unfolding vnode_wf_def l by (auto simp: own_service_def sw comp_def)
  then show thesis using that [of ?n] a'(1) l by (simp add: vnode_renice_def)
qed

lemma pop_services_spec:
  "va_wf a \<Longrightarrow> n = length (va_list a) \<Longrightarrow> \<exists>a'. pop_services n True a = Some a' \<and> va_wf a' \<and> va_list a' = []"
proof (induction n arbitrary: a)
  case (Suc n)
  then have ne: "va_list a \<noteq> []" by (metis list.size(3) nat.distinct(1))
  obtain a' where a': "varray_pop_tail True a = Some (Some (last (va_list a)), a')" "va_wf a'"
      "va_list a' = butlast (va_list a)"
    using varray_pop_tail_spec [OF Suc.prems(1) ne] by blast
  then have "n = length (va_list a')" using Suc.prems(2) by simp
  have "varray_size a = Suc n" using Suc.prems by (metis va_size)
  then show ?case using Suc.IH [OF a'(2)] a' \<open>n = length (va_list a')\<close>
    by (simp del: va_size va_list_length)
qed (auto simp: va_list_Nil)

lemma vnode_clear_spec:
  assumes "va_wf (vn_services node)"
  obtains node' where "vnode_clear True node = Some node'" "services_of node' = []"
    "va_wf (vn_services node')" "vn_nodei node' = vn_nodei node"
proof -
  obtain a' where "pop_services (varray_size (vn_services node)) True (vn_services node) = Some a'"
      "va_wf a'" "va_list a' = []"
    using pop_services_spec [OF assms] assms by auto
  then show thesis using that [of "node\<lparr>vn_services := a'\<rparr>"] by (simp add: vnode_clear_def services_of_def)
qed

subsection \<open>Our addresses\<close>

lemma type_take_bit: "VSOCKADDR_TYPE t = take_bit 8 t"
proof -
  have "(0xFF :: u32) = mask 8" by (simp add: mask_eq_exp_minus_1)
  then show ?thesis by (simp only: VSOCKADDR_TYPE_def take_bit_eq_mask and.commute)
qed

lemma flags_type [simp]:
  "VSOCKADDR_TYPE (clear_reflex t) = VSOCKADDR_TYPE t" "VSOCKADDR_TYPE (clear_portmap t) = VSOCKADDR_TYPE t"
  "VSOCKADDR_TYPE (set_probe t) = VSOCKADDR_TYPE t" "VSOCKADDR_TYPE (set_reflex t) = VSOCKADDR_TYPE t"
  "VSOCKADDR_TYPE (set_portmap t) = VSOCKADDR_TYPE t"
  by (rule bit_word_eqI; auto simp: type_take_bit clear_reflex_def clear_portmap_def set_probe_def
    set_reflex_def set_portmap_def bit_simps)+

lemma flags_cleared [simp]: "\<not> need_reflex (clear_reflex t)" "\<not> need_portmap (clear_portmap t)"
  by (simp_all add: need_reflex_def clear_reflex_def need_portmap_def clear_portmap_def bit_simps)

lemma addr_ins_update:
  assumes "i < length xs" "key (va_type (xs ! i)) \<le> key (va_type v)" "key (va_type y) = key (va_type (xs ! i))"
  shows "(addr_ins key v xs)[i := y] = addr_ins key v (xs[i := y])" "addr_ins key v xs ! i = xs ! i"
  using assms
proof (induction xs rule: rev_induct)
  case (snoc x xs)
  { case 1
    show ?case
    proof (cases "i < length xs")
      case True
      then show ?thesis using snoc.IH(1) 1 by (auto simp: list_update_append nth_append)
    qed (use 1 in \<open>auto simp: list_update_append nth_append not_less le_eq_less_or_eq\<close>)
  next
    case 2
    then show ?case
      using snoc.IH(2) by (cases "i < length xs") (auto simp: nth_append not_less le_eq_less_or_eq)
  }
qed auto

text \<open>A change of the type of address \<open>i\<close>.\<close>

lemma node_wf_retype:
  fixes t :: u32
  assumes "node_wf n" "i < nat (ni_naddrs n)"
  defines "m \<equiv> n\<lparr>ni_addrs := (ni_addrs n)[i := (ni_addrs n ! i)\<lparr>va_type := t\<rparr>]\<rparr>"
  shows "node_wf m" "ni_list m = (ni_list n)[i := (ni_list n ! i)\<lparr>va_type := t\<rparr>]" "ni_same n m"
    "ni_naddrs m = ni_naddrs n"
proof -
  have b: "nat (ni_naddrs n) \<le> length (ni_addrs n)" using assms by (auto simp: node_wf_def)
  show l: "ni_list m = (ni_list n)[i := (ni_list n ! i)\<lparr>va_type := t\<rparr>]"
    using assms b by (simp add: ni_list_def take_update_swap)
  have "map (\<lambda>x. sa_key (va_addr x)) (ni_list m) = map (\<lambda>x. sa_key (va_addr x)) (ni_list n)"
    unfolding l using assms(2) length_ni_list [OF assms(1)]
    by (intro nth_equalityI) (auto simp: nth_list_update split: if_splits)
  then show "node_wf m"
    using assms(1) by (auto simp: node_wf_def addrs_distinct_def m_def)
qed (simp_all add: m_def ni_same_def)

lemma nodei_slot:
  assumes "node_wf n" "i < nat (ni_naddrs n)"
  shows "rd (ni_addrs n) i = Some (ni_list n ! i)" "ni_addrs n ! i = ni_list n ! i" "i < length (ni_list n)"
proof -
  have "nat (ni_naddrs n) \<le> length (ni_addrs n)" using assms(1) by (auto simp: node_wf_def)
  then show "rd (ni_addrs n) i = Some (ni_list n ! i)" "ni_addrs n ! i = ni_list n ! i"
    using assms(2) by (simp_all add: ni_list_def)
  show "i < length (ni_list n)" using assms length_ni_list by simp
qed

definition asks_for :: "sockaddr_in \<Rightarrow> vsockaddr_in \<Rightarrow> bool" where
  "asks_for laddr a \<longleftrightarrow> need_reflex (va_type a) \<and> sa_key laddr = sa_key (va_addr a)"

lemma reflex_loop_spec:
  assumes "node_wf n" "i + k = nat (ni_naddrs n)"
  shows "reflex_loop mem laddr eaddr k i n =
    (case find_idx (asks_for laddr) (drop i (ni_list n)) of
       None \<Rightarrow> Some n
     | Some j \<Rightarrow> do {
         (ret, n) \<leftarrow> vnodeInfo_add_addr mem n (va_addr eaddr) (va_type eaddr);
         a \<leftarrow> rd (ni_addrs n) (i + j);
         Some (n\<lparr>ni_addrs := (ni_addrs n)[i + j := a\<lparr>va_type := clear_reflex (va_type a)\<rparr>]\<rparr>)
       })"
  using assms(2)
proof (induction k arbitrary: i)
  case 0
  then show ?case using length_ni_list [OF assms(1)] by simp
next
  case (Suc k)
  have i: "i < nat (ni_naddrs n)" using Suc.prems by simp
  note s = nodei_slot [OF assms(1) i]
  have d: "drop i (ni_list n) = ni_list n ! i # drop (Suc i) (ni_list n)"
    using s(3) by (simp add: Cons_nth_drop_Suc)
  show ?case
    using Suc.IH [of "i + 1"] Suc.prems s(1) unfolding d
    by (auto simp: asks_for_def simp del: find_idx_None split: option.split)
qed

lemma reflex_addr_none:
  assumes "vnode_wf node" "\<forall>a \<in> set (ni_list (vn_nodei node)). \<not> asks_for laddr a"
  shows "vnode_reflex_addr mem node laddr eaddr = Some (0, aux_node_reflex_NAT node laddr (va_addr eaddr))"
proof -
  let ?n = "aux_node_reflex_NAT node laddr (va_addr eaddr)"
  have n: "vn_nodei ?n = vn_nodei node" by (simp add: aux_node_reflex_NAT_def Let_def)
  have "find_idx (asks_for laddr) (drop 0 (ni_list (vn_nodei node))) = None" using assms(2) by simp
  then have "reflex_loop mem laddr eaddr (nat (ni_naddrs (vn_nodei node))) 0 (vn_nodei node) = Some (vn_nodei node)"
    using reflex_loop_spec [OF vnode_wfD(1) [OF assms(1)], of 0 "nat (ni_naddrs (vn_nodei node))"]
    by (simp del: find_idx_None)
  moreover have "?n\<lparr>vn_nodei := vn_nodei node\<rparr> = ?n" using n by (cases ?n) simp
  ultimately show ?thesis by (simp add: vnode_reflex_addr_def Let_def n)
qed

text \<open>The public address learnt for a local one that still needs it is added, and the local one is
  marked as done. The index stays right because the new address is inserted behind it.\<close>

lemma reflex_addr_spec:
  assumes "vnode_wf node" "find_idx (asks_for laddr) (ni_list (vn_nodei node)) = Some i"
    "\<not> addr_in (ni_list (vn_nodei node)) (va_addr eaddr)" "ni_naddrs (vn_nodei node) < 12"
    "VSOCKADDR_TYPE (va_type (ni_list (vn_nodei node) ! i)) \<le> VSOCKADDR_TYPE (va_type eaddr)"
  defines "a \<equiv> ni_list (vn_nodei node) ! i"
  obtains node' where "vnode_reflex_addr True node laddr eaddr = Some (0, node')" "vnode_wf node'"
    "ni_list (vn_nodei node') = addr_ins VSOCKADDR_TYPE eaddr
       ((ni_list (vn_nodei node))[i := a\<lparr>va_type := clear_reflex (va_type a)\<rparr>])"
    "vn_services node' = vn_services node"
proof -
  let ?n0 = "vn_nodei node" and ?K = "VSOCKADDR_TYPE"
  note w = vnode_wfD [OF assms(1)]
  have i: "i < length (ni_list ?n0)" "asks_for laddr (ni_list ?n0 ! i)"
    using find_idx_Some [OF assms(2)] by auto
  obtain n1 where n1: "vnodeInfo_add_addr True ?n0 (va_addr eaddr) (va_type eaddr) = Some (1, n1)"
      "node_wf n1" "ni_same ?n0 n1" "ni_naddrs n1 = ni_naddrs ?n0 + 1" "ni_list n1 = addr_ins ?K eaddr (ni_list ?n0)"
    using vnodeInfo_add_addr_new [OF w(1) assms(4,3), of "va_type eaddr"] by auto
  have i1: "i < nat (ni_naddrs n1)" using i(1) n1(4) length_ni_list [OF w(1)] by simp
  have li: "ni_list n1 ! i = a"
    using addr_ins_update(2) [of i "ni_list ?n0" ?K eaddr a] i(1) assms(5) n1(5) by (simp add: a_def)
  let ?t = "clear_reflex (va_type a)"
  let ?m = "n1\<lparr>ni_addrs := (ni_addrs n1)[i := (ni_addrs n1 ! i)\<lparr>va_type := ?t\<rparr>]\<rparr>"
  note m = node_wf_retype [OF n1(2) i1, of ?t]
  have lm: "ni_list ?m = addr_ins ?K eaddr ((ni_list ?n0)[i := a\<lparr>va_type := ?t\<rparr>])"
    using m(2) li addr_ins_update(1) [of i "ni_list ?n0" ?K eaddr "a\<lparr>va_type := ?t\<rparr>"] i(1) assms(5) n1(5)
    by (simp add: a_def)
  have slot: "rd (ni_addrs n1) i = Some a" "ni_addrs n1 ! i = a"
    using nodei_slot [OF n1(2) i1] li by simp_all
  have "reflex_loop True laddr eaddr (nat (ni_naddrs ?n0)) 0 ?n0 = Some ?m"
    using reflex_loop_spec [OF w(1), of 0 "nat (ni_naddrs ?n0)" True laddr eaddr] assms(2) n1(1) slot by simp
  moreover have nn: "vn_nodei (aux_node_reflex_NAT node laddr (va_addr eaddr)) = ?n0"
    by (simp add: aux_node_reflex_NAT_def Let_def)
  ultimately have e: "vnode_reflex_addr True node laddr eaddr =
      Some (0, (aux_node_reflex_NAT node laddr (va_addr eaddr))\<lparr>vn_nodei := ?m\<rparr>)" (is "_ = Some (0, ?node')")
    by (simp add: vnode_reflex_addr_def Let_def)
  have f: "vn_services ?node' = vn_services node" "vn_nice ?node' = vn_nice node"
    by (simp_all add: aux_node_reflex_NAT_def Let_def)
  have sm: "ni_same ?n0 ?m" using n1(3) m(3) by (simp add: ni_same_def)
  have "services_of ?node' = services_of node" "own_service ?node' = own_service node"
    using f sm by (auto simp: services_of_def own_service_def ni_same_def)
  then have "vnode_wf ?node'"
    using assms(1) m(1) sm f unfolding vnode_wf_def by (auto simp: ni_same_def)
  then show thesis using that [of ?node'] e lm f by simp
qed

lemma add_addr_own:
  assumes "node_wf n" "\<not> ni_heap n"
  obtains r n' where "vnodeInfo_add_addr mem n a t = Some (r, n')" "node_wf n'" "ni_same n n'"
proof (cases "ni_naddrs n < 12")
  case False
  then show ?thesis using that [of "-1" n] vnodeInfo_add_addr_full [of n] assms by (simp add: ni_same_def)
next
  case True
  then have lt: "ni_naddrs n < ni_capc n" using assms by (simp add: node_wf_def)
  show ?thesis
  proof (cases "addr_in (ni_list n) a")
    case True
    then show ?thesis using vnodeInfo_add_addr_known [OF assms(1) lt True, of mem t] that by blast
  next
    case False
    then show ?thesis using vnodeInfo_add_addr_new_room [OF assms(1) lt False, of mem t] that by blast
  qed
qed

lemma ni_same_trans: "ni_same a b \<Longrightarrow> ni_same b c \<Longrightarrow> ni_same a c"
  by (simp add: ni_same_def)

lemma ni_same_heap: "ni_same a b \<Longrightarrow> ni_heap b = ni_heap a"
  by (simp add: ni_same_def)

lemma uaddrs_loop_total:
  assumes "node_wf n" "\<not> ni_heap n" "i + k = 12"
  shows "\<exists>n'. uaddrs_loop k mem upnpc i n = Some n' \<and> node_wf n' \<and> ni_same n n'"
  using assms
proof (induction k arbitrary: i n)
  case 0
  then show ?case using node_wf_le [OF 0(1)] by (simp add: ni_same_def)
next
  case (Suc k)
  show ?case
  proof (cases "int i < ni_naddrs n")
    case False
    then show ?thesis using Suc.prems by (simp add: ni_same_def)
  next
    case True
    then have i: "i < nat (ni_naddrs n)" by simp
    let ?a = "ni_list n ! i"
    note s = nodei_slot [OF Suc.prems(1) i]
    have ik: "i + 1 + k = 12" using Suc.prems(3) by simp
    show ?thesis
    proof (cases "need_portmap (va_type ?a)")
      case False
      then show ?thesis using Suc.IH [OF Suc.prems(1,2) ik] True s by simp
    next
      case np: True
      let ?m = "n\<lparr>ni_addrs := (ni_addrs n)[i := ?a\<lparr>va_type := clear_portmap (va_type ?a)\<rparr>]\<rparr>"
      have m: "node_wf ?m" "ni_same n ?m"
        using node_wf_retype [OF Suc.prems(1) i, of "clear_portmap (va_type ?a)"] s(2) by simp_all
      then have mh: "\<not> ni_heap ?m" using Suc.prems(2) by simp
      show ?thesis
      proof (cases "upnpc (va_addr ?a)")
        case None
        then show ?thesis using Suc.IH [OF m(1) mh ik] True s np m(2) ni_same_trans by (auto simp: Let_def)
      next
        case (Some u)
        let ?t = "if vsockaddr_is_private u then VSOCKADDR_UPNP else VSOCKADDR_REFLEXIVE"
        obtain r n1 where n1: "vnodeInfo_add_addr mem ?m u ?t = Some (r, n1)" "node_wf n1" "ni_same ?m n1"
          using add_addr_own [OF m(1) mh] by blast
        then have "\<not> ni_heap n1" using ni_same_heap mh by blast
        then obtain n' where n': "uaddrs_loop k mem upnpc (i + 1) n1 = Some n'" "node_wf n'" "ni_same n1 n'"
          using Suc.IH [OF n1(2) _ ik] by blast
        have "ni_same n n'" using m(2) n1(3) n'(3) ni_same_trans by blast
        then show ?thesis using n' n1 True s np Some by (auto simp: Let_def)
      qed
    qed
  qed
qed

lemma vnode_wf_nodei:
  assumes "vnode_wf node" "node_wf n" "ni_same (vn_nodei node) n"
  shows "vnode_wf (node\<lparr>vn_nodei := n\<rparr>)"
proof -
  have "services_of (node\<lparr>vn_nodei := n\<rparr>) = services_of node" by (simp add: services_of_def)
  moreover have "own_service (node\<lparr>vn_nodei := n\<rparr>) = own_service node"
    using assms(3) by (auto simp: own_service_def ni_same_def)
  ultimately show ?thesis using assms unfolding vnode_wf_def by (auto simp: ni_same_def)
qed

lemma get_uaddrs_total:
  assumes "vnode_wf node"
  obtains node' where "aux_node_get_uaddrs mem upnpc_map node = Some node'" "vnode_wf node'"
    "vn_services node' = vn_services node"
proof (cases upnpc_map)
  case None
  then show ?thesis using that [of node] assms by (simp add: aux_node_get_uaddrs_def)
next
  case (Some upnpc)
  obtain n where n: "uaddrs_loop 12 mem upnpc 0 (vn_nodei node) = Some n" "node_wf n" "ni_same (vn_nodei node) n"
    using uaddrs_loop_total [OF vnode_wfD(1,7) [OF assms], of 0 12] by auto
  then show ?thesis
    using that [of "node\<lparr>vn_nodei := n\<rparr>"] Some vnode_wf_nodei [OF assms n(2,3)]
    by (simp add: aux_node_get_uaddrs_def)
qed

subsection \<open>Initialisation\<close>

definition own_addr :: "sockaddr_in \<Rightarrow> vsockaddr_in" where
  "own_addr a = \<lparr>va_addr = a, va_type = own_addr_type a\<rparr>"

lemma add_host_addrs_add_all:
  "nih.add_all (map own_addr as) n = Some (0, n') \<Longrightarrow> add_host_addrs True as n = Some n'"
  by (induction as arbitrary: n)
    (auto simp: aux_node_add_addr_cb_def own_addr_def split: Option.bind_splits if_splits)

text \<open>The addresses our node starts with: the configured one, or up to three of the host.\<close>

definition start_addrs :: "sockaddr_in \<Rightarrow> (u16 \<Rightarrow> sockaddr_in list) \<Rightarrow> sockaddr_in list" where
  "start_addrs addr hostaddrs =
     (if sin_addr addr \<noteq> 0 then [addr] else take 3 (hostaddrs (htons (sin_port addr))))"

lemma vnode_init_spec:
  assumes "vnodeVer_unstrlize version ver0 = Some (vret, ver)" "0 \<le> fst cfg" "tok_wf myid"
    "start_addrs (snd cfg) hostaddrs \<noteq> []" "distinct (map sa_key (start_addrs (snd cfg) hostaddrs))"
  obtains node where "vnode_init True myid version ver0 cfg hostaddrs wb_tmo = Some (Some node)"
    "vnode_wf node" "vn_mode node = VDHT_OFF" "services_of node = []" "ni_id (vn_nodei node) = myid"
    "ni_list (vn_nodei node) =
      fold (addr_ins VSOCKADDR_TYPE) (map own_addr (start_addrs (snd cfg) hostaddrs)) []"
proof -
  let ?as = "start_addrs (snd cfg) hostaddrs"
  obtain n0 n1 where n0: "vnodeInfo_relax_alloc True = Some n0"
      "vnodeInfo_relax_init n0 myid ver 0 = Some n1"
    and n1: "node_wf n1" "\<not> ni_heap n1" "ni_list n1 = []" "ni_weight n1 = 0" "ni_id n1 = myid"
    using assms(3) by (auto simp: vnodeInfo_relax_alloc_def vnodeInfo_relax_init_def node_wf_def ni_list_def
        addrs_distinct_def VNODEINFO_MAX_ADDRS_def)
  have "length ?as \<le> 3" by (auto simp: start_addrs_def)
  then obtain n where n: "nih.add_all (map own_addr ?as) n1 = Some (0, n)" "node_wf n" "ni_same n1 n"
      "ni_list n = fold (addr_ins VSOCKADDR_TYPE) (map own_addr ?as) []"
    using nih.add_all_spec [OF n1(1), of "map own_addr ?as"] n1(3) assms(5)
    by (auto simp: own_addr_def comp_def)
  note h = add_host_addrs_add_all [OF n(1)]
  have g: "aux_node_get_nodeinfo True n0 myid version ver0 cfg hostaddrs = Some (0, n)"
  proof (cases "sin_addr (snd cfg) = 0")
    case False
    then show ?thesis
      using h assms(1,2) n0(2) by (auto simp: aux_node_get_nodeinfo_def start_addrs_def split: Option.bind_splits)
  next
    case True
    obtain a as where as: "hostaddrs (htons (sin_port (snd cfg))) = a # as"
      using assms(4) True by (cases "hostaddrs (htons (sin_port (snd cfg)))") (auto simp: start_addrs_def)
    then have "?as = a # take 2 as" using True by (simp add: start_addrs_def eval_nat_numeral)
    then show ?thesis
      using h assms(1,2) n0(2) True as
      by (auto simp: aux_node_get_nodeinfo_def split: Option.bind_splits)
  qed
  have s: "ni_id n = myid" "ni_weight n = 0" "\<not> ni_heap n" using n(3) n1 by (auto simp: ni_same_def)
  let ?node = "\<lparr>vn_is_symm_nat = False, vn_tick_tmo = 30, vn_tick_ts = 0, vn_wb_tmo = wb_tmo,
             vn_wb_ts = 0, vn_mode = VDHT_OFF, vn_nice = 5, vn_services = varray_init 4, vn_nodei = n,
             vn_nat = \<lparr>np_dirty_mark = False, np_laddr = sockaddr_zero, np_eaddr = sockaddr_zero\<rparr>,
             vn_reflex_ts = 0, vn_nreflexs = 0\<rparr>"
  have "services_of ?node = []" by (simp add: services_of_def)
  moreover have "vnode_wf ?node" using n(2) s by (simp add: vnode_wf_def services_of_def)
  moreover have "vnode_init True myid version ver0 cfg hostaddrs wb_tmo = Some (Some ?node)"
    using n0(1) g by (simp add: vnode_init_def)
  ultimately show thesis using that [of ?node] s n(4) by simp
qed

end
