(* ===== verification/Route.thy ===== *)
theory Route
  imports TcktSpace SrvcSpace Msger VNode
begin

section \<open>The route (vroute.c)\<close>

text \<open>
  The route ties the three spaces to the network: \<open>dht_ops\<close> build messages and put them into the
  messenger's queue, \<open>cb_ops\<close> handle the messages that arrive. The state has the spaces, the
  messenger's sending half, our node, the state \<open>'u\<close> of the clients that wait for services, and the
  static variables behind \<open>vnonce_make\<close> and \<open>vtoken_make\<close>. What a call reads from outside is in an
  environment: whether memory can be allocated, what \<open>time(NULL)\<close> returns first and later, what
  \<open>rand()\<close> gives after seeding, and what is in the unset local variables the decoders fill. The
  inspection callback is installed by tests only and is not modelled.
\<close>

subsection \<open>State\<close>

definition MAX_CAPC :: nat where "MAX_CAPC = 8"

record renv =
  re_mem :: bool
  re_now :: int
  re_later :: int
  re_rnd :: "u32 \<Rightarrow> nat \<Rightarrow> u32"
  re_pick :: "nat \<Rightarrow> nat"
  re_self :: u32
  re_pid :: u32
  re_mac :: bytes
  re_nonce0 :: vnonce
  re_fromId0 :: vtoken
  re_targetId0 :: vtoken
  re_addr0 :: vsockaddr_in

record 'u vroute =
  rt_myid :: vtoken
  rt_props :: u32
  rt_node_space :: node_space
  rt_srvc_space :: srvc_space
  rt_tckt_space :: "'u tckt_space"
  rt_msger :: vmsg_outq
  rt_node :: vnode
  rt_client :: 'u
  rt_nonce_magic :: u32
  rt_token_magic :: u32
  rt_mac_hash :: u32

text \<open>\<open>PROP_x\<close> is bit \<open>VDHT_x\<close> of \<open>props\<close>.\<close>

definition has_prop :: "'u vroute \<Rightarrow> int \<Rightarrow> bool" where
  "has_prop route dhtId \<longleftrightarrow> bit (rt_props route) (nat dhtId)"

definition fresh_nonce :: "renv \<Rightarrow> 'u vroute \<Rightarrow> vnonce \<times> 'u vroute" where
  "fresh_nonce env route =
     (let (nonce, magic) = vnonce_make (re_rnd env) (word_of_int (re_now env)) (rt_nonce_magic route)
      in (nonce, route\<lparr>rt_nonce_magic := magic\<rparr>))"

definition fresh_token :: "renv \<Rightarrow> 'u vroute \<Rightarrow> vtoken \<times> 'u vroute" where
  "fresh_token env route =
     (let (token, magic, hash) = vtoken_make (re_rnd env) (word_of_int (re_now env)) (re_self env)
            (re_pid env) (re_mac env) (rt_mac_hash route) (rt_token_magic route)
      in (token, route\<lparr>rt_token_magic := magic, rt_mac_hash := hash\<rparr>))"

text \<open>The zeroed structures of \<open>DECL_VNODE_RELAX\<close> and \<open>DECL_VSRVC_RELAX\<close>.\<close>

definition decl_vnode_relax :: vnodeInfo where
  "decl_vnode_relax = \<lparr>ni_id = replicate 20 0, ni_ver = replicate 20 0, ni_weight = 0, ni_naddrs = 0,
     ni_capc = VNODEINFO_MAX_ADDRS, ni_addrs = replicate 12 vsockaddr_zero, ni_heap = False\<rparr>"

definition decl_vsrvc_relax :: vsrvcInfo where
  "decl_vsrvc_relax = \<lparr>si_hash = replicate 20 0, si_hostid = replicate 20 0, si_nice = 0, si_proto = 0,
     si_naddrs = 0, si_capc = VSRVCINFO_MAX_ADDRS, si_addrs = replicate 12 vsockaddr_zero, si_heap = False\<rparr>"

subsection \<open>Sending\<close>

text \<open>\<open>END_QUERY\<close>: \<open>enc\<close> is what the encoder returned, \<open>None\<close> for its \<open>-1\<close>.\<close>

definition end_query :: "renv \<Rightarrow> vnodeConn \<Rightarrow> bytes option \<Rightarrow> 'u vroute \<Rightarrow> (int \<times> 'u vroute) option" where
  "end_query env conn enc route =
     (case enc of
        None \<Rightarrow> Some (-1, route)
      | Some buf \<Rightarrow> do {
          (ret, msger) \<leftarrow> vmsger_push (re_mem env) (rt_msger route)
            \<lparr>mu_msgId = VMSG_DHT, mu_addr = vc_raddr conn, mu_spec = vc_laddr conn,
             mu_len = int (length buf), mu_data = buf\<rparr>;
          Some (if ret < 0 then -1 else 0, route\<lparr>rt_msger := msger\<rparr>)
        })"

definition add_ticket :: "renv \<Rightarrow> 'u ticket_info \<Rightarrow> 'u vroute \<Rightarrow> 'u vroute option" where
  "add_ticket env argv route = do {
     (ret, ts) \<leftarrow> vroute_tckt_space_add_ticket (re_mem env) (re_now env) (rt_tckt_space route) argv;
     Some (route\<lparr>rt_tckt_space := ts\<rparr>)
   }"

text \<open>\<open>BEGIN_QUERY\<close> to \<open>END_QUERY\<close> of a query, with a fresh nonce; \<open>after\<close> is what follows when the
  message is in the queue.\<close>

definition query ::
  "renv \<Rightarrow> vnodeConn \<Rightarrow> (vnonce \<Rightarrow> bytes option option) \<Rightarrow> (vnonce \<Rightarrow> 'u vroute \<Rightarrow> 'u vroute option) \<Rightarrow>
     'u vroute \<Rightarrow> (int \<times> 'u vroute) option" where
  "query env conn enc after route =
     (if \<not> re_mem env then Some (-1, route)
      else do {
        let (nonce, route) = fresh_nonce env route;
        e \<leftarrow> enc nonce;
        (ret, route) \<leftarrow> end_query env conn e route;
        if ret < 0 then Some (-1, route)
        else do { route \<leftarrow> after nonce route; Some (0, route) }
      })"

text \<open>The same for a response.\<close>

definition reply ::
  "renv \<Rightarrow> vnodeConn \<Rightarrow> bytes option option \<Rightarrow> 'u vroute \<Rightarrow> (int \<times> 'u vroute) option" where
  "reply env conn enc route =
     (if \<not> re_mem env then Some (-1, route)
      else do { e \<leftarrow> enc; end_query env conn e route })"

definition vroute_dht_ping :: "renv \<Rightarrow> vnodeConn \<Rightarrow> 'u vroute \<Rightarrow> (int \<times> 'u vroute) option" where
  "vroute_dht_ping env conn route =
     (if \<not> has_prop route VDHT_PING then Some (0, route)
      else query env conn (\<lambda>nonce. vdht_enc_ping nonce (rt_myid route) vdht_buf_len)
             (\<lambda>nonce. add_ticket env (NonceCheck nonce)) route)"

definition vroute_dht_ping_rsp ::
  "renv \<Rightarrow> vnodeConn \<Rightarrow> vnonce \<Rightarrow> vnodeInfo \<Rightarrow> 'u vroute \<Rightarrow> (int \<times> 'u vroute) option" where
  "vroute_dht_ping_rsp env conn nonce nodei route =
     (if \<not> has_prop route VDHT_PING_R then Some (0, route)
      else reply env conn (vdht_enc_ping_rsp nonce (rt_myid route) nodei vdht_buf_len) route)"

definition vroute_dht_find_node ::
  "renv \<Rightarrow> vnodeConn \<Rightarrow> vtoken \<Rightarrow> 'u vroute \<Rightarrow> (int \<times> 'u vroute) option" where
  "vroute_dht_find_node env conn targetId route =
     (if \<not> has_prop route VDHT_FIND_NODE then Some (0, route)
      else query env conn (\<lambda>nonce. vdht_enc_find_node nonce (rt_myid route) targetId vdht_buf_len)
             (\<lambda>nonce. add_ticket env (NonceCheck nonce)) route)"

definition vroute_dht_find_node_rsp ::
  "renv \<Rightarrow> vnodeConn \<Rightarrow> vnonce \<Rightarrow> vnodeInfo \<Rightarrow> 'u vroute \<Rightarrow> (int \<times> 'u vroute) option" where
  "vroute_dht_find_node_rsp env conn nonce nodei route =
     (if \<not> has_prop route VDHT_FIND_NODE_R then Some (0, route)
      else reply env conn (vdht_enc_find_node_rsp nonce (rt_myid route) nodei vdht_buf_len) route)"

definition vroute_dht_find_closest_nodes ::
  "renv \<Rightarrow> vnodeConn \<Rightarrow> vtoken \<Rightarrow> 'u vroute \<Rightarrow> (int \<times> 'u vroute) option" where
  "vroute_dht_find_closest_nodes env conn targetId route =
     (if \<not> has_prop route VDHT_FIND_CLOSEST_NODES then Some (0, route)
      else query env conn (\<lambda>nonce. vdht_enc_find_closest_nodes nonce (rt_myid route) targetId vdht_buf_len)
             (\<lambda>nonce. add_ticket env (NonceCheck nonce)) route)"

definition vroute_dht_find_closest_nodes_rsp ::
  "renv \<Rightarrow> vnodeConn \<Rightarrow> vnonce \<Rightarrow> vnodeInfo varray \<Rightarrow> 'u vroute \<Rightarrow> (int \<times> 'u vroute) option" where
  "vroute_dht_find_closest_nodes_rsp env conn nonce closest route =
     (if \<not> has_prop route VDHT_FIND_CLOSEST_NODES_R then Some (0, route)
      else reply env conn (vdht_enc_find_closest_nodes_rsp nonce (rt_myid route) closest vdht_buf_len) route)"

definition vroute_dht_reflex :: "renv \<Rightarrow> vnodeConn \<Rightarrow> 'u vroute \<Rightarrow> (int \<times> 'u vroute) option" where
  "vroute_dht_reflex env conn route =
     query env conn (\<lambda>nonce. vdht_enc_reflex nonce (rt_myid route) vdht_buf_len)
       (\<lambda>nonce. add_ticket env (NonceCheck nonce)) route"

definition vroute_dht_reflex_rsp ::
  "renv \<Rightarrow> vnodeConn \<Rightarrow> vnonce \<Rightarrow> vsockaddr_in \<Rightarrow> 'u vroute \<Rightarrow> (int \<times> 'u vroute) option" where
  "vroute_dht_reflex_rsp env conn nonce reflexive_addr route =
     reply env conn (vdht_enc_reflex_rsp nonce (rt_myid route) reflexive_addr vdht_buf_len) route"

definition vroute_dht_probe :: "renv \<Rightarrow> vnodeConn \<Rightarrow> vtoken \<Rightarrow> 'u vroute \<Rightarrow> (int \<times> 'u vroute) option" where
  "vroute_dht_probe env conn targetId route =
     query env conn (\<lambda>nonce. vdht_enc_probe nonce (rt_myid route) targetId vdht_buf_len)
       (\<lambda>nonce route. do {
          route \<leftarrow> add_ticket env (NonceCheck nonce) route;
          add_ticket env (ConnProbe nonce targetId conn) route
        }) route"

definition vroute_dht_probe_rsp :: "renv \<Rightarrow> vnodeConn \<Rightarrow> vnonce \<Rightarrow> 'u vroute \<Rightarrow> (int \<times> 'u vroute) option" where
  "vroute_dht_probe_rsp env conn nonce route =
     reply env conn (vdht_enc_probe_rsp nonce (rt_myid route) vdht_buf_len) route"

definition vroute_dht_post_service ::
  "renv \<Rightarrow> vnodeConn \<Rightarrow> vsrvcInfo \<Rightarrow> 'u vroute \<Rightarrow> (int \<times> 'u vroute) option" where
  "vroute_dht_post_service env conn srvci route =
     (if \<not> has_prop route VDHT_POST_SERVICE then Some (0, route)
      else query env conn (\<lambda>nonce. vdht_enc_post_service nonce (rt_myid route) srvci vdht_buf_len)
             (\<lambda>nonce. Some) route)"

definition vroute_dht_find_service ::
  "renv \<Rightarrow> vnodeConn \<Rightarrow> vsrvcHash \<Rightarrow> 'u vroute \<Rightarrow> (int \<times> 'u vroute) option" where
  "vroute_dht_find_service env conn hash route =
     (if \<not> has_prop route VDHT_FIND_SERVICE then Some (0, route)
      else query env conn (\<lambda>nonce. vdht_enc_find_service nonce (rt_myid route) hash vdht_buf_len)
             (\<lambda>nonce. add_ticket env (NonceCheck nonce)) route)"

definition vroute_dht_find_service_rsp ::
  "renv \<Rightarrow> vnodeConn \<Rightarrow> vnonce \<Rightarrow> vsrvcInfo \<Rightarrow> 'u vroute \<Rightarrow> (int \<times> 'u vroute) option" where
  "vroute_dht_find_service_rsp env conn nonce srvci route =
     (if \<not> has_prop route VDHT_FIND_SERVICE_R then Some (0, route)
      else reply env conn (vdht_enc_find_service_rsp nonce (rt_myid route) srvci vdht_buf_len) route)"

text \<open>The operations the node space calls, as it calls them.\<close>

fun route_dht :: "renv \<Rightarrow> dht_call \<Rightarrow> 'u vroute \<Rightarrow> (int \<times> 'u vroute) option" where
  "route_dht env (DhtPing conn) = vroute_dht_ping env conn"
| "route_dht env (DhtFindNode conn targetId) = vroute_dht_find_node env conn targetId"
| "route_dht env (DhtFindClosestNodes conn targetId) = vroute_dht_find_closest_nodes env conn targetId"
| "route_dht env (DhtReflex conn) = vroute_dht_reflex env conn"
| "route_dht env (DhtProbe conn targetId) = vroute_dht_probe env conn targetId"
| "route_dht env (DhtPostService conn srvci) = vroute_dht_post_service env conn srvci"
| "route_dht env (DhtFindService conn hash) = vroute_dht_find_service env conn hash"

subsection \<open>Handling what arrives\<close>

definition kick :: "renv \<Rightarrow> vtoken \<Rightarrow> 'u vroute \<Rightarrow> (int \<times> 'u vroute) option" where
  "kick env fromId route = do {
     (ret, space) \<leftarrow> vroute_node_space_kick_node (re_now env) (rt_node_space route) fromId;
     Some (ret, route\<lparr>rt_node_space := space\<rparr>)
   }"

definition add_node :: "renv \<Rightarrow> vnodeInfo \<Rightarrow> int \<Rightarrow> 'u vroute \<Rightarrow> (int \<times> 'u vroute) option" where
  "add_node env nodei flag route = do {
     (ret, space, nodei) \<leftarrow> vroute_node_space_add_node (re_mem env) (re_now env) (rt_node_space route) nodei flag;
     Some (ret, route\<lparr>rt_node_space := space\<rparr>)
   }"

definition check_ticket :: "renv \<Rightarrow> ticket_query \<Rightarrow> 'u vroute \<Rightarrow> (bool \<times> 'u vroute) option" where
  "check_ticket env argv route = do {
     (found, ts, space, u) \<leftarrow> vroute_tckt_space_check_ticket (re_mem env) (rt_tckt_space route) argv
        (rt_node_space route) (rt_client route);
     Some (found, route\<lparr>rt_tckt_space := ts, rt_node_space := space, rt_client := u\<rparr>)
   }"

text \<open>A made-up node info for an address whose owner we do not know.\<close>

definition fake_node :: "renv \<Rightarrow> sockaddr_in \<Rightarrow> 'u vroute \<Rightarrow> (vnodeInfo \<times> 'u vroute) option" where
  "fake_node env addr route = do {
     let (nid, route) = fresh_token env route;
     nodei \<leftarrow> vnodeInfo_relax_init decl_vnode_relax nid vnodeVer_unknown 0;
     (ret, nodei) \<leftarrow> vnodeInfo_add_addr (re_mem env) nodei addr VSOCKADDR_UNKNOWN;
     Some (nodei, route)
   }"

definition vroute_cb_ping :: "renv \<Rightarrow> vnodeConn \<Rightarrow> be_node \<Rightarrow> 'u vroute \<Rightarrow> (int \<times> 'u vroute) option" where
  "vroute_cb_ping env conn ctxt route = do {
     (nonce, fromId) \<leftarrow> vdht_dec_ping ctxt (re_nonce0 env) (re_fromId0 env);
     (ret, route) \<leftarrow> kick env fromId route;
     (ret, route) \<leftarrow> (if ret = 0 then do {
         (nodei, route) \<leftarrow> fake_node env (vc_raddr conn) route;
         add_node env nodei VADD_BY_OTHER route
       }
       else Some (ret, route));
     if ret < 0 then Some (-1, route)
     else do {
       (ret, route) \<leftarrow> vroute_dht_ping_rsp env conn nonce (vn_nodei (rt_node route)) route;
       Some (if ret < 0 then -1 else 0, route)
     }
   }"

definition vroute_cb_ping_rsp :: "renv \<Rightarrow> vnodeConn \<Rightarrow> be_node \<Rightarrow> 'u vroute \<Rightarrow> (int \<times> 'u vroute) option" where
  "vroute_cb_ping_rsp env conn ctxt route = do {
     (nonce, nodei) \<leftarrow> vdht_dec_ping_rsp ctxt (re_nonce0 env) decl_vnode_relax;
     (ok, route) \<leftarrow> check_ticket env (QueryNonce nonce) route;
     if \<not> ok then Some (-1, route)
     else do {
       (ret, route) \<leftarrow> add_node env nodei VADD_BY_PING_RSP route;
       Some (if ret < 0 then -1 else 0, route)
     }
   }"

definition vroute_cb_find_node :: "renv \<Rightarrow> vnodeConn \<Rightarrow> be_node \<Rightarrow> 'u vroute \<Rightarrow> (int \<times> 'u vroute) option" where
  "vroute_cb_find_node env conn ctxt route = do {
     (nonce, fromId, targetId) \<leftarrow> vdht_dec_find_node ctxt (re_nonce0 env) (re_fromId0 env) (re_targetId0 env);
     (ret, route) \<leftarrow> kick env fromId route;
     (ret, nodei) \<leftarrow> vroute_node_space_find_node (re_mem env) (rt_node_space route) targetId decl_vnode_relax;
     if ret < 0 then Some (-1, route)
     else if ret = 0 then Some (0, route)
     else do {
       (ret, route) \<leftarrow> vroute_dht_find_node_rsp env conn nonce nodei route;
       Some (if ret < 0 then -1 else 0, route)
     }
   }"

definition vroute_cb_find_node_rsp :: "renv \<Rightarrow> vnodeConn \<Rightarrow> be_node \<Rightarrow> 'u vroute \<Rightarrow> (int \<times> 'u vroute) option" where
  "vroute_cb_find_node_rsp env conn ctxt route = do {
     (nonce, fromId, nodei) \<leftarrow> vdht_dec_find_node_rsp ctxt (re_nonce0 env) (re_fromId0 env) decl_vnode_relax;
     (ok, route) \<leftarrow> check_ticket env (QueryNonce nonce) route;
     if \<not> ok then Some (-1, route)
     else do {
       (ret, route) \<leftarrow> kick env fromId route;
       (ret, route) \<leftarrow> add_node env nodei VADD_BY_OTHER route;
       Some (if ret < 0 then -1 else 0, route)
     }
   }"

definition vroute_cb_find_closest_nodes ::
  "renv \<Rightarrow> vnodeConn \<Rightarrow> be_node \<Rightarrow> 'u vroute \<Rightarrow> (int \<times> 'u vroute) option" where
  "vroute_cb_find_closest_nodes env conn ctxt route = do {
     (nonce, fromId, targetId) \<leftarrow>
       vdht_dec_find_closest_nodes ctxt (re_nonce0 env) (re_fromId0 env) (re_targetId0 env);
     (ret, route) \<leftarrow> kick env fromId route;
     (ret, closest) \<leftarrow> vroute_node_space_find_closest_nodes (re_mem env) (rt_node_space route) targetId
        (varray_init MAX_CAPC) (int MAX_CAPC);
     if ret < 0 then Some (-1, route)
     else if ret = 0 then Some (0, route)
     else do {
       (ret, route) \<leftarrow> vroute_dht_find_closest_nodes_rsp env conn nonce closest route;
       Some (if ret < 0 then -1 else 0, route)
     }
   }"

text \<open>The loop over the nodes of a response, with \<open>n\<close> to go; results are not looked at.\<close>

fun add_closest :: "renv \<Rightarrow> nat \<Rightarrow> nat \<Rightarrow> vnodeInfo varray \<Rightarrow> 'u vroute \<Rightarrow> 'u vroute option" where
  "add_closest env 0 i closest route = Some route"
| "add_closest env (Suc n) i closest route = do {
     item \<leftarrow> varray_get closest (int i);
     nodei \<leftarrow> item;
     (ret, route) \<leftarrow> add_node env nodei VADD_BY_OTHER route;
     add_closest env n (i + 1) closest route
   }"

definition vroute_cb_find_closest_nodes_rsp ::
  "renv \<Rightarrow> vnodeConn \<Rightarrow> be_node \<Rightarrow> 'u vroute \<Rightarrow> (int \<times> 'u vroute) option" where
  "vroute_cb_find_closest_nodes_rsp env conn ctxt route = do {
     (nonce, fromId, closest) \<leftarrow> vdht_dec_find_closest_nodes_rsp (\<lambda>_. re_mem env) (re_mem env) ctxt
        (re_nonce0 env) (re_fromId0 env) (varray_init MAX_CAPC);
     (ok, route) \<leftarrow> check_ticket env (QueryNonce nonce) route;
     if \<not> ok then Some (-1, route)
     else do {
       (ret, route) \<leftarrow> kick env fromId route;
       route \<leftarrow> add_closest env (varray_size closest) 0 closest route;
       Some (0, route)
     }
   }"

definition vroute_cb_reflex :: "renv \<Rightarrow> vnodeConn \<Rightarrow> be_node \<Rightarrow> 'u vroute \<Rightarrow> (int \<times> 'u vroute) option" where
  "vroute_cb_reflex env conn ctxt route = do {
     (nonce, fromId) \<leftarrow> vdht_dec_reflex ctxt (re_nonce0 env) (re_fromId0 env);
     (ret, route) \<leftarrow> kick env fromId route;
     (ret, route) \<leftarrow> vroute_dht_reflex_rsp env conn nonce
        \<lparr>va_addr = vsockaddr_copy (vc_raddr conn),
         va_type = (if vsockaddr_is_private (vc_raddr conn) then VSOCKADDR_UPNP else VSOCKADDR_REFLEXIVE)\<rparr> route;
     Some (if ret < 0 then -1 else 0, route)
   }"

definition vroute_cb_reflex_rsp :: "renv \<Rightarrow> vnodeConn \<Rightarrow> be_node \<Rightarrow> 'u vroute \<Rightarrow> (int \<times> 'u vroute) option" where
  "vroute_cb_reflex_rsp env conn ctxt route = do {
     (nonce, fromId, reflexive_addr) \<leftarrow> vdht_dec_reflex_rsp ctxt (re_nonce0 env) (re_fromId0 env) (re_addr0 env);
     (ok, route) \<leftarrow> check_ticket env (QueryNonce nonce) route;
     if \<not> ok then Some (-1, route)
     else do {
       (ret, route) \<leftarrow> kick env fromId route;
       (ret, node) \<leftarrow> vnode_reflex_addr (re_mem env) (rt_node route) (vc_laddr conn) reflexive_addr;
       Some (if ret < 0 then -1 else 0, route\<lparr>rt_node := node\<rparr>)
     }
   }"

definition vroute_cb_probe :: "renv \<Rightarrow> vnodeConn \<Rightarrow> be_node \<Rightarrow> 'u vroute \<Rightarrow> (int \<times> 'u vroute) option" where
  "vroute_cb_probe env conn ctxt route = do {
     (nonce, fromId, targetId) \<leftarrow> vdht_dec_probe ctxt (re_nonce0 env) (re_fromId0 env) (re_targetId0 env);
     if \<not> vtoken_equal targetId (rt_myid route) then Some (-1, route)
     else do {
       (ret, route) \<leftarrow> kick env fromId route;
       (ret, route) \<leftarrow> vroute_dht_probe_rsp env conn nonce route;
       Some (if ret < 0 then -1 else 0, route)
     }
   }"

definition vroute_cb_probe_rsp :: "renv \<Rightarrow> vnodeConn \<Rightarrow> be_node \<Rightarrow> 'u vroute \<Rightarrow> (int \<times> 'u vroute) option" where
  "vroute_cb_probe_rsp env conn ctxt route = do {
     (nonce, fromId) \<leftarrow> vdht_dec_probe_rsp ctxt (re_nonce0 env) (re_fromId0 env);
     (ok, route) \<leftarrow> check_ticket env (QueryNonce nonce) route;
     if \<not> ok then Some (-1, route)
     else do {
       (ret, route) \<leftarrow> kick env fromId route;
       (ok, route) \<leftarrow> check_ticket env (QueryConn nonce) route;
       Some (0, route)
     }
   }"

definition add_service :: "renv \<Rightarrow> vsrvcInfo \<Rightarrow> 'u vroute \<Rightarrow> (int \<times> 'u vroute) option" where
  "add_service env srvci route = do {
     (ret, space) \<leftarrow> vroute_srvc_space_add_service (re_mem env) (re_now env) (rt_srvc_space route) srvci;
     Some (ret, route\<lparr>rt_srvc_space := space\<rparr>)
   }"

definition vroute_cb_post_service :: "renv \<Rightarrow> vnodeConn \<Rightarrow> be_node \<Rightarrow> 'u vroute \<Rightarrow> (int \<times> 'u vroute) option" where
  "vroute_cb_post_service env conn ctxt route = do {
     (nonce, fromId, srvci) \<leftarrow> vdht_dec_post_service ctxt (re_nonce0 env) (re_fromId0 env) decl_vsrvc_relax;
     (ret, route) \<leftarrow> kick env fromId route;
     (ret, route) \<leftarrow> add_service env srvci route;
     Some (if ret < 0 then -1 else 0, route)
   }"

definition vroute_cb_find_service :: "renv \<Rightarrow> vnodeConn \<Rightarrow> be_node \<Rightarrow> 'u vroute \<Rightarrow> (int \<times> 'u vroute) option" where
  "vroute_cb_find_service env conn ctxt route = do {
     (nonce, fromId, srvcHash) \<leftarrow> vdht_dec_find_service ctxt (re_nonce0 env) (re_fromId0 env) (re_targetId0 env);
     (ret, route) \<leftarrow> kick env fromId route;
     (found, srvci) \<leftarrow> vroute_srvc_space_get_service (re_mem env) (rt_srvc_space route) srvcHash decl_vsrvc_relax;
     if \<not> found then Some (0, route)
     else do {
       (ret, route) \<leftarrow> vroute_dht_find_service_rsp env conn nonce srvci route;
       Some (if ret < 0 then -1 else 0, route)
     }
   }"

text \<open>The node space's operations that send messages run with the route's own operations; the spaces
  they leave in the route are those before the call.\<close>

definition run_node_space ::
  "(node_space \<Rightarrow> 'u vroute \<Rightarrow> (int \<times> node_space \<times> 'u vroute) option) \<Rightarrow> 'u vroute \<Rightarrow> (int \<times> 'u vroute) option" where
  "run_node_space f route = do {
     (ret, space, route) \<leftarrow> f (rt_node_space route) route;
     Some (ret, route\<lparr>rt_node_space := space\<rparr>)
   }"

definition vroute_cb_find_service_rsp ::
  "renv \<Rightarrow> vnodeConn \<Rightarrow> be_node \<Rightarrow> 'u vroute \<Rightarrow> (int \<times> 'u vroute) option" where
  "vroute_cb_find_service_rsp env conn ctxt route = do {
     (nonce, fromId, srvci) \<leftarrow> vdht_dec_find_service_rsp ctxt (re_nonce0 env) (re_fromId0 env) decl_vsrvc_relax;
     (ok, route) \<leftarrow> check_ticket env (QueryNonce nonce) route;
     if \<not> ok then Some (-1, route)
     else do {
       (ret, route) \<leftarrow> kick env fromId route;
       (ret, route) \<leftarrow> add_service env srvci route;
       if ret < 0 then Some (-1, route)
       else do {
         (ret, route) \<leftarrow> run_node_space
            (\<lambda>space. vroute_node_space_probe_node (route_dht env) space (si_hostid srvci)) route;
         if ret < 0 then Some (-1, route)
         else do {
           (ok, route) \<leftarrow> check_ticket env (QuerySrvc srvci) route;
           Some (0, route)
         }
       }
     }
   }"

text \<open>The table \<open>route_cb_ops\<close>, and the callback the messenger calls.\<close>

definition route_cb_ops :: "int \<Rightarrow> renv \<Rightarrow> vnodeConn \<Rightarrow> be_node \<Rightarrow> 'u vroute \<Rightarrow> (int \<times> 'u vroute) option" where
  "route_cb_ops k =
     (if k = VDHT_PING then vroute_cb_ping
      else if k = VDHT_PING_R then vroute_cb_ping_rsp
      else if k = VDHT_FIND_NODE then vroute_cb_find_node
      else if k = VDHT_FIND_NODE_R then vroute_cb_find_node_rsp
      else if k = VDHT_FIND_CLOSEST_NODES then vroute_cb_find_closest_nodes
      else if k = VDHT_FIND_CLOSEST_NODES_R then vroute_cb_find_closest_nodes_rsp
      else if k = VDHT_REFLEX then vroute_cb_reflex
      else if k = VDHT_REFLEX_R then vroute_cb_reflex_rsp
      else if k = VDHT_PROBE then vroute_cb_probe
      else if k = VDHT_PROBE_R then vroute_cb_probe_rsp
      else if k = VDHT_POST_SERVICE then vroute_cb_post_service
      else if k = VDHT_FIND_SERVICE then vroute_cb_find_service
      else if k = VDHT_FIND_SERVICE_R then vroute_cb_find_service_rsp
      else (\<lambda>_ _ _ _. None))"

definition aux_route_msg_cb :: "renv \<Rightarrow> vmsg_usr \<Rightarrow> 'u vroute \<Rightarrow> (int \<times> 'u vroute) option" where
  "aux_route_msg_cb env mu route = do {
     r \<leftarrow> vdht_dec_begin (mu_data mu) (mu_len mu);
     case r of
       None \<Rightarrow> Some (-1, route)
     | Some (k, ctxt) \<Rightarrow>
         if k \<ge> VDHT_UNKNOWN \<or> k < 0 then Some (-1, route)
         else do {
           (ret, route) \<leftarrow> route_cb_ops k env (vnodeConn_set_raw conn_zero (mu_spec mu) (mu_addr mu)) ctxt route;
           Some (if ret < 0 then -1 else 0, route)
         }
   }"

subsection \<open>The route's own operations\<close>

definition vroute_join_node :: "renv \<Rightarrow> sockaddr_in \<Rightarrow> 'u vroute \<Rightarrow> (int \<times> 'u vroute) option" where
  "vroute_join_node env addr route = do {
     (nodei, route) \<leftarrow> fake_node env addr route;
     (ret, route) \<leftarrow> add_node env nodei VADD_BY_OTHER route;
     Some (if ret < 0 then -1 else 0, route)
   }"

definition vroute_find_service ::
  "renv \<Rightarrow> vsrvcHash \<Rightarrow> 'u number_cb \<Rightarrow> 'u addr_cb \<Rightarrow> 'u vroute \<Rightarrow> (int \<times> 'u vroute) option" where
  "vroute_find_service env hash ncb icb route = do {
     (found, srvci) \<leftarrow> vroute_srvc_space_get_service (re_mem env) (rt_srvc_space route) hash decl_vsrvc_relax;
     if \<not> found then Some (0, route\<lparr>rt_client := ncb hash 0 VPROTO_UNKNOWN (rt_client route)\<rparr>)
     else do {
       u \<leftarrow> iterate_addrs icb srvci (nat (si_naddrs srvci)) 0
              (ncb (si_hash srvci) (si_naddrs srvci) (si_proto srvci) (rt_client route));
       Some (0, route\<lparr>rt_client := u\<rparr>)
     }
   }"

definition vroute_probe_service ::
  "renv \<Rightarrow> vsrvcHash \<Rightarrow> 'u number_cb \<Rightarrow> 'u addr_cb \<Rightarrow> 'u vroute \<Rightarrow> (int \<times> 'u vroute) option" where
  "vroute_probe_service env hash ncb icb route = do {
     (ret, route) \<leftarrow> run_node_space (\<lambda>space. vroute_node_space_probe_service (route_dht env) space hash) route;
     if ret < 0 then Some (-1, route)
     else do {
       route \<leftarrow> add_ticket env (SrvcProbe hash ncb icb) route;
       Some (0, route)
     }
   }"

definition vroute_air_service :: "renv \<Rightarrow> vsrvcInfo \<Rightarrow> 'u vroute \<Rightarrow> (int \<times> 'u vroute) option" where
  "vroute_air_service env srvci route =
     run_node_space (\<lambda>space. vroute_node_space_air_service (route_dht env) space srvci) route"

definition vroute_reflex_addr :: "renv \<Rightarrow> sockaddr_in \<Rightarrow> 'u vroute \<Rightarrow> (int \<times> 'u vroute) option" where
  "vroute_reflex_addr env addr route =
     run_node_space (\<lambda>space. vroute_node_space_reflex_addr (route_dht env) space addr) route"

definition vroute_probe_connectivity :: "renv \<Rightarrow> vsockaddr_in \<Rightarrow> 'u vroute \<Rightarrow> (int \<times> 'u vroute) option" where
  "vroute_probe_connectivity env laddr route =
     run_node_space (\<lambda>space. vroute_node_space_probe_connectivity (route_dht env) space laddr) route"

definition vroute_tick :: "renv \<Rightarrow> 'u vroute \<Rightarrow> (int \<times> 'u vroute) option" where
  "vroute_tick env route = do {
     (ret, route) \<leftarrow> run_node_space
        (\<lambda>space. vroute_node_space_tick (route_dht env) (re_now env) (re_later env) (re_pick env) space) route;
     (ts, u) \<leftarrow> vroute_tckt_space_timed_reap (re_mem env) (re_later env) (rt_tckt_space route) (rt_client route);
     Some (0, route\<lparr>rt_tckt_space := ts, rt_client := u\<rparr>)
   }"

definition vroute_clear :: "bool \<Rightarrow> 'u vroute \<Rightarrow> 'u vroute option" where
  "vroute_clear mem route = do {
     ns \<leftarrow> vroute_node_space_clear mem (rt_node_space route);
     ss \<leftarrow> vroute_srvc_space_clear mem (rt_srvc_space route);
     ts \<leftarrow> vroute_tckt_space_clear mem (rt_tckt_space route);
     Some (route\<lparr>rt_node_space := ns, rt_srvc_space := ss, rt_tckt_space := ts\<rparr>)
   }"

text \<open>The capabilities: \<open>tuple\<close> is the configured list, with \<open>None\<close> for an item that is no string.\<close>

fun load_caps :: "bytes option list \<Rightarrow> u32 \<Rightarrow> int \<times> u32" where
  "load_caps [] props = (0, props)"
| "load_caps (item # items) props =
     (case item of
        None \<Rightarrow> (-1, props)
      | Some s \<Rightarrow>
          let dht_id = vdht_get_dhtId_by_desc s
          in if dht_id < 0 then (-1, props)
             else if dht_id \<ge> VDHT_UNKNOWN then (-1, props)
             else load_caps items (props OR push_bit (nat dht_id) 1))"

definition aux_route_load_proto_caps :: "bytes option list option \<Rightarrow> u32 \<Rightarrow> int \<times> u32" where
  "aux_route_load_proto_caps tuple props =
     (case tuple of
        None \<Rightarrow> (0, props OR push_bit (nat VDHT_PING) 1 OR push_bit (nat VDHT_PING_R) 1)
      | Some items \<Rightarrow> load_caps items props)"

text \<open>Initialisation: \<open>caps\<close>, \<open>space\<close> and \<open>srvc_bucket_sz\<close> are what the configuration gives, \<open>space0\<close>
  is the memory the node space is in, which a failing \<open>vroute_node_space_init\<close> leaves unset.\<close>

definition vroute_init ::
  "bytes option list option \<Rightarrow> node_space option \<Rightarrow> node_space \<Rightarrow> int \<Rightarrow> vtoken \<Rightarrow> vmsg_outq \<Rightarrow> vnode \<Rightarrow> 'u \<Rightarrow>
     'u vroute" where
  "vroute_init caps space space0 srvc_bucket_sz myid msger node u =
     \<lparr>rt_myid = vtoken_copy myid,
      rt_props = snd (aux_route_load_proto_caps caps 0),
      rt_node_space = (case space of None \<Rightarrow> space0 | Some s \<Rightarrow> s),
      rt_srvc_space = vroute_srvc_space_init srvc_bucket_sz,
      rt_tckt_space = vroute_tckt_space_init,
      rt_msger = msger, rt_node = node, rt_client = u,
      rt_nonce_magic = 0, rt_token_magic = 0, rt_mac_hash = 0\<rparr>"


section \<open>What these operations do\<close>

subsection \<open>Sending a message\<close>

text \<open>The route as far as the sending operations need it.\<close>

definition send_inv :: "'u vroute \<Rightarrow> bool" where
  "send_inv route \<longleftrightarrow> tok_wf (rt_myid route) \<and> tickets_wf (rt_tckt_space route) \<and>
     mq_pack_cb (rt_msger route) = aux_vhost_pack_msg_cb"

text \<open>The message with the bytes \<open>s\<close> to the remote address of \<open>conn\<close>.\<close>

definition datagram :: "vnodeConn \<Rightarrow> bytes \<Rightarrow> vmsg_usr" where
  "datagram conn s = \<lparr>mu_msgId = VMSG_DHT, mu_addr = vc_raddr conn, mu_spec = vc_laddr conn,
     mu_len = int (length s), mu_data = s\<rparr>"

definition queued :: "vnodeConn \<Rightarrow> bytes \<Rightarrow> 'u vroute \<Rightarrow> 'u vroute" where
  "queued conn s route = route\<lparr>rt_msger := (rt_msger route)
     \<lparr>mq_msgs := mq_msgs (rt_msger route) @ [packed (datagram conn s)]\<rparr>\<rparr>"

lemma queued_fields [simp]:
  "rt_myid (queued conn s r) = rt_myid r" "rt_props (queued conn s r) = rt_props r"
  "rt_node_space (queued conn s r) = rt_node_space r" "rt_srvc_space (queued conn s r) = rt_srvc_space r"
  "rt_tckt_space (queued conn s r) = rt_tckt_space r" "rt_node (queued conn s r) = rt_node r"
  "rt_client (queued conn s r) = rt_client r"
  "mq_msgs (rt_msger (queued conn s r)) = mq_msgs (rt_msger r) @ [packed (datagram conn s)]"
  "mq_pack_cb (rt_msger (queued conn s r)) = mq_pack_cb (rt_msger r)"
  by (simp_all add: queued_def)

lemma send_inv_queued [simp]: "send_inv (queued conn s r) = send_inv r"
  by (simp add: send_inv_def)

lemma end_query_spec:
  assumes "re_mem env" "send_inv route" "s \<noteq> []"
  shows "end_query env conn (Some s) route = Some (0, queued conn s route)"
proof -
  have d: "dht_msg (datagram conn s)" using assms(3) by (simp add: dht_msg_def datagram_def)
  then show ?thesis
    using push_dht [OF _ d] assms(1,2)
    by (simp add: end_query_def send_inv_def queued_def datagram_def)
qed

definition nonce_now :: "renv \<Rightarrow> 'u vroute \<Rightarrow> vnonce" where
  "nonce_now env route = fst (fresh_nonce env route)"

definition reseeded :: "renv \<Rightarrow> 'u vroute \<Rightarrow> 'u vroute" where
  "reseeded env route = snd (fresh_nonce env route)"

lemma reseeded_fields [simp]:
  "rt_myid (reseeded env r) = rt_myid r" "rt_props (reseeded env r) = rt_props r"
  "rt_node_space (reseeded env r) = rt_node_space r" "rt_srvc_space (reseeded env r) = rt_srvc_space r"
  "rt_tckt_space (reseeded env r) = rt_tckt_space r" "rt_node (reseeded env r) = rt_node r"
  "rt_client (reseeded env r) = rt_client r" "rt_msger (reseeded env r) = rt_msger r"
  "send_inv (reseeded env r) = send_inv r"
  by (simp_all add: reseeded_def fresh_nonce_def vnonce_make_def Let_def send_inv_def)

lemma nonce_now_wf [simp]: "nonce_wf (nonce_now env route)"
  by (simp add: nonce_now_def fresh_nonce_def vnonce_make_def Let_def nonce_wf_def VNONCE_LEN_def)

lemma query_spec:
  assumes "re_mem env" "send_inv route" "enc (nonce_now env route) = Some (Some s)" "s \<noteq> []"
  shows "query env conn enc after route =
    map_option (\<lambda>r. (0, r)) (after (nonce_now env route) (queued conn s (reseeded env route)))"
proof -
  have f: "fresh_nonce env route = (nonce_now env route, reseeded env route)"
    by (simp add: nonce_now_def reseeded_def)
  have "send_inv (reseeded env route)" using assms(2) by simp
  note e = end_query_spec [OF assms(1) this assms(4)]
  show ?thesis
    using assms(1,3) e by (simp add: query_def f map_conv_bind_option comp_def)
qed

lemma reply_spec:
  assumes "re_mem env" "send_inv route" "enc = Some (Some s)" "s \<noteq> []"
  shows "reply env conn enc route = Some (0, queued conn s route)"
  using assms end_query_spec by (simp add: reply_def)

lemma add_ticket_route:
  assumes "re_mem env" "tickets_wf (rt_tckt_space route)"
  obtains ts where "add_ticket env argv route = Some (route\<lparr>rt_tckt_space := ts\<rparr>)" "tickets_wf ts"
    "tickets ts = tickets (rt_tckt_space route) @ [vticket_init (re_now env) argv]"
    "ts_overdue_tmo ts = ts_overdue_tmo (rt_tckt_space route)"
proof -
  have "tckt_wf (rt_tckt_space route)" using assms(2) by (simp add: tickets_wf_def)
  then obtain ts where "vroute_tckt_space_add_ticket True (re_now env) (rt_tckt_space route) argv = Some (0, ts)"
      "tckt_wf ts" "tickets ts = tickets (rt_tckt_space route) @ [vticket_init (re_now env) argv]"
      "ts_overdue_tmo ts = ts_overdue_tmo (rt_tckt_space route)"
    using add_ticket_spec by blast
  then show thesis using that [of ts] assms by (simp add: add_ticket_def tickets_wf_def)
qed

text \<open>The effect of a query: one message in the queue, and its nonce pending.\<close>

definition rest_same :: "'u vroute \<Rightarrow> 'u vroute \<Rightarrow> bool" where
  "rest_same r r' \<longleftrightarrow> rt_myid r' = rt_myid r \<and> rt_props r' = rt_props r \<and> rt_node_space r' = rt_node_space r \<and>
     rt_srvc_space r' = rt_srvc_space r \<and> rt_node r' = rt_node r \<and> rt_client r' = rt_client r"

definition asked :: "renv \<Rightarrow> vnodeConn \<Rightarrow> (vnonce \<Rightarrow> bytes option option) \<Rightarrow> 'u vroute \<Rightarrow> 'u vroute \<Rightarrow> bool" where
  "asked env conn enc r r' \<longleftrightarrow> send_inv r' \<and> rest_same r r' \<and>
     pending (rt_tckt_space r') = add_mset (nonce_now env r) (pending (rt_tckt_space r)) \<and>
     (\<exists>s. enc (nonce_now env r) = Some (Some s) \<and>
        mq_msgs (rt_msger r') = mq_msgs (rt_msger r) @ [packed (datagram conn s)])"

lemma pending_add:
  "tickets ts' = tickets ts @ [vticket_init now argv] \<Longrightarrow> pending ts' =
     (case nonce_of (tk_info (vticket_init now argv)) of None \<Rightarrow> pending ts | Some n \<Rightarrow> add_mset n (pending ts))"
  by (auto simp: pending_def map_filter_def split: option.split)

lemma init_nonce [simp]: "nonce_wf n \<Longrightarrow> nonce_of (tk_info (vticket_init now (NonceCheck n))) = Some n"
  "nonce_of (tk_info (vticket_init now (ConnProbe n t c))) = None"
  "nonce_of (tk_info (vticket_init now (SrvcProbe h f g))) = None"
  by (simp_all add: vticket_init_def)

lemma query_asked:
  assumes "re_mem env" "send_inv route" "enc (nonce_now env route) = Some (Some s)" "s \<noteq> []"
  shows "\<exists>route'. query env conn enc (\<lambda>nonce. add_ticket env (NonceCheck nonce)) route = Some (0, route') \<and>
    asked env conn enc route route'"
proof -
  let ?n = "nonce_now env route" and ?q = "queued conn s (reseeded env route)"
  have w: "tickets_wf (rt_tckt_space ?q)" using assms(2) by (simp add: send_inv_def)
  obtain ts where ts: "add_ticket env (NonceCheck ?n) ?q = Some (?q\<lparr>rt_tckt_space := ts\<rparr>)" "tickets_wf ts"
      "tickets ts = tickets (rt_tckt_space ?q) @ [vticket_init (re_now env) (NonceCheck ?n)]"
    using add_ticket_route [OF assms(1) w] by blast
  let ?r = "?q\<lparr>rt_tckt_space := ts\<rparr>"
  have q: "query env conn enc (\<lambda>nonce. add_ticket env (NonceCheck nonce)) route = Some (0, ?r)"
    unfolding query_spec [where enc = enc, OF assms] ts(1) by simp
  have "send_inv ?r" using assms(2) ts(2) by (simp add: send_inv_def)
  moreover have "rest_same route ?r" by (simp add: rest_same_def)
  moreover have "pending ts = add_mset ?n (pending (rt_tckt_space route))"
    using pending_add [OF ts(3)] by simp
  ultimately have "asked env conn enc route ?r" using assms(3) by (simp add: asked_def)
  then show ?thesis using q by blast
qed

lemma asked_keeps: "asked env conn enc r r' \<Longrightarrow> send_inv r'" "asked env conn enc r r' \<Longrightarrow> rest_same r r'"
  by (simp_all only: asked_def)

lemma asked_total:
  assumes "\<exists>r'. m = Some (0, r') \<and> asked env conn enc route r'"
  shows "\<exists>ret r'. m = Some (ret, r') \<and> send_inv r' \<and> rest_same route r'"
proof -
  from assms obtain r' where r': "m = Some (0, r')" "asked env conn enc route r'" by (elim exE conjE)
  show ?thesis
    by (rule exI [of _ 0], rule exI [of _ r']) (rule conjI [OF r'(1) conjI [OF asked_keeps [OF r'(2)]]])
qed

lemma rest_same_refl [simp]: "rest_same r r"
  unfolding rest_same_def by (intro conjI refl)

text \<open>Every message a well-formed route encodes fits.\<close>

lemma dec_begin_empty: "vdht_dec_begin b 0 = None"
  by (simp add: vdht_dec_begin_def)

lemma arrives_enc:
  assumes "arrives m k dec v rest"
  shows "\<exists>s. m = Some (Some s) \<and> s \<noteq> []"
proof -
  obtain s dict where s: "m = Some (Some s)" "vdht_dec_begin (s @ rest) (int (length s)) = Some (Some (k, dict))"
    using assms unfolding arrives_def by blast
  have "s \<noteq> []"
  proof
    assume "s = []"
    then have "vdht_dec_begin (s @ rest) (int (length s)) = None" by (simp add: dec_begin_empty)
    then show False using s(2) by simp
  qed
  then show ?thesis using s(1) by blast
qed

lemma nonce0_wf: "nonce_wf (replicate 4 0)" and tok0_wf: "tok_wf (replicate 20 0)"
  by (simp_all add: nonce_wf_def VNONCE_LEN_def tok_wf_def VTOKEN_LEN_def)

lemma srvc_room_relax [simp]: "srvc_room decl_vsrvc_relax"
  by (simp add: srvc_room_def decl_vsrvc_relax_def tok_wf_def VTOKEN_LEN_def slot_wf_def
      vsockaddr_zero_def sockaddr_zero_def)

lemma node_room_relax [simp]: "node_room decl_vnode_relax"
  by (simp add: node_room_def decl_vnode_relax_def tok_wf_def VTOKEN_LEN_def slot_wf_def
      vsockaddr_zero_def sockaddr_zero_def)

lemma enc_ping: "nonce_wf n \<Longrightarrow> tok_wf me \<Longrightarrow> \<exists>s. vdht_enc_ping n me vdht_buf_len = Some (Some s) \<and> s \<noteq> []"
  by (rule arrives_enc [OF ping_arrives [OF _ _ nonce0_wf tok0_wf]])

lemma enc_reflex: "nonce_wf n \<Longrightarrow> tok_wf me \<Longrightarrow> \<exists>s. vdht_enc_reflex n me vdht_buf_len = Some (Some s) \<and> s \<noteq> []"
  by (rule arrives_enc [OF reflex_arrives [OF _ _ nonce0_wf tok0_wf]])

lemma enc_find_node: "nonce_wf n \<Longrightarrow> tok_wf me \<Longrightarrow> tok_wf t \<Longrightarrow>
    \<exists>s. vdht_enc_find_node n me t vdht_buf_len = Some (Some s) \<and> s \<noteq> []"
  by (rule arrives_enc [OF find_node_arrives [OF _ _ _ nonce0_wf tok0_wf tok0_wf]])

lemma enc_find_closest_nodes: "nonce_wf n \<Longrightarrow> tok_wf me \<Longrightarrow> tok_wf t \<Longrightarrow>
    \<exists>s. vdht_enc_find_closest_nodes n me t vdht_buf_len = Some (Some s) \<and> s \<noteq> []"
  by (rule arrives_enc [OF find_closest_nodes_arrives [OF _ _ _ nonce0_wf tok0_wf tok0_wf]])

lemma enc_probe: "nonce_wf n \<Longrightarrow> tok_wf me \<Longrightarrow> tok_wf t \<Longrightarrow>
    \<exists>s. vdht_enc_probe n me t vdht_buf_len = Some (Some s) \<and> s \<noteq> []"
  by (rule arrives_enc [OF probe_arrives [OF _ _ _ nonce0_wf tok0_wf tok0_wf]])

lemma enc_find_service: "nonce_wf n \<Longrightarrow> tok_wf me \<Longrightarrow> tok_wf t \<Longrightarrow>
    \<exists>s. vdht_enc_find_service n me t vdht_buf_len = Some (Some s) \<and> s \<noteq> []"
  by (rule arrives_enc [OF find_service_arrives [OF _ _ _ nonce0_wf tok0_wf tok0_wf]])

lemma enc_post_service: "nonce_wf n \<Longrightarrow> tok_wf me \<Longrightarrow> srvc_sendable sv \<Longrightarrow>
    \<exists>s. vdht_enc_post_service n me sv vdht_buf_len = Some (Some s) \<and> s \<noteq> []"
  by (rule arrives_enc [OF post_service_arrives [OF _ _ _ nonce0_wf tok0_wf srvc_room_relax]])

text \<open>What each query sends; with the capability switched off nothing happens.\<close>

lemma dht_ping_asked:
  assumes "re_mem env" "send_inv route" "has_prop route VDHT_PING"
  shows "\<exists>route'. vroute_dht_ping env conn route = Some (0, route') \<and>
    asked env conn (\<lambda>nonce. vdht_enc_ping nonce (rt_myid route) vdht_buf_len) route route'"
proof -
  have me: "tok_wf (rt_myid route)" using assms(2) by (simp add: send_inv_def)
  obtain s where "vdht_enc_ping (nonce_now env route) (rt_myid route) vdht_buf_len = Some (Some s)" "s \<noteq> []"
    using enc_ping [OF nonce_now_wf me] by blast
  then show ?thesis
    using query_asked [where enc = "\<lambda>nonce. vdht_enc_ping nonce (rt_myid route) vdht_buf_len", OF assms(1,2)] assms(3)
    by (simp add: vroute_dht_ping_def)
qed

lemma dht_find_node_asked:
  assumes "re_mem env" "send_inv route" "has_prop route VDHT_FIND_NODE" "tok_wf t"
  shows "\<exists>route'. vroute_dht_find_node env conn t route = Some (0, route') \<and>
    asked env conn (\<lambda>nonce. vdht_enc_find_node nonce (rt_myid route) t vdht_buf_len) route route'"
proof -
  have me: "tok_wf (rt_myid route)" using assms(2) by (simp add: send_inv_def)
  obtain s where "vdht_enc_find_node (nonce_now env route) (rt_myid route) t vdht_buf_len = Some (Some s)" "s \<noteq> []"
    using enc_find_node [OF nonce_now_wf me assms(4)] by blast
  then show ?thesis
    using query_asked [where enc = "\<lambda>nonce. vdht_enc_find_node nonce (rt_myid route) t vdht_buf_len", OF assms(1,2)]
      assms(3)
    by (simp add: vroute_dht_find_node_def)
qed

lemma dht_find_closest_nodes_asked:
  assumes "re_mem env" "send_inv route" "has_prop route VDHT_FIND_CLOSEST_NODES" "tok_wf t"
  shows "\<exists>route'. vroute_dht_find_closest_nodes env conn t route = Some (0, route') \<and>
    asked env conn (\<lambda>nonce. vdht_enc_find_closest_nodes nonce (rt_myid route) t vdht_buf_len) route route'"
proof -
  have me: "tok_wf (rt_myid route)" using assms(2) by (simp add: send_inv_def)
  obtain s where "vdht_enc_find_closest_nodes (nonce_now env route) (rt_myid route) t vdht_buf_len = Some (Some s)"
      "s \<noteq> []"
    using enc_find_closest_nodes [OF nonce_now_wf me assms(4)] by blast
  then show ?thesis
    using query_asked [where enc = "\<lambda>nonce. vdht_enc_find_closest_nodes nonce (rt_myid route) t vdht_buf_len",
        OF assms(1,2)] assms(3)
    by (simp add: vroute_dht_find_closest_nodes_def)
qed

lemma dht_reflex_asked:
  assumes "re_mem env" "send_inv route"
  shows "\<exists>route'. vroute_dht_reflex env conn route = Some (0, route') \<and>
    asked env conn (\<lambda>nonce. vdht_enc_reflex nonce (rt_myid route) vdht_buf_len) route route'"
proof -
  have me: "tok_wf (rt_myid route)" using assms(2) by (simp add: send_inv_def)
  obtain s where "vdht_enc_reflex (nonce_now env route) (rt_myid route) vdht_buf_len = Some (Some s)" "s \<noteq> []"
    using enc_reflex [OF nonce_now_wf me] by blast
  then show ?thesis
    using query_asked [where enc = "\<lambda>nonce. vdht_enc_reflex nonce (rt_myid route) vdht_buf_len", OF assms(1,2)]
    by (simp add: vroute_dht_reflex_def)
qed

lemma dht_find_service_asked:
  assumes "re_mem env" "send_inv route" "has_prop route VDHT_FIND_SERVICE" "tok_wf h"
  shows "\<exists>route'. vroute_dht_find_service env conn h route = Some (0, route') \<and>
    asked env conn (\<lambda>nonce. vdht_enc_find_service nonce (rt_myid route) h vdht_buf_len) route route'"
proof -
  have me: "tok_wf (rt_myid route)" using assms(2) by (simp add: send_inv_def)
  obtain s where "vdht_enc_find_service (nonce_now env route) (rt_myid route) h vdht_buf_len = Some (Some s)" "s \<noteq> []"
    using enc_find_service [OF nonce_now_wf me assms(4)] by blast
  then show ?thesis
    using query_asked [where enc = "\<lambda>nonce. vdht_enc_find_service nonce (rt_myid route) h vdht_buf_len", OF assms(1,2)]
      assms(3)
    by (simp add: vroute_dht_find_service_def)
qed

text \<open>A connectivity probe also leaves a ticket with the connection it was sent over.\<close>

lemma dht_probe_asked:
  assumes "re_mem env" "send_inv route" "tok_wf t"
  shows "\<exists>route'. vroute_dht_probe env conn t route = Some (0, route') \<and>
    asked env conn (\<lambda>nonce. vdht_enc_probe nonce (rt_myid route) t vdht_buf_len) route route' \<and>
    ConnProbe (nonce_now env route) t conn \<in> tk_info ` set (tickets (rt_tckt_space route'))"
proof -
  let ?n = "nonce_now env route"
  let ?enc = "\<lambda>nonce. vdht_enc_probe nonce (rt_myid route) t vdht_buf_len"
  have me: "tok_wf (rt_myid route)" using assms(2) by (simp add: send_inv_def)
  obtain s where s: "?enc ?n = Some (Some s)" "s \<noteq> []"
    using enc_probe [OF nonce_now_wf me assms(3)] by blast
  let ?q = "queued conn s (reseeded env route)"
  have w: "tickets_wf (rt_tckt_space ?q)" using assms(2) by (simp add: send_inv_def)
  obtain ts where ts: "add_ticket env (NonceCheck ?n) ?q = Some (?q\<lparr>rt_tckt_space := ts\<rparr>)" "tickets_wf ts"
      "tickets ts = tickets (rt_tckt_space ?q) @ [vticket_init (re_now env) (NonceCheck ?n)]"
    using add_ticket_route [OF assms(1) w] by blast
  have w2: "tickets_wf (rt_tckt_space (?q\<lparr>rt_tckt_space := ts\<rparr>))" using ts(2) by simp
  obtain ts2 where ts2: "add_ticket env (ConnProbe ?n t conn) (?q\<lparr>rt_tckt_space := ts\<rparr>) =
        Some (?q\<lparr>rt_tckt_space := ts, rt_tckt_space := ts2\<rparr>)" "tickets_wf ts2"
      "tickets ts2 = tickets ts @ [vticket_init (re_now env) (ConnProbe ?n t conn)]"
    using add_ticket_route [OF assms(1) w2] by auto
  have "pending ts2 = add_mset ?n (pending (rt_tckt_space route))"
    using pending_add [OF ts2(3)] pending_add [OF ts(3)] by simp
  moreover have "ConnProbe ?n t conn \<in> tk_info ` set (tickets ts2)"
    using ts2(3) assms(3) by (simp add: vticket_init_def)
  moreover have "send_inv (?q\<lparr>rt_tckt_space := ts2\<rparr>)" using assms(2) ts2(2) by (simp add: send_inv_def)
  ultimately show ?thesis
    using query_spec [where enc = ?enc, OF assms(1,2) s] ts(1) ts2(1) s(1)
    by (simp add: vroute_dht_probe_def asked_def rest_same_def)
qed

lemma dht_post_service_sent:
  assumes "re_mem env" "send_inv route" "has_prop route VDHT_POST_SERVICE" "srvc_sendable sv"
  shows "\<exists>s. vdht_enc_post_service (nonce_now env route) (rt_myid route) sv vdht_buf_len = Some (Some s) \<and>
    vroute_dht_post_service env conn sv route = Some (0, queued conn s (reseeded env route))"
proof -
  have me: "tok_wf (rt_myid route)" using assms(2) by (simp add: send_inv_def)
  obtain s where "vdht_enc_post_service (nonce_now env route) (rt_myid route) sv vdht_buf_len = Some (Some s)" "s \<noteq> []"
    using enc_post_service [OF nonce_now_wf me assms(4)] by blast
  then show ?thesis
    using query_spec [where enc = "\<lambda>nonce. vdht_enc_post_service nonce (rt_myid route) sv vdht_buf_len", OF assms(1,2)]
      assms(3)
    by (simp add: vroute_dht_post_service_def)
qed

text \<open>
  What any of these calls does, in one statement: the message it encodes, where to, whether its kind is enabled, and the
  tickets it leaves.
\<close>

fun call_conn :: "dht_call \<Rightarrow> vnodeConn" where
  "call_conn (DhtPing conn) = conn"
| "call_conn (DhtFindNode conn _) = conn"
| "call_conn (DhtFindClosestNodes conn _) = conn"
| "call_conn (DhtReflex conn) = conn"
| "call_conn (DhtProbe conn _) = conn"
| "call_conn (DhtPostService conn _) = conn"
| "call_conn (DhtFindService conn _) = conn"

fun call_enabled :: "'u vroute \<Rightarrow> dht_call \<Rightarrow> bool" where
  "call_enabled route (DhtPing _) = has_prop route VDHT_PING"
| "call_enabled route (DhtFindNode _ _) = has_prop route VDHT_FIND_NODE"
| "call_enabled route (DhtFindClosestNodes _ _) = has_prop route VDHT_FIND_CLOSEST_NODES"
| "call_enabled route (DhtReflex _) = True"
| "call_enabled route (DhtProbe _ _) = True"
| "call_enabled route (DhtPostService _ _) = has_prop route VDHT_POST_SERVICE"
| "call_enabled route (DhtFindService _ _) = has_prop route VDHT_FIND_SERVICE"

fun call_enc :: "dht_call \<Rightarrow> vtoken \<Rightarrow> vnonce \<Rightarrow> bytes option option" where
  "call_enc (DhtPing _) me = (\<lambda>nonce. vdht_enc_ping nonce me vdht_buf_len)"
| "call_enc (DhtFindNode _ t) me = (\<lambda>nonce. vdht_enc_find_node nonce me t vdht_buf_len)"
| "call_enc (DhtFindClosestNodes _ t) me = (\<lambda>nonce. vdht_enc_find_closest_nodes nonce me t vdht_buf_len)"
| "call_enc (DhtReflex _) me = (\<lambda>nonce. vdht_enc_reflex nonce me vdht_buf_len)"
| "call_enc (DhtProbe _ t) me = (\<lambda>nonce. vdht_enc_probe nonce me t vdht_buf_len)"
| "call_enc (DhtPostService _ sv) me = (\<lambda>nonce. vdht_enc_post_service nonce me sv vdht_buf_len)"
| "call_enc (DhtFindService _ h) me = (\<lambda>nonce. vdht_enc_find_service nonce me h vdht_buf_len)"

fun call_tickets :: "vnonce \<Rightarrow> dht_call \<Rightarrow> 'u ticket_info list" where
  "call_tickets nonce (DhtProbe conn t) = [NonceCheck nonce, ConnProbe nonce t conn]"
| "call_tickets nonce (DhtPostService _ _) = []"
| "call_tickets nonce _ = [NonceCheck nonce]"

lemma call_enc_fits:
  assumes "nonce_wf n" "tok_wf me" "call_wf c"
  shows "\<exists>s. call_enc c me n = Some (Some s) \<and> s \<noteq> []"
  using assms enc_ping enc_find_node enc_find_closest_nodes enc_reflex enc_probe enc_post_service enc_find_service
  by (cases c) auto

fun add_tickets :: "renv \<Rightarrow> 'u ticket_info list \<Rightarrow> 'u vroute \<Rightarrow> 'u vroute option" where
  "add_tickets env [] = Some"
| "add_tickets env (argv # argvs) = (\<lambda>route. do { route \<leftarrow> add_ticket env argv route; add_tickets env argvs route })"

definition asked_by :: "renv \<Rightarrow> dht_call \<Rightarrow> 'u vroute \<Rightarrow> 'u vroute \<Rightarrow> bool" where
  "asked_by env c r r' \<longleftrightarrow>
     (\<exists>s. call_enc c (rt_myid r) (nonce_now env r) = Some (Some s) \<and>
        mq_msgs (rt_msger r') = mq_msgs (rt_msger r) @ [packed (datagram (call_conn c) s)]) \<and>
     tickets (rt_tckt_space r') =
       tickets (rt_tckt_space r) @ map (vticket_init (re_now env)) (call_tickets (nonce_now env r) c)"

lemma add_tickets_spec:
  "re_mem env \<Longrightarrow> send_inv route \<Longrightarrow> \<exists>ts. add_tickets env argvs route = Some (route\<lparr>rt_tckt_space := ts\<rparr>) \<and> tickets_wf ts \<and>
     tickets ts = tickets (rt_tckt_space route) @ map (vticket_init (re_now env)) argvs"
proof (induction argvs arbitrary: route)
  case Nil
  then show ?case by (intro exI [of _ "rt_tckt_space route"]) (simp add: send_inv_def)
next
  case (Cons argv argvs)
  have w: "tickets_wf (rt_tckt_space route)" using Cons.prems(2) by (simp add: send_inv_def)
  obtain ts where ts: "add_ticket env argv route = Some (route\<lparr>rt_tckt_space := ts\<rparr>)" "tickets_wf ts"
      "tickets ts = tickets (rt_tckt_space route) @ [vticket_init (re_now env) argv]"
    using add_ticket_route [OF Cons.prems(1) w] by blast
  have "send_inv (route\<lparr>rt_tckt_space := ts\<rparr>)" using Cons.prems(2) ts(2) by (simp add: send_inv_def)
  from Cons.IH [OF Cons.prems(1) this] show ?case using ts(1,3) by auto
qed

lemma query_leaves:
  assumes "re_mem env" "send_inv route" "enc (nonce_now env route) = Some (Some s)" "s \<noteq> []"
    "\<And>r. after (nonce_now env route) r = add_tickets env argvs r"
  shows "\<exists>route'. query env conn enc after route = Some (0, route') \<and> send_inv route' \<and> rest_same route route' \<and>
    mq_msgs (rt_msger route') = mq_msgs (rt_msger route) @ [packed (datagram conn s)] \<and>
    tickets (rt_tckt_space route') = tickets (rt_tckt_space route) @ map (vticket_init (re_now env)) argvs"
proof -
  let ?q = "queued conn s (reseeded env route)"
  have "send_inv ?q" using assms(2) by simp
  from add_tickets_spec [OF assms(1) this, of argvs]
  obtain ts where ts: "add_tickets env argvs ?q = Some (?q\<lparr>rt_tckt_space := ts\<rparr>)" "tickets_wf ts"
      "tickets ts = tickets (rt_tckt_space route) @ map (vticket_init (re_now env)) argvs"
    by auto
  have "query env conn enc after route = Some (0, ?q\<lparr>rt_tckt_space := ts\<rparr>)"
    unfolding query_spec [where enc = enc, OF assms(1-4)] assms(5) ts(1) by simp
  moreover have "send_inv (?q\<lparr>rt_tckt_space := ts\<rparr>)" using assms(2) ts(2) by (simp add: send_inv_def)
  moreover have "rest_same route (?q\<lparr>rt_tckt_space := ts\<rparr>)" by (simp add: rest_same_def)
  ultimately show ?thesis using ts(3) by (intro exI [of _ "?q\<lparr>rt_tckt_space := ts\<rparr>"]) simp
qed

lemma route_dht_query:
  "\<exists>after. (\<forall>r. after (nonce_now env route) r = add_tickets env (call_tickets (nonce_now env route) c) r) \<and>
     route_dht env c route =
       (if call_enabled route c then query env (call_conn c) (call_enc c (rt_myid route)) after route else Some (0, route))"
proof -
  let ?none = "\<lambda>nonce. add_ticket env (NonceCheck nonce)"
  show ?thesis
  proof (cases c)
    case (DhtProbe conn t)
    let ?after = "\<lambda>nonce route. do { route \<leftarrow> add_ticket env (NonceCheck nonce) route; add_ticket env (ConnProbe nonce t conn) route }"
    show ?thesis unfolding DhtProbe
      by (rule exI [of _ ?after]) (simp add: vroute_dht_probe_def)
  next
    case (DhtPostService conn sv)
    show ?thesis unfolding DhtPostService
      by (rule exI [of _ "\<lambda>nonce. Some"]) (simp add: vroute_dht_post_service_def)
  qed (rule exI [of _ ?none], simp add: vroute_dht_ping_def vroute_dht_find_node_def vroute_dht_find_closest_nodes_def
      vroute_dht_reflex_def vroute_dht_find_service_def)+
qed

lemma route_dht_sent:
  assumes "re_mem env" "send_inv route" "call_wf c"
  shows "\<exists>route'. route_dht env c route = Some (0, route') \<and> send_inv route' \<and> rest_same route route' \<and>
    (if call_enabled route c then asked_by env c route route' else route' = route)"
proof -
  let ?n = "nonce_now env route"
  have me: "tok_wf (rt_myid route)" using assms(2) by (simp add: send_inv_def)
  obtain after where after: "\<And>r. after ?n r = add_tickets env (call_tickets ?n c) r"
      "route_dht env c route =
        (if call_enabled route c then query env (call_conn c) (call_enc c (rt_myid route)) after route else Some (0, route))"
    using route_dht_query by blast
  obtain s where s: "call_enc c (rt_myid route) ?n = Some (Some s)" "s \<noteq> []"
    using call_enc_fits [OF nonce_now_wf me assms(3)] by blast
  show ?thesis
  proof (cases "call_enabled route c")
    case True
    from query_leaves [where enc = "call_enc c (rt_myid route)" and after = after, OF assms(1,2) s after(1), of "call_conn c"] True s(1) show ?thesis
      unfolding after(2) by (auto simp: asked_by_def)
  next
    case False
    then show ?thesis using after(2) assms(2) by simp
  qed
qed

lemma route_dht_total:
  assumes "re_mem env" "send_inv route" "call_wf c"
  shows "\<exists>ret route'. route_dht env c route = Some (ret, route') \<and> send_inv route' \<and> rest_same route route'"
  using route_dht_sent [OF assms] by blast

text \<open>The node space may send through the route.\<close>

interpretation sending: dht_ops "route_dht (env\<lparr>re_mem := True\<rparr>)" "\<lambda>r. send_inv r \<and> rest_same route r"
  for env and route :: "'u vroute"
proof
  fix r :: "'u vroute" and c
  assume "send_inv r \<and> rest_same route r" "call_wf c"
  then show "\<exists>ret r'. route_dht (env\<lparr>re_mem := True\<rparr>) c r = Some (ret, r') \<and> send_inv r' \<and> rest_same route r'"
    using route_dht_total [of "env\<lparr>re_mem := True\<rparr>" r c] by (auto simp: rest_same_def)
qed

lemma env_mem: "re_mem env \<Longrightarrow> env\<lparr>re_mem := True\<rparr> = env"
  by (cases env) simp

subsection \<open>Responses nobody asked for\<close>

lemma check_loop_none:
  assumes "va_wf ts" "\<forall>t \<in> set (drop i (va_list ts)). \<not> punches argv (tk_info t)" "i + n = length (va_list ts)"
  shows "check_loop n mem ts argv i found space u = Some (found, ts, space, u)"
  using assms(2,3)
proof (induction n arbitrary: i)
  case 0
  then show ?case using assms(1) by (simp del: va_list_length)
next
  case (Suc n)
  then have i: "i < length (va_list ts)" by simp
  then have d: "drop i (va_list ts) = va_list ts ! i # drop (i + 1) (va_list ts)"
    by (simp add: Cons_nth_drop_Suc)
  have "\<not> punches argv (tk_info (va_list ts ! i))" "\<forall>t \<in> set (drop (i + 1) (va_list ts)). \<not> punches argv (tk_info t)"
    using Suc.prems(1) unfolding d by simp_all
  then show ?case
    using Suc.IH [of "i + 1"] Suc.prems(2) check_loop_step [OF assms(1) i] by (simp del: check_loop.simps)
qed

lemma check_ticket_none:
  assumes "tckt_wf tspace" "\<forall>t \<in> set (tickets tspace). \<not> punches argv (tk_info t)"
  shows "vroute_tckt_space_check_ticket mem tspace argv space u = Some (False, tspace, space, u)"
proof -
  have w: "va_wf (ts_tickets tspace)" using assms(1) by (simp add: tckt_wf_def)
  have "check_loop (varray_size (ts_tickets tspace)) mem (ts_tickets tspace) argv 0 False space u =
      Some (False, ts_tickets tspace, space, u)"
    using assms(2) va_size [OF w] by (intro check_loop_none [OF w]) (simp_all add: tickets_def)
  then show ?thesis by (simp add: vroute_tckt_space_check_ticket_def)
qed

text \<open>No ticket waits for the nonce.\<close>

definition unasked :: "vnonce \<Rightarrow> 'u vroute \<Rightarrow> bool" where
  "unasked nonce route \<longleftrightarrow> tckt_wf (rt_tckt_space route) \<and>
     (\<forall>t \<in> set (tickets (rt_tckt_space route)). \<not> waits_for nonce t)"

lemma check_ticket_unasked:
  assumes "unasked nonce route"
  shows "check_ticket env (QueryNonce nonce) route = Some (False, route)"
  using assms check_ticket_none [of "rt_tckt_space route" "QueryNonce nonce"]
  by (simp add: check_ticket_def unasked_def waits_for_def)

text \<open>The nonce of a message is what the decoders read under the key \<open>t\<close>.\<close>

definition msg_nonce :: "renv \<Rightarrow> be_node \<Rightarrow> vnonce option" where
  "msg_nonce env ctxt = dec_buf (Some ctxt) ''t'' (re_nonce0 env) VNONCE_LEN"

definition rsp_kinds :: "int set" where
  "rsp_kinds = {VDHT_PING_R, VDHT_FIND_NODE_R, VDHT_FIND_CLOSEST_NODES_R, VDHT_REFLEX_R, VDHT_PROBE_R,
     VDHT_FIND_SERVICE_R}"

text \<open>The nonce the decoder of a response of kind \<open>k\<close> returns, and \<open>None\<close> where it crashes.\<close>

definition rsp_nonce :: "int \<Rightarrow> renv \<Rightarrow> be_node \<Rightarrow> vnonce option" where
  "rsp_nonce k env ctxt =
     (if k = VDHT_PING_R then map_option fst (vdht_dec_ping_rsp ctxt (re_nonce0 env) decl_vnode_relax)
      else if k = VDHT_FIND_NODE_R then
        map_option fst (vdht_dec_find_node_rsp ctxt (re_nonce0 env) (re_fromId0 env) decl_vnode_relax)
      else if k = VDHT_FIND_CLOSEST_NODES_R then
        map_option fst (vdht_dec_find_closest_nodes_rsp (\<lambda>_. re_mem env) (re_mem env) ctxt (re_nonce0 env) (re_fromId0 env)
          (varray_init MAX_CAPC))
      else if k = VDHT_REFLEX_R then
        map_option fst (vdht_dec_reflex_rsp ctxt (re_nonce0 env) (re_fromId0 env) (re_addr0 env))
      else if k = VDHT_PROBE_R then map_option fst (vdht_dec_probe_rsp ctxt (re_nonce0 env) (re_fromId0 env))
      else map_option fst (vdht_dec_find_service_rsp ctxt (re_nonce0 env) (re_fromId0 env) decl_vsrvc_relax))"

lemma rsp_nonce_msg:
  "rsp_nonce k env ctxt = Some nonce \<Longrightarrow> msg_nonce env ctxt = Some nonce"
  by (auto simp: rsp_nonce_def msg_nonce_def vdht_dec_ping_rsp_def vdht_dec_find_node_rsp_def
      vdht_dec_find_closest_nodes_rsp_def vdht_dec_reflex_rsp_def vdht_dec_probe_rsp_def vdht_dec_find_service_rsp_def
      split: if_splits Option.bind_splits prod.splits)

lemma unasked_ignored:
  assumes "k \<in> rsp_kinds"
  shows "case rsp_nonce k env ctxt of
      None \<Rightarrow> route_cb_ops k env conn ctxt route = None
    | Some nonce \<Rightarrow> msg_nonce env ctxt = Some nonce \<and>
        (unasked nonce route \<longrightarrow> route_cb_ops k env conn ctxt route = Some (-1, route))"
proof -
  have "(rsp_nonce k env ctxt = None \<longrightarrow> route_cb_ops k env conn ctxt route = None) \<and>
      (\<forall>nonce. rsp_nonce k env ctxt = Some nonce \<longrightarrow> unasked nonce route \<longrightarrow>
         route_cb_ops k env conn ctxt route = Some (-1, route))"
    using assms unfolding rsp_kinds_def
    by (elim insertE emptyE) (auto simp: rsp_nonce_def route_cb_ops_def vroute_cb_ping_rsp_def vroute_cb_find_node_rsp_def
        vroute_cb_find_closest_nodes_rsp_def vroute_cb_reflex_rsp_def vroute_cb_probe_rsp_def vroute_cb_find_service_rsp_def
        check_ticket_unasked)
  then show ?thesis using rsp_nonce_msg by (auto split: option.split)
qed

subsection \<open>Well-formed routes\<close>

definition route_wf :: "'u vroute \<Rightarrow> bool" where
  "route_wf route \<longleftrightarrow> send_inv route \<and> space_wf (rt_node_space route) \<and>
     ns_myid (rt_node_space route) = rt_myid route \<and> srvcs_wf (rt_srvc_space route) \<and>
     vnode_wf (rt_node route) \<and> node_sendable (vn_nodei (rt_node route))"

lemma route_wfD:
  assumes "route_wf route"
  shows "send_inv route" "space_wf (rt_node_space route)" "ns_myid (rt_node_space route) = rt_myid route"
    "srvcs_wf (rt_srvc_space route)" "vnode_wf (rt_node route)" "node_sendable (vn_nodei (rt_node route))"
    "tok_wf (rt_myid route)" "tickets_wf (rt_tckt_space route)" "tckt_wf (rt_tckt_space route)"
  using assms by (auto simp: route_wf_def send_inv_def tickets_wf_def)

lemma route_wf_rest:
  assumes "route_wf route" "send_inv route'" "rest_same route route'"
  shows "route_wf route'"
  using assms by (auto simp: route_wf_def rest_same_def)

lemma route_wf_queued [simp]: "route_wf (queued conn s route) = route_wf route"
  by (simp add: route_wf_def)

lemma send_inv_space [simp]: "send_inv (r\<lparr>rt_node_space := sp\<rparr>) = send_inv r"
  "send_inv (r\<lparr>rt_srvc_space := ss\<rparr>) = send_inv r" "send_inv (r\<lparr>rt_node := n\<rparr>) = send_inv r"
  "send_inv (r\<lparr>rt_client := u\<rparr>) = send_inv r"
  by (simp_all add: send_inv_def)

lemma route_wf_space:
  assumes "route_wf r" "space_wf sp" "ns_myid sp = rt_myid r"
  shows "route_wf (r\<lparr>rt_node_space := sp\<rparr>)"
  using assms by (simp add: route_wf_def)

lemma kick_ok:
  assumes "route_wf route" "tok_wf t"
  obtains ret sp where "kick env t route = Some (ret, route\<lparr>rt_node_space := sp\<rparr>)" "ret = 0 \<or> ret = 1"
    "same_nodes (rt_node_space route) sp" "route_wf (route\<lparr>rt_node_space := sp\<rparr>)"
    "ret = 0 \<Longrightarrow> sp = rt_node_space route"
proof -
  let ?sp = "rt_node_space route"
  let ?b = "vnodeId_bucket (ns_myid ?sp) t"
  note w = route_wfD [OF assms(1)]
  show thesis
  proof (cases "find_idx (\<lambda>p. pid p = t) (bucket_list ?sp ?b)")
    case None
    then have "t \<notin> set (map pid (bucket_list ?sp ?b))" unfolding find_pid_None .
    then have "kick env t route = Some (0, route\<lparr>rt_node_space := ?sp\<rparr>)"
      using kick_node_absent [OF w(2) assms(2)] by (simp add: kick_def)
    then show thesis using that [of 0 ?sp] same_nodes_refl [OF w(2)] assms(1) by simp
  next
    case (Some k)
    have k: "k < length (bucket_list ?sp ?b)" using Some find_idx_lt by auto
    let ?s = "put_peer ?sp ?b k (kicked ?sp (re_now env) (bucket_list ?sp ?b ! k))"
    have "vroute_node_space_kick_node (re_now env) ?sp t = Some (1, ?s)"
      using space_scan_spec [OF w(2) assms(2)] Some unfolding vroute_node_space_kick_node_def kicked_def by simp
    then have e: "kick env t route = Some (1, route\<lparr>rt_node_space := ?s\<rparr>)" by (simp add: kick_def)
    have s: "same_nodes ?sp ?s" by (rule same_nodes_put [OF w(2) bucket_in_range k]) (simp add: kicked_def)
    then have "route_wf (route\<lparr>rt_node_space := ?s\<rparr>)"
      using route_wf_space [OF assms(1)] w(3) by (simp add: same_nodes_def)
    then show thesis using that [of 1 ?s] e s by simp
  qed
qed

lemma add_node_ok:
  assumes "route_wf route" "re_mem env" "node_news nodei" "int32_ok (ni_weight nodei + 1)"
    "flag = VADD_BY_OTHER \<or> flag = VADD_BY_PING_RSP"
  obtains sp where "add_node env nodei flag route = Some (0, route\<lparr>rt_node_space := sp\<rparr>)"
    "route_wf (route\<lparr>rt_node_space := sp\<rparr>)"
proof -
  let ?sp = "rt_node_space route"
  note w = route_wfD [OF assms(1)]
  show thesis
  proof (cases "ni_id nodei = ns_myid ?sp")
    case True
    have "add_node env nodei flag route = Some (0, route\<lparr>rt_node_space := ?sp\<rparr>)"
      using True w(2) by (simp add: add_node_def vroute_node_space_add_node_def space_wf_def)
    then show thesis using that [of ?sp] assms(1) by simp
  next
    case False
    then have "add_ok ?sp nodei flag" using assms(3-5) w(2) by (simp add: add_ok_def)
    then obtain sp where "vroute_node_space_add_node True (re_now env) ?sp nodei flag = Some (0, sp, weighed ?sp nodei)"
        "space_wf sp" "ns_myid sp = ns_myid ?sp"
      using add_node_wf by blast
    then show thesis
      using that [of sp] route_wf_space [OF assms(1)] w(3) assms(2) by (simp add: add_node_def)
  qed
qed

lemma ver_unknown_wf: "tok_wf vnodeVer_unknown"
  by (simp add: vnodeVer_unknown_def tok_wf_def VTOKEN_LEN_def)

lemma fake_node_ok:
  assumes "re_mem env"
  obtains nodei m h where "fake_node env addr route =
      Some (nodei, route\<lparr>rt_token_magic := m, rt_mac_hash := h\<rparr>)"
    "node_news nodei" "ni_weight nodei = 0" "vnodeInfo_is_fake nodei" "ni_list nodei = [\<lparr>va_addr = addr, va_type = VSOCKADDR_UNKNOWN\<rparr>]"
proof -
  obtain t m h where vt: "vtoken_make (re_rnd env) (word_of_int (re_now env)) (re_self env)
            (re_pid env) (re_mac env) (rt_mac_hash route) (rt_token_magic route) = (t, m, h)"
    by (metis prod.exhaust)
  have t: "fresh_token env route = (t, route\<lparr>rt_token_magic := m, rt_mac_hash := h\<rparr>)"
    by (simp add: fresh_token_def vt)
  have tw: "tok_wf t" using tok_wf_make vt by (metis fst_conv)
  obtain n where n: "vnodeInfo_relax_init decl_vnode_relax t vnodeVer_unknown 0 = Some n" "node_wf n"
      "ni_list n = []" "ni_naddrs n = 0" "ni_id n = t" "ni_ver n = vnodeVer_unknown" "ni_weight n = 0"
    using tw ver_unknown_wf by (auto simp: vnodeInfo_relax_init_def decl_vnode_relax_def node_wf_def ni_list_def
        addrs_distinct_def VNODEINFO_MAX_ADDRS_def)
  obtain n' where n': "vnodeInfo_add_addr True n addr VSOCKADDR_UNKNOWN = Some (1, n')" "node_wf n'" "ni_same n n'"
      "ni_naddrs n' = 1" "ni_list n' = [\<lparr>va_addr = addr, va_type = VSOCKADDR_UNKNOWN\<rparr>]"
    using vnodeInfo_add_addr_new [OF n(2), of addr VSOCKADDR_UNKNOWN] n(3,4) by (auto simp: addr_in_def)
  have "node_news n'" using n'(4) node_wf_src [OF n'(2)] by (simp add: node_news_def)
  moreover have "ni_weight n' = 0" "vnodeInfo_is_fake n'"
    using n'(3) n(6,7) ver_unknown_wf by (auto simp: ni_same_def vnodeInfo_is_fake_def)
  moreover have "fake_node env addr route = Some (n', route\<lparr>rt_token_magic := m, rt_mac_hash := h\<rparr>)"
    unfolding fake_node_def t Let_def prod.case n(1) bind.bind_lunit using n'(1) assms by simp
  ultimately show thesis using n'(5) by (intro that)
qed

lemma check_nonce_ok:
  assumes "route_wf route" "re_mem env" "tckt_room (rt_tckt_space route)" "nonce_wf n"
  obtains ts where "check_ticket env (QueryNonce n) route =
      Some (n \<in># pending (rt_tckt_space route), route\<lparr>rt_tckt_space := ts\<rparr>)"
    "pending ts = pending (rt_tckt_space route) - {#n#}" "tckt_room ts" "route_wf (route\<lparr>rt_tckt_space := ts\<rparr>)"
    "set (tickets ts) \<subseteq> set (tickets (rt_tckt_space route))"
proof -
  let ?s = "rt_tckt_space route"
  note w = route_wfD [OF assms(1)]
  let ?l = "takeWhile (\<lambda>t. \<not> waits_for n t) (tickets ?s) @ tl (dropWhile (\<lambda>t. \<not> waits_for n t) (tickets ?s))"
  obtain ts where ts: "vroute_tckt_space_check_ticket True ?s (QueryNonce n) (rt_node_space route) (rt_client route) =
      Some (\<exists>t \<in> set (tickets ?s). waits_for n t, ts, rt_node_space route, rt_client route)" "tckt_wf ts" "tckt_room ts"
      "tickets ts = ?l"
    using check_ticket_refines [OF w(9) assms(3) check_list_nonce] by blast
  have i: "\<forall>t \<in> set (tickets ?s). info_wf (tk_info t)" using w(8) by (simp add: tickets_wf_def)
  have sub: "set ?l \<subseteq> set (tickets ?s)"
  proof -
    have "set (tl xs) \<subseteq> set xs" for xs :: "'a vticket_item list" by (cases xs) auto
    then show ?thesis by (fastforce dest: set_takeWhileD set_dropWhileD)
  qed
  then have "tickets_wf ts" using i ts(2,4) by (auto simp: tickets_wf_def)
  then have "route_wf (route\<lparr>rt_tckt_space := ts\<rparr>)" using assms(1) by (simp add: route_wf_def send_inv_def)
  then show thesis
    using that [of ts] ts pending_settled [OF i assms(4)] assms(2) sub by (simp add: check_ticket_def pending_def)
qed

subsection \<open>From one route to another\<close>

text \<open>The receiving half of the messenger as \<open>vroute_init\<close> sets it up.\<close>

definition host_inq :: "renv \<Rightarrow> 'u vroute vmsg_inq" where
  "host_inq env = \<lparr>mi_cbs = [\<lparr>mcb_msgId = VMSG_DHT, mcb_cb = aux_route_msg_cb env\<rparr>],
     mi_unpack_cb = aux_vhost_unpack_msg_cb\<rparr>"

lemma host_inq_init:
  "vmsger_add_cb True (fst (vmsger_init aux_vhost_pack_msg_cb aux_vhost_unpack_msg_cb)) (aux_route_msg_cb env) VMSG_DHT =
     Some (0, host_inq env)"
  by (simp add: vmsger_add_cb_def vmsger_init_def host_inq_def)

text \<open>A message as the socket delivers it: \<open>src\<close> is the sender's address as it is seen here, \<open>dst\<close> our
  address; the rest of the receive buffer follows the bytes.\<close>

definition delivered :: "sockaddr_in \<Rightarrow> sockaddr_in \<Rightarrow> bytes \<Rightarrow> vmsg_sys \<Rightarrow> vmsg_sys" where
  "delivered src dst rest ms = \<lparr>ms_addr = src, ms_spec = dst, ms_len = ms_len ms, ms_data = ms_data ms @ rest\<rparr>"

definition host_receive :: "renv \<Rightarrow> vmsg_usr \<Rightarrow> vmsg_sys \<Rightarrow> 'u vroute \<Rightarrow> (int \<times> 'u vroute) option" where
  "host_receive env um0 ms route = vmsger_dsptch (host_inq env) um0 ms route"

abbreviation conn_of :: "sockaddr_in \<Rightarrow> sockaddr_in \<Rightarrow> vnodeConn" where
  "conn_of src dst \<equiv> vnodeConn_set_raw conn_zero dst src"

lemma conn_of_fields [simp]: "vc_raddr (conn_of src dst) = src" "vc_laddr (conn_of src dst) = dst"
  by (simp_all add: vnodeConn_set_raw_def vsockaddr_copy_def)

lemma unpack_delivered:
  assumes "s \<noteq> []"
  shows "aux_vhost_unpack_msg_cb (delivered src dst rest (packed (datagram conn s))) um =
    Some (0, \<lparr>mu_msgId = VMSG_DHT, mu_addr = src, mu_spec = dst, mu_len = int (length s), mu_data = s @ rest\<rparr>)"
  using assms by (simp add: aux_vhost_unpack_msg_cb_def delivered_def packed_def datagram_def get_uint32_def
      vmsg_usr_init_def)

text \<open>A message that arrives is handled by the handler of its kind.\<close>

lemma receive_arrived:
  assumes "arrives (Some (Some s)) k dec v rest" "0 \<le> k" "k < VDHT_UNKNOWN"
  obtains dict where "dec dict = Some v"
    "host_receive env um0 (delivered src dst rest (packed (datagram conn s))) route =
       map_option (\<lambda>(_, r). (0, r)) (route_cb_ops k env (conn_of src dst) dict route)"
proof -
  obtain dict where d: "vdht_dec_begin (s @ rest) (int (length s)) = Some (Some (k, dict))" "dec dict = Some v"
    using assms(1) unfolding arrives_def by blast
  have "s \<noteq> []" using arrives_enc [OF assms(1)] by auto
  note u = unpack_delivered [OF this, of src dst rest conn um0]
  have c: "cbs_wf (host_inq env)" by (simp add: cbs_wf_def host_inq_def)
  have m: "mi_unpack_cb (host_inq env) = aux_vhost_unpack_msg_cb" by (simp add: host_inq_def)
  let ?mu = "\<lparr>mu_msgId = VMSG_DHT, mu_addr = src, mu_spec = dst, mu_len = int (length s), mu_data = s @ rest\<rparr>"
  have f: "cb_for (host_inq env) VMSG_DHT = Some \<lparr>mcb_msgId = VMSG_DHT, mcb_cb = aux_route_msg_cb env\<rparr>"
    by (simp add: cb_for_def host_inq_def)
  have "host_receive env um0 (delivered src dst rest (packed (datagram conn s))) route =
      map_option (\<lambda>(_, r). (0, r)) (aux_route_msg_cb env ?mu route)"
    unfolding host_receive_def
    by (subst dsptch_spec [OF c _ order_refl]) (unfold m, rule u, simp add: f)
  also have "aux_route_msg_cb env ?mu route =
      map_option (\<lambda>(ret, r). (if ret < 0 then -1 else 0, r)) (route_cb_ops k env (conn_of src dst) dict route)"
    using d(1) assms(2,3)
    by (cases "route_cb_ops k env (conn_of src dst) dict route") (auto simp: aux_route_msg_cb_def)
  finally have "host_receive env um0 (delivered src dst rest (packed (datagram conn s))) route =
       map_option (\<lambda>(_, r). (0, r)) (route_cb_ops k env (conn_of src dst) dict route)"
    by (cases "route_cb_ops k env (conn_of src dst) dict route") auto
  then show thesis using that d(2) by blast
qed

lemma receive_ex:
  assumes "arrives (Some (Some s)) k dec v rest" "0 \<le> k" "k < VDHT_UNKNOWN"
  shows "\<exists>dict. dec dict = Some v \<and> host_receive env um (delivered src dst rest (packed (datagram conn s))) route =
    map_option (\<lambda>(_, r). (0, r)) (route_cb_ops k env (conn_of src dst) dict route)"
  using receive_arrived [OF assms] by metis

definition env_wf :: "renv \<Rightarrow> bool" where
  "env_wf env \<longleftrightarrow> re_mem env \<and> nonce_wf (re_nonce0 env) \<and> tok_wf (re_fromId0 env) \<and> tok_wf (re_targetId0 env) \<and>
     slot_wf (re_addr0 env)"

lemma env_wfD:
  assumes "env_wf env"
  shows "re_mem env" "nonce_wf (re_nonce0 env)" "tok_wf (re_fromId0 env)" "tok_wf (re_targetId0 env)"
    "slot_wf (re_addr0 env)"
  using assms by (simp_all add: env_wf_def)

subsection \<open>Ping and its answer\<close>

lemma cb_ping_answers:
  assumes "route_wf route" "env_wf env" "has_prop route VDHT_PING_R"
    "vdht_dec_ping ctxt (re_nonce0 env) (re_fromId0 env) = Some (nonce, fromId)" "nonce_wf nonce" "tok_wf fromId"
  obtains s route' where "vroute_cb_ping env conn ctxt route = Some (0, route')" "route_wf route'"
    "vdht_enc_ping_rsp nonce (rt_myid route) (vn_nodei (rt_node route)) vdht_buf_len = Some (Some s)"
    "mq_msgs (rt_msger route') = mq_msgs (rt_msger route) @ [packed (datagram conn s)]"
proof -
  note e = env_wfD [OF assms(2)]
  obtain ret sp where k: "kick env fromId route = Some (ret, route\<lparr>rt_node_space := sp\<rparr>)" "ret = 0 \<or> ret = 1"
      "route_wf (route\<lparr>rt_node_space := sp\<rparr>)"
    using kick_ok [OF assms(1,6)] by metis
  let ?r = "route\<lparr>rt_node_space := sp\<rparr>"
  obtain ret2 r2 where r2: "(if ret = 0 then do {
         (nodei, route) \<leftarrow> fake_node env (vc_raddr conn) ?r;
         add_node env nodei VADD_BY_OTHER route
       } else Some (ret, ?r)) = Some (ret2, r2)" "0 \<le> ret2" "route_wf r2" "rt_props r2 = rt_props route"
      "rt_myid r2 = rt_myid route" "rt_node r2 = rt_node route" "rt_msger r2 = rt_msger route"
  proof (cases "ret = 0")
    case False
    then show thesis using that [of ret ?r] k by auto
  next
    case True
    obtain nodei m h where n: "fake_node env (vc_raddr conn) ?r = Some (nodei, ?r\<lparr>rt_token_magic := m, rt_mac_hash := h\<rparr>)"
        "node_news nodei" "ni_weight nodei = 0"
      using fake_node_ok [OF e(1)] by metis
    have w: "route_wf (?r\<lparr>rt_token_magic := m, rt_mac_hash := h\<rparr>)" using k(3) by (simp add: route_wf_def send_inv_def)
    have i: "int32_ok (ni_weight nodei + 1)" using n(3) by (simp add: int32_ok_def)
    obtain sp2 where a: "add_node env nodei VADD_BY_OTHER (?r\<lparr>rt_token_magic := m, rt_mac_hash := h\<rparr>) =
        Some (0, ?r\<lparr>rt_token_magic := m, rt_mac_hash := h, rt_node_space := sp2\<rparr>)"
        "route_wf (?r\<lparr>rt_token_magic := m, rt_mac_hash := h, rt_node_space := sp2\<rparr>)"
      using add_node_ok [OF w e(1) n(2) i disjI1 [OF refl]] by metis
    show thesis
      by (rule that [of 0 "?r\<lparr>rt_token_magic := m, rt_mac_hash := h, rt_node_space := sp2\<rparr>"])
        (use True n(1) a in simp_all)
  qed
  note w2 = route_wfD [OF r2(3)]
  obtain s where s: "vdht_enc_ping_rsp nonce (rt_myid r2) (vn_nodei (rt_node r2)) vdht_buf_len = Some (Some s)" "s \<noteq> []"
    using arrives_enc [OF ping_rsp_arrives [OF assms(5) w2(7) w2(6) nonce0_wf node_room_relax]] by blast
  have "vroute_dht_ping_rsp env conn nonce (vn_nodei (rt_node r2)) r2 = Some (0, queued conn s r2)"
    using reply_spec [OF e(1) w2(1) s(1,2)] assms(3) r2(4) by (simp add: vroute_dht_ping_rsp_def has_prop_def)
  then have "vroute_cb_ping env conn ctxt route = Some (0, queued conn s r2)"
    using assms(4) k(1) r2(1,2) by (simp add: vroute_cb_ping_def)
  then show thesis using that [of "queued conn s r2" s] s(1) r2(3-7) by simp
qed

text \<open>A ping answered by somebody unknown puts them into the routing table.\<close>

definition announces :: "'u vroute \<Rightarrow> bool" where
  "announces route \<longleftrightarrow> ni_id (vn_nodei (rt_node route)) = rt_myid route \<and> 1 \<le> ni_naddrs (vn_nodei (rt_node route)) \<and>
     ni_ver (vn_nodei (rt_node route)) \<noteq> vnodeVer_unknown \<and> int32_ok (ni_weight (vn_nodei (rt_node route)) + 1)"

lemma received_news:
  assumes "node_sendable n" "1 \<le> ni_naddrs n" "ni_ver n \<noteq> vnodeVer_unknown"
  shows "node_news (node_received n decl_vnode_relax)" "ni_list (node_received n decl_vnode_relax) = ni_list n"
    "ni_id (node_received n decl_vnode_relax) = ni_id n" "ni_weight (node_received n decl_vnode_relax) = ni_weight n"
    "ni_ver (node_received n decl_vnode_relax) = ni_ver n"
proof -
  have w: "node_wf n" using assms(1) by (simp add: node_sendable_def)
  have len: "length (ni_list n) = nat (ni_naddrs n)" using length_ni_list [OF w] .
  show l: "ni_list (node_received n decl_vnode_relax) = ni_list n"
    using len by (simp add: ni_list_def node_received_def)
  have "node_src n" using node_wf_src [OF w] .
  then show "node_news (node_received n decl_vnode_relax)"
    using assms(2,3) len unfolding node_news_def node_src_def l by (simp add: node_received_def)
qed (simp_all add: node_received_def)

text \<open>There is room for the node in our table, and it is not there yet.\<close>

definition can_join :: "'u vroute \<Rightarrow> vnodeInfo \<Rightarrow> bool" where
  "can_join route nodei \<longleftrightarrow> ni_id nodei \<noteq> rt_myid route \<and>
     ni_id nodei \<notin> set (map pid (bucket_list (rt_node_space route) (home (rt_node_space route) nodei))) \<and>
     int (length (bucket_list (rt_node_space route) (home (rt_node_space route) nodei))) < ns_bucket_sz (rt_node_space route)"

definition space_joined :: "node_space \<Rightarrow> vnodeInfo \<Rightarrow> node_space \<Rightarrow> bool" where
  "space_joined sp nodei sp' \<longleftrightarrow>
     (\<exists>p. (\<forall>i. bucket_list sp' i = (if i = home sp nodei then bucket_list sp i @ [p] else bucket_list sp i)) \<and>
        pid p = ni_id nodei \<and> ni_ver (vp_nodei p) = ni_ver nodei \<and>
        ni_list (vp_nodei p) = fold (addr_ins VSOCKADDR_TYPE) (ni_list nodei) [])"

definition joined :: "'u vroute \<Rightarrow> vnodeInfo \<Rightarrow> 'u vroute \<Rightarrow> bool" where
  "joined route nodei route' \<longleftrightarrow>
     route_wf route' \<and> space_joined (rt_node_space route) nodei (rt_node_space route')"

lemma add_node_joins:
  assumes "route_wf route" "re_mem env" "node_news nodei" "int32_ok (ni_weight nodei + 1)"
    "flag = VADD_BY_OTHER \<or> flag = VADD_BY_PING_RSP" "can_join route nodei"
  obtains route' where "add_node env nodei flag route = Some (0, route')" "joined route nodei route'"
proof -
  let ?sp = "rt_node_space route"
  note w = route_wfD [OF assms(1)]
  have "add_ok ?sp nodei flag"
    using assms(3-6) w(2,3) by (simp add: add_ok_def can_join_def)
  then obtain sp p where s: "vroute_node_space_add_node True (re_now env) ?sp nodei flag = Some (0, sp, weighed ?sp nodei)"
      "space_wf sp" "ns_myid sp = ns_myid ?sp"
      "\<forall>i. bucket_list sp i = (if i = home ?sp nodei then bucket_list ?sp i @ [p] else bucket_list ?sp i)"
      "pid p = ni_id nodei" "ni_ver (vp_nodei p) = ni_ver nodei"
      "ni_list (vp_nodei p) = fold (addr_ins VSOCKADDR_TYPE) (ni_list nodei) []"
    using add_node_new [of ?sp nodei flag "re_now env"] assms(6) unfolding can_join_def by blast
  have "route_wf (route\<lparr>rt_node_space := sp\<rparr>)" using route_wf_space [OF assms(1) s(2)] s(3) w(3) by simp
  then have "joined route nodei (route\<lparr>rt_node_space := sp\<rparr>)"
    unfolding joined_def space_joined_def using s(4-7) by (intro conjI exI [of _ p]) simp_all
  moreover have "add_node env nodei flag route = Some (0, route\<lparr>rt_node_space := sp\<rparr>)"
    using s(1) assms(2) by (simp add: add_node_def)
  ultimately show thesis using that by blast
qed

lemma cb_ping_rsp_joins:
  assumes "route_wf route" "env_wf env" "tckt_room (rt_tckt_space route)"
    "vdht_dec_ping_rsp ctxt (re_nonce0 env) decl_vnode_relax = Some (nonce, nodei)" "nonce_wf nonce"
    "nonce \<in># pending (rt_tckt_space route)"
    "node_news nodei" "int32_ok (ni_weight nodei + 1)" "can_join route nodei"
  obtains route' where "vroute_cb_ping_rsp env conn ctxt route = Some (0, route')" "joined route nodei route'"
    "pending (rt_tckt_space route') = pending (rt_tckt_space route) - {#nonce#}"
proof -
  note e = env_wfD [OF assms(2)]
  obtain ts where ts: "check_ticket env (QueryNonce nonce) route =
      Some (nonce \<in># pending (rt_tckt_space route), route\<lparr>rt_tckt_space := ts\<rparr>)"
      "pending ts = pending (rt_tckt_space route) - {#nonce#}" "route_wf (route\<lparr>rt_tckt_space := ts\<rparr>)"
    using check_nonce_ok [OF assms(1) e(1) assms(3,5)] by metis
  let ?r = "route\<lparr>rt_tckt_space := ts\<rparr>"
  have c: "can_join ?r nodei" using assms(9) by (simp add: can_join_def)
  obtain r' where r': "add_node env nodei VADD_BY_PING_RSP ?r = Some (0, r')" "joined ?r nodei r'"
    using add_node_joins [OF ts(3) e(1) assms(7,8) disjI2 [OF refl] c] by metis
  have t: "rt_tckt_space r' = ts"
    using r'(1) by (auto simp: add_node_def split: Option.bind_splits)
  have "joined route nodei r'" using r'(2) by (simp add: joined_def)
  moreover have "vroute_cb_ping_rsp env conn ctxt route = Some (0, r')"
    using assms(4,6) ts(1) r'(1) by (simp add: vroute_cb_ping_rsp_def)
  ultimately show thesis using that t ts(2) by blast
qed

text \<open>
  \<open>a\<close> pings \<open>b\<close>, \<open>b\<close> answers, and \<open>a\<close> has \<open>b\<close> in its table, with the addresses \<open>b\<close> announces.
\<close>

lemma ping_handshake:
  assumes "route_wf a" "route_wf b" "env_wf ea" "env_wf eb" "has_prop a VDHT_PING" "has_prop b VDHT_PING_R"
    "announces b" "can_join a (vn_nodei (rt_node b))"
    "vroute_dht_ping ea conn a = Some (0, a1)" "tckt_room (rt_tckt_space a1)"
  obtains m1 b1 m2 a2 where
    "mq_msgs (rt_msger a1) = mq_msgs (rt_msger a) @ [m1]"
    "host_receive eb um (delivered addr_a addr_b rest m1) b = Some (0, b1)"
    "mq_msgs (rt_msger b1) = mq_msgs (rt_msger b) @ [m2]" "ms_addr m2 = addr_a"
    "host_receive ea um' (delivered addr_b' addr_a' rest' m2) a1 = Some (0, a2)"
    "joined a (vn_nodei (rt_node b)) a2" "route_wf b1"
proof -
  note wa = route_wfD [OF assms(1)] and wb = route_wfD [OF assms(2)]
  note ea = env_wfD [OF assms(3)] and eb = env_wfD [OF assms(4)]
  let ?n = "nonce_now ea a" and ?nb = "vn_nodei (rt_node b)"
  have nn: "nonce_wf ?n" by simp
  let ?enc = "\<lambda>nonce. vdht_enc_ping nonce (rt_myid a) vdht_buf_len"
  have asked: "asked ea conn ?enc a a1"
    using dht_ping_asked [OF ea(1) wa(1) assms(5), of conn] assms(9) by auto
  then obtain s where s: "?enc ?n = Some (Some s)" "mq_msgs (rt_msger a1) = mq_msgs (rt_msger a) @ [packed (datagram conn s)]"
      "pending (rt_tckt_space a1) = add_mset ?n (pending (rt_tckt_space a))"
    unfolding asked_def by blast
  have wa1: "route_wf a1" using route_wf_rest [OF assms(1)] asked_keeps [OF asked] by blast
  have rs: "rest_same a a1" using asked_keeps [OF asked] by blast
  have arr: "arrives (Some (Some s)) VDHT_PING (\<lambda>d. vdht_dec_ping d (re_nonce0 eb) (re_fromId0 eb)) (?n, rt_myid a) rest"
    using ping_arrives [OF nn wa(7) eb(2,3), of rest] s(1) by simp
  obtain d1 where d1: "vdht_dec_ping d1 (re_nonce0 eb) (re_fromId0 eb) = Some (?n, rt_myid a)"
      "host_receive eb um (delivered addr_a addr_b rest (packed (datagram conn s))) b =
       map_option (\<lambda>(_, r). (0, r)) (route_cb_ops VDHT_PING eb (conn_of addr_a addr_b) d1 b)"
    using receive_ex [OF arr, where um = um and src = addr_a and dst = addr_b and conn = conn and route = b and env = eb] by auto
  obtain s2 b1 where b1: "vroute_cb_ping eb (conn_of addr_a addr_b) d1 b = Some (0, b1)" "route_wf b1"
      "vdht_enc_ping_rsp ?n (rt_myid b) ?nb vdht_buf_len = Some (Some s2)"
      "mq_msgs (rt_msger b1) = mq_msgs (rt_msger b) @ [packed (datagram (conn_of addr_a addr_b) s2)]"
    using cb_ping_answers [OF assms(2,4,6) d1(1) nonce_now_wf wa(7)] by metis
  let ?rcv = "node_received ?nb decl_vnode_relax"
  have arr2: "arrives (Some (Some s2)) VDHT_PING_R (\<lambda>d. vdht_dec_ping_rsp d (re_nonce0 ea) decl_vnode_relax) (?n, ?rcv) rest'"
    using ping_rsp_arrives [OF nn wb(7) wb(6) ea(2) node_room_relax, of rest'] b1(3) by simp
  obtain d2 where d2: "vdht_dec_ping_rsp d2 (re_nonce0 ea) decl_vnode_relax = Some (?n, ?rcv)"
      "host_receive ea um' (delivered addr_b' addr_a' rest' (packed (datagram (conn_of addr_a addr_b) s2))) a1 =
       map_option (\<lambda>(_, r). (0, r)) (route_cb_ops VDHT_PING_R ea (conn_of addr_b' addr_a') d2 a1)"
    using receive_ex [OF arr2, where um = um' and src = addr_b' and dst = addr_a' and conn = "conn_of addr_a addr_b" and route = a1 and env = ea] by auto
  have an: "1 \<le> ni_naddrs ?nb" "ni_ver ?nb \<noteq> vnodeVer_unknown" "int32_ok (ni_weight ?nb + 1)"
    using assms(7) by (simp_all add: announces_def)
  note rcv = received_news [OF wb(6) an(1,2)]
  have c: "can_join a1 ?rcv" using assms(8) rs by (simp add: can_join_def rest_same_def rcv)
  have i: "int32_ok (ni_weight ?rcv + 1)" using an(3) by (simp add: rcv)
  have pend: "?n \<in># pending (rt_tckt_space a1)" using s(3) by simp
  obtain a2 where a2: "vroute_cb_ping_rsp ea (conn_of addr_b' addr_a') d2 a1 = Some (0, a2)" "joined a1 ?rcv a2"
    using cb_ping_rsp_joins [OF wa1 assms(3,10) d2(1) nonce_now_wf pend rcv(1) i c] by metis
  have "home sp ?rcv = home sp ?nb" for sp by (simp add: rcv)
  moreover have rest_same_space: "rt_node_space a1 = rt_node_space a" using rs by (simp add: rest_same_def)
  ultimately have j: "joined a ?nb a2"
    using a2(2) rest_same_space unfolding joined_def space_joined_def by (simp only: rcv)
  have r1: "host_receive eb um (delivered addr_a addr_b rest (packed (datagram conn s))) b = Some (0, b1)"
    using d1(2) b1(1) by (simp add: route_cb_ops_def)
  have r2: "host_receive ea um' (delivered addr_b' addr_a' rest' (packed (datagram (conn_of addr_a addr_b) s2))) a1 = Some (0, a2)"
    using d2(2) a2(1) by (simp add: route_cb_ops_def)
  have "ms_addr (packed (datagram (conn_of addr_a addr_b) s2)) = addr_a" by (simp add: packed_def datagram_def)
  then show thesis using that s(2) r1 b1(4) r2 j b1(2) by blast
qed

text \<open>After one more query the ticket array still has a free slot.\<close>

definition room_after :: "'u vroute \<Rightarrow> bool" where
  "room_after route \<longleftrightarrow>
     va_used (ts_tickets (rt_tckt_space route)) + 1 < grown_capc (ts_tickets (rt_tckt_space route))"

lemma add_ticket_room:
  assumes "add_ticket env argv route = Some route'" "re_mem env" "tickets_wf (rt_tckt_space route)" "room_after route"
  shows "tckt_room (rt_tckt_space route')"
proof -
  let ?a = "ts_tickets (rt_tckt_space route)"
  have w: "va_wf ?a" using assms(3) by (simp add: tickets_wf_def tckt_wf_def)
  obtain a' where a': "varray_add_tail True ?a (Some (vticket_init (re_now env) argv)) = Some (0, a')" "va_wf a'"
      "va_list a' = va_list ?a @ [vticket_init (re_now env) argv]" "va_capc a' = grown_capc ?a"
    using varray_add_tail_spec [OF w] by metis
  have "length (va_list a') = Suc (length (va_list ?a))" using a'(3) by (simp del: va_list_length)
  then have "va_used a' = Suc (va_used ?a)" using a'(2) w by simp
  then show ?thesis
    using assms(1,2,4) a'(1,4)
    by (auto simp: add_ticket_def vroute_tckt_space_add_ticket_def tckt_room_def room_after_def)
qed

lemma dht_ping_room:
  assumes "vroute_dht_ping env conn route = Some (0, route')" "has_prop route VDHT_PING" "re_mem env"
    "send_inv route" "room_after route"
  shows "tckt_room (rt_tckt_space route')"
proof -
  have me: "tok_wf (rt_myid route)" using assms(4) by (simp add: send_inv_def)
  obtain s where s: "vdht_enc_ping (nonce_now env route) (rt_myid route) vdht_buf_len = Some (Some s)" "s \<noteq> []"
    using enc_ping [OF nonce_now_wf me] by blast
  have "add_ticket env (NonceCheck (nonce_now env route)) (queued conn s (reseeded env route)) = Some route'"
    using assms(1,2) query_spec [where enc = "\<lambda>nonce. vdht_enc_ping nonce (rt_myid route) vdht_buf_len", OF assms(3,4) s]
    by (auto simp: vroute_dht_ping_def split: Option.bind_splits)
  then show ?thesis
    by (rule add_ticket_room) (use assms(3-5) in \<open>simp_all add: room_after_def send_inv_def\<close>)
qed

corollary ping_exchange:
  assumes "route_wf a" "route_wf b" "env_wf ea" "env_wf eb" "has_prop a VDHT_PING" "has_prop b VDHT_PING_R"
    "announces b" "can_join a (vn_nodei (rt_node b))" "room_after a"
  shows "\<exists>a1 m1 b1 m2 a2. vroute_dht_ping ea conn a = Some (0, a1) \<and>
    mq_msgs (rt_msger a1) = mq_msgs (rt_msger a) @ [m1] \<and>
    host_receive eb um (delivered addr_a addr_b rest m1) b = Some (0, b1) \<and>
    mq_msgs (rt_msger b1) = mq_msgs (rt_msger b) @ [m2] \<and> ms_addr m2 = addr_a \<and>
    host_receive ea um' (delivered addr_b' addr_a' rest' m2) a1 = Some (0, a2) \<and>
    joined a (vn_nodei (rt_node b)) a2 \<and> route_wf b1"
proof -
  note ea = env_wfD [OF assms(3)] and wa = route_wfD [OF assms(1)]
  obtain a1 where a1: "vroute_dht_ping ea conn a = Some (0, a1)"
    using dht_ping_asked [OF ea(1) wa(1) assms(5)] by blast
  have r: "tckt_room (rt_tckt_space a1)" using dht_ping_room [OF a1 assms(5) ea(1) wa(1) assms(9)] .
  show ?thesis
    by (rule ping_handshake [OF assms(1-8) a1 r, of um addr_a addr_b rest um' addr_b' addr_a' rest'])
      (use a1 in blast)
qed

end
