(* ===== verification/AddrText.thy ===== *)
theory AddrText
  imports DhtMsg
begin

section \<open>Socket addresses as text (vmisc.c)\<close>

text \<open>
  \<open>vsockaddr_strlize\<close> and \<open>vsockaddr_unstrlize\<close> write and read \<open>a.b.c.d:port\<close>. The functions of the
  C library they use are defined first: \<open>strchr\<close>, \<open>inet_ntoa\<close> and \<open>inet_aton\<close>, the latter with its
  short forms and octal and hexadecimal parts. A text is a block of bytes; a scan that finds no NUL in
  the block reads past it and crashes.
\<close>

subsection \<open>The C library\<close>

definition strchr :: "bytes \<Rightarrow> byte \<Rightarrow> nat option option" where
  "strchr s c =
     (case find_idx (\<lambda>b. b = c \<or> b = 0) s of
        None \<Rightarrow> None
      | Some i \<Rightarrow> Some (if s ! i = c then Some i else None))"

text \<open>The text of the C string at \<open>s\<close>, and its length.\<close>

definition cstring :: "bytes \<Rightarrow> bytes option" where
  "cstring s = (if 0 \<in> set s then Some (until_nul s) else None)"

text \<open>\<open>strncpy(buf, s, n)\<close> into a zeroed buffer of \<open>sz\<close> bytes: \<open>n\<close> bytes are written.\<close>

definition strncpy0 :: "nat \<Rightarrow> bytes \<Rightarrow> nat \<Rightarrow> bytes option" where
  "strncpy0 sz s n = do {
     vassert (n \<le> sz);
     let t = until_nul (take n s);
     Some (t @ replicate (sz - length t) 0)
   }"

definition inet_ntoa :: "u32 \<Rightarrow> bytes" where
  "inet_ntoa a = (let b = le32 a in
     dec_nat (unat (b ! 0)) @ 46 # dec_nat (unat (b ! 1)) @ 46 # dec_nat (unat (b ! 2)) @ 46 # dec_nat (unat (b ! 3)))"

definition c_isxdigit :: "byte \<Rightarrow> bool" where
  "c_isxdigit b \<longleftrightarrow> c_isdigit b \<or> (97 \<le> b \<and> b \<le> 102) \<or> (65 \<le> b \<and> b \<le> 70)"

definition xdigit_val :: "byte \<Rightarrow> nat" where
  "xdigit_val b = (if c_isdigit b then unat b - 48 else if 97 \<le> b then unat b - 87 else unat b - 55)"

definition num_val :: "nat \<Rightarrow> bytes \<Rightarrow> nat" where
  "num_val base ds = foldl (\<lambda>v d. v * base + xdigit_val d) 0 ds"

text \<open>\<open>strtoul(s, &endp, 0)\<close> at a digit: the value and what is left.\<close>

definition strtoul0 :: "bytes \<Rightarrow> nat \<times> bytes" where
  "strtoul0 t =
     (if take 1 t = [48] \<and> (take 1 (drop 1 t) = [120] \<or> take 1 (drop 1 t) = [88]) \<and> c_isxdigit (hd (drop 2 t @ [0])) then
        (num_val 16 (takeWhile c_isxdigit (drop 2 t)), dropWhile c_isxdigit (drop 2 t))
      else if take 1 t = [48] then
        (num_val 8 (takeWhile (\<lambda>b. 48 \<le> b \<and> b \<le> 55) t), dropWhile (\<lambda>b. 48 \<le> b \<and> b \<le> 55) t)
      else (num_val 10 (takeWhile c_isdigit t), dropWhile c_isdigit t))"

text \<open>The parts of an address, \<open>n\<close> more of them at most; the text has no NUL.\<close>

fun inet_parts :: "nat \<Rightarrow> bytes \<Rightarrow> (nat list \<times> bytes) option" where
  "inet_parts 0 t = None"
| "inet_parts (Suc n) t =
     (if t = [] \<or> \<not> c_isdigit (hd t) then None
      else (let (v, rest) = strtoul0 t in
        if v > 0xffffffff then None
        else if rest \<noteq> [] \<and> hd rest = 46 then
          (if n = 0 \<or> v > 0xff then None
           else map_option (\<lambda>(vs, r). (v # vs, r)) (inet_parts n (tl rest)))
        else Some ([v], rest)))"

definition inet_aton :: "bytes \<Rightarrow> u32 option" where
  "inet_aton t =
     (case inet_parts (Suc 3) t of
        None \<Rightarrow> None
      | Some (vs, rest) \<Rightarrow>
          if rest \<noteq> [] \<and> \<not> c_isspace (hd rest) then None
          else if last vs \<ge> 2 ^ (8 * (5 - length vs)) then None
          else Some (of_le32 (map of_nat (butlast vs) @ replicate (5 - length vs) 0) OR htonl (of_nat (last vs))))"

subsection \<open>Operations\<close>

definition vsockaddr_convert :: "bytes \<Rightarrow> u16 \<Rightarrow> (int \<times> sockaddr_in) option" where
  "vsockaddr_convert host port = do {
     vassert (port > 0);
     let addr = sockaddr_zero\<lparr>sin_family := AF_INET, sin_port := htons port\<rparr>;
     t \<leftarrow> cstring host;
     Some (case inet_aton t of None \<Rightarrow> (-1, addr) | Some a \<Rightarrow> (0, addr\<lparr>sin_addr := a\<rparr>))
   }"

text \<open>\<open>None\<close> inside for \<open>-1\<close>; the host text has its NUL left out.\<close>

definition vsockaddr_unconvert :: "sockaddr_in \<Rightarrow> int \<Rightarrow> (bytes \<times> u16) option option" where
  "vsockaddr_unconvert addr len = do {
     vassert (len > 0);
     let hostname = inet_ntoa (sin_addr addr);
     Some (if int (length hostname) \<ge> len then None else Some (hostname, htons (sin_port addr)))
   }"

definition vsockaddr_strlize :: "sockaddr_in \<Rightarrow> int \<Rightarrow> bytes option option" where
  "vsockaddr_strlize addr len = do {
     vassert (len > 0);
     r \<leftarrow> vsockaddr_unconvert addr len;
     Some (case r of
        None \<Rightarrow> None
      | Some (buf, port) \<Rightarrow> map_option ((@) buf) (snprint (len - int (length buf)) (58 # dec_nat (unat port))))
   }"

text \<open>\<open>addr\<close> is what the caller's structure holds before; an error may come before or after it is set.
  The port goes through an \<open>int\<close> into 16 bits.\<close>

definition vsockaddr_unstrlize :: "bytes \<Rightarrow> sockaddr_in \<Rightarrow> (int \<times> sockaddr_in) option" where
  "vsockaddr_unstrlize ip_addr addr = do {
     s \<leftarrow> strchr ip_addr 58;
     case s of
       None \<Rightarrow> Some (-1, addr)
     | Some n \<Rightarrow> do {
         ip \<leftarrow> strncpy0 64 ip_addr n;
         (port, k, err) \<leftarrow> strtol (drop (n + 1) ip_addr);
         if err then Some (-1, addr)
         else do {
           (ret, addr) \<leftarrow> vsockaddr_convert ip (word_of_int port);
           Some (if ret < 0 then -1 else 0, addr)
         }
       }
   }"

section \<open>What these operations do\<close>

lemma strchr_first: "c \<notin> set t \<Longrightarrow> 0 \<notin> set t \<Longrightarrow> strchr (t @ c # r) c = Some (Some (length t))"
proof -
  assume "c \<notin> set t" "0 \<notin> set t"
  then have "find_idx (\<lambda>b. b = c \<or> b = 0) (t @ c # r) = Some (length t)" by (induction t) auto
  then show ?thesis by (simp add: strchr_def)
qed

lemma strchr_none: "c \<notin> set t \<Longrightarrow> 0 \<notin> set t \<Longrightarrow> c \<noteq> 0 \<Longrightarrow> strchr (t @ 0 # r) c = Some None"
proof -
  assume "c \<notin> set t" "0 \<notin> set t" "c \<noteq> 0"
  then have "find_idx (\<lambda>b. b = c \<or> b = 0) (t @ 0 # r) = Some (length t)" by (induction t) auto
  then show ?thesis using \<open>c \<noteq> 0\<close> by (simp add: strchr_def)
qed

lemma until_nul_append: "0 \<notin> set t \<Longrightarrow> until_nul (t @ 0 # r) = t"
  by (induction t) (auto simp: until_nul_def)

lemma cstring_spec: "0 \<notin> set t \<Longrightarrow> cstring (t @ 0 # r) = Some t"
  by (simp add: cstring_def until_nul_append)

lemma strncpy0_spec:
  assumes "0 \<notin> set t" "length t < sz"
  obtains r where "strncpy0 sz (t @ s) (length t) = Some (t @ 0 # r)"
  using that [of "replicate (sz - length t - 1) 0"] assms
  by (simp add: strncpy0_def replicate_Suc [symmetric] Suc_diff_Suc del: replicate_Suc)

subsection \<open>Numbers\<close>

lemma dec_nat_hd_nonzero: "0 < n \<Longrightarrow> hd (dec_nat n) \<noteq> 48"
proof (induction n rule: dec_nat.induct)
  case (1 n)
  show ?case
  proof (cases "n < 10")
    case True
    then have "unat (of_nat (48 + n) :: byte) \<noteq> unat (48 :: byte)" using 1(2) unat_digit [OF True] by simp
    then show ?thesis using True by (auto simp: dec_nat.simps [of n])
  next
    case False
    then show ?thesis using 1(1) by (simp add: dec_nat.simps [of n])
  qed
qed

lemma num_val_digits: "\<forall>d \<in> set ds. c_isdigit d \<Longrightarrow> num_val 10 ds = digits_val 0 ds"
proof -
  have "\<forall>d \<in> set ds. c_isdigit d \<Longrightarrow> foldl (\<lambda>v d. v * 10 + xdigit_val d) acc ds = digits_val acc ds" for acc
    by (induction ds arbitrary: acc) (auto simp: xdigit_val_def)
  then show "\<forall>d \<in> set ds. c_isdigit d \<Longrightarrow> num_val 10 ds = digits_val 0 ds" by (simp add: num_val_def)
qed

lemma digits_split:
  assumes "rest = [] \<or> \<not> c_isdigit (hd rest)"
  shows "takeWhile c_isdigit (dec_nat n @ rest) = dec_nat n" "dropWhile c_isdigit (dec_nat n @ rest) = rest"
  using assms dec_nat_digits [of _ n] by (cases rest; simp add: takeWhile_append2 dropWhile_append2)+

lemma strtoul0_dec:
  assumes "rest = [] \<or> hd rest = 46"
  shows "strtoul0 (dec_nat n @ rest) = (n, rest)"
proof -
  have nd: "rest = [] \<or> \<not> c_isdigit (hd rest)" using assms by (auto simp: c_isdigit_def)
  show ?thesis
  proof (cases "n = 0")
    case True
    have d: "dec_nat 0 = [48]" by (simp add: dec_nat.simps)
    show ?thesis using assms unfolding True d by (cases rest) (auto simp: strtoul0_def num_val_def xdigit_val_def c_isdigit_def)
  next
    case False
    obtain d ds where d: "dec_nat n = d # ds" using dec_nat_hd by blast
    then have "d \<noteq> 48" using dec_nat_hd_nonzero [of n] False by simp
    then have "strtoul0 (dec_nat n @ rest) =
        (num_val 10 (takeWhile c_isdigit (dec_nat n @ rest)), dropWhile c_isdigit (dec_nat n @ rest))"
      by (simp add: strtoul0_def d)
    then show ?thesis using digits_split [OF nd, of n] num_val_digits [of "dec_nat n"] dec_nat_digits [of _ n] by simp
  qed
qed

lemma inet_parts_last: "n < 256 \<Longrightarrow> inet_parts (Suc k) (dec_nat n) = Some ([n], [])"
proof -
  assume n: "n < 256"
  obtain d ds where d: "dec_nat n = d # ds" "c_isdigit d" using dec_nat_hd by blast
  have "strtoul0 (dec_nat n) = (n, [])" using strtoul0_dec [of "[]" n] by simp
  then show ?thesis using d n by simp
qed

lemma inet_parts_dot:
  assumes "n < 256" "0 < k"
  shows "inet_parts (Suc k) (dec_nat n @ 46 # t) = map_option (\<lambda>(vs, r). (n # vs, r)) (inet_parts k t)"
proof -
  obtain d ds where d: "dec_nat n = d # ds" "c_isdigit d" using dec_nat_hd by blast
  have s: "strtoul0 (dec_nat n @ 46 # t) = (n, 46 # t)" by (rule strtoul0_dec) simp
  then show ?thesis using d assms by simp
qed

subsection \<open>The round trip\<close>

lemma inet_bytes:
  "of_le32 [le32 a ! 0, le32 a ! 1, le32 a ! 2, 0] OR htonl (ucast (le32 a ! 3)) = a"
proof -
  have l: "le32 (ucast (b :: byte)) = [b, 0, 0, 0]" for b
    by (simp add: le32_def) (auto intro!: bit_word_eqI simp: bit_simps byte_bit_out)
  show ?thesis
    unfolding htonl_def l
    by (rule bit_word_eqI) (auto simp: bit_or_iff bit_of_le32 le32_def bit_simps)
qed

lemma inet_aton_ntoa: "inet_aton (inet_ntoa a) = Some a"
proof -
  have u: "unat (b :: byte) < 256" for b by (rule unat_byte)
  have b: "(of_nat (unat (x :: byte)) :: byte) = x" "(of_nat (unat x) :: u32) = ucast x" for x
    by simp_all
  have four: "(3 :: nat) = Suc (Suc (Suc 0))" by simp
  have "inet_parts (Suc 3) (inet_ntoa a) =
      Some ([unat (le32 a ! 0), unat (le32 a ! 1), unat (le32 a ! 2), unat (le32 a ! 3)], [])"
    unfolding inet_ntoa_def Let_def four
    by (simp add: inet_parts_dot inet_parts_last u del: inet_parts.simps le32_def)
  then show ?thesis using inet_bytes [of a] u [of "le32 a ! 3"] by (simp add: inet_aton_def b)
qed

lemma inet_ntoa_chars: "x \<in> set (inet_ntoa a) \<Longrightarrow> c_isdigit x \<or> x = 46"
  using dec_nat_digits by (auto simp: inet_ntoa_def Let_def)

lemma length_dec_byte: "length (dec_nat (unat (b :: byte))) \<le> 3"
  using dec_nat_3 [of "unat b"] unat_byte [of b] by simp

lemma length_inet_ntoa: "length (inet_ntoa a) \<le> 15"
  using length_dec_byte [of "le32 a ! 0"] length_dec_byte [of "le32 a ! 1"] length_dec_byte [of "le32 a ! 2"]
    length_dec_byte [of "le32 a ! 3"] by (simp add: inet_ntoa_def Let_def)

text \<open>The text of an address.\<close>

definition addr_text :: "sockaddr_in \<Rightarrow> bytes" where
  "addr_text a = inet_ntoa (sin_addr a) @ 58 # dec_nat (unat (htons (sin_port a)))"

lemma vsockaddr_strlize_spec:
  assumes "int (length (addr_text a)) < len"
  shows "vsockaddr_strlize a len = Some (Some (addr_text a))"
  using assms by (simp add: vsockaddr_strlize_def vsockaddr_unconvert_def addr_text_def snprint_def)

text \<open>An address that \<open>vsockaddr_convert\<close> can make.\<close>

definition inet_addr_wf :: "sockaddr_in \<Rightarrow> bool" where
  "inet_addr_wf a \<longleftrightarrow> sin_family a = AF_INET \<and> sin_port a \<noteq> 0 \<and> sin_zero a = replicate 8 0"

lemma htons_0: "htons p = 0 \<longleftrightarrow> p = 0"
proof -
  have "htons 0 = 0" by (simp add: htons_def le16_def of_le16_def)
  then show ?thesis by (metis htons_htons)
qed

lemma addr_text_ends:
  "c \<in> {0, 58} \<Longrightarrow> c \<notin> set (inet_ntoa a)" "c \<in> {0, 58} \<Longrightarrow> c \<notin> set (dec_nat n)"
  using inet_ntoa_chars [of c a] dec_nat_digits [of c n] by (auto simp: c_isdigit_def)

lemma convert_text:
  assumes "inet_addr_wf a"
  shows "vsockaddr_convert (inet_ntoa (sin_addr a) @ 0 # r) (htons (sin_port a)) = Some (0, a)"
proof -
  have p: "0 < htons (sin_port a)" using assms htons_0 [of "sin_port a"] by (metis inet_addr_wf_def word_neq_0_conv)
  have c: "cstring (inet_ntoa (sin_addr a) @ 0 # r) = Some (inet_ntoa (sin_addr a))"
    by (rule cstring_spec) (simp add: addr_text_ends)
  show ?thesis using assms p by (simp add: vsockaddr_convert_def c inet_aton_ntoa inet_addr_wf_def sockaddr_zero_def)
qed

lemma port_text: "word_of_int (int (unat (p :: u16))) = p" "unat (p :: u16) < 2 ^ 63"
  using unsigned_less [of p, where 'a = nat] by simp_all

text \<open>The port's number may be followed by anything that is no digit.\<close>

lemma vsockaddr_unstrlize_text:
  assumes "inet_addr_wf a" "\<not> c_isdigit c"
  shows "vsockaddr_unstrlize (addr_text a @ c # rest) a0 = Some (0, a)"
proof -
  let ?h = "inet_ntoa (sin_addr a)" and ?p = "htons (sin_port a)"
  have s: "strchr (?h @ 58 # dec_nat (unat ?p) @ c # rest) 58 = Some (Some (length ?h))"
    by (rule strchr_first) (simp_all add: addr_text_ends)
  obtain r where r: "strncpy0 64 (?h @ 58 # dec_nat (unat ?p) @ c # rest) (length ?h) = Some (?h @ 0 # r)"
    by (rule strncpy0_spec [of ?h 64]) (use length_inet_ntoa [of "sin_addr a"] in \<open>simp_all add: addr_text_ends\<close>)
  have t: "strtol (dec_nat (unat ?p) @ c # rest) = Some (int (unat ?p), length (dec_nat (unat ?p)), False)"
    by (rule strtol_dec_nat [OF assms(2) port_text(2)])
  show ?thesis
    using s r t convert_text [OF assms(1), of r] port_text(1) [of ?p]
    by (simp add: vsockaddr_unstrlize_def addr_text_def)
qed

end
