(* ===== verification/Persist.thy ===== *)
theory Persist
  imports Route AddrText
begin

section \<open>Keeping the routing table in a database (vroute_node.c, vroute.c)\<close>

text \<open>
  The routing table is written to the table \<open>dht_peer\<close> of an SQLite database at intervals and read
  back at the start. The database is outside the repository: its state is \<open>'d\<close>, \<open>exec row db\<close> runs the
  \<open>insert or replace\<close> statement made for \<open>row\<close> and returns SQLite's status, and reading all rows gives
  \<open>None\<close> if the database cannot be opened or queried. A row is the text of the ID, of the version and
  of the list of addresses, each without its NUL. The three local variables that the texts are parsed
  into are not initialised; \<open>junk\<close> is what is in them.
\<close>

record peer_row =
  pr_id :: bytes
  pr_ver :: bytes
  pr_addrs :: bytes

record load_junk =
  lj_id :: vtoken
  lj_ver :: vtoken
  lj_addr :: vsockaddr_in

subsection \<open>Loading\<close>

definition aux_vsockaddr_unstrlize :: "bytes \<Rightarrow> vsockaddr_in \<Rightarrow> (int \<times> vsockaddr_in) option" where
  "aux_vsockaddr_unstrlize buf addr = do {
     cur \<leftarrow> strchr buf 58;
     case cur of
       None \<Rightarrow> Some (-1, addr)
     | Some n \<Rightarrow> do {
         ip \<leftarrow> strncpy0 64 buf n;
         let cur = drop (n + 1) buf;
         (port, k, err) \<leftarrow> strtol cur;
         if err then Some (-1, addr)
         else do {
           (ret, a) \<leftarrow> vsockaddr_convert ip (word_of_int port);
           let addr = addr\<lparr>va_addr := a\<rparr>;
           if ret < 0 then Some (-1, addr)
           else do {
             end' \<leftarrow> strchr (drop k cur) 58;
             case end' of
               None \<Rightarrow> Some (-1, addr)
             | Some m \<Rightarrow> do {
                 (ty, k2, err) \<leftarrow> strtol (drop (k + m + 1) cur);
                 if err then Some (-1, addr)
                 else Some (0, addr\<lparr>va_type := word_of_int ty\<rparr>)
               }
           }
         }
       }
   }"

text \<open>The loop over the comma-separated addresses; each round moves past a comma, so the length of the
  text bounds the rounds.\<close>

fun load_addrs :: "nat \<Rightarrow> bool \<Rightarrow> bytes \<Rightarrow> vsockaddr_in \<Rightarrow> vnodeInfo \<Rightarrow> vnodeInfo option" where
  "load_addrs 0 mem saddrs vaddr nodei = None"
| "load_addrs (Suc f) mem saddrs vaddr nodei = do {
     pos \<leftarrow> strchr saddrs 44;
     case pos of
       None \<Rightarrow> do {
         (ret, vaddr) \<leftarrow> aux_vsockaddr_unstrlize saddrs vaddr;
         (ret, nodei) \<leftarrow> vnodeInfo_add_addr mem nodei (va_addr vaddr) (va_type vaddr);
         Some nodei
       }
     | Some n \<Rightarrow> do {
         saddr \<leftarrow> strncpy0 64 saddrs n;
         (ret, vaddr) \<leftarrow> aux_vsockaddr_unstrlize saddr vaddr;
         (ret, nodei) \<leftarrow> vnodeInfo_add_addr mem nodei (va_addr vaddr) (va_type vaddr);
         load_addrs f mem (drop (n + 1) saddrs) vaddr nodei
       }
   }"

definition aux_space_load_nodei_cb ::
  "bool \<Rightarrow> int \<Rightarrow> load_junk \<Rightarrow> peer_row \<Rightarrow> node_space \<Rightarrow> (int \<times> node_space) option" where
  "aux_space_load_nodei_cb mem now junk row space = do {
     (ret, nid) \<leftarrow> vtoken_unstrlize (pr_id row @ [0]) (lj_id junk);
     (ret, ver) \<leftarrow> vnodeVer_unstrlize (pr_ver row @ [0]) (lj_ver junk);
     nodei \<leftarrow> vnodeInfo_relax_init decl_vnode_relax nid ver 0;
     nodei \<leftarrow> load_addrs (length (pr_addrs row) + 1) mem (pr_addrs row @ [0]) (lj_addr junk) nodei;
     (ret, space, nodei) \<leftarrow> vroute_node_space_add_node mem now space nodei VADD_BY_OTHER;
     Some (if ret < 0 then -1 else 0, space)
   }"

text \<open>\<open>sqlite3_exec\<close> calls the callback for each row until one returns something other than 0, and
  then fails itself.\<close>

fun load_rows :: "bool \<Rightarrow> int \<Rightarrow> load_junk \<Rightarrow> peer_row list \<Rightarrow> node_space \<Rightarrow> (int \<times> node_space) option" where
  "load_rows mem now junk [] space = Some (0, space)"
| "load_rows mem now junk (row # rows) space = do {
     (ret, space) \<leftarrow> aux_space_load_nodei_cb mem now junk row space;
     if ret \<noteq> 0 then Some (-1, space) else load_rows mem now junk rows space
   }"

definition vroute_node_space_load ::
  "bool \<Rightarrow> int \<Rightarrow> load_junk \<Rightarrow> peer_row list option \<Rightarrow> node_space \<Rightarrow> (int \<times> node_space) option" where
  "vroute_node_space_load mem now junk select space =
     (case select of None \<Rightarrow> Some (-1, space) | Some rows \<Rightarrow> load_rows mem now junk rows space)"

subsection \<open>Storing\<close>

text \<open>The text of a typed address, in a buffer of 64 bytes, which is enough for \<open>vsockaddr_strlize\<close>.\<close>

definition slot_text :: "vsockaddr_in \<Rightarrow> bytes option" where
  "slot_text v = do {
     r \<leftarrow> vsockaddr_strlize (va_addr v) 64;
     a \<leftarrow> r;
     let t = a @ 58 # dec_nat (unat (va_type v));
     vassert (length t < 64);
     Some t
   }"

fun store_addrs :: "nat \<Rightarrow> nat \<Rightarrow> vsockaddr_in list \<Rightarrow> bytes \<Rightarrow> bytes option" where
  "store_addrs 0 i addrs t = Some t"
| "store_addrs (Suc n) i addrs t = do {
     v \<leftarrow> rd addrs i;
     s \<leftarrow> slot_text v;
     let t = t @ 44 # s;
     vassert (length t < 512);
     store_addrs n (i + 1) addrs t
   }"

definition aux_space_store_nodei_cb ::
  "(peer_row \<Rightarrow> 'd \<Rightarrow> int \<times> 'd) \<Rightarrow> node_space \<Rightarrow> vpeer \<Rightarrow> 'd \<Rightarrow> (int \<times> vpeer \<times> 'd) option" where
  "aux_space_store_nodei_cb exec space peer db =
     (let nodei = vp_nodei peer in
      if vnodeInfo_is_fake nodei then Some (0, peer, db)
      else if vp_next_tmo peer \<ge> ns_max_next_tmo_unreachable space then Some (0, peer, db)
      else do {
        nid \<leftarrow> vtoken_strlize (ni_id nodei) 64;
        nid \<leftarrow> nid;
        ver \<leftarrow> vnodeVer_strlize (ni_ver nodei) 64;
        ver \<leftarrow> ver;
        v \<leftarrow> rd (ni_addrs nodei) 0;
        s \<leftarrow> slot_text v;
        addrs \<leftarrow> store_addrs (nat (ni_naddrs nodei) - 1) 1 (ni_addrs nodei) s;
        let (ret, db) = exec \<lparr>pr_id = nid, pr_ver = ver, pr_addrs = addrs\<rparr> db;
        Some (if ret \<noteq> 0 then -1 else 0, peer, db)
      })"

definition vroute_node_space_store ::
  "bool \<Rightarrow> (peer_row \<Rightarrow> 'd \<Rightarrow> int \<times> 'd) \<Rightarrow> node_space \<Rightarrow> 'd \<Rightarrow> (int \<times> node_space \<times> 'd) option" where
  "vroute_node_space_store opens exec space db =
     (if \<not> opens then Some (-1, space, db)
      else do {
        (space', db) \<leftarrow> buckets_iterate (aux_space_store_nodei_cb exec space) NBUCKETS 0 space db;
        Some (0, space', db)
      })"

subsection \<open>The route's operations\<close>

definition vroute_load ::
  "renv \<Rightarrow> load_junk \<Rightarrow> peer_row list option \<Rightarrow> 'u vroute \<Rightarrow> (int \<times> 'u vroute) option" where
  "vroute_load env junk select route = do {
     (ret, space) \<leftarrow> vroute_node_space_load (re_mem env) (re_now env) junk select (rt_node_space route);
     Some (if ret < 0 then -1 else 0, route\<lparr>rt_node_space := space\<rparr>)
   }"

definition vroute_store ::
  "bool \<Rightarrow> (peer_row \<Rightarrow> 'd \<Rightarrow> int \<times> 'd) \<Rightarrow> 'u vroute \<Rightarrow> 'd \<Rightarrow> (int \<times> 'u vroute \<times> 'd) option" where
  "vroute_store opens exec route db = do {
     (ret, space, db) \<leftarrow> vroute_node_space_store opens exec (rt_node_space route) db;
     Some (if ret < 0 then -1 else 0, route\<lparr>rt_node_space := space\<rparr>, db)
   }"

section \<open>What these operations do\<close>

subsection \<open>Texts of addresses\<close>

lemma length_dec_nat_le: "0 < k \<Longrightarrow> n < 10 ^ k \<Longrightarrow> length (dec_nat n) \<le> k"
proof (induction k arbitrary: n)
  case (Suc k)
  show ?case
  proof (cases "n < 10")
    case False
    then have "n div 10 < 10 ^ k" "0 < k" using Suc.prems(2) by (auto intro: gr0I)
    then have "length (dec_nat (n div 10)) \<le> k" using Suc.IH by blast
    then show ?thesis by (subst dec_nat.simps) simp
  qed simp
qed simp

definition slot_str :: "vsockaddr_in \<Rightarrow> bytes" where
  "slot_str v = addr_text (va_addr v) @ 58 # dec_nat (unat (va_type v))"

lemma length_addr_text: "length (addr_text a) \<le> 21"
proof -
  have "unat (htons (sin_port a)) < 10 ^ 5" using unsigned_less [of "htons (sin_port a)", where 'a = nat] by simp
  then have "length (dec_nat (unat (htons (sin_port a)))) \<le> 5" by (intro length_dec_nat_le) simp_all
  then show ?thesis using length_inet_ntoa [of "sin_addr a"] by (simp add: addr_text_def)
qed

lemma length_slot_str: "length (slot_str v) \<le> 32"
proof -
  have "unat (va_type v) < 10 ^ 10" using unsigned_less [of "va_type v", where 'a = nat] by simp
  then have "length (dec_nat (unat (va_type v))) \<le> 10" by (intro length_dec_nat_le) simp_all
  then show ?thesis using length_addr_text [of "va_addr v"] by (simp add: slot_str_def)
qed

lemma slot_text_spec: "slot_text v = Some (slot_str v)"
  using length_slot_str [of v] length_addr_text [of "va_addr v"]
  by (simp add: slot_text_def vsockaddr_strlize_spec slot_str_def)

lemma slot_str_ends: "c \<in> {0, 44} \<Longrightarrow> c \<notin> set (slot_str v)"
  using inet_ntoa_chars [of c "sin_addr (va_addr v)"] dec_nat_digits [of c]
  by (auto simp: slot_str_def addr_text_def c_isdigit_def)

lemma unstrlize_slot:
  assumes "inet_addr_wf (va_addr v)"
  shows "aux_vsockaddr_unstrlize (slot_str v @ 0 # r) v0 = Some (0, v)"
proof -
  let ?h = "inet_ntoa (sin_addr (va_addr v))" and ?p = "htons (sin_port (va_addr v))" and ?t = "va_type v"
  have tx: "slot_str v @ 0 # r = ?h @ 58 # dec_nat (unat ?p) @ 58 # dec_nat (unat ?t) @ 0 # r"
    by (simp add: slot_str_def addr_text_def)
  have s: "strchr (slot_str v @ 0 # r) 58 = Some (Some (length ?h))"
    unfolding tx by (rule strchr_first) (simp_all add: addr_text_ends)
  obtain z where z: "strncpy0 64 (slot_str v @ 0 # r) (length ?h) = Some (?h @ 0 # z)"
    unfolding tx by (rule strncpy0_spec [of ?h 64])
      (use length_inet_ntoa [of "sin_addr (va_addr v)"] in \<open>simp_all add: addr_text_ends\<close>)
  have d: "\<not> c_isdigit 58" "\<not> c_isdigit 0" by (simp_all add: c_isdigit_def)
  have t1: "strtol (dec_nat (unat ?p) @ 58 # dec_nat (unat ?t) @ 0 # r) =
      Some (int (unat ?p), length (dec_nat (unat ?p)), False)"
    by (rule strtol_dec_nat [OF d(1) port_text(2)])
  have u: "unat ?t < 2 ^ 63" using unsigned_less [of ?t, where 'a = nat] by simp
  have t2: "strtol (dec_nat (unat ?t) @ 0 # r) = Some (int (unat ?t), length (dec_nat (unat ?t)), False)"
    by (rule strtol_dec_nat [OF d(2) u])
  have c: "strchr (58 # dec_nat (unat ?t) @ 0 # r) 58 = Some (Some 0)"
    using strchr_first [of 58 "[]"] by simp
  have drops: "drop (length ?h + 1) (slot_str v @ 0 # r) = dec_nat (unat ?p) @ 58 # dec_nat (unat ?t) @ 0 # r"
    unfolding tx by simp
  have w: "word_of_int (int (unat ?t)) = ?t" by simp
  show ?thesis
    unfolding aux_vsockaddr_unstrlize_def s
    using z t1 t2 c convert_text [OF assms, of z] port_text(1) [of ?p] w drops
    by (cases v) (simp add: drops)
qed

definition addrs_str :: "vsockaddr_in list \<Rightarrow> bytes" where
  "addrs_str vs = (case vs of [] \<Rightarrow> [] | v # vs \<Rightarrow> slot_str v @ concat (map (\<lambda>v. 44 # slot_str v) vs))"

lemma addrs_str_Cons2: "addrs_str (v # w # vs) = slot_str v @ 44 # addrs_str (w # vs)"
  by (simp add: addrs_str_def)

lemma length_le_addrs_str: "length vs \<le> length (addrs_str vs) + 1"
proof -
  have "length ws \<le> length (concat (map (\<lambda>v. 44 # slot_str v) ws))" for ws by (induction ws) auto
  then show ?thesis by (cases vs) (auto simp: addrs_str_def intro: trans_le_add2)
qed

lemma load_addrs_spec:
  assumes "nih.add_all vs n = Some (0, n')" "vs \<noteq> []" "\<forall>v \<in> set vs. inet_addr_wf (va_addr v)" "length vs \<le> f"
  shows "load_addrs f True (addrs_str vs @ [0]) v0 n = Some n'"
  using assms
proof (induction vs arbitrary: f n v0)
  case (Cons v vs)
  obtain f' where f: "f = Suc f'" using Cons.prems(4) by (cases f) auto
  obtain r n1 where n1: "vnodeInfo_add_addr True n (va_addr v) (va_type v) = Some (r, n1)" "0 \<le> r"
      "nih.add_all vs n1 = Some (0, n')"
    using Cons.prems(1) by (auto split: Option.bind_splits if_splits)
  have wf: "inet_addr_wf (va_addr v)" using Cons.prems(3) by simp
  show ?case
  proof (cases vs)
    case Nil
    have "strchr (slot_str v @ 0 # []) 44 = Some None" by (rule strchr_none) (simp_all add: slot_str_ends)
    then show ?thesis using n1 unstrlize_slot [OF wf, of "[]" v0] Nil by (simp add: f addrs_str_def)
  next
    case (Cons w ws)
    have t: "addrs_str (v # vs) @ [0] = slot_str v @ 44 # addrs_str vs @ [0]" by (simp add: Cons addrs_str_Cons2)
    have s: "strchr (addrs_str (v # vs) @ [0]) 44 = Some (Some (length (slot_str v)))"
      unfolding t by (rule strchr_first) (simp_all add: slot_str_ends)
    obtain z where z: "strncpy0 64 (addrs_str (v # vs) @ [0]) (length (slot_str v)) = Some (slot_str v @ 0 # z)"
      unfolding t by (rule strncpy0_spec [of "slot_str v" 64])
        (use length_slot_str [of v] in \<open>simp_all add: slot_str_ends\<close>)
    have d: "drop (length (slot_str v) + 1) (addrs_str (v # vs) @ [0]) = addrs_str vs @ [0]" unfolding t by simp
    have "load_addrs f' True (addrs_str vs @ [0]) v n1 = Some n'"
      using Cons.IH [OF n1(3)] Cons Cons.prems f by simp
    then show ?thesis
      unfolding f load_addrs.simps s using z n1 unstrlize_slot [OF wf, of z v0] d by simp
  qed
qed simp

subsection \<open>Rows\<close>

text \<open>A peer is stored unless its version is unknown or it was silent for too long.\<close>

definition storable :: "node_space \<Rightarrow> vpeer \<Rightarrow> bool" where
  "storable space p \<longleftrightarrow> ni_ver (vp_nodei p) \<noteq> vnodeVer_unknown \<and> vp_next_tmo p < ns_max_next_tmo_unreachable space"

definition row_of :: "vnodeInfo \<Rightarrow> peer_row" where
  "row_of n = \<lparr>pr_id = hex_of (ni_id n), pr_ver = ver_text (take 5 (ni_ver n)), pr_addrs = addrs_str (ni_list n)\<rparr>"

lemma store_addrs_spec:
  assumes "i + n \<le> length addrs" "length t + 33 * n < 512"
  shows "store_addrs n i addrs t = Some (t @ concat (map (\<lambda>v. 44 # slot_str v) (take n (drop i addrs))))"
  using assms
proof (induction n arbitrary: i t)
  case (Suc n)
  have d: "take (Suc n) (drop i addrs) = addrs ! i # take n (drop (i + 1) addrs)"
    using Suc.prems(1) by (simp add: Cons_nth_drop_Suc [symmetric])
  show ?case
    using Suc length_slot_str [of "addrs ! i"] unfolding d by (simp add: slot_text_spec)
qed simp

lemma ver_text_short:
  assumes "length ds \<le> 5"
  shows "length (ver_text ds) < 64"
proof -
  have l: "length (dec_nat (unat (d :: byte))) \<le> 3" for d by (rule length_dec_byte)
  have "length (ver_tail_text es) \<le> 4 * length es" for es
  proof (induction es)
    case (Cons e es)
    then show ?case using l [of e] by simp
  qed simp
  from this [of "tl ds"] show ?thesis using l [of "hd ds"] assms by (simp add: ver_text_def)
qed

lemma ni_list_rest:
  assumes "node_wf n" "1 \<le> ni_naddrs n"
  shows "ni_list n = ni_addrs n ! 0 # take (nat (ni_naddrs n) - 1) (drop 1 (ni_addrs n))" "nat (ni_naddrs n) \<le> 12"
    "nat (ni_naddrs n) \<le> length (ni_addrs n)"
proof -
  show l: "nat (ni_naddrs n) \<le> length (ni_addrs n)" "nat (ni_naddrs n) \<le> 12"
    using assms by (auto simp: node_wf_def split: if_splits)
  obtain k where k: "nat (ni_naddrs n) = Suc k" using assms(2) by (cases "nat (ni_naddrs n)") auto
  show "ni_list n = ni_addrs n ! 0 # take (nat (ni_naddrs n) - 1) (drop 1 (ni_addrs n))"
    using l k by (cases "ni_addrs n") (auto simp: ni_list_def)
qed

lemma store_nodei_spec:
  assumes "node_wf (vp_nodei p)" "1 \<le> ni_naddrs (vp_nodei p)"
  shows "aux_space_store_nodei_cb exec space p db =
    (if storable space p then Some (if fst (exec (row_of (vp_nodei p)) db) \<noteq> 0 then -1 else 0, p, snd (exec (row_of (vp_nodei p)) db))
     else Some (0, p, db))"
proof -
  let ?n = "vp_nodei p"
  note r = ni_list_rest [OF assms]
  have tok: "tok_wf (ni_id ?n)" "tok_wf (ni_ver ?n)" using assms(1) by (simp_all add: node_wf_def)
  have v: "vnodeVer_strlize (ni_ver ?n) 64 = Some (Some (ver_text (take 5 (ni_ver ?n))))"
    using ver_text_short [of "take 5 (ni_ver ?n)"] by (intro vnodeVer_strlize_spec [OF tok(2)]) simp
  have "0 < length (ni_addrs ?n)" using r(3) assms(2) by (cases "ni_addrs ?n") simp_all
  moreover have "1 + (nat (ni_naddrs ?n) - 1) \<le> length (ni_addrs ?n)" using r(3) assms(2) by simp
  then have "store_addrs (nat (ni_naddrs ?n) - 1) 1 (ni_addrs ?n) (slot_str (ni_addrs ?n ! 0)) = Some (addrs_str (ni_list ?n))"
    using store_addrs_spec [of 1 "nat (ni_naddrs ?n) - 1" "ni_addrs ?n" "slot_str (ni_addrs ?n ! 0)"] r(2)
      length_slot_str [of "ni_addrs ?n ! 0"] unfolding r(1) addrs_str_def by simp
  ultimately show ?thesis
    using v vtoken_strlize_spec [OF tok(1), of 64]
    by (simp add: aux_space_store_nodei_cb_def Let_def storable_def row_of_def vnodeInfo_is_fake_iff tok slot_text_spec
        split: prod.split)
qed

text \<open>What loading a row makes: the bytes of the version after the fifth stay as the local variable had them.\<close>

definition reload :: "load_junk \<Rightarrow> vnodeInfo \<Rightarrow> vtoken" where
  "reload junk n = take 5 (ni_ver n) @ drop 5 (lj_ver junk)"

definition junk_wf :: "load_junk \<Rightarrow> bool" where
  "junk_wf junk \<longleftrightarrow> tok_wf (lj_id junk) \<and> tok_wf (lj_ver junk)"

definition row_wf :: "vnodeInfo \<Rightarrow> bool" where
  "row_wf n \<longleftrightarrow> node_wf n \<and> 1 \<le> ni_naddrs n \<and> take 5 (ni_ver n) \<noteq> replicate 5 0 \<and>
     (\<forall>v \<in> set (ni_list n). inet_addr_wf (va_addr v))"

lemma add_node_bucket_sz:
  "vroute_node_space_add_node mem now space nodei flag = Some (r, space', n') \<Longrightarrow> ns_bucket_sz space' = ns_bucket_sz space"
proof -
  have p: "add_node_place mem now space idx bk nodei flag fw = Some (r, space') \<Longrightarrow> ns_bucket_sz space' = ns_bucket_sz space"
    for idx bk nodei fw
    by (auto simp: add_node_place_def Let_def split: if_splits option.splits Option.bind_splits)
  show "vroute_node_space_add_node mem now space nodei flag = Some (r, space', n') \<Longrightarrow> ns_bucket_sz space' = ns_bucket_sz space"
    using p unfolding vroute_node_space_add_node_def Let_def by (auto split: if_splits Option.bind_splits simp: run_simps)
qed

lemma load_nodei_spec:
  assumes "row_wf n" "junk_wf junk" "space_wf space" "ni_id n \<noteq> ns_myid space"
    "ni_id n \<notin> set (map pid (bucket_list space (home space n)))"
    "int (length (bucket_list space (home space n))) < ns_bucket_sz space"
  obtains space' p where "aux_space_load_nodei_cb True now junk (row_of n) space = Some (0, space')" "space_wf space'"
    "ns_myid space' = ns_myid space" "ns_bucket_sz space' = ns_bucket_sz space"
    "\<forall>i. bucket_list space' i = (if i = home space n then bucket_list space i @ [p] else bucket_list space i)"
    "pid p = ni_id n" "ni_ver (vp_nodei p) = reload junk n"
    "ni_list (vp_nodei p) = fold (addr_ins VSOCKADDR_TYPE) (fold (addr_ins VSOCKADDR_TYPE) (ni_list n) []) []"
proof -
  have n: "node_wf n" "1 \<le> ni_naddrs n" "\<forall>v \<in> set (ni_list n). inet_addr_wf (va_addr v)" "take 5 (ni_ver n) \<noteq> replicate 5 0"
    and j: "tok_wf (lj_id junk)" "tok_wf (lj_ver junk)"
    using assms(1,2) by (simp_all add: row_wf_def junk_wf_def)
  have tok: "tok_wf (ni_id n)" "tok_wf (ni_ver n)" using n(1) by (simp_all add: node_wf_def)
  have len: "length (ni_ver n) = 20" "length (lj_ver junk) = 20" using tok(2) j(2) by (simp_all add: tok_wf_def VTOKEN_LEN_def)
  let ?ver = "reload junk n"
  have vt: "tok_wf ?ver" using len by (simp add: reload_def tok_wf_def VTOKEN_LEN_def)
  have "take 5 ?ver = take 5 (ni_ver n)" using len by (simp add: reload_def)
  then have vn: "?ver \<noteq> vnodeVer_unknown" using n(4) by (auto simp: vnodeVer_unknown_def VTOKEN_LEN_def)
  have v: "vnodeVer_unstrlize (ver_text (take 5 (ni_ver n)) @ [0]) (lj_ver junk) = Some (0, ?ver)"
    using vnodeVer_unstrlize_spec [OF _ j(2), of "take 5 (ni_ver n)" "[]"] len
    by (cases "ni_ver n") (simp_all add: reload_def VTOKEN_LEN_def)
  obtain n1 where n1: "vnodeInfo_relax_init decl_vnode_relax (ni_id n) ?ver 0 = Some n1" "node_wf n1" "ni_list n1 = []"
      "ni_id n1 = ni_id n" "ni_ver n1 = ?ver" "ni_weight n1 = 0"
    using tok(1) vt by (auto simp: vnodeInfo_relax_init_def decl_vnode_relax_def node_wf_def ni_list_def addrs_distinct_def
        VNODEINFO_MAX_ADDRS_def)
  note r = ni_list_rest [OF n(1,2)]
  have ll: "length (ni_list n) = nat (ni_naddrs n)" using length_ni_list [OF n(1)] .
  obtain n2 where n2: "nih.add_all (ni_list n) n1 = Some (0, n2)" "node_wf n2" "ni_same n1 n2"
      "ni_list n2 = fold (addr_ins VSOCKADDR_TYPE) (ni_list n) []"
    using nih.add_all_spec [OF n1(2), of "ni_list n"] n1(3) ll r(2) n(1)
    by (auto simp: node_wf_def addrs_distinct_def)
  have la: "load_addrs (length (addrs_str (ni_list n)) + 1) True (addrs_str (ni_list n) @ [0]) (lj_addr junk) n1 = Some n2"
    using length_le_addrs_str [of "ni_list n"] by (intro load_addrs_spec [OF n2(1) _ n(3)]) (simp_all add: r(1))
  have f: "ni_id n2 = ni_id n" "ni_ver n2 = ?ver" "ni_weight n2 = 0" using n2(3) n1 by (auto simp: ni_same_def)
  have l2: "length (ni_list n2) = length (ni_list n)" unfolding n2(4) by (simp add: length_fold_addr_ins)
  then have "1 \<le> ni_naddrs n2" using length_ni_list [OF n2(2)] ll n(2) by simp
  then have ok: "add_ok space n2 VADD_BY_OTHER"
    using assms(3,4) f vn node_wf_src [OF n2(2)] by (simp add: add_ok_def node_news_def int32_ok_def)
  have h: "home space n2 = home space n" by (simp add: f)
  obtain space' p where s: "vroute_node_space_add_node True now space n2 VADD_BY_OTHER = Some (0, space', weighed space n2)"
      "space_wf space'" "ns_myid space' = ns_myid space"
      "\<forall>i. bucket_list space' i = (if i = home space n then bucket_list space i @ [p] else bucket_list space i)"
      "pid p = ni_id n" "ni_ver (vp_nodei p) = ?ver"
      "ni_list (vp_nodei p) = fold (addr_ins VSOCKADDR_TYPE) (ni_list n2) []"
    using add_node_new [OF ok, of now] assms(5,6) unfolding f h by blast
  have id: "vtoken_unstrlize (hex_of (ni_id n) @ [0]) (lj_id junk) = Some (0, ni_id n)"
    by (rule vtoken_hex_roundtrip [OF tok(1) j(1)])
  have "aux_space_load_nodei_cb True now junk (row_of n) space = Some (0, space')"
    using id v n1(1) la s(1) by (simp add: aux_space_load_nodei_cb_def row_of_def del: load_addrs.simps)
  moreover have "ns_bucket_sz space' = ns_bucket_sz space" using s(1) add_node_bucket_sz by blast
  ultimately show thesis using that s(2-7) n2(4) by simp
qed

subsection \<open>The whole table\<close>

text \<open>What loading restores of a peer.\<close>

definition brief :: "vpeer \<Rightarrow> vtoken \<times> vtoken \<times> vsockaddr_in list" where
  "brief p = (pid p, ni_ver (vp_nodei p), ni_list (vp_nodei p))"

definition restored :: "load_junk \<Rightarrow> vnodeInfo \<Rightarrow> vtoken \<times> vtoken \<times> vsockaddr_in list" where
  "restored junk n = (ni_id n, reload junk n,
     fold (addr_ins VSOCKADDR_TYPE) (fold (addr_ins VSOCKADDR_TYPE) (ni_list n) []) [])"

text \<open>The nodes can all be added: their IDs are new, and the buckets have room for them.\<close>

definition loadable :: "node_space \<Rightarrow> vnodeInfo list \<Rightarrow> bool" where
  "loadable space ns \<longleftrightarrow> space_wf space \<and> (\<forall>n \<in> set ns. row_wf n \<and> ni_id n \<noteq> ns_myid space) \<and> distinct (map ni_id ns) \<and>
     (\<forall>i < NBUCKETS. set (map pid (bucket_list space i)) \<inter> ni_id ` set ns = {} \<and>
        int (length (bucket_list space i) + length (filter (\<lambda>n. home space n = i) ns)) \<le> ns_bucket_sz space)"

lemma load_rows_spec:
  assumes "loadable space ns" "junk_wf junk"
  shows "\<exists>space'. load_rows True now junk (map row_of ns) space = Some (0, space') \<and> space_wf space' \<and>
    ns_myid space' = ns_myid space \<and>
    (\<forall>i < NBUCKETS. map brief (bucket_list space' i) =
       map brief (bucket_list space i) @ map (restored junk) (filter (\<lambda>n. home space n = i) ns))"
  using assms(1)
proof (induction ns arbitrary: space)
  case Nil
  then show ?case by (simp add: loadable_def)
next
  case (Cons n ns)
  have l: "row_wf n" "space_wf space" "ni_id n \<noteq> ns_myid space"
      "ni_id n \<notin> set (map pid (bucket_list space (home space n)))"
      "int (length (bucket_list space (home space n))) < ns_bucket_sz space"
    using Cons.prems by (auto simp: loadable_def dest!: spec [of _ "home space n"])
  obtain space1 p where s: "aux_space_load_nodei_cb True now junk (row_of n) space = Some (0, space1)" "space_wf space1"
      "ns_myid space1 = ns_myid space" "ns_bucket_sz space1 = ns_bucket_sz space"
      "\<forall>i. bucket_list space1 i = (if i = home space n then bucket_list space i @ [p] else bucket_list space i)"
      "pid p = ni_id n" "ni_ver (vp_nodei p) = reload junk n"
      "ni_list (vp_nodei p) = fold (addr_ins VSOCKADDR_TYPE) (fold (addr_ins VSOCKADDR_TYPE) (ni_list n) []) []"
    using load_nodei_spec [OF l(1) assms(2) l(2-5), of now] by metis
  have "loadable space1 ns"
    unfolding loadable_def
  proof (intro conjI allI impI ballI)
    fix i assume i: "i < NBUCKETS"
    show "set (map pid (bucket_list space1 i)) \<inter> ni_id ` set ns = {}"
      using Cons.prems i s(5,6) by (auto simp: loadable_def)
    show "int (length (bucket_list space1 i) + length (filter (\<lambda>n. home space1 n = i) ns)) \<le> ns_bucket_sz space1"
      using Cons.prems i s(3-5) by (auto simp: loadable_def dest!: spec [of _ i] split: if_splits)
  qed (use Cons.prems s(2,3) in \<open>auto simp: loadable_def\<close>)
  then obtain space' where "load_rows True now junk (map row_of ns) space1 = Some (0, space')" "space_wf space'"
      "ns_myid space' = ns_myid space1"
      "\<forall>i < NBUCKETS. map brief (bucket_list space' i) =
        map brief (bucket_list space1 i) @ map (restored junk) (filter (\<lambda>n. home space1 n = i) ns)"
    using Cons.IH by blast
  moreover have "brief p = restored junk n" using s(6-8) by (simp add: brief_def restored_def)
  ultimately show ?case using s(1,3,5) by (intro exI [of _ space']) auto
qed

text \<open>An iteration whose callback changes no item.\<close>

lemma varray_iterate_reads:
  assumes "va_wf a" "\<forall>x \<in> set (va_list a). \<forall>s. \<exists>ret. ret \<le> 0 \<and> cb x s = Some (ret, x, upd x s)"
  shows "varray_iterate a cb s = Some (a, fold upd (va_list a) s)"
proof -
  have l: "\<forall>x \<in> set xs. \<forall>s. \<exists>ret. ret \<le> 0 \<and> cb x s = Some (ret, x, upd x s) \<Longrightarrow>
      list_iterate cb xs s = Some (xs, fold upd xs s)" for xs s
  proof (induction xs arbitrary: s)
    case (Cons x xs)
    have "\<exists>ret. ret \<le> 0 \<and> cb x s = Some (ret, x, upd x s)" using Cons.prems by simp
    then obtain ret where "ret \<le> 0" "cb x s = Some (ret, x, upd x s)" by blast
    then show ?case using Cons by simp
  qed simp
  obtain rest where items: "va_items a = map Some (va_list a) @ rest"
    using va_items_split [OF assms(1)] by blast
  have "length (va_list a) = va_used a" using assms(1) by simp
  then show ?thesis
    using varray_iterate_from_spec [of cb "[]" "va_list a" rest s] l [OF assms(2)] items
    by (simp add: varray_iterate_def del: va_list_length)
qed

lemma buckets_iterate_reads:
  assumes "space_wf space" "\<forall>j < NBUCKETS. \<forall>x \<in> set (bucket_list space j). \<forall>s. \<exists>ret. ret \<le> 0 \<and> cb x s = Some (ret, x, upd x s)"
    "i + n = NBUCKETS"
  shows "buckets_iterate cb n i space s = Some (space, fold upd (concat (map (bucket_list space) [i..<NBUCKETS])) s)"
  using assms(3)
proof (induction n arbitrary: i s)
  case (Suc n)
  then have i: "i < NBUCKETS" "i < length (ns_bucket space)" "i + 1 + n = NBUCKETS"
    using assms(1) by (simp_all add: space_wf_def)
  have "varray_iterate (bk_peers (ns_bucket space ! i)) cb s =
      Some (bk_peers (ns_bucket space ! i), fold upd (bucket_list space i) s)"
    using varray_iterate_reads [of "bk_peers (ns_bucket space ! i)" cb upd s] space_wfD(1) [OF assms(1) i(1)] assms(2) i(1)
    by (simp add: bucket_list_def)
  moreover have "[i..<NBUCKETS] = i # [i + 1..<NBUCKETS]" using i(1) by (simp add: upt_conv_Cons)
  ultimately show ?case using Suc.IH [OF i(3)] i(2) by simp
qed simp

definition stored_nodes :: "node_space \<Rightarrow> vnodeInfo list" where
  "stored_nodes space = map vp_nodei (filter (storable space) (concat (map (bucket_list space) [0..<NBUCKETS])))"

text \<open>The database as the routing table uses it: rows with new IDs come after the others.\<close>

definition peer_db :: "(peer_row \<Rightarrow> 'd \<Rightarrow> int \<times> 'd) \<Rightarrow> ('d \<Rightarrow> peer_row list option) \<Rightarrow> bool" where
  "peer_db exec select \<longleftrightarrow> (\<forall>row db rows. select db = Some rows \<longrightarrow> pr_id row \<notin> pr_id ` set rows \<longrightarrow>
     fst (exec row db) = 0 \<and> select (snd (exec row db)) = Some (rows @ [row]))"

definition put_row :: "(peer_row \<Rightarrow> 'd \<Rightarrow> int \<times> 'd) \<Rightarrow> node_space \<Rightarrow> vpeer \<Rightarrow> 'd \<Rightarrow> 'd" where
  "put_row exec space p db = (if storable space p then snd (exec (row_of (vp_nodei p)) db) else db)"

lemma fold_put_row:
  "fold (put_row exec space) ps db = fold (\<lambda>n db. snd (exec (row_of n) db)) (map vp_nodei (filter (storable space) ps)) db"
  by (induction ps arbitrary: db) (auto simp: put_row_def)

lemma select_rows:
  assumes "peer_db exec select" "select db = Some rows" "distinct (map pr_id rows @ map (\<lambda>n. hex_of (ni_id n)) ns)"
  shows "select (fold (\<lambda>n db. snd (exec (row_of n) db)) ns db) = Some (rows @ map row_of ns)"
  using assms(2,3)
proof (induction ns arbitrary: db rows)
  case (Cons n ns)
  have "pr_id (row_of n) \<notin> pr_id ` set rows" using Cons.prems(2) by (auto simp: row_of_def)
  then have s: "select (snd (exec (row_of n) db)) = Some (rows @ [row_of n])"
    using assms(1) Cons.prems(1) unfolding peer_db_def by blast
  have d: "distinct (map pr_id (rows @ [row_of n]) @ map (\<lambda>n. hex_of (ni_id n)) ns)"
    using Cons.prems(2) by (auto simp: row_of_def)
  show ?case using Cons.IH [OF s d] by simp
qed simp

lemma store_nodei_cb_put:
  assumes "node_wf (vp_nodei p)" "1 \<le> ni_naddrs (vp_nodei p)"
  shows "\<exists>ret. ret \<le> 0 \<and> aux_space_store_nodei_cb exec space p db = Some (ret, p, put_row exec space p db)"
  using store_nodei_spec [OF assms, of exec space db] by (auto simp: put_row_def)

lemma store_spec:
  assumes "space_wf space"
  shows "vroute_node_space_store True exec space db =
    Some (0, space, fold (\<lambda>n db. snd (exec (row_of n) db)) (stored_nodes space) db)"
proof -
  have "\<forall>j < NBUCKETS. \<forall>p \<in> set (bucket_list space j). \<forall>s.
      \<exists>ret. ret \<le> 0 \<and> aux_space_store_nodei_cb exec space p s = Some (ret, p, put_row exec space p s)"
    using space_wfD(2) [OF assms] store_nodei_cb_put by (fastforce simp: peer_wf_def)
  from buckets_iterate_reads [OF assms this, of 0 NBUCKETS] show ?thesis
    by (simp add: vroute_node_space_store_def stored_nodes_def fold_put_row)
qed

lemma hex_of_inj: "tok_wf a \<Longrightarrow> tok_wf b \<Longrightarrow> hex_of a = hex_of b \<Longrightarrow> a = b"
  using vtoken_hex_roundtrip [of a b "[]"] vtoken_hex_roundtrip [of b b "[]"] by simp

lemma filter_home:
  assumes "\<forall>j < m. \<forall>x \<in> set (B j). h x = j" "i < m"
  shows "filter (\<lambda>x. h x = i) (concat (map B [0..<m])) = B i"
  using assms
proof (induction m)
  case (Suc m)
  have tail: "filter (\<lambda>x. h x = i) (B m) = (if i = m then B m else [])"
    using Suc.prems(1) by (auto simp: filter_id_conv filter_empty_conv)
  show ?case
  proof (cases "i < m")
    case True
    then show ?thesis using Suc.IH Suc.prems(1) tail by simp
  next
    case False
    then have "i = m" using Suc.prems(2) by simp
    moreover have "filter (\<lambda>x. h x = m) (concat (map B [0..<m])) = []"
      using Suc.prems(1) by (auto simp: filter_empty_conv less_Suc_eq)
    ultimately show ?thesis using tail by simp
  qed
qed simp

lemma distinct_home:
  assumes "\<forall>j < m. distinct (map f (B j)) \<and> (\<forall>x \<in> set (B j). h (f x) = j)"
  shows "distinct (map f (concat (map B [0..<m])))"
  using assms
proof (induction m)
  case (Suc m)
  have "f x \<noteq> f y" if "j < m" "x \<in> set (B j)" "y \<in> set (B m)" for j x y
    using Suc.prems that by (metis less_Suc_eq nat_neq_iff)
  then show ?case using Suc by (fastforce simp: less_Suc_eq)
qed simp

lemma stored_nodes_ids:
  assumes "space_wf space"
  shows "distinct (map ni_id (stored_nodes space))"
    "filter (\<lambda>n. vnodeId_bucket (ns_myid space) (ni_id n) = i) (stored_nodes space) =
      (if i < NBUCKETS then map vp_nodei (filter (storable space) (bucket_list space i)) else [])"
    "n \<in> set (stored_nodes space) \<Longrightarrow> node_wf n \<and> 1 \<le> ni_naddrs n \<and> ni_id n \<noteq> ns_myid space"
proof -
  have w: "\<forall>j < NBUCKETS. distinct (map pid (bucket_list space j)) \<and>
      (\<forall>x \<in> set (bucket_list space j). vnodeId_bucket (ns_myid space) (pid x) = j)"
    using space_wfD [OF assms] by (auto simp: peer_wf_def)
  let ?all = "concat (map (bucket_list space) [0..<NBUCKETS])"
  have "distinct (map pid ?all)" by (rule distinct_home [OF w])
  then have "distinct (map pid (filter (storable space) ?all))" by (rule distinct_map_filter)
  moreover have "map ni_id (stored_nodes space) = map pid (filter (storable space) ?all)"
    by (simp add: stored_nodes_def pid_def)
  ultimately show "distinct (map ni_id (stored_nodes space))" by metis
  have "filter (\<lambda>p. vnodeId_bucket (ns_myid space) (pid p) = i) ?all = (if i < NBUCKETS then bucket_list space i else [])"
  proof (cases "i < NBUCKETS")
    case True
    then show ?thesis
      using filter_home [of NBUCKETS "bucket_list space" "\<lambda>p. vnodeId_bucket (ns_myid space) (pid p)" i] w by simp
  next
    case False
    then show ?thesis using bucket_in_range [of "ns_myid space"] by (auto simp: filter_empty_conv)
  qed
  then have "filter (storable space) (filter (\<lambda>p. vnodeId_bucket (ns_myid space) (pid p) = i) ?all) =
      (if i < NBUCKETS then filter (storable space) (bucket_list space i) else [])"
    by simp
  moreover have "filter (\<lambda>n. vnodeId_bucket (ns_myid space) (ni_id n) = i) (stored_nodes space) =
      map vp_nodei (filter (storable space) (filter (\<lambda>p. vnodeId_bucket (ns_myid space) (pid p) = i) ?all))"
    unfolding stored_nodes_def filter_map comp_def pid_def by (simp add: conj_commute)
  ultimately show "filter (\<lambda>n. vnodeId_bucket (ns_myid space) (ni_id n) = i) (stored_nodes space) =
      (if i < NBUCKETS then map vp_nodei (filter (storable space) (bucket_list space i)) else [])"
    by simp
  show "n \<in> set (stored_nodes space) \<Longrightarrow> node_wf n \<and> 1 \<le> ni_naddrs n \<and> ni_id n \<noteq> ns_myid space"
    using space_wfD(2) [OF assms] by (fastforce simp: stored_nodes_def peer_wf_def pid_def)
qed

lemma stored_rows_distinct:
  assumes "space_wf space"
  shows "distinct (map (\<lambda>n. hex_of (ni_id n)) (stored_nodes space))"
  unfolding distinct_map
proof (intro conjI inj_onI)
  show "distinct (stored_nodes space)" using stored_nodes_ids(1) [OF assms] by (simp add: distinct_map)
  fix a b assume ab: "a \<in> set (stored_nodes space)" "b \<in> set (stored_nodes space)" "hex_of (ni_id a) = hex_of (ni_id b)"
  then have "ni_id a = ni_id b" using hex_of_inj stored_nodes_ids(3) [OF assms] by (meson node_wf_tok)
  then show "a = b" using stored_nodes_ids(1) [OF assms] ab(1,2) by (simp add: distinct_map inj_on_def)
qed

lemma store_then_load:
  assumes "space_wf space" "peer_db exec select" "select db = Some []" "\<forall>n \<in> set (stored_nodes space). row_wf n"
    "space_wf fresh" "ns_myid fresh = ns_myid space" "ns_bucket_sz space \<le> ns_bucket_sz fresh"
    "\<forall>i < NBUCKETS. bucket_list fresh i = []" "junk_wf junk"
  shows "\<exists>db' fresh'. vroute_node_space_store True exec space db = Some (0, space, db') \<and>
    vroute_node_space_load True now junk (select db') fresh = Some (0, fresh') \<and> space_wf fresh' \<and>
    (\<forall>i < NBUCKETS. map brief (bucket_list fresh' i) =
       map (\<lambda>p. restored junk (vp_nodei p)) (filter (storable space) (bucket_list space i)))"
proof -
  let ?ns = "stored_nodes space"
  note ids = stored_nodes_ids [OF assms(1)]
  have sel: "select (fold (\<lambda>n db. snd (exec (row_of n) db)) ?ns db) = Some (map row_of ?ns)"
    using select_rows [OF assms(2,3), of ?ns] stored_rows_distinct [OF assms(1)] by simp
  have len: "length (filter (\<lambda>n. home fresh n = i) ?ns) \<le> length (bucket_list space i)" if "i < NBUCKETS" for i
    using ids(2) [of i] that assms(6) by (simp add: length_filter_le)
  have "loadable fresh ?ns"
    unfolding loadable_def
  proof (intro conjI allI impI ballI)
    fix i assume i: "i < NBUCKETS"
    have "int (length (bucket_list space i)) \<le> ns_bucket_sz space" using space_wfD [OF assms(1) i] by simp
    then show "int (length (bucket_list fresh i) + length (filter (\<lambda>n. home fresh n = i) ?ns)) \<le> ns_bucket_sz fresh"
      using len [OF i] assms(7,8) i by simp
  qed (use assms(4-6,8) ids in auto)
  from load_rows_spec [OF this assms(9), of now]
  obtain fresh' where "load_rows True now junk (map row_of ?ns) fresh = Some (0, fresh')" "space_wf fresh'"
      "\<forall>i < NBUCKETS. map brief (bucket_list fresh' i) =
        map brief (bucket_list fresh i) @ map (restored junk) (filter (\<lambda>n. home fresh n = i) ?ns)"
    by blast
  then show ?thesis
    using store_spec [OF assms(1), of exec db] sel assms(6,8) ids(2)
    by (intro exI [of _ "fold (\<lambda>n db. snd (exec (row_of n) db)) ?ns db"] exI [of _ fresh'])
      (simp add: vroute_node_space_load_def comp_def)
qed

text \<open>A peer that announced the port 0 is stored like any other; the assertion in \<open>vsockaddr_convert\<close> then
  stops every start that loads its row.\<close>

lemma strtol_zero: "strtol (dec_nat 0 @ 58 # r) = Some (0, 1, False)"
  using strtol_dec_nat [of 58 0 r] by (simp add: c_isdigit_def)

lemma load_port_zero:
  assumes "ni_list n = v # vs" "sin_port (va_addr v) = 0" "tok_wf (ni_id n)" "tok_wf (ni_ver n)" "junk_wf junk"
  shows "aux_space_load_nodei_cb True now junk (row_of n) space = None"
proof -
  let ?h = "inet_ntoa (sin_addr (va_addr v))"
  have z: "htons (sin_port (va_addr v)) = 0" using assms(2) htons_0 by simp
  have crash: "aux_vsockaddr_unstrlize (slot_str v @ c # r) v0 = None" if "c \<in> {0, 44}" for c r v0
  proof -
    have t: "slot_str v @ c # r = ?h @ 58 # dec_nat 0 @ 58 # dec_nat (unat (va_type v)) @ c # r"
      using z by (simp add: slot_str_def addr_text_def)
    have s: "strchr (slot_str v @ c # r) 58 = Some (Some (length ?h))"
      unfolding t by (rule strchr_first) (simp_all add: addr_text_ends)
    obtain y where y: "strncpy0 64 (slot_str v @ c # r) (length ?h) = Some (?h @ 0 # y)"
      unfolding t by (rule strncpy0_spec [of ?h 64])
        (use length_inet_ntoa [of "sin_addr (va_addr v)"] in \<open>simp_all add: addr_text_ends\<close>)
    have d: "drop (length ?h + 1) (slot_str v @ c # r) = dec_nat 0 @ 58 # dec_nat (unat (va_type v)) @ c # r"
      unfolding t by simp
    show ?thesis
      unfolding aux_vsockaddr_unstrlize_def s using y
      by (simp only: Option.bind.bind_lunit option.case Let_def d strtol_zero) (simp add: vsockaddr_convert_def)
  qed
  have ver: "\<exists>r w. vnodeVer_unstrlize (ver_text (take 5 (ni_ver n)) @ [0]) (lj_ver junk) = Some (r, w)"
    using vnodeVer_unstrlize_spec [of "take 5 (ni_ver n)" "lj_ver junk" "[]"] assms(4,5)
    by (cases "ni_ver n") (auto simp: junk_wf_def tok_wf_def VTOKEN_LEN_def)
  have load: "load_addrs (Suc f) True (addrs_str (ni_list n) @ [0]) v0 m = None" for f v0 m
  proof (cases vs)
    case Nil
    have "strchr (slot_str v @ 0 # []) 44 = Some None" by (rule strchr_none) (simp_all add: slot_str_ends)
    then show ?thesis using crash [of 0 "[]"] by (simp add: assms(1) Nil addrs_str_def)
  next
    case (Cons w ws)
    have t: "addrs_str (ni_list n) @ [0] = slot_str v @ 44 # addrs_str vs @ [0]" by (simp add: assms(1) Cons addrs_str_Cons2)
    have s: "strchr (addrs_str (ni_list n) @ [0]) 44 = Some (Some (length (slot_str v)))"
      unfolding t by (rule strchr_first) (simp_all add: slot_str_ends)
    obtain y where y: "strncpy0 64 (addrs_str (ni_list n) @ [0]) (length (slot_str v)) = Some (slot_str v @ 0 # y)"
      unfolding t by (rule strncpy0_spec [of "slot_str v" 64])
        (use length_slot_str [of v] in \<open>simp_all add: slot_str_ends\<close>)
    show ?thesis unfolding load_addrs.simps s using y crash [of 0 y] by simp
  qed
  show ?thesis
    using ver load [of "length (addrs_str (ni_list n))"] vtoken_hex_roundtrip [OF assms(3), of "lj_id junk" "[0]"] assms(5)
    by (auto simp: aux_space_load_nodei_cb_def row_of_def junk_wf_def vnodeInfo_relax_init_def simp del: load_addrs.simps)
qed

end
