(* ===== verification/Host.thy ===== *)
theory Host
  imports Persist
begin

section \<open>The node's periodic work and the host (vnode.c, vhost.c)\<close>

text \<open>
  The node is a state machine that the ticker drives: \<open>OFF\<close> until it is started, \<open>UP\<close> until the next
  tick loads the routing table and contacts the boot nodes, then \<open>RUN\<close>, and \<open>DOWN\<close> from the request to
  stop until a tick has stored the table. Its operations that use the route are here, with the route
  as their state: the node is the field \<open>rt_node\<close> of the route, and the database \<open>'d\<close> is passed along.
  \<open>nenv\<close> extends the environment of the route by what a tick reads from outside: the database's
  functions, the boot addresses of the configuration, the UPnP client and the nice value measured.
  The host adds its own operations and, below, the interleaving of all of them.
\<close>

subsection \<open>State\<close>

record 'd nenv =
  ne_env :: renv
  ne_junk :: load_junk
  ne_select :: "'d \<Rightarrow> peer_row list option"
  ne_opens :: bool
  ne_exec :: "peer_row \<Rightarrow> 'd \<Rightarrow> int \<times> 'd"
  ne_boot :: "sockaddr_in list"
  ne_upnp :: "(sockaddr_in \<Rightarrow> sockaddr_in option) option"
  ne_nice :: int

record ('u, 'd) vhost =
  ho_route :: "'u vroute"
  ho_db :: 'd
  ho_zaddr :: sockaddr_in
  ho_to_quit :: bool

abbreviation on_node :: "(vnode \<Rightarrow> vnode) \<Rightarrow> 'u vroute \<Rightarrow> 'u vroute" where
  "on_node f route \<equiv> route\<lparr>rt_node := f (rt_node route)\<rparr>"

subsection \<open>Reflexive addresses and connectivity\<close>

text \<open>The loops over our addresses, from index \<open>i\<close> on with \<open>n\<close> to go. Sending a query does not change them.\<close>

fun reflex_queries :: "nat \<Rightarrow> nat \<Rightarrow> renv \<Rightarrow> 'u vroute \<Rightarrow> 'u vroute option" where
  "reflex_queries 0 i env route = Some route"
| "reflex_queries (Suc n) i env route = do {
     a \<leftarrow> rd (ni_addrs (vn_nodei (rt_node route))) i;
     if \<not> need_reflex (va_type a) then reflex_queries n (i + 1) env route
     else do {
       (ret, route) \<leftarrow> vroute_reflex_addr env (va_addr a) route;
       reflex_queries n (i + 1) env route
     }
   }"

definition aux_node_get_eaddrs :: "renv \<Rightarrow> 'u vroute \<Rightarrow> 'u vroute option" where
  "aux_node_get_eaddrs env route =
     (let node = rt_node route in
      if vn_nreflexs node \<ge> 3 \<or> re_now env - vn_reflex_ts node < 5 then Some route
      else reflex_queries (nat (ni_naddrs (vn_nodei node))) 0 env
             (on_node (\<lambda>node. node\<lparr>vn_nreflexs := vn_nreflexs node + 1, vn_reflex_ts := re_later env\<rparr>) route))"

fun probe_queries :: "nat \<Rightarrow> nat \<Rightarrow> renv \<Rightarrow> 'u vroute \<Rightarrow> 'u vroute option" where
  "probe_queries 0 i env route = Some route"
| "probe_queries (Suc n) i env route = do {
     a \<leftarrow> rd (ni_addrs (vn_nodei (rt_node route))) i;
     if \<not> need_probe (va_type a) then probe_queries n (i + 1) env route
     else do {
       (ret, route) \<leftarrow> vroute_probe_connectivity env a route;
       probe_queries n (i + 1) env route
     }
   }"

definition aux_node_probe_connectivity :: "renv \<Rightarrow> 'u vroute \<Rightarrow> 'u vroute option" where
  "aux_node_probe_connectivity env route =
     probe_queries (nat (ni_naddrs (vn_nodei (rt_node route)))) 0 env route"

subsection \<open>The tick\<close>

definition aux_node_load_boot_cb :: "renv \<Rightarrow> sockaddr_in \<Rightarrow> 'u vroute \<Rightarrow> (int \<times> 'u vroute) option" where
  "aux_node_load_boot_cb env boot_addr route = do {
     has \<leftarrow> vnodeInfo_has_addr (vn_nodei (rt_node route)) boot_addr;
     if has then Some (0, route)
     else do {
       (ret, route) \<leftarrow> vroute_join_node env boot_addr route;
       Some (if ret < 0 then -1 else 0, route)
     }
   }"

text \<open>\<open>get_boot_nodes\<close> hands every boot address to the callback, whatever it returns.\<close>

fun load_boot_nodes :: "renv \<Rightarrow> sockaddr_in list \<Rightarrow> 'u vroute \<Rightarrow> 'u vroute option" where
  "load_boot_nodes env [] route = Some route"
| "load_boot_nodes env (a # as) route = do {
     (ret, route) \<leftarrow> aux_node_load_boot_cb env a route;
     load_boot_nodes env as route
   }"

fun air_services :: "nat \<Rightarrow> nat \<Rightarrow> renv \<Rightarrow> 'u vroute \<Rightarrow> 'u vroute option" where
  "air_services 0 i env route = Some route"
| "air_services (Suc n) i env route = do {
     item \<leftarrow> varray_get (vn_services (rt_node route)) (int i);
     srvci \<leftarrow> item;
     (ret, route) \<leftarrow> vroute_air_service env srvci route;
     air_services n (i + 1) env route
   }"

definition vnode_tick :: "renv \<Rightarrow> 'u vroute \<Rightarrow> 'u vroute option" where
  "vnode_tick env route = do {
     route \<leftarrow> aux_node_get_eaddrs env route;
     route \<leftarrow> aux_node_probe_connectivity env route;
     air_services (varray_size (vn_services (rt_node route))) 0 env route
   }"

text \<open>The steps of a tick in the modes \<open>UP\<close> and \<open>RUN\<close>.\<close>

definition tick_up :: "'d nenv \<Rightarrow> 'u vroute \<Rightarrow> 'd \<Rightarrow> ('u vroute \<times> 'd) option" where
  "tick_up ne route db = do {
     let env = ne_env ne;
     (ret, route) \<leftarrow> vroute_load env (ne_junk ne) (ne_select ne db) route;
     route \<leftarrow> load_boot_nodes env (ne_boot ne) route;
     node \<leftarrow> aux_node_get_uaddrs (re_mem env) (ne_upnp ne) (rt_node route);
     route \<leftarrow> aux_node_get_eaddrs env (route\<lparr>rt_node := node\<rparr>);
     Some (on_node (\<lambda>node. node\<lparr>vn_tick_ts := re_now env, vn_wb_ts := re_now env, vn_mode := VDHT_RUN\<rparr>) route, db)
   }"

definition tick_node :: "'d nenv \<Rightarrow> 'u vroute \<Rightarrow> 'u vroute option" where
  "tick_node ne route =
     (let env = ne_env ne; node = rt_node route in
      if vn_tick_ts node + vn_tick_tmo node < re_now env then do {
        (ret, node) \<leftarrow> vnode_renice (ne_nice ne) node;
        route \<leftarrow> vnode_tick env (route\<lparr>rt_node := node\<rparr>);
        Some (on_node (\<lambda>node. node\<lparr>vn_tick_ts := re_now env\<rparr>) route)
      }
      else Some route)"

definition tick_store :: "'d nenv \<Rightarrow> 'u vroute \<Rightarrow> 'd \<Rightarrow> ('u vroute \<times> 'd) option" where
  "tick_store ne route db =
     (let node = rt_node route; now = re_now (ne_env ne) in
      if vn_wb_ts node + vn_wb_tmo node < now then do {
        (ret, route, db) \<leftarrow> vroute_store (ne_opens ne) (ne_exec ne) route db;
        Some (on_node (\<lambda>node. node\<lparr>vn_wb_ts := now\<rparr>) route, db)
      }
      else Some (route, db))"

definition tick_run :: "'d nenv \<Rightarrow> 'u vroute \<Rightarrow> 'd \<Rightarrow> ('u vroute \<times> 'd) option" where
  "tick_run ne route db = do {
     route \<leftarrow> tick_node ne route;
     (route, db) \<leftarrow> tick_store ne route db;
     (ret, route) \<leftarrow> vroute_tick (ne_env ne) route;
     Some (route, db)
   }"

definition aux_node_tick_cb :: "'d nenv \<Rightarrow> 'u vroute \<Rightarrow> 'd \<Rightarrow> (int \<times> 'u vroute \<times> 'd) option" where
  "aux_node_tick_cb ne route db = do {
     (route, db) \<leftarrow>
       (case vn_mode (rt_node route) of
          VDHT_OFF \<Rightarrow> Some (route, db)
        | VDHT_ERR \<Rightarrow> Some (route, db)
        | VDHT_UP \<Rightarrow> tick_up ne route db
        | VDHT_RUN \<Rightarrow> tick_run ne route db
        | VDHT_DOWN \<Rightarrow> do {
            (ret, route, db) \<leftarrow> vroute_store (ne_opens ne) (ne_exec ne) route db;
            Some (on_node (\<lambda>node. node\<lparr>vn_mode := VDHT_OFF\<rparr>) route, db)
          });
     Some (0, route, db)
   }"

subsection \<open>Finding services for clients\<close>

definition vnode_srvc_find ::
  "renv \<Rightarrow> vsrvcHash \<Rightarrow> 'u number_cb \<Rightarrow> 'u addr_cb \<Rightarrow> 'u vroute \<Rightarrow> (int \<times> 'u vroute) option" where
  "vnode_srvc_find env hash ncb icb route = do {
     f \<leftarrow> services_scan (rt_node route) hash;
     case f of
       Some (i, item) \<Rightarrow> do {
         (ret, srvci) \<leftarrow> vsrvcInfo_copy (re_mem env) decl_vsrvc_relax item;
         u \<leftarrow> iterate_addrs (\<lambda>_. icb hash) srvci (nat (si_naddrs srvci)) 0
                (ncb hash (si_naddrs srvci) (si_proto srvci) (rt_client route));
         Some (0, route\<lparr>rt_client := u\<rparr>)
       }
     | None \<Rightarrow> do {
         (ret, route) \<leftarrow> vroute_find_service env hash ncb icb route;
         Some (if ret < 0 then -1 else 0, route)
       }
   }"

definition vnode_srvc_probe ::
  "renv \<Rightarrow> vsrvcHash \<Rightarrow> 'u number_cb \<Rightarrow> 'u addr_cb \<Rightarrow> 'u vroute \<Rightarrow> (int \<times> 'u vroute) option" where
  "vnode_srvc_probe env hash ncb icb route = do {
     (ret, route) \<leftarrow> vroute_probe_service env hash ncb icb route;
     Some (if ret < 0 then -1 else 0, route)
   }"

subsection \<open>The host's operations\<close>

definition vhost_start :: "('u, 'd) vhost \<Rightarrow> int \<times> ('u, 'd) vhost" where
  "vhost_start host =
     (let (ret, node) = vnode_start (rt_node (ho_route host))
      in (if ret < 0 then -1 else 0, host\<lparr>ho_route := (ho_route host)\<lparr>rt_node := node\<rparr>\<rparr>))"

definition vhost_stop :: "('u, 'd) vhost \<Rightarrow> int \<times> ('u, 'd) vhost" where
  "vhost_stop host =
     (let (ret, node) = vnode_stop (rt_node (ho_route host))
      in (if ret < 0 then -1 else 0, host\<lparr>ho_route := (ho_route host)\<lparr>rt_node := node\<rparr>\<rparr>))"

definition vhost_join :: "renv \<Rightarrow> ('u, 'd) vhost \<Rightarrow> sockaddr_in \<Rightarrow> (int \<times> ('u, 'd) vhost) option" where
  "vhost_join env host wellknown_addr = do {
     has \<leftarrow> vnode_has_addr (rt_node (ho_route host)) wellknown_addr;
     if has then Some (0, host)
     else do {
       (ret, route) \<leftarrow> vroute_join_node env wellknown_addr (ho_route host);
       Some (if ret < 0 then -1 else 0, host\<lparr>ho_route := route\<rparr>)
     }
   }"

text \<open>Waiting for the end of the node is outside: it lasts until a tick has made the mode \<open>OFF\<close>.\<close>

definition vhost_exit :: "('u, 'd) vhost \<Rightarrow> int \<times> ('u, 'd) vhost" where
  "vhost_exit host = (0, snd (vhost_stop (host\<lparr>ho_to_quit := True\<rparr>)))"

definition vhost_bogus_query :: "renv \<Rightarrow> ('u, 'd) vhost \<Rightarrow> int \<Rightarrow> sockaddr_in \<Rightarrow> (int \<times> ('u, 'd) vhost) option" where
  "vhost_bogus_query env host what remote_addr =
     (let route = ho_route host; conn = vnodeConn_set_raw conn_zero (ho_zaddr host) remote_addr;
          done' = (\<lambda>r. do { (ret, route) \<leftarrow> r; Some (if ret < 0 then -1 else 0, host\<lparr>ho_route := route\<rparr>) })
      in if what = VDHT_PING then done' (vroute_dht_ping env conn route)
         else if what = VDHT_FIND_NODE then done' (vroute_dht_find_node env conn (rt_myid route) route)
         else if what = VDHT_FIND_CLOSEST_NODES then done' (vroute_dht_find_closest_nodes env conn (rt_myid route) route)
         else if what = VDHT_REFLEX then done' (vroute_dht_reflex env conn route)
         else Some (-1, host))"

definition vhost_get_version :: bytes where
  "vhost_get_version = cstr ''0.0.0.1.0'' @ [0]"

end
