(* ===== verification/Keeps.thy ===== *)
theory Keeps
  imports Host
begin

section \<open>What no operation changes\<close>

text \<open>
  Whatever arrives from the network, an operation of the route that returns leaves alone our ID, the
  enabled capabilities, the services, timers and mode of the node, and everything already queued:
  \<open>keeps r r'\<close>. The lemmas here hold for any input and any state, also for node infos and tickets that
  break the invariants of the other theories. They feed the invariants of the host below.
\<close>

named_theorems keeps_rules \<open>operations that keep the frame\<close>

definition node_kept :: "vnode \<Rightarrow> vnode \<Rightarrow> bool" where
  "node_kept n n' \<longleftrightarrow> vn_mode n' = vn_mode n \<and> vn_services n' = vn_services n \<and> vn_nice n' = vn_nice n \<and>
     vn_tick_ts n' = vn_tick_ts n \<and> vn_tick_tmo n' = vn_tick_tmo n \<and> vn_wb_ts n' = vn_wb_ts n \<and> vn_wb_tmo n' = vn_wb_tmo n \<and>
     vn_reflex_ts n' = vn_reflex_ts n \<and> vn_nreflexs n' = vn_nreflexs n \<and> ni_id (vn_nodei n') = ni_id (vn_nodei n)"

definition keeps :: "'u vroute \<Rightarrow> 'u vroute \<Rightarrow> bool" where
  "keeps r r' \<longleftrightarrow> rt_myid r' = rt_myid r \<and> rt_props r' = rt_props r \<and> node_kept (rt_node r) (rt_node r') \<and>
     mq_pack_cb (rt_msger r') = mq_pack_cb (rt_msger r) \<and> (\<exists>ms. mq_msgs (rt_msger r') = mq_msgs (rt_msger r) @ ms)"

lemma node_kept_refl [simp]: "node_kept n n"
  by (simp add: node_kept_def)

lemma node_kept_trans: "node_kept a b \<Longrightarrow> node_kept b c \<Longrightarrow> node_kept a c"
  by (simp add: node_kept_def)

lemma keeps_refl [simp, intro]: "keeps r r"
  by (simp add: keeps_def)

lemma keeps_trans [trans]: "keeps a b \<Longrightarrow> keeps b c \<Longrightarrow> keeps a c"
  unfolding keeps_def using node_kept_trans by fastforce

lemma keeps_same:
  "rt_myid r' = rt_myid r \<Longrightarrow> rt_props r' = rt_props r \<Longrightarrow> rt_node r' = rt_node r \<Longrightarrow> rt_msger r' = rt_msger r \<Longrightarrow> keeps r r'"
  by (simp add: keeps_def)

subsection \<open>Sending\<close>

lemma push_appends:
  "vmsger_push mem q mu = Some (ret, q') \<Longrightarrow> mq_pack_cb q' = mq_pack_cb q \<and> (\<exists>ms. mq_msgs q' = mq_msgs q @ ms)"
  by (auto simp: vmsger_push_def vmsg_sys_alloc_def run_simps split: if_splits option.splits prod.splits)

lemma keeps_end_query [keeps_rules]: "end_query env conn e r = Some (ret, r') \<Longrightarrow> keeps r r'"
  by (auto simp: end_query_def keeps_def run_simps split: option.splits dest!: push_appends)

lemma keeps_add_ticket [keeps_rules]: "add_ticket env argv r = Some r' \<Longrightarrow> keeps r r'"
  by (auto simp: add_ticket_def run_simps intro: keeps_same)

lemma keeps_fresh_nonce: "fresh_nonce env r = (n, r') \<Longrightarrow> keeps r r'"
  by (auto simp: fresh_nonce_def intro: keeps_same split: prod.splits)

lemma keeps_query:
  assumes "query env conn enc after r = Some (ret, r')" "\<And>n s s'. after n s = Some s' \<Longrightarrow> keeps s s'"
  shows "keeps r r'"
proof (cases "re_mem env")
  case True
  obtain n r1 where r1: "fresh_nonce env r = (n, r1)" by (cases "fresh_nonce env r")
  obtain e ret2 r2 where r2: "end_query env conn e r1 = Some (ret2, r2)" "ret2 < 0 \<and> r' = r2 \<or> after n r2 = Some r'"
    using assms(1) True r1 by (auto simp: query_def run_simps split: if_splits)
  then have "keeps r2 r'" using assms(2) by auto
  then show ?thesis using keeps_fresh_nonce [OF r1] keeps_end_query [OF r2(1)] keeps_trans by blast
qed (use assms(1) in \<open>simp add: query_def\<close>)

lemma keeps_reply: "reply env conn enc r = Some (ret, r') \<Longrightarrow> keeps r r'"
  by (auto simp: reply_def run_simps split: if_splits dest!: keeps_end_query)

lemma keeps_replies [keeps_rules]:
  "vroute_dht_ping_rsp env conn nonce n r = Some (ret, r') \<Longrightarrow> keeps r r'"
  "vroute_dht_find_node_rsp env conn nonce n r = Some (ret, r') \<Longrightarrow> keeps r r'"
  "vroute_dht_find_closest_nodes_rsp env conn nonce closest r = Some (ret, r') \<Longrightarrow> keeps r r'"
  "vroute_dht_reflex_rsp env conn nonce a r = Some (ret, r') \<Longrightarrow> keeps r r'"
  "vroute_dht_probe_rsp env conn nonce r = Some (ret, r') \<Longrightarrow> keeps r r'"
  "vroute_dht_find_service_rsp env conn nonce s r = Some (ret, r') \<Longrightarrow> keeps r r'"
  by (auto simp: vroute_dht_ping_rsp_def vroute_dht_find_node_rsp_def vroute_dht_find_closest_nodes_rsp_def
      vroute_dht_reflex_rsp_def vroute_dht_probe_rsp_def vroute_dht_find_service_rsp_def split: if_splits dest!: keeps_reply)

lemma keeps_queries [keeps_rules]:
  "vroute_dht_ping env conn r = Some (ret, r') \<Longrightarrow> keeps r r'"
  "vroute_dht_find_node env conn t r = Some (ret, r') \<Longrightarrow> keeps r r'"
  "vroute_dht_find_closest_nodes env conn t r = Some (ret, r') \<Longrightarrow> keeps r r'"
  "vroute_dht_reflex env conn r = Some (ret, r') \<Longrightarrow> keeps r r'"
  "vroute_dht_find_service env conn h r = Some (ret, r') \<Longrightarrow> keeps r r'"
  by (auto simp: vroute_dht_ping_def vroute_dht_find_node_def vroute_dht_find_closest_nodes_def
      vroute_dht_reflex_def vroute_dht_find_service_def split: if_splits dest!: keeps_query intro: keeps_add_ticket)

lemma keeps_dht_probe [keeps_rules]: "vroute_dht_probe env conn t r = Some (ret, r') \<Longrightarrow> keeps r r'"
  unfolding vroute_dht_probe_def
  by (erule keeps_query) (auto simp: run_simps intro: keeps_trans keeps_add_ticket)

lemma keeps_dht_post_service [keeps_rules]: "vroute_dht_post_service env conn s r = Some (ret, r') \<Longrightarrow> keeps r r'"
  by (auto simp: vroute_dht_post_service_def split: if_splits dest!: keeps_query)

lemma keeps_route_dht: "route_dht env c r = Some (ret, r') \<Longrightarrow> keeps r r'"
  by (cases c) (auto intro: keeps_rules)

subsection \<open>Iterations that send\<close>

text \<open>A callback that only sends keeps the frame, so every iteration with it does.\<close>

definition cb_keeps :: "('a \<Rightarrow> 'u vroute \<Rightarrow> (int \<times> 'a \<times> 'u vroute) option) \<Rightarrow> bool" where
  "cb_keeps cb \<longleftrightarrow> (\<forall>x r ret x' r'. cb x r = Some (ret, x', r') \<longrightarrow> keeps r r')"

lemma keeps_iterate_from:
  "cb_keeps cb \<Longrightarrow> varray_iterate_from cb i n items r = Some (items', r') \<Longrightarrow> keeps r r'"
proof (induction cb i n items r rule: varray_iterate_from.induct)
  case (2 cb i n items s)
  obtain p x ret x' s1 its where s1: "rd items i = Some p" "p = Some x" "cb x s = Some (ret, x', s1)"
      "wr items i (Some x') = Some its" "0 < ret \<and> r' = s1 \<or> \<not> 0 < ret \<and> varray_iterate_from cb (i + 1) n its s1 = Some (items', r')"
    using "2.prems"(2) by (auto simp: run_simps split: if_splits)
  have "keeps s s1" using "2.prems"(1) s1(3) by (auto simp: cb_keeps_def)
  moreover have "keeps s1 r'" using "2.IH" [OF s1(1,2) s1(3) refl refl s1(4)] s1(5) "2.prems"(1) by auto
  ultimately show ?case by (rule keeps_trans)
qed simp

lemma keeps_iterate: "cb_keeps cb \<Longrightarrow> varray_iterate a cb r = Some (a', r') \<Longrightarrow> keeps r r'"
  by (auto simp: varray_iterate_def run_simps dest: keeps_iterate_from)

lemma keeps_buckets_iterate: "cb_keeps cb \<Longrightarrow> buckets_iterate cb n i sp r = Some (sp', r') \<Longrightarrow> keeps r r'"
  by (induction n arbitrary: i sp r) (auto simp: run_simps intro: keeps_trans dest!: keeps_iterate)

lemma keeps_dht_ret: "dht_ret peer m = Some (ret, p, r') \<Longrightarrow> \<exists>ret. m = Some (ret, r')"
  by (auto simp: dht_ret_def run_simps)

lemma keeps_probe_addrs: "probe_addrs (route_dht env) laddr n k r = Some r' \<Longrightarrow> keeps r r'"
  by (induction k arbitrary: r) (auto simp: run_simps simp del: route_dht.simps intro: keeps_trans keeps_route_dht)

lemma cb_keeps_send:
  "cb_keeps (aux_space_probe_node_cb (route_dht env) sp t)" "cb_keeps (aux_space_air_service_cb (route_dht env) sp s)"
  "cb_keeps (aux_space_probe_service_cb (route_dht env) sp h)" "cb_keeps (aux_space_reflex_addr_cb (route_dht env) sp a)"
  "cb_keeps (aux_space_probe_connectivity_cb (route_dht env) sp l)" "cb_keeps (aux_space_ping_nodei_cb (route_dht env) sp now later)"
  by (auto simp: cb_keeps_def aux_space_probe_node_cb_def aux_space_air_service_cb_def aux_space_probe_service_cb_def
      aux_space_reflex_addr_cb_def aux_space_probe_connectivity_cb_def aux_space_ping_nodei_cb_def run_simps Let_def
      simp del: route_dht.simps split: if_splits dest!: keeps_dht_ret keeps_route_dht keeps_probe_addrs)

lemma keeps_tick_buckets:
  "tick_buckets (route_dht env) now later rnd n i sp r = Some (sp', r') \<Longrightarrow> keeps r r'"
proof (induction n arbitrary: i sp r)
  case (Suc n)
  obtain bk ps r1 where r1: "rd (ns_bucket sp) i = Some bk"
      "varray_iterate (bk_peers bk) (aux_space_ping_nodei_cb (route_dht env) sp now later) r = Some (ps, r1)"
    using Suc.prems by (auto simp: run_simps)
  have k: "keeps r r1" using keeps_iterate [OF cb_keeps_send(6) r1(2)] .
  have "\<exists>j sp1 r2. tick_buckets (route_dht env) now later rnd n j sp1 r2 = Some (sp', r') \<and> keeps r1 r2"
    using Suc.prems r1
    by (auto simp: run_simps Let_def simp del: route_dht.simps split: if_splits dest: keeps_route_dht)
  then show ?case using Suc.IH k keeps_trans by blast
qed simp

lemma keeps_run_node_space:
  assumes "run_node_space f r = Some (ret, r')" "\<And>sp s a sp' s'. f sp s = Some (a, sp', s') \<Longrightarrow> keeps s s'"
  shows "keeps r r'"
proof -
  obtain a sp' s' where s: "f (rt_node_space r) r = Some (a, sp', s')" "r' = s'\<lparr>rt_node_space := sp'\<rparr>"
    using assms(1) by (auto simp: run_node_space_def run_simps)
  have "keeps r s'" using assms(2) [OF s(1)] .
  moreover have "keeps s' r'" unfolding s(2) by (rule keeps_same) simp_all
  ultimately show ?thesis by (rule keeps_trans)
qed

lemma keeps_spreads [keeps_rules]:
  "vroute_air_service env s r = Some (ret, r') \<Longrightarrow> keeps r r'"
  "vroute_reflex_addr env a r = Some (ret, r') \<Longrightarrow> keeps r r'"
  "vroute_probe_connectivity env l r = Some (ret, r') \<Longrightarrow> keeps r r'"
  "run_node_space (\<lambda>sp. vroute_node_space_probe_node (route_dht env) sp t) r = Some (ret, r') \<Longrightarrow> keeps r r'"
  "run_node_space (\<lambda>sp. vroute_node_space_probe_service (route_dht env) sp h) r = Some (ret, r') \<Longrightarrow> keeps r r'"
  unfolding vroute_air_service_def vroute_reflex_addr_def vroute_probe_connectivity_def
  by (erule keeps_run_node_space, auto simp: vroute_node_space_air_service_def vroute_node_space_reflex_addr_def
      vroute_node_space_probe_connectivity_def vroute_node_space_probe_node_def vroute_node_space_probe_service_def run_simps
      simp del: buckets_iterate.simps split: if_splits dest!: keeps_buckets_iterate [OF cb_keeps_send(1)]
      keeps_buckets_iterate [OF cb_keeps_send(2)] keeps_buckets_iterate [OF cb_keeps_send(3)]
      keeps_buckets_iterate [OF cb_keeps_send(4)] keeps_buckets_iterate [OF cb_keeps_send(5)])+

lemma keeps_probe_service [keeps_rules]: "vroute_probe_service env h ncb icb r = Some (ret, r') \<Longrightarrow> keeps r r'"
  by (auto simp: vroute_probe_service_def run_simps split: if_splits
      intro: keeps_trans keeps_spreads keeps_add_ticket)

subsection \<open>The spaces\<close>

lemma keeps_spaces [keeps_rules]:
  "kick env t r = Some (ret, r') \<Longrightarrow> keeps r r'"
  "add_node env n flag r = Some (ret, r') \<Longrightarrow> keeps r r'"
  "check_ticket env argv r = Some (ok, r') \<Longrightarrow> keeps r r'"
  "add_service env s r = Some (ret, r') \<Longrightarrow> keeps r r'"
  "fake_node env a r = Some (n', r') \<Longrightarrow> keeps r r'"
  by (auto simp: kick_def add_node_def check_ticket_def add_service_def fake_node_def fresh_token_def run_simps Let_def
      split: prod.splits intro: keeps_same)

lemma keeps_add_closest [keeps_rules]: "add_closest env n i closest r = Some r' \<Longrightarrow> keeps r r'"
  by (induction n arbitrary: i r) (auto simp: run_simps intro: keeps_trans keeps_spaces)

lemma keeps_join [keeps_rules]: "vroute_join_node env a r = Some (ret, r') \<Longrightarrow> keeps r r'"
  by (auto simp: vroute_join_node_def run_simps intro: keeps_trans keeps_spaces)

lemma keeps_find_service [keeps_rules]: "vroute_find_service env h ncb icb r = Some (ret, r') \<Longrightarrow> keeps r r'"
  by (auto simp: vroute_find_service_def run_simps split: if_splits intro: keeps_same)

lemma keeps_upd [simp]: "keeps r (r\<lparr>rt_tckt_space := ts, rt_client := u\<rparr>)" "keeps r (r\<lparr>rt_node_space := sp\<rparr>)"
  by (simp_all add: keeps_same)

lemma keeps_route_tick [keeps_rules]: "vroute_tick env r = Some (ret, r') \<Longrightarrow> keeps r r'"
proof -
  assume "vroute_tick env r = Some (ret, r')"
  then obtain a r1 where r1: "run_node_space
        (\<lambda>sp. vroute_node_space_tick (route_dht env) (re_now env) (re_later env) (re_pick env) sp) r = Some (a, r1)"
      and k: "keeps r1 r'"
    by (auto simp: vroute_tick_def run_simps)
  have "keeps r r1"
    by (rule keeps_run_node_space [OF r1]) (auto simp: vroute_node_space_tick_def run_simps dest: keeps_tick_buckets)
  then show ?thesis using k by (rule keeps_trans)
qed

subsection \<open>Handlers\<close>

lemma add_addr_id: "vnodeInfo_add_addr mem n a t = Some (ret, n') \<Longrightarrow> ni_id n' = ni_id n"
  by (auto simp: vnodeInfo_add_addr_def vnodeInfo_grow_def run_simps Let_def split: if_splits option.splits prod.splits)

lemma reflex_loop_id: "reflex_loop mem laddr eaddr n i nd = Some nd' \<Longrightarrow> ni_id nd' = ni_id nd"
  by (induction n arbitrary: i nd) (auto simp: run_simps split: if_splits dest!: add_addr_id)

lemma node_kept_reflex: "vnode_reflex_addr mem node laddr eaddr = Some (ret, node') \<Longrightarrow> node_kept node node'"
  by (auto simp: vnode_reflex_addr_def aux_node_reflex_NAT_def node_kept_def run_simps Let_def split: if_splits
      dest!: reflex_loop_id)

lemma keeps_node: "node_kept (rt_node r) n \<Longrightarrow> keeps r (r\<lparr>rt_node := n\<rparr>)"
  by (simp add: keeps_def)

lemma keeps_cb [keeps_rules]:
  "vroute_cb_ping env conn ctxt r = Some (ret, r') \<Longrightarrow> keeps r r'"
  "vroute_cb_ping_rsp env conn ctxt r = Some (ret, r') \<Longrightarrow> keeps r r'"
  "vroute_cb_find_node env conn ctxt r = Some (ret, r') \<Longrightarrow> keeps r r'"
  "vroute_cb_find_node_rsp env conn ctxt r = Some (ret, r') \<Longrightarrow> keeps r r'"
  "vroute_cb_find_closest_nodes env conn ctxt r = Some (ret, r') \<Longrightarrow> keeps r r'"
  "vroute_cb_find_closest_nodes_rsp env conn ctxt r = Some (ret, r') \<Longrightarrow> keeps r r'"
  "vroute_cb_reflex env conn ctxt r = Some (ret, r') \<Longrightarrow> keeps r r'"
  "vroute_cb_reflex_rsp env conn ctxt r = Some (ret, r') \<Longrightarrow> keeps r r'"
  "vroute_cb_probe env conn ctxt r = Some (ret, r') \<Longrightarrow> keeps r r'"
  "vroute_cb_probe_rsp env conn ctxt r = Some (ret, r') \<Longrightarrow> keeps r r'"
  "vroute_cb_post_service env conn ctxt r = Some (ret, r') \<Longrightarrow> keeps r r'"
  "vroute_cb_find_service env conn ctxt r = Some (ret, r') \<Longrightarrow> keeps r r'"
  "vroute_cb_find_service_rsp env conn ctxt r = Some (ret, r') \<Longrightarrow> keeps r r'"
  by ((auto simp: vroute_cb_ping_def vroute_cb_ping_rsp_def vroute_cb_find_node_def vroute_cb_find_node_rsp_def
    vroute_cb_find_closest_nodes_def vroute_cb_find_closest_nodes_rsp_def vroute_cb_reflex_def vroute_cb_reflex_rsp_def
    vroute_cb_probe_def vroute_cb_probe_rsp_def vroute_cb_post_service_def vroute_cb_find_service_def
    vroute_cb_find_service_rsp_def run_simps split: if_splits
    dest!: keeps_rules node_kept_reflex [THEN keeps_node]; meson keeps_trans)+)

lemma keeps_cb_ops: "route_cb_ops k env conn ctxt r = Some (ret, r') \<Longrightarrow> keeps r r'"
  by (auto simp: route_cb_ops_def split: if_splits intro: keeps_cb)

lemma keeps_msg_cb: "aux_route_msg_cb env mu r = Some (ret, r') \<Longrightarrow> keeps r r'"
proof -
  assume a: "aux_route_msg_cb env mu r = Some (ret, r')"
  then obtain x where x: "vdht_dec_begin (mu_data mu) (mu_len mu) = Some x" by (auto simp: aux_route_msg_cb_def run_simps)
  show "keeps r r'"
    by (cases x) (use a x in \<open>auto simp: aux_route_msg_cb_def run_simps split: if_splits dest!: keeps_cb_ops\<close>)
qed

lemma keeps_receive: "host_receive env um ms r = Some (ret, r') \<Longrightarrow> keeps r r'"
  by (auto simp: host_receive_def vmsger_dsptch_def host_inq_def run_simps split: if_splits dest!: keeps_msg_cb)

end
