(* ===== verification/Machine.thy ===== *)
theory Machine
  imports Keeps
begin

section \<open>The host as a state machine\<close>

text \<open>
  A step of the host: a request of a client through the control socket, a tick of the timer, a datagram
  that arrives, or one that is sent. Each runs to its end before the next starts, since all of them
  work under the locks of the route and the node (what may go wrong with those is the subject of another
  theory). A step that crashes has no successor.
\<close>

datatype ('u, 'd) event =
    EvStart | EvStop | EvExit
  | EvTick "'d nenv"
  | EvReceive renv vmsg_usr vmsg_sys
  | EvSend
  | EvJoin renv sockaddr_in
  | EvBogus renv int sockaddr_in
  | EvPost bool vsrvcHash vsockaddr_in int
  | EvUnpost bool vsrvcHash sockaddr_in
  | EvUnpostExt bool vsrvcHash
  | EvFind renv vsrvcHash "'u number_cb" "'u addr_cb"
  | EvProbe renv vsrvcHash "'u number_cb" "'u addr_cb"

text \<open>An operation on the node, on the route and on the outgoing queue as a step of the host.\<close>

definition at_node :: "(vnode \<Rightarrow> (int \<times> vnode) option) \<Rightarrow> ('u, 'd) vhost \<Rightarrow> ('u, 'd) vhost option" where
  "at_node f host = do {
     (ret, node) \<leftarrow> f (rt_node (ho_route host));
     Some (host\<lparr>ho_route := (ho_route host)\<lparr>rt_node := node\<rparr>\<rparr>)
   }"

definition at_route :: "('u vroute \<Rightarrow> (int \<times> 'u vroute) option) \<Rightarrow> ('u, 'd) vhost \<Rightarrow> ('u, 'd) vhost option" where
  "at_route f host = do {
     (ret, route) \<leftarrow> f (ho_route host);
     Some (host\<lparr>ho_route := route\<rparr>)
   }"

inductive host_step :: "('u, 'd) vhost \<Rightarrow> ('u, 'd) event \<Rightarrow> ('u, 'd) vhost \<Rightarrow> bool" where
  start: "vhost_start host = (ret, host') \<Longrightarrow> host_step host EvStart host'"
| stop: "vhost_stop host = (ret, host') \<Longrightarrow> host_step host EvStop host'"
| exit: "vhost_exit host = (ret, host') \<Longrightarrow> host_step host EvExit host'"
| tick: "aux_node_tick_cb ne (ho_route host) (ho_db host) = Some (ret, route, db) \<Longrightarrow>
    host_step host (EvTick ne) (host\<lparr>ho_route := route, ho_db := db\<rparr>)"
| receive: "at_route (host_receive env um ms) host = Some host' \<Longrightarrow> host_step host (EvReceive env um ms) host'"
| send: "vmsger_pop (rt_msger (ho_route host)) = (0, Some ms, q) \<Longrightarrow>
    host_step host EvSend (host\<lparr>ho_route := (ho_route host)\<lparr>rt_msger := q\<rparr>\<rparr>)"
| join: "vhost_join env host addr = Some (ret, host') \<Longrightarrow> host_step host (EvJoin env addr) host'"
| bogus: "vhost_bogus_query env host what addr = Some (ret, host') \<Longrightarrow> host_step host (EvBogus env what addr) host'"
| post: "at_node (\<lambda>node. vnode_srvc_post mem node hash addr proto) host = Some host' \<Longrightarrow>
    host_step host (EvPost mem hash addr proto) host'"
| unpost: "at_node (\<lambda>node. vnode_srvc_unpost mem node hash a) host = Some host' \<Longrightarrow> host_step host (EvUnpost mem hash a) host'"
| unpost_ext: "at_node (\<lambda>node. vnode_srvc_unpost_ext mem node hash) host = Some host' \<Longrightarrow>
    host_step host (EvUnpostExt mem hash) host'"
| find: "at_route (vnode_srvc_find env hash ncb icb) host = Some host' \<Longrightarrow> host_step host (EvFind env hash ncb icb) host'"
| probe: "at_route (vnode_srvc_probe env hash ncb icb) host = Some host' \<Longrightarrow> host_step host (EvProbe env hash ncb icb) host'"

inductive_cases stepE [elim]: "host_step host ev host'"

inductive_simps step_simps:
  "host_step host EvStart host'" "host_step host EvStop host'" "host_step host EvExit host'"
  "host_step host (EvTick ne) host'" "host_step host EvSend host'"

inductive reachable :: "('u, 'd) vhost \<Rightarrow> ('u, 'd) vhost \<Rightarrow> bool" for host0 where
  init: "reachable host0 host0"
| step: "reachable host0 host \<Longrightarrow> host_step host ev host' \<Longrightarrow> reachable host0 host'"

subsection \<open>The modes\<close>

abbreviation mode_of :: "('u, 'd) vhost \<Rightarrow> vnode_mode" where
  "mode_of host \<equiv> vn_mode (rt_node (ho_route host))"

definition next_mode :: "('u, 'd) event \<Rightarrow> vnode_mode \<Rightarrow> vnode_mode" where
  "next_mode ev m =
     (case ev of
        EvStart \<Rightarrow> if m = VDHT_OFF then VDHT_UP else m
      | EvStop \<Rightarrow> if m = VDHT_OFF \<or> m = VDHT_ERR then m else VDHT_DOWN
      | EvExit \<Rightarrow> if m = VDHT_OFF \<or> m = VDHT_ERR then m else VDHT_DOWN
      | EvTick ne \<Rightarrow> (case m of VDHT_UP \<Rightarrow> VDHT_RUN | VDHT_DOWN \<Rightarrow> VDHT_OFF | _ \<Rightarrow> m)
      | _ \<Rightarrow> m)"

lemma keeps_mode: "keeps r r' \<Longrightarrow> vn_mode (rt_node r') = vn_mode (rt_node r)"
  by (simp add: keeps_def node_kept_def)

text \<open>Two routes that differ in the timers and the addresses of the node only.\<close>

definition same_me :: "'u vroute \<Rightarrow> 'u vroute \<Rightarrow> bool" where
  "same_me r r' \<longleftrightarrow> rt_myid r' = rt_myid r \<and> rt_props r' = rt_props r \<and> mq_pack_cb (rt_msger r') = mq_pack_cb (rt_msger r) \<and>
     (\<exists>ms. mq_msgs (rt_msger r') = mq_msgs (rt_msger r) @ ms) \<and> ni_id (vn_nodei (rt_node r')) = ni_id (vn_nodei (rt_node r))"

lemma same_me_refl [simp, intro]: "same_me r r"
  by (simp add: same_me_def)

lemma same_me_trans [trans]: "same_me a b \<Longrightarrow> same_me b c \<Longrightarrow> same_me a c"
  unfolding same_me_def by fastforce

lemma keeps_same_me: "keeps r r' \<Longrightarrow> same_me r r'"
  by (auto simp: keeps_def same_me_def node_kept_def)

lemma same_me_node [simp]: "ni_id (vn_nodei n) = ni_id (vn_nodei (rt_node r)) \<Longrightarrow> same_me r (r\<lparr>rt_node := n\<rparr>)"
  by (simp add: same_me_def)

lemma keeps_reflex_queries: "reflex_queries n i env r = Some r' \<Longrightarrow> keeps r r'"
  by (induction n arbitrary: i r) (auto simp: run_simps split: if_splits intro: keeps_trans keeps_spreads)

lemma keeps_probe_queries: "probe_queries n i env r = Some r' \<Longrightarrow> keeps r r'"
  by (induction n arbitrary: i r) (auto simp: run_simps split: if_splits intro: keeps_trans keeps_spreads)

lemma keeps_air_services: "air_services n i env r = Some r' \<Longrightarrow> keeps r r'"
  by (induction n arbitrary: i r) (auto simp: run_simps split: if_splits intro: keeps_trans keeps_spreads)

lemma keeps_boot: "load_boot_nodes env as r = Some r' \<Longrightarrow> keeps r r'"
  by (induction as arbitrary: r)
    (auto simp: aux_node_load_boot_cb_def run_simps split: if_splits intro: keeps_trans keeps_join)

lemma keeps_load: "vroute_load env junk sel r = Some (ret, r') \<Longrightarrow> keeps r r'"
  by (auto simp: vroute_load_def run_simps)

lemma keeps_store: "vroute_store opens exec r db = Some (ret, r', db') \<Longrightarrow> keeps r r'"
  by (auto simp: vroute_store_def run_simps)

text \<open>Asking for reflexive addresses changes the two counters that limit it.\<close>

definition reflex_paced :: "renv \<Rightarrow> vnode \<Rightarrow> vnode \<Rightarrow> bool" where
  "reflex_paced env n n' \<longleftrightarrow>
     vn_nreflexs n' = vn_nreflexs n \<and> vn_reflex_ts n' = vn_reflex_ts n \<or>
     vn_nreflexs n < 3 \<and> re_now env - vn_reflex_ts n \<ge> 5 \<and> vn_nreflexs n' = vn_nreflexs n + 1 \<and> vn_reflex_ts n' = re_later env"

lemma get_eaddrs_frame:
  assumes "aux_node_get_eaddrs env r = Some r'"
  shows "same_me r r'" "vn_mode (rt_node r') = vn_mode (rt_node r)" "reflex_paced env (rt_node r) (rt_node r')"
    "vn_services (rt_node r') = vn_services (rt_node r)"
proof -
  let ?n = "rt_node r"
  let ?r1 = "on_node (\<lambda>node. node\<lparr>vn_nreflexs := vn_nreflexs node + 1, vn_reflex_ts := re_later env\<rparr>) r"
  consider "r' = r" | "\<not> (vn_nreflexs ?n \<ge> 3 \<or> re_now env - vn_reflex_ts ?n < 5)"
      "reflex_queries (nat (ni_naddrs (vn_nodei ?n))) 0 env ?r1 = Some r'"
    using assms by (auto simp: aux_node_get_eaddrs_def Let_def split: if_splits)
  then have "same_me r r' \<and> vn_mode (rt_node r') = vn_mode ?n \<and> reflex_paced env ?n (rt_node r') \<and>
      vn_services (rt_node r') = vn_services ?n"
  proof cases
    case 2
    have k: "keeps ?r1 r'" using keeps_reflex_queries [OF 2(2)] .
    have "same_me r ?r1" by simp
    then show ?thesis using 2(1) k keeps_same_me [OF k] same_me_trans
      by (fastforce simp: keeps_def node_kept_def reflex_paced_def)
  qed (auto simp: reflex_paced_def)
  then show "same_me r r'" "vn_mode (rt_node r') = vn_mode (rt_node r)" "reflex_paced env (rt_node r) (rt_node r')"
    "vn_services (rt_node r') = vn_services (rt_node r)" by blast+
qed

lemma uaddrs_loop_id: "uaddrs_loop n mem upnpc i nd = Some nd' \<Longrightarrow> ni_id nd' = ni_id nd"
  by (induction n arbitrary: i nd) (auto simp: run_simps Let_def split: if_splits option.splits dest!: add_addr_id)

lemma get_uaddrs_frame:
  "aux_node_get_uaddrs mem up n = Some n' \<Longrightarrow>
     ni_id (vn_nodei n') = ni_id (vn_nodei n) \<and> vn_nreflexs n' = vn_nreflexs n \<and> vn_reflex_ts n' = vn_reflex_ts n"
  by (auto simp: aux_node_get_uaddrs_def run_simps split: option.splits dest: uaddrs_loop_id)

lemma same_me_timers [simp]:
  "same_me r (on_node (\<lambda>node. node\<lparr>vn_mode := m\<rparr>) r)" "same_me r (on_node (\<lambda>node. node\<lparr>vn_tick_ts := t\<rparr>) r)"
  "same_me r (on_node (\<lambda>node. node\<lparr>vn_wb_ts := t\<rparr>) r)"
  "same_me r (on_node (\<lambda>node. node\<lparr>vn_tick_ts := t, vn_wb_ts := t', vn_mode := m\<rparr>) r)"
  by simp_all

text \<open>What a step does to the rest: our ID, the capabilities and the queue, and the pace of the reflex queries.\<close>

definition tame :: "renv \<Rightarrow> 'u vroute \<Rightarrow> 'u vroute \<Rightarrow> bool" where
  "tame env r r' \<longleftrightarrow> same_me r r' \<and> reflex_paced env (rt_node r) (rt_node r')"

lemma keeps_tame: "keeps r r' \<Longrightarrow> tame env r r'"
  by (auto simp: tame_def keeps_same_me) (simp add: keeps_def node_kept_def reflex_paced_def)

lemma tame_keeps: "tame env a b \<Longrightarrow> keeps b c \<Longrightarrow> tame env a c"
  using same_me_trans [OF _ keeps_same_me, of a b c] by (simp add: tame_def keeps_def node_kept_def reflex_paced_def)

lemma tame_node:
  "tame env a b \<Longrightarrow> ni_id (vn_nodei n) = ni_id (vn_nodei (rt_node b)) \<Longrightarrow> vn_nreflexs n = vn_nreflexs (rt_node b) \<Longrightarrow>
     vn_reflex_ts n = vn_reflex_ts (rt_node b) \<Longrightarrow> tame env a (b\<lparr>rt_node := n\<rparr>)"
  using same_me_trans [OF _ same_me_node, of a b n] by (simp add: tame_def reflex_paced_def)

lemma keeps_node_tame:
  "keeps a b \<Longrightarrow> ni_id (vn_nodei n) = ni_id (vn_nodei (rt_node b)) \<Longrightarrow> vn_nreflexs n = vn_nreflexs (rt_node b) \<Longrightarrow>
     vn_reflex_ts n = vn_reflex_ts (rt_node b) \<Longrightarrow> tame env a (b\<lparr>rt_node := n\<rparr>)"
  by (rule tame_node [OF keeps_tame])

text \<open>A tame change followed by the reflex queries, when the counters were not touched before.\<close>

lemma same_eaddrs_tame:
  assumes "same_me r r1" "vn_nreflexs (rt_node r1) = vn_nreflexs (rt_node r)" "vn_reflex_ts (rt_node r1) = vn_reflex_ts (rt_node r)"
    "aux_node_get_eaddrs env r1 = Some r2"
  shows "tame env r r2"
  using get_eaddrs_frame(3) [OF assms(4)] same_me_trans [OF assms(1) get_eaddrs_frame(1) [OF assms(4)]] assms(2,3)
  by (simp add: tame_def reflex_paced_def)

lemma tick_up_frame:
  assumes "tick_up ne r db = Some (r', db')"
  shows "tame (ne_env ne) r r'" "vn_mode (rt_node r') = VDHT_RUN"
proof -
  let ?env = "ne_env ne"
  obtain ret r1 r2 n r3 where r1: "vroute_load ?env (ne_junk ne) (ne_select ne db) r = Some (ret, r1)"
      and r2: "load_boot_nodes ?env (ne_boot ne) r1 = Some r2"
      and n: "aux_node_get_uaddrs (re_mem ?env) (ne_upnp ne) (rt_node r2) = Some n"
      and r3: "aux_node_get_eaddrs ?env (r2\<lparr>rt_node := n\<rparr>) = Some r3"
      and r': "r' = on_node (\<lambda>node. node\<lparr>vn_tick_ts := re_now ?env, vn_wb_ts := re_now ?env, vn_mode := VDHT_RUN\<rparr>) r3"
    using assms by (auto simp: tick_up_def Let_def run_simps)
  have k: "keeps r r2" using keeps_load [OF r1] keeps_boot [OF r2] by (rule keeps_trans)
  note u = get_uaddrs_frame [OF n]
  have s: "same_me r (r2\<lparr>rt_node := n\<rparr>)" using keeps_same_me [OF k] u same_me_trans by fastforce
  have "tame ?env r r3"
    using same_eaddrs_tame [OF s _ _ r3] u k by (simp add: keeps_def node_kept_def)
  then show "tame ?env r r'" unfolding r' by (rule tame_node) simp_all
  show "vn_mode (rt_node r') = VDHT_RUN" by (simp add: r')
qed

lemma vnode_tick_frame:
  assumes "vnode_tick env r = Some r'"
  shows "tame env r r'" "vn_mode (rt_node r') = vn_mode (rt_node r)"
proof -
  obtain r1 r2 where r1: "aux_node_get_eaddrs env r = Some r1" and r2: "aux_node_probe_connectivity env r1 = Some r2"
      and r3: "air_services (varray_size (vn_services (rt_node r2))) 0 env r2 = Some r'"
    using assms by (auto simp: vnode_tick_def run_simps)
  have "keeps r1 r2" using r2 unfolding aux_node_probe_connectivity_def by (rule keeps_probe_queries)
  then have k: "keeps r1 r'" using keeps_air_services [OF r3] by (rule keeps_trans)
  have "tame env r r1" using same_eaddrs_tame [OF same_me_refl refl refl r1] .
  then show "tame env r r'" using k by (rule tame_keeps)
  show "vn_mode (rt_node r') = vn_mode (rt_node r)" using get_eaddrs_frame(2) [OF r1] keeps_mode [OF k] by simp
qed

lemma tick_node_frame:
  assumes "tick_node ne r = Some r'"
  shows "tame (ne_env ne) r r'" "vn_mode (rt_node r') = vn_mode (rt_node r)"
proof -
  let ?env = "ne_env ne"
  have "tame ?env r r' \<and> vn_mode (rt_node r') = vn_mode (rt_node r)"
  proof (cases "vn_tick_ts (rt_node r) + vn_tick_tmo (rt_node r) < re_now ?env")
    case False
    then show ?thesis using assms keeps_tame [OF keeps_refl] by (simp add: tick_node_def Let_def)
  next
    case True
    then obtain ret n r1 where n: "vnode_renice (ne_nice ne) (rt_node r) = Some (ret, n)"
        and r1: "vnode_tick ?env (r\<lparr>rt_node := n\<rparr>) = Some r1" and r': "r' = on_node (\<lambda>node. node\<lparr>vn_tick_ts := re_now ?env\<rparr>) r1"
      using assms by (auto simp: tick_node_def Let_def run_simps)
    have f: "ni_id (vn_nodei n) = ni_id (vn_nodei (rt_node r))" "vn_nreflexs n = vn_nreflexs (rt_node r)"
        "vn_reflex_ts n = vn_reflex_ts (rt_node r)" "vn_mode n = vn_mode (rt_node r)"
      using n by (auto simp: vnode_renice_def run_simps)
    have s: "same_me r (r\<lparr>rt_node := n\<rparr>)" using f by simp
    have t: "tame ?env (r\<lparr>rt_node := n\<rparr>) r1" by (rule vnode_tick_frame(1) [OF r1])
    then have "same_me r r1" using same_me_trans [OF s] unfolding tame_def by blast
    then have "tame ?env r r1" using t f by (simp add: tame_def reflex_paced_def)
    then have "tame ?env r r'" unfolding r' by (rule tame_node) simp_all
    then show ?thesis using vnode_tick_frame(2) [OF r1] f by (simp add: r')
  qed
  then show "tame ?env r r'" "vn_mode (rt_node r') = vn_mode (rt_node r)" by blast+
qed

lemma tick_run_frame:
  assumes "tick_run ne r db = Some (r', db')"
  shows "tame (ne_env ne) r r'" "vn_mode (rt_node r') = vn_mode (rt_node r)"
proof -
  obtain r1 r2 db2 ret where r1: "tick_node ne r = Some r1" and r2: "tick_store ne r1 db = Some (r2, db2)"
      and r3: "vroute_tick (ne_env ne) r2 = Some (ret, r')"
    using assms by (auto simp: tick_run_def run_simps)
  note f = tick_node_frame [OF r1]
  have s: "tame (ne_env ne) r r2 \<and> vn_mode (rt_node r2) = vn_mode (rt_node r1)"
  proof (cases "vn_wb_ts (rt_node r1) + vn_wb_tmo (rt_node r1) < re_now (ne_env ne)")
    case False
    then show ?thesis using r2 f by (simp add: tick_store_def Let_def)
  next
    case True
    then obtain a r4 db4 where r4: "vroute_store (ne_opens ne) (ne_exec ne) r1 db = Some (a, r4, db4)"
        "r2 = on_node (\<lambda>node. node\<lparr>vn_wb_ts := re_now (ne_env ne)\<rparr>) r4"
      using r2 by (auto simp: tick_store_def Let_def run_simps)
    have "tame (ne_env ne) r r4" using tame_keeps [OF f(1) keeps_store [OF r4(1)]] .
    then have "tame (ne_env ne) r r2" unfolding r4(2) by (rule tame_node) simp_all
    then show ?thesis using keeps_mode [OF keeps_store [OF r4(1)]] r4(2) by simp
  qed
  have k: "keeps r2 r'" using keeps_route_tick [OF r3] .
  show "tame (ne_env ne) r r'" using s k tame_keeps by blast
  show "vn_mode (rt_node r') = vn_mode (rt_node r)" using s f(2) keeps_mode [OF k] by simp
qed

subsection \<open>Every step\<close>

text \<open>The environment a step reads the clock from.\<close>

definition clock :: "('u, 'd) event \<Rightarrow> renv \<Rightarrow> bool" where
  "clock ev env \<longleftrightarrow> (case ev of EvTick ne \<Rightarrow> env = ne_env ne | _ \<Rightarrow> True)"

definition rest_of_node :: "vnode \<Rightarrow> vnode \<Rightarrow> bool" where
  "rest_of_node n n' \<longleftrightarrow> vn_mode n' = vn_mode n \<and> ni_id (vn_nodei n') = ni_id (vn_nodei n) \<and> vn_nreflexs n' = vn_nreflexs n \<and>
     vn_reflex_ts n' = vn_reflex_ts n"

lemma drop_service_frame: "drop_service mem n i = Some n' \<Longrightarrow> rest_of_node n n'"
  by (auto simp: drop_service_def run_simps rest_of_node_def)

lemma post_frame: "vnode_srvc_post mem n h a proto = Some (ret, n') \<Longrightarrow> rest_of_node n n'"
proof -
  assume p: "vnode_srvc_post mem n h a proto = Some (ret, n')"
  then obtain f where f: "services_scan n h = Some f" by (auto simp: vnode_srvc_post_def run_simps split: if_splits)
  show ?thesis
  proof (cases f)
    case None
    then show ?thesis using p f
      by (cases "vsrvcInfo_alloc mem") (auto simp: vnode_srvc_post_def run_simps rest_of_node_def split: if_splits)
  next
    case (Some x)
    then show ?thesis using p f
      by (cases x) (auto simp: vnode_srvc_post_def run_simps rest_of_node_def split: if_splits)
  qed
qed

lemma unpost_frame: "vnode_srvc_unpost mem n h a = Some (ret, n') \<Longrightarrow> rest_of_node n n'"
proof -
  assume p: "vnode_srvc_unpost mem n h a = Some (ret, n')"
  then obtain f where f: "services_scan n h = Some f" by (auto simp: vnode_srvc_unpost_def run_simps)
  show ?thesis
    by (cases f) (use p f in \<open>auto simp: vnode_srvc_unpost_def run_simps Let_def rest_of_node_def split: if_splits
      dest!: drop_service_frame\<close>)
qed

lemma unpost_ext_frame: "vnode_srvc_unpost_ext mem n h = Some (ret, n') \<Longrightarrow> rest_of_node n n'"
proof -
  assume p: "vnode_srvc_unpost_ext mem n h = Some (ret, n')"
  then obtain f where f: "services_scan n h = Some f" by (auto simp: vnode_srvc_unpost_ext_def run_simps)
  show ?thesis
    by (cases f) (use p f in \<open>auto simp: vnode_srvc_unpost_ext_def run_simps rest_of_node_def dest!: drop_service_frame\<close>)
qed

lemma at_node_frame:
  assumes "at_node f host = Some host'" "\<And>n ret n'. f n = Some (ret, n') \<Longrightarrow> rest_of_node n n'"
  shows "tame env (ho_route host) (ho_route host')" "mode_of host' = mode_of host" "ho_db host' = ho_db host"
proof -
  obtain ret n where n: "f (rt_node (ho_route host)) = Some (ret, n)"
      "host' = host\<lparr>ho_route := (ho_route host)\<lparr>rt_node := n\<rparr>\<rparr>"
    using assms(1) by (auto simp: at_node_def run_simps)
  have "rest_of_node (rt_node (ho_route host)) n" using assms(2) [OF n(1)] .
  then show "tame env (ho_route host) (ho_route host')" "mode_of host' = mode_of host" "ho_db host' = ho_db host"
    by (auto simp: n(2) rest_of_node_def intro: keeps_node_tame [OF keeps_refl])
qed

lemma keeps_at_route:
  assumes "at_route f host = Some host'" "\<And>r ret r'. f r = Some (ret, r') \<Longrightarrow> keeps r r'"
  shows "keeps (ho_route host) (ho_route host')" "ho_db host' = ho_db host"
  using assms by (auto simp: at_route_def run_simps)

lemma keeps_client [simp]: "keeps r (r\<lparr>rt_client := u\<rparr>)"
  by (simp add: keeps_same)

lemma keeps_find: "vnode_srvc_find env h ncb icb r = Some (ret, r') \<Longrightarrow> keeps r r'"
  by (auto simp: vnode_srvc_find_def run_simps split: option.splits if_splits dest!: keeps_find_service)

lemma keeps_probe: "vnode_srvc_probe env h ncb icb r = Some (ret, r') \<Longrightarrow> keeps r r'"
  by (auto simp: vnode_srvc_probe_def run_simps dest!: keeps_probe_service)

lemma keeps_host_join: "vhost_join env host a = Some (ret, host') \<Longrightarrow> keeps (ho_route host) (ho_route host')"
  by (auto simp: vhost_join_def run_simps split: if_splits dest!: keeps_join)

lemma keeps_host_bogus: "vhost_bogus_query env host what a = Some (ret, host') \<Longrightarrow> keeps (ho_route host) (ho_route host')"
  by (auto simp: vhost_bogus_query_def Let_def run_simps split: if_splits dest!: keeps_queries)

lemma tick_frame:
  assumes "aux_node_tick_cb ne r db = Some (ret, r', db')"
  shows "tame (ne_env ne) r r'" "vn_mode (rt_node r') = next_mode (EvTick ne) (vn_mode (rt_node r))"
proof -
  have "tame (ne_env ne) r r' \<and> vn_mode (rt_node r') = next_mode (EvTick ne) (vn_mode (rt_node r))"
  proof (cases "vn_mode (rt_node r)")
    case VDHT_UP
    then have "tick_up ne r db = Some (r', db')" using assms by (auto simp: aux_node_tick_cb_def run_simps)
    from tick_up_frame [OF this] show ?thesis using VDHT_UP by (simp add: next_mode_def)
  next
    case VDHT_RUN
    then have "tick_run ne r db = Some (r', db')" using assms by (auto simp: aux_node_tick_cb_def run_simps)
    from tick_run_frame [OF this] show ?thesis using VDHT_RUN by (simp add: next_mode_def)
  next
    case VDHT_DOWN
    then obtain a r1 where r1: "vroute_store (ne_opens ne) (ne_exec ne) r db = Some (a, r1, db')"
        "r' = on_node (\<lambda>node. node\<lparr>vn_mode := VDHT_OFF\<rparr>) r1"
      using assms by (auto simp: aux_node_tick_cb_def run_simps)
    then show ?thesis using keeps_node_tame [OF keeps_store [OF r1(1)]] VDHT_DOWN by (simp add: next_mode_def)
  qed (use assms keeps_tame in \<open>auto simp: aux_node_tick_cb_def run_simps next_mode_def\<close>)
  then show "tame (ne_env ne) r r'" "vn_mode (rt_node r') = next_mode (EvTick ne) (vn_mode (rt_node r))" by blast+
qed

lemma start_stop_frame:
  assumes "(ret, n') = vnode_start n \<or> (ret, n') = vnode_stop n"
  shows "ni_id (vn_nodei n') = ni_id (vn_nodei n)" "vn_nreflexs n' = vn_nreflexs n" "vn_reflex_ts n' = vn_reflex_ts n"
  using assms by (auto simp: vnode_start_def vnode_stop_def split: if_splits)

text \<open>The queue is the one thing that sending changes otherwise.\<close>

definition sends :: "('u, 'd) event \<Rightarrow> bool" where
  "sends ev \<longleftrightarrow> (case ev of EvSend \<Rightarrow> True | _ \<Rightarrow> False)"

lemma step_mode:
  assumes "host_step host ev host'"
  shows "mode_of host' = next_mode ev (mode_of host)"
  using assms
proof cases
  case (tick ne ret route db)
  then show ?thesis using tick_frame(2) by auto
next
  case (receive env um ms)
  then show ?thesis using keeps_mode [OF keeps_at_route(1) [OF receive(2) keeps_receive]] by (simp add: next_mode_def)
next
  case (find env hash ncb icb)
  then show ?thesis using keeps_mode [OF keeps_at_route(1) [OF find(2) keeps_find]] by (simp add: next_mode_def)
next
  case (probe env hash ncb icb)
  then show ?thesis using keeps_mode [OF keeps_at_route(1) [OF probe(2) keeps_probe]] by (simp add: next_mode_def)
next
  case (post mem hash addr proto)
  then show ?thesis using at_node_frame(2) [OF post(2) post_frame] by (simp add: next_mode_def)
next
  case (unpost mem hash a)
  then show ?thesis using at_node_frame(2) [OF unpost(2) unpost_frame] by (simp add: next_mode_def)
next
  case (unpost_ext mem hash)
  then show ?thesis using at_node_frame(2) [OF unpost_ext(2) unpost_ext_frame] by (simp add: next_mode_def)
next
  case (join env addr ret)
  then show ?thesis using keeps_mode [OF keeps_host_join [OF join(2)]] by (simp add: next_mode_def)
next
  case (bogus env what addr ret)
  then show ?thesis using keeps_mode [OF keeps_host_bogus [OF bogus(2)]] by (simp add: next_mode_def)
qed (auto simp: next_mode_def vhost_start_def vhost_stop_def vhost_exit_def vnode_start_def vnode_stop_def
    split: if_splits prod.splits)

lemma step_tame:
  assumes "host_step host ev host'" "\<not> sends ev" "clock ev env"
  shows "tame env (ho_route host) (ho_route host')"
  using assms(1)
proof cases
  case (tick ne ret route db)
  then show ?thesis using tick_frame(1) assms(3) by (auto simp: clock_def)
next
  case (receive env um ms)
  then show ?thesis using keeps_tame [OF keeps_at_route(1) [OF receive(2) keeps_receive]] by simp
next
  case (find env hash ncb icb)
  then show ?thesis using keeps_tame [OF keeps_at_route(1) [OF find(2) keeps_find]] by simp
next
  case (probe env hash ncb icb)
  then show ?thesis using keeps_tame [OF keeps_at_route(1) [OF probe(2) keeps_probe]] by simp
next
  case (post mem hash addr proto)
  then show ?thesis using at_node_frame(1) [OF post(2) post_frame] by simp
next
  case (unpost mem hash a)
  then show ?thesis using at_node_frame(1) [OF unpost(2) unpost_frame] by simp
next
  case (unpost_ext mem hash)
  then show ?thesis using at_node_frame(1) [OF unpost_ext(2) unpost_ext_frame] by simp
next
  case (join env addr ret)
  then show ?thesis using keeps_tame [OF keeps_host_join [OF join(2)]] by simp
next
  case (bogus env what addr ret)
  then show ?thesis using keeps_tame [OF keeps_host_bogus [OF bogus(2)]] by simp
qed (use assms(2) in \<open>auto simp: sends_def vhost_start_def vhost_stop_def vhost_exit_def Let_def split: prod.splits
    intro!: keeps_node_tame [OF keeps_refl] dest: start_stop_frame [OF disjI1 [OF sym]] start_stop_frame [OF disjI2 [OF sym]]\<close>)

subsection \<open>Invariants of all reachable states\<close>

text \<open>
  Of a host that was started as \<open>host0\<close>: the identity and the capabilities never change, the node is
  never in the error mode, and at most three rounds of reflex queries are sent.
\<close>

definition host_inv :: "('u, 'd) vhost \<Rightarrow> ('u, 'd) vhost \<Rightarrow> bool" where
  "host_inv host0 host \<longleftrightarrow>
     rt_myid (ho_route host) = rt_myid (ho_route host0) \<and> rt_props (ho_route host) = rt_props (ho_route host0) \<and>
     ni_id (vn_nodei (rt_node (ho_route host))) = ni_id (vn_nodei (rt_node (ho_route host0))) \<and>
     mq_pack_cb (rt_msger (ho_route host)) = mq_pack_cb (rt_msger (ho_route host0)) \<and>
     mode_of host \<noteq> VDHT_ERR \<and> vn_nreflexs (rt_node (ho_route host)) \<le> 3"

lemma next_mode_no_err: "m \<noteq> VDHT_ERR \<Longrightarrow> next_mode ev m \<noteq> VDHT_ERR"
  by (cases ev; cases m) (auto simp: next_mode_def)

lemma step_inv:
  assumes "host_inv host0 host" "host_step host ev host'"
  shows "host_inv host0 host'"
proof -
  have m: "mode_of host' \<noteq> VDHT_ERR"
    using step_mode [OF assms(2)] next_mode_no_err [of "mode_of host" ev] assms(1) by (simp add: host_inv_def)
  show ?thesis
  proof (cases "sends ev")
    case True
    then show ?thesis
      using assms m by (cases ev) (auto simp: sends_def step_simps host_inv_def vmsger_pop_def split: list.splits)
  next
    case False
    obtain env where "clock ev env" by (cases ev) (auto simp: clock_def)
    then have "tame env (ho_route host) (ho_route host')" using step_tame [OF assms(2) False] by blast
    then show ?thesis using assms(1) m by (auto simp: host_inv_def tame_def same_me_def reflex_paced_def)
  qed
qed

lemma reachable_inv:
  assumes "reachable host0 host" "mode_of host0 \<noteq> VDHT_ERR" "vn_nreflexs (rt_node (ho_route host0)) \<le> 3"
  shows "host_inv host0 host"
  using assms(1)
proof (induction rule: reachable.induct)
  case init
  then show ?case using assms(2,3) by (simp add: host_inv_def)
next
  case (step host ev host')
  then show ?case using step_inv by blast
qed

text \<open>A datagram stays in the queue, with those before it, until it is sent.\<close>

abbreviation queue_of :: "('u, 'd) vhost \<Rightarrow> vmsg_sys list" where
  "queue_of host \<equiv> mq_msgs (rt_msger (ho_route host))"

lemma step_queue:
  assumes "host_step host ev host'"
  shows "if sends ev then queue_of host \<noteq> [] \<and> queue_of host' = tl (queue_of host)
    else \<exists>ms. queue_of host' = queue_of host @ ms"
proof (cases "sends ev")
  case True
  then show ?thesis
    using assms by (cases ev) (auto simp: sends_def step_simps vmsger_pop_def split: list.splits)
next
  case False
  obtain env where "clock ev env" by (cases ev) (auto simp: clock_def)
  then have "tame env (ho_route host) (ho_route host')" using step_tame [OF assms False] by blast
  then show ?thesis using False by (simp add: tame_def same_me_def)
qed

text \<open>Starting and stopping: the next tick that returns completes the change.\<close>

lemma start_then_tick:
  assumes "mode_of host = VDHT_OFF" "host_step host EvStart host1" "host_step host1 (EvTick ne) host2"
  shows "mode_of host1 = VDHT_UP" "mode_of host2 = VDHT_RUN"
  using step_mode [OF assms(2)] step_mode [OF assms(3)] assms(1) by (simp_all add: next_mode_def)

lemma stop_then_tick:
  assumes "mode_of host \<noteq> VDHT_ERR" "host_step host EvStop host1" "host_step host1 (EvTick ne) host2"
  shows "mode_of host2 = VDHT_OFF"
  using step_mode [OF assms(2)] step_mode [OF assms(3)] assms(1) by (auto simp: next_mode_def split: if_splits)

text \<open>A tick in the mode \<open>DOWN\<close> cannot crash: the node stores its table and is off.\<close>

lemma tick_down:
  assumes "mode_of host = VDHT_DOWN" "space_wf (rt_node_space (ho_route host))"
  shows "\<exists>host'. host_step host (EvTick ne) host' \<and> mode_of host' = VDHT_OFF \<and>
    (ne_opens ne \<longrightarrow> ho_db host' =
       fold (\<lambda>n db. snd (ne_exec ne (row_of n) db)) (stored_nodes (rt_node_space (ho_route host))) (ho_db host))"
proof -
  let ?r = "ho_route host"
  obtain ret r1 db1 where s: "vroute_store (ne_opens ne) (ne_exec ne) ?r (ho_db host) = Some (ret, r1, db1)"
      "ne_opens ne \<longrightarrow> db1 = fold (\<lambda>n db. snd (ne_exec ne (row_of n) db)) (stored_nodes (rt_node_space ?r)) (ho_db host)"
    using store_spec [OF assms(2), of "ne_exec ne" "ho_db host"]
    by (cases "ne_opens ne") (simp_all add: vroute_store_def vroute_node_space_store_def [of False])
  let ?r2 = "on_node (\<lambda>node. node\<lparr>vn_mode := VDHT_OFF\<rparr>) r1"
  have "aux_node_tick_cb ne ?r (ho_db host) = Some (0, ?r2, db1)"
    using s(1) assms(1) by (simp add: aux_node_tick_cb_def)
  then have "host_step host (EvTick ne) (host\<lparr>ho_route := ?r2, ho_db := db1\<rparr>)" by (rule host_step.tick)
  then show ?thesis using s(2) by (intro exI [of _ "host\<lparr>ho_route := ?r2, ho_db := db1\<rparr>"]) simp
qed

end
