(* ===== verification/Closest.thy ===== *)
theory Closest
  imports NodeSpace
begin

section \<open>The peers closest to an ID (vroute_node.c)\<close>

text \<open>
  What \<open>find_closest_nodes\<close> of \<open>NodeSpace\<close> returns. The peers that may be returned are inserted, bucket by
  bucket, into a sorted array with \<open>aux_space_weight_cmp_cb\<close>, and the first \<open>num\<close> are copied. The comparison
  ranks peers by their XOR distance to the target when they agree in version, weight and unanswered pings; over
  other sets of peers it is no order. The interpretation \<open>by_distance\<close> of \<open>ranking\<close> gives the order of the
  result.
\<close>

subsection \<open>The loops over the buckets\<close>

definition candidate :: "node_space \<Rightarrow> vtoken \<Rightarrow> vpeer \<Rightarrow> bool" where
  "candidate space t p \<longleftrightarrow> pid p \<noteq> t \<and> ni_ver (vp_nodei p) \<noteq> vnodeVer_unknown \<and>
     vp_next_tmo p < ns_max_next_tmo_unreachable space"

definition candidates :: "node_space \<Rightarrow> vtoken \<Rightarrow> vpeer list" where
  "candidates space t = filter (candidate space t) (concat (map (bucket_list space) [0..<NBUCKETS]))"

fun add_sorted :: "vpeer list \<Rightarrow> (vpeer, vtoken) vsorted_array \<Rightarrow> (vpeer, vtoken) vsorted_array option" where
  "add_sorted [] s = Some s"
| "add_sorted (p # ps) s = do {
     (ret, s) \<leftarrow> vsorted_array_add True s (Some p);
     add_sorted ps s
   }"

lemma add_sorted_append: "add_sorted (ps @ qs) s = Option.bind (add_sorted ps s) (add_sorted qs)"
  by (induction ps arbitrary: s) (auto split: Option.bind_splits)

lemma closest_peers_adds:
  assumes "va_wf peers" "\<forall>p \<in> set (va_list peers). tok_wf (pid p) \<and> tok_wf (ni_ver (vp_nodei p))" "tok_wf t"
    "j + n = length (va_list peers)"
  shows "closest_peers True space t n j peers s = add_sorted (filter (candidate space t) (drop j (va_list peers))) s"
  using assms(4)
proof (induction n arbitrary: j s)
  case (Suc n)
  let ?p = "va_list peers ! j"
  have j: "j < length (va_list peers)" using Suc.prems by simp
  then have d: "drop j (va_list peers) = ?p # drop (j + 1) (va_list peers)" by (simp add: Cons_nth_drop_Suc [symmetric])
  have w: "tok_wf (ni_id (vp_nodei ?p))" "tok_wf (ni_ver (vp_nodei ?p))"
    using assms(2) nth_mem [OF j] by (auto simp: pid_def)
  have "closest_peers True space t n (j + 1) peers = add_sorted (filter (candidate space t) (drop (j + 1) (va_list peers)))"
    using Suc.IH [of "j + 1"] Suc.prems by (intro ext) simp
  then show ?case
    using j w assms(1,3)
    by (auto simp: d candidate_def [of space t ?p] pid_def vnodeInfo_is_fake_iff not_le split: prod.split simp del: va_list_length)
qed simp

lemma closest_buckets_adds:
  assumes "space_wf space" "tok_wf t" "i + n = NBUCKETS"
  shows "closest_buckets True space t n i s =
    add_sorted (filter (candidate space t) (concat (map (bucket_list space) [i..<NBUCKETS]))) s"
  using assms(3)
proof (induction n arbitrary: i s)
  case (Suc n)
  have i: "i < NBUCKETS" using Suc.prems by simp
  note w = space_wfD [OF assms(1) i]
  have toks: "\<forall>p \<in> set (va_list (bk_peers (ns_bucket space ! i))). tok_wf (pid p) \<and> tok_wf (ni_ver (vp_nodei p))"
    using w(2) by (auto simp: bucket_list_def peer_wf_tok pid_def)
  have "[i..<NBUCKETS] = i # [i + 1..<NBUCKETS]" using i by (simp add: upt_conv_Cons)
  moreover have "closest_buckets True space t n (i + 1) =
      add_sorted (filter (candidate space t) (concat (map (bucket_list space) [i + 1..<NBUCKETS])))"
    using Suc.IH [of "i + 1"] Suc.prems by (intro ext) simp
  ultimately show ?case
    using closest_peers_adds [OF w(1) toks assms(2), of 0 "length (bucket_list space i)" space s] w
    by (simp add: add_sorted_append bucket_list_def [of space i])
qed simp

subsection \<open>Filling the sorted array\<close>

abbreviation rank :: "vtoken \<Rightarrow> vpeer \<Rightarrow> vpeer \<Rightarrow> int" where
  "rank t \<equiv> \<lambda>y x. aux_space_weight_cmp_cb y x (Cookie t)"

definition sorter :: "vtoken \<Rightarrow> (vpeer, vtoken) vsorted_array \<Rightarrow> bool" where
  "sorter t s \<longleftrightarrow> va_wf (sa_array s) \<and> va_first (sa_array s) = VARRAY_FIRST_CAPC \<and> va_capc (sa_array s) \<in> {0, VARRAY_FIRST_CAPC} \<and>
     sa_cmp s = aux_space_weight_cmp_cb \<and> sa_cookie s = t"

abbreviation sorted_peers :: "(vpeer, vtoken) vsorted_array \<Rightarrow> vpeer list" where
  "sorted_peers s \<equiv> va_list (sa_array s)"

lemma sorter_init: "sorter t (vsorted_array_init 0 aux_space_weight_cmp_cb t)"
    "sorted_peers (vsorted_array_init 0 aux_space_weight_cmp_cb t) = []"
  by (simp_all add: sorter_def vsorted_array_init_def) (simp_all add: varray_init_def)

lemma sorter_add:
  assumes "sorter t s" "length (sorted_peers s) \<le> 30"
  shows "\<exists>s'. vsorted_array_add True s (Some p) = Some (0, s') \<and> sorter t s' \<and>
    sorted_peers s' = sorted_ins (rank t) p (sorted_peers s)"
proof -
  have "va_used (sa_array s) \<le> 30" using assms by (simp add: sorter_def)
  moreover have g: "grown_capc (sa_array s) = VARRAY_FIRST_CAPC"
    using assms \<open>va_used (sa_array s) \<le> 30\<close> by (auto simp: sorter_def grown_capc_def VARRAY_FIRST_CAPC_def)
  ultimately have "ins_fits (rank t) p (sa_array s)" by (simp add: ins_fits_def VARRAY_FIRST_CAPC_def)
  then show ?thesis
    using vsorted_array_add_spec [of s p] assms(1) g by (fastforce simp: sorter_def)
qed

lemma add_sorted_spec:
  assumes "sorter t s" "length (sorted_peers s) + length ps \<le> 31"
  shows "\<exists>s'. add_sorted ps s = Some s' \<and> sorter t s' \<and> sorted_peers s' = fold (sorted_ins (rank t)) ps (sorted_peers s)"
  using assms
proof (induction ps arbitrary: s)
  case (Cons p ps)
  obtain s1 where s1: "vsorted_array_add True s (Some p) = Some (0, s1)" "sorter t s1"
      "sorted_peers s1 = sorted_ins (rank t) p (sorted_peers s)"
    using sorter_add [OF Cons.prems(1), of p] Cons.prems(2) by auto
  have "length (sorted_peers s1) = Suc (length (sorted_peers s))" by (metis s1(3) mset_sorted_ins size_add_mset size_mset)
  then show ?case using Cons.IH [OF s1(2)] Cons.prems(2) s1(1,3) by auto
qed auto

subsection \<open>The order of the result\<close>

text \<open>Peers of one class: same version, weight and number of unanswered pings.\<close>

definition alike :: "vpeer \<Rightarrow> vpeer \<Rightarrow> bool" where
  "alike p q \<longleftrightarrow> ni_ver (vp_nodei p) = ni_ver (vp_nodei q) \<and> ni_weight (vp_nodei p) = ni_weight (vp_nodei q) \<and>
     vp_ntry_pings p = vp_ntry_pings q"

definition peer_dist :: "vtoken \<Rightarrow> vpeer \<Rightarrow> nat" where
  "peer_dist t p = be_val (vnodeId_dist (pid p) t)"

definition in_class :: "vtoken \<Rightarrow> vpeer \<Rightarrow> vpeer \<Rightarrow> bool" where
  "in_class t c p \<longleftrightarrow> tok_wf t \<and> alike c p \<and> tok_wf (pid p) \<and> tok_wf (ni_ver (vp_nodei p))"

lemma rank_distance:
  assumes "in_class t c p" "in_class t c q"
  shows "rank t q p = sgn (int (peer_dist t q) - int (peer_dist t p))"
  using assms vnodeMetric_cmp_spec [of "vnodeId_dist (pid p) t" "vnodeId_dist (pid q) t"]
  by (auto simp: aux_space_weight_cmp_cb_def in_class_def alike_def peer_dist_def pid_def)

text \<open>The order need not be total on other peers: of two with different versions, each ranks behind the other.\<close>

lemma rank_not_total:
  assumes "tok_wf (ni_ver (vp_nodei p))" "tok_wf (ni_ver (vp_nodei q))" "ni_ver (vp_nodei p) \<noteq> ni_ver (vp_nodei q)"
  shows "rank t p q < 0 \<and> rank t q p < 0"
  using assms by (auto simp: aux_space_weight_cmp_cb_def)

interpretation by_distance: ranking "in_class t c" "rank t" for t c
  by unfold_locales (auto simp: rank_distance sgn_if split: if_splits)

subsection \<open>Copying the first ones\<close>

lemma take_Cons_from: "i < length xs \<Longrightarrow> take (k - i) (drop i xs) = (if i < k then xs ! i # take (k - Suc i) (drop (Suc i) xs) else [])"
proof (cases "i < k")
  case True
  then have "k - i = Suc (k - Suc i)" by simp
  then show "i < length xs \<Longrightarrow> ?thesis" using True by (simp add: Cons_nth_drop_Suc [symmetric])
qed simp

definition peer_ok :: "vpeer \<Rightarrow> bool" where
  "peer_ok p \<longleftrightarrow> node_wf (vp_nodei p) \<and> 1 \<le> ni_naddrs (vp_nodei p) \<and> int32_ok (ni_weight (vp_nodei p)) \<and>
     int32_ok (ni_weight (vp_nodei p) - 1)"

text \<open>What a copy says of a peer; the weight of a node of our own version is handed on one lower.\<close>

definition passed_on :: "node_space \<Rightarrow> vpeer \<Rightarrow> vtoken \<times> vtoken \<times> int \<times> vsockaddr_in list" where
  "passed_on space p = (pid p, ni_ver (vp_nodei p),
     ni_weight (vp_nodei p) - (if ni_ver (vp_nodei p) = ns_myver space then 1 else 0),
     fold (addr_ins VSOCKADDR_TYPE) (ni_list (vp_nodei p)) [])"

definition told :: "vnodeInfo \<Rightarrow> vtoken \<times> vtoken \<times> int \<times> vsockaddr_in list" where
  "told n = (ni_id n, ni_ver n, ni_weight n, ni_list n)"

lemma copy_peer:
  assumes "peer_ok p" "tok_wf (ns_myver space)"
  shows "\<exists>n ret nodei w. vnodeInfo_relax_alloc True = Some n \<and> vnodeInfo_copy True n (vp_nodei p) = Some (ret, nodei) \<and>
    (if vtoken_equal (ni_ver nodei) (ns_myver space) then int_add (ni_weight nodei) (-1) else Some (ni_weight nodei)) = Some w \<and>
    told (nodei\<lparr>ni_weight := w\<rparr>) = passed_on space p"
proof -
  obtain n where n: "vnodeInfo_relax_alloc True = Some n" "node_wf n"
    by (simp add: vnodeInfo_relax_alloc_def node_wf_def tok_wf_def VTOKEN_LEN_def addrs_distinct_def ni_list_def VNODEINFO_MAX_ADDRS_def)
  note p = assms(1) [unfolded peer_ok_def]
  obtain ret nodei where c: "vnodeInfo_copy True n (vp_nodei p) = Some (ret, nodei)" "node_wf nodei"
      "ni_id nodei = pid p" "ni_ver nodei = ni_ver (vp_nodei p)" "ni_weight nodei = ni_weight (vp_nodei p)"
      "ni_list nodei = fold (addr_ins VSOCKADDR_TYPE) (ni_list (vp_nodei p)) []"
    using vnodeInfo_copy_gen [of n "vp_nodei p"] n(2) p node_wf_src [of "vp_nodei p"] by (auto simp: copy_target_def pid_def)
  have l: "ni_list (nodei\<lparr>ni_weight := x\<rparr>) = ni_list nodei" for x by (simp add: ni_list_def)
  have "vtoken_equal (ni_ver nodei) (ns_myver space) \<longleftrightarrow> ni_ver (vp_nodei p) = ns_myver space"
    using node_wf_tok(2) [OF c(2)] assms(2) c(4) by simp
  then show ?thesis using n(1) c p by (simp add: told_def passed_on_def l)
qed

lemma closest_collect_spec:
  assumes "va_wf (sa_array s)" "va_wf closest" "\<forall>p \<in> set (sorted_peers s). peer_ok p" "tok_wf (ns_myver space)"
    "i + n = length (sorted_peers s)" "i \<le> nat num"
  shows "\<exists>closest'. closest_collect True space num n i s closest = Some (int (min (nat num) (length (sorted_peers s))), closest') \<and>
    va_wf closest' \<and> map told (va_list closest') =
      map told (va_list closest) @ map (passed_on space) (take (nat num - i) (drop i (sorted_peers s)))"
  using assms(2,5,6)
proof (induction n arbitrary: i closest)
  case (Suc n)
  let ?p = "sorted_peers s ! i"
  have i: "i < length (sorted_peers s)" using Suc.prems(2) by simp
  then have g: "vsorted_array_get s (int i) = Some (Some ?p)" using assms(1) by (simp add: vsorted_array_get_def del: va_list_length)
  show ?case
  proof (cases "int i \<ge> num")
    case True
    then show ?thesis using g Suc.prems i by (auto simp: min_def)
  next
    case False
    have "peer_ok ?p" using assms(3) nth_mem [OF i] by blast
    from copy_peer [OF this assms(4)] obtain n0 ret nodei w where c: "vnodeInfo_relax_alloc True = Some n0"
        "vnodeInfo_copy True n0 (vp_nodei ?p) = Some (ret, nodei)"
        "(if vtoken_equal (ni_ver nodei) (ns_myver space) then int_add (ni_weight nodei) (-1) else Some (ni_weight nodei)) = Some w"
        "told (nodei\<lparr>ni_weight := w\<rparr>) = passed_on space ?p"
      by blast
    obtain a' where a: "varray_add_tail True closest (Some (nodei\<lparr>ni_weight := w\<rparr>)) = Some (0, a')" "va_wf a'"
        "va_list a' = va_list closest @ [nodei\<lparr>ni_weight := w\<rparr>]"
      using varray_add_tail_spec [OF Suc.prems(1)] by metis
    have "closest_collect True space num (Suc n) i s closest = closest_collect True space num n (Suc i) s a'"
      using False g c a(1) by simp
    moreover have "take (nat num - i) (drop i (sorted_peers s)) =
        ?p # take (nat num - Suc i) (drop (Suc i) (sorted_peers s))"
      using take_Cons_from [OF i, of "nat num"] False by simp
    ultimately show ?thesis using Suc.IH [OF a(2), of "Suc i"] Suc.prems False a(3) c(4) by auto
  qed
qed (use assms(1) in \<open>auto simp: min_def\<close>)

subsection \<open>The whole operation\<close>

definition nearest :: "node_space \<Rightarrow> vtoken \<Rightarrow> nat \<Rightarrow> vpeer list" where
  "nearest space t num = take num (fold (sorted_ins (rank t)) (candidates space t) [])"

theorem find_closest_spec:
  assumes "space_wf space" "tok_wf t" "length (candidates space t) \<le> 31" "\<forall>p \<in> set (candidates space t). peer_ok p" "0 < num"
    "va_wf closest"
  shows "\<exists>closest'. vroute_node_space_find_closest_nodes True space t closest num =
      Some (int (min (nat num) (length (candidates space t))), closest') \<and> va_wf closest' \<and>
    map told (va_list closest') = map told (va_list closest) @ map (passed_on space) (nearest space t (nat num))"
proof -
  let ?s0 = "vsorted_array_init 0 aux_space_weight_cmp_cb t"
  let ?sorted = "fold (sorted_ins (rank t)) (candidates space t) []"
  obtain s where s: "add_sorted (candidates space t) ?s0 = Some s" "sorter t s" "sorted_peers s = ?sorted"
    using add_sorted_spec [OF sorter_init(1), of t "candidates space t"] sorter_init(2) [of t] assms(3) by auto
  have m: "mset ?sorted = mset (candidates space t)" using mset_fold_sorted_ins [of "rank t" "candidates space t" "[]"] by simp
  then have len: "length ?sorted = length (candidates space t)" and set: "set ?sorted = set (candidates space t)"
    by (metis size_mset, metis set_mset_mset)
  have b: "closest_buckets True space t NBUCKETS 0 ?s0 = Some s"
    using closest_buckets_adds [OF assms(1,2), of 0 NBUCKETS ?s0] s(1) by (simp add: candidates_def)
  have wf: "va_wf (sa_array s)" using s(2) by (simp add: sorter_def)
  have "tok_wf (ns_myver space)" using assms(1) by (simp add: space_wf_def)
  from closest_collect_spec [OF wf assms(6) _ this, of 0 "length ?sorted" num]
  show ?thesis
    using b wf s(3) assms(4,5) len set
    by (auto simp: vroute_node_space_find_closest_nodes_def vsorted_array_size_def nearest_def simp del: va_list_length)
qed

text \<open>Among alike peers the result is the closest ones, nearest first.\<close>

lemma nearest_are_closest:
  assumes "\<forall>p \<in> set (candidates space t). in_class t c p"
  shows "sorted (map (peer_dist t) (nearest space t num))" "set (nearest space t num) \<subseteq> set (candidates space t)"
    "p \<in> set (nearest space t num) \<Longrightarrow> q \<in> set (candidates space t) \<Longrightarrow> q \<notin> set (nearest space t num) \<Longrightarrow>
       peer_dist t p \<le> peer_dist t q"
proof -
  let ?sorted = "fold (sorted_ins (rank t)) (candidates space t) []"
  have "mset ?sorted = mset (candidates space t)" using mset_fold_sorted_ins [of "rank t" "candidates space t" "[]"] by simp
  then have set: "set ?sorted = set (candidates space t)" by (metis set_mset_mset)
  then have cls: "\<forall>p \<in> set ?sorted. in_class t c p" using assms by simp
  have r: "sorted_wrt (\<lambda>a b. rank t b a \<ge> 0) ?sorted" by (rule by_distance.fold_sorted_ins_ranked) (use assms in simp_all)
  have d: "peer_dist t a \<le> peer_dist t b" if "a \<in> set ?sorted" "b \<in> set ?sorted" "rank t b a \<ge> 0" for a b
    using rank_distance [of t c a b] cls that by (auto simp: sgn_if split: if_splits)
  have "sorted_wrt (\<lambda>a b. peer_dist t a \<le> peer_dist t b) ?sorted" by (rule sorted_wrt_mono_rel [OF _ r]) (rule d)
  then show "sorted (map (peer_dist t) (nearest space t num))"
    by (simp add: nearest_def sorted_map sorted_wrt_take)
  show "set (nearest space t num) \<subseteq> set (candidates space t)" using set set_take_subset by (fastforce simp: nearest_def)
  show "p \<in> set (nearest space t num) \<Longrightarrow> q \<in> set (candidates space t) \<Longrightarrow> q \<notin> set (nearest space t num) \<Longrightarrow>
      peer_dist t p \<le> peer_dist t q"
  proof -
    assume p: "p \<in> set (nearest space t num)" and q: "q \<in> set (candidates space t)" "q \<notin> set (nearest space t num)"
    have p': "p \<in> set ?sorted" using p in_set_takeD by (fastforce simp: nearest_def)
    have "q \<in> set (take num ?sorted) \<union> set (drop num ?sorted)" using q(1) set by (metis set_append append_take_drop_id)
    then have "q \<in> set (drop num ?sorted)" using q(2) by (simp add: nearest_def)
    then have "rank t q p \<ge> 0" using by_distance.ranked_take_best [OF r] p by (simp add: nearest_def)
    then show ?thesis using d p' q(1) set by simp
  qed
qed
text \<open>
  The 32nd candidate: the array of 32 slots has room for it at the end only. If it ranks before one of the
  31 others, \<open>varray_add\<close> writes past the slots.
\<close>

theorem find_closest_overflow:
  assumes "space_wf space" "tok_wf t" "candidates space t = cs @ c # rest" "length cs = 31" "y \<in> set cs" "rank t y c \<ge> 0" "0 < num"
  shows "vroute_node_space_find_closest_nodes True space t closest num = None"
proof -
  let ?s0 = "vsorted_array_init 0 aux_space_weight_cmp_cb t"
  let ?sorted = "fold (sorted_ins (rank t)) cs []"
  obtain s where s: "add_sorted cs ?s0 = Some s" "sorter t s" "sorted_peers s = ?sorted"
    using add_sorted_spec [OF sorter_init(1), of t cs] sorter_init(2) [of t] assms(4) by auto
  have m: "mset ?sorted = mset cs" using mset_fold_sorted_ins [of "rank t" cs "[]"] by simp
  then have "length ?sorted = 31" "y \<in> set ?sorted" using assms(4,5) by (metis size_mset, metis set_mset_mset)
  then have y: "y \<in> set (sorted_peers s)" and used: "va_used (sa_array s) = 31"
    using s(2,3) va_list_length [of "sa_array s"] by (simp_all add: sorter_def del: va_list_length)
  have "grown_capc (sa_array s) = 32" using s(2) used by (auto simp: sorter_def grown_capc_def VARRAY_FIRST_CAPC_def va_wf_def)
  then have "\<not> ins_fits (rank t) c (sa_array s)" using y used assms(6) by (force simp: ins_fits_def)
  then have "vsorted_array_add True s (Some c) = None" using vsorted_array_add_spec [of s c] s(2) by (auto simp: sorter_def)
  then have "closest_buckets True space t NBUCKETS 0 ?s0 = None"
    using closest_buckets_adds [OF assms(1,2), of 0 NBUCKETS ?s0] s(1) assms(3)
    by (simp add: candidates_def [symmetric] add_sorted_append)
  then show ?thesis using assms(7) by (simp add: vroute_node_space_find_closest_nodes_def)
qed

text \<open>Both together: the nodes returned are the closest ones.\<close>

theorem find_closest_nearest:
  assumes "space_wf space" "tok_wf t" "length (candidates space t) \<le> 31" "\<forall>p \<in> set (candidates space t). peer_ok p \<and> in_class t c p"
    "0 < num" "va_wf closest" "va_list closest = []"
  shows "\<exists>near closest'. vroute_node_space_find_closest_nodes True space t closest num = Some (int (length near), closest') \<and>
    map told (va_list closest') = map (passed_on space) near \<and> length near = min (nat num) (length (candidates space t)) \<and>
    set near \<subseteq> set (candidates space t) \<and> sorted (map (peer_dist t) near) \<and>
    (\<forall>p \<in> set near. \<forall>q \<in> set (candidates space t) - set near. peer_dist t p \<le> peer_dist t q)"
proof -
  let ?near = "nearest space t (nat num)"
  have ok: "\<forall>p \<in> set (candidates space t). peer_ok p" and cls: "\<forall>p \<in> set (candidates space t). in_class t c p" using assms(4) by simp_all
  have "mset (fold (sorted_ins (rank t)) (candidates space t) []) = mset (candidates space t)"
    using mset_fold_sorted_ins [of "rank t" "candidates space t" "[]"] by simp
  then have "length (fold (sorted_ins (rank t)) (candidates space t) []) = length (candidates space t)" by (metis size_mset)
  then have len: "length ?near = min (nat num) (length (candidates space t))" by (simp add: nearest_def min.commute)
  obtain closest' where "vroute_node_space_find_closest_nodes True space t closest num =
      Some (int (min (nat num) (length (candidates space t))), closest')" "map told (va_list closest') = map (passed_on space) ?near"
    using find_closest_spec [OF assms(1-3) ok assms(5,6)] by (auto simp: assms(7))
  moreover have "\<forall>p \<in> set ?near. \<forall>q \<in> set (candidates space t) - set ?near. peer_dist t p \<le> peer_dist t q"
    using nearest_are_closest(3) [OF cls] by blast
  ultimately show ?thesis using len nearest_are_closest(1,2) [OF cls, of "nat num"] by metis
qed

end
