(* ===== verification/Locks.thy ===== *)
theory Locks
  imports VPrelude
begin

section \<open>Threads and locks (utils/vsys.c, vticker.c, vmsger.c, vroute.c, vnode.c, vrpc.c)\<close>

text \<open>
  Two kinds of threads run in the daemon: the one that sits in \<open>vhost_run\<close>, waits for the sockets and dispatches
  what arrives, and those in which the C library runs the timer's callback. They share the state of the components under
  recursive mutexes. This theory models the mutexes and, for each function that takes one, the sequence of lock operations it performs;
  what the functions compute between them is the subject of the other theories.

  The first part proves that threads whose programs take the locks in one fixed order never block each other for
  ever. The second part lists the programs of the daemon: all of them respect an order but the handler of
  reflex responses, which takes the lock of the node under the lock of the route, the reverse of what the ticks do.
\<close>

subsection \<open>Recursive mutexes\<close>

datatype vlock = LWaiter | LTicker | LLsctlCbs | LCbs | LNode | LRoute | LMsgs | LLsctlMsgs

fun lock_rank :: "vlock \<Rightarrow> nat" where
  "lock_rank LWaiter = 0"
| "lock_rank LTicker = 1"
| "lock_rank LLsctlCbs = 2"
| "lock_rank LCbs = 3"
| "lock_rank LNode = 4"
| "lock_rank LRoute = 5"
| "lock_rank LMsgs = 6"
| "lock_rank LLsctlMsgs = 7"

lemma lock_rank_inj: "lock_rank a = lock_rank b \<Longrightarrow> a = b"
  by (cases a; cases b) simp_all

instantiation vlock :: linorder
begin

definition less_eq_vlock :: "vlock \<Rightarrow> vlock \<Rightarrow> bool" where
  "less_eq_vlock a b \<longleftrightarrow> lock_rank a \<le> lock_rank b"

definition less_vlock :: "vlock \<Rightarrow> vlock \<Rightarrow> bool" where
  "less_vlock a b \<longleftrightarrow> lock_rank a < lock_rank b"

instance
  by standard (auto simp: less_eq_vlock_def less_vlock_def dest: lock_rank_inj)

end

text \<open>The owner of a mutex, and how often it entered.\<close>

type_synonym mutex = "(nat \<times> nat) option"

definition vlock_init :: mutex where
  "vlock_init = None"

text \<open>\<open>None\<close>: the caller blocks.\<close>

definition vlock_enter :: "nat \<Rightarrow> mutex \<Rightarrow> mutex option" where
  "vlock_enter t m =
     (case m of
        None \<Rightarrow> Some (Some (t, 1))
      | Some (o', n) \<Rightarrow> if o' = t then Some (Some (t, n + 1)) else None)"

text \<open>Leaving a mutex of another thread fails with an error and changes nothing.\<close>

definition vlock_leave :: "nat \<Rightarrow> mutex \<Rightarrow> mutex" where
  "vlock_leave t m =
     (case m of
        None \<Rightarrow> None
      | Some (o', n) \<Rightarrow> if o' = t then (if n \<le> 1 then None else Some (t, n - 1)) else m)"

subsection \<open>Threads\<close>

datatype lock_op = Enter vlock | Leave vlock

type_synonym prog = "lock_op list"

record world =
  w_locks :: "vlock \<Rightarrow> mutex"
  w_progs :: "prog list"

definition boot :: "prog list \<Rightarrow> world" where
  "boot ps = \<lparr>w_locks = (\<lambda>_. vlock_init), w_progs = ps\<rparr>"

text \<open>What thread \<open>t\<close> does next, if it is not blocked.\<close>

definition run_op :: "nat \<Rightarrow> lock_op \<Rightarrow> (vlock \<Rightarrow> mutex) \<Rightarrow> (vlock \<Rightarrow> mutex) option" where
  "run_op t opr ls =
     (case opr of
        Enter l \<Rightarrow> (case vlock_enter t (ls l) of None \<Rightarrow> None | Some m \<Rightarrow> Some (ls(l := m)))
      | Leave l \<Rightarrow> Some (ls(l := vlock_leave t (ls l))))"

inductive sched :: "world \<Rightarrow> world \<Rightarrow> bool" where
  "t < length (w_progs w) \<Longrightarrow> w_progs w ! t = opr # p \<Longrightarrow> run_op t opr (w_locks w) = Some ls \<Longrightarrow>
     sched w \<lparr>w_locks = ls, w_progs = (w_progs w)[t := p]\<rparr>"

inductive_cases schedE: "sched w w'"

definition all_done :: "world \<Rightarrow> bool" where
  "all_done w \<longleftrightarrow> (\<forall>p \<in> set (w_progs w). p = [])"

text \<open>Some thread is not done and none can go on.\<close>

definition deadlocked :: "world \<Rightarrow> bool" where
  "deadlocked w \<longleftrightarrow> \<not> all_done w \<and> (\<forall>w'. \<not> sched w w')"

text \<open>Executable: the threads that can go on.\<close>

definition runnable :: "world \<Rightarrow> nat list" where
  "runnable w = filter (\<lambda>t. case w_progs w ! t of [] \<Rightarrow> False | opr # p \<Rightarrow> run_op t opr (w_locks w) \<noteq> None)
     [0..<length (w_progs w)]"

lemma deadlocked_iff: "deadlocked w \<longleftrightarrow> \<not> all_done w \<and> runnable w = []"
  by (auto simp: deadlocked_def runnable_def filter_empty_conv elim!: schedE split: list.splits)
    (metis not_None_eq sched.intros)

subsection \<open>Programs that respect the order\<close>

text \<open>
  \<open>ordered held p\<close>: a thread that has entered \<open>held\<close>, the last one first, and has \<open>p\<close> to go leaves in reverse order what
  it entered, and enters a mutex only if it has it already or if it is above all it has.
\<close>

fun ordered :: "vlock list \<Rightarrow> prog \<Rightarrow> bool" where
  "ordered held [] = (held = [])"
| "ordered held (Enter l # p) = ((l \<in> set held \<or> (\<forall>k \<in> set held. k < l)) \<and> ordered (l # held) p)"
| "ordered held (Leave l # p) = (held \<noteq> [] \<and> hd held = l \<and> ordered (tl held) p)"

text \<open>The mutexes agree with what the threads have entered.\<close>

definition lock_ok :: "vlock list list \<Rightarrow> vlock \<Rightarrow> mutex \<Rightarrow> bool" where
  "lock_ok hs l m =
     (case m of
        None \<Rightarrow> \<forall>t < length hs. l \<notin> set (hs ! t)
      | Some (o', n) \<Rightarrow> o' < length hs \<and> n = count_list (hs ! o') l \<and> 0 < n \<and> (\<forall>t < length hs. t \<noteq> o' \<longrightarrow> l \<notin> set (hs ! t)))"

definition consistent :: "vlock list list \<Rightarrow> world \<Rightarrow> bool" where
  "consistent hs w \<longleftrightarrow> length hs = length (w_progs w) \<and> (\<forall>t < length hs. ordered (hs ! t) (w_progs w ! t)) \<and>
     (\<forall>l. lock_ok hs l (w_locks w l))"

lemma consistentD:
  assumes "consistent hs w"
  shows "length hs = length (w_progs w)" "t < length hs \<Longrightarrow> ordered (hs ! t) (w_progs w ! t)" "lock_ok hs l (w_locks w l)"
  using assms by (simp_all add: consistent_def)

text \<open>Entering and leaving keep the agreement.\<close>

lemma count_list_pos: "0 < count_list xs x \<longleftrightarrow> x \<in> set xs"
  by (metis count_list_0_iff gr0I less_not_refl)

lemma lock_ok_other:
  assumes "lock_ok hs l m" "t < length hs" "count_list h l = count_list (hs ! t) l"
  shows "lock_ok (hs[t := h]) l m"
proof -
  have s: "l \<in> set h \<longleftrightarrow> l \<in> set (hs ! t)" using assms(3) count_list_pos by metis
  show ?thesis
    using assms s by (cases m) (auto simp: lock_ok_def nth_list_update)
qed

lemma enter_ok:
  assumes "lock_ok hs l m" "t < length hs" "vlock_enter t m = Some m'"
  shows "lock_ok (hs[t := l # hs ! t]) l m'"
  using assms by (cases m) (auto simp: lock_ok_def vlock_enter_def nth_list_update count_notin split: if_splits)

lemma leave_ok:
  assumes "lock_ok hs l m" "t < length hs" "hs ! t = l # h"
  shows "lock_ok (hs[t := h]) l (vlock_leave t m)"
proof (cases m)
  case None
  then show ?thesis using assms by (auto simp: lock_ok_def)
next
  case (Some p)
  obtain o' n where p: "p = (o', n)" by (cases p)
  have "o' = t"
  proof (rule ccontr)
    assume "o' \<noteq> t"
    then have "l \<notin> set (hs ! t)" using assms(1,2) by (simp add: lock_ok_def Some p)
    then show False using assms(3) by simp
  qed
  then have n: "n = Suc (count_list h l)" "\<forall>u < length hs. u \<noteq> t \<longrightarrow> l \<notin> set (hs ! u)"
    using assms by (simp_all add: lock_ok_def Some p)
  show ?thesis
  proof (cases "count_list h l = 0")
    case True
    then have "l \<notin> set h" by (simp add: count_list_0_iff)
    then show ?thesis using n True \<open>o' = t\<close> assms(2) by (auto simp: lock_ok_def vlock_leave_def Some p nth_list_update)
  next
    case False
    then show ?thesis using n assms(2) \<open>o' = t\<close> by (auto simp: lock_ok_def vlock_leave_def Some p nth_list_update)
  qed
qed

lemma ordered_cases:
  assumes "ordered h (opr # p)"
  shows "\<exists>l. opr = Enter l \<and> ordered (l # h) p \<and> (l \<in> set h \<or> (\<forall>k \<in> set h. k < l)) \<or>
    (\<exists>h'. opr = Leave l \<and> h = l # h' \<and> ordered h' p)"
  using assms by (cases opr) (auto simp: neq_Nil_conv)

lemma sched_consistent:
  assumes "consistent hs w" "sched w w'"
  shows "\<exists>hs'. consistent hs' w'"
proof -
  note len = consistentD(1) [OF assms(1)]
  obtain t opr p ls where st: "t < length hs" "w_progs w ! t = opr # p" "run_op t opr (w_locks w) = Some ls"
      "w' = \<lparr>w_locks = ls, w_progs = (w_progs w)[t := p]\<rparr>"
    using assms(2) len by (auto elim!: schedE)
  note t = st(1)
  have ord: "ordered (hs ! t) (opr # p)" using consistentD(2) [OF assms(1) t] st(2) by simp
  from ordered_cases [OF ord] obtain l h where h: "ordered h p"
      "opr = Enter l \<and> h = l # hs ! t \<or> opr = Leave l \<and> hs ! t = l # h" by blast
  have "lock_ok (hs[t := h]) k (ls k)" for k
  proof (cases "k = l")
    case True
    then show ?thesis
      using h(2) st(3) enter_ok [OF consistentD(3) [OF assms(1), of l] t] leave_ok [OF consistentD(3) [OF assms(1), of l] t]
      by (auto simp: run_op_def split: option.splits)
  next
    case False
    then have "ls k = w_locks w k" "count_list h k = count_list (hs ! t) k"
      using h(2) st(3) by (auto simp: run_op_def split: option.splits)
    then show ?thesis using lock_ok_other [OF consistentD(3) [OF assms(1), of k] t] by simp
  qed
  then have "consistent (hs[t := h]) w'"
    using st(2,4) h(1) len consistentD(2) [OF assms(1)] t by (auto simp: consistent_def nth_list_update)
  then show ?thesis by blast
qed

lemma boot_consistent:
  assumes "\<forall>p \<in> set ps. ordered [] p"
  shows "consistent (replicate (length ps) []) (boot ps)"
  using assms by (auto simp: consistent_def boot_def vlock_init_def lock_ok_def)

inductive reaches :: "world \<Rightarrow> world \<Rightarrow> bool" for w0 where
  begun: "reaches w0 w0"
| go_on: "reaches w0 w \<Longrightarrow> sched w w' \<Longrightarrow> reaches w0 w'"

lemma reaches_consistent:
  assumes "reaches w0 w" "consistent hs w0"
  shows "\<exists>hs'. consistent hs' w"
  using assms
proof (induction rule: reaches.induct)
  case (go_on w w')
  then show ?case using sched_consistent by blast
qed blast

subsection \<open>No deadlock\<close>

text \<open>The thread that has the greatest mutex anyone has can go on.\<close>

lemma ordered_held: "ordered (l # h) p \<Longrightarrow> p \<noteq> []"
  by (cases p) auto

lemma consistent_runs:
  assumes "consistent hs w" "\<not> all_done w"
  shows "\<exists>w'. sched w w'"
proof -
  note len = consistentD(1) [OF assms(1)]
  define held where "held = \<Union> (set ` set hs)"
  have go: "\<exists>w'. sched w w'" if t: "t < length hs" "w_progs w ! t = opr # p"
      and free: "\<And>l. opr = Enter l \<Longrightarrow> l \<notin> set (hs ! t) \<Longrightarrow> l \<notin> held" for t opr p
  proof -
    have "run_op t opr (w_locks w) \<noteq> None"
    proof (cases opr)
      case (Enter l)
      have "vlock_enter t (w_locks w l) \<noteq> None"
      proof (cases "w_locks w l")
        case (Some m)
        obtain o' n where m: "m = (o', n)" by (cases m)
        note ok = consistentD(3) [OF assms(1), of l, unfolded lock_ok_def Some m, simplified]
        then have "l \<in> set (hs ! o')" "o' < length hs" using count_list_pos by auto
        then have "l \<in> held" by (auto simp: held_def)
        then have "l \<in> set (hs ! t)" using free Enter by blast
        then have "t = o'" using ok t(1) by blast
        then show ?thesis by (simp add: vlock_enter_def Some m)
      qed (simp add: vlock_enter_def)
      then show ?thesis by (auto simp: run_op_def Enter split: option.splits)
    qed (simp add: run_op_def)
    then show ?thesis using sched.intros t len by (metis not_None_eq)
  qed
  show ?thesis
  proof (cases "held = {}")
    case True
    obtain t where "t < length hs" "w_progs w ! t \<noteq> []" using assms(2) len by (metis all_done_def in_set_conv_nth)
    then show ?thesis using go [of t] True by (metis empty_iff neq_Nil_conv)
  next
    case False
    have fin: "finite held" by (simp add: held_def)
    define m where "m = Max held"
    have "m \<in> held" using fin False by (simp add: m_def)
    then obtain hm where "hm \<in> set hs" "m \<in> set hm" by (auto simp: held_def)
    then obtain t where t: "t < length hs" "m \<in> set (hs ! t)" by (auto simp: in_set_conv_nth [of hm])
    then obtain k h where "hs ! t = k # h" by (cases "hs ! t") auto
    then obtain opr p where p: "w_progs w ! t = opr # p"
      using consistentD(2) [OF assms(1) t(1)] ordered_held by (metis neq_Nil_conv)
    have "l \<notin> held" if l: "opr = Enter l" "l \<notin> set (hs ! t)" for l
    proof -
      have "m < l" using consistentD(2) [OF assms(1) t(1)] p l t(2) by auto
      then show ?thesis using Max_ge [OF fin, of l] leD unfolding m_def by blast
    qed
    then show ?thesis using go [OF t(1) p] by blast
  qed
qed

theorem ordered_never_deadlocks:
  assumes "\<forall>p \<in> set ps. ordered [] p" "reaches (boot ps) w"
  shows "\<not> deadlocked w"
  using reaches_consistent [OF assms(2) boot_consistent [OF assms(1)]] consistent_runs
  by (auto simp: deadlocked_def)

text \<open>Every step uses up an operation, so every run ends, and where none is left to run every thread is done.\<close>

definition steps_left :: "world \<Rightarrow> nat" where
  "steps_left w = sum_list (map length (w_progs w))"

lemma sched_steps:
  assumes "sched w w'"
  shows "Suc (steps_left w') = steps_left w"
proof -
  obtain t opr p ls where st: "t < length (w_progs w)" "w_progs w ! t = opr # p"
      "w' = \<lparr>w_locks = ls, w_progs = (w_progs w)[t := p]\<rparr>"
    using assms by (auto elim!: schedE)
  obtain xs ys where "w_progs w = xs @ (opr # p) # ys" "length xs = t"
    using st(1,2) by (metis id_take_nth_drop length_take min.absorb4)
  then show ?thesis using st(3) by (simp add: steps_left_def list_update_append)
qed

lemma steps_left_done: "steps_left w = 0 \<longleftrightarrow> all_done w"
  by (auto simp: steps_left_def all_done_def)

inductive runs :: "nat \<Rightarrow> world \<Rightarrow> world \<Rightarrow> bool" where
  "runs 0 w w"
| "sched w w' \<Longrightarrow> runs n w' w'' \<Longrightarrow> runs (Suc n) w w''"

lemma ordered_run_ends:
  assumes "consistent hs w"
  shows "\<exists>w'. runs (steps_left w) w w' \<and> all_done w'"
  using assms
proof (induction "steps_left w" arbitrary: w hs)
  case 0
  then show ?case using steps_left_done [of w] by (auto intro: runs.intros)
next
  case (Suc n)
  then obtain w1 where w1: "sched w w1" using consistent_runs steps_left_done [of w] by (metis nat.simps(3))
  then obtain hs1 where "consistent hs1 w1" using sched_consistent Suc.prems by blast
  moreover have n: "n = steps_left w1" using sched_steps [OF w1] Suc.hyps(2) by simp
  ultimately obtain w' where "runs n w1 w'" "all_done w'" using Suc.hyps(1) by blast
  then show ?case using w1 Suc.hyps(2) by (metis runs.intros(2))
qed

lemma runs_steps: "runs n w w' \<Longrightarrow> steps_left w = n + steps_left w'"
  by (induction rule: runs.induct) (auto dest: sched_steps)

lemma runs_consistent: "runs n w w' \<Longrightarrow> consistent hs w \<Longrightarrow> \<exists>hs'. consistent hs' w'"
proof (induction arbitrary: hs rule: runs.induct)
  case (2 w w' n w'')
  then show ?case using sched_consistent by blast
qed blast

text \<open>However the threads are scheduled: as long as something is left to do it can be done, and then all have returned.\<close>

theorem ordered_programs_return:
  assumes "\<forall>p \<in> set ps. ordered [] p" "runs n (boot ps) w"
  shows "n \<le> steps_left (boot ps) \<and> (n < steps_left (boot ps) \<longrightarrow> (\<exists>w'. sched w w')) \<and> (n = steps_left (boot ps) \<longrightarrow> all_done w)"
  using runs_steps [OF assms(2)] runs_consistent [OF assms(2) boot_consistent [OF assms(1)]] consistent_runs steps_left_done [of w]
  by fastforce

subsection \<open>Programs are built from critical sections\<close>

definition sync :: "vlock \<Rightarrow> prog \<Rightarrow> prog" where
  "sync l p = Enter l # p @ [Leave l]"

definition times :: "nat \<Rightarrow> prog \<Rightarrow> prog" where
  "times n p = concat (replicate n p)"

text \<open>\<open>p\<close> is in order for a thread that has entered \<open>held\<close>, and returns to \<open>held\<close>.\<close>

definition fits :: "vlock list \<Rightarrow> prog \<Rightarrow> bool" where
  "fits held p \<longleftrightarrow> (\<forall>q. ordered held q \<longrightarrow> ordered held (p @ q))"

lemma fits_Nil [simp]: "fits held []"
  by (simp add: fits_def)

lemma fits_append [intro]: "fits held p \<Longrightarrow> fits held q \<Longrightarrow> fits held (p @ q)"
  by (simp add: fits_def)

lemma fits_sync: "l \<in> set held \<or> (\<forall>k \<in> set held. k < l) \<Longrightarrow> fits (l # held) p \<Longrightarrow> fits held (sync l p)"
  by (simp add: fits_def sync_def)

lemma fits_concat: "\<forall>p \<in> set ps. fits held p \<Longrightarrow> fits held (concat ps)"
  by (induction ps) auto

lemma fits_times: "fits held p \<Longrightarrow> fits held (times n p)"
  by (auto simp: times_def intro: fits_concat)

lemma fits_ordered: "fits [] p \<Longrightarrow> ordered [] p"
  unfolding fits_def by (metis append_Nil2 ordered.simps(1))

lemmas fits_rules = fits_append fits_sync fits_concat fits_times
subsection \<open>The programs of the daemon\<close>

text \<open>
  For each function the locks it takes, with the numbers of messages, addresses and callbacks as parameters.
  Queueing a message takes the lock of the queue, a callback to a client of the control socket queues at most one.
\<close>

definition vmsger_push_locks :: prog where
  "vmsger_push_locks = sync LMsgs []"

definition client_cb_locks :: prog where
  "client_cb_locks = sync LLsctlMsgs []"

text \<open>An operation of the route: it sends \<open>n\<close> messages and calls clients back \<open>m\<close> times.\<close>

definition vroute_locks :: "nat \<Rightarrow> nat \<Rightarrow> prog" where
  "vroute_locks n m = sync LRoute (times n vmsger_push_locks @ times m client_cb_locks)"

text \<open>The operations of the node that do not call the route, among them \<open>reflex_addr\<close>.\<close>

definition vnode_locks :: prog where
  "vnode_locks = sync LNode []"

text \<open>The node's work: one query per address for each number in \<open>ns\<close>.\<close>

definition vnode_tick_locks :: "nat list \<Rightarrow> prog" where
  "vnode_tick_locks ns = sync LNode (concat (map (\<lambda>n. vroute_locks n 0) ns))"

inductive node_tick_locks :: "prog \<Rightarrow> bool" where
  off: "node_tick_locks (sync LNode [])"
| up: "node_tick_locks (sync LNode (vroute_locks 0 0 @ concat (map (\<lambda>n. vroute_locks n 0) ns)))"
| run: "node_tick_locks (sync LNode ((if due then vnode_locks @ vnode_tick_locks ns else []) @
    (if wb then vroute_locks 0 0 else []) @ vroute_locks n m))"
| down: "node_tick_locks (sync LNode (vroute_locks 0 0))"

inductive timer_locks :: "prog \<Rightarrow> bool" where
  "node_tick_locks p \<Longrightarrow> timer_locks (sync LTicker p)"

text \<open>A message from the network: the handler of reflex responses calls the node under the lock of the route.\<close>

inductive dht_msg_locks :: "bool \<Rightarrow> prog \<Rightarrow> bool" where
  plain: "dht_msg_locks reflex (sync LCbs (vroute_locks n m))"
| reflex_rsp: "dht_msg_locks True (sync LCbs (sync LRoute vnode_locks))"

text \<open>A request from the control socket: of the node, of the route, or of both one after the other; \<open>dump\<close> visits the
  node, the route and the waiter.\<close>

inductive lsctl_locks :: "prog \<Rightarrow> bool" where
  node: "lsctl_locks (sync LLsctlCbs (times k vnode_locks))"
| route: "lsctl_locks (sync LLsctlCbs (times k vnode_locks @ vroute_locks n m @ times j client_cb_locks))"
| dump: "lsctl_locks (sync LLsctlCbs (vnode_locks @ vroute_locks 0 0 @ sync LWaiter []))"

text \<open>A round of the loop: asking the queues whether they have messages, then, for each socket that is ready,
  receiving and sending.\<close>

inductive socket_locks :: "bool \<Rightarrow> prog \<Rightarrow> bool" where
  idle: "socket_locks reflex []"
| rcv_dht: "dht_msg_locks reflex p \<Longrightarrow> socket_locks reflex p"
| rcv_lsctl: "lsctl_locks p \<Longrightarrow> socket_locks reflex p"
| snd_dht: "socket_locks reflex (sync LMsgs [])"
| snd_lsctl: "socket_locks reflex (sync LLsctlMsgs [])"

inductive laundry_locks :: "bool \<Rightarrow> prog \<Rightarrow> bool" where
  "\<forall>p \<in> set ps. socket_locks reflex p \<Longrightarrow>
   laundry_locks reflex (sync LWaiter (times a (sync LMsgs []) @ times b (sync LLsctlMsgs [])) @ sync LWaiter (concat ps))"

text \<open>The threads of a daemon: timer callbacks, and one that runs the loop a number of times.\<close>

inductive daemon_thread :: "bool \<Rightarrow> prog \<Rightarrow> bool" where
  timer: "timer_locks p \<Longrightarrow> daemon_thread reflex p"
| loop: "\<forall>p \<in> set ps. laundry_locks reflex p \<Longrightarrow> daemon_thread reflex (concat ps)"

subsection \<open>Without reflex responses the order is respected\<close>

text \<open>What a section may have entered before it.\<close>

abbreviation under :: "vlock list \<Rightarrow> vlock \<Rightarrow> bool" where
  "under held l \<equiv> \<forall>k \<in> set held. k < l"

lemma less_vlock_simps [simp]:
  "LTicker < LNode" "LLsctlCbs < LNode" "LCbs < LNode" "LWaiter < LNode" "LTicker < LRoute" "LLsctlCbs < LRoute" "LCbs < LRoute"
  "LWaiter < LRoute" "LNode < LRoute" "LWaiter < LCbs" "LWaiter < LLsctlCbs" "LRoute < LMsgs" "LRoute < LLsctlMsgs"
  "LTicker < LMsgs" "LLsctlCbs < LMsgs" "LCbs < LMsgs" "LWaiter < LMsgs" "LNode < LMsgs" "LTicker < LLsctlMsgs"
  "LLsctlCbs < LLsctlMsgs" "LCbs < LLsctlMsgs" "LWaiter < LLsctlMsgs" "LNode < LLsctlMsgs"
  by (simp_all add: less_vlock_def)

lemma fits_under [intro!]: "under held l \<Longrightarrow> fits (l # held) p \<Longrightarrow> fits held (sync l p)"
  by (rule fits_sync) simp_all

lemma under_trans: "under held l \<Longrightarrow> l < l' \<Longrightarrow> under (l # held) l'"
  by auto

lemma fits_route: "under held LRoute \<Longrightarrow> fits held (vroute_locks n m)"
  unfolding vroute_locks_def vmsger_push_locks_def client_cb_locks_def
  by (intro fits_under fits_append fits_times) (auto intro: less_trans)

lemma fits_node: "under held LNode \<or> LNode \<in> set held \<Longrightarrow> fits held vnode_locks"
  unfolding vnode_locks_def by (rule fits_sync) auto

lemma fits_node_tick: "node_tick_locks p \<Longrightarrow> fits [LTicker] p"
  unfolding vnode_tick_locks_def
  by (induction rule: node_tick_locks.induct)
    (auto intro!: fits_append fits_concat fits_route fits_node fits_sync [of LNode "[LNode, LTicker]"] simp: vnode_tick_locks_def)

lemma fits_lsctl: "lsctl_locks p \<Longrightarrow> fits [LWaiter] p"
  by (induction rule: lsctl_locks.induct)
    (auto intro!: fits_append fits_times fits_route fits_node fits_sync [of LWaiter "[LLsctlCbs, LWaiter]"] simp: client_cb_locks_def)

lemma fits_laundry:
  assumes "laundry_locks False p"
  shows "fits [] p"
proof -
  have dht: "dht_msg_locks r q \<Longrightarrow> \<not> r \<Longrightarrow> fits [LWaiter] q" for r q
    by (induction rule: dht_msg_locks.induct) (auto intro!: fits_route)
  have sock: "socket_locks r q \<Longrightarrow> \<not> r \<Longrightarrow> fits [LWaiter] q" for r q
    by (induction rule: socket_locks.induct) (auto intro: dht fits_lsctl)
  from assms obtain ps a b where ps: "\<forall>p \<in> set ps. socket_locks False p"
      "p = sync LWaiter (times a (sync LMsgs []) @ times b (sync LLsctlMsgs [])) @ sync LWaiter (concat ps)"
    by cases blast
  have "fits [LWaiter] (concat ps)" by (rule fits_concat) (use ps(1) sock in blast)
  then show ?thesis unfolding ps(2) by (auto intro!: fits_append fits_times)
qed

lemma daemon_ordered: "daemon_thread False p \<Longrightarrow> ordered [] p"
  by (rule fits_ordered)
    (auto elim!: daemon_thread.cases timer_locks.cases intro: fits_concat fits_laundry fits_node_tick)

theorem daemon_without_reflex:
  assumes "\<forall>p \<in> set ps. daemon_thread False p" "reaches (boot ps) w"
  shows "\<not> deadlocked w"
  using ordered_never_deadlocks assms daemon_ordered by blast

subsection \<open>With them it can deadlock\<close>

text \<open>A schedule: which thread goes next.\<close>

fun follow :: "nat list \<Rightarrow> world \<Rightarrow> world option" where
  "follow [] w = Some w"
| "follow (t # ts) w =
     (if t < length (w_progs w)
      then (case w_progs w ! t of
              [] \<Rightarrow> None
            | opr # p \<Rightarrow>
                (case run_op t opr (w_locks w) of
                   None \<Rightarrow> None
                 | Some ls \<Rightarrow> follow ts \<lparr>w_locks = ls, w_progs = (w_progs w)[t := p]\<rparr>))
      else None)"

lemma follow_reaches: "reaches w0 w \<Longrightarrow> follow ts w = Some w' \<Longrightarrow> reaches w0 w'"
proof (induction ts arbitrary: w)
  case (Cons t ts)
  then obtain opr p ls where s: "t < length (w_progs w)" "w_progs w ! t = opr # p" "run_op t opr (w_locks w) = Some ls"
      "follow ts \<lparr>w_locks = ls, w_progs = (w_progs w)[t := p]\<rparr> = Some w'"
    by (auto split: if_splits list.splits option.splits)
  show ?case by (rule Cons.IH [OF reaches.go_on [OF Cons.prems(1) sched.intros [OF s(1-3)]] s(4)])
qed simp

text \<open>A tick of a node in the mode \<open>RUN\<close> in which nothing is due, and a round of the loop in which a reflex response arrives.\<close>

definition tick_thread :: prog where
  "tick_thread = sync LTicker (sync LNode (vroute_locks 0 0))"

definition reflex_thread :: prog where
  "reflex_thread = sync LWaiter [] @ sync LWaiter (sync LCbs (sync LRoute vnode_locks))"

lemma tick_thread_daemon: "daemon_thread r tick_thread"
proof -
  have "node_tick_locks (sync LNode (vroute_locks 0 0))" by (rule node_tick_locks.down)
  then show ?thesis unfolding tick_thread_def by (intro daemon_thread.timer timer_locks.intros)
qed

lemma reflex_thread_daemon: "daemon_thread True reflex_thread"
proof -
  have "\<forall>p \<in> set [sync LCbs (sync LRoute vnode_locks)]. socket_locks True p"
    by (auto intro: socket_locks.rcv_dht dht_msg_locks.reflex_rsp)
  from laundry_locks.intros [OF this, of 0 0] have "laundry_locks True reflex_thread" by (simp add: reflex_thread_def times_def)
  then show ?thesis using daemon_thread.loop [of "[reflex_thread]"] by simp
qed

lemma thread_ops:
  "tick_thread = [Enter LTicker, Enter LNode, Enter LRoute, Leave LRoute, Leave LNode, Leave LTicker]"
  "reflex_thread = [Enter LWaiter, Leave LWaiter, Enter LWaiter, Enter LCbs, Enter LRoute, Enter LNode, Leave LNode,
     Leave LRoute, Leave LCbs, Leave LWaiter]"
  by (simp_all add: tick_thread_def reflex_thread_def sync_def vroute_locks_def vnode_locks_def times_def)

definition stuck :: world where
  "stuck = \<lparr>w_locks = (\<lambda>_. None)(LTicker := Some (0, 1), LNode := Some (0, 1), LWaiter := Some (1, 1), LCbs := Some (1, 1),
       LRoute := Some (1, 1)),
     w_progs = [drop 2 tick_thread, drop 5 reflex_thread]\<rparr>"

lemma follow_stuck: "follow [0, 0, 1, 1, 1, 1, 1] (boot [tick_thread, reflex_thread]) = Some stuck"
  by (simp add: boot_def stuck_def thread_ops run_op_def vlock_enter_def vlock_leave_def vlock_init_def)

lemma stuck_deadlocked: "deadlocked stuck"
proof -
  have "[0..<length (w_progs stuck)] = [0, 1]" by (simp add: stuck_def upt_rec)
  then show ?thesis
    unfolding deadlocked_iff runnable_def by (simp add: all_done_def stuck_def thread_ops run_op_def vlock_enter_def)
qed

theorem reflex_deadlocks:
  "\<exists>w. reaches (boot [tick_thread, reflex_thread]) w \<and> deadlocked w"
  using follow_reaches [OF reaches.begun follow_stuck] stuck_deadlocked by blast

end
