(* ===== verification/LsctlC.thy ===== *)
theory LsctlC
  imports Msger
begin

section \<open>The client side of the control socket (lsctl/vlsctlc.c)\<close>

text \<open>
  A client binds one command to a \<open>vlsctlc\<close>, packs it into a datagram, and unpacks the response to a search. The
  buffers are byte lists; a packed datagram is built front to back in a buffer the callers have zeroed, and a
  received one is read at its front, crashing past its end. The union of the arguments is a \<open>datatype\<close>; which variant is valid follows
  from \<open>bound_cmd\<close>, and reading another one crashes.

  The client's \<open>vassert\<close> (\<open>vdhtapi_inc.h\<close>) does not put its argument in parentheses, so that \<open>vassert(len > 0)\<close>
  tests \<open>!len > 0\<close> and fails for \<open>len = 0\<close> only.
\<close>

subsection \<open>Reading fields\<close>

definition get_uint8 :: "bytes \<Rightarrow> byte option" where
  "get_uint8 b = (case b of [] \<Rightarrow> None | x # _ \<Rightarrow> Some x)"

definition get_uint16 :: "bytes \<Rightarrow> u16 option" where
  "get_uint16 b = (if length b < 2 then None else Some (of_le16 b))"

text \<open>\<open>memcpy\<close> of a service hash.\<close>

definition get_hash :: "bytes \<Rightarrow> vsrvcHash option" where
  "get_hash b = (if length b < VSRVCHASH_LEN then None else Some (take VSRVCHASH_LEN b))"

definition vassert_pos :: "int \<Rightarrow> unit option" where
  "vassert_pos n = vassert (n \<noteq> 0)"

lemma vassert_pos_bind [simp, run_simps]: "Option.bind (vassert_pos n) f = (if n \<noteq> 0 then f () else None)"
  by (simp add: vassert_pos_def)

subsection \<open>Constants and state\<close>

definition VLSCTL_MAGIC :: u32 where "VLSCTL_MAGIC = 0x10423373"
definition VLSCTL_VERSION :: byte where "VLSCTL_VERSION = 1"

abbreviation (input) vlsctl_cmd :: u16 where "vlsctl_cmd \<equiv> 0"
abbreviation (input) vlsctl_req :: u16 where "vlsctl_req \<equiv> 1"
abbreviation (input) vlsctl_rsp_succ :: byte where "vlsctl_rsp_succ \<equiv> 2"
abbreviation (input) vlsctl_rsp_err :: u16 where "vlsctl_rsp_err \<equiv> 3"
abbreviation (input) vlsctl_raw :: u16 where "vlsctl_raw \<equiv> 4"

abbreviation (input) VLSCTL_HOST_UP :: u16 where "VLSCTL_HOST_UP \<equiv> 0x10"
abbreviation (input) VLSCTL_HOST_DOWN :: u16 where "VLSCTL_HOST_DOWN \<equiv> 0x11"
abbreviation (input) VLSCTL_HOST_EXIT :: u16 where "VLSCTL_HOST_EXIT \<equiv> 0x12"
abbreviation (input) VLSCTL_HOST_DUMP :: u16 where "VLSCTL_HOST_DUMP \<equiv> 0x13"
abbreviation (input) VLSCTL_CFG_DUMP :: u16 where "VLSCTL_CFG_DUMP \<equiv> 0x20"
abbreviation (input) VLSCTL_BOGUS_QUERY :: u16 where "VLSCTL_BOGUS_QUERY \<equiv> 0x25"
abbreviation (input) VLSCTL_JOIN_NODE :: u16 where "VLSCTL_JOIN_NODE \<equiv> 0x26"
abbreviation (input) VLSCTL_POST_SERVICE :: u16 where "VLSCTL_POST_SERVICE \<equiv> 0x30"
abbreviation (input) VLSCTL_UNPOST_SERVICE :: u16 where "VLSCTL_UNPOST_SERVICE \<equiv> 0x31"
abbreviation (input) VLSCTL_FIND_SERVICE :: u16 where "VLSCTL_FIND_SERVICE \<equiv> 0x32"
abbreviation (input) VLSCTL_PROBE_SERVICE :: u16 where "VLSCTL_PROBE_SERVICE \<equiv> 0x33"

datatype vlsctlc_args =
    NoArgs
  | JoinNodeArgs sockaddr_in
  | BogusQueryArgs int sockaddr_in
  | PostServiceArgs vsrvcHash int int "vsockaddr_in list"
  | UnpostServiceArgs vsrvcHash int "sockaddr_in list"
  | FindServiceArgs vsrvcHash
  | ProbeServiceArgs vsrvcHash

record srvc_rsp =
  sr_num :: int
  sr_hash :: vsrvcHash
  sr_proto :: int
  sr_addrs :: "vsockaddr_in list"

record vlsctlc =
  lc_type :: u16
  lc_bound_cmd :: u16
  lc_args :: vlsctlc_args
  lc_rsp :: srvc_rsp

definition vlsctlc_init :: vlsctlc where
  "vlsctlc_init = \<lparr>lc_type = vlsctl_raw, lc_bound_cmd = 0, lc_args = NoArgs,
     lc_rsp = \<lparr>sr_num = 0, sr_hash = replicate VSRVCHASH_LEN 0, sr_proto = 0,
               sr_addrs = replicate (nat VSRVCINFO_MAX_ADDRS) vsockaddr_zero\<rparr>\<rparr>"

subsection \<open>Binding a command\<close>

definition bind_cmd :: "u16 \<Rightarrow> u16 \<Rightarrow> vlsctlc_args \<Rightarrow> vlsctlc \<Rightarrow> int \<times> vlsctlc" where
  "bind_cmd cmd type args c =
     (if lc_bound_cmd c > 0 then (-1, c)
      else (0, c\<lparr>lc_bound_cmd := cmd, lc_type := type, lc_args := args\<rparr>))"

definition vlsctlc_bind_cmd_host_up :: "vlsctlc \<Rightarrow> int \<times> vlsctlc" where
  "vlsctlc_bind_cmd_host_up c = bind_cmd VLSCTL_HOST_UP vlsctl_cmd (lc_args c) c"

definition vlsctlc_bind_cmd_host_down :: "vlsctlc \<Rightarrow> int \<times> vlsctlc" where
  "vlsctlc_bind_cmd_host_down c = bind_cmd VLSCTL_HOST_DOWN vlsctl_cmd (lc_args c) c"

definition vlsctlc_bind_cmd_host_exit :: "vlsctlc \<Rightarrow> int \<times> vlsctlc" where
  "vlsctlc_bind_cmd_host_exit c = bind_cmd VLSCTL_HOST_EXIT vlsctl_cmd (lc_args c) c"

definition vlsctlc_bind_cmd_host_dump :: "vlsctlc \<Rightarrow> int \<times> vlsctlc" where
  "vlsctlc_bind_cmd_host_dump c = bind_cmd VLSCTL_HOST_DUMP vlsctl_cmd (lc_args c) c"

definition vlsctlc_bind_cmd_cfg_dump :: "vlsctlc \<Rightarrow> int \<times> vlsctlc" where
  "vlsctlc_bind_cmd_cfg_dump c = bind_cmd VLSCTL_CFG_DUMP vlsctl_cmd (lc_args c) c"

definition vlsctlc_bind_cmd_join_node :: "vlsctlc \<Rightarrow> sockaddr_in \<Rightarrow> int \<times> vlsctlc" where
  "vlsctlc_bind_cmd_join_node c addr = bind_cmd VLSCTL_JOIN_NODE vlsctl_cmd (JoinNodeArgs addr) c"

definition vlsctlc_bind_cmd_bogus_query :: "vlsctlc \<Rightarrow> int \<Rightarrow> sockaddr_in \<Rightarrow> int \<times> vlsctlc" where
  "vlsctlc_bind_cmd_bogus_query c queryId addr = bind_cmd VLSCTL_BOGUS_QUERY vlsctl_cmd (BogusQueryArgs queryId addr) c"

text \<open>The loops copy \<open>num\<close> addresses into an array of 12.\<close>

definition vlsctlc_bind_cmd_post_service ::
  "vlsctlc \<Rightarrow> vsrvcHash \<Rightarrow> vsockaddr_in list \<Rightarrow> int \<Rightarrow> int \<Rightarrow> (int \<times> vlsctlc) option" where
  "vlsctlc_bind_cmd_post_service c hash addrs num proto = do {
     vassert_pos num;
     if lc_bound_cmd c > 0 then Some (-1, c)
     else do {
       vassert (num \<le> VSRVCINFO_MAX_ADDRS \<and> nat num \<le> length addrs);
       Some (bind_cmd VLSCTL_POST_SERVICE vlsctl_cmd (PostServiceArgs hash proto num (take (nat num) addrs)) c)
     }
   }"

definition vlsctlc_bind_cmd_unpost_service ::
  "vlsctlc \<Rightarrow> vsrvcHash \<Rightarrow> sockaddr_in list \<Rightarrow> int \<Rightarrow> (int \<times> vlsctlc) option" where
  "vlsctlc_bind_cmd_unpost_service c hash addrs num =
     (if lc_bound_cmd c > 0 then Some (-1, c)
      else do {
        vassert (num \<le> VSRVCINFO_MAX_ADDRS \<and> nat num \<le> length addrs);
        Some (bind_cmd VLSCTL_UNPOST_SERVICE vlsctl_cmd (UnpostServiceArgs hash num (take (nat num) addrs)) c)
      })"

definition vlsctlc_bind_cmd_find_service :: "vlsctlc \<Rightarrow> vsrvcHash \<Rightarrow> int \<times> vlsctlc" where
  "vlsctlc_bind_cmd_find_service c hash = bind_cmd VLSCTL_FIND_SERVICE vlsctl_req (FindServiceArgs hash) c"

definition vlsctlc_bind_cmd_probe_service :: "vlsctlc \<Rightarrow> vsrvcHash \<Rightarrow> int \<times> vlsctlc" where
  "vlsctlc_bind_cmd_probe_service c hash = bind_cmd VLSCTL_PROBE_SERVICE vlsctl_req (ProbeServiceArgs hash) c"

subsection \<open>Packing\<close>

definition aux_vlsctlc_pack_addr :: "int \<Rightarrow> sockaddr_in \<Rightarrow> bytes option" where
  "aux_vlsctlc_pack_addr len addr = do {
     vassert_pos len;
     Some ([0, 0] @ le16 (sin_port addr) @ le32 (sin_addr addr))
   }"

definition aux_vlsctlc_pack_vaddr :: "int \<Rightarrow> vsockaddr_in \<Rightarrow> bytes option" where
  "aux_vlsctlc_pack_vaddr len addr = do {
     vassert_pos len;
     Some ([0, 0] @ le16 (sin_port (va_addr addr)) @ le32 (sin_addr (va_addr addr)) @ le32 (va_type addr))
   }"

text \<open>A command with its ID, the length of its content, which is written last, and the content.\<close>

definition pack_cmd_body :: "u16 \<Rightarrow> bytes \<Rightarrow> bytes" where
  "pack_cmd_body cmd body = le16 cmd @ le16 (of_nat (length body)) @ body"

definition pack_cmd_plain :: "u16 \<Rightarrow> vlsctlc \<Rightarrow> int \<Rightarrow> bytes option" where
  "pack_cmd_plain cmd c len = do {
     vassert_pos len;
     if lc_bound_cmd c \<noteq> cmd then Some [] else Some (pack_cmd_body cmd [])
   }"

definition vlsctlc_pack_cmd_host_up :: "vlsctlc \<Rightarrow> int \<Rightarrow> bytes option" where
  "vlsctlc_pack_cmd_host_up = pack_cmd_plain VLSCTL_HOST_UP"

definition vlsctlc_pack_cmd_host_down :: "vlsctlc \<Rightarrow> int \<Rightarrow> bytes option" where
  "vlsctlc_pack_cmd_host_down = pack_cmd_plain VLSCTL_HOST_DOWN"

definition vlsctlc_pack_cmd_host_exit :: "vlsctlc \<Rightarrow> int \<Rightarrow> bytes option" where
  "vlsctlc_pack_cmd_host_exit = pack_cmd_plain VLSCTL_HOST_EXIT"

definition vlsctlc_pack_cmd_host_dump :: "vlsctlc \<Rightarrow> int \<Rightarrow> bytes option" where
  "vlsctlc_pack_cmd_host_dump = pack_cmd_plain VLSCTL_HOST_DUMP"

definition vlsctlc_pack_cmd_cfg_dump :: "vlsctlc \<Rightarrow> int \<Rightarrow> bytes option" where
  "vlsctlc_pack_cmd_cfg_dump = pack_cmd_plain VLSCTL_CFG_DUMP"

definition vlsctlc_pack_cmd_join_node :: "vlsctlc \<Rightarrow> int \<Rightarrow> bytes option" where
  "vlsctlc_pack_cmd_join_node c len = do {
     vassert_pos len;
     if lc_bound_cmd c \<noteq> VLSCTL_JOIN_NODE then Some []
     else
       (case lc_args c of
          JoinNodeArgs addr \<Rightarrow> do {
            body \<leftarrow> aux_vlsctlc_pack_addr (len - 4) addr;
            Some (pack_cmd_body VLSCTL_JOIN_NODE body)
          }
        | _ \<Rightarrow> None)
   }"

definition vlsctlc_pack_cmd_bogus_query :: "vlsctlc \<Rightarrow> int \<Rightarrow> bytes option" where
  "vlsctlc_pack_cmd_bogus_query c len = do {
     vassert_pos len;
     if lc_bound_cmd c \<noteq> VLSCTL_BOGUS_QUERY then Some []
     else
       (case lc_args c of
          BogusQueryArgs queryId addr \<Rightarrow> do {
            a \<leftarrow> aux_vlsctlc_pack_addr (len - 8) addr;
            Some (pack_cmd_body VLSCTL_BOGUS_QUERY (le32 (word_of_int queryId) @ a))
          }
        | _ \<Rightarrow> None)
   }"

fun pack_vaddrs :: "int \<Rightarrow> vsockaddr_in list \<Rightarrow> bytes option" where
  "pack_vaddrs len [] = Some []"
| "pack_vaddrs len (a # as) = do {
     b \<leftarrow> aux_vlsctlc_pack_vaddr len a;
     bs \<leftarrow> pack_vaddrs (len - int (length b)) as;
     Some (b @ bs)
   }"

fun pack_addrs :: "int \<Rightarrow> sockaddr_in list \<Rightarrow> bytes option" where
  "pack_addrs len [] = Some []"
| "pack_addrs len (a # as) = do {
     b \<leftarrow> aux_vlsctlc_pack_addr len a;
     bs \<leftarrow> pack_addrs (len - int (length b)) as;
     Some (b @ bs)
   }"

definition vlsctlc_pack_cmd_post_service :: "vlsctlc \<Rightarrow> int \<Rightarrow> bytes option" where
  "vlsctlc_pack_cmd_post_service c len = do {
     vassert_pos len;
     if lc_bound_cmd c \<noteq> VLSCTL_POST_SERVICE then Some []
     else
       (case lc_args c of
          PostServiceArgs hash proto naddrs addrs \<Rightarrow> do {
            as \<leftarrow> pack_vaddrs (len - 28) (take (nat naddrs) addrs);
            Some (pack_cmd_body VLSCTL_POST_SERVICE (take VSRVCHASH_LEN hash @ le32 (word_of_int proto) @ as))
          }
        | _ \<Rightarrow> None)
   }"

definition vlsctlc_pack_cmd_unpost_service :: "vlsctlc \<Rightarrow> int \<Rightarrow> bytes option" where
  "vlsctlc_pack_cmd_unpost_service c len = do {
     vassert_pos len;
     if lc_bound_cmd c \<noteq> VLSCTL_UNPOST_SERVICE then Some []
     else
       (case lc_args c of
          UnpostServiceArgs hash naddrs addrs \<Rightarrow> do {
            as \<leftarrow> pack_addrs (len - 24) (take (nat naddrs) addrs);
            Some (pack_cmd_body VLSCTL_UNPOST_SERVICE (take VSRVCHASH_LEN hash @ as))
          }
        | _ \<Rightarrow> None)
   }"

definition vlsctlc_pack_cmd_find_service :: "vlsctlc \<Rightarrow> int \<Rightarrow> bytes option" where
  "vlsctlc_pack_cmd_find_service c len = do {
     vassert_pos len;
     if lc_bound_cmd c \<noteq> VLSCTL_FIND_SERVICE then Some []
     else
       (case lc_args c of
          FindServiceArgs hash \<Rightarrow> Some (pack_cmd_body VLSCTL_FIND_SERVICE (take VSRVCHASH_LEN hash))
        | _ \<Rightarrow> None)
   }"

definition vlsctlc_pack_cmd_probe_service :: "vlsctlc \<Rightarrow> int \<Rightarrow> bytes option" where
  "vlsctlc_pack_cmd_probe_service c len = do {
     vassert_pos len;
     if lc_bound_cmd c \<noteq> VLSCTL_PROBE_SERVICE then Some []
     else
       (case lc_args c of
          ProbeServiceArgs hash \<Rightarrow> Some (pack_cmd_body VLSCTL_PROBE_SERVICE (take VSRVCHASH_LEN hash))
        | _ \<Rightarrow> None)
   }"

definition lsctlc_pack_cmd_desc :: "(vlsctlc \<Rightarrow> int \<Rightarrow> bytes option) list" where
  "lsctlc_pack_cmd_desc =
     [vlsctlc_pack_cmd_host_up, vlsctlc_pack_cmd_host_down, vlsctlc_pack_cmd_host_exit, vlsctlc_pack_cmd_host_dump,
      vlsctlc_pack_cmd_cfg_dump, vlsctlc_pack_cmd_join_node, vlsctlc_pack_cmd_bogus_query, vlsctlc_pack_cmd_post_service,
      vlsctlc_pack_cmd_unpost_service, vlsctlc_pack_cmd_find_service, vlsctlc_pack_cmd_probe_service]"

fun pack_descs :: "(vlsctlc \<Rightarrow> int \<Rightarrow> bytes option) list \<Rightarrow> vlsctlc \<Rightarrow> int \<Rightarrow> bytes option" where
  "pack_descs [] c len = Some []"
| "pack_descs (d # ds) c len = do {
     b \<leftarrow> d c len;
     bs \<leftarrow> pack_descs ds c (len - int (length b));
     Some (b @ bs)
   }"

text \<open>The datagram; its length is what the code returns.\<close>

definition vlsctlc_pack_cmd :: "vlsctlc \<Rightarrow> int \<Rightarrow> bytes option" where
  "vlsctlc_pack_cmd c len = do {
     vassert_pos len;
     body \<leftarrow> pack_descs lsctlc_pack_cmd_desc c (len - 8);
     Some ([VLSCTL_VERSION, ucast (lc_type c)] @ le16 (of_nat (length body)) @ le32 VLSCTL_MAGIC @ body)
   }"
subsection \<open>Unpacking a response\<close>

definition aux_vlsctlc_unpack_vaddr :: "bytes \<Rightarrow> int \<Rightarrow> (int \<times> vsockaddr_in) option" where
  "aux_vlsctlc_unpack_vaddr buf len = do {
     vassert_pos len;
     family \<leftarrow> get_uint8 (drop 1 buf);
     port \<leftarrow> get_uint16 (drop 2 buf);
     saddr \<leftarrow> get_uint32 (drop 4 buf);
     type \<leftarrow> get_uint32 (drop 8 buf);
     Some (12, \<lparr>va_addr = sockaddr_zero\<lparr>sin_family := ucast family, sin_port := port, sin_addr := saddr\<rparr>, va_type = type\<rparr>)
   }"

text \<open>The loop over the addresses, with \<open>len\<close> bytes to go; the 13th address does not fit into the array.\<close>

function unpack_vaddrs :: "bytes \<Rightarrow> int \<Rightarrow> nat \<Rightarrow> vsockaddr_in list \<Rightarrow> (nat \<times> vsockaddr_in list) option" where
  "unpack_vaddrs buf len i addrs =
     (if len > 0 then do {
        (sz, a) \<leftarrow> aux_vlsctlc_unpack_vaddr buf len;
        addrs \<leftarrow> wr addrs i a;
        unpack_vaddrs (drop 12 buf) (len - 12) (i + 1) addrs
      }
      else Some (i, addrs))"
  by auto
termination by (relation "measure (\<lambda>(buf, len, i, addrs). nat len)") auto

definition unpack_srvc_rsp :: "u16 \<Rightarrow> vlsctlc \<Rightarrow> bytes \<Rightarrow> int \<Rightarrow> (int \<times> vlsctlc) option" where
  "unpack_srvc_rsp cmd c buf len = do {
     vassert_pos len;
     if lc_bound_cmd c \<noteq> cmd then Some (0, c)
     else do {
       hash \<leftarrow> get_hash buf;
       proto \<leftarrow> get_uint32 (drop VSRVCHASH_LEN buf);
       (i, addrs) \<leftarrow> unpack_vaddrs (drop 24 buf) (len - 24) 0 (sr_addrs (lc_rsp c));
       Some (24 + 12 * int i, c\<lparr>lc_rsp := \<lparr>sr_num = int i, sr_hash = hash, sr_proto = sint proto, sr_addrs = addrs\<rparr>\<rparr>)
     }
   }"

definition vlsctlc_unpack_cmd_find_service_rsp :: "vlsctlc \<Rightarrow> bytes \<Rightarrow> int \<Rightarrow> (int \<times> vlsctlc) option" where
  "vlsctlc_unpack_cmd_find_service_rsp = unpack_srvc_rsp VLSCTL_FIND_SERVICE"

definition vlsctlc_unpack_cmd_probe_service_rsp :: "vlsctlc \<Rightarrow> bytes \<Rightarrow> int \<Rightarrow> (int \<times> vlsctlc) option" where
  "vlsctlc_unpack_cmd_probe_service_rsp = unpack_srvc_rsp VLSCTL_PROBE_SERVICE"

definition lsctlc_unpack_cmd_desc :: "(vlsctlc \<Rightarrow> bytes \<Rightarrow> int \<Rightarrow> (int \<times> vlsctlc) option) list" where
  "lsctlc_unpack_cmd_desc = [vlsctlc_unpack_cmd_find_service_rsp, vlsctlc_unpack_cmd_probe_service_rsp]"

text \<open>The inner \<open>for\<close> loop: the first descriptor that does not return 0; 0 if there is none.\<close>

fun try_descs ::
  "(vlsctlc \<Rightarrow> bytes \<Rightarrow> int \<Rightarrow> (int \<times> vlsctlc) option) list \<Rightarrow> vlsctlc \<Rightarrow> bytes \<Rightarrow> int \<Rightarrow> (int \<times> vlsctlc) option" where
  "try_descs [] c buf len = Some (0, c)"
| "try_descs (d # ds) c buf len = do {
     (ret, c) \<leftarrow> d c buf len;
     if ret = 0 then try_descs ds c buf len else Some (ret, c)
   }"

text \<open>
  The loops over the content of a command and over the commands need not end. They are partial functions: \<open>None\<close> is
  a run without an end, \<open>Some Crash\<close> one that crashes.
\<close>

partial_function (option) content_loop :: "vlsctlc \<Rightarrow> bytes \<Rightarrow> int \<Rightarrow> int \<Rightarrow> (int \<times> vlsctlc \<times> bytes \<times> int) outcome option" where
  "content_loop c buf cmd_len csz =
     (if cmd_len > 0 then
        (case try_descs lsctlc_unpack_cmd_desc c buf cmd_len of
           None \<Rightarrow> Some Crash
         | Some (ret, c) \<Rightarrow>
             if ret < 0 then Some (Done (-1, c, buf, csz))
             else content_loop c (drop (nat ret) buf) (cmd_len - ret) (csz + ret))
      else Some (Done (0, c, buf, csz)))"

definition cmd_head :: "bytes \<Rightarrow> (u16 \<times> u16) option" where
  "cmd_head buf = do {
     cid \<leftarrow> get_uint16 buf;
     clen \<leftarrow> get_uint16 (drop 2 buf);
     Some (cid, clen)
   }"

partial_function (option) cmds_loop :: "vlsctlc \<Rightarrow> bytes \<Rightarrow> int \<Rightarrow> int \<Rightarrow> (int \<times> vlsctlc) outcome option" where
  "cmds_loop c buf bsz csz =
     (if bsz - csz > 0 then
        (case cmd_head buf of
           None \<Rightarrow> Some Crash
         | Some (cmd_id, cmd_len) \<Rightarrow>
             Option.bind (content_loop (c\<lparr>lc_bound_cmd := cmd_id\<rparr>) (drop 4 buf) (uint cmd_len) (csz + 4)) (\<lambda>r.
               case r of
                 Crash \<Rightarrow> Some Crash
               | Done (ret, c, buf, csz) \<Rightarrow>
                   if ret < 0 then Some (Done (-1, c)) else cmds_loop c buf bsz csz))
      else Some (Done (0, c)))"

definition rsp_head :: "bytes \<Rightarrow> (byte \<times> u16 \<times> u32) option" where
  "rsp_head buf = do {
     type \<leftarrow> get_uint8 (drop 1 buf);
     bsz \<leftarrow> get_uint16 (drop 2 buf);
     magic \<leftarrow> get_uint32 (drop 4 buf);
     Some (type, bsz, magic)
   }"

definition vlsctlc_unpack_cmd :: "vlsctlc \<Rightarrow> bytes \<Rightarrow> int \<Rightarrow> (int \<times> vlsctlc) outcome option" where
  "vlsctlc_unpack_cmd c buf len =
     (if len = 0 then Some Crash
      else
        (case rsp_head buf of
           None \<Rightarrow> Some Crash
         | Some (type, bsz, magic) \<Rightarrow>
             let c = c\<lparr>lc_type := ucast type\<rparr> in
             if magic \<noteq> VLSCTL_MAGIC then Some (Done (-1, c)) else cmds_loop c (drop 8 buf) (uint bsz) 0))"

subsection \<open>Unbinding the result\<close>

definition unbind_srvc :: "u16 \<Rightarrow> vlsctlc \<Rightarrow> (int \<times> srvc_rsp option)" where
  "unbind_srvc cmd c =
     (if lc_bound_cmd c \<noteq> cmd then (-1, None)
      else if lc_type c = vlsctl_rsp_err then (-1, None)
      else (0, Some ((lc_rsp c)\<lparr>sr_addrs := take (nat (sr_num (lc_rsp c))) (sr_addrs (lc_rsp c))\<rparr>)))"

definition vlsctlc_unbind_cmd_find_service :: "vlsctlc \<Rightarrow> (int \<times> srvc_rsp option)" where
  "vlsctlc_unbind_cmd_find_service = unbind_srvc VLSCTL_FIND_SERVICE"

definition vlsctlc_unbind_cmd_probe_service :: "vlsctlc \<Rightarrow> (int \<times> srvc_rsp option)" where
  "vlsctlc_unbind_cmd_probe_service = unbind_srvc VLSCTL_PROBE_SERVICE"

end
