(* ===== verification/Lsctl.thy ===== *)
theory Lsctl
  imports Host LsctlC
begin

section \<open>The daemon's side of the control socket (vlsctl.c, vapp.c)\<close>

text \<open>
  A datagram on the control socket holds commands, each executed on the host in turn. A search allocates
  arguments (\<open>rsp_args\<close>) that the callbacks of the route fill, at once for \<open>find service\<close>, or when the answer or
  its timeout comes for \<open>probe service\<close>, and that are packed into the response. They are objects of an explicit store;
  the store, the queue of outgoing responses and a flag are the client state \<open>rt_client\<close> of the route. The flag
  \<open>ls_bad\<close> records that a callback used freed arguments or wrote past their addresses, where the code has undefined behaviour.

  Names of sockets are byte lists. The buffer of a received datagram is 8192 bytes long and zero after its end.
\<close>

subsection \<open>State\<close>

record rsp_args =
  ra_cmd_id :: u16
  ra_from :: bytes
  ra_total :: int
  ra_hash :: vsrvcHash
  ra_proto :: int
  ra_index :: nat
  ra_addrs :: "vsockaddr_in list"

record lsctl =
  ls_args :: "nat \<Rightarrow> rsp_args option"
  ls_next :: nat
  ls_queue :: "(bytes \<times> bytes) list"
  ls_bad :: bool

type_synonym 'd app = "(lsctl, 'd) vhost"

abbreviation lsctl_of :: "'d app \<Rightarrow> lsctl" where
  "lsctl_of app \<equiv> rt_client (ho_route app)"

abbreviation set_lsctl :: "lsctl \<Rightarrow> 'd app \<Rightarrow> 'd app" where
  "set_lsctl s app \<equiv> app\<lparr>ho_route := (ho_route app)\<lparr>rt_client := s\<rparr>\<rparr>"

text \<open>\<open>malloc\<close>, \<open>free\<close> and an update of the arguments.\<close>

definition new_args :: "rsp_args \<Rightarrow> lsctl \<Rightarrow> nat \<times> lsctl" where
  "new_args a s = (ls_next s, s\<lparr>ls_args := (ls_args s)(ls_next s \<mapsto> a), ls_next := ls_next s + 1\<rparr>)"

definition free_args :: "nat \<Rightarrow> lsctl \<Rightarrow> lsctl" where
  "free_args p s = (case ls_args s p of None \<Rightarrow> s\<lparr>ls_bad := True\<rparr> | Some a \<Rightarrow> s\<lparr>ls_args := (ls_args s)(p := None)\<rparr>)"

definition with_args :: "nat \<Rightarrow> (rsp_args \<Rightarrow> rsp_args option) \<Rightarrow> lsctl \<Rightarrow> lsctl" where
  "with_args p f s =
     (case Option.bind (ls_args s p) f of
        None \<Rightarrow> s\<lparr>ls_bad := True\<rparr>
      | Some a \<Rightarrow> s\<lparr>ls_args := (ls_args s)(p \<mapsto> a)\<rparr>)"

subsection \<open>The operations of the application (vapp.c)\<close>

definition vappmain_start_host :: "'d app \<Rightarrow> int \<times> 'd app" where
  "vappmain_start_host app = (let (ret, app) = vhost_start app in (if ret < 0 then -1 else 0, app))"

definition vappmain_stop_host :: "'d app \<Rightarrow> int \<times> 'd app" where
  "vappmain_stop_host app = (let (ret, app) = vhost_stop app in (if ret < 0 then -1 else 0, app))"

definition vappmain_make_host_exit :: "'d app \<Rightarrow> 'd app" where
  "vappmain_make_host_exit app = snd (vhost_exit app)"

definition vappmain_join_wellknown_node :: "renv \<Rightarrow> 'd app \<Rightarrow> sockaddr_in \<Rightarrow> (int \<times> 'd app) option" where
  "vappmain_join_wellknown_node env app wellknown_addr = do {
     (ret, app) \<leftarrow> vhost_join env app wellknown_addr;
     Some (if ret < 0 then -1 else 0, app)
   }"

definition vappmain_bogus_query :: "renv \<Rightarrow> 'd app \<Rightarrow> int \<Rightarrow> sockaddr_in \<Rightarrow> (int \<times> 'd app) option" where
  "vappmain_bogus_query env app queryId wellknown_addr =
     (if queryId \<noteq> VDHT_PING \<and> queryId \<noteq> VDHT_FIND_NODE \<and> queryId \<noteq> VDHT_FIND_CLOSEST_NODES then Some (-1, app)
      else do {
        (ret, app) \<leftarrow> vhost_bogus_query env app queryId wellknown_addr;
        Some (if ret < 0 then -1 else 0, app)
      })"

text \<open>The operations on the services of the node.\<close>

definition on_vnode :: "(vnode \<Rightarrow> (int \<times> vnode) option) \<Rightarrow> 'd app \<Rightarrow> (int \<times> 'd app) option" where
  "on_vnode f app = do {
     (ret, node) \<leftarrow> f (rt_node (ho_route app));
     Some (if ret < 0 then -1 else 0, app\<lparr>ho_route := (ho_route app)\<lparr>rt_node := node\<rparr>\<rparr>)
   }"

definition vappmain_post_service_segment ::
  "bool \<Rightarrow> 'd app \<Rightarrow> vsrvcHash \<Rightarrow> vsockaddr_in \<Rightarrow> int \<Rightarrow> (int \<times> 'd app) option" where
  "vappmain_post_service_segment mem app hash addr proto = on_vnode (\<lambda>node. vnode_srvc_post mem node hash addr proto) app"

definition vappmain_unpost_service_segment ::
  "bool \<Rightarrow> 'd app \<Rightarrow> vsrvcHash \<Rightarrow> sockaddr_in \<Rightarrow> (int \<times> 'd app) option" where
  "vappmain_unpost_service_segment mem app hash addr = on_vnode (\<lambda>node. vnode_srvc_unpost mem node hash addr) app"

definition vappmain_unpost_service :: "bool \<Rightarrow> 'd app \<Rightarrow> vsrvcHash \<Rightarrow> (int \<times> 'd app) option" where
  "vappmain_unpost_service mem app hash = on_vnode (\<lambda>node. vnode_srvc_unpost_ext mem node hash) app"

definition vappmain_find_service ::
  "renv \<Rightarrow> 'd app \<Rightarrow> vsrvcHash \<Rightarrow> lsctl number_cb \<Rightarrow> lsctl addr_cb \<Rightarrow> (int \<times> 'd app) option" where
  "vappmain_find_service env app hash ncb icb = do {
     (ret, route) \<leftarrow> vnode_srvc_find env hash ncb icb (ho_route app);
     Some (if ret < 0 then -1 else 0, app\<lparr>ho_route := route\<rparr>)
   }"

definition vappmain_probe_service ::
  "renv \<Rightarrow> 'd app \<Rightarrow> vsrvcHash \<Rightarrow> lsctl number_cb \<Rightarrow> lsctl addr_cb \<Rightarrow> (int \<times> 'd app) option" where
  "vappmain_probe_service env app hash ncb icb = do {
     (ret, route) \<leftarrow> vnode_srvc_probe env hash ncb icb (ho_route app);
     Some (if ret < 0 then -1 else 0, app\<lparr>ho_route := route\<rparr>)
   }"

subsection \<open>Packing responses\<close>

definition aux_vlsctl_pack_vaddr :: "int \<Rightarrow> vsockaddr_in \<Rightarrow> bytes option" where
  "aux_vlsctl_pack_vaddr len addr = do {
     vassert (0 < len);
     Some ([0, ucast (sin_family (va_addr addr))] @ le16 (sin_port (va_addr addr)) @ le32 (sin_addr (va_addr addr)) @
           le32 (va_type addr))
   }"

fun pack_rsp_addrs :: "nat \<Rightarrow> nat \<Rightarrow> int \<Rightarrow> vsockaddr_in list \<Rightarrow> bytes option" where
  "pack_rsp_addrs 0 i len addrs = Some []"
| "pack_rsp_addrs (Suc n) i len addrs = do {
     a \<leftarrow> rd addrs i;
     b \<leftarrow> aux_vlsctl_pack_vaddr len a;
     bs \<leftarrow> pack_rsp_addrs n (i + 1) (len - int (length b)) addrs;
     Some (b @ bs)
   }"

definition pack_srvc_rsp :: "u16 \<Rightarrow> int \<Rightarrow> rsp_args \<Rightarrow> bytes option" where
  "pack_srvc_rsp cmd len args = do {
     vassert (0 < len);
     as \<leftarrow> pack_rsp_addrs (nat (ra_total args)) 0 (len - 28) (ra_addrs args);
     Some (pack_cmd_body cmd (ra_hash args @ le32 (word_of_int (ra_proto args)) @ as))
   }"

definition vlsctl_pack_find_service_rsp :: "int \<Rightarrow> rsp_args \<Rightarrow> bytes option" where
  "vlsctl_pack_find_service_rsp = pack_srvc_rsp VLSCTL_FIND_SERVICE"

definition vlsctl_pack_probe_service_rsp :: "int \<Rightarrow> rsp_args \<Rightarrow> bytes option" where
  "vlsctl_pack_probe_service_rsp = pack_srvc_rsp VLSCTL_PROBE_SERVICE"

definition vlsctl_pack_cmd :: "int \<Rightarrow> rsp_args \<Rightarrow> (int \<times> bytes) option" where
  "vlsctl_pack_cmd len args = do {
     vassert (0 < len);
     if ra_cmd_id args = VLSCTL_FIND_SERVICE \<or> ra_cmd_id args = VLSCTL_PROBE_SERVICE then do {
       body \<leftarrow> (if ra_cmd_id args = VLSCTL_FIND_SERVICE then vlsctl_pack_find_service_rsp (len - 8) args
               else vlsctl_pack_probe_service_rsp (len - 8) args);
       let m = [VLSCTL_VERSION, vlsctl_rsp_succ] @ le16 (of_nat (length body)) @ le32 VLSCTL_MAGIC @ body;
       Some (int (length m), m)
     }
     else Some (-1, [])
   }"

text \<open>Packing the arguments \<open>p\<close>, freeing them, and queueing the response to \<open>from\<close>; without memory for the buffer they are just freed.\<close>

definition push_rsp :: "bool \<Rightarrow> nat \<Rightarrow> bytes \<Rightarrow> lsctl \<Rightarrow> int \<times> lsctl" where
  "push_rsp mem p from s =
     (case ls_args s p of
        None \<Rightarrow> (-1, s\<lparr>ls_bad := True\<rparr>)
      | Some args \<Rightarrow>
          if \<not> mem then (-1, free_args p s)
          else
            (case vlsctl_pack_cmd BUF_SZ args of
               None \<Rightarrow> (-1, s\<lparr>ls_bad := True\<rparr>)
             | Some (ret, m) \<Rightarrow>
                 let s = free_args p s in
                 if ret < 0 then (-1, s) else (0, s\<lparr>ls_queue := ls_queue s @ [(from, m)]\<rparr>)))"
subsection \<open>Callbacks of the searches\<close>

definition aux_vlsctl_number_addr_cb1 :: "nat \<Rightarrow> lsctl number_cb" where
  "aux_vlsctl_number_addr_cb1 p hash naddrs proto = with_args p (\<lambda>a. Some (a\<lparr>ra_total := naddrs, ra_proto := proto\<rparr>))"

definition put_addr :: "sockaddr_in \<Rightarrow> u32 \<Rightarrow> rsp_args \<Rightarrow> rsp_args option" where
  "put_addr addr type a = do {
     addrs \<leftarrow> wr (ra_addrs a) (ra_index a) \<lparr>va_addr = addr, va_type = type\<rparr>;
     Some (a\<lparr>ra_addrs := addrs, ra_index := ra_index a + 1\<rparr>)
   }"

definition aux_vlsctl_iterate_addr_cb1 :: "nat \<Rightarrow> lsctl addr_cb" where
  "aux_vlsctl_iterate_addr_cb1 p hash addr type last' = with_args p (put_addr addr type)"

definition from_of :: "nat \<Rightarrow> lsctl \<Rightarrow> bytes" where
  "from_of p s = (case ls_args s p of None \<Rightarrow> [] | Some a \<Rightarrow> ra_from a)"

definition aux_vlsctl_number_addr_cb2 :: "bool \<Rightarrow> nat \<Rightarrow> lsctl number_cb" where
  "aux_vlsctl_number_addr_cb2 mem p hash naddrs proto s =
     (let s = with_args p (\<lambda>a. Some (a\<lparr>ra_total := naddrs, ra_proto := proto\<rparr>)) s
      in if naddrs = 0 then snd (push_rsp mem p (from_of p s) s) else s)"

definition aux_vlsctl_iterate_addr_cb2 :: "bool \<Rightarrow> nat \<Rightarrow> lsctl addr_cb" where
  "aux_vlsctl_iterate_addr_cb2 mem p hash addr type last' s =
     (let s = with_args p (put_addr addr type) s
      in if last' then snd (push_rsp mem p (from_of p s) s) else s)"

subsection \<open>Reading addresses of a request\<close>

definition aux_lsctl_unpack_addr :: "bytes \<Rightarrow> int \<Rightarrow> (int \<times> sockaddr_in) option" where
  "aux_lsctl_unpack_addr buf len = do {
     vassert (0 < len);
     port \<leftarrow> get_uint16 (drop 2 buf);
     saddr \<leftarrow> get_uint32 (drop 4 buf);
     Some (8, vsockaddr_convert2 (htonl saddr) (htons port))
   }"

definition aux_lsctl_unpack_vaddr :: "bytes \<Rightarrow> int \<Rightarrow> (int \<times> vsockaddr_in) option" where
  "aux_lsctl_unpack_vaddr buf len = do {
     vassert (0 < len);
     port \<leftarrow> get_uint16 (drop 2 buf);
     saddr \<leftarrow> get_uint32 (drop 4 buf);
     type \<leftarrow> get_uint32 (drop 8 buf);
     Some (12, \<lparr>va_addr = vsockaddr_convert2 (htonl saddr) (htons port), va_type = type\<rparr>)
   }"

subsection \<open>Executing commands\<close>

type_synonym 'd exec_cmd = "renv \<Rightarrow> 'd app \<Rightarrow> bytes \<Rightarrow> int \<Rightarrow> bytes \<Rightarrow> (int \<times> 'd app) option"

definition vlsctl_exec_cmd_host_up :: "'d exec_cmd" where
  "vlsctl_exec_cmd_host_up env app buf len sender = do {
     vassert (0 \<le> len);
     let (ret, app) = vappmain_start_host app;
     Some (if ret < 0 then -1 else 0, app)
   }"

definition vlsctl_exec_cmd_host_down :: "'d exec_cmd" where
  "vlsctl_exec_cmd_host_down env app buf len sender = do {
     vassert (0 \<le> len);
     let (ret, app) = vappmain_stop_host app;
     Some (if ret < 0 then -1 else 0, app)
   }"

definition vlsctl_exec_cmd_host_exit :: "'d exec_cmd" where
  "vlsctl_exec_cmd_host_exit env app buf len sender = do {
     vassert (0 \<le> len);
     Some (0, vappmain_make_host_exit app)
   }"

text \<open>Dumping only writes to the standard output.\<close>

definition vlsctl_exec_cmd_host_dump :: "'d exec_cmd" where
  "vlsctl_exec_cmd_host_dump env app buf len sender = do { vassert (0 \<le> len); Some (0, app) }"

definition vlsctl_exec_cmd_cfg_dump :: "'d exec_cmd" where
  "vlsctl_exec_cmd_cfg_dump env app buf len sender = do { vassert (0 \<le> len); Some (0, app) }"

definition vlsctl_exec_cmd_join_node :: "'d exec_cmd" where
  "vlsctl_exec_cmd_join_node env app buf len sender = do {
     vassert (0 < len);
     (tsz, addr) \<leftarrow> aux_lsctl_unpack_addr buf len;
     (ret, app) \<leftarrow> vappmain_join_wellknown_node env app addr;
     Some (if ret < 0 then -1 else tsz, app)
   }"

definition vlsctl_exec_cmd_bogus_query :: "'d exec_cmd" where
  "vlsctl_exec_cmd_bogus_query env app buf len sender = do {
     vassert (0 < len);
     qId \<leftarrow> get_uint32 buf;
     (tsz, addr) \<leftarrow> aux_lsctl_unpack_addr (drop 4 buf) (len - 4);
     (ret, app) \<leftarrow> vappmain_bogus_query env app (sint qId) addr;
     Some (if ret < 0 then -1 else 4 + tsz, app)
   }"

text \<open>The loops over the addresses, with \<open>len\<close> bytes to go; they return the bytes read.\<close>

function post_segments ::
  "renv \<Rightarrow> 'd app \<Rightarrow> vsrvcHash \<Rightarrow> int \<Rightarrow> bytes \<Rightarrow> int \<Rightarrow> int \<Rightarrow> (int \<times> 'd app) option" where
  "post_segments env app hash proto buf len tsz =
     (if len > 0 then do {
        (sz, addr) \<leftarrow> aux_lsctl_unpack_vaddr buf len;
        (ret, app) \<leftarrow> vappmain_post_service_segment (re_mem env) app hash addr proto;
        if ret < 0 then Some (-1, app) else post_segments env app hash proto (drop 12 buf) (len - 12) (tsz + 12)
      }
      else Some (tsz, app))"
  by auto
termination by (relation "measure (\<lambda>(env, app, hash, proto, buf, len, tsz). nat len)") auto

function unpost_segments ::
  "renv \<Rightarrow> 'd app \<Rightarrow> vsrvcHash \<Rightarrow> bytes \<Rightarrow> int \<Rightarrow> int \<Rightarrow> (int \<times> 'd app) option" where
  "unpost_segments env app hash buf len tsz =
     (if len > 0 then do {
        (sz, addr) \<leftarrow> aux_lsctl_unpack_addr buf len;
        (ret, app) \<leftarrow> vappmain_unpost_service_segment (re_mem env) app hash addr;
        if ret < 0 then Some (-1, app) else unpost_segments env app hash (drop 8 buf) (len - 8) (tsz + 8)
      }
      else Some (tsz, app))"
  by auto
termination by (relation "measure (\<lambda>(env, app, hash, buf, len, tsz). nat len)") auto

definition vlsctl_exec_cmd_post_service :: "'d exec_cmd" where
  "vlsctl_exec_cmd_post_service env app buf len sender = do {
     vassert (0 < len);
     hash \<leftarrow> get_hash buf;
     proto \<leftarrow> get_uint32 (drop VSRVCHASH_LEN buf);
     post_segments env app hash (sint proto) (drop 24 buf) (len - 24) 24
   }"

definition vlsctl_exec_cmd_unpost_service :: "'d exec_cmd" where
  "vlsctl_exec_cmd_unpost_service env app buf len sender = do {
     vassert (0 < len);
     hash \<leftarrow> get_hash buf;
     (tsz, app) \<leftarrow> unpost_segments env app hash (drop VSRVCHASH_LEN buf) (len - 20) 20;
     if tsz < 0 then Some (-1, app)
     else if tsz \<le> 20 then do {
       (ret, app) \<leftarrow> vappmain_unpost_service (re_mem env) app hash;
       Some (if ret < 0 then -1 else tsz, app)
     }
     else Some (tsz, app)
   }"

definition srvc_args :: "u16 \<Rightarrow> bytes \<Rightarrow> vsrvcHash \<Rightarrow> rsp_args" where
  "srvc_args cmd sender hash = \<lparr>ra_cmd_id = cmd, ra_from = sender, ra_total = 0, ra_hash = hash, ra_proto = 0, ra_index = 0,
     ra_addrs = replicate (nat VSRVCINFO_MAX_ADDRS) vsockaddr_zero\<rparr>"

definition vlsctl_exec_cmd_find_service :: "'d exec_cmd" where
  "vlsctl_exec_cmd_find_service env app buf len sender = do {
     vassert (0 < len);
     hash \<leftarrow> get_hash buf;
     if \<not> re_mem env then Some (-1, app)
     else do {
       let (p, s) = new_args (srvc_args VLSCTL_FIND_SERVICE [] hash) (lsctl_of app);
       (ret, app) \<leftarrow> vappmain_find_service env (set_lsctl s app) hash (aux_vlsctl_number_addr_cb1 p) (aux_vlsctl_iterate_addr_cb1 p);
       if ret < 0 then Some (-1, set_lsctl (free_args p (lsctl_of app)) app)
       else do {
         let (ret, s) = push_rsp (re_mem env) p sender (lsctl_of app);
         Some (if ret < 0 then -1 else 20, set_lsctl s app)
       }
     }
   }"

definition vlsctl_exec_cmd_probe_service :: "'d exec_cmd" where
  "vlsctl_exec_cmd_probe_service env app buf len sender = do {
     vassert (0 < len);
     hash \<leftarrow> get_hash buf;
     if \<not> re_mem env then Some (-1, app)
     else do {
       let (p, s) = new_args (srvc_args VLSCTL_PROBE_SERVICE sender hash) (lsctl_of app);
       (ret, app) \<leftarrow> vappmain_probe_service env (set_lsctl s app) hash
          (aux_vlsctl_number_addr_cb2 True p) (aux_vlsctl_iterate_addr_cb2 True p);
       if ret < 0 then Some (-1, set_lsctl (free_args p (lsctl_of app)) app) else Some (20, app)
     }
   }"

definition lsctl_cmds :: "(u16 \<times> 'd exec_cmd) list" where
  "lsctl_cmds =
     [(VLSCTL_HOST_UP, vlsctl_exec_cmd_host_up), (VLSCTL_HOST_DOWN, vlsctl_exec_cmd_host_down),
      (VLSCTL_HOST_EXIT, vlsctl_exec_cmd_host_exit), (VLSCTL_HOST_DUMP, vlsctl_exec_cmd_host_dump),
      (VLSCTL_CFG_DUMP, vlsctl_exec_cmd_cfg_dump), (VLSCTL_JOIN_NODE, vlsctl_exec_cmd_join_node),
      (VLSCTL_BOGUS_QUERY, vlsctl_exec_cmd_bogus_query), (VLSCTL_POST_SERVICE, vlsctl_exec_cmd_post_service),
      (VLSCTL_UNPOST_SERVICE, vlsctl_exec_cmd_unpost_service), (VLSCTL_FIND_SERVICE, vlsctl_exec_cmd_find_service),
      (VLSCTL_PROBE_SERVICE, vlsctl_exec_cmd_probe_service)]"

subsection \<open>A datagram\<close>

text \<open>
  The loop over the commands. \<open>desc\<close> is the part of the table the search has come to: it is not set back for the
  next command. The length to go is a \<open>uint16_t\<close> and wraps around below 0. Each round reads the 4 bytes of a
  head, so the loop ends with the buffer.
\<close>

lemma cmd_head_length: "cmd_head buf = Some r \<Longrightarrow> 4 \<le> length buf"
  by (auto simp: cmd_head_def get_uint16_def run_simps split: if_splits)

function exec_cmds ::
  "(u16 \<times> 'd exec_cmd) list \<Rightarrow> renv \<Rightarrow> 'd app \<Rightarrow> bytes \<Rightarrow> u16 \<Rightarrow> bytes \<Rightarrow> (int \<times> 'd app) option" where
  "exec_cmds desc env app buf blen sender =
     (if blen = 0 then Some (0, app)
      else
        (case cmd_head buf of
           None \<Rightarrow> None
         | Some (cid, clen) \<Rightarrow>
             (case dropWhile (\<lambda>d. fst d \<noteq> cid) desc of
                [] \<Rightarrow> exec_cmds [] env app (drop 4 buf) (blen - 4) sender
              | d # ds \<Rightarrow>
                  (case snd d env app (drop 4 buf) (uint clen) sender of
                     None \<Rightarrow> None
                   | Some (ret, app) \<Rightarrow>
                       if ret < 0 then Some (-1, app)
                       else exec_cmds (d # ds) env app (drop (nat ret) (drop 4 buf)) (blen - 4 - word_of_int ret) sender))))"
  by pat_completeness auto
termination
  by (relation "measure (\<lambda>(desc, env, app, buf, blen, sender). length buf)") (auto dest!: cmd_head_length)

definition vlsctl_unpack_cmd :: "renv \<Rightarrow> 'd app \<Rightarrow> bytes \<Rightarrow> bytes \<Rightarrow> (int \<times> 'd app) option" where
  "vlsctl_unpack_cmd env app buf sender = do {
     (type, blen, magic) \<leftarrow> rsp_head buf;
     if magic \<noteq> VLSCTL_MAGIC then Some (-1, app) else exec_cmds lsctl_cmds env app (drop 8 buf) blen sender
   }"

definition aux_lsctl_usr_msg_cb :: "renv \<Rightarrow> 'd app \<Rightarrow> bytes \<Rightarrow> bytes \<Rightarrow> (int \<times> 'd app) option" where
  "aux_lsctl_usr_msg_cb env app data sender = do {
     (ret, app) \<leftarrow> vlsctl_unpack_cmd env app data sender;
     Some (if ret < 0 then -1 else 0, app)
   }"

text \<open>What the daemon makes of a datagram from the socket \<open>sender\<close>: it lies at the front of the zeroed receive buffer; an
  empty one fails an assertion.\<close>

definition lsctl_receive :: "renv \<Rightarrow> 'd app \<Rightarrow> bytes \<Rightarrow> bytes \<Rightarrow> (int \<times> 'd app) option" where
  "lsctl_receive env app data sender = do {
     let data = take (8 * nat BUF_SZ) data;
     vassert (data \<noteq> []);
     aux_lsctl_usr_msg_cb env app (data @ replicate (8 * nat BUF_SZ - length data) 0) sender
   }"

end
