(* ===== verification/DhtApi.thy ===== *)
theory DhtApi
  imports LsctlC
begin

section \<open>The client library (lsctl/vdhtapi.c)\<close>

text \<open>
  Each function checks its arguments, binds one command, packs it and sends it to the daemon's socket; the searches
  also wait for the response, for three seconds at most. Pointers that may be \<open>NULL\<close> are options. The exchange with the socket is the
  operating system's: \<open>out\<close> sends a datagram, \<open>req\<close> sends one and gives the length of the response and the
  buffer it was put in, 1024 bytes, zero after its end. The callbacks of a search work on a state \<open>'c\<close> of the caller.
\<close>

type_synonym 's sender = "bytes \<Rightarrow> 's \<Rightarrow> int \<times> 's"
type_synonym 's requester = "bytes \<Rightarrow> 's \<Rightarrow> (int \<times> bytes) \<times> 's"
type_synonym 'c num_cb = "vsrvcHash \<Rightarrow> int \<Rightarrow> int \<Rightarrow> 'c \<Rightarrow> 'c"
type_synonym 'c addr_fn = "vsrvcHash \<Rightarrow> sockaddr_in \<Rightarrow> u32 \<Rightarrow> bool \<Rightarrow> 'c \<Rightarrow> 'c"

definition API_BUF_SZ :: nat where "API_BUF_SZ = 1024"

definition def_lsctlc_socket :: bytes where "def_lsctlc_socket = cstr ''/var/run/vdht/lsctl_client''"
definition def_lsctls_socket :: bytes where "def_lsctls_socket = cstr ''/var/run/vdht/lsctl_socket''"

text \<open>The names of the two sockets, without their final zero.\<close>

definition vdhtc_init :: "bytes option \<Rightarrow> bytes option \<Rightarrow> bytes \<times> bytes \<Rightarrow> int \<times> bytes \<times> bytes" where
  "vdhtc_init client_socket lsctl_socket names =
     (if client_socket = None \<and> lsctl_socket = None then (-1, names)
      else if (\<exists>c. client_socket = Some c \<and> length c + 1 \<ge> API_BUF_SZ) then (-1, names)
      else if (\<exists>c. lsctl_socket = Some c \<and> length c + 1 \<ge> API_BUF_SZ) then (-1, names)
      else (0, case client_socket of Some c \<Rightarrow> c | None \<Rightarrow> def_lsctlc_socket,
               case lsctl_socket of Some c \<Rightarrow> c | None \<Rightarrow> def_lsctls_socket))"

subsection \<open>Commands\<close>

definition send_cmd :: "(vlsctlc \<Rightarrow> (int \<times> vlsctlc) option) \<Rightarrow> 's sender \<Rightarrow> 's \<Rightarrow> (int \<times> 's) option" where
  "send_cmd bnd out s = do {
     (ret, c) \<leftarrow> bnd vlsctlc_init;
     if ret < 0 then Some (-1, s)
     else do {
       buf \<leftarrow> vlsctlc_pack_cmd c (int API_BUF_SZ);
       let (ret, s) = out buf s;
       Some (if ret < 0 then -1 else 0, s)
     }
   }"

definition vdhtc_start_host :: "'s sender \<Rightarrow> 's \<Rightarrow> (int \<times> 's) option" where
  "vdhtc_start_host = send_cmd (\<lambda>c. Some (vlsctlc_bind_cmd_host_up c))"

definition vdhtc_stop_host :: "'s sender \<Rightarrow> 's \<Rightarrow> (int \<times> 's) option" where
  "vdhtc_stop_host = send_cmd (\<lambda>c. Some (vlsctlc_bind_cmd_host_down c))"

definition vdhtc_make_host_exit :: "'s sender \<Rightarrow> 's \<Rightarrow> (int \<times> 's) option" where
  "vdhtc_make_host_exit = send_cmd (\<lambda>c. Some (vlsctlc_bind_cmd_host_exit c))"

definition vdhtc_dump_host_infos :: "'s sender \<Rightarrow> 's \<Rightarrow> (int \<times> 's) option" where
  "vdhtc_dump_host_infos = send_cmd (\<lambda>c. Some (vlsctlc_bind_cmd_host_dump c))"

definition vdhtc_dump_cfg_infos :: "'s sender \<Rightarrow> 's \<Rightarrow> (int \<times> 's) option" where
  "vdhtc_dump_cfg_infos = send_cmd (\<lambda>c. Some (vlsctlc_bind_cmd_cfg_dump c))"

definition vdhtc_join_wellknown_node :: "sockaddr_in option \<Rightarrow> 's sender \<Rightarrow> 's \<Rightarrow> (int \<times> 's) option" where
  "vdhtc_join_wellknown_node addr out s =
     (case addr of
        None \<Rightarrow> Some (-1, s)
      | Some a \<Rightarrow> send_cmd (\<lambda>c. Some (vlsctlc_bind_cmd_join_node c a)) out s)"

definition vdhtc_request_bogus_ping :: "sockaddr_in option \<Rightarrow> 's sender \<Rightarrow> 's \<Rightarrow> (int \<times> 's) option" where
  "vdhtc_request_bogus_ping addr out s =
     (case addr of
        None \<Rightarrow> Some (-1, s)
      | Some a \<Rightarrow> send_cmd (\<lambda>c. Some (vlsctlc_bind_cmd_bogus_query c 0 a)) out s)"

abbreviation (input) VPROTO_TCP :: int where "VPROTO_TCP \<equiv> 2"

definition vdhtc_post_service_segment ::
  "vsrvcHash option \<Rightarrow> sockaddr_in option \<Rightarrow> u32 \<Rightarrow> int \<Rightarrow> 's sender \<Rightarrow> 's \<Rightarrow> (int \<times> 's) option" where
  "vdhtc_post_service_segment srvcHash addr type proto out s =
     (case (srvcHash, addr) of
        (Some hash, Some a) \<Rightarrow>
          if type \<ge> VSOCKADDR_BUTT then Some (-1, s)
          else if proto \<le> 0 \<or> proto > VPROTO_TCP then Some (-1, s)
          else send_cmd (\<lambda>c. vlsctlc_bind_cmd_post_service c hash [\<lparr>va_addr = a, va_type = type\<rparr>] 1 proto) out s
      | _ \<Rightarrow> Some (-1, s))"

definition vdhtc_unpost_service_segment ::
  "vsrvcHash option \<Rightarrow> sockaddr_in option \<Rightarrow> 's sender \<Rightarrow> 's \<Rightarrow> (int \<times> 's) option" where
  "vdhtc_unpost_service_segment srvcHash addr out s =
     (case (srvcHash, addr) of
        (Some hash, Some a) \<Rightarrow> send_cmd (\<lambda>c. vlsctlc_bind_cmd_unpost_service c hash [a] 1) out s
      | _ \<Rightarrow> Some (-1, s))"

text \<open>\<open>num\<close> addresses and types are read from the caller's arrays.\<close>

definition vdhtc_post_service ::
  "vsrvcHash option \<Rightarrow> sockaddr_in list option \<Rightarrow> u32 list option \<Rightarrow> int \<Rightarrow> int \<Rightarrow> 's sender \<Rightarrow> 's \<Rightarrow> (int \<times> 's) option" where
  "vdhtc_post_service srvcHash addrs types num proto out s =
     (case (srvcHash, addrs, types) of
        (Some hash, Some as, Some ts) \<Rightarrow>
          if num \<le> 0 \<or> num > VSRVCINFO_MAX_ADDRS then Some (-1, s)
          else if proto \<le> 0 \<or> proto > VPROTO_TCP then Some (-1, s)
          else do {
            vassert (nat num \<le> length ts);
            if (\<exists>t \<in> set (take (nat num) ts). t \<ge> VSOCKADDR_BUTT) then Some (-1, s)
            else do {
              vassert (nat num \<le> length as);
              send_cmd (\<lambda>c. vlsctlc_bind_cmd_post_service c hash
                (map (\<lambda>(a, t). \<lparr>va_addr = a, va_type = t\<rparr>) (take (nat num) (zip as ts))) num proto) out s
            }
          }
      | _ \<Rightarrow> Some (-1, s))"

definition vdhtc_unpost_service :: "vsrvcHash option \<Rightarrow> 's sender \<Rightarrow> 's \<Rightarrow> (int \<times> 's) option" where
  "vdhtc_unpost_service srvcHash out s =
     (case srvcHash of
        None \<Rightarrow> Some (-1, s)
      | Some hash \<Rightarrow> send_cmd (\<lambda>c. vlsctlc_bind_cmd_unpost_service c hash [] 0) out s)"

subsection \<open>Searches\<close>

fun call_addrs :: "'c addr_fn \<Rightarrow> vsrvcHash \<Rightarrow> vsockaddr_in list \<Rightarrow> 'c \<Rightarrow> 'c" where
  "call_addrs icb hash [] u = u"
| "call_addrs icb hash (a # as) u = call_addrs icb hash as (icb hash (va_addr a) (va_type a) (as = []) u)"

definition search_srvc ::
  "(vlsctlc \<Rightarrow> int \<times> vlsctlc) \<Rightarrow> (vlsctlc \<Rightarrow> int \<times> srvc_rsp option) \<Rightarrow> vsrvcHash \<Rightarrow> 'c num_cb \<Rightarrow> 'c addr_fn \<Rightarrow>
     's requester \<Rightarrow> 's \<Rightarrow> 'c \<Rightarrow> (int \<times> 's \<times> 'c) outcome option" where
  "search_srvc bnd unbnd hash ncb icb req s u =
     (let (ret, c) = bnd vlsctlc_init in
      if ret < 0 then Some (Done (-1, s, u))
      else
        (case vlsctlc_pack_cmd c (int API_BUF_SZ) of
           None \<Rightarrow> Some Crash
         | Some buf \<Rightarrow>
             let ((ret, rsp), s) = req buf s in
             if ret < 0 then Some (Done (-1, s, u))
             else
               Option.bind (vlsctlc_unpack_cmd c rsp ret) (\<lambda>r.
                 case r of
                   Crash \<Rightarrow> Some Crash
                 | Done (ret, c) \<Rightarrow>
                     if ret < 0 then Some (Done (-1, s, u))
                     else
                       (case unbnd c of
                          (ret, Some rsp) \<Rightarrow>
                            if ret < 0 \<or> sr_hash rsp \<noteq> take VSRVCHASH_LEN hash then Some (Done (-1, s, u))
                            else Some (Done (0, s, call_addrs icb (sr_hash rsp) (sr_addrs rsp)
                                   (ncb (sr_hash rsp) (sr_num rsp) (sr_proto rsp) u)))
                        | _ \<Rightarrow> Some (Done (-1, s, u))))))"

definition vdhtc_find_service ::
  "vsrvcHash option \<Rightarrow> 'c num_cb option \<Rightarrow> 'c addr_fn option \<Rightarrow> 's requester \<Rightarrow> 's \<Rightarrow> 'c \<Rightarrow> (int \<times> 's \<times> 'c) outcome option" where
  "vdhtc_find_service srvcHash ncb icb req s u =
     (case (srvcHash, ncb, icb) of
        (Some hash, Some n, Some i) \<Rightarrow>
          search_srvc (\<lambda>c. vlsctlc_bind_cmd_find_service c hash) vlsctlc_unbind_cmd_find_service hash n i req s u
      | _ \<Rightarrow> Some (Done (-1, s, u)))"

text \<open>Here the length of the response is not passed on but the size of the buffer; \<open>unpack_cmd\<close> uses neither.\<close>

definition vdhtc_probe_service ::
  "vsrvcHash option \<Rightarrow> 'c num_cb option \<Rightarrow> 'c addr_fn option \<Rightarrow> 's requester \<Rightarrow> 's \<Rightarrow> 'c \<Rightarrow> (int \<times> 's \<times> 'c) outcome option" where
  "vdhtc_probe_service srvcHash ncb icb req s u =
     (case (srvcHash, ncb, icb) of
        (Some hash, Some n, Some i) \<Rightarrow>
          search_srvc (\<lambda>c. vlsctlc_bind_cmd_probe_service c hash) vlsctlc_unbind_cmd_probe_service hash n i
            (\<lambda>buf s. let ((ret, rsp), s) = req buf s in ((if ret < 0 then ret else int API_BUF_SZ, rsp), s)) s u
      | _ \<Rightarrow> Some (Done (-1, s, u)))"

end
