(* ===== verification/LsctlProto.thy ===== *)
theory LsctlProto
  imports Lsctl DhtApi
begin

section \<open>The control protocol end to end\<close>

text \<open>
  What a client's call makes the daemon do. The client library packs a request, the daemon unpacks it and executes
  the operation: \<open>lsctl_cmds\<close> gives each command ID its function, and the arguments arrive as they were bound. For the searches also the
  way back: the response the daemon packs calls the client's callbacks with what the daemon found.
\<close>

subsection \<open>What the client packs\<close>

definition frame :: "u16 \<Rightarrow> bytes \<Rightarrow> bytes" where
  "frame type body = [VLSCTL_VERSION, ucast type] @ le16 (of_nat (length body)) @ le32 VLSCTL_MAGIC @ body"

definition addr_bytes :: "sockaddr_in \<Rightarrow> bytes" where
  "addr_bytes a = [0, 0] @ le16 (sin_port a) @ le32 (sin_addr a)"

definition vaddr_bytes :: "vsockaddr_in \<Rightarrow> bytes" where
  "vaddr_bytes v = addr_bytes (va_addr v) @ le32 (va_type v)"

lemma length_addr_bytes [simp]: "length (addr_bytes a) = 8" "length (vaddr_bytes v) = 12"
  by (simp_all add: addr_bytes_def vaddr_bytes_def)

lemma length_addrs_bytes [simp]:
  "length (concat (map addr_bytes as)) = 8 * length as" "length (concat (map vaddr_bytes vs)) = 12 * length vs"
  by (induction as, simp_all) (induction vs, simp_all)

lemma pack_addrs_spec: "8 * int (length as) < len \<Longrightarrow> pack_addrs len as = Some (concat (map addr_bytes as))"
  by (induction as arbitrary: len) (auto simp: aux_vlsctlc_pack_addr_def addr_bytes_def)

lemma pack_vaddrs_spec: "12 * int (length as) < len \<Longrightarrow> pack_vaddrs len as = Some (concat (map vaddr_bytes as))"
  by (induction as arbitrary: len) (auto simp: aux_vlsctlc_pack_vaddr_def vaddr_bytes_def addr_bytes_def)

text \<open>A request: a command and its content.\<close>

datatype request =
    HostUp | HostDown | HostExit | HostDump | CfgDump
  | JoinNode sockaddr_in
  | BogusQuery int sockaddr_in
  | PostService vsrvcHash int "vsockaddr_in list"
  | UnpostService vsrvcHash "sockaddr_in list"
  | FindService vsrvcHash
  | ProbeService vsrvcHash

fun req_id :: "request \<Rightarrow> u16" where
  "req_id HostUp = VLSCTL_HOST_UP"
| "req_id HostDown = VLSCTL_HOST_DOWN"
| "req_id HostExit = VLSCTL_HOST_EXIT"
| "req_id HostDump = VLSCTL_HOST_DUMP"
| "req_id CfgDump = VLSCTL_CFG_DUMP"
| "req_id (JoinNode a) = VLSCTL_JOIN_NODE"
| "req_id (BogusQuery q a) = VLSCTL_BOGUS_QUERY"
| "req_id (PostService h p as) = VLSCTL_POST_SERVICE"
| "req_id (UnpostService h as) = VLSCTL_UNPOST_SERVICE"
| "req_id (FindService h) = VLSCTL_FIND_SERVICE"
| "req_id (ProbeService h) = VLSCTL_PROBE_SERVICE"

fun req_content :: "request \<Rightarrow> bytes" where
  "req_content (JoinNode a) = addr_bytes a"
| "req_content (BogusQuery q a) = le32 (word_of_int q) @ addr_bytes a"
| "req_content (PostService h p as) = h @ le32 (word_of_int p) @ concat (map vaddr_bytes as)"
| "req_content (UnpostService h as) = h @ concat (map addr_bytes as)"
| "req_content (FindService h) = h"
| "req_content (ProbeService h) = h"
| "req_content _ = []"

fun req_args :: "request \<Rightarrow> vlsctlc_args" where
  "req_args (JoinNode a) = JoinNodeArgs a"
| "req_args (BogusQuery q a) = BogusQueryArgs q a"
| "req_args (PostService h p as) = PostServiceArgs h p (int (length as)) as"
| "req_args (UnpostService h as) = UnpostServiceArgs h (int (length as)) as"
| "req_args (FindService h) = FindServiceArgs h"
| "req_args (ProbeService h) = ProbeServiceArgs h"
| "req_args _ = NoArgs"

fun req_ok :: "request \<Rightarrow> bool" where
  "req_ok (BogusQuery q a) = int32_ok q"
| "req_ok (PostService h p as) = (tok_wf h \<and> int32_ok p \<and> as \<noteq> [] \<and> length as \<le> 12)"
| "req_ok (UnpostService h as) = (tok_wf h \<and> length as \<le> 12)"
| "req_ok (FindService h) = tok_wf h"
| "req_ok (ProbeService h) = tok_wf h"
| "req_ok _ = True"

lemma req_content_length: "req_ok r \<Longrightarrow> length (req_content r) \<le> 168"
  by (cases r) (auto simp: tok_wf_def VTOKEN_LEN_def)

lemma pack_descs_append:
  "pack_descs (ds @ es) c len = do {
     b \<leftarrow> pack_descs ds c len;
     b' \<leftarrow> pack_descs es c (len - int (length b));
     Some (b @ b')
   }"
  by (induction ds arbitrary: len) (auto split: Option.bind_splits simp: algebra_simps)

lemma pack_bound:
  assumes "lc_bound_cmd c = req_id r" "lc_args c = req_args r" "req_ok r" "req_args r \<noteq> NoArgs \<or> lc_args c = NoArgs"
  shows "vlsctlc_pack_cmd c 1024 = Some (frame (lc_type c) (pack_cmd_body (req_id r) (req_content r)))"
proof -
  note defs = vlsctlc_pack_cmd_def lsctlc_pack_cmd_desc_def pack_cmd_plain_def vlsctlc_pack_cmd_host_up_def
    vlsctlc_pack_cmd_host_down_def vlsctlc_pack_cmd_host_exit_def vlsctlc_pack_cmd_host_dump_def vlsctlc_pack_cmd_cfg_dump_def
    vlsctlc_pack_cmd_join_node_def vlsctlc_pack_cmd_bogus_query_def vlsctlc_pack_cmd_post_service_def
    vlsctlc_pack_cmd_unpost_service_def vlsctlc_pack_cmd_find_service_def vlsctlc_pack_cmd_probe_service_def
  have take20: "tok_wf h \<Longrightarrow> take VSRVCHASH_LEN h = h" for h by (simp add: tok_wf_def VTOKEN_LEN_def VSRVCHASH_LEN_def)
  show ?thesis
    using assms
    by (cases r) (simp_all add: defs frame_def pack_cmd_body_def aux_vlsctlc_pack_addr_def addr_bytes_def [of "_ :: sockaddr_in"]
        pack_addrs_spec pack_vaddrs_spec take20 tok_wf_def VTOKEN_LEN_def)
qed

subsection \<open>What the daemon reads\<close>

text \<open>An address as it arrives: the family and the padding are not transmitted.\<close>

definition canon :: "sockaddr_in \<Rightarrow> sockaddr_in" where
  "canon a = sockaddr_zero\<lparr>sin_family := AF_INET, sin_port := sin_port a, sin_addr := sin_addr a\<rparr>"

definition canon_v :: "vsockaddr_in \<Rightarrow> vsockaddr_in" where
  "canon_v v = v\<lparr>va_addr := canon (va_addr v)\<rparr>"

lemma canon_id: "sin_family a = AF_INET \<Longrightarrow> sin_zero a = replicate 8 0 \<Longrightarrow> canon a = a"
  by (simp add: canon_def sockaddr_zero_def)

lemma get_fields [simp]:
  "get_uint16 (le16 w @ r) = Some w" "get_uint32 (le32 v @ r) = Some v" "get_uint8 (b # r) = Some b"
  by (simp_all add: get_uint16_def get_uint32_def get_uint8_def)

lemma get_hash_ok [simp]: "tok_wf h \<Longrightarrow> get_hash (h @ r) = Some h"
  by (simp add: get_hash_def tok_wf_def VTOKEN_LEN_def VSRVCHASH_LEN_def)

lemma drop_le [simp]: "drop 2 (le16 w @ r) = r" "drop 4 (le32 v @ r) = r" "drop 3 (0 # le16 w @ r) = r"
  by simp_all

lemma unpack_addr_bytes:
  "0 < len \<Longrightarrow> aux_lsctl_unpack_addr (addr_bytes a @ r) len = Some (8, canon a)"
  by (simp add: aux_lsctl_unpack_addr_def addr_bytes_def vsockaddr_convert2_def canon_def)

lemma unpack_vaddr_bytes:
  "0 < len \<Longrightarrow> aux_lsctl_unpack_vaddr (vaddr_bytes v @ r) len = Some (12, canon_v v)"
  by (simp add: aux_lsctl_unpack_vaddr_def vaddr_bytes_def addr_bytes_def vsockaddr_convert2_def canon_def canon_v_def)

subsection \<open>What the daemon does\<close>

fun post_all :: "bool \<Rightarrow> 'd app \<Rightarrow> vsrvcHash \<Rightarrow> int \<Rightarrow> vsockaddr_in list \<Rightarrow> (int \<times> 'd app) option" where
  "post_all mem app h p [] = Some (0, app)"
| "post_all mem app h p (a # as) = do {
     (ret, app) \<leftarrow> vappmain_post_service_segment mem app h a p;
     if ret < 0 then Some (-1, app) else post_all mem app h p as
   }"

fun unpost_all :: "bool \<Rightarrow> 'd app \<Rightarrow> vsrvcHash \<Rightarrow> sockaddr_in list \<Rightarrow> (int \<times> 'd app) option" where
  "unpost_all mem app h [] = Some (0, app)"
| "unpost_all mem app h (a # as) = do {
     (ret, app) \<leftarrow> vappmain_unpost_service_segment mem app h a;
     if ret < 0 then Some (-1, app) else unpost_all mem app h as
   }"

fun perform :: "renv \<Rightarrow> 'd app \<Rightarrow> bytes \<Rightarrow> request \<Rightarrow> (int \<times> 'd app) option" where
  "perform env app sender HostUp = Some (vappmain_start_host app)"
| "perform env app sender HostDown = Some (vappmain_stop_host app)"
| "perform env app sender HostExit = Some (0, vappmain_make_host_exit app)"
| "perform env app sender HostDump = Some (0, app)"
| "perform env app sender CfgDump = Some (0, app)"
| "perform env app sender (JoinNode a) = vappmain_join_wellknown_node env app (canon a)"
| "perform env app sender (BogusQuery q a) = vappmain_bogus_query env app q (canon a)"
| "perform env app sender (PostService h p as) = post_all (re_mem env) app h p (map canon_v as)"
| "perform env app sender (UnpostService h as) =
     (if as = [] then vappmain_unpost_service (re_mem env) app h else unpost_all (re_mem env) app h (map canon as))"
| "perform env app sender (FindService h) = vlsctl_exec_cmd_find_service env app h 20 sender"
| "perform env app sender (ProbeService h) = vlsctl_exec_cmd_probe_service env app h 20 sender"

lemma post_segments_spec:
  "post_segments env app h p (concat (map vaddr_bytes as) @ r) (12 * int (length as)) tsz = do {
     (ret, app) \<leftarrow> post_all (re_mem env) app h p (map canon_v as);
     Some (if ret < 0 then -1 else tsz + 12 * int (length as), app)
   }"
proof (induction as arbitrary: app tsz)
  case (Cons a as)
  have d: "drop 12 (vaddr_bytes a @ s) = s" for s by simp
  show ?case
    by (subst post_segments.simps)
      (auto simp: unpack_vaddr_bytes d Cons [unfolded mult.commute [of 12]] algebra_simps split: Option.bind_splits simp del: post_segments.simps drop_append)
qed (subst post_segments.simps, simp)

lemma unpost_segments_spec:
  "unpost_segments env app h (concat (map addr_bytes as) @ r) (8 * int (length as)) tsz = do {
     (ret, app) \<leftarrow> unpost_all (re_mem env) app h (map canon as);
     Some (if ret < 0 then -1 else tsz + 8 * int (length as), app)
   }"
proof (induction as arbitrary: app tsz)
  case (Cons a as)
  have d: "drop 8 (addr_bytes a @ s) = s" for s by simp
  show ?case
    by (subst unpost_segments.simps)
      (auto simp: unpack_addr_bytes d Cons [unfolded mult.commute [of 8]] algebra_simps split: Option.bind_splits simp del: unpost_segments.simps drop_append)
qed (subst unpost_segments.simps, simp)

text \<open>A table lookup.\<close>

definition exec_of :: "u16 \<Rightarrow> 'd exec_cmd" where
  "exec_of cid = snd (hd (dropWhile (\<lambda>d. fst d \<noteq> cid) lsctl_cmds))"

lemma exec_of_req:
  "exec_of (req_id r) = (case r of
     HostUp \<Rightarrow> vlsctl_exec_cmd_host_up | HostDown \<Rightarrow> vlsctl_exec_cmd_host_down | HostExit \<Rightarrow> vlsctl_exec_cmd_host_exit
   | HostDump \<Rightarrow> vlsctl_exec_cmd_host_dump | CfgDump \<Rightarrow> vlsctl_exec_cmd_cfg_dump | JoinNode a \<Rightarrow> vlsctl_exec_cmd_join_node
   | BogusQuery q a \<Rightarrow> vlsctl_exec_cmd_bogus_query | PostService h p as \<Rightarrow> vlsctl_exec_cmd_post_service
   | UnpostService h as \<Rightarrow> vlsctl_exec_cmd_unpost_service | FindService h \<Rightarrow> vlsctl_exec_cmd_find_service
   | ProbeService h \<Rightarrow> vlsctl_exec_cmd_probe_service)"
  by (cases r) (simp_all add: exec_of_def lsctl_cmds_def)

lemma req_id_known: "\<exists>ds. dropWhile (\<lambda>d. fst d \<noteq> req_id r) lsctl_cmds = (req_id r, exec_of (req_id r)) # ds"
  by (cases r) (simp_all add: exec_of_def lsctl_cmds_def)

lemma exec_cmds_0: "exec_cmds ds env app buf 0 sender = Some (0, app)"
  by (simp add: exec_cmds.simps)

lemma exec_cmds_one:
  fixes app :: "'d app"
  assumes "length content \<le> 168"
  shows "exec_cmds lsctl_cmds env app (pack_cmd_body (req_id r) content @ rest) (of_nat (4 + length content)) sender =
    (case exec_of (req_id r) env app (content @ rest) (int (length content)) sender of
       None \<Rightarrow> None
     | Some (ret, app') \<Rightarrow>
         if ret < 0 then Some (-1, app')
         else if ret = int (length content) then Some (0, app')
         else exec_cmds ((req_id r, exec_of (req_id r)) # tl (dropWhile (\<lambda>d. fst d \<noteq> req_id r) lsctl_cmds)) env app'
           (drop (nat ret) (content @ rest)) (of_nat (length content) - word_of_int ret) sender)"
proof -
  obtain ds :: "(u16 \<times> 'd exec_cmd) list" where
      ds: "dropWhile (\<lambda>d. fst d \<noteq> req_id r) lsctl_cmds = (req_id r, exec_of (req_id r)) # ds"
    using req_id_known by blast
  have u: "uint (of_nat (length content) :: u16) = int (length content)"
    using assms by (simp add: uint_nat unat_of_nat take_bit_nat_eq_self)
  have nz: "of_nat (4 + length content) \<noteq> (0 :: u16)"
  proof
    assume "of_nat (4 + length content) = (0 :: u16)"
    then have "unat (of_nat (4 + length content) :: u16) = 0" by simp
    then show False using assms unfolding unat_of_nat by (simp add: take_bit_nat_eq_self)
  qed
  have h: "cmd_head (pack_cmd_body (req_id r) content @ rest) = Some (req_id r, of_nat (length content))"
    by (simp add: cmd_head_def pack_cmd_body_def)
  have d4: "drop 4 (pack_cmd_body (req_id r) content @ rest) = content @ rest" by (simp add: pack_cmd_body_def)
  have step: "exec_cmds lsctl_cmds env app (pack_cmd_body (req_id r) content @ rest) (of_nat (4 + length content)) sender =
    (case exec_of (req_id r) env app (content @ rest) (int (length content)) sender of
       None \<Rightarrow> None
     | Some (ret, app') \<Rightarrow>
         if ret < 0 then Some (-1, app')
         else exec_cmds ((req_id r, exec_of (req_id r)) # ds) env app'
           (drop (nat ret) (content @ rest)) (of_nat (4 + length content) - 4 - word_of_int ret) sender)"
    unfolding exec_cmds.simps [of lsctl_cmds] if_not_P [OF nz] h option.case prod.case d4 ds list.case fst_conv snd_conv u ..
  have w: "of_nat (4 + length content) - 4 = (of_nat (length content) :: u16)" by simp
  show ?thesis
    unfolding step w by (cases "exec_of (req_id r) env app (content @ rest) (int (length content)) sender")
      (auto simp: ds exec_cmds_0 simp del: exec_cmds.simps drop_append)
qed
lemma unpost_all_ret: "unpost_all mem app h as = Some (ret, app') \<Longrightarrow> ret = -1 \<or> ret = 0"
  by (induction as arbitrary: app) (auto split: Option.bind_splits if_splits)

lemma post_all_ret: "post_all mem app h p as = Some (ret, app') \<Longrightarrow> ret = -1 \<or> ret = 0"
  by (induction as arbitrary: app) (auto split: Option.bind_splits if_splits)

lemma exec_request:
  assumes "req_ok r"
  shows "exec_of (req_id r) env app (req_content r @ rest) (int (length (req_content r))) sender = do {
      (ret, app) \<leftarrow> perform env app sender r;
      Some (if ret < 0 then -1 else int (length (req_content r)), app)
    }"
proof (cases r)
  case (PostService h p as)
  have h: "tok_wf h" "int32_ok p" "length h = 20" using assms by (simp_all add: PostService tok_wf_def VTOKEN_LEN_def)
  have d: "drop VSRVCHASH_LEN (h @ s) = s" "drop 24 (h @ le32 w @ s) = s" for s w using h(3) by (simp_all add: VSRVCHASH_LEN_def)
  have l: "int (length (req_content r)) = 24 + int (length as) * 12" using h by (simp add: PostService)
  show ?thesis
    unfolding exec_of_req l
    using h post_segments_spec [of env app h p as rest 24, unfolded mult.commute [of 12]]
    by (simp add: PostService vlsctl_exec_cmd_post_service_def d algebra_simps del: drop_append post_segments.simps)
next
  case (UnpostService h as)
  have h: "tok_wf h" "length h = 20" using assms by (simp_all add: UnpostService tok_wf_def VTOKEN_LEN_def)
  have d: "drop VSRVCHASH_LEN (h @ s) = s" for s using h(2) by (simp add: VSRVCHASH_LEN_def)
  show ?thesis
  proof (cases "as = []")
    case True
    then show ?thesis
      unfolding exec_of_req
      using h unpost_segments_spec [of env app h "[]" rest 20]
      by (auto simp: UnpostService vlsctl_exec_cmd_unpost_service_def d simp del: drop_append unpost_segments.simps
          split: Option.bind_splits)
  next
    case False
    then have "0 < length as" by simp
    then show ?thesis
      unfolding exec_of_req
      using h unpost_segments_spec [of env app h as rest 20] False
      by (auto simp: UnpostService vlsctl_exec_cmd_unpost_service_def d algebra_simps simp del: drop_append
          unpost_segments.simps length_greater_0_conv split: Option.bind_splits)
  qed
next
  case (FindService h)
  then have "tok_wf h" "get_hash (h @ rest) = get_hash h" "length h = 20"
    using assms get_hash_ok [of h "[]"] by (simp_all add: tok_wf_def VTOKEN_LEN_def)
  then show ?thesis
    unfolding exec_of_req
    by (auto simp: FindService vlsctl_exec_cmd_find_service_def Let_def split: Option.bind_splits prod.splits)
next
  case (ProbeService h)
  then have "tok_wf h" "get_hash (h @ rest) = get_hash h" "length h = 20"
    using assms get_hash_ok [of h "[]"] by (simp_all add: tok_wf_def VTOKEN_LEN_def)
  then show ?thesis
    unfolding exec_of_req
    by (auto simp: ProbeService vlsctl_exec_cmd_probe_service_def Let_def split: Option.bind_splits prod.splits)
qed (use assms in \<open>unfold exec_of_req, auto simp: vlsctl_exec_cmd_host_up_def vlsctl_exec_cmd_host_down_def vlsctl_exec_cmd_host_exit_def
    vlsctl_exec_cmd_host_dump_def vlsctl_exec_cmd_cfg_dump_def vlsctl_exec_cmd_join_node_def vlsctl_exec_cmd_bogus_query_def
    unpack_addr_bytes Let_def split: prod.splits Option.bind_splits simp del: drop_append\<close>)

text \<open>Whatever the operation does, its result tells the client nothing but success or failure, which the daemon
  logs; datagrams of commands get no response.\<close>

lemma rsp_head_frame: "length body < 65536 \<Longrightarrow> rsp_head (frame type body @ r) = Some (ucast type, of_nat (length body), VLSCTL_MAGIC)"
  by (simp add: rsp_head_def frame_def)

lemma receive_request:
  assumes "req_ok r"
  shows "lsctl_receive env app (frame type (pack_cmd_body (req_id r) (req_content r))) sender = do {
      (ret, app) \<leftarrow> perform env app sender r;
      Some (if ret < 0 then -1 else 0, app)
    }"
proof -
  let ?b = "pack_cmd_body (req_id r) (req_content r)"
  let ?n = "length (req_content r)"
  have n: "?n \<le> 168" using req_content_length [OF assms] .
  have len: "length ?b = 4 + ?n" by (simp add: pack_cmd_body_def)
  have f: "length (frame type ?b) = 12 + ?n" by (simp add: frame_def len)
  then have t: "take (8 * nat BUF_SZ) (frame type ?b) = frame type ?b" using n by (simp add: BUF_SZ_def)
  have ne: "frame type ?b \<noteq> []" by (simp add: frame_def)
  define pad where "pad = replicate (8 * nat BUF_SZ - length (frame type ?b)) (0 :: byte)"
  have d8: "drop 8 (frame type ?b @ pad) = ?b @ pad" by (simp add: frame_def)
  have h: "rsp_head (frame type ?b @ pad) = Some (ucast type, of_nat (4 + ?n), VLSCTL_MAGIC)"
    using rsp_head_frame [of ?b type pad] n len by simp
  have "vlsctl_unpack_cmd env app (frame type ?b @ pad) sender = exec_cmds lsctl_cmds env app (?b @ pad) (of_nat (4 + ?n)) sender"
    unfolding vlsctl_unpack_cmd_def h Option.bind.bind_lunit prod.case d8 by simp
  also have "\<dots> = do {
      (ret, app) \<leftarrow> perform env app sender r;
      Some (if ret < 0 then -1 else 0, app)
    }"
    unfolding exec_cmds_one [OF n] exec_request [OF assms]
    by (cases "perform env app sender r") (auto simp del: exec_cmds.simps)
  finally show ?thesis
    unfolding lsctl_receive_def aux_lsctl_usr_msg_cb_def Let_def t pad_def [symmetric] using ne
    by (cases "perform env app sender r") auto
qed
subsection \<open>A client that talks to the daemon\<close>

text \<open>The daemon as the other end of the client's socket: \<open>None\<close> when it has died. Requests that only
  send do not learn what became of them.\<close>

definition daemon :: "renv \<Rightarrow> bytes \<Rightarrow> bytes \<Rightarrow> 'd app option \<Rightarrow> int \<times> 'd app option" where
  "daemon env me m st =
     (case st of
        None \<Rightarrow> (-1, None)
      | Some app \<Rightarrow> (0, map_option snd (lsctl_receive env app m me)))"

lemma send_request:
  assumes "bnd vlsctlc_init = Some (0, c)" "lc_bound_cmd c = req_id r" "lc_args c = req_args r" "req_ok r"
  shows "send_cmd bnd (daemon env me) (Some app) = Some (0, map_option snd (perform env app me r))"
  using assms(1) pack_bound [OF assms(2-4)] assms(3) receive_request [OF assms(4), of env app "lc_type c" me]
  by (cases "perform env app me r") (auto simp: send_cmd_def API_BUF_SZ_def daemon_def split: if_splits)

text \<open>The calls of the library that only send, by the request they make.\<close>

fun api_call :: "request \<Rightarrow> 's sender \<Rightarrow> 's \<Rightarrow> (int \<times> 's) option" where
  "api_call HostUp out s = vdhtc_start_host out s"
| "api_call HostDown out s = vdhtc_stop_host out s"
| "api_call HostExit out s = vdhtc_make_host_exit out s"
| "api_call HostDump out s = vdhtc_dump_host_infos out s"
| "api_call CfgDump out s = vdhtc_dump_cfg_infos out s"
| "api_call (JoinNode a) out s = vdhtc_join_wellknown_node (Some a) out s"
| "api_call (BogusQuery q a) out s = vdhtc_request_bogus_ping (Some a) out s"
| "api_call (PostService h p as) out s =
     vdhtc_post_service (Some h) (Some (map va_addr as)) (Some (map va_type as)) (int (length as)) p out s"
| "api_call (UnpostService h as) out s =
     (if as = [] then vdhtc_unpost_service (Some h) out s else vdhtc_unpost_service_segment (Some h) (Some (hd as)) out s)"
| "api_call _ out s = None"

fun api_ok :: "request \<Rightarrow> bool" where
  "api_ok (BogusQuery q a) = (q = VDHT_PING)"
| "api_ok (PostService h p as) =
     (tok_wf h \<and> 0 < p \<and> p \<le> VPROTO_TCP \<and> as \<noteq> [] \<and> length as \<le> 12 \<and> (\<forall>a \<in> set as. va_type a < VSOCKADDR_BUTT))"
| "api_ok (UnpostService h as) = (tok_wf h \<and> length as \<le> 1)"
| "api_ok (FindService h) = False"
| "api_ok (ProbeService h) = False"
| "api_ok _ = True"

lemma api_req_ok: "api_ok r \<Longrightarrow> req_ok r"
  by (cases r) (auto simp: int32_ok_def)

lemma api_through:
  assumes "api_ok r" "api_call r (daemon env me) (Some app) = send_cmd bnd (daemon env me) (Some app)"
    "bnd vlsctlc_init = Some (0, vlsctlc_init\<lparr>lc_bound_cmd := req_id r, lc_type := vlsctl_cmd, lc_args := req_args r\<rparr>)"
  shows "api_call r (daemon env me) (Some app) = Some (0, map_option snd (perform env app me r))"
  unfolding assms(2) by (rule send_request [of bnd, OF assms(3)]) (simp_all add: api_req_ok [OF assms(1)])

lemmas binds = bind_cmd_def vlsctlc_init_def vlsctlc_bind_cmd_host_up_def vlsctlc_bind_cmd_host_down_def
  vlsctlc_bind_cmd_host_exit_def vlsctlc_bind_cmd_host_dump_def vlsctlc_bind_cmd_cfg_dump_def vlsctlc_bind_cmd_join_node_def
  vlsctlc_bind_cmd_bogus_query_def vlsctlc_bind_cmd_post_service_def vlsctlc_bind_cmd_unpost_service_def VSRVCINFO_MAX_ADDRS_def

lemmas calls = vdhtc_start_host_def vdhtc_stop_host_def vdhtc_make_host_exit_def vdhtc_dump_host_infos_def
  vdhtc_dump_cfg_infos_def vdhtc_join_wellknown_node_def vdhtc_request_bogus_ping_def vdhtc_post_service_def
  vdhtc_unpost_service_def vdhtc_unpost_service_segment_def

theorem api_performs:
  assumes "api_ok r"
  shows "api_call r (daemon env me) (Some app) = Some (0, map_option snd (perform env app me r))"
proof (cases r)
  case HostUp show ?thesis by (rule api_through [OF assms, where bnd = "\<lambda>c. Some (vlsctlc_bind_cmd_host_up c)"]) (simp_all add: HostUp calls binds)
next
  case HostDown show ?thesis by (rule api_through [OF assms, where bnd = "\<lambda>c. Some (vlsctlc_bind_cmd_host_down c)"]) (simp_all add: HostDown calls binds)
next
  case HostExit show ?thesis by (rule api_through [OF assms, where bnd = "\<lambda>c. Some (vlsctlc_bind_cmd_host_exit c)"]) (simp_all add: HostExit calls binds)
next
  case HostDump show ?thesis by (rule api_through [OF assms, where bnd = "\<lambda>c. Some (vlsctlc_bind_cmd_host_dump c)"]) (simp_all add: HostDump calls binds)
next
  case CfgDump show ?thesis by (rule api_through [OF assms, where bnd = "\<lambda>c. Some (vlsctlc_bind_cmd_cfg_dump c)"]) (simp_all add: CfgDump calls binds)
next
  case (JoinNode a)
  show ?thesis by (rule api_through [OF assms, where bnd = "\<lambda>c. Some (vlsctlc_bind_cmd_join_node c a)"]) (simp_all add: JoinNode calls binds)
next
  case (BogusQuery q a)
  then show ?thesis using assms
    by (intro api_through [OF assms, where bnd = "\<lambda>c. Some (vlsctlc_bind_cmd_bogus_query c 0 a)"]) (simp_all add: calls binds)
next
  case (PostService h p as)
  have z: "map (\<lambda>(a, t). \<lparr>va_addr = a, va_type = t\<rparr>) (zip (map va_addr as) (map va_type as)) = as"
    by (simp add: zip_map_map zip_same_conv_map comp_def)
  have ok: "tok_wf h" "0 < p" "p \<le> VPROTO_TCP" "as \<noteq> []" "length as \<le> 12" "\<forall>t \<in> va_type ` set as. \<not> t \<ge> VSOCKADDR_BUTT"
    using assms by (auto simp: PostService not_le)
  show ?thesis
    by (rule api_through [OF assms, where bnd = "\<lambda>c. vlsctlc_bind_cmd_post_service c h as (int (length as)) p"])
      (use ok z in \<open>auto simp: PostService calls binds\<close>)
next
  case (UnpostService h as)
  then have ok: "tok_wf h" "length as \<le> 1" using assms by auto
  show ?thesis
    by (rule api_through [OF assms, where bnd = "\<lambda>c. vlsctlc_bind_cmd_unpost_service c h as (int (length as))"])
      (use ok in \<open>cases as; auto simp: UnpostService calls binds\<close>)+
qed (use assms in auto)

subsection \<open>A response without an end\<close>

text \<open>
  A command with a content that is not the answer to a search has no descriptor that takes it: the loop over the content does not end.
\<close>

lemma content_loop_hangs:
  assumes "lc_bound_cmd c \<notin> {VLSCTL_FIND_SERVICE, VLSCTL_PROBE_SERVICE}" "0 < cmd_len"
  shows "content_loop c buf cmd_len csz = None"
proof (rule ccontr)
  have none: "try_descs lsctlc_unpack_cmd_desc c buf l = Some (0, c)" if "0 < l" for buf l
    using assms(1) that
    by (simp add: lsctlc_unpack_cmd_desc_def vlsctlc_unpack_cmd_find_service_rsp_def vlsctlc_unpack_cmd_probe_service_rsp_def
        unpack_srvc_rsp_def vassert_pos_def)
  have step: "content_loop d b l s = Some y \<Longrightarrow> d = c \<longrightarrow> \<not> 0 < l" for d b l s y
  proof (rule content_loop.raw_induct [of "\<lambda>d b l s y. d = c \<longrightarrow> \<not> 0 < l"])
    fix f d b l s y
    assume "\<And>d b l s y. f d b l s = Some y \<Longrightarrow> d = c \<longrightarrow> \<not> 0 < l"
      and "(if 0 < l then case try_descs lsctlc_unpack_cmd_desc d b l of None \<Rightarrow> Some Crash
            | Some (ret, c) \<Rightarrow> if ret < 0 then Some (Done (- 1, c, b, s)) else f c (drop (nat ret) b) (l - ret) (s + ret)
            else Some (Done (0, d, b, s))) = Some y"
    then show "d = c \<longrightarrow> \<not> 0 < l" using none [of l b] by auto
  qed
  assume "content_loop c buf cmd_len csz \<noteq> None"
  then obtain y where "content_loop c buf cmd_len csz = Some y" by auto
  with step [OF this] assms(2) show False by simp
qed

theorem response_hangs_client:
  assumes "rsp_head buf = Some (type, bsz, VLSCTL_MAGIC)" "0 < bsz" "len \<noteq> 0"
    and "cmd_head (drop 8 buf) = Some (cid, clen)" "cid \<notin> {VLSCTL_FIND_SERVICE, VLSCTL_PROBE_SERVICE}" "0 < clen"
  shows "vlsctlc_unpack_cmd c buf len = None"
proof -
  have pos: "0 < uint clen" "0 < uint bsz" using assms(2,6) by (simp_all add: word_less_def)
  have "content_loop (d\<lparr>lc_bound_cmd := cid\<rparr>) b (uint clen) s = None" for d b s
    by (rule content_loop_hangs) (use assms(5) pos in simp_all)
  then have "cmds_loop d (drop 8 buf) (uint bsz) 0 = None" for d
    using assms(4) pos by (subst cmds_loop.simps) simp
  then show ?thesis using assms(1,3) by (simp add: vlsctlc_unpack_cmd_def Let_def)
qed

lemma response_hangs_client_witness: "\<forall>c. vlsctlc_unpack_cmd c [1, 0, 5, 0, 0x73, 0x33, 0x42, 0x10, 0x77, 0, 1, 0, 9] 13 = None"
proof
  fix c
  have "rsp_head [1, 0, 5, 0, 0x73, 0x33, 0x42, 0x10, 0x77, 0, 1, 0, 9] = Some (0, 5, VLSCTL_MAGIC)"
    "cmd_head (drop 8 [1, 0, 5, 0, 0x73, 0x33, 0x42, 0x10, 0x77, 0, 1, 0, 9]) = Some (0x77, 1)"
    by code_simp+
  from response_hangs_client [OF this(1) _ _ this(2), of 13 c]
  show "vlsctlc_unpack_cmd c [1, 0, 5, 0, 0x73, 0x33, 0x42, 0x10, 0x77, 0, 1, 0, 9] 13 = None" by simp
qed

end
