(* ===== verification/VDict.thy ===== *)
theory VDict
  imports VPrelude
begin

section \<open>Dictionaries (utils/vdict.c)\<close>

text \<open>
  A \<open>struct vdict\<close> is its counter and its linked list of key and value pairs, in list order. Keys are C strings
  without their NUL; a value stands for the pointer the caller stored. A key may occur several times: reading and
  removing look at the first occurrence, adding appends. The flag \<open>mem\<close> says whether the allocations of an
  operation succeed.
\<close>

datatype 'v vdict = VDict (vd_used: nat) (vd_items: "(bytes \<times> 'v) list")

definition vdict_init :: "'v vdict" where
  "vdict_init = VDict 0 []"

definition vdict_size :: "'v vdict \<Rightarrow> nat" where
  "vdict_size d = vd_used d"

fun find_key :: "bytes \<Rightarrow> (bytes \<times> 'v) list \<Rightarrow> 'v option" where
  "find_key key [] = None"
| "find_key key ((k, v) # items) = (if k = key then Some v else find_key key items)"

definition vdict_get :: "'v vdict \<Rightarrow> bytes \<Rightarrow> 'v option" where
  "vdict_get d key = find_key key (vd_items d)"

definition vdict_add :: "bool \<Rightarrow> 'v vdict \<Rightarrow> bytes \<Rightarrow> 'v \<Rightarrow> int \<times> 'v vdict" where
  "vdict_add mem d key val =
     (if mem then (0, VDict (vd_used d + 1) (vd_items d @ [(key, val)])) else (-1, d))"

definition remove_at :: "nat option \<Rightarrow> 'v vdict \<Rightarrow> 'v vdict" where
  "remove_at found d = (case found of None \<Rightarrow> d | Some i \<Rightarrow> VDict (vd_used d - 1) (list_del i (vd_items d)))"

definition vdict_del :: "'v vdict \<Rightarrow> bytes \<Rightarrow> 'v option \<times> 'v vdict" where
  "vdict_del d key =
     (let found = find_idx (\<lambda>(k, v). k = key) (vd_items d) in
      (map_option (\<lambda>i. snd (vd_items d ! i)) found, remove_at found d))"

definition vdict_del_by_val :: "'v vdict \<Rightarrow> 'v \<Rightarrow> 'v option \<times> 'v vdict" where
  "vdict_del_by_val d val =
     (let found = find_idx (\<lambda>(k, v). v = val) (vd_items d) in
      (map_option (\<lambda>i. val) found, remove_at found d))"

text \<open>The callback threads the caller's state and stops the walk with a positive result.\<close>

fun iterate_items :: "(bytes \<Rightarrow> 'v \<Rightarrow> 's \<Rightarrow> int \<times> 's) \<Rightarrow> (bytes \<times> 'v) list \<Rightarrow> 's \<Rightarrow> 's" where
  "iterate_items cb [] s = s"
| "iterate_items cb ((k, v) # items) s = (case cb k v s of (ret, s) \<Rightarrow> if ret > 0 then s else iterate_items cb items s)"

definition vdict_iterate :: "'v vdict \<Rightarrow> (bytes \<Rightarrow> 'v \<Rightarrow> 's \<Rightarrow> int \<times> 's) \<Rightarrow> 's \<Rightarrow> 's" where
  "vdict_iterate d cb s = iterate_items cb (vd_items d) s"

fun zero_items :: "('v \<Rightarrow> 's \<Rightarrow> 's) \<Rightarrow> nat \<Rightarrow> (bytes \<times> 'v) list \<Rightarrow> 's \<Rightarrow> 's \<times> nat" where
  "zero_items cb used [] s = (s, used)"
| "zero_items cb used ((k, v) # items) s = zero_items cb (used - 1) items (cb v s)"

definition vdict_zero :: "'v vdict \<Rightarrow> ('v \<Rightarrow> 's \<Rightarrow> 's) \<Rightarrow> 's \<Rightarrow> ('s \<times> 'v vdict) option" where
  "vdict_zero d cb s = do {
     let (s, used) = zero_items cb (vd_used d) (vd_items d) s;
     vassert (used = 0);
     Some (s, VDict used [])
   }"

section \<open>What these operations do\<close>

text \<open>The counter counts the list; every operation keeps it so.\<close>

definition vdict_wf :: "'v vdict \<Rightarrow> bool" where
  "vdict_wf d \<longleftrightarrow> vd_used d = length (vd_items d)"

lemma vdict_wf_init [simp, wf_intros]: "vdict_wf vdict_init"
  by (simp add: vdict_wf_def vdict_init_def)

lemma vdict_wf_add [wf_intros]: "vdict_wf d \<Longrightarrow> vdict_wf (snd (vdict_add mem d key val))"
  by (simp add: vdict_wf_def vdict_add_def)

lemma vdict_wf_remove: "vdict_wf d \<Longrightarrow> vdict_wf (remove_at (find_idx p (vd_items d)) d)"
  by (auto simp: vdict_wf_def remove_at_def dest: find_idx_lt split: option.splits)

lemma vdict_wf_del [wf_intros]: "vdict_wf d \<Longrightarrow> vdict_wf (snd (vdict_del d key))"
  by (simp add: vdict_del_def Let_def vdict_wf_remove)

lemma vdict_wf_del_by_val [wf_intros]: "vdict_wf d \<Longrightarrow> vdict_wf (snd (vdict_del_by_val d val))"
  by (simp add: vdict_del_by_val_def Let_def vdict_wf_remove)

lemma zero_items_eq: "zero_items cb n items s = (foldl (\<lambda>s (k, v). cb v s) s items, n - length items)"
  by (induction cb n items s rule: zero_items.induct) (auto split: prod.splits)

lemma vdict_zero_eq: "vdict_wf d \<Longrightarrow> vdict_zero d cb s = Some (foldl (\<lambda>s (k, v). cb v s) s (vd_items d), vdict_init)"
  by (simp add: vdict_zero_def zero_items_eq vdict_wf_def vdict_init_def)

lemma find_key_map_of: "find_key key items = map_of items key"
  by (induction key items rule: find_key.induct) auto

lemma find_key_append: "find_key key (xs @ ys) = (case find_key key xs of None \<Rightarrow> find_key key ys | Some v \<Rightarrow> Some v)"
  by (induction key xs rule: find_key.induct) auto

text \<open>An entry under a new key is found; one under a key in use stays hidden behind the first until that is
  removed.\<close>

lemma vdict_get_init [simp]: "vdict_get vdict_init key = None"
  by (simp add: vdict_get_def vdict_init_def)

lemma vdict_get_add:
  "vdict_get (snd (vdict_add True d key val)) k =
     (case vdict_get d k of Some v \<Rightarrow> Some v | None \<Rightarrow> if k = key then Some val else None)"
  by (simp add: vdict_get_def vdict_add_def find_key_append split: option.splits)

lemma find_key_removed:
  "k \<noteq> key \<Longrightarrow> find_idx (\<lambda>(k, v). k = key) items = Some i \<Longrightarrow> find_key k (list_del i items) = find_key k items"
  by (induction items arbitrary: i) (auto split: if_splits)

lemma vdict_get_del: "k \<noteq> key \<Longrightarrow> vdict_get (snd (vdict_del d key)) k = vdict_get d k"
  by (auto simp: vdict_get_def vdict_del_def Let_def remove_at_def find_key_removed split: option.splits)

lemma vdict_del_found: "fst (vdict_del d key) = vdict_get d key"
proof -
  have "map_option (\<lambda>i. snd (xs ! i)) (find_idx (\<lambda>(k, v). k = key) xs) = find_key key xs" for xs :: "(bytes \<times> 'a) list"
  proof (induction xs)
    case (Cons a xs)
    then show ?case
      by (cases a; cases "find_idx (\<lambda>(k, v). k = key) xs") (auto simp del: find_idx_None)
  qed simp
  then show ?thesis by (simp add: vdict_del_def vdict_get_def Let_def)
qed

end
