(* ===== verification/Config.thy ===== *)
theory Config
  imports VDict AddrText
begin

section \<open>The configuration file (vcfg.c)\<close>

text \<open>
  A configuration is a tree of \<open>struct vcfg_item\<close>: dictionaries, lists, tuples and strings, each with its depth. A
  dictionary is a \<open>vdict\<close>; the \<open>varray\<close> of a list or a tuple is the list of its elements, which the parser only
  appends and the getters only read by index; a string is in the tree only once its text is set. The parser walks a
  cursor over the block that holds the file's bytes and a NUL: a cursor that leaves the block crashes. Allocation is
  taken to succeed.

  \<open>strchr\<close> finds the NUL of its own first argument, so that a test \<open>strchr(seps, c)\<close> also holds at the end of the
  text; \<open>in_seps\<close> is that test.
\<close>

datatype vcfg_item =
    CFG_DICT (item_depth: int) "vcfg_item vdict"
  | CFG_LIST (item_depth: int) "bytes option" "vcfg_item list"
  | CFG_TUPLE (item_depth: int) "vcfg_item list"
  | CFG_STR (item_depth: int) bytes

subsection \<open>Scanning\<close>

definition in_seps :: "bytes \<Rightarrow> byte \<Rightarrow> bool" where
  "in_seps seps c \<longleftrightarrow> c \<in> set seps \<or> c = 0"

definition is_word :: "byte \<Rightarrow> bool" where
  "is_word c \<longleftrightarrow> (97 \<le> c \<and> c \<le> 122) \<or> (65 \<le> c \<and> c \<le> 90) \<or> (48 \<le> c \<and> c \<le> 57)"

definition is_blank :: "byte \<Rightarrow> bool" where
  "is_blank c \<longleftrightarrow> c = 32 \<or> c = 9"

fun eat_while :: "(byte \<Rightarrow> bool) \<Rightarrow> bytes \<Rightarrow> bytes option" where
  "eat_while p [] = None"
| "eat_while p (c # cur) = (if p c then eat_while p cur else Some (c # cur))"

definition aux_eat_newline :: "bytes \<Rightarrow> bytes option" where
  "aux_eat_newline = eat_while (in_seps [32, 9, 10])"

definition aux_eat_blanks :: "bytes \<Rightarrow> bytes option" where
  "aux_eat_blanks = eat_while (in_seps [32, 9])"

definition aux_eat_endings :: "bytes \<Rightarrow> bytes option" where
  "aux_eat_endings = eat_while (\<lambda>c. c \<noteq> 0 \<and> in_seps [32, 9, 10] c)"

definition aux_eat_comments :: "bytes \<Rightarrow> bytes option" where
  "aux_eat_comments = eat_while (\<lambda>c. \<not> in_seps [10] c)"

text \<open>The delimiter \<open>:\<close> is followed by blanks; anything but a word, \<open>. ( { [ /\<close> or the end makes the result \<open>-1\<close>,
  which no caller reads.\<close>

fun aux_eat_delimiter :: "bytes \<Rightarrow> (int \<times> bytes) option" where
  "aux_eat_delimiter [] = None"
| "aux_eat_delimiter (c # cur) =
     (if is_word c \<or> in_seps [46, 40, 123, 91, 47] c then Some (0, c # cur)
      else if is_blank c then aux_eat_delimiter cur
      else Some (-1, c # cur))"

text \<open>A write of the next character into a buffer of \<open>n\<close> bytes.\<close>

definition put_char :: "nat \<Rightarrow> bytes \<Rightarrow> byte \<Rightarrow> bytes option" where
  "put_char n buf c = do {
     vassert (length buf < n);
     Some (buf @ [c])
   }"

text \<open>Words become a key joined by underscores, in a buffer of 32 bytes; the NUL that ends it is written too.\<close>

fun key_loop :: "bytes \<Rightarrow> bool \<Rightarrow> bytes \<Rightarrow> (bytes option \<times> bytes) option" where
  "key_loop key blank [] = None"
| "key_loop key blank (c # cur) =
     (if in_seps [59, 58, 10, 123, 125, 91, 93, 40, 41] c then do {
        _ \<leftarrow> put_char 32 key 0;
        Some (Some key, c # cur)
      }
      else if is_word c then do {
        (key, blank) \<leftarrow>
          (if key \<noteq> [] \<and> blank then do { key \<leftarrow> put_char 32 key 95; Some (key, False) } else Some (key, blank));
        key \<leftarrow> put_char 32 key c;
        if length key \<ge> 30 then Some (None, cur) else key_loop key blank cur
      }
      else if is_blank c then
        (if length key \<ge> 30 then Some (None, cur)
         else key_loop key (if key \<noteq> [] \<and> \<not> blank then True else blank) cur)
      else Some (None, c # cur))"

definition aux_create_key :: "bytes \<Rightarrow> (bytes option \<times> bytes) option" where
  "aux_create_key cur = key_loop [] False cur"

definition is_value :: "byte \<Rightarrow> bool" where
  "is_value c \<longleftrightarrow> is_word c \<or> c = 47 \<or> c = 46 \<or> c = 95"

text \<open>The first pass over a value counts its characters but not the underscores that will stand for blanks.\<close>

fun val_size :: "nat \<Rightarrow> bytes \<Rightarrow> nat option option" where
  "val_size sz [] = None"
| "val_size sz (c # pos) =
     (if in_seps [59, 58, 10, 125, 93, 41] c then Some (Some sz)
      else if is_value c then val_size (sz + 1) pos
      else if is_blank c then val_size sz pos
      else Some None)"

fun val_loop :: "nat \<Rightarrow> bytes \<Rightarrow> bool \<Rightarrow> bytes \<Rightarrow> (bytes option \<times> bytes) option" where
  "val_loop n val blank [] = None"
| "val_loop n val blank (c # cur) =
     (if in_seps [59, 58, 10, 125, 93, 41] c then do {
        _ \<leftarrow> put_char n val 0;
        Some (Some val, c # cur)
      }
      else if is_value c then do {
        (val, blank) \<leftarrow> (if blank then do { val \<leftarrow> put_char n val 95; Some (val, False) } else Some (val, blank));
        val \<leftarrow> put_char n val c;
        val_loop n val blank cur
      }
      else if is_blank c then val_loop n val (if val \<noteq> [] \<and> \<not> blank then True else blank) cur
      else Some (None, c # cur))"

definition aux_create_val :: "bytes \<Rightarrow> (bytes option \<times> bytes) option" where
  "aux_create_val cur = do {
     sz \<leftarrow> val_size 0 cur;
     case sz of
       None \<Rightarrow> Some (None, cur)
     | Some sz \<Rightarrow> val_loop (sz + 1) [] False cur
   }"

subsection \<open>Parsing\<close>

definition aux_parse_str :: "int \<Rightarrow> bytes \<Rightarrow> (vcfg_item option \<times> bytes) option" where
  "aux_parse_str depth cur = do {
     (val, cur) \<leftarrow> aux_create_val cur;
     Some (map_option (CFG_STR depth) val, cur)
   }"

text \<open>
  The loops of the parser, with fuel for their iterations. A tuple is parsed into the elements it has so far, a list
  into its key and elements, a dictionary into its entries, with the key that waits for its value. The result is the
  return value, the container, which keeps what was parsed before an error, and the cursor.
\<close>

fun aux_parse_tuple :: "nat \<Rightarrow> int \<Rightarrow> vcfg_item list \<Rightarrow> bytes \<Rightarrow> (int \<times> vcfg_item list \<times> bytes) outcome option" where
  "aux_parse_tuple 0 depth t cur = None"
| "aux_parse_tuple (Suc n) depth t cur =
     then_run (of_option (rd cur 0)) (\<lambda>c.
       if in_seps [] c then Some (Done (0, t, cur))
       else if is_word c then
         then_run (of_option (aux_parse_str (depth + 1) cur)) (\<lambda>(item, cur).
           case item of
             None \<Rightarrow> Some (Done (-1, t, cur))
           | Some item \<Rightarrow> aux_parse_tuple n depth (t @ [item]) cur)
       else if c = 41 then
         then_run (of_option (aux_eat_endings (drop 1 cur))) (\<lambda>cur. Some (Done (0, t, cur)))
       else if is_blank c then
         then_run (of_option (aux_eat_blanks (drop 1 cur))) (\<lambda>cur. aux_parse_tuple n depth t cur)
       else if c = 10 then
         then_run (of_option (aux_eat_newline (drop 1 cur))) (\<lambda>cur. aux_parse_tuple n depth t cur)
       else Some (Done (-1, t, cur)))"

fun aux_parse_list :: "nat \<Rightarrow> int \<Rightarrow> bytes option \<Rightarrow> vcfg_item list \<Rightarrow> bytes \<Rightarrow>
    (int \<times> bytes option \<times> vcfg_item list \<times> bytes) outcome option"
  and aux_parse_dict :: "nat \<Rightarrow> int \<Rightarrow> bytes option \<Rightarrow> vcfg_item vdict \<Rightarrow> bytes \<Rightarrow>
    (int \<times> vcfg_item vdict \<times> bytes) outcome option" where
  "aux_parse_list 0 depth lkey l cur = None"
| "aux_parse_list (Suc n) depth lkey l cur =
     then_run (of_option (rd cur 0)) (\<lambda>c.
       if in_seps [] c then Some (Done (0, lkey, l, cur))
       else if c = 59 then
         then_run (of_option (aux_eat_comments (drop 1 cur))) (\<lambda>cur. aux_parse_list n depth lkey l cur)
       else if c = 58 then
         then_run (of_option (aux_eat_delimiter (drop 1 cur))) (\<lambda>(ret, cur). aux_parse_list n depth lkey l cur)
       else if c = 123 then
         then_run (aux_parse_dict n (depth + 1) None vdict_init (drop 1 cur)) (\<lambda>(ret, d, cur).
           if ret < 0 then Some (Done (-1, lkey, l, cur))
           else aux_parse_list n depth lkey (l @ [CFG_DICT (depth + 1) d]) cur)
       else if c = 91 then
         then_run (aux_parse_list n (depth + 1) None [] (drop 1 cur)) (\<lambda>(ret, k, sub, cur).
           if ret < 0 then Some (Done (-1, lkey, l, cur))
           else aux_parse_list n depth lkey (l @ [CFG_LIST (depth + 1) k sub]) cur)
       else if c = 40 then
         then_run (aux_parse_tuple n (depth + 1) [] (drop 1 cur)) (\<lambda>(ret, t, cur).
           if ret < 0 then Some (Done (-1, lkey, l, cur))
           else aux_parse_list n depth lkey (l @ [CFG_TUPLE (depth + 1) t]) cur)
       else if c = 93 then
         then_run (of_option (aux_eat_endings (drop 1 cur))) (\<lambda>cur. Some (Done (0, lkey, l, cur)))
       else if is_word c then
         then_run (of_option (aux_create_key cur)) (\<lambda>(key, cur).
           case key of
             None \<Rightarrow> Some (Done (-1, lkey, l, cur))
           | Some key \<Rightarrow>
               if lkey = None then aux_parse_list n depth (Some key) l cur
               else if Some key \<noteq> lkey then Some (Done (-1, lkey, l, cur))
               else aux_parse_list n depth lkey l cur)
       else if is_blank c then
         then_run (of_option (aux_eat_blanks (drop 1 cur))) (\<lambda>cur. aux_parse_list n depth lkey l cur)
       else if c = 10 then
         then_run (of_option (aux_eat_newline (drop 1 cur))) (\<lambda>cur. aux_parse_list n depth lkey l cur)
       else Some (Done (-1, lkey, l, cur)))"
| "aux_parse_dict 0 depth key d cur = None"
| "aux_parse_dict (Suc n) depth key d cur =
     then_run (of_option (rd cur 0)) (\<lambda>c.
       if in_seps [] c then Some (Done (0, d, cur))
       else if c = 59 then
         then_run (of_option (aux_eat_comments (drop 1 cur))) (\<lambda>cur. aux_parse_dict n depth key d cur)
       else if c = 58 then
         (if key = None then Some (Done (-1, d, drop 1 cur))
          else then_run (of_option (aux_eat_delimiter (drop 1 cur))) (\<lambda>(ret, cur). aux_parse_dict n depth key d cur))
       else if c = 123 then
         then_run (of_option key) (\<lambda>key.
         then_run (aux_parse_dict n (depth + 1) None vdict_init (drop 1 cur)) (\<lambda>(ret, sub, cur).
           if ret < 0 then Some (Done (-1, d, cur))
           else aux_parse_dict n depth None (snd (vdict_add True d key (CFG_DICT (depth + 1) sub))) cur))
       else if c = 91 then
         then_run (of_option key) (\<lambda>key.
         then_run (aux_parse_list n (depth + 1) None [] (drop 1 cur)) (\<lambda>(ret, k, sub, cur).
           if ret < 0 then Some (Done (-1, d, cur))
           else aux_parse_dict n depth None (snd (vdict_add True d key (CFG_LIST (depth + 1) k sub))) cur))
       else if c = 40 then
         then_run (of_option key) (\<lambda>key.
         then_run (aux_parse_tuple n (depth + 1) [] (drop 1 cur)) (\<lambda>(ret, t, cur).
           if ret < 0 then Some (Done (-1, d, cur))
           else aux_parse_dict n depth None (snd (vdict_add True d key (CFG_TUPLE (depth + 1) t))) cur))
       else if c = 125 then
         then_run (of_option (aux_eat_endings (drop 1 cur))) (\<lambda>cur. Some (Done (0, d, cur)))
       else if is_word c \<or> c = 46 \<or> c = 47 then
         (case key of
            Some key \<Rightarrow>
              then_run (of_option (aux_parse_str (depth + 1) cur)) (\<lambda>(item, cur).
                case item of
                  None \<Rightarrow> Some (Done (-1, d, cur))
                | Some item \<Rightarrow> aux_parse_dict n depth None (snd (vdict_add True d key item)) cur)
          | None \<Rightarrow>
              then_run (of_option (aux_create_key cur)) (\<lambda>(key, cur).
                if key = None then Some (Done (-1, d, cur)) else aux_parse_dict n depth key d cur))
       else if is_blank c then
         then_run (of_option (aux_eat_blanks (drop 1 cur))) (\<lambda>cur. aux_parse_dict n depth key d cur)
       else if c = 10 then
         then_run (of_option (aux_eat_newline (drop 1 cur))) (\<lambda>cur. aux_parse_dict n depth key d cur)
       else Some (Done (-1, d, cur)))"

text \<open>\<open>file\<close> is what \<open>open\<close>, \<open>fstat\<close> and \<open>read\<close> give: \<open>None\<close> when one of them fails. Fuel of one more than the block
  is enough.\<close>

definition vcfg_parse :: "bytes option \<Rightarrow> vcfg_item vdict \<Rightarrow> (int \<times> vcfg_item vdict) outcome option" where
  "vcfg_parse file d =
     (case file of
        None \<Rightarrow> Some (Done (-1, d))
      | Some text \<Rightarrow>
          then_run (aux_parse_dict (length text + 2) 0 None d (text @ [0])) (\<lambda>(ret, d, cur).
            Some (Done (if ret < 0 then -1 else 0, d))))"

subsection \<open>Look-up\<close>

text \<open>
  \<open>strcmp\<close> with the key of a list that has none crashes. In the case of a tuple an inner variable \<open>item\<close>, which is
  \<open>NULL\<close>, hides the argument, and the size of the array in it is read: every look-up in a tuple crashes.
\<close>

fun vcfg_item_get :: "vcfg_item \<Rightarrow> bytes \<Rightarrow> vcfg_item option option" where
  "vcfg_item_get (CFG_DICT depth d) key = Some (vdict_get d key)"
| "vcfg_item_get (CFG_LIST depth lkey l) key = do {
     k \<leftarrow> lkey;
     Some (if key = k then Some (CFG_LIST depth lkey l) else None)
   }"
| "vcfg_item_get (CFG_TUPLE depth t) key = None"
| "vcfg_item_get (CFG_STR depth s) key = Some None"

function aux_get_cfg_item :: "vcfg_item \<Rightarrow> bytes \<Rightarrow> vcfg_item option option" where
  "aux_get_cfg_item item long_key =
     (case find_idx (\<lambda>c. c = 46) long_key of
        None \<Rightarrow> vcfg_item_get item long_key
      | Some comma \<Rightarrow> do {
          sub_item \<leftarrow> vcfg_item_get item (take comma long_key);
          case sub_item of
            None \<Rightarrow> Some None
          | Some sub_item \<Rightarrow> aux_get_cfg_item sub_item (drop (comma + 1) long_key)
        })"
  by pat_completeness auto
termination by (relation "measure (length \<circ> snd)") (auto dest: find_idx_lt)

declare aux_get_cfg_item.simps [simp del]

definition vcfg_check :: "vcfg_item vdict \<Rightarrow> bytes \<Rightarrow> bool option" where
  "vcfg_check cfg key = map_option (\<lambda>item. item \<noteq> None) (aux_get_cfg_item (CFG_DICT 0 cfg) key)"

text \<open>\<open>strtol\<close> gives a \<open>long\<close>, of which the low 32 bits are kept.\<close>

definition vcfg_get_int_val :: "vcfg_item vdict \<Rightarrow> bytes \<Rightarrow> int option" where
  "vcfg_get_int_val cfg key = do {
     item \<leftarrow> aux_get_cfg_item (CFG_DICT 0 cfg) key;
     case item of
       Some (CFG_STR depth s) \<Rightarrow>
         if \<not> (\<forall>c \<in> set s. c_isdigit c) then Some (-1)
         else do {
           (v, k, err) \<leftarrow> strtol (s @ [0]);
           Some (if err then -1 else to_int32 v)
         }
     | _ \<Rightarrow> Some (-1)
   }"

definition vcfg_get_str_val :: "vcfg_item vdict \<Rightarrow> bytes \<Rightarrow> bytes option option" where
  "vcfg_get_str_val cfg key = do {
     item \<leftarrow> aux_get_cfg_item (CFG_DICT 0 cfg) key;
     Some (case item of Some (CFG_STR depth s) \<Rightarrow> Some s | _ \<Rightarrow> None)
   }"

definition vcfg_get_dict_val :: "vcfg_item vdict \<Rightarrow> bytes \<Rightarrow> vcfg_item vdict option option" where
  "vcfg_get_dict_val cfg key = do {
     item \<leftarrow> aux_get_cfg_item (CFG_DICT 0 cfg) key;
     Some (case item of Some (CFG_DICT depth d) \<Rightarrow> Some d | _ \<Rightarrow> None)
   }"

definition vcfg_get_list_val :: "vcfg_item vdict \<Rightarrow> bytes \<Rightarrow> vcfg_item list option option" where
  "vcfg_get_list_val cfg key = do {
     item \<leftarrow> aux_get_cfg_item (CFG_DICT 0 cfg) key;
     Some (case item of Some (CFG_LIST depth k l) \<Rightarrow> Some l | _ \<Rightarrow> None)
   }"

definition vcfg_get_tuple_val :: "vcfg_item vdict \<Rightarrow> bytes \<Rightarrow> vcfg_item list option option" where
  "vcfg_get_tuple_val cfg key = do {
     item \<leftarrow> aux_get_cfg_item (CFG_DICT 0 cfg) key;
     Some (case item of Some (CFG_TUPLE depth t) \<Rightarrow> Some t | _ \<Rightarrow> None)
   }"

subsection \<open>The settings of the daemon\<close>

definition str_or :: "string \<Rightarrow> bytes option \<Rightarrow> bytes" where
  "str_or dflt val = (case val of None \<Rightarrow> cstr dflt | Some s \<Rightarrow> s)"

definition vcfg_get_pid_filename :: "vcfg_item vdict \<Rightarrow> bytes option" where
  "vcfg_get_pid_filename cfg = map_option (str_or ''/var/run/vdht/vdhtd.pid'') (vcfg_get_str_val cfg (cstr ''global.pid_file''))"

definition vcfg_get_syslog_switch :: "vcfg_item vdict \<Rightarrow> int option" where
  "vcfg_get_syslog_switch cfg = map_option (\<lambda>on. if on < 0 then 1 else on) (vcfg_get_int_val cfg (cstr ''global.syslog''))"

definition vcfg_get_syslog_ident :: "vcfg_item vdict \<Rightarrow> bytes option" where
  "vcfg_get_syslog_ident cfg = map_option (str_or ''vdhtd'') (vcfg_get_str_val cfg (cstr ''global.syslog_ident''))"

definition vcfg_get_lsctl_socket :: "vcfg_item vdict \<Rightarrow> bytes option" where
  "vcfg_get_lsctl_socket cfg = map_option (str_or ''/var/run/vdht/lsctl_socket'') (vcfg_get_str_val cfg (cstr ''lsctl.unix_path''))"

definition vcfg_get_host_db_file :: "vcfg_item vdict \<Rightarrow> bytes option" where
  "vcfg_get_host_db_file cfg = map_option (str_or ''vdht.db'') (vcfg_get_str_val cfg (cstr ''host.db_file''))"

definition vcfg_get_route_bucket_sz :: "vcfg_item vdict \<Rightarrow> int option" where
  "vcfg_get_route_bucket_sz cfg = map_option (\<lambda>sz. if sz < 0 then 10 else sz) (vcfg_get_int_val cfg (cstr ''route.bucket_size''))"

text \<open>
  A timeout ends with its unit. The three getters share their code, up to the key and the default. The last
  character of an empty text would be read before its start; the product must fit an \<open>int\<close>.
\<close>

definition tmo_unit :: "byte \<Rightarrow> int option" where
  "tmo_unit c = (if c = 115 then Some 1 else if c = 109 then Some 60 else None)"

definition get_tmo :: "int \<Rightarrow> bytes option \<Rightarrow> int option" where
  "get_tmo dflt val =
     (case val of
        None \<Rightarrow> Some dflt
      | Some val \<Rightarrow> do {
          vassert (val \<noteq> []);
          case tmo_unit (last val) of
            None \<Rightarrow> Some dflt
          | Some tms \<Rightarrow> do {
              (v, k, err) \<leftarrow> strtol (val @ [0]);
              if err then Some dflt
              else do {
                vassert (int32_ok (to_int32 v * tms));
                Some (to_int32 v * tms)
              }
            }
        })"

definition vcfg_get_host_tick_tmo :: "vcfg_item vdict \<Rightarrow> int option" where
  "vcfg_get_host_tick_tmo cfg = Option.bind (vcfg_get_str_val cfg (cstr ''host.tick_timeout'')) (get_tmo 5)"

definition vcfg_get_host_wb_tmo :: "vcfg_item vdict \<Rightarrow> int option" where
  "vcfg_get_host_wb_tmo cfg = Option.bind (vcfg_get_str_val cfg (cstr ''host.writeback_timeout'')) (get_tmo 60)"

definition vcfg_get_route_max_next_tmo :: "vcfg_item vdict \<Rightarrow> int option" where
  "vcfg_get_route_max_next_tmo cfg = Option.bind (vcfg_get_str_val cfg (cstr ''route.max_next_tmo'')) (get_tmo 60)"

subsection \<open>Addresses in the configuration\<close>

text \<open>The resolver \<open>getaddrinfo\<close> is a parameter: for a host, a port and whether TCP is asked for it fails or gives its
  list, some entries of which may have no address.\<close>

type_synonym resolver = "bytes \<Rightarrow> bytes \<Rightarrow> bool \<Rightarrow> sockaddr_in option list option"

fun copy_addrs :: "nat \<Rightarrow> sockaddr_in option list \<Rightarrow> sockaddr_in list \<Rightarrow> sockaddr_in list" where
  "copy_addrs num [] addrs = addrs"
| "copy_addrs num (a # res) addrs =
     (case a of
        None \<Rightarrow> copy_addrs num res addrs
      | Some a \<Rightarrow> copy_addrs num res (if length addrs < num then addrs @ [a] else addrs))"

definition vsockaddr_get_by_hostname :: "resolver \<Rightarrow> bytes \<Rightarrow> bytes \<Rightarrow> bytes \<Rightarrow> nat \<Rightarrow> (int \<times> sockaddr_in list) option" where
  "vsockaddr_get_by_hostname dns ip port proto num = do {
     vassert (num > 0);
     if proto \<in> {cstr ''udp'', cstr ''UDP'', cstr ''tcp'', cstr ''TCP''} then
       (case dns ip port (proto \<in> {cstr ''tcp'', cstr ''TCP''}) of
          None \<Rightarrow> Some (-1, [])
        | Some res \<Rightarrow> let addrs = copy_addrs num res [] in Some (int (length addrs), addrs))
     else Some (-1, [])
   }"

text \<open>The text of the element \<open>i\<close> of a tuple, if it has one and that is a string.\<close>

definition tuple_str :: "vcfg_item list \<Rightarrow> nat \<Rightarrow> bytes option" where
  "tuple_str t i = (if i < length t then (case t ! i of CFG_STR depth s \<Rightarrow> Some s | _ \<Rightarrow> None) else None)"

definition aux_tuple_addr_2_sin_addr :: "resolver \<Rightarrow> vcfg_item list \<Rightarrow> nat \<Rightarrow> (int \<times> sockaddr_in list) option" where
  "aux_tuple_addr_2_sin_addr dns tuple_addr num =
     (case tuple_str tuple_addr 0 of
        None \<Rightarrow> Some (-1, [])
      | Some ip \<Rightarrow>
          if length ip \<ge> 64 then Some (-1, [])
          else (case (tuple_str tuple_addr 1, tuple_str tuple_addr 2) of
              (Some port, Some proto) \<Rightarrow> do {
                (ret, addrs) \<leftarrow> vsockaddr_get_by_hostname dns ip port proto num;
                Some (if ret < 0 then -1 else ret, addrs)
              }
            | _ \<Rightarrow> Some (-1, [])))"

text \<open>The addresses the callback gets, in order. An element of the list is read as a tuple whatever it is; one that is
  not is another member of the union.\<close>

fun boot_addrs :: "resolver \<Rightarrow> vcfg_item list \<Rightarrow> sockaddr_in list option" where
  "boot_addrs dns [] = Some []"
| "boot_addrs dns (item # items) = do {
     t \<leftarrow> (case item of CFG_TUPLE depth t \<Rightarrow> Some t | _ \<Rightarrow> None);
     (ret, addrs) \<leftarrow> aux_tuple_addr_2_sin_addr dns t 5;
     rest \<leftarrow> boot_addrs dns items;
     Some ((if ret < 0 then [] else addrs) @ rest)
   }"

definition vcfg_load_boot_nodes :: "resolver \<Rightarrow> vcfg_item vdict \<Rightarrow> sockaddr_in list option" where
  "vcfg_load_boot_nodes dns cfg = do {
     boot_nodes \<leftarrow> vcfg_get_list_val cfg (cstr ''boot'');
     case boot_nodes of None \<Rightarrow> Some [] | Some l \<Rightarrow> boot_addrs dns l
   }"

text \<open>\<open>strcpy\<close> into a buffer of 32 bytes, NUL included.\<close>

definition vcfg_get_dht_address :: "vcfg_item vdict \<Rightarrow> sockaddr_in \<Rightarrow> (int \<times> sockaddr_in) option" where
  "vcfg_get_dht_address cfg addr = do {
     tuple \<leftarrow> vcfg_get_tuple_val cfg (cstr ''dht.address'');
     case tuple of
       None \<Rightarrow> Some (-1, addr)
     | Some t \<Rightarrow>
         (case tuple_str t 0 of
            None \<Rightarrow> Some (-1, addr)
          | Some ip \<Rightarrow> do {
              vassert (length ip < 32);
              case tuple_str t 1 of
                None \<Rightarrow> Some (-1, addr)
              | Some port \<Rightarrow> do {
                  (v, k, err) \<leftarrow> strtol (port @ [0]);
                  if err then Some (-1, addr)
                  else do {
                    (ret, addr) \<leftarrow> vsockaddr_convert (ip @ [0]) (word_of_int v);
                    Some (if ret < 0 then -1 else 0, addr)
                  }
                }
            })
   }"

end
