(* ===== verification/ConfigText.thy ===== *)
theory ConfigText
  imports Config
begin

section \<open>What the parser of the configuration file does\<close>

text \<open>
  The parser ends within its fuel; what it builds is well formed (depths, keys, strings, counters); and every
  well-formed tree has a text that the parser reads back. \<open>settles P r\<close> says that a run has an end, and that its result,
  if it does not crash, has \<open>P\<close>.
\<close>

definition settles :: "('a \<Rightarrow> bool) \<Rightarrow> 'a outcome option \<Rightarrow> bool" where
  "settles P r \<longleftrightarrow> r \<noteq> None \<and> (\<forall>x. r = Some (Done x) \<longrightarrow> P x)"

named_theorems settles_intros \<open>rules that follow the steps of a run\<close>

lemma settles_then [settles_intros]:
  "settles P r \<Longrightarrow> (\<And>x. P x \<Longrightarrow> settles Q (f x)) \<Longrightarrow> settles Q (then_run r f)"
  by (auto simp: settles_def then_run_def split: option.splits outcome.splits)

lemma settles_of_option: "settles P (of_option m) \<longleftrightarrow> (\<forall>x. m = Some x \<longrightarrow> P x)"
  by (cases m) (auto simp: settles_def)

lemma settles_then_option [settles_intros]:
  "(\<And>x. m = Some x \<Longrightarrow> settles Q (f x)) \<Longrightarrow> settles Q (then_run (of_option m) f)"
  by (cases m) (auto simp: settles_def)

lemma settles_if [settles_intros]: "(b \<Longrightarrow> settles P x) \<Longrightarrow> (\<not> b \<Longrightarrow> settles P y) \<Longrightarrow> settles P (if b then x else y)"
  by simp

lemma settles_case_option [settles_intros]:
  "(x = None \<Longrightarrow> settles P a) \<Longrightarrow> (\<And>y. x = Some y \<Longrightarrow> settles P (b y)) \<Longrightarrow> settles P (case x of None \<Rightarrow> a | Some y \<Rightarrow> b y)"
  by (cases x) auto

lemma settles_case_prod [settles_intros]: "(\<And>a b. x = (a, b) \<Longrightarrow> settles P (f a b)) \<Longrightarrow> settles P (case x of (a, b) \<Rightarrow> f a b)"
  by (cases x) auto

lemma settles_Done [simp]: "settles P (Some (Done x)) \<longleftrightarrow> P x"
  by (simp add: settles_def)

lemma settles_mono: "settles P r \<Longrightarrow> (\<And>x. P x \<Longrightarrow> Q x) \<Longrightarrow> settles Q r"
  by (auto simp: settles_def)

subsection \<open>Well-formed trees\<close>

text \<open>A key is words joined by single underscores, shorter than the parser's limit.\<close>

fun key_tail :: "bytes \<Rightarrow> bool" where
  "key_tail [] = True"
| "key_tail (c # k) = (if c = 95 then k \<noteq> [] \<and> is_word (hd k) \<and> key_tail k else is_word c \<and> key_tail k)"

definition key_ok :: "bytes \<Rightarrow> bool" where
  "key_ok k \<longleftrightarrow> k \<noteq> [] \<and> is_word (hd k) \<and> key_tail k \<and> length k < 30"

definition str_ok :: "bytes \<Rightarrow> bool" where
  "str_ok s \<longleftrightarrow> s \<noteq> [] \<and> hd s \<noteq> 95 \<and> (\<forall>c \<in> set s. is_value c)"

fun is_str :: "vcfg_item \<Rightarrow> bool" where
  "is_str (CFG_STR d s) = True"
| "is_str _ = False"

function item_ok :: "int \<Rightarrow> vcfg_item \<Rightarrow> bool" where
  "item_ok n (CFG_DICT d (VDict u es)) \<longleftrightarrow>
     d = n \<and> u = length es \<and> (\<forall>e \<in> set es. key_ok (fst e) \<and> item_ok (n + 1) (snd e))"
| "item_ok n (CFG_LIST d k l) \<longleftrightarrow>
     d = n \<and> (case k of None \<Rightarrow> True | Some k \<Rightarrow> key_ok k) \<and> (\<forall>item \<in> set l. \<not> is_str item \<and> item_ok (n + 1) item)"
| "item_ok n (CFG_TUPLE d t) \<longleftrightarrow> d = n \<and> (\<forall>item \<in> set t. \<exists>s. item = CFG_STR (n + 1) s \<and> str_ok s \<and> is_word (hd s))"
| "item_ok n (CFG_STR d s) \<longleftrightarrow> d = n \<and> str_ok s"
  by pat_completeness auto
termination
proof (relation "measure (size \<circ> snd)")
  have "e \<in> set es \<Longrightarrow> size (snd e) \<le> size_list (size_prod (\<lambda>_. 0) size) es" for e and es :: "(bytes \<times> vcfg_item) list"
    by (induction es) (auto simp: prod.size_gen(1) split: prod.splits)
  then show "e \<in> set es \<Longrightarrow> ((n + 1, snd e), n, CFG_DICT d (VDict u es)) \<in> measure (size \<circ> snd)" for n d u es e
    by (simp add: le_imp_less_Suc le_SucI)
qed (auto intro: size_list_estimation' simp: less_Suc_eq_le)
subsection \<open>Scanning\<close>

lemma is_word_nz: "is_word c \<Longrightarrow> c \<noteq> 0 \<and> c \<noteq> 95 \<and> c \<noteq> 9 \<and> c \<noteq> 10 \<and> c \<noteq> 32 \<and> c \<noteq> 40 \<and> c \<noteq> 41 \<and> c \<noteq> 46 \<and> c \<noteq> 47 \<and> c \<noteq> 58 \<and> c \<noteq> 59
    \<and> c \<noteq> 91 \<and> c \<noteq> 93 \<and> c \<noteq> 123 \<and> c \<noteq> 125"
  by (auto simp: is_word_def)

lemma underscore_not_word [simp]: "\<not> is_word 95"
  by (simp add: is_word_def)

lemma is_value_nz: "is_value c \<Longrightarrow> c \<noteq> 0 \<and> c \<noteq> 9 \<and> c \<noteq> 10 \<and> c \<noteq> 32 \<and> c \<noteq> 40 \<and> c \<noteq> 41 \<and> c \<noteq> 58 \<and> c \<noteq> 59
    \<and> c \<noteq> 91 \<and> c \<noteq> 93 \<and> c \<noteq> 123 \<and> c \<noteq> 125"
  using is_word_nz [of c] by (auto simp: is_value_def)

lemma eat_while_len: "eat_while p cur = Some r \<Longrightarrow> length r \<le> length cur"
  by (induction p cur rule: eat_while.induct) (auto split: if_splits)

lemma eats_len:
  "aux_eat_newline cur = Some r \<Longrightarrow> length r \<le> length cur"
  "aux_eat_blanks cur = Some r \<Longrightarrow> length r \<le> length cur"
  "aux_eat_endings cur = Some r \<Longrightarrow> length r \<le> length cur"
  "aux_eat_comments cur = Some r \<Longrightarrow> length r \<le> length cur"
  by (auto simp: aux_eat_newline_def aux_eat_blanks_def aux_eat_endings_def aux_eat_comments_def dest: eat_while_len)

lemma eat_delimiter_len: "aux_eat_delimiter cur = Some (ret, r) \<Longrightarrow> length r \<le> length cur"
  by (induction cur rule: aux_eat_delimiter.induct) (auto split: if_splits)

lemma put_char_Some: "put_char n buf c = Some buf' \<longleftrightarrow> length buf < n \<and> buf' = buf @ [c]"
  by (auto simp: put_char_def)

text \<open>The key read so far is well formed, and so is a finished one.\<close>

definition key_part :: "bytes \<Rightarrow> bool" where
  "key_part k \<longleftrightarrow> k = [] \<or> key_ok k"

lemma key_tail_word: "key_tail k \<Longrightarrow> is_word c \<Longrightarrow> key_tail (k @ [c])"
  by (induction k) (auto simp: hd_append dest: is_word_nz)

lemma key_tail_join: "key_tail k \<Longrightarrow> is_word c \<Longrightarrow> key_tail (k @ [95, c])"
  by (induction k) (auto simp: hd_append dest: is_word_nz)

lemma not_key_sep: "is_word c \<or> is_blank c \<Longrightarrow> \<not> in_seps [59, 58, 10, 123, 125, 91, 93, 40, 41] c"
  using is_word_nz [of c] by (auto simp: in_seps_def is_blank_def)

lemma not_word_blank: "is_blank c \<Longrightarrow> \<not> is_word c"
  by (auto dest: is_word_nz simp: is_blank_def)

lemma key_loop_word:
  assumes "is_word c" "length key < 30"
  shows "key_loop key blank (c # cur) =
     (let k = (if key \<noteq> [] \<and> blank then key @ [95, c] else key @ [c]) in
      if length k \<ge> 30 then Some (None, cur) else key_loop k (if key \<noteq> [] \<and> blank then False else blank) cur)"
  using not_key_sep [of c] assms by (cases "key = []"; cases blank) (simp_all add: put_char_def Let_def)

lemma key_loop_blank:
  "is_blank c \<Longrightarrow> length key < 30 \<Longrightarrow>
     key_loop key blank (c # cur) = key_loop key (if key \<noteq> [] \<and> \<not> blank then True else blank) cur"
  by (simp add: not_key_sep not_word_blank)

lemma key_loop_sep:
  "in_seps [59, 58, 10, 123, 125, 91, 93, 40, 41] c \<Longrightarrow> length key < 30 \<Longrightarrow> key_loop key blank (c # cur) = Some (Some key, c # cur)"
  by (simp add: put_char_def)

lemma key_part_length: "key_part key \<Longrightarrow> length key < 30"
  by (auto simp: key_part_def key_ok_def)

lemma key_part_grow:
  assumes "key_part key" "is_word c" "length (if key \<noteq> [] \<and> blank then key @ [95, c] else key @ [c]) < 30"
  shows "key_part (if key \<noteq> [] \<and> blank then key @ [95, c] else key @ [c])"
  using assms key_tail_join [of key c] key_tail_word [of key c] is_word_nz [of c] by (cases "key = []") (auto simp: key_part_def key_ok_def hd_append)

lemma key_loop_ok:
  "key_loop key blank cur = Some (k, r) \<Longrightarrow> key_part key \<Longrightarrow>
     length r \<le> length cur \<and> (\<forall>k'. k = Some k' \<longrightarrow> key_part k' \<and> (key \<noteq> [] \<longrightarrow> k' \<noteq> []))"
proof (induction cur arbitrary: key blank)
  case (Cons c cur)
  note len = key_part_length [OF Cons.prems(2)]
  consider (sep) "in_seps [59, 58, 10, 123, 125, 91, 93, 40, 41] c" | (word) "is_word c" | (blank) "is_blank c"
    | (bad) "\<not> in_seps [59, 58, 10, 123, 125, 91, 93, 40, 41] c" "\<not> is_word c" "\<not> is_blank c" by blast
  then show ?case
  proof cases
    case word
    let ?k = "if key \<noteq> [] \<and> blank then key @ [95, c] else key @ [c]"
    show ?thesis
    proof (cases "length ?k < 30")
      case True
      have "key_loop ?k (if key \<noteq> [] \<and> blank then False else blank) cur = Some (k, r)"
        using Cons.prems(1) True unfolding key_loop_word [OF word len] Let_def by (simp del: key_loop.simps)
      from Cons.IH [OF this key_part_grow [OF Cons.prems(2) word True]] show ?thesis by auto
    next
      case False
      then show ?thesis using Cons.prems(1) unfolding key_loop_word [OF word len] Let_def by auto
    qed
  next
    case blank
    from Cons.IH [OF Cons.prems(1) [unfolded key_loop_blank [OF blank len]] Cons.prems(2)] show ?thesis by simp
  next
    case sep
    then show ?thesis using Cons.prems key_loop_sep [OF sep len] by auto
  qed (use Cons.prems in auto)
qed simp

lemma create_key_ok:
  assumes "aux_create_key (c # cur) = Some (k, r)" "is_word c"
  shows "length r \<le> length cur \<and> (\<forall>k'. k = Some k' \<longrightarrow> key_ok k')"
proof -
  have e: "key_loop [c] False cur = Some (k, r)"
    using assms(1) by (simp add: aux_create_key_def key_loop_word [OF assms(2)] del: key_loop.simps)
  have "key_part [c]" using assms(2) by (auto simp: key_part_def key_ok_def)
  from key_loop_ok [OF e this] show ?thesis by (auto simp: key_part_def)
qed

text \<open>A key that begins with a dot or a slash is refused.\<close>

lemma create_key_ok':
  assumes "aux_create_key (c # cur) = Some (k, r)" "is_word c \<or> c = 46 \<or> c = 47"
  shows "length r \<le> Suc (length cur) \<and> (\<forall>k'. k = Some k' \<longrightarrow> key_ok k' \<and> length r < Suc (length cur))"
proof (cases "is_word c")
  case True
  then show ?thesis using create_key_ok [OF assms(1)] by auto
next
  case False
  then show ?thesis using assms by (auto simp: aux_create_key_def in_seps_def is_blank_def)
qed

text \<open>A value never has a blank inside: each would be one character more than were counted.\<close>

text \<open>A value never has a blank inside: each would be one character more than was counted.\<close>

lemma val_loop_put:
  assumes "is_value c"
  shows "val_loop n val blank (c # cur) = (let v = (if blank then val @ [95, c] else val @ [c]) in
      if length v \<le> n then val_loop n v False cur else None)"
proof -
  have "\<not> in_seps [59, 58, 10, 125, 93, 41] c" using is_value_nz [OF assms] by (auto simp: in_seps_def)
  then show ?thesis using assms by (cases blank) (auto simp: put_char_def Let_def)
qed

lemma not_val_sep: "is_value c \<or> is_blank c \<Longrightarrow> \<not> in_seps [59, 58, 10, 125, 93, 41] c"
  using is_value_nz [of c] by (auto simp: in_seps_def is_blank_def)

lemma not_value_blank: "is_blank c \<Longrightarrow> \<not> is_value c"
  by (auto dest: is_value_nz simp: is_blank_def)

lemma val_loop_blank:
  "is_blank c \<Longrightarrow> val_loop n val blank (c # cur) = val_loop n val (if val \<noteq> [] \<and> \<not> blank then True else blank) cur"
  by (simp add: not_val_sep not_value_blank)

lemma val_loop_sep:
  "in_seps [59, 58, 10, 125, 93, 41] c \<Longrightarrow>
     val_loop n val blank (c # cur) = (if length val < n then Some (Some val, c # cur) else None)"
  by (simp add: put_char_def)

lemma val_loop_ok:
  "val_loop n val blank cur = Some (v, r) \<Longrightarrow> \<forall>c \<in> set val. is_value c \<Longrightarrow>
     length r \<le> length cur \<and> (\<forall>v'. v = Some v' \<longrightarrow> (\<forall>c \<in> set v'. is_value c) \<and> (\<exists>u. v' = val @ u))"
proof (induction cur arbitrary: val blank)
  case (Cons c cur)
  consider (sep) "in_seps [59, 58, 10, 125, 93, 41] c" | (put) "is_value c" | (blank) "is_blank c"
    | (bad) "\<not> in_seps [59, 58, 10, 125, 93, 41] c" "\<not> is_value c" "\<not> is_blank c" by blast
  then show ?case
  proof cases
    case put
    have u: "is_value 95" by (simp add: is_value_def)
    let ?v = "if blank then val @ [95, c] else val @ [c]"
    have e: "val_loop n ?v False cur = Some (v, r)"
      using Cons.prems(1) unfolding val_loop_put [OF put] Let_def by (simp del: val_loop.simps split: if_splits)
    have "\<forall>c \<in> set ?v. is_value c" using Cons.prems(2) put u by auto
    from Cons.IH [OF e this] show ?thesis by (auto split: if_splits)
  next
    case blank
    from Cons.IH [OF Cons.prems(1) [unfolded val_loop_blank [OF blank]] Cons.prems(2)] show ?thesis by auto
  next
    case sep
    then show ?thesis using Cons.prems val_loop_sep [OF sep] by (auto split: if_splits)
  qed (use Cons.prems in auto)
qed simp

lemma create_val_ok:
  assumes "aux_create_val (c # cur) = Some (v, r)" "is_value c"
  shows "length r \<le> Suc (length cur) \<and> (\<forall>v'. v = Some v' \<longrightarrow> length r \<le> length cur \<and> v' \<noteq> [] \<and> hd v' = c \<and> (\<forall>c \<in> set v'. is_value c))"
proof -
  obtain sz where sz: "val_size 0 (c # cur) = Some sz" using assms(1) by (auto simp: aux_create_val_def run_simps simp del: val_size.simps)
  show ?thesis
  proof (cases sz)
    case None
    then show ?thesis using assms(1) sz by (auto simp: aux_create_val_def simp del: val_size.simps)
  next
    case (Some n)
    have "val_loop (n + 1) [c] False cur = Some (v, r)"
      using assms(1) sz Some by (auto simp: aux_create_val_def val_loop_put [OF assms(2)] simp del: val_size.simps val_loop.simps split: if_splits)
    from val_loop_ok [OF this] assms(2) show ?thesis by auto
  qed
qed

lemma parse_str_ok:
  assumes "aux_parse_str d (c # cur) = Some (it, r)" "is_word c \<or> c = 46 \<or> c = 47"
  shows "length r \<le> Suc (length cur) \<and> (\<forall>i. it = Some i \<longrightarrow> length r \<le> length cur \<and> (\<exists>s. i = CFG_STR d s \<and> str_ok s \<and> hd s = c))"
proof -
  have v: "is_value c" and "c \<noteq> 95" using assms(2) is_word_nz [of c] by (auto simp: is_value_def)
  obtain v where "aux_create_val (c # cur) = Some (v, r)" "it = map_option (CFG_STR d) v"
    using assms(1) by (auto simp: aux_parse_str_def run_simps)
  from create_val_ok [OF this(1) v] this(2) \<open>c \<noteq> 95\<close> show ?thesis by (auto simp: str_ok_def)
qed

subsection \<open>The parser ends, and what it builds is well formed\<close>

definition opt_key_ok :: "bytes option \<Rightarrow> bool" where
  "opt_key_ok k \<longleftrightarrow> (case k of None \<Rightarrow> True | Some k \<Rightarrow> key_ok k)"

abbreviation tuple_ok :: "int \<Rightarrow> vcfg_item list \<Rightarrow> bool" where
  "tuple_ok d t \<equiv> item_ok d (CFG_TUPLE d t)"

abbreviation list_ok :: "int \<Rightarrow> bytes option \<Rightarrow> vcfg_item list \<Rightarrow> bool" where
  "list_ok d k l \<equiv> item_ok d (CFG_LIST d k l)"

abbreviation dict_ok :: "int \<Rightarrow> vcfg_item vdict \<Rightarrow> bool" where
  "dict_ok d v \<equiv> item_ok d (CFG_DICT d v)"

lemma dict_ok_add [intro]:
  "dict_ok d v \<Longrightarrow> key_ok key \<Longrightarrow> item_ok (d + 1) it \<Longrightarrow> dict_ok d (snd (vdict_add True v key it))"
  by (cases v) (auto simp: vdict_add_def)

lemma dict_ok_init [simp]: "dict_ok d vdict_init"
  by (simp add: vdict_init_def)

lemma list_ok_add: "list_ok d k l \<Longrightarrow> item_ok (d + 1) it \<Longrightarrow> \<not> is_str it \<Longrightarrow> list_ok d k (l @ [it])"
  by auto

lemma tuple_ok_add: "tuple_ok d t \<Longrightarrow> item_ok (d + 1) it \<Longrightarrow> is_str it \<Longrightarrow> is_word (hd (case it of CFG_STR d s \<Rightarrow> s)) \<Longrightarrow> tuple_ok d (t @ [it])"
  by (cases it) auto

lemmas settles_steps = settles_then_option settles_if settles_case_option settles_case_prod

lemma rd_hd: "rd cur 0 = Some c \<Longrightarrow> \<exists>rest. cur = c # rest"
  by (cases cur) (auto simp: rd_def)

lemma list_ok_key: "list_ok d None l \<Longrightarrow> key_ok k \<Longrightarrow> list_ok d (Some k) l"
  by simp

lemma tuple_settles:
  "length cur < n \<Longrightarrow> length cur \<le> m \<Longrightarrow> tuple_ok d t \<Longrightarrow>
     settles (\<lambda>(ret, t, r). tuple_ok d t \<and> length r \<le> m) (aux_parse_tuple n d t cur)"
proof (induction n arbitrary: t cur)
  case (Suc n)
  show ?case
    unfolding aux_parse_tuple.simps using Suc.prems
    by (intro settles_steps)
      (auto intro!: Suc.IH tuple_ok_add dest!: rd_hd eats_len parse_str_ok simp del: item_ok.simps(1-3))
qed simp

text \<open>The cursor never moves back, so that a nested container leaves fuel for the rest.\<close>

lemma list_dict_settles:
  "length cur < n \<Longrightarrow> length cur \<le> m \<Longrightarrow> list_ok d k l \<Longrightarrow>
     settles (\<lambda>(ret, k, l, r). list_ok d k l \<and> length r \<le> m) (aux_parse_list n d k l cur)"
  "length cur < n \<Longrightarrow> length cur \<le> m \<Longrightarrow> dict_ok d v \<Longrightarrow> opt_key_ok key \<Longrightarrow>
     settles (\<lambda>(ret, v, r). dict_ok d v \<and> length r \<le> m) (aux_parse_dict n d key v cur)"
proof (induction n arbitrary: d k l v key cur m)
  case (Suc n)
  have sub_dict: "settles Q (then_run (aux_parse_dict n d None vdict_init rest) f)"
    if "length rest < n" "\<And>ret sub r. dict_ok d sub \<Longrightarrow> length r \<le> length rest \<Longrightarrow> settles Q (f (ret, sub, r))"
    for rest d f and Q :: "'q \<Rightarrow> bool"
    by (rule settles_then [OF Suc.IH(2) [OF that(1) le_refl]]) (use that(2) in \<open>auto simp: opt_key_ok_def\<close>)
  have sub_list: "settles Q (then_run (aux_parse_list n d None [] rest) f)"
    if "length rest < n" "\<And>ret k l r. list_ok d k l \<Longrightarrow> length r \<le> length rest \<Longrightarrow> settles Q (f (ret, k, l, r))"
    for rest d f and Q :: "'q \<Rightarrow> bool"
    by (rule settles_then [OF Suc.IH(1) [OF that(1) le_refl]]) (use that(2) in auto)
  have sub_tuple: "settles Q (then_run (aux_parse_tuple n d [] rest) f)"
    if "length rest < n" "\<And>ret t r. tuple_ok d t \<Longrightarrow> length r \<le> length rest \<Longrightarrow> settles Q (f (ret, t, r))"
    for rest d f and Q :: "'q \<Rightarrow> bool"
    by (rule settles_then [OF tuple_settles [OF that(1) le_refl]]) (use that(2) in auto)
  {
    case 1
    then show ?case
      unfolding aux_parse_list.simps
      by (intro sub_dict sub_list sub_tuple settles_steps)
        (auto dest!: rd_hd eats_len eat_delimiter_len create_key_ok simp del: item_ok.simps intro!: Suc.IH list_ok_add list_ok_key)
  next
    case 2
    then show ?case
      unfolding aux_parse_dict.simps
      by (intro sub_dict sub_list sub_tuple settles_steps)
        (auto dest!: rd_hd eats_len eat_delimiter_len create_key_ok' parse_str_ok simp del: item_ok.simps(1-3) intro!: Suc.IH dict_ok_add
          simp: opt_key_ok_def)
  }
qed simp_all

text \<open>What the configuration is after any file: the parser has returned or crashed, and the tree is well formed.\<close>

lemma vcfg_parse_settles: "dict_ok 0 d \<Longrightarrow> settles (\<lambda>(ret, d). dict_ok 0 d) (vcfg_parse f d)"
proof (cases f)
  case (Some bs)
  assume "dict_ok 0 d"
  then have "settles (\<lambda>(ret, v, r). dict_ok 0 v \<and> length r \<le> length (bs @ [0])) (aux_parse_dict (length bs + 2) 0 None d (bs @ [0]))"
    by (intro list_dict_settles(2)) (auto simp: opt_key_ok_def simp del: item_ok.simps)
  then show ?thesis
    unfolding Some vcfg_parse_def option.case by (rule settles_then) (auto simp del: item_ok.simps)
qed (auto simp: vcfg_parse_def)
subsection \<open>More fuel changes nothing\<close>

definition le_run :: "'a outcome option \<Rightarrow> 'a outcome option \<Rightarrow> bool" where
  "le_run a b \<longleftrightarrow> a = None \<or> a = b"

lemma le_run_refl: "le_run a a"
  by (simp add: le_run_def)

lemma le_run_then: "le_run a b \<Longrightarrow> (\<And>x. le_run (f x) (g x)) \<Longrightarrow> le_run (then_run a f) (then_run b g)"
  by (auto simp: le_run_def then_run_def split: option.splits outcome.splits)

lemma le_run_if: "(b \<Longrightarrow> le_run x x') \<Longrightarrow> (\<not> b \<Longrightarrow> le_run y y') \<Longrightarrow> le_run (if b then x else y) (if b then x' else y')"
  by simp

lemma le_run_case_option:
  "(x = None \<Longrightarrow> le_run a a') \<Longrightarrow> (\<And>y. x = Some y \<Longrightarrow> le_run (b y) (b' y)) \<Longrightarrow>
     le_run (case x of None \<Rightarrow> a | Some y \<Rightarrow> b y) (case x of None \<Rightarrow> a' | Some y \<Rightarrow> b' y)"
  by (cases x) auto

lemma le_run_case_prod: "(\<And>a b. le_run (f a b) (g a b)) \<Longrightarrow> le_run (case x of (a, b) \<Rightarrow> f a b) (case x of (a, b) \<Rightarrow> g a b)"
  by (cases x) auto

lemmas le_run_intros = le_run_then le_run_if le_run_case_option le_run_case_prod

lemma tuple_more: "le_run (aux_parse_tuple n d t cur) (aux_parse_tuple (Suc n) d t cur)"
proof (induction n arbitrary: t cur)
  case (Suc n)
  show ?case
    by (subst (1 2) aux_parse_tuple.simps) (intro le_run_intros Suc.IH le_run_refl)
qed (simp add: le_run_def)

lemma list_dict_more:
  "le_run (aux_parse_list n d k l cur) (aux_parse_list (Suc n) d k l cur)"
  "le_run (aux_parse_dict n d key v cur) (aux_parse_dict (Suc n) d key v cur)"
proof (induction n arbitrary: d k l v key cur)
  case (Suc n)
  {
    case 1
    show ?case
      by (subst (1 2) aux_parse_list.simps) (intro le_run_intros Suc.IH tuple_more le_run_refl)
  next
    case 2
    show ?case
      by (subst (1 2) aux_parse_dict.simps) (intro le_run_intros Suc.IH tuple_more le_run_refl)
  }
qed (simp_all add: le_run_def)

text \<open>A run of the parser, whatever the fuel.\<close>

definition ends :: "(nat \<Rightarrow> 'a outcome option) \<Rightarrow> 'a outcome \<Rightarrow> bool" where
  "ends f r \<longleftrightarrow> (\<exists>n. \<forall>m \<ge> n. f m = Some r)"

lemma ends_more: "(\<And>n. le_run (f n) (f (Suc n))) \<Longrightarrow> f n = Some r \<Longrightarrow> ends f r"
proof -
  assume *: "\<And>n. le_run (f n) (f (Suc n))" and n: "f n = Some r"
  have "f m = Some r" if "n \<le> m" for m
    using that
  proof (induction rule: dec_induct)
    case (step k)
    then show ?case using * [of k] by (auto simp: le_run_def)
  qed (rule n)
  then show ?thesis unfolding ends_def by blast
qed

lemma ends_Suc: "(\<And>n. f (Suc n) = g n) \<Longrightarrow> ends g r \<Longrightarrow> ends f r"
  unfolding ends_def by (metis Suc_le_D Suc_le_mono)

lemma ends_const [simp]: "ends (\<lambda>n. Some r) r"
  by (simp add: ends_def)

lemma ends_then: "ends f (Done x) \<Longrightarrow> ends (\<lambda>n. g n x) r \<Longrightarrow> ends (\<lambda>n. then_run (f n) (g n)) r"
  unfolding ends_def
  by (elim exE, rule_tac x = "max n na" in exI) auto

lemma ends_unique: "ends f r \<Longrightarrow> (\<And>n. le_run (f n) (f (Suc n))) \<Longrightarrow> f n = Some r' \<Longrightarrow> r' = r"
  using ends_more [of f n r'] unfolding ends_def by (metis le_cases option.inject)

end
