(* ===== verification/ConfigRender.thy ===== *)
theory ConfigRender
  imports ConfigText
begin

section \<open>A text for every configuration\<close>

text \<open>
  \<open>render_cfg\<close> writes a tree as a configuration file: one entry a line, blanks for the underscores of the keys. The
  parser gives back the tree it was written from, for every well-formed tree; by the results of the theory before,
  that is every tree the parser can build.
\<close>

definition lines :: "bytes list \<Rightarrow> bytes" where
  "lines ts = (case ts of [] \<Rightarrow> [] | t # ts \<Rightarrow> t @ concat (map ((#) 10) ts))"

definition key_text :: "bytes \<Rightarrow> bytes" where
  "key_text k = map (\<lambda>c. if c = 95 then 32 else c) k"

lemma size_entries: "e \<in> set es \<Longrightarrow> size (snd e) < Suc (Suc (size_list (size_prod (\<lambda>_. 0) size) es))"
  for e and es :: "(bytes \<times> vcfg_item) list"
  by (induction es) (auto simp: prod.size_gen(1) split: prod.splits)

function render :: "vcfg_item \<Rightarrow> bytes" where
  "render (CFG_DICT d (VDict u es)) = 123 # lines (map (\<lambda>e. key_text (fst e) @ 58 # render (snd e)) es) @ [125]"
| "render (CFG_LIST d k l) = 91 # (case k of None \<Rightarrow> [] | Some k \<Rightarrow> key_text k @ [58]) @ lines (map render l) @ [93]"
| "render (CFG_TUPLE d t) = 40 # lines (map render t) @ [41]"
| "render (CFG_STR d s) = s"
  by pat_completeness auto
termination
  by (relation "measure size") (auto dest: size_entries intro: size_list_estimation' simp: less_Suc_eq_le)

abbreviation entry_text :: "bytes \<times> vcfg_item \<Rightarrow> bytes" where
  "entry_text e \<equiv> key_text (fst e) @ 58 # render (snd e)"

definition render_cfg :: "vcfg_item vdict \<Rightarrow> bytes" where
  "render_cfg d = lines (map entry_text (vd_items d))"

subsection \<open>Reading keys and values back\<close>

lemma key_loop_text:
  assumes "key_tail k" "length acc + length k + (if blank then 1 else 0) < 30" "in_seps [59, 58, 10, 123, 125, 91, 93, 40, 41] c"
    "blank \<Longrightarrow> acc \<noteq> [] \<and> k \<noteq> [] \<and> is_word (hd k)" "acc = [] \<Longrightarrow> k = [] \<or> hd k \<noteq> 95"
  shows "key_loop acc blank (key_text k @ c # rest) = Some (Some (acc @ (if blank then [95] else []) @ k), c # rest)"
  using assms
proof (induction k arbitrary: acc blank)
  case Nil
  then show ?case by (auto simp: key_text_def key_loop_sep simp del: key_loop.simps)
next
  case (Cons x k)
  show ?case
  proof (cases "x = 95")
    case True
    then have "\<not> blank" "acc \<noteq> []" using Cons.prems(4,5) by auto
    have "is_blank (32 :: byte)" by (simp add: is_blank_def)
    then show ?thesis
      using Cons.prems True \<open>\<not> blank\<close> \<open>acc \<noteq> []\<close> Cons.IH [of acc True]
      by (simp add: key_text_def key_loop_blank del: key_loop.simps)
  next
    case False
    then have w: "is_word x" using Cons.prems(1) by simp
    let ?acc = "if acc \<noteq> [] \<and> blank then acc @ [95, x] else acc @ [x]"
    have "key_loop ?acc False (key_text k @ c # rest) = Some (Some (?acc @ k), c # rest)"
      using Cons.IH [of ?acc False] Cons.prems False by auto
    moreover have "length ?acc < 30" using Cons.prems(2) by (auto split: if_splits)
    ultimately show ?thesis
      using Cons.prems(2,4) False w
      by (auto simp: key_text_def key_loop_word Let_def simp del: key_loop.simps)
  qed
qed

lemma create_key_text: "key_ok k \<Longrightarrow> aux_create_key (key_text k @ 58 # cur) = Some (Some k, 58 # cur)"
  using key_loop_text [of k "[]" False 58 cur]
  by (auto simp: key_ok_def aux_create_key_def in_seps_def dest: is_word_nz)

abbreviation val_sep :: "byte \<Rightarrow> bool" where
  "val_sep c \<equiv> in_seps [59, 58, 10, 125, 93, 41] c"

lemma val_size_text: "\<forall>c \<in> set s. is_value c \<Longrightarrow> val_sep c \<Longrightarrow> val_size n (s @ c # cur) = Some (Some (n + length s))"
proof (induction s arbitrary: n)
  case (Cons x s)
  then show ?case using not_val_sep [of x] by auto
qed simp

lemma val_loop_text:
  "\<forall>c \<in> set s. is_value c \<Longrightarrow> val_sep c \<Longrightarrow> length acc + length s < n \<Longrightarrow>
     val_loop n acc False (s @ c # cur) = Some (Some (acc @ s), c # cur)"
proof (induction s arbitrary: acc)
  case Nil
  then show ?case by (simp add: val_loop_sep del: val_loop.simps)
next
  case (Cons x s)
  then show ?case using Cons.IH [of "acc @ [x]"] by (simp add: val_loop_put del: val_loop.simps)
qed

lemma parse_str_text: "str_ok s \<Longrightarrow> val_sep c \<Longrightarrow> aux_parse_str d (s @ c # cur) = Some (Some (CFG_STR d s), c # cur)"
  using val_size_text [of s c 0 cur] val_loop_text [of s c "[]" "length s + 1" cur]
  by (simp add: str_ok_def aux_parse_str_def aux_create_val_def)

subsection \<open>Steps of the parser\<close>

definition solid :: "bytes \<Rightarrow> bool" where
  "solid cur \<longleftrightarrow> cur \<noteq> [] \<and> hd cur \<notin> {0, 9, 10, 32}"

text \<open>What follows an item: the end of its container, or a line with another item.\<close>

definition follows :: "bytes \<Rightarrow> bytes \<Rightarrow> bool" where
  "follows tail cur \<longleftrightarrow> (tail = cur \<and> cur \<noteq> [] \<and> hd cur \<in> {125, 93, 41, 0}) \<or> (tail = 10 # cur \<and> solid cur)"

lemma eat_newline_solid: "solid cur \<Longrightarrow> aux_eat_newline cur = Some cur"
  by (cases cur) (auto simp: solid_def aux_eat_newline_def in_seps_def)

lemma follows_endings: "follows tail cur \<Longrightarrow> aux_eat_endings tail = Some cur"
  by (cases cur) (auto simp: follows_def solid_def aux_eat_endings_def in_seps_def)

lemma follows_sep: "follows tail cur \<Longrightarrow> \<exists>c r. tail = c # r \<and> val_sep c"
  by (cases cur) (auto simp: follows_def in_seps_def)

abbreviation "dict_run d key v cur r \<equiv> ends (\<lambda>n. aux_parse_dict n d key v cur) (Done r)"
abbreviation "list_run d k l cur r \<equiv> ends (\<lambda>n. aux_parse_list n d k l cur) (Done r)"
abbreviation "tuple_run d t cur r \<equiv> ends (\<lambda>n. aux_parse_tuple n d t cur) (Done r)"

text \<open>The steps of the dictionary loop.\<close>

lemma is_word_misc [simp]:
  "\<not> is_word 0" "\<not> is_word 10" "\<not> is_word 32" "\<not> is_word 40" "\<not> is_word 41" "\<not> is_word 58" "\<not> is_word 59" "\<not> is_word 91"
  "\<not> is_word 93" "\<not> is_word 123" "\<not> is_word 125" "\<not> is_blank 10" "\<not> is_blank 0"
  by (auto simp: is_word_def is_blank_def)

lemma dict_newline:
  "solid cur \<Longrightarrow> ends (\<lambda>n. aux_parse_dict n d key v cur) r \<Longrightarrow> ends (\<lambda>n. aux_parse_dict n d key v (10 # cur)) r"
  by (rule ends_Suc) (auto simp: rd_def in_seps_def eat_newline_solid)

lemma dict_follows: "follows tail cur \<Longrightarrow> dict_run d key v cur r \<Longrightarrow> dict_run d key v tail r"
  by (auto simp: follows_def intro: dict_newline)

lemma dict_close: "aux_eat_endings cur = Some cur' \<Longrightarrow> dict_run d None v (125 # cur) (0, v, cur')"
  by (rule ends_Suc [OF _ ends_const]) (simp add: rd_def in_seps_def)

lemma dict_end: "dict_run d None v (0 # cur) (0, v, 0 # cur)"
  by (rule ends_Suc [OF _ ends_const]) (simp add: rd_def in_seps_def)

lemma dict_key:
  assumes "key_ok k" "ends (\<lambda>n. aux_parse_dict n d (Some k) v (58 # cur)) r"
  shows "ends (\<lambda>n. aux_parse_dict n d None v (key_text k @ 58 # cur)) r"
proof (rule ends_Suc [OF _ assms(2)])
  fix n
  obtain c t where c: "k = c # t" "is_word c" using assms(1) by (cases k) (auto simp: key_ok_def)
  then have "rd (key_text k @ 58 # cur) 0 = Some c" by (auto simp: key_text_def rd_def dest: is_word_nz)
  then show "aux_parse_dict (Suc n) d None v (key_text k @ 58 # cur) = aux_parse_dict n d (Some k) v (58 # cur)"
    using is_word_nz [OF c(2)] c(2) by (simp add: create_key_text [OF assms(1)] in_seps_def)
qed

lemma delimiter_stop: "cur \<noteq> [] \<Longrightarrow> is_word (hd cur) \<or> hd cur \<in> {46, 40, 123, 91, 47} \<Longrightarrow> aux_eat_delimiter cur = Some (0, cur)"
  by (cases cur) (auto simp: in_seps_def)

lemma dict_colon:
  assumes "cur \<noteq> []" "is_word (hd cur) \<or> hd cur \<in> {46, 40, 123, 91, 47}"
    "ends (\<lambda>n. aux_parse_dict n d (Some k) v cur) r"
  shows "ends (\<lambda>n. aux_parse_dict n d (Some k) v (58 # cur)) r"
  by (rule ends_Suc [OF _ assms(3)]) (simp add: rd_def in_seps_def delimiter_stop [OF assms(1,2)])

lemma dict_str:
  assumes "str_ok s" "follows tail cur" "dict_run d None (snd (vdict_add True v k (CFG_STR (d + 1) s))) cur r"
  shows "dict_run d (Some k) v (s @ tail) r"
proof (rule ends_Suc [OF _ dict_follows [OF assms(2,3)]])
  fix n
  obtain c t where s: "s = c # t" "is_word c \<or> c = 46 \<or> c = 47"
    using assms(1) by (cases s) (auto simp: str_ok_def is_value_def)
  obtain e u where tail: "tail = e # u" "val_sep e" using follows_sep [OF assms(2)] by blast
  show "aux_parse_dict (Suc n) d (Some k) v (s @ tail) = aux_parse_dict n d None (snd (vdict_add True v k (CFG_STR (d + 1) s))) tail"
    using s is_word_nz [of c] parse_str_text [OF assms(1) tail(2), of "d + 1" u]
    by (auto simp: rd_def in_seps_def tail(1) simp del: aux_parse_dict.simps(1) split: if_splits)
qed

text \<open>A container inside: its own run, then the rest of the loop.\<close>

lemma ends_nest:
  assumes "\<And>n. f (Suc n) = then_run (g n) (h n)" "ends g (Done x)" "ends (\<lambda>n. h n x) r"
  shows "ends f r"
  using ends_Suc [of f, OF assms(1)] ends_then [of g x h r] assms(2,3) by blast

lemma dict_dict:
  assumes "dict_run (d + 1) None vdict_init cur (0, sub, cur')" "dict_run d None (snd (vdict_add True v k (CFG_DICT (d + 1) sub))) cur' r"
  shows "dict_run d (Some k) v (123 # cur) r"
  by (rule ends_nest [OF _ assms(1)], simp add: rd_def in_seps_def) (unfold prod.case, simp add: assms(2))

lemma dict_list:
  assumes "list_run (d + 1) None [] cur (0, lk, l, cur')" "dict_run d None (snd (vdict_add True v k (CFG_LIST (d + 1) lk l))) cur' r"
  shows "dict_run d (Some k) v (91 # cur) r"
  by (rule ends_nest [OF _ assms(1)], simp add: rd_def in_seps_def) (unfold prod.case, simp add: assms(2))

lemma dict_tuple:
  assumes "tuple_run (d + 1) [] cur (0, t, cur')" "dict_run d None (snd (vdict_add True v k (CFG_TUPLE (d + 1) t))) cur' r"
  shows "dict_run d (Some k) v (40 # cur) r"
  by (rule ends_nest [OF _ assms(1)], simp add: rd_def in_seps_def) (unfold prod.case, simp add: assms(2))
text \<open>The steps of the list and tuple loops.\<close>

lemma list_newline: "solid cur \<Longrightarrow> list_run d k l cur r \<Longrightarrow> list_run d k l (10 # cur) r"
  by (rule ends_Suc) (auto simp: rd_def in_seps_def eat_newline_solid)

lemma list_follows: "follows tail cur \<Longrightarrow> list_run d k l cur r \<Longrightarrow> list_run d k l tail r"
  by (auto simp: follows_def intro: list_newline)

lemma list_close: "aux_eat_endings cur = Some cur' \<Longrightarrow> list_run d k l (93 # cur) (0, k, l, cur')"
  by (rule ends_Suc [OF _ ends_const]) (simp add: rd_def in_seps_def)

lemma delimiter_stay: "cur \<noteq> [] \<Longrightarrow> \<not> is_blank (hd cur) \<Longrightarrow> \<exists>ret. aux_eat_delimiter cur = Some (ret, cur)"
  by (cases cur) auto

lemma list_colon:
  assumes "cur \<noteq> []" "\<not> is_blank (hd cur)" "list_run d k l cur r"
  shows "list_run d k l (58 # cur) r"
proof (rule ends_Suc [OF _ assms(3)])
  fix n
  obtain ret where "aux_eat_delimiter cur = Some (ret, cur)" using delimiter_stay [OF assms(1,2)] by blast
  then show "aux_parse_list (Suc n) d k l (58 # cur) = aux_parse_list n d k l cur" by (simp add: rd_def in_seps_def)
qed

lemma list_key:
  assumes "key_ok k" "list_run d (Some k) l (58 # cur) r"
  shows "list_run d None l (key_text k @ 58 # cur) r"
proof (rule ends_Suc [OF _ assms(2)])
  fix n
  obtain c t where c: "k = c # t" "is_word c" using assms(1) by (cases k) (auto simp: key_ok_def)
  then have "rd (key_text k @ 58 # cur) 0 = Some c" by (auto simp: key_text_def rd_def dest: is_word_nz)
  then show "aux_parse_list (Suc n) d None l (key_text k @ 58 # cur) = aux_parse_list n d (Some k) l (58 # cur)"
    using is_word_nz [OF c(2)] c(2) by (simp add: create_key_text [OF assms(1)] in_seps_def)
qed

lemma list_dict:
  assumes "dict_run (d + 1) None vdict_init cur (0, sub, cur')" "list_run d k (l @ [CFG_DICT (d + 1) sub]) cur' r"
  shows "list_run d k l (123 # cur) r"
  by (rule ends_nest [OF _ assms(1)], simp add: rd_def in_seps_def) (unfold prod.case, simp add: assms(2))

lemma list_list:
  assumes "list_run (d + 1) None [] cur (0, lk, sub, cur')" "list_run d k (l @ [CFG_LIST (d + 1) lk sub]) cur' r"
  shows "list_run d k l (91 # cur) r"
  by (rule ends_nest [OF _ assms(1)], simp add: rd_def in_seps_def) (unfold prod.case, simp add: assms(2))

lemma list_tuple:
  assumes "tuple_run (d + 1) [] cur (0, t, cur')" "list_run d k (l @ [CFG_TUPLE (d + 1) t]) cur' r"
  shows "list_run d k l (40 # cur) r"
  by (rule ends_nest [OF _ assms(1)], simp add: rd_def in_seps_def) (unfold prod.case, simp add: assms(2))

lemma tuple_newline: "solid cur \<Longrightarrow> tuple_run d t cur r \<Longrightarrow> tuple_run d t (10 # cur) r"
  by (rule ends_Suc) (auto simp: rd_def in_seps_def eat_newline_solid)

lemma tuple_close: "aux_eat_endings cur = Some cur' \<Longrightarrow> tuple_run d t (41 # cur) (0, t, cur')"
  by (rule ends_Suc [OF _ ends_const]) (simp add: rd_def in_seps_def)

lemma tuple_str:
  assumes "str_ok s" "is_word (hd s)" "follows tail cur" "tuple_run d (t @ [CFG_STR (d + 1) s]) cur r"
  shows "tuple_run d t (s @ tail) r"
proof (rule ends_Suc)
  show "tuple_run d (t @ [CFG_STR (d + 1) s]) tail r"
    using assms(3,4) by (auto simp: follows_def intro: tuple_newline)
  fix n
  obtain c u where s: "s = c # u" "is_word c" using assms(1,2) by (cases s) (auto simp: str_ok_def)
  obtain e w where tail: "tail = e # w" "val_sep e" using follows_sep [OF assms(3)] by blast
  show "aux_parse_tuple (Suc n) d t (s @ tail) = aux_parse_tuple n d (t @ [CFG_STR (d + 1) s]) tail"
    using s is_word_nz [of c] parse_str_text [OF assms(1) tail(2), of "d + 1" w]
    by (auto simp: rd_def in_seps_def tail(1) simp del: aux_parse_tuple.simps(1))
qed

subsection \<open>Sequences of items\<close>

lemma lines_follows:
  assumes "c \<in> {125, 93, 41, 0}" "\<forall>t \<in> set ts. solid t"
  shows "follows (concat (map ((#) 10) ts) @ c # u) (lines ts @ c # u)"
  using assms by (cases ts) (auto simp: follows_def lines_def solid_def)

lemma tuple_items:
  "\<forall>s \<in> set ss. str_ok s \<and> is_word (hd s) \<Longrightarrow> aux_eat_endings cur = Some cur' \<Longrightarrow>
     tuple_run d t (lines ss @ 41 # cur) (0, t @ map (CFG_STR (d + 1)) ss, cur')"
proof (induction ss arbitrary: t)
  case Nil
  then show ?case by (simp add: lines_def tuple_close)
next
  case (Cons s ss)
  have "\<forall>s \<in> set ss. solid s" using Cons.prems(1) by (auto simp: solid_def str_ok_def dest!: is_word_nz)
  then have "follows (concat (map ((#) 10) ss) @ 41 # cur) (lines ss @ 41 # cur)" by (intro lines_follows) auto
  then have "tuple_run d t (s @ concat (map ((#) 10) ss) @ 41 # cur) (0, (t @ [CFG_STR (d + 1) s]) @ map (CFG_STR (d + 1)) ss, cur')"
    using Cons.prems by (intro tuple_str [OF _ _ _ Cons.IH]) auto
  then show ?case by (simp add: lines_def)
qed

text \<open>The parser reads an item in either kind of container.\<close>

definition reads :: "vcfg_item \<Rightarrow> bool" where
  "reads it \<longleftrightarrow>
     (\<forall>d tail cur v k r. item_ok (d + 1) it \<longrightarrow> follows tail cur \<longrightarrow>
        dict_run d None (snd (vdict_add True v k it)) cur r \<longrightarrow> dict_run d (Some k) v (render it @ tail) r) \<and>
     (\<forall>d tail cur k l r. item_ok (d + 1) it \<longrightarrow> \<not> is_str it \<longrightarrow> follows tail cur \<longrightarrow>
        list_run d k (l @ [it]) cur r \<longrightarrow> list_run d k l (render it @ tail) r)"

lemma render_hd:
  "item_ok d it \<Longrightarrow> render it \<noteq> [] \<and> (is_word (hd (render it)) \<or> hd (render it) \<in> {46, 40, 123, 91, 47}) \<and>
     (\<not> is_str it \<longrightarrow> hd (render it) \<in> {40, 123, 91})"
  by (cases it rule: render.cases) (auto simp: str_ok_def is_value_def dest: hd_in_set)

lemma key_text_solid: "key_ok k \<Longrightarrow> solid (key_text k @ cur)"
  by (cases k) (auto simp: key_ok_def key_text_def solid_def dest: is_word_nz)

lemma dict_entries:
  assumes "\<forall>e \<in> set es. key_ok (fst e) \<and> item_ok (d + 1) (snd e) \<and> reads (snd e)" "c \<in> {125, 0}"
    "dict_run d None (VDict (u + length es) (vs @ es)) (c # cur) r"
  shows "dict_run d None (VDict u vs) (lines (map entry_text es) @ c # cur) r"
  using assms(1,3)
proof (induction es arbitrary: u vs)
  case Nil
  then show ?case by (simp add: lines_def)
next
  case (Cons e es)
  obtain k it where e: "e = (k, it)" by (cases e)
  let ?tail = "concat (map ((#) 10) (map entry_text es)) @ c # cur"
  have k: "key_ok k" and it: "item_ok (d + 1) it" "reads it" using Cons.prems(1) by (auto simp: e)
  have "\<forall>t \<in> set (map entry_text es). solid t" using Cons.prems(1) by (auto intro: key_text_solid)
  then have f: "follows ?tail (lines (map entry_text es) @ c # cur)" using assms(2) by (intro lines_follows) auto
  have "dict_run d None (snd (vdict_add True (VDict u vs) k it)) (lines (map entry_text es) @ c # cur) r"
    unfolding vdict_add_def if_True prod.sel vdict.sel using Cons.prems by (intro Cons.IH) (auto simp: e)
  then have "dict_run d (Some k) (VDict u vs) (render it @ ?tail) r" using it f unfolding reads_def by blast
  then have "dict_run d None (VDict u vs) (key_text k @ 58 # render it @ ?tail) r"
    using render_hd [OF it(1)] by (intro dict_key [OF k] dict_colon) (auto simp: hd_append)
  then show ?case by (simp add: e lines_def)
qed

lemma list_items:
  assumes "\<forall>it \<in> set l. item_ok (d + 1) it \<and> \<not> is_str it \<and> reads it" "list_run d k (l0 @ l) (93 # cur) r"
  shows "list_run d k l0 (lines (map render l) @ 93 # cur) r"
  using assms
proof (induction l arbitrary: l0)
  case Nil
  then show ?case by (simp add: lines_def)
next
  case (Cons it l)
  let ?tail = "concat (map ((#) 10) (map render l)) @ 93 # cur"
  have "\<forall>t \<in> set (map render l). solid t" using Cons.prems(1) by (auto simp: solid_def dest!: render_hd)
  then have f: "follows ?tail (lines (map render l) @ 93 # cur)" by (intro lines_follows) auto
  have "list_run d k (l0 @ [it]) (lines (map render l) @ 93 # cur) r" using Cons.prems by (intro Cons.IH) auto
  moreover have "item_ok (d + 1) it" "\<not> is_str it" "reads it" using Cons.prems(1) by auto
  ultimately have "list_run d k l0 (render it @ ?tail) r" using f unfolding reads_def by blast
  then show ?case by (simp add: lines_def)
qed

lemma item_ok_depth: "item_ok n it \<Longrightarrow> item_depth it = n"
  by (cases it rule: render.cases) auto

lemma reads_dictI:
  assumes "\<And>d tail cur. item_ok (d + 1) (CFG_DICT e v) \<Longrightarrow> follows tail cur \<Longrightarrow> dict_run (d + 1) None vdict_init (ts @ tail) (0, v, cur)"
    "render (CFG_DICT e v) = 123 # ts"
  shows "reads (CFG_DICT e v)"
  unfolding reads_def assms(2) append_Cons
proof (intro conjI allI impI)
  fix d tail cur v' k and r :: "int \<times> vcfg_item vdict \<times> bytes"
  assume a: "item_ok (d + 1) (CFG_DICT e v)" "follows tail cur" "dict_run d None (snd (vdict_add True v' k (CFG_DICT e v))) cur r"
  then show "dict_run d (Some k) v' (123 # ts @ tail) r"
    using item_ok_depth [OF a(1)] by (intro dict_dict [OF assms(1)]) auto
next
  fix d tail cur k l and r :: "int \<times> bytes option \<times> vcfg_item list \<times> bytes"
  assume a: "item_ok (d + 1) (CFG_DICT e v)" "follows tail cur" "list_run d k (l @ [CFG_DICT e v]) cur r"
  then show "list_run d k l (123 # ts @ tail) r"
    using item_ok_depth [OF a(1)] by (intro list_dict [OF assms(1)]) auto
qed

lemma reads_listI:
  assumes "\<And>d tail cur. item_ok (d + 1) (CFG_LIST e lk sub) \<Longrightarrow> follows tail cur \<Longrightarrow> list_run (d + 1) None [] (ts @ tail) (0, lk, sub, cur)"
    "render (CFG_LIST e lk sub) = 91 # ts"
  shows "reads (CFG_LIST e lk sub)"
  unfolding reads_def assms(2) append_Cons
proof (intro conjI allI impI)
  fix d tail cur v k and r :: "int \<times> vcfg_item vdict \<times> bytes"
  assume a: "item_ok (d + 1) (CFG_LIST e lk sub)" "follows tail cur" "dict_run d None (snd (vdict_add True v k (CFG_LIST e lk sub))) cur r"
  then show "dict_run d (Some k) v (91 # ts @ tail) r"
    using item_ok_depth [OF a(1)] by (intro dict_list [OF assms(1)]) auto
next
  fix d tail cur k l and r :: "int \<times> bytes option \<times> vcfg_item list \<times> bytes"
  assume a: "item_ok (d + 1) (CFG_LIST e lk sub)" "follows tail cur" "list_run d k (l @ [CFG_LIST e lk sub]) cur r"
  then show "list_run d k l (91 # ts @ tail) r"
    using item_ok_depth [OF a(1)] by (intro list_list [OF assms(1)]) auto
qed

lemma reads_tupleI:
  assumes "\<And>d tail cur. item_ok (d + 1) (CFG_TUPLE e t) \<Longrightarrow> follows tail cur \<Longrightarrow> tuple_run (d + 1) [] (ts @ tail) (0, t, cur)"
    "render (CFG_TUPLE e t) = 40 # ts"
  shows "reads (CFG_TUPLE e t)"
  unfolding reads_def assms(2) append_Cons
proof (intro conjI allI impI)
  fix d tail cur v k and r :: "int \<times> vcfg_item vdict \<times> bytes"
  assume a: "item_ok (d + 1) (CFG_TUPLE e t)" "follows tail cur" "dict_run d None (snd (vdict_add True v k (CFG_TUPLE e t))) cur r"
  then show "dict_run d (Some k) v (40 # ts @ tail) r"
    using item_ok_depth [OF a(1)] by (intro dict_tuple [OF assms(1)]) auto
next
  fix d tail cur k l and r :: "int \<times> bytes option \<times> vcfg_item list \<times> bytes"
  assume a: "item_ok (d + 1) (CFG_TUPLE e t)" "follows tail cur" "list_run d k (l @ [CFG_TUPLE e t]) cur r"
  then show "list_run d k l (40 # ts @ tail) r"
    using item_ok_depth [OF a(1)] by (intro list_tuple [OF assms(1)]) auto
qed

text \<open>Every item is read, by induction on the tree.\<close>

lemma reads_item: "reads it"
proof (induction "size it" arbitrary: it rule: less_induct)
  case less
  show ?case
  proof (cases it rule: render.cases)
    case (1 d u es)
    have sub: "dict_run (d' + 1) None vdict_init (lines (map entry_text es) @ 125 # tail) (0, VDict u es, cur)"
      if "item_ok (d' + 1) it" "follows tail cur" for d' tail cur
    proof -
      have "\<forall>e \<in> set es. key_ok (fst e) \<and> item_ok (d' + 1 + 1) (snd e) \<and> reads (snd e)"
        using that(1) less size_entries [of _ es] by (auto simp: 1)
      from dict_entries [OF this, of 125 0 "[]" tail "(0, VDict u es, cur)"] show ?thesis
        using that dict_close [OF follows_endings [OF that(2)], of "d' + 1" "VDict u es"] by (simp add: 1 vdict_init_def)
    qed
    show ?thesis unfolding 1
      by (rule reads_dictI [where ts = "lines (map entry_text es) @ [125]"]) (use sub in \<open>auto simp: 1 simp del: item_ok.simps\<close>)
  next
    case (2 d k l)
    have sub: "list_run (d' + 1) None [] ((case k of None \<Rightarrow> [] | Some k \<Rightarrow> key_text k @ [58]) @ lines (map render l) @ 93 # tail) (0, k, l, cur)"
      if "item_ok (d' + 1) it" "follows tail cur" for d' tail cur
    proof -
      have l: "\<forall>it \<in> set l. item_ok (d' + 1 + 1) it \<and> \<not> is_str it \<and> reads it"
        using that(1) less by (auto simp: 2 intro: size_list_estimation' le_imp_less_Suc)
      have body: "list_run (d' + 1) k [] (lines (map render l) @ 93 # tail) (0, k, l, cur)"
        by (rule list_items [OF l]) (simp add: list_close follows_endings [OF that(2)])
      show ?thesis
      proof (cases k)
        case (Some key)
        have "lines (map render l) @ 93 # tail \<noteq> []" "\<not> is_blank (hd (lines (map render l) @ 93 # tail))"
          using l by (cases l; auto simp: lines_def is_blank_def hd_append dest!: render_hd)+
        then show ?thesis using list_key [OF _ list_colon] body that(1) by (auto simp: Some 2)
      qed (use body in simp)
    qed
    show ?thesis unfolding 2
      by (rule reads_listI [where ts = "(case k of None \<Rightarrow> [] | Some k \<Rightarrow> key_text k @ [58]) @ lines (map render l) @ [93]"])
        (use sub in \<open>auto simp: 2 simp del: item_ok.simps\<close>)
  next
    case (3 d t)
    have sub: "tuple_run (d' + 1) [] (lines (map render t) @ 41 # tail) (0, t, cur)"
      if "item_ok (d' + 1) it" "follows tail cur" for d' tail cur
    proof -
      have t: "\<forall>i \<in> set t. \<exists>s. i = CFG_STR (d' + 1 + 1) s \<and> str_ok s \<and> is_word (hd s)" using that(1) by (auto simp: 3)
      have "t = map (CFG_STR (d' + 1 + 1)) (map render t)" using t by (induction t) auto
      moreover have "\<forall>s \<in> set (map render t). str_ok s \<and> is_word (hd s)" using t by auto
      ultimately show ?thesis using tuple_items [OF _ follows_endings [OF that(2)], of "map render t" "d' + 1" "[]"] by simp
    qed
    show ?thesis unfolding 3
      by (rule reads_tupleI [where ts = "lines (map render t) @ [41]"]) (use sub in \<open>auto simp: 3 simp del: item_ok.simps\<close>)
  next
    case (4 d s)
    then show ?thesis by (auto simp: reads_def intro: dict_str)
  qed
qed

lemma render_parses:
  assumes "dict_ok 0 d"
  shows "dict_run 0 None vdict_init (render_cfg d @ [0]) (0, d, [0])"
proof -
  obtain u es where d: "d = VDict u es" by (cases d)
  have "\<forall>e \<in> set es. key_ok (fst e) \<and> item_ok (0 + 1) (snd e) \<and> reads (snd e)" using assms reads_item by (auto simp: d)
  from dict_entries [OF this, of 0 0 "[]" "[]" "(0, d, [0])"] show ?thesis
    using assms dict_end [of 0 d "[]"] by (simp add: d render_cfg_def vdict_init_def)
qed

theorem parse_render:
  assumes "dict_ok 0 d"
  shows "vcfg_parse (Some (render_cfg d)) vdict_init = Some (Done (0, d))"
proof -
  let ?n = "length (render_cfg d) + 2" and ?cur = "render_cfg d @ [0]"
  have "settles (\<lambda>(ret, v, r). dict_ok 0 v \<and> length r \<le> length ?cur) (aux_parse_dict ?n 0 None vdict_init ?cur)"
    by (intro list_dict_settles(2)) (auto simp: opt_key_ok_def simp del: item_ok.simps)
  then obtain r where r: "aux_parse_dict ?n 0 None vdict_init ?cur = Some r" by (auto simp: settles_def)
  have "r = Done (0, d, [0])"
    by (rule ends_unique [OF render_parses [OF assms] list_dict_more(2) r])
  then show ?thesis using r by (simp add: vcfg_parse_def)
qed
subsection \<open>Texts that crash the parser\<close>

lemma vcfg_parse_ends:
  assumes "ends (\<lambda>n. aux_parse_dict n 0 None vdict_init (bs @ [0])) r"
  shows "vcfg_parse (Some bs) vdict_init = (case r of Crash \<Rightarrow> Some Crash | Done (ret, d, cur) \<Rightarrow> Some (Done (if ret < 0 then -1 else 0, d)))"
proof -
  have "settles (\<lambda>(ret, v, r). dict_ok 0 v \<and> length r \<le> length (bs @ [0])) (aux_parse_dict (length bs + 2) 0 None vdict_init (bs @ [0]))"
    by (intro list_dict_settles(2)) (auto simp: opt_key_ok_def simp del: item_ok.simps)
  then obtain r' where r': "aux_parse_dict (length bs + 2) 0 None vdict_init (bs @ [0]) = Some r'" by (auto simp: settles_def)
  with ends_unique [OF assms list_dict_more(2) r'] show ?thesis by (auto simp: vcfg_parse_def split: outcome.splits)
qed

text \<open>A value of two words: the underscore that joins them has no room.\<close>

lemma val_size_two:
  "\<forall>c \<in> set s. is_value c \<Longrightarrow> \<forall>c \<in> set t. is_value c \<Longrightarrow> val_sep c \<Longrightarrow>
     val_size n (s @ 32 # t @ c # cur) = Some (Some (n + length s + length t))"
proof (induction s arbitrary: n)
  case Nil
  have "\<not> is_value 32" "\<not> val_sep 32" "is_blank 32" by (auto simp: is_value_def in_seps_def is_blank_def)
  then show ?case using Nil val_size_text [of t c n cur] by simp
next
  case (Cons x s)
  then show ?case using not_val_sep [of x] by auto
qed

lemma val_loop_prefix:
  "\<forall>c \<in> set s. is_value c \<Longrightarrow> length acc + length s \<le> n \<Longrightarrow> val_loop n acc False (s @ cur) = val_loop n (acc @ s) False cur"
proof (induction s arbitrary: acc)
  case (Cons x s)
  then show ?case using Cons.IH [of "acc @ [x]"] by (simp add: val_loop_put del: val_loop.simps)
qed simp

lemma create_val_two:
  assumes "s \<noteq> []" "t \<noteq> []" "\<forall>c \<in> set s. is_value c" "\<forall>c \<in> set t. is_value c" "val_sep c"
  shows "aux_create_val (s @ 32 # t @ c # cur) = None"
proof -
  obtain x t' where t: "t = x # t'" using assms(2) by (cases t) auto
  let ?n = "length s + length t + 1"
  have "is_blank 32" by (simp add: is_blank_def)
  then have "val_loop ?n [] False (s @ 32 # t @ c # cur) = val_loop ?n s True (t @ c # cur)"
    using val_loop_prefix [of s "[]" ?n] assms(1,3) by (simp add: val_loop_blank del: val_loop.simps)
  also have "\<dots> = val_loop ?n (s @ [95, x] @ t') False (c # cur)"
    using assms(4) val_loop_prefix [of t' "s @ [95, x]" ?n "c # cur"] by (simp add: t val_loop_put del: val_loop.simps)
  also have "\<dots> = None" using assms(5) by (simp add: val_loop_sep t del: val_loop.simps)
  finally show ?thesis using val_size_two [OF assms(3-5), of 0 cur] by (simp add: aux_create_val_def del: val_loop.simps)
qed

theorem two_words_crash:
  assumes "key_ok k" "str_ok s" "t \<noteq> []" "\<forall>c \<in> set t. is_value c"
  shows "vcfg_parse (Some (key_text k @ 58 # s @ 32 # t)) vdict_init = Some Crash"
proof -
  have s: "s \<noteq> []" "\<forall>c \<in> set s. is_value c" using assms(2) by (auto simp: str_ok_def)
  obtain c u where c: "s = c # u" "is_word c \<or> c = 46 \<or> c = 47"
    using assms(2) by (cases s) (auto simp: str_ok_def is_value_def)
  have "ends (\<lambda>n. aux_parse_dict n 0 (Some k) vdict_init (s @ 32 # t @ [0])) Crash"
  proof (rule ends_Suc [OF _ ends_const])
    fix n
    have "aux_parse_str 1 (s @ 32 # t @ [0]) = None"
      using create_val_two [OF s(1) assms(3) s(2) assms(4), of 0 "[]"] by (simp add: aux_parse_str_def in_seps_def)
    then show "aux_parse_dict (Suc n) 0 (Some k) vdict_init (s @ 32 # t @ [0]) = Some Crash"
      using c is_word_nz [of c] by (auto simp: rd_def in_seps_def simp del: aux_parse_dict.simps(1))
  qed
  then have "ends (\<lambda>n. aux_parse_dict n 0 (Some k) vdict_init (58 # s @ 32 # t @ [0])) Crash"
    using c by (intro dict_colon) auto
  from vcfg_parse_ends [OF _ , of "key_text k @ 58 # s @ 32 # t", of Crash] dict_key [OF assms(1) this] show ?thesis by simp
qed

text \<open>A newline at the end of the file, after a value: the blanks are skipped past the NUL.\<close>

lemma newline_end: "aux_eat_newline [0] = None"
  by (simp add: aux_eat_newline_def in_seps_def)

theorem last_newline_crash:
  assumes "key_ok k" "str_ok s"
  shows "vcfg_parse (Some (key_text k @ 58 # s @ [10])) vdict_init = Some Crash"
proof -
  obtain c u where c: "s = c # u" "is_word c \<or> c = 46 \<or> c = 47"
    using assms(2) by (cases s) (auto simp: str_ok_def is_value_def)
  have nl: "ends (\<lambda>n. aux_parse_dict n 0 None v [10, 0]) Crash" for v
    by (rule ends_Suc [OF _ ends_const]) (simp add: rd_def in_seps_def newline_end)
  have "ends (\<lambda>n. aux_parse_dict n 0 (Some k) vdict_init (s @ [10, 0])) Crash"
  proof (rule ends_Suc [OF _ nl])
    fix n
    have "val_sep 10" by (simp add: in_seps_def)
    then show "aux_parse_dict (Suc n) 0 (Some k) vdict_init (s @ [10, 0]) =
        aux_parse_dict n 0 None (snd (vdict_add True vdict_init k (CFG_STR 1 s))) [10, 0]"
      using c is_word_nz [of c] parse_str_text [OF assms(2), of 10 1 "[0]"]
      by (auto simp: rd_def in_seps_def simp del: aux_parse_dict.simps(1))
  qed
  then have "ends (\<lambda>n. aux_parse_dict n 0 (Some k) vdict_init (58 # s @ [10, 0])) Crash"
    using c by (intro dict_colon) auto
  from vcfg_parse_ends [OF _ , of "key_text k @ 58 # s @ [10]", of Crash] dict_key [OF assms(1) this] show ?thesis by simp
qed

end
