(* ===== verification/Settings.thy ===== *)
theory Settings
  imports ConfigRender
begin

section \<open>The settings the daemon reads\<close>

text \<open>What the getters of \<open>vcfg.c\<close> give on the configurations the parser builds: look-ups by path, default values,
  numbers and timeouts, and the address and the boot nodes.\<close>

subsection \<open>Look-up\<close>

lemma get_item_ok: "vcfg_item_get item key = Some (Some it) \<Longrightarrow> item_ok n item \<Longrightarrow> \<exists>m. item_ok m it"
proof (cases item)
  case (CFG_DICT depth d)
  assume "vcfg_item_get item key = Some (Some it)" "item_ok n item"
  then show ?thesis using CFG_DICT by (cases d) (fastforce simp: vdict_get_def find_key_map_of dest: map_of_SomeD)
next
  case (CFG_LIST depth lkey l)
  assume g: "vcfg_item_get item key = Some (Some it)" and ok: "item_ok n item"
  have "it = CFG_LIST depth lkey l" using g CFG_LIST by (auto simp: run_simps split: if_splits)
  then show ?thesis using ok CFG_LIST by blast
qed auto

lemma get_cfg_item_ok: "aux_get_cfg_item item key = Some (Some it) \<Longrightarrow> item_ok n item \<Longrightarrow> \<exists>m. item_ok m it"
proof (induction item key arbitrary: n rule: aux_get_cfg_item.induct)
  case (1 item key)
  show ?case
  proof (cases "find_idx (\<lambda>c. c = 46) key")
    case None
    then have "vcfg_item_get item key = Some (Some it)"
      using 1(2) by (simp add: aux_get_cfg_item.simps [of item key] del: find_idx_None)
    then show ?thesis using get_item_ok 1(3) by blast
  next
    case (Some i)
    then obtain sub where sub: "vcfg_item_get item (take i key) = Some (Some sub)" "aux_get_cfg_item sub (drop (i + 1) key) = Some (Some it)"
      using 1(2) by (auto simp: aux_get_cfg_item.simps [of item key] run_simps split: option.splits)
    obtain m where "item_ok m sub" using get_item_ok [OF sub(1) 1(3)] by blast
    then show ?thesis using 1(1) [OF Some sub(1) refl sub(2)] by blast
  qed
qed

lemma get_str_val_iff:
  "vcfg_get_str_val d key = Some (Some s) \<longleftrightarrow> (\<exists>e. aux_get_cfg_item (CFG_DICT 0 d) key = Some (Some (CFG_STR e s)))"
  by (cases "aux_get_cfg_item (CFG_DICT 0 d) key") (auto simp: vcfg_get_str_val_def split: option.splits vcfg_item.splits)

lemma get_str_val_ok: "vcfg_get_str_val d key = Some (Some s) \<Longrightarrow> dict_ok 0 d \<Longrightarrow> str_ok s"
  by (auto simp: get_str_val_iff dest!: get_cfg_item_ok simp del: item_ok.simps(1-3))

text \<open>A path of two keys through a section of the file.\<close>

lemma find_dot: "46 \<notin> set a \<Longrightarrow> find_idx (\<lambda>c. c = 46) (a @ 46 # b) = Some (length a)"
  by (induction a) auto

lemma find_no_dot: "46 \<notin> set a \<Longrightarrow> find_idx (\<lambda>c. c = 46) a = None"
  by auto

lemma get_path:
  assumes "46 \<notin> set a" "46 \<notin> set b" "vdict_get d a = Some (CFG_DICT e sub)"
  shows "aux_get_cfg_item (CFG_DICT n d) (a @ 46 # b) = Some (vdict_get sub b)"
  using assms by (simp add: aux_get_cfg_item.simps [of _ "a @ 46 # b"] aux_get_cfg_item.simps [of _ b] find_dot find_no_dot del: find_idx_None)

lemma get_path_none:
  assumes "46 \<notin> set a" "vdict_get d a = None"
  shows "aux_get_cfg_item (CFG_DICT n d) (a @ 46 # b) = Some None"
  using assms by (simp add: aux_get_cfg_item.simps [of _ "a @ 46 # b"] find_dot)

text \<open>A setting looked up in what the file gives as a tuple.\<close>

lemma get_path_tuple:
  assumes "46 \<notin> set a" "vdict_get d a = Some (CFG_TUPLE e t)"
  shows "46 \<notin> set b \<Longrightarrow> aux_get_cfg_item (CFG_DICT n d) (a @ 46 # b) = None"
  using assms by (simp add: aux_get_cfg_item.simps [of _ "a @ 46 # b"] aux_get_cfg_item.simps [of _ b] find_dot find_no_dot del: find_idx_None)

subsection \<open>Timeouts\<close>

lemma unit_not_digit: "\<not> c_isdigit 115" "\<not> c_isdigit 109" "\<not> c_isdigit 0"
  by (auto simp: c_isdigit_def)

lemma get_tmo_text:
  assumes "tmo_unit c = Some k" "int n * k < 2 ^ 31"
  shows "get_tmo dflt (Some (dec_nat n @ [c])) = Some (int n * k)"
proof -
  have c: "c = 115 \<and> k = 1 \<or> c = 109 \<and> k = 60" using assms(1) by (auto simp: tmo_unit_def split: if_splits)
  then have n: "n < 2 ^ 31" using assms(2) by auto
  have "strtol (dec_nat n @ c # [0]) = Some (int n, length (dec_nat n), False)"
    using c n unit_not_digit by (intro strtol_dec_nat) auto
  moreover have "to_int32 (int n) = int n" using n sint_of_int32 [of "int n"] by (simp add: to_int32_def int32_ok_def)
  moreover have "0 \<le> int n * k" using c by auto
  ultimately show ?thesis using assms by (simp add: get_tmo_def int32_ok_def)
qed

lemma tick_tmo_set:
  assumes "vdict_get d (cstr ''host'') = Some (CFG_DICT e sub)"
    "vdict_get sub (cstr ''tick_timeout'') = Some (CFG_STR f (dec_nat n @ [c]))" "tmo_unit c = Some k" "int n * k < 2 ^ 31"
  shows "vcfg_get_host_tick_tmo d = Some (int n * k)"
proof -
  have p: "cstr ''host.tick_timeout'' = cstr ''host'' @ 46 # cstr ''tick_timeout''" by (simp add: cstr_def)
  have nd: "46 \<notin> set (cstr ''host'')" "46 \<notin> set (cstr ''tick_timeout'')" by (simp_all add: cstr_def)
  show ?thesis
    unfolding vcfg_get_host_tick_tmo_def vcfg_get_str_val_def p get_path [OF nd assms(1)]
    using assms(2) get_tmo_text [OF assms(3,4)] by simp
qed

lemma tick_tmo_default: "vdict_get d (cstr ''host'') = None \<Longrightarrow> vcfg_get_host_tick_tmo d = Some 5"
proof -
  have p: "cstr ''host.tick_timeout'' = cstr ''host'' @ 46 # cstr ''tick_timeout''" by (simp add: cstr_def)
  have nd: "46 \<notin> set (cstr ''host'')" by (simp add: cstr_def)
  assume "vdict_get d (cstr ''host'') = None"
  then show ?thesis
    unfolding vcfg_get_host_tick_tmo_def vcfg_get_str_val_def p by (simp add: get_path_none [OF nd] get_tmo_def)
qed

text \<open>On a parsed file a timeout is read without a crash, unless it is more than an \<open>int\<close> of seconds: the text of
  a setting is never empty.\<close>

lemma value_char: "is_value c \<Longrightarrow> \<not> c_isspace c \<and> c \<noteq> 45 \<and> c \<noteq> 43"
  by (auto simp: is_value_def is_word_def c_isspace_def word_le_nat_alt)

lemma strtol_value:
  assumes "str_ok s"
  shows "\<exists>n k err. strtol (s @ [0]) = Some (n, k, err)"
proof -
  obtain c t where s: "s = c # t" "is_value c" using assms by (cases s) (auto simp: str_ok_def)
  have "length (takeWhile c_isdigit (s @ [0])) \<le> length s"
    using unit_not_digit(3) length_takeWhile_le [of c_isdigit s] by (simp add: takeWhile_append)
  moreover have "takeWhile c_isspace (s @ [0]) = []" "hd (s @ [0]) \<noteq> 45" "hd (s @ [0]) \<noteq> 43"
    using value_char [OF s(2)] by (auto simp: s(1))
  ultimately have "strtol (s @ [0]) \<noteq> None" by (simp add: strtol_def Let_def del: not_None_eq)
  then show ?thesis by (cases "strtol (s @ [0])") auto
qed

lemma get_tmo_parsed:
  assumes "dict_ok 0 d" "vcfg_get_str_val d key = Some v" "get_tmo dflt v = None"
  shows "\<exists>s n k err tms. v = Some s \<and> strtol (s @ [0]) = Some (n, k, err) \<and> tmo_unit (last s) = Some tms \<and> \<not> int32_ok (to_int32 n * tms)"
proof -
  obtain s where s: "v = Some s" using assms(3) by (cases v) (auto simp: get_tmo_def)
  then have ok: "str_ok s" using get_str_val_ok [of d key s] assms(1,2) by simp
  then have "s \<noteq> []" by (simp add: str_ok_def)
  moreover obtain n k err where "strtol (s @ [0]) = Some (n, k, err)" using strtol_value [OF ok] by blast
  ultimately show ?thesis using assms(3) by (auto simp: get_tmo_def s split: option.splits if_splits)
qed

text \<open>A host name of 32 bytes or more in \<open>dht.address\<close> overruns the buffer it is copied to.\<close>

lemma long_address_crashes:
  assumes "vdict_get d (cstr ''dht'') = Some (CFG_DICT e sub)"
    "vdict_get sub (cstr ''address'') = Some (CFG_TUPLE f (CFG_STR g ip # t))" "32 \<le> length ip"
  shows "vcfg_get_dht_address d addr = None"
proof -
  have p: "cstr ''dht.address'' = cstr ''dht'' @ 46 # cstr ''address''" by (simp add: cstr_def)
  have nd: "46 \<notin> set (cstr ''dht'')" "46 \<notin> set (cstr ''address'')" by (simp_all add: cstr_def)
  show ?thesis
    unfolding vcfg_get_dht_address_def vcfg_get_tuple_val_def p get_path [OF nd assms(1)]
    using assms(2,3) by (simp add: tuple_str_def)
qed

text \<open>The boot nodes are those of the entries that resolve, in file order, five at most for each.\<close>

lemma copy_addrs_eq:
  "length acc \<le> n \<Longrightarrow> copy_addrs n res acc = take n (acc @ map the (filter (\<lambda>a. a \<noteq> None) res))"
proof (induction n res acc rule: copy_addrs.induct)
  case (2 n a res addrs)
  then show ?case by (cases a) (auto simp: not_less take_Cons')
qed simp

definition resolved :: "resolver \<Rightarrow> bytes list \<Rightarrow> sockaddr_in list" where
  "resolved dns t =
     (case t of
        ip # port # proto # _ \<Rightarrow>
          if length ip < 64 \<and> proto \<in> {cstr ''udp'', cstr ''UDP'', cstr ''tcp'', cstr ''TCP''} then
            (case dns ip port (proto \<in> {cstr ''tcp'', cstr ''TCP''}) of
               None \<Rightarrow> []
             | Some res \<Rightarrow> take 5 (map the (filter (\<lambda>a. a \<noteq> None) res)))
          else []
      | _ \<Rightarrow> [])"

lemma by_hostname_5:
  "vsockaddr_get_by_hostname dns ip port proto 5 =
     (if proto \<in> {cstr ''udp'', cstr ''UDP'', cstr ''tcp'', cstr ''TCP''} then
        Some (case dns ip port (proto \<in> {cstr ''tcp'', cstr ''TCP''}) of
          None \<Rightarrow> (-1, [])
        | Some res \<Rightarrow> (let as = take 5 (map the (filter (\<lambda>a. a \<noteq> None) res)) in (int (length as), as)))
      else Some (-1, []))"
  unfolding vsockaddr_get_by_hostname_def by (simp add: copy_addrs_eq Let_def del: insert_iff split: option.split)

lemma tuple_addr_resolved:
  "\<exists>ret addrs. aux_tuple_addr_2_sin_addr dns (map (CFG_STR f) t) 5 = Some (ret, addrs) \<and> (if ret < 0 then [] else addrs) = resolved dns t"
proof -
  consider (short) "length t < 3" | ip port proto u where "t = ip # port # proto # u"
    by (cases t; cases "tl t"; cases "tl (tl t)") auto
  then show ?thesis
  proof cases
    case short
    then have "resolved dns t = []" by (auto simp: resolved_def split: list.splits)
    moreover have "tuple_str (map (CFG_STR f) t) 2 = None" using short by (simp add: tuple_str_def)
    ultimately show ?thesis by (auto simp: aux_tuple_addr_2_sin_addr_def split: option.splits)
  next
    case 2
    have "tuple_str (map (CFG_STR f) t) 0 = Some ip" "tuple_str (map (CFG_STR f) t) 1 = Some port"
      "tuple_str (map (CFG_STR f) t) 2 = Some proto" by (simp_all add: tuple_str_def 2)
    then show ?thesis
      unfolding aux_tuple_addr_2_sin_addr_def by_hostname_5
      by (cases "proto \<in> {cstr ''udp'', cstr ''UDP'', cstr ''tcp'', cstr ''TCP''}";
          cases "dns ip port (proto \<in> {cstr ''tcp'', cstr ''TCP''})")
        (auto simp: 2 resolved_def Let_def simp del: insert_iff)
  qed
qed

lemma boot_addrs_eq:
  "boot_addrs dns (map (\<lambda>t. CFG_TUPLE e (map (CFG_STR f) t)) ts) = Some (concat (map (resolved dns) ts))"
proof (induction ts)
  case (Cons t ts)
  obtain ret addrs where "aux_tuple_addr_2_sin_addr dns (map (CFG_STR f) t) 5 = Some (ret, addrs)"
    "(if ret < 0 then [] else addrs) = resolved dns t" using tuple_addr_resolved by blast
  then show ?case using Cons by simp
qed simp

end
