(* ===== verification/Rpc.thy ===== *)
theory Rpc
  imports Msger VArray
begin

section \<open>Sockets and the waiter (vrpc.c)\<close>

text \<open>
  A \<open>struct vrpc\<close> joins a socket to a messenger: it sends what the messenger has queued and hands it what arrives.
  The system calls are parameters, on a state \<open>'w\<close> of the kernel and the network; the base operations are a record of
  functions, as in the code, with the UDP ones defined from the system calls. The counters are \<open>int\<close>s that must not
  overflow. The waiter keeps its channels in a \<open>varray\<close>; a channel is its address and what is stored there, so that
  callbacks change it in place.
\<close>

subsection \<open>State\<close>

record ('i, 'w) vrpc_base_ops =
  bo_open :: "sockaddr_in \<Rightarrow> 'w \<Rightarrow> 'i option \<times> 'w"
  bo_sndto :: "'i \<Rightarrow> vmsg_sys \<Rightarrow> 'w \<Rightarrow> (int \<times> 'w) option"
  bo_rcvfrom :: "'i \<Rightarrow> vmsg_sys \<Rightarrow> 'w \<Rightarrow> (int \<times> vmsg_sys \<times> 'w) option"
  bo_close :: "'i \<Rightarrow> 'w \<Rightarrow> 'w"
  bo_getfd :: "'i \<Rightarrow> int"

record vrpc_stat =
  st_nsnds :: int
  st_nrcvs :: int
  st_nerrs :: int
  st_snd_bytes :: int
  st_rcv_bytes :: int

text \<open>The messenger of a channel: its inward side, and where in the daemon's state its queue is.\<close>

record 'r vmsger =
  mg_in :: "'r vmsg_inq"
  mg_get :: "'r \<Rightarrow> vmsg_outq"
  mg_put :: "vmsg_outq \<Rightarrow> 'r \<Rightarrow> 'r"

record ('i, 'w, 'r) vrpc =
  rpc_ptr :: nat
  rpc_mode :: int
  rpc_addr :: sockaddr_in
  rpc_rcvm :: "vmsg_sys option"
  rpc_sndm :: "vmsg_sys option"
  rpc_msger :: "'r vmsger"
  rpc_base_ops :: "('i, 'w) vrpc_base_ops option"
  rpc_impl :: "'i option"
  rpc_stat :: vrpc_stat

subsection \<open>UDP\<close>

text \<open>\<open>fcntl\<close> stands for the two calls that make the socket non-blocking; the three socket options are set
  without a look at the results. A message is sent from the source address in its control data; \<open>recvmsg\<close> gives the
  datagram, cut to the buffer, its sender and the local addresses in its control messages.\<close>

record 'w udp_sys =
  us_socket :: "'w \<Rightarrow> int \<times> 'w"
  us_setsockopts :: "int \<Rightarrow> 'w \<Rightarrow> 'w"
  us_bind :: "int \<Rightarrow> sockaddr_in \<Rightarrow> 'w \<Rightarrow> int \<times> 'w"
  us_fcntl :: "int \<Rightarrow> 'w \<Rightarrow> int \<times> 'w"
  us_close :: "int \<Rightarrow> 'w \<Rightarrow> 'w"
  us_sendmsg :: "int \<Rightarrow> bytes \<Rightarrow> sockaddr_in \<Rightarrow> u32 \<Rightarrow> 'w \<Rightarrow> int \<times> 'w"
  us_recvmsg :: "int \<Rightarrow> 'w \<Rightarrow> (bytes \<times> sockaddr_in \<times> u32 list) option \<times> 'w"

record vudp =
  udp_addr :: sockaddr_in
  udp_port :: u16
  udp_sock_fd :: int

definition vrpc_udp_open :: "bool \<Rightarrow> 'w udp_sys \<Rightarrow> sockaddr_in \<Rightarrow> 'w \<Rightarrow> vudp option \<times> 'w" where
  "vrpc_udp_open mem sys addr w =
     (if \<not> mem then (None, w)
      else let (fd, w) = us_socket sys w in
        if fd < 0 then (None, w)
        else let w = us_setsockopts sys fd w; (ret, w) = us_bind sys fd addr w in
          if ret < 0 then (None, us_close sys fd w)
          else let (ret, w) = us_fcntl sys fd w in
            if ret < 0 then (None, us_close sys fd w)
            else (Some \<lparr>udp_addr = addr, udp_port = sin_port addr, udp_sock_fd = fd\<rparr>, w))"

definition vrpc_udp_sndto :: "'w udp_sys \<Rightarrow> vudp \<Rightarrow> vmsg_sys \<Rightarrow> 'w \<Rightarrow> (int \<times> 'w) option" where
  "vrpc_udp_sndto sys udp msg w = do {
     vassert (0 \<le> ms_len msg \<and> nat (ms_len msg) \<le> length (ms_data msg));
     let (ret, w) = us_sendmsg sys (udp_sock_fd udp) (take (nat (ms_len msg)) (ms_data msg)) (ms_addr msg) (sin_addr (ms_spec msg)) w;
     Some (if ret < 0 then -1 else ret, w)
   }"

text \<open>The last control message with a local address decides.\<close>

fun set_spec :: "vudp \<Rightarrow> u32 list \<Rightarrow> sockaddr_in \<Rightarrow> sockaddr_in" where
  "set_spec udp [] spec = spec"
| "set_spec udp (a # as) spec = set_spec udp as (spec\<lparr>sin_family := AF_INET, sin_port := udp_port udp, sin_addr := a\<rparr>)"

definition vrpc_udp_rcvfrom :: "'w udp_sys \<Rightarrow> vudp \<Rightarrow> vmsg_sys \<Rightarrow> 'w \<Rightarrow> (int \<times> vmsg_sys \<times> 'w) option" where
  "vrpc_udp_rcvfrom sys udp msg w = do {
     vassert (0 \<le> ms_len msg \<and> nat (ms_len msg) \<le> length (ms_data msg));
     let (got, w) = us_recvmsg sys (udp_sock_fd udp) w;
     case got of
       None \<Rightarrow> Some (-1, msg, w)
     | Some (d, sender, pktinfo) \<Rightarrow>
         let d = take (nat (ms_len msg)) d in
         Some (int (length d),
           \<lparr>ms_addr = sender, ms_spec = set_spec udp pktinfo (ms_spec msg), ms_len = int (length d),
            ms_data = d @ drop (length d) (ms_data msg)\<rparr>, w)
   }"

definition vrpc_udp_close :: "'w udp_sys \<Rightarrow> vudp \<Rightarrow> 'w \<Rightarrow> 'w" where
  "vrpc_udp_close sys udp w = (if udp_sock_fd udp > 0 then us_close sys (udp_sock_fd udp) w else w)"

definition vrpc_udp_getfd :: "vudp \<Rightarrow> int" where
  "vrpc_udp_getfd udp = udp_sock_fd udp"

definition udp_base_ops :: "bool \<Rightarrow> 'w udp_sys \<Rightarrow> (vudp, 'w) vrpc_base_ops" where
  "udp_base_ops mem sys =
     \<lparr>bo_open = vrpc_udp_open mem sys, bo_sndto = vrpc_udp_sndto sys, bo_rcvfrom = vrpc_udp_rcvfrom sys,
      bo_close = vrpc_udp_close sys, bo_getfd = vrpc_udp_getfd\<rparr>"

subsection \<open>Channels\<close>

text \<open>The table has entries for Unix and UDP sockets; the modes for TCP and the like pass \<open>vrpc_mode_ok\<close> but have
  none, and opening such a channel calls through \<open>NULL\<close>.\<close>

definition vrpc_mode_ok :: "int \<Rightarrow> bool" where
  "vrpc_mode_ok mode \<longleftrightarrow> 0 \<le> mode \<and> mode < 5"

definition base_ops_table :: "('i, 'w) vrpc_base_ops \<Rightarrow> ('i, 'w) vrpc_base_ops \<Rightarrow> int \<Rightarrow> ('i, 'w) vrpc_base_ops option" where
  "base_ops_table unix udp mode = (if mode = 0 then Some unix else if mode = 1 then Some udp else None)"

definition vrpc_init ::
  "(int \<Rightarrow> ('i, 'w) vrpc_base_ops option) \<Rightarrow> bool \<Rightarrow> nat \<Rightarrow> 'r vmsger \<Rightarrow> int \<Rightarrow> sockaddr_in \<Rightarrow> 'w
    \<Rightarrow> (int \<times> ('i, 'w, 'r) vrpc \<times> 'w) option" where
  "vrpc_init ops_of mem ptr msger mode addr w = do {
     vassert (vrpc_mode_ok mode);
     let rpc = \<lparr>rpc_ptr = ptr, rpc_mode = mode, rpc_addr = addr, rpc_rcvm = None, rpc_sndm = None, rpc_msger = msger,
                rpc_base_ops = ops_of mode, rpc_impl = None,
                rpc_stat = \<lparr>st_nsnds = 0, st_nrcvs = 0, st_nerrs = 0, st_snd_bytes = 0, st_rcv_bytes = 0\<rparr>\<rparr>;
     sm \<leftarrow> vmsg_sys_alloc mem (8 * BUF_SZ);
     case sm of
       None \<Rightarrow> Some (-1, rpc, w)
     | Some sm \<Rightarrow> do {
         ops \<leftarrow> ops_of mode;
         let (impl, w) = bo_open ops addr w;
         case impl of
           None \<Rightarrow> Some (-1, rpc, w)
         | Some i \<Rightarrow> Some (0, rpc\<lparr>rpc_impl := Some i, rpc_rcvm := Some sm\<rparr>, w)
       }
   }"

text \<open>The message sent last is freed here; the one this takes from the queue is gone from it even when sending
  fails.\<close>

definition vrpc_snd :: "('i, 'w, 'r) vrpc \<Rightarrow> 'r \<Rightarrow> 'w \<Rightarrow> (int \<times> ('i, 'w, 'r) vrpc \<times> 'r \<times> 'w) option" where
  "vrpc_snd rpc r w = do {
     impl \<leftarrow> rpc_impl rpc;
     let (ret, sndm, q) = vmsger_pop (mg_get (rpc_msger rpc) r);
     let rpc = rpc\<lparr>rpc_sndm := sndm\<rparr>;
     let r = mg_put (rpc_msger rpc) q r;
     if ret < 0 then Some (-1, rpc, r, w)
     else do {
       ops \<leftarrow> rpc_base_ops rpc;
       msg \<leftarrow> sndm;
       (ret, w) \<leftarrow> bo_sndto ops impl msg w;
       if ret < 0 then do {
         n \<leftarrow> int_add (st_nerrs (rpc_stat rpc)) 1;
         Some (-1, rpc\<lparr>rpc_stat := (rpc_stat rpc)\<lparr>st_nerrs := n\<rparr>\<rparr>, r, w)
       }
       else do {
         b \<leftarrow> int_add (st_snd_bytes (rpc_stat rpc)) ret;
         n \<leftarrow> int_add (st_nsnds (rpc_stat rpc)) 1;
         Some (0, rpc\<lparr>rpc_stat := (rpc_stat rpc)\<lparr>st_snd_bytes := b, st_nsnds := n\<rparr>\<rparr>, r, w)
       }
     }
   }"

text \<open>\<open>junk\<close> is what the user message on the stack of \<open>dsptch\<close> holds before it is set.\<close>

definition vrpc_rcv :: "vmsg_usr \<Rightarrow> ('i, 'w, 'r) vrpc \<Rightarrow> 'r \<Rightarrow> 'w \<Rightarrow> (int \<times> ('i, 'w, 'r) vrpc \<times> 'r \<times> 'w) option" where
  "vrpc_rcv junk rpc r w = do {
     impl \<leftarrow> rpc_impl rpc;
     rcvm \<leftarrow> rpc_rcvm rpc;
     rcvm \<leftarrow> vmsg_sys_refresh rcvm (8 * BUF_SZ);
     ops \<leftarrow> rpc_base_ops rpc;
     (ret, rcvm, w) \<leftarrow> bo_rcvfrom ops impl rcvm w;
     let rpc = rpc\<lparr>rpc_rcvm := Some rcvm\<rparr>;
     if ret < 0 then do {
       n \<leftarrow> int_add (st_nerrs (rpc_stat rpc)) 1;
       Some (-1, rpc\<lparr>rpc_stat := (rpc_stat rpc)\<lparr>st_nerrs := n\<rparr>\<rparr>, r, w)
     }
     else do {
       b \<leftarrow> int_add (st_rcv_bytes (rpc_stat rpc)) ret;
       n \<leftarrow> int_add (st_nrcvs (rpc_stat rpc)) 1;
       let rpc = rpc\<lparr>rpc_stat := (rpc_stat rpc)\<lparr>st_rcv_bytes := b, st_nrcvs := n\<rparr>\<rparr>;
       (ret, r) \<leftarrow> vmsger_dsptch (mg_in (rpc_msger rpc)) junk rcvm r;
       Some (if ret < 0 then -1 else 0, rpc, r, w)
     }
   }"

definition vrpc_err :: "('i, 'w, 'r) vrpc \<Rightarrow> 'w \<Rightarrow> (int \<times> ('i, 'w, 'r) vrpc \<times> 'w) option" where
  "vrpc_err rpc w = do {
     impl \<leftarrow> rpc_impl rpc;
     ops \<leftarrow> rpc_base_ops rpc;
     let (impl, w) = bo_open ops (rpc_addr rpc) (bo_close ops impl w);
     Some (if impl = None then -1 else 0, rpc\<lparr>rpc_impl := impl\<rparr>, w)
   }"

definition vrpc_getId :: "('i, 'w, 'r) vrpc \<Rightarrow> int option" where
  "vrpc_getId rpc = do {
     impl \<leftarrow> rpc_impl rpc;
     ops \<leftarrow> rpc_base_ops rpc;
     Some (bo_getfd ops impl)
   }"

definition vrpc_get_stat :: "('i, 'w, 'r) vrpc \<Rightarrow> vrpc_stat" where
  "vrpc_get_stat rpc = rpc_stat rpc"

text \<open>The receive buffer is freed but the pointer to it stays.\<close>

definition vrpc_deinit :: "('i, 'w, 'r) vrpc \<Rightarrow> 'w \<Rightarrow> (('i, 'w, 'r) vrpc \<times> 'w) option" where
  "vrpc_deinit rpc w =
     (let rpc = rpc\<lparr>rpc_sndm := None\<rparr> in
      case rpc_impl rpc of
        None \<Rightarrow> Some (rpc, w)
      | Some i \<Rightarrow> do { ops \<leftarrow> rpc_base_ops rpc; Some (rpc, bo_close ops i w) })"

subsection \<open>The waiter\<close>

record ('i, 'w, 'r) vwaiter =
  wt_rpcs :: "('i, 'w, 'r) vrpc varray"
  wt_reset :: int
  wt_maxfd :: int
  wt_rfds :: "int set"
  wt_wfds :: "int set"
  wt_efds :: "int set"

definition vwaiter_init :: "('i, 'w, 'r) vwaiter" where
  "vwaiter_init = \<lparr>wt_rpcs = varray_init 8, wt_reset = 1, wt_maxfd = 0, wt_rfds = {}, wt_wfds = {}, wt_efds = {}\<rparr>"

text \<open>The result of the array's operation is not looked at.\<close>

definition vwaiter_add :: "bool \<Rightarrow> ('i, 'w, 'r) vwaiter \<Rightarrow> ('i, 'w, 'r) vrpc \<Rightarrow> (int \<times> ('i, 'w, 'r) vwaiter) option" where
  "vwaiter_add mem wt rpc = do {
     (ret, rpcs) \<leftarrow> varray_add_tail mem (wt_rpcs wt) (Some rpc);
     Some (0, wt\<lparr>wt_rpcs := rpcs, wt_reset := 1\<rparr>)
   }"

fun find_rpc :: "nat \<Rightarrow> nat \<Rightarrow> ('i, 'w, 'r) vrpc varray \<Rightarrow> nat \<Rightarrow> nat option" where
  "find_rpc 0 i rpcs ptr = Some i"
| "find_rpc (Suc n) i rpcs ptr = do {
     item \<leftarrow> varray_get rpcs (int i);
     if (case item of None \<Rightarrow> False | Some rpc \<Rightarrow> rpc_ptr rpc = ptr) then Some i else find_rpc n (i + 1) rpcs ptr
   }"

definition vwaiter_remove :: "bool \<Rightarrow> ('i, 'w, 'r) vwaiter \<Rightarrow> nat \<Rightarrow> (int \<times> ('i, 'w, 'r) vwaiter) option" where
  "vwaiter_remove mem wt ptr = do {
     i \<leftarrow> find_rpc (varray_size (wt_rpcs wt)) 0 (wt_rpcs wt) ptr;
     if i < varray_size (wt_rpcs wt) then do {
       (item, rpcs) \<leftarrow> varray_del mem (wt_rpcs wt) (int i);
       Some (0, wt\<lparr>wt_rpcs := rpcs, wt_reset := 1\<rparr>)
     }
     else Some (0, wt)
   }"

text \<open>\<open>FD_SET\<close> and \<open>FD_ISSET\<close> work on bit arrays of 1024.\<close>

definition fd_ok :: "int \<Rightarrow> unit option" where
  "fd_ok fd = vassert (0 \<le> fd \<and> fd < 1024)"

text \<open>The callbacks get the waiter's numbers and sets as their state; the first only reads the queue.\<close>

type_synonym fdsets = "int \<times> int set \<times> int set \<times> int set"

definition aux_fdsets_cb :: "'r \<Rightarrow> ('i, 'w, 'r) vrpc \<Rightarrow> fdsets \<Rightarrow> (int \<times> ('i, 'w, 'r) vrpc \<times> fdsets) option" where
  "aux_fdsets_cb r rpc s = do {
     let (maxfd, rfds, wfds, efds) = s;
     fd \<leftarrow> vrpc_getId rpc;
     fd_ok fd;
     Some (0, rpc, if fd \<ge> maxfd then fd + 1 else maxfd, insert fd rfds,
       if vmsger_popable (mg_get (rpc_msger rpc) r) then insert fd wfds else wfds, insert fd efds)
   }"

definition aux_laundry_cb ::
  "vmsg_usr \<Rightarrow> int set \<Rightarrow> int set \<Rightarrow> int set \<Rightarrow> ('i, 'w, 'r) vrpc \<Rightarrow> 'r \<times> 'w \<Rightarrow> (int \<times> ('i, 'w, 'r) vrpc \<times> 'r \<times> 'w) option" where
  "aux_laundry_cb junk rfds wfds efds rpc s = do {
     let (r, w) = s;
     fd \<leftarrow> vrpc_getId rpc;
     fd_ok fd;
     (ret, rpc, r, w) \<leftarrow> (if fd \<in> rfds then vrpc_rcv junk rpc r w else Some (0, rpc, r, w));
     (ret, rpc, r, w) \<leftarrow> (if fd \<in> wfds then vrpc_snd rpc r w else Some (0, rpc, r, w));
     (ret, rpc, w) \<leftarrow> (if fd \<in> efds then vrpc_err rpc w else Some (0, rpc, w));
     Some (0, rpc, r, w)
   }"

text \<open>\<open>pselect\<close> is a parameter: it gets the number and the three sets and gives its result and the sets of ready
  descriptors.\<close>

type_synonym 'w pselect = "fdsets \<Rightarrow> 'w \<Rightarrow> (int \<times> int set \<times> int set \<times> int set) \<times> 'w"

definition vwaiter_laundry ::
  "'w pselect \<Rightarrow> vmsg_usr \<Rightarrow> ('i, 'w, 'r) vwaiter \<Rightarrow> 'r \<Rightarrow> 'w \<Rightarrow> (int \<times> ('i, 'w, 'r) vwaiter \<times> 'r \<times> 'w) option" where
  "vwaiter_laundry select junk wt r w = do {
     (rpcs, maxfd, rfds, wfds, efds) \<leftarrow> varray_iterate (wt_rpcs wt) (aux_fdsets_cb r) (wt_maxfd wt, {}, {}, {});
     let ((ret, rfds, wfds, efds), w) = select (maxfd, rfds, wfds, efds) w;
     let wt = wt\<lparr>wt_rpcs := rpcs, wt_maxfd := maxfd, wt_rfds := rfds, wt_wfds := wfds, wt_efds := efds\<rparr>;
     if ret < 0 then Some (-1, wt, r, w)
     else if ret = 0 then Some (0, wt, r, w)
     else do {
       (rpcs, r, w) \<leftarrow> varray_iterate (wt_rpcs wt) (aux_laundry_cb junk rfds wfds efds) (r, w);
       Some (0, wt\<lparr>wt_rpcs := rpcs\<rparr>, r, w)
     }
   }"
section \<open>What these operations do\<close>

subsection \<open>From one node's queue to another's callbacks\<close>

definition room :: "vrpc_stat \<Rightarrow> bool" where
  "room st \<longleftrightarrow> (\<forall>n \<in> {st_nsnds st, st_nrcvs st, st_nerrs st}. 0 \<le> n \<and> n < 2 ^ 31 - 1) \<and>
     (\<forall>n \<in> {st_snd_bytes st, st_rcv_bytes st}. 0 \<le> n \<and> n < 2 ^ 31 - 65536)"

lemma int_add_count:
  assumes "room st"
  shows "int_add (st_nsnds st) 1 = Some (st_nsnds st + 1)" "int_add (st_nrcvs st) 1 = Some (st_nrcvs st + 1)"
    "int_add (st_nerrs st) 1 = Some (st_nerrs st + 1)"
  using assms by (auto simp: room_def int32_ok_def)

lemma int_add_room:
  assumes "room st" "0 \<le> n" "n \<le> 65535"
  shows "int_add (st_snd_bytes st) n = Some (st_snd_bytes st + n)"
    "int_add (st_rcv_bytes st) n = Some (st_rcv_bytes st + n)"
  using assms by (auto simp: room_def int32_ok_def)

text \<open>Sending takes the first message of the queue and gives the socket exactly its bytes; when that fails the
  message is gone all the same.\<close>

lemma vrpc_snd_udp:
  assumes "rpc_impl rpc = Some udp" "rpc_base_ops rpc = Some (udp_base_ops mem sys)" "room (rpc_stat rpc)"
    "mg_get (rpc_msger rpc) r = q" "mq_msgs q = ms # rest" "0 \<le> ms_len ms" "nat (ms_len ms) \<le> length (ms_data ms)"
    "us_sendmsg sys (udp_sock_fd udp) (take (nat (ms_len ms)) (ms_data ms)) (ms_addr ms) (sin_addr (ms_spec ms)) w = (n, w')"
    "n \<le> 65535"
  shows "\<exists>rpc'. vrpc_snd rpc r w = Some (if n < 0 then -1 else 0, rpc', mg_put (rpc_msger rpc) (q\<lparr>mq_msgs := rest\<rparr>) r, w') \<and>
    rpc' = rpc\<lparr>rpc_sndm := Some ms, rpc_stat := rpc_stat rpc'\<rparr>"
  using assms int_add_count [OF assms(3)] int_add_room [OF assms(3), of n]
  by (simp add: vrpc_snd_def vmsger_pop_def udp_base_ops_def vrpc_udp_sndto_def)

lemma set_spec_Nil_or: "set_spec udp as spec = (if as = [] then spec else spec\<lparr>sin_family := AF_INET, sin_port := udp_port udp, sin_addr := last as\<rparr>)"
  by (induction udp as spec rule: set_spec.induct) auto

text \<open>What a datagram becomes in the receiver's buffer, and the message its callbacks get.\<close>

definition got_msg :: "vudp \<Rightarrow> bytes \<Rightarrow> sockaddr_in \<Rightarrow> u32 list \<Rightarrow> vmsg_sys" where
  "got_msg udp d sender pktinfo =
     \<lparr>ms_addr = sender, ms_spec = set_spec udp pktinfo sockaddr_zero, ms_len = int (length d),
      ms_data = d @ replicate (8 * nat BUF_SZ - length d) 0\<rparr>"

lemma vrpc_rcv_udp:
  assumes "rpc_impl rpc = Some udp" "rpc_base_ops rpc = Some (udp_base_ops mem sys)" "room (rpc_stat rpc)"
    "rpc_rcvm rpc = Some rcvm" "length (ms_data rcvm) = 8 * nat BUF_SZ"
    "us_recvmsg sys (udp_sock_fd udp) w = (Some (d, sender, pktinfo), w')" "length d \<le> 8 * nat BUF_SZ"
    "vmsger_dsptch (mg_in (rpc_msger rpc)) junk (got_msg udp d sender pktinfo) r = Some (ret, r')"
  shows "\<exists>rpc'. vrpc_rcv junk rpc r w = Some (if ret < 0 then -1 else 0, rpc', r', w') \<and>
    rpc' = rpc\<lparr>rpc_rcvm := Some (got_msg udp d sender pktinfo), rpc_stat := rpc_stat rpc'\<rparr>"
proof -
  have z: "8 * nat BUF_SZ = 8192" "(8 * BUF_SZ :: int) = 8192" by (simp_all add: BUF_SZ_def)
  have "int (length d) \<le> 65535" using assms(7) z by simp
  note add = int_add_count [OF assms(3)] int_add_room [OF assms(3) _ this]
  show ?thesis
    using assms add
    by (simp add: vrpc_rcv_def vmsg_sys_refresh_def z udp_base_ops_def vrpc_udp_rcvfrom_def got_msg_def Let_def)
qed

text \<open>A message that one node queues and its channel sends reaches, as the bytes of one datagram, the callbacks of the
  node whose channel receives them: the same kind, length and data, zeros behind the data, and the address of the
  sender in place of the receiver's.\<close>

lemma send_receive:
  fixes r :: 'r and r2 :: 'q and a :: "(vudp, 'w, 'r) vrpc" and b :: "(vudp, 'w, 'q) vrpc"
  assumes a: "rpc_impl a = Some ua" "rpc_base_ops a = Some (udp_base_ops mem sys)" "room (rpc_stat a)"
    "mg_get (rpc_msger a) r = q" "mq_msgs q = packed mu # rest"
    and b: "rpc_impl b = Some ub" "rpc_base_ops b = Some (udp_base_ops mem sys)" "room (rpc_stat b)"
    "rpc_rcvm b = Some rcvm" "length (ms_data rcvm) = 8 * nat BUF_SZ"
    "mi_unpack_cb (mg_in (rpc_msger b)) = aux_vhost_unpack_msg_cb"
    and mu: "dht_msg mu" "mu_len mu = int (length (mu_data mu))" "mu_len mu + 8 \<le> 8 * BUF_SZ"
    and net: "us_sendmsg sys (udp_sock_fd ua) (ms_data (packed mu)) (mu_addr mu) (sin_addr (mu_spec mu)) w = (n, w1)" "0 \<le> n" "n \<le> 65535"
    "us_recvmsg sys (udp_sock_fd ub) w1 = (Some (ms_data (packed mu), sender, pktinfo), w2)"
    and cbs: "dsptch_cbs (mi_cbs (mg_in (rpc_msger b)))
        (mu\<lparr>mu_addr := sender, mu_spec := set_spec ub pktinfo sockaddr_zero,
            mu_data := mu_data mu @ replicate (nat (8 * BUF_SZ - 8 - mu_len mu)) 0\<rparr>) r2 = Some r3"
  shows "\<exists>a'. vrpc_snd a r w = Some (0, a', mg_put (rpc_msger a) (q\<lparr>mq_msgs := rest\<rparr>) r, w1)"
    and "\<exists>b'. vrpc_rcv junk b r2 w1 = Some (0, b', r3, w2)"
proof -
  have z: "8 * nat BUF_SZ = 8192" "(8 * BUF_SZ :: int) = 8192" by (simp_all add: BUF_SZ_def)
  let ?d = "ms_data (packed mu)"
  have l: "length ?d = 8 + length (mu_data mu)" by (simp add: packed_def)
  have nl: "nat (ms_len (packed mu)) = length ?d" "0 \<le> ms_len (packed mu)" using mu(2) l by (simp_all add: packed_def)
  show "\<exists>a'. vrpc_snd a r w = Some (0, a', mg_put (rpc_msger a) (q\<lparr>mq_msgs := rest\<rparr>) r, w1)"
    using vrpc_snd_udp [OF a nl(2), of w n w1] net(1-3) nl by (auto simp: packed_def)
  have len: "length ?d \<le> 8 * nat BUF_SZ" using mu(2,3) l z by simp
  let ?g = "got_msg ub ?d sender pktinfo"
  have head: "length (ms_data ?g) \<ge> 8" "of_le32 (ms_data ?g) = DHT_MAGIC" "sint (of_le32 (drop 4 (ms_data ?g))) = VMSG_DHT"
    using mu(1) by (simp_all add: got_msg_def packed_def dht_msg_def)
  have "aux_vhost_unpack_msg_cb ?g junk = Some (0, mu\<lparr>mu_addr := sender, mu_spec := set_spec ub pktinfo sockaddr_zero,
            mu_data := mu_data mu @ replicate (nat (8 * BUF_SZ - 8 - mu_len mu)) 0\<rparr>)"
    unfolding unpack_magic [OF head(1,2)] head(3)
    using mu by (auto simp: got_msg_def packed_def dht_msg_def z nat_diff_distrib)
  then have "vmsger_dsptch (mg_in (rpc_msger b)) junk ?g r2 = Some (0, r3)"
    using cbs b(6) by (simp add: vmsger_dsptch_def)
  from vrpc_rcv_udp [OF b(1-5) net(4) len this] show "\<exists>b'. vrpc_rcv junk b r2 w1 = Some (0, b', r3, w2)" by auto
qed
subsection \<open>The waiter\<close>

lemma varray_iterate_None:
  assumes "va_wf a" "list_iterate cb (va_list a) s = None"
  shows "varray_iterate a cb s = None"
proof -
  obtain rest where "va_items a = map Some (va_list a) @ rest" using va_items_split [OF assms(1)] by blast
  then show ?thesis
    using varray_iterate_from_spec [of cb "[]" "va_list a" rest s] assms by (simp add: varray_iterate_def)
qed

lemma getId_None: "rpc_impl rpc = None \<Longrightarrow> vrpc_getId rpc = None"
  by (simp add: vrpc_getId_def)

lemma fdsets_None: "\<exists>rpc \<in> set rpcs. rpc_impl rpc = None \<Longrightarrow> list_iterate (aux_fdsets_cb r) rpcs s = None"
proof (induction rpcs arbitrary: s)
  case (Cons rpc rpcs)
  then show ?case
    by (cases "rpc_impl rpc") (auto simp: aux_fdsets_cb_def getId_None run_simps split: prod.splits)
qed simp

text \<open>A channel whose socket could not be opened again stops the daemon the next time it waits.\<close>

lemma laundry_dead_channel:
  "va_wf (wt_rpcs wt) \<Longrightarrow> \<exists>rpc \<in> set (va_list (wt_rpcs wt)). rpc_impl rpc = None \<Longrightarrow> vwaiter_laundry select junk wt r w = None"
  by (simp add: vwaiter_laundry_def varray_iterate_None [OF _ fdsets_None])

theorem failed_reopen:
  fixes wt :: "('i, 'w, 'r) vwaiter"
  assumes "va_wf (wt_rpcs wt)" "va_list (wt_rpcs wt) = [rpc]" "rpc_impl rpc = Some i" "rpc_base_ops rpc = Some ops"
    "0 \<le> bo_getfd ops i" "bo_getfd ops i < 1024"
    "\<And>s. select s w = ((1, {}, {}, {bo_getfd ops i}), w1)" "bo_open ops (rpc_addr rpc) (bo_close ops i w1) = (None, w2)"
  shows "\<exists>wt'. vwaiter_laundry select junk wt r w = Some (0, wt', r, w2) \<and> (\<forall>select' r' w'. vwaiter_laundry select' junk wt' r' w' = None)"
proof -
  let ?fd = "bo_getfd ops i"
  have id: "vrpc_getId rpc = Some ?fd" using assms(3,4) by (simp add: vrpc_getId_def)
  obtain t where "list_iterate (aux_fdsets_cb r) (va_list (wt_rpcs wt)) (wt_maxfd wt, {}, {}, {}) = Some ([rpc], t)"
    using id assms(2,5,6) by (simp add: aux_fdsets_cb_def fd_ok_def)
  then obtain a where a: "varray_iterate (wt_rpcs wt) (aux_fdsets_cb r) (wt_maxfd wt, {}, {}, {}) = Some (a, t)" "va_wf a" "va_list a = [rpc]"
    using varray_iterate_spec [OF assms(1)] by metis
  have "list_iterate (aux_laundry_cb junk {} {} {?fd}) (va_list a) (r, w1) = Some ([rpc\<lparr>rpc_impl := None\<rparr>], r, w2)"
    using id assms(3-6,8) by (simp add: a(3) aux_laundry_cb_def fd_ok_def vrpc_err_def)
  then obtain b where b: "varray_iterate a (aux_laundry_cb junk {} {} {?fd}) (r, w1) = Some (b, r, w2)" "va_wf b" "va_list b = [rpc\<lparr>rpc_impl := None\<rparr>]"
    using varray_iterate_spec [OF a(2)] by metis
  obtain m x y z where t: "t = (m, x, y, z)" by (cases t)
  let ?wt = "wt\<lparr>wt_rpcs := b, wt_maxfd := m, wt_rfds := {}, wt_wfds := {}, wt_efds := {?fd}\<rparr>"
  have "vwaiter_laundry select junk wt r w = Some (0, ?wt, r, w2)"
    using a(1) b(1) assms(7) by (simp add: vwaiter_laundry_def t)
  moreover have "vwaiter_laundry select' junk ?wt r' w' = None" for select' r' w'
    by (rule laundry_dead_channel) (use b in auto)
  ultimately show ?thesis by blast
qed

text \<open>Removing a channel that was added last gives the waiter's old list back.\<close>

lemma find_rpc_eq:
  "va_wf a \<Longrightarrow> i + n = va_used a \<Longrightarrow> \<forall>rpc \<in> set (take n (drop i (va_list a))). rpc_ptr rpc \<noteq> ptr \<Longrightarrow> find_rpc n i a ptr = Some (va_used a)"
proof (induction n arbitrary: i)
  case (Suc n)
  have "drop i (va_list a) = va_list a ! i # drop (Suc i) (va_list a)" using Suc.prems by (simp add: Cons_nth_drop_Suc)
  then show ?case using Suc by simp
qed simp

lemma remove_absent: "va_wf (wt_rpcs wt) \<Longrightarrow> \<forall>rpc \<in> set (va_list (wt_rpcs wt)). rpc_ptr rpc \<noteq> ptr \<Longrightarrow> vwaiter_remove mem wt ptr = Some (0, wt)"
  using find_rpc_eq [of "wt_rpcs wt" 0 "va_used (wt_rpcs wt)" ptr] by (simp add: vwaiter_remove_def)

lemma find_rpc_last:
  "va_wf a \<Longrightarrow> i + Suc n = va_used a \<Longrightarrow> \<forall>rpc \<in> set (take n (drop i (va_list a))). rpc_ptr rpc \<noteq> ptr \<Longrightarrow>
     rpc_ptr (last (va_list a)) = ptr \<Longrightarrow> find_rpc (Suc n) i a ptr = Some (va_used a - 1)"
proof (induction n arbitrary: i)
  case 0
  then have "va_list a ! i = last (va_list a)" by (metis va_list_length add_Suc_right add_0_right diff_Suc_1 last_conv_nth length_0_conv nat.simps(3))
  then show ?case using 0 by auto
next
  case (Suc n)
  have "drop i (va_list a) = va_list a ! i # drop (Suc i) (va_list a)" using Suc.prems by (simp add: Cons_nth_drop_Suc)
  then show ?case using Suc.IH [of "Suc i"] Suc.prems by simp
qed
theorem add_then_remove:
  assumes "va_wf (wt_rpcs wt)" "\<forall>c \<in> set (va_list (wt_rpcs wt)). rpc_ptr c \<noteq> rpc_ptr rpc" "va_used (wt_rpcs wt) + 1 < grown_capc (wt_rpcs wt)"
  shows "\<exists>wt1 wt2. vwaiter_add True wt rpc = Some (0, wt1) \<and> vwaiter_remove True wt1 (rpc_ptr rpc) = Some (0, wt2) \<and>
    va_wf (wt_rpcs wt2) \<and> va_list (wt_rpcs wt2) = va_list (wt_rpcs wt)"
proof -
  obtain a where a: "varray_add_tail True (wt_rpcs wt) (Some rpc) = Some (0, a)" "va_wf a" "va_list a = va_list (wt_rpcs wt) @ [rpc]"
    "va_capc a = grown_capc (wt_rpcs wt)"
    using varray_add_tail_spec [OF assms(1)] by blast
  have n: "va_used a = Suc (va_used (wt_rpcs wt))" using a(2,3) va_list_length [OF a(2)] va_list_length [OF assms(1)] by simp
  have f: "find_rpc (va_used a) 0 a (rpc_ptr rpc) = Some (va_used (wt_rpcs wt))"
    using find_rpc_last [OF a(2), of 0 "va_used (wt_rpcs wt)"] assms(1,2) n a(3) by simp
  obtain b where "varray_del True a (int (va_used (wt_rpcs wt))) = Some (Some (va_list a ! va_used (wt_rpcs wt)), b)" "va_wf b"
      "va_list b = list_del (va_used (wt_rpcs wt)) (va_list a)"
    using varray_del_spec [OF a(2), of "va_used (wt_rpcs wt)"] n assms(3) a(4) by auto
  moreover from this(3) have "va_list b = va_list (wt_rpcs wt)" using a(3) assms(1) by (simp add: list_del_def)
  ultimately show ?thesis
    using a(1,2) f n va_list_length [OF a(2)] by (simp add: vwaiter_add_def vwaiter_remove_def del: va_list_length)
qed

end
