(* ===== verification/Nice.thy ===== *)
theory Nice
  imports Config "HOL-Library.Signed_Division"
begin

section \<open>How busy the host is (vnode_nice.c, utils/vsys.c)\<close>

text \<open>
  The nice value a node announces with its services is a weighted sum of usage ratios. The ratios of CPU and memory
  are read from \<open>/proc\<close> with \<open>sscanf\<close>, whose conversions \<open>%s\<close> and \<open>%u\<close> (of digits without a sign, as the kernel writes them) are modelled; those of input, output and the
  network are stubs that leave their default. Arithmetic on \<open>int\<close>s crashes when it overflows or divides by 0.
\<close>

subsection \<open>The conversions of sscanf\<close>

datatype conv = FMT_S nat | FMT_U

text \<open>The block, with the number of bytes each \<open>%s\<close> may write; the result is what \<open>sscanf\<close> returns and the numbers it
  stored. Running off the block, or over a buffer, is a crash.\<close>

fun scan :: "conv list \<Rightarrow> nat \<Rightarrow> bytes \<Rightarrow> (int \<times> int list) option" where
  "scan [] done' s = Some (int done', [])"
| "scan (f # fs) done' s =
     (let s = dropWhile c_isspace s in
      if s = [] then None
      else if hd s = 0 then Some (if done' = 0 then -1 else int done', [])
      else case f of
        FMT_S n \<Rightarrow>
          (let t = takeWhile (\<lambda>c. c \<noteq> 0 \<and> \<not> c_isspace c) s; r = dropWhile (\<lambda>c. c \<noteq> 0 \<and> \<not> c_isspace c) s in
           if r = [] \<or> length t \<ge> n then None else scan fs (done' + 1) r)
      | FMT_U \<Rightarrow>
          (let t = takeWhile c_isdigit s; r = dropWhile c_isdigit s in
           if r = [] then None
           else if t = [] then Some (int done', [])
           else map_option (\<lambda>(ret, vs). (ret, to_int32 (int (digits_val 0 t)) # vs)) (scan fs (done' + 1) r)))"

definition c_int :: "int \<Rightarrow> int option" where
  "c_int v = (if int32_ok v then Some v else None)"

definition c_div :: "int \<Rightarrow> int \<Rightarrow> int option" where
  "c_div a b = (if b = 0 then None else c_int (a sdiv b))"

text \<open>A number that was not converted keeps its initial 0.\<close>

definition field :: "int list \<Rightarrow> nat \<Rightarrow> int" where
  "field vs i = (if i < length vs then vs ! i else 0)"

text \<open>The file's contents, or \<open>None\<close> when it cannot be opened or read; at most 128 bytes are read into a zeroed buffer
  of 128. The last sample is kept between calls.\<close>

record cpu_sample =
  prev_idle :: int
  prev_busy :: int

definition read128 :: "bytes \<Rightarrow> bytes" where
  "read128 file = take 128 file @ replicate (128 - length file) 0"

definition vsys_get_cpu_ratio :: "bytes option \<Rightarrow> cpu_sample \<Rightarrow> int \<Rightarrow> (int \<times> int \<times> cpu_sample) option" where
  "vsys_get_cpu_ratio stat prev ratio =
     (case stat of
        None \<Rightarrow> Some (-1, ratio, prev)
      | Some file \<Rightarrow> do {
          (ret, vs) \<leftarrow> scan [FMT_S 32, FMT_U, FMT_U, FMT_U, FMT_U] 0 (read128 file);
          if ret < 0 then Some (-1, ratio, prev)
          else do {
            let user = field vs 0;
            let nice = field vs 1;
            let sys = field vs 2;
            let idle = field vs 3;
            busy \<leftarrow> c_int (user + sys);
            busy \<leftarrow> c_int (busy + nice);
            busy_amount \<leftarrow> c_int (busy - prev_busy prev);
            idle_amount \<leftarrow> c_int (idle - prev_idle prev);
            num \<leftarrow> c_int (busy_amount * 10);
            den \<leftarrow> c_int (busy_amount + idle_amount);
            den \<leftarrow> c_int (den + 1);
            ratio \<leftarrow> c_div num den;
            Some (0, ratio, \<lparr>prev_idle = idle, prev_busy = busy\<rparr>)
          }
        })"

text \<open>The check after \<open>open\<close> looks at the wrong variable, so that a failure shows only when reading fails.\<close>

definition vsys_get_mem_ratio :: "bytes option \<Rightarrow> int \<Rightarrow> (int \<times> int) option" where
  "vsys_get_mem_ratio meminfo ratio =
     (case meminfo of
        None \<Rightarrow> Some (-1, ratio)
      | Some file \<Rightarrow> do {
          (ret, vs) \<leftarrow> scan [FMT_S 32, FMT_U, FMT_S 32, FMT_S 32, FMT_U] 0 (read128 file);
          if ret < 0 then Some (-1, ratio)
          else do {
            let total = field vs 0;
            let mfree = field vs 1;
            used \<leftarrow> c_int (total - mfree);
            num \<leftarrow> c_int (used * 10);
            ratio \<leftarrow> c_div num total;
            Some (0, ratio)
          }
        })"

definition vsys_get_io_ratio :: "int \<Rightarrow> int \<times> int" where
  "vsys_get_io_ratio ratio = (0, ratio)"

definition vsys_get_net_ratio :: "int \<Rightarrow> int \<Rightarrow> int \<times> int \<times> int" where
  "vsys_get_net_ratio up down = (0, up, down)"

subsection \<open>The nice value\<close>

record vnice_res_status =
  rs_ratio :: int
  rs_criteria :: int
  rs_factor :: int

record vnode_nice =
  nn_cpu :: vnice_res_status
  nn_mem :: vnice_res_status
  nn_io :: vnice_res_status
  nn_net_up :: vnice_res_status
  nn_net_down :: vnice_res_status
  nn_prev_nice_val :: int

definition vnode_nice_init :: vnode_nice where
  "vnode_nice_init =
     \<lparr>nn_cpu = \<lparr>rs_ratio = 2, rs_criteria = 8, rs_factor = 7\<rparr>, nn_mem = \<lparr>rs_ratio = 2, rs_criteria = 8, rs_factor = 6\<rparr>,
      nn_io = \<lparr>rs_ratio = 2, rs_criteria = 4, rs_factor = 3\<rparr>, nn_net_up = \<lparr>rs_ratio = 2, rs_criteria = 8, rs_factor = 3\<rparr>,
      nn_net_down = \<lparr>rs_ratio = 2, rs_criteria = 5, rs_factor = 2\<rparr>, nn_prev_nice_val = 2\<rparr>"

fun nice_sum :: "int \<Rightarrow> vnice_res_status list \<Rightarrow> int option" where
  "nice_sum nice_val [] = Some nice_val"
| "nice_sum nice_val (s # ss) = do {
     add \<leftarrow> c_int ((if rs_ratio s < rs_criteria s then rs_ratio s else 10) * rs_factor s);
     nice_val \<leftarrow> c_int (nice_val + add);
     nice_sum nice_val ss
   }"

text \<open>When any of the four ratios cannot be read the value of the last time stands; what could be read is kept.\<close>

definition vnode_nice_get_nice ::
  "bytes option \<Rightarrow> bytes option \<Rightarrow> vnode_nice \<Rightarrow> cpu_sample \<Rightarrow> (int \<times> vnode_nice \<times> cpu_sample) option" where
  "vnode_nice_get_nice stat meminfo nn prev = do {
     (ret1, cpu, prev) \<leftarrow> vsys_get_cpu_ratio stat prev (rs_ratio (nn_cpu nn));
     (ret2, mem) \<leftarrow> vsys_get_mem_ratio meminfo (rs_ratio (nn_mem nn));
     let (ret3, io) = vsys_get_io_ratio (rs_ratio (nn_io nn));
     let (ret4, up, down) = vsys_get_net_ratio (rs_ratio (nn_net_up nn)) (rs_ratio (nn_net_down nn));
     let nn = nn\<lparr>nn_cpu := (nn_cpu nn)\<lparr>rs_ratio := cpu\<rparr>, nn_mem := (nn_mem nn)\<lparr>rs_ratio := mem\<rparr>, nn_io := (nn_io nn)\<lparr>rs_ratio := io\<rparr>,
                 nn_net_up := (nn_net_up nn)\<lparr>rs_ratio := up\<rparr>, nn_net_down := (nn_net_down nn)\<lparr>rs_ratio := down\<rparr>\<rparr>;
     if ret1 + ret2 + ret3 + ret4 < 0 then Some (nn_prev_nice_val nn, nn, prev)
     else do {
       nice_val \<leftarrow> nice_sum 0 [nn_cpu nn, nn_mem nn, nn_io nn, nn_net_up nn, nn_net_down nn];
       nice_val \<leftarrow> c_div nice_val 10;
       Some (nice_val, nn\<lparr>nn_prev_nice_val := nice_val\<rparr>, prev)
     }
   }"

section \<open>What these operations do\<close>

text \<open>The criteria and the factors never change, and the ratios of the stubs stay at their defaults.\<close>

definition nice_wf :: "vnode_nice \<Rightarrow> bool" where
  "nice_wf nn \<longleftrightarrow>
     nn = vnode_nice_init\<lparr>nn_cpu := (nn_cpu vnode_nice_init)\<lparr>rs_ratio := rs_ratio (nn_cpu nn)\<rparr>,
       nn_mem := (nn_mem vnode_nice_init)\<lparr>rs_ratio := rs_ratio (nn_mem nn)\<rparr>, nn_prev_nice_val := nn_prev_nice_val nn\<rparr> \<and>
     nn_prev_nice_val nn \<le> 14"

lemma nice_wf_init: "nice_wf vnode_nice_init"
  by (simp add: nice_wf_def vnode_nice_init_def)

lemma c_int_Some [run_simps]: "c_int v = Some x \<longleftrightarrow> int32_ok v \<and> x = v"
  by (auto simp: c_int_def)

lemma nice_sum_wf:
  assumes "nice_sum 0 [\<lparr>rs_ratio = c, rs_criteria = 8, rs_factor = 7\<rparr>, \<lparr>rs_ratio = m, rs_criteria = 8, rs_factor = 6\<rparr>,
      \<lparr>rs_ratio = 2, rs_criteria = 4, rs_factor = 3\<rparr>, \<lparr>rs_ratio = 2, rs_criteria = 8, rs_factor = 3\<rparr>,
      \<lparr>rs_ratio = 2, rs_criteria = 5, rs_factor = 2\<rparr>] = Some v"
  shows "v \<le> 146" "0 \<le> c \<Longrightarrow> 0 \<le> m \<Longrightarrow> 16 \<le> v"
  using assms by (auto simp: run_simps split: if_splits)

lemma c_div_10: "c_div v 10 = Some x \<Longrightarrow> v \<le> 146 \<Longrightarrow> x \<le> 14 \<and> (0 \<le> v \<longrightarrow> 0 \<le> x)"
  by (auto simp: c_div_def run_simps signed_divide_int_def sgn_if split: if_splits)

lemma get_nice_range:
  assumes "nice_wf nn" "vnode_nice_get_nice stat meminfo nn prev = Some (v, nn', prev')"
  shows "nice_wf nn'" "v \<le> 14" "v = nn_prev_nice_val nn'"
    "0 \<le> nn_prev_nice_val nn \<Longrightarrow> 0 \<le> rs_ratio (nn_cpu nn') \<Longrightarrow> 0 \<le> rs_ratio (nn_mem nn') \<Longrightarrow> 0 \<le> v"
proof -
  obtain c m pv where nn: "nn = vnode_nice_init\<lparr>nn_cpu := (nn_cpu vnode_nice_init)\<lparr>rs_ratio := c\<rparr>,
       nn_mem := (nn_mem vnode_nice_init)\<lparr>rs_ratio := m\<rparr>, nn_prev_nice_val := pv\<rparr>" "pv \<le> 14"
    using assms(1) unfolding nice_wf_def by blast
  obtain r1 cpu p1 r2 mem where r: "vsys_get_cpu_ratio stat prev c = Some (r1, cpu, p1)" "vsys_get_mem_ratio meminfo m = Some (r2, mem)"
    using assms(2) by (auto simp: nn vnode_nice_get_nice_def vnode_nice_init_def run_simps)
  let ?nn = "vnode_nice_init\<lparr>nn_cpu := (nn_cpu vnode_nice_init)\<lparr>rs_ratio := cpu\<rparr>,
       nn_mem := (nn_mem vnode_nice_init)\<lparr>rs_ratio := mem\<rparr>, nn_prev_nice_val := pv\<rparr>"
  consider (old) "v = pv" "nn' = ?nn"
    | (new) s where "nice_sum 0 [\<lparr>rs_ratio = cpu, rs_criteria = 8, rs_factor = 7\<rparr>, \<lparr>rs_ratio = mem, rs_criteria = 8, rs_factor = 6\<rparr>,
      \<lparr>rs_ratio = 2, rs_criteria = 4, rs_factor = 3\<rparr>, \<lparr>rs_ratio = 2, rs_criteria = 8, rs_factor = 3\<rparr>,
      \<lparr>rs_ratio = 2, rs_criteria = 5, rs_factor = 2\<rparr>] = Some s" "c_div s 10 = Some v" "nn' = ?nn\<lparr>nn_prev_nice_val := v\<rparr>"
    using assms(2) r
    by (auto simp: nn vnode_nice_get_nice_def vnode_nice_init_def vsys_get_io_ratio_def vsys_get_net_ratio_def Let_def
        Option.bind_eq_Some_conv simp del: nice_sum.simps split: if_splits)
  then have *: "nice_wf nn' \<and> v \<le> 14 \<and> v = nn_prev_nice_val nn' \<and>
    (0 \<le> nn_prev_nice_val nn \<longrightarrow> 0 \<le> rs_ratio (nn_cpu nn') \<longrightarrow> 0 \<le> rs_ratio (nn_mem nn') \<longrightarrow> 0 \<le> v)"
  proof cases
    case old
    then show ?thesis using nn by (simp add: nice_wf_def vnode_nice_init_def)
  next
    case new
    from nice_sum_wf [OF new(1)] c_div_10 [OF new(2)] show ?thesis
      by (auto simp: new(3) nice_wf_def vnode_nice_init_def)
  qed
  then show "nice_wf nn'" "v \<le> 14" "v = nn_prev_nice_val nn'"
    "0 \<le> nn_prev_nice_val nn \<Longrightarrow> 0 \<le> rs_ratio (nn_cpu nn') \<Longrightarrow> 0 \<le> rs_ratio (nn_mem nn') \<Longrightarrow> 0 \<le> v" by auto
qed

text \<open>The first sample counts from the boot of the machine: once it has been busy for \<open>2 ^ 31 / 10\<close> ticks the product
  overflows.\<close>

lemma cpu_ratio_overflow:
  assumes "scan [FMT_S 32, FMT_U, FMT_U, FMT_U, FMT_U] 0 (read128 file) = Some (5, [user, nice, sys, idle])"
    "0 \<le> user" "0 \<le> nice" "0 \<le> sys" "2 ^ 31 \<le> (user + nice + sys) * 10"
  shows "vsys_get_cpu_ratio (Some file) \<lparr>prev_idle = 0, prev_busy = 0\<rparr> ratio = None"
  using assms by (auto simp: vsys_get_cpu_ratio_def field_def c_int_def int32_ok_def)

end
