(* ===== verification/VList.thy ===== *)
theory VList
  imports VPrelude
begin

section \<open>Intrusive lists (utils/vlist.h)\<close>

text \<open>
  The doubly linked rings that hold the clients' callbacks, the queued messages, the zones of the object caches: a node
  is embedded in the object it links, so that nothing is allocated and an operation changes the nodes of other objects.
  The nodes are in a store, a partial map from addresses; an access to an address without a node crashes. \<open>ring\<close> says
  which objects a head links, in which order; the operations act on it as those of lists, and leave every other
  node of the store alone. The other theories use these lists as lists.
\<close>

subsection \<open>The store\<close>

record vlist =
  vl_next :: nat
  vl_prev :: nat

type_synonym store = "nat \<rightharpoonup> vlist"

definition get_next :: "store \<Rightarrow> nat \<Rightarrow> nat option" where
  "get_next h p = map_option vl_next (h p)"

definition get_prev :: "store \<Rightarrow> nat \<Rightarrow> nat option" where
  "get_prev h p = map_option vl_prev (h p)"

definition set_next :: "store \<Rightarrow> nat \<Rightarrow> nat \<Rightarrow> store option" where
  "set_next h p q = map_option (\<lambda>n. h(p \<mapsto> n\<lparr>vl_next := q\<rparr>)) (h p)"

definition set_prev :: "store \<Rightarrow> nat \<Rightarrow> nat \<Rightarrow> store option" where
  "set_prev h p q = map_option (\<lambda>n. h(p \<mapsto> n\<lparr>vl_prev := q\<rparr>)) (h p)"

subsection \<open>Operations\<close>

definition vlist_is_empty :: "store \<Rightarrow> nat \<Rightarrow> bool option" where
  "vlist_is_empty h head = do { n \<leftarrow> get_next h head; Some (n = head) }"

definition vlist_init :: "store \<Rightarrow> nat \<Rightarrow> store option" where
  "vlist_init h list = do {
     h \<leftarrow> set_next h list list;
     set_prev h list list
   }"

definition vlist_add_tail :: "store \<Rightarrow> nat \<Rightarrow> nat \<Rightarrow> (nat \<times> store) option" where
  "vlist_add_tail h head new = do {
     p \<leftarrow> get_prev h head;
     h \<leftarrow> set_next h p new;
     p \<leftarrow> get_prev h head;
     h \<leftarrow> set_prev h new p;
     h \<leftarrow> set_next h new head;
     h \<leftarrow> set_prev h head new;
     Some (new, h)
   }"

definition vlist_del :: "store \<Rightarrow> nat \<Rightarrow> (nat \<times> store) option" where
  "vlist_del h entry = do {
     n \<leftarrow> get_next h entry;
     p \<leftarrow> get_prev h entry;
     h \<leftarrow> set_prev h n p;
     p \<leftarrow> get_prev h entry;
     n \<leftarrow> get_next h entry;
     h \<leftarrow> set_next h p n;
     Some (entry, h)
   }"

definition vlist_pop_head :: "store \<Rightarrow> nat \<Rightarrow> (nat option \<times> store) option" where
  "vlist_pop_head h head = do {
     e \<leftarrow> vlist_is_empty h head;
     if e then Some (None, h)
     else do {
       n \<leftarrow> get_next h head;
       (e, h) \<leftarrow> vlist_del h n;
       Some (Some e, h)
     }
   }"

text \<open>The loops follow the links until they are back at the head, which need not happen.\<close>

partial_function (option) find_loop :: "store \<Rightarrow> nat \<Rightarrow> (nat \<Rightarrow> bool) \<Rightarrow> nat \<Rightarrow> nat option outcome option" where
  [code]: "find_loop h head condition node =
     (if node = head then Some (Done None)
      else if condition node then Some (Done (Some node))
      else case get_next h node of None \<Rightarrow> Some Crash | Some n \<Rightarrow> find_loop h head condition n)"

definition vlist_find_node :: "store \<Rightarrow> nat \<Rightarrow> (nat \<Rightarrow> bool) \<Rightarrow> nat option outcome option" where
  "vlist_find_node h head condition = then_run (of_option (get_next h head)) (find_loop h head condition)"

text \<open>The action is one on the object, and does not change the links.\<close>

partial_function (option) travel_loop :: "store \<Rightarrow> nat \<Rightarrow> (nat \<Rightarrow> 's \<Rightarrow> 's) \<Rightarrow> nat \<Rightarrow> 's \<Rightarrow> 's outcome option" where
  [code]: "travel_loop h head action node s =
     (if node = head then Some (Done s)
      else case get_next h node of None \<Rightarrow> Some Crash | Some n \<Rightarrow> travel_loop h head action n (action node s))"

definition vlist_travel_node :: "store \<Rightarrow> nat \<Rightarrow> (nat \<Rightarrow> 's \<Rightarrow> 's) \<Rightarrow> 's \<Rightarrow> 's outcome option" where
  "vlist_travel_node h head action s = then_run (of_option (get_next h head)) (\<lambda>n. travel_loop h head action n s)"

section \<open>Rings\<close>

text \<open>\<open>chain h p xs q\<close>: the links lead from \<open>p\<close> over \<open>xs\<close> to \<open>q\<close>, and back.\<close>

fun chain :: "store \<Rightarrow> nat \<Rightarrow> nat list \<Rightarrow> nat \<Rightarrow> bool" where
  "chain h p [] q \<longleftrightarrow> get_next h p = Some q \<and> get_prev h q = Some p"
| "chain h p (x # xs) q \<longleftrightarrow> chain h p [] x \<and> chain h x xs q"

definition ring :: "store \<Rightarrow> nat \<Rightarrow> nat list \<Rightarrow> bool" where
  "ring h head xs \<longleftrightarrow> distinct (head # xs) \<and> chain h head xs head"

lemma chain_append [simp]: "chain h p (xs @ y # ys) q \<longleftrightarrow> chain h p xs y \<and> chain h y ys q"
  by (induction xs arbitrary: p) auto

lemma chain_frame:
  assumes "\<forall>x \<in> set (p # xs). get_next h' x = get_next h x" "\<forall>x \<in> set (q # xs). get_prev h' x = get_prev h x"
  shows "chain h' p xs q \<longleftrightarrow> chain h p xs q"
  using assms by (induction xs arbitrary: p) auto

lemma chain_ends: "chain h p xs q \<Longrightarrow> get_next h p = Some (hd (xs @ [q])) \<and> get_prev h q = Some (last (p # xs))"
  by (induction xs arbitrary: p) (auto simp: hd_append)

lemma chain_nodes: "chain h p xs q \<Longrightarrow> x \<in> set (p # q # xs) \<Longrightarrow> h x \<noteq> None"
  by (induction xs arbitrary: p) (auto simp: get_next_def get_prev_def)

text \<open>A ring is determined by its head: two lists cannot both be the ring of a head.\<close>

lemma chain_unique: "chain h p xs q \<Longrightarrow> chain h p ys q \<Longrightarrow> q \<notin> set xs \<Longrightarrow> q \<notin> set ys \<Longrightarrow> xs = ys"
proof (induction xs arbitrary: p ys)
  case (Cons x xs)
  then show ?case by (cases ys) auto
qed (auto elim: chain.elims)

lemma ring_unique: "ring h head xs \<Longrightarrow> ring h head ys \<Longrightarrow> xs = ys"
  unfolding ring_def using chain_unique by auto

text \<open>What a write does to the two links of the nodes, and that it goes through where there is a node.\<close>

lemma set_next_Some:
  "h p \<noteq> None \<Longrightarrow> \<exists>h'. set_next h p q = Some h' \<and> get_next h' = (get_next h)(p \<mapsto> q) \<and> get_prev h' = get_prev h \<and> dom h' = dom h \<and>
     (\<forall>x. x \<noteq> p \<longrightarrow> h' x = h x)"
  by (intro exI [of _ "h(p \<mapsto> (the (h p))\<lparr>vl_next := q\<rparr>)"]) (auto simp: set_next_def get_next_def get_prev_def fun_eq_iff)

lemma set_prev_Some:
  "h p \<noteq> None \<Longrightarrow> \<exists>h'. set_prev h p q = Some h' \<and> get_prev h' = (get_prev h)(p \<mapsto> q) \<and> get_next h' = get_next h \<and> dom h' = dom h \<and>
     (\<forall>x. x \<noteq> p \<longrightarrow> h' x = h x)"
  by (intro exI [of _ "h(p \<mapsto> (the (h p))\<lparr>vl_prev := q\<rparr>)"]) (auto simp: set_prev_def get_next_def get_prev_def fun_eq_iff)

text \<open>Turning the last link of a chain to another node.\<close>

lemma chain_turn:
  assumes "chain h p xs e" "get_next h' (last (p # xs)) = Some q" "get_prev h' q = Some (last (p # xs))"
    "\<forall>x \<in> set (butlast (p # xs)). get_next h' x = get_next h x" "\<forall>x \<in> set xs. get_prev h' x = get_prev h x"
  shows "chain h' p xs q"
  using assms
proof (induction xs arbitrary: p)
  case (Cons x xs)
  then show ?case using Cons.IH [of x] by simp
qed simp

lemma butlast_last: "distinct (p # xs) \<Longrightarrow> last (p # xs) \<notin> set (butlast (p # xs))"
proof -
  assume "distinct (p # xs)"
  then have "distinct (butlast (p # xs) @ [last (p # xs)])" by (subst append_butlast_last_id) simp_all
  then show ?thesis by (simp only: distinct_append) auto
qed

subsection \<open>The operations on rings\<close>

lemma init_ring: "h p \<noteq> None \<Longrightarrow> \<exists>h'. vlist_init h p = Some h' \<and> ring h' p [] \<and> dom h' = dom h \<and> (\<forall>x. x \<noteq> p \<longrightarrow> h' x = h x)"
  by (auto simp: vlist_init_def set_next_def set_prev_def ring_def get_next_def get_prev_def)

lemma is_empty_ring: "ring h head xs \<Longrightarrow> vlist_is_empty h head = Some (xs = [])"
  by (cases xs) (auto simp add: ring_def vlist_is_empty_def)

theorem add_tail_ring:
  assumes "ring h head xs" "new \<notin> set (head # xs)" "h new \<noteq> None"
  shows "\<exists>h'. vlist_add_tail h head new = Some (new, h') \<and> ring h' head (xs @ [new]) \<and> dom h' = dom h \<and>
    (\<forall>x. x \<notin> set (head # new # xs) \<longrightarrow> h' x = h x)"
proof -
  let ?p = "last (head # xs)"
  have c: "chain h head xs head" and d: "distinct (head # xs)" using assms(1) by (simp_all add: ring_def)
  note ends = chain_ends [OF c]
  have pin: "?p \<in> set (head # xs)" by (rule last_in_set) simp
  have nodes: "h ?p \<noteq> None" "h head \<noteq> None" using chain_nodes [OF c] pin by auto
  obtain h1 where h1: "set_next h ?p new = Some h1" "get_next h1 = (get_next h)(?p \<mapsto> new)" "get_prev h1 = get_prev h" "dom h1 = dom h"
      "\<forall>x. x \<noteq> ?p \<longrightarrow> h1 x = h x" using set_next_Some [of h ?p new] nodes(1) by blast
  have n1: "h1 new \<noteq> None" using h1(4) assms(3) by blast
  obtain h2 where h2: "set_prev h1 new ?p = Some h2" "get_prev h2 = (get_prev h1)(new \<mapsto> ?p)" "get_next h2 = get_next h1" "dom h2 = dom h1"
      "\<forall>x. x \<noteq> new \<longrightarrow> h2 x = h1 x" using set_prev_Some [of h1 new ?p] n1 by blast
  have n2: "h2 new \<noteq> None" using h2(4) n1 by blast
  obtain h3 where h3: "set_next h2 new head = Some h3" "get_next h3 = (get_next h2)(new \<mapsto> head)" "get_prev h3 = get_prev h2" "dom h3 = dom h2"
      "\<forall>x. x \<noteq> new \<longrightarrow> h3 x = h2 x" using set_next_Some [of h2 new head] n2 by blast
  have n3: "h3 head \<noteq> None" using h3(4) h2(4) h1(4) nodes(2) by blast
  obtain h4 where h4: "set_prev h3 head new = Some h4" "get_prev h4 = (get_prev h3)(head \<mapsto> new)" "get_next h4 = get_next h3" "dom h4 = dom h3"
      "\<forall>x. x \<noteq> head \<longrightarrow> h4 x = h3 x" using set_prev_Some [of h3 head new] n3 by blast
  have nx: "get_next h4 = (get_next h)(?p \<mapsto> new, new \<mapsto> head)" and pv: "get_prev h4 = (get_prev h)(new \<mapsto> ?p, head \<mapsto> new)"
    by (simp_all add: h1 h2 h3 h4)
  have ne: "new \<noteq> ?p" "new \<noteq> head" using assms(2) pin by auto
  have "chain h4 head xs new"
  proof (rule chain_turn [OF c])
    show "get_next h4 ?p = Some new" using ne nx by simp
    show "get_prev h4 new = Some ?p" using ne pv by simp
    show "\<forall>x \<in> set (butlast (head # xs)). get_next h4 x = get_next h x"
      using butlast_last [OF d] assms(2) in_set_butlastD nx by fastforce
    show "\<forall>x \<in> set xs. get_prev h4 x = get_prev h x" using assms(2) d pv by auto
  qed
  moreover have "chain h4 new [] head" using nx pv by simp
  ultimately have "ring h4 head (xs @ [new])" using d assms(2) by (auto simp: ring_def)
  moreover have "vlist_add_tail h head new = Some (new, h4)"
    using ends h1 h2 h3 h4 by (simp add: vlist_add_tail_def)
  moreover have "h4 x = h x" if "x \<notin> set (head # new # xs)" for x
    using that pin h1(5) h2(5) h3(5) h4(5) by (metis insert_iff list.set(2))
  moreover have "dom h4 = dom h" using h1(4) h2(4) h3(4) h4(4) by simp
  ultimately show ?thesis by blast
qed

theorem del_ring:
  assumes "ring h head (xs @ e # ys)"
  shows "\<exists>h'. vlist_del h e = Some (e, h') \<and> ring h' head (xs @ ys) \<and> dom h' = dom h \<and>
    h' e = h e \<and> (\<forall>x. x \<notin> set (head # xs @ ys) \<longrightarrow> h' x = h x)"
proof -
  let ?p = "last (head # xs)" and ?n = "hd (ys @ [head])"
  have c: "chain h head xs e" "chain h e ys head" and d: "distinct (head # xs @ e # ys)" using assms by (simp_all add: ring_def)
  have pn: "get_prev h e = Some ?p" "get_next h e = Some ?n" using chain_ends [OF c(1)] chain_ends [OF c(2)] by simp_all
  have pin: "?p \<in> set (head # xs)" by (rule last_in_set) simp
  have nin: "?n \<in> set (head # ys)" by (cases ys) auto
  have ne: "?n \<noteq> e" "?p \<noteq> e" using pin nin d by auto
  have nodes: "h ?p \<noteq> None" "h ?n \<noteq> None" using chain_nodes [OF c(1), of ?p] chain_nodes [OF c(2), of ?n] pin nin by auto
  obtain h1 where h1: "set_prev h ?n ?p = Some h1" "get_prev h1 = (get_prev h)(?n \<mapsto> ?p)" "get_next h1 = get_next h" "dom h1 = dom h"
      "\<forall>x. x \<noteq> ?n \<longrightarrow> h1 x = h x" using set_prev_Some [of h ?n ?p] nodes(2) by blast
  have n1: "h1 ?p \<noteq> None" using h1(4) nodes(1) by blast
  obtain h2 where h2: "set_next h1 ?p ?n = Some h2" "get_next h2 = (get_next h1)(?p \<mapsto> ?n)" "get_prev h2 = get_prev h1" "dom h2 = dom h1"
      "\<forall>x. x \<noteq> ?p \<longrightarrow> h2 x = h1 x" using set_next_Some [of h1 ?p ?n] n1 by blast
  have nx: "get_next h2 = (get_next h)(?p \<mapsto> ?n)" and pv: "get_prev h2 = (get_prev h)(?n \<mapsto> ?p)" by (simp_all add: h1 h2)
  have "vlist_del h e = Some (e, h2)" using pn h1 h2 ne by (simp add: vlist_del_def)
  moreover have first: "chain h2 head xs ?n"
  proof (rule chain_turn [OF c(1)])
    show "get_next h2 ?p = Some ?n" "get_prev h2 ?n = Some ?p" using nx pv by simp_all
    have "distinct (head # xs)" using d by simp
    then show "\<forall>x \<in> set (butlast (head # xs)). get_next h2 x = get_next h x" using butlast_last nx by fastforce
    show "\<forall>x \<in> set xs. get_prev h2 x = get_prev h x" using d nin pv by auto
  qed
  have "chain h2 head (xs @ ys) head"
  proof (cases ys)
    case Nil
    then show ?thesis using first by simp
  next
    case (Cons n ys')
    have "chain h2 n ys' head"
    proof (rule chain_frame [THEN iffD2])
      show "chain h n ys' head" using c(2) Cons by simp
      show "\<forall>x \<in> set (n # ys'). get_next h2 x = get_next h x" using d Cons pin nx by auto
      show "\<forall>x \<in> set (head # ys'). get_prev h2 x = get_prev h x" using d Cons pv by auto
    qed
    then show ?thesis using first Cons by simp
  qed
  then have "ring h2 head (xs @ ys)" using d by (auto simp: ring_def)
  moreover have "h2 x = h x" if "x \<notin> set (head # xs @ ys)" for x
    using that pin nin h1(5) h2(5) by (metis Un_iff insert_iff list.set(2) set_append)
  moreover have "h2 e = h e" using ne h1(5) h2(5) by metis
  moreover have "dom h2 = dom h" using h1(4) h2(4) by simp
  ultimately show ?thesis by blast
qed

theorem pop_head_ring:
  assumes "ring h head xs"
  shows "case xs of
      [] \<Rightarrow> vlist_pop_head h head = Some (None, h)
    | x # ys \<Rightarrow> \<exists>h'. vlist_pop_head h head = Some (Some x, h') \<and> ring h' head ys \<and> dom h' = dom h \<and>
        (\<forall>y. y \<notin> set (head # ys) \<longrightarrow> h' y = h y)"
proof (cases xs)
  case Nil
  then show ?thesis using is_empty_ring [OF assms] by (simp add: vlist_pop_head_def)
next
  case (Cons x ys)
  have r: "ring h head ([] @ x # ys)" using assms Cons by simp
  obtain h' where h': "vlist_del h x = Some (x, h')" "ring h' head ys" "dom h' = dom h" "\<forall>y. y \<notin> set (head # ys) \<longrightarrow> h' y = h y"
    using del_ring [OF r] by auto
  have "get_next h head = Some x" using assms Cons by (simp add: ring_def)
  then show ?thesis using h' is_empty_ring [OF assms] Cons by (simp add: vlist_pop_head_def)
qed

subsection \<open>The loops\<close>

text \<open>On a ring they end, and see its objects in order.\<close>

lemma find_chain: "chain h p xs head \<Longrightarrow> head \<notin> set xs \<Longrightarrow> get_next h p = Some n \<Longrightarrow> find_loop h head condition n = Some (Done (find condition xs))"
proof (induction xs arbitrary: p n)
  case Nil
  then show ?case by (subst find_loop.simps) simp
next
  case (Cons x xs)
  obtain m where "get_next h x = Some m" using chain_ends [of h x xs head] Cons.prems(1) by auto
  then show ?case using Cons by (subst find_loop.simps) auto
qed

lemma find_node_ring: "ring h head xs \<Longrightarrow> vlist_find_node h head condition = Some (Done (find condition xs))"
  using find_chain [of h head xs head] chain_ends [of h head xs head] by (auto simp: ring_def vlist_find_node_def)

lemma travel_chain:
  "chain h p xs head \<Longrightarrow> head \<notin> set xs \<Longrightarrow> get_next h p = Some n \<Longrightarrow> travel_loop h head action n s = Some (Done (fold action xs s))"
proof (induction xs arbitrary: p n s)
  case Nil
  then show ?case by (subst travel_loop.simps) simp
next
  case (Cons x xs)
  obtain m where "get_next h x = Some m" using chain_ends [of h x xs head] Cons.prems(1) by auto
  then show ?case using Cons by (subst travel_loop.simps) auto
qed

lemma travel_node_ring: "ring h head xs \<Longrightarrow> vlist_travel_node h head action s = Some (Done (fold action xs s))"
  using travel_chain [of h head xs head _ action s] chain_ends [of h head xs head] by (auto simp: ring_def vlist_travel_node_def)

subsection \<open>A queue of objects\<close>

text \<open>Any number of objects added to an empty ring and popped come out in the order they were added.\<close>

fun enqueue_all :: "store \<Rightarrow> nat \<Rightarrow> nat list \<Rightarrow> store option" where
  "enqueue_all h head [] = Some h"
| "enqueue_all h head (x # xs) = do { (e, h) \<leftarrow> vlist_add_tail h head x; enqueue_all h head xs }"

fun dequeue_all :: "nat \<Rightarrow> store \<Rightarrow> nat \<Rightarrow> (nat option list \<times> store) option" where
  "dequeue_all 0 h head = Some ([], h)"
| "dequeue_all (Suc n) h head = do { (e, h) \<leftarrow> vlist_pop_head h head; (es, h) \<leftarrow> dequeue_all n h head; Some (e # es, h) }"

lemma enqueue_all_ring:
  "ring h head ys \<Longrightarrow> distinct (head # ys @ xs) \<Longrightarrow> set xs \<subseteq> dom h \<Longrightarrow>
   \<exists>h'. enqueue_all h head xs = Some h' \<and> ring h' head (ys @ xs) \<and> dom h' = dom h"
proof (induction xs arbitrary: h ys)
  case (Cons x xs)
  obtain h1 where h1: "vlist_add_tail h head x = Some (x, h1)" "ring h1 head (ys @ [x])" "dom h1 = dom h"
    using add_tail_ring [OF Cons.prems(1), of x] Cons.prems(2,3) by auto
  then show ?case using Cons.IH [OF h1(2)] Cons.prems(2,3) by auto
qed simp

lemma dequeue_all_ring: "ring h head xs \<Longrightarrow> \<exists>h'. dequeue_all (length xs) h head = Some (map Some xs, h') \<and> ring h' head []"
proof (induction xs arbitrary: h)
  case (Cons x xs)
  obtain h1 where h1: "vlist_pop_head h head = Some (Some x, h1)" "ring h1 head xs" using pop_head_ring [OF Cons.prems] by auto
  then show ?case using Cons.IH [OF h1(2)] by auto
qed simp

theorem added_then_popped:
  assumes "distinct (head # xs)" "set (head # xs) \<subseteq> dom h"
  shows "\<exists>h1 h2 h3. vlist_init h head = Some h1 \<and> enqueue_all h1 head xs = Some h2 \<and> dequeue_all (length xs) h2 head = Some (map Some xs, h3) \<and>
    vlist_is_empty h3 head = Some True"
proof -
  obtain h1 where h1: "vlist_init h head = Some h1" "ring h1 head []" "dom h1 = dom h" using init_ring [of h head] assms(2) by auto
  obtain h2 where h2: "enqueue_all h1 head xs = Some h2" "ring h2 head xs"
    using enqueue_all_ring [OF h1(2), of xs] assms h1(3) by auto
  then show ?thesis using h1(1) dequeue_all_ring [OF h2(2)] is_empty_ring by fastforce
qed

end
