(* ===== verification/VMem.thy ===== *)
theory VMem
  imports VPrelude
begin

section \<open>Object caches (utils/vmem.c)\<close>

text \<open>
  Every kind of object the daemon allocates (peers, services, tickets, messages, tree nodes of the decoder) comes from a cache
  of its own: zones of a fixed number of chunks, of which a zone is added when all are taken. A pointer to an object is the
  numbers of its zone and of its chunk in it; the zones are the list their ring of \<open>VList\<close> stands for. The size in bytes of a
  zone, a product of \<open>int\<close>s, is not computed: for the sizes of the daemon's objects it is far from overflowing.

  The locale \<open>object_pool\<close> is what the users of a cache rely on: allocation gives an object that is not in use, and freeing one
  that is makes it available again. \<open>cache\<close> interprets it on the code. The code does not notice when an object
  is freed twice; the last section shows what comes of it.
\<close>

subsection \<open>Zones of chunks\<close>

definition VMEM_FIRST_CAPC :: int where "VMEM_FIRST_CAPC = 4"

definition CHUNK_MAGIC :: u32 where "CHUNK_MAGIC = 0x87654312"

record vmem_chunk =
  ch_magic :: u32
  ch_taken :: int

record vmem_aux =
  ma_obj_sz :: int
  ma_used :: int
  ma_capc :: int
  ma_first :: int
  ma_zones :: "vmem_chunk list list"

type_synonym obj = "nat \<times> nat"

definition vmem_aux_init :: "vmem_aux \<Rightarrow> int \<Rightarrow> int \<Rightarrow> int \<times> vmem_aux" where
  "vmem_aux_init aux obj_sz first_capc =
     (if obj_sz < 0 then (-1, aux)
      else if first_capc < 0 then (-1, aux)
      else (0, aux\<lparr>ma_capc := 0, ma_used := 0, ma_first := if first_capc > 0 then first_capc else VMEM_FIRST_CAPC,
        ma_obj_sz := obj_sz, ma_zones := []\<rparr>))"

text \<open>The static caches are set up by a macro.\<close>

definition MEM_AUX_INIT :: "int \<Rightarrow> int \<Rightarrow> vmem_aux" where
  "MEM_AUX_INIT obj_sz first_capc =
     \<lparr>ma_obj_sz = obj_sz, ma_used = 0, ma_capc = 0, ma_first = if first_capc = 0 then VMEM_FIRST_CAPC else first_capc, ma_zones = []\<rparr>"

definition aux_extend :: "bool \<Rightarrow> vmem_aux \<Rightarrow> (int \<times> vmem_aux) option" where
  "aux_extend mem aux = do {
     vassert (ma_used aux \<ge> ma_capc aux);
     if \<not> mem then Some (-1, aux)
     else do {
       let zone = replicate (nat (ma_first aux)) \<lparr>ch_magic = CHUNK_MAGIC, ch_taken = 0\<rparr>;
       capc \<leftarrow> int_add (ma_capc aux) (ma_first aux);
       Some (0, aux\<lparr>ma_zones := ma_zones aux @ [zone], ma_capc := capc\<rparr>)
     }
   }"

text \<open>The loops over the zones and over the chunks of one.\<close>

fun free_chunk :: "nat \<Rightarrow> nat \<Rightarrow> vmem_chunk list \<Rightarrow> nat option option" where
  "free_chunk 0 i chunks = Some None"
| "free_chunk (Suc n) i chunks = do {
     c \<leftarrow> rd chunks i;
     if ch_taken c = 0 then Some (Some i) else free_chunk n (i + 1) chunks
   }"

fun free_obj :: "nat \<Rightarrow> nat \<Rightarrow> vmem_chunk list list \<Rightarrow> obj option option" where
  "free_obj first z [] = Some None"
| "free_obj first z (chunks # zones) = do {
     found \<leftarrow> free_chunk first 0 chunks;
     case found of None \<Rightarrow> free_obj first (z + 1) zones | Some i \<Rightarrow> Some (Some (z, i))
   }"

definition set_taken :: "vmem_chunk list list \<Rightarrow> obj \<Rightarrow> int \<Rightarrow> vmem_chunk list list" where
  "set_taken zones p v = zones[fst p := (zones ! fst p)[snd p := (zones ! fst p ! snd p)\<lparr>ch_taken := v\<rparr>]]"

definition vmem_aux_alloc :: "bool \<Rightarrow> vmem_aux \<Rightarrow> (obj option \<times> vmem_aux) option" where
  "vmem_aux_alloc mem aux = do {
     (ret, aux) \<leftarrow> (if ma_used aux \<ge> ma_capc aux then aux_extend mem aux else Some (0, aux));
     if ret < 0 then Some (None, aux)
     else do {
       found \<leftarrow> free_obj (nat (ma_first aux)) 0 (ma_zones aux);
       p \<leftarrow> found;
       used \<leftarrow> int_add (ma_used aux) 1;
       Some (Some p, aux\<lparr>ma_zones := set_taken (ma_zones aux) p 1, ma_used := used\<rparr>)
     }
   }"

text \<open>The assertion that the chunk is taken is an assignment, so it holds.\<close>

definition vmem_aux_free :: "vmem_aux \<Rightarrow> obj option \<Rightarrow> vmem_aux option" where
  "vmem_aux_free aux obj' =
     (case obj' of
        None \<Rightarrow> Some aux
      | Some p \<Rightarrow> do {
          zone \<leftarrow> rd (ma_zones aux) (fst p);
          chunk \<leftarrow> rd zone (snd p);
          vassert (ch_magic chunk = CHUNK_MAGIC);
          used \<leftarrow> int_add (ma_used aux) (-1);
          Some (aux\<lparr>ma_zones := set_taken (ma_zones aux) p 0, ma_used := used\<rparr>)
        })"

section \<open>The contract of a pool of objects\<close>

text \<open>A client that takes several objects, and one that gives them back.\<close>

fun get_many :: "('s \<Rightarrow> ('o option \<times> 's) option) \<Rightarrow> nat \<Rightarrow> 's \<Rightarrow> ('o option list \<times> 's) option" where
  "get_many get 0 s = Some ([], s)"
| "get_many get (Suc n) s = do { (p, s) \<leftarrow> get s; (ps, s) \<leftarrow> get_many get n s; Some (p # ps, s) }"

fun put_many :: "('s \<Rightarrow> 'o option \<Rightarrow> 's option) \<Rightarrow> 's \<Rightarrow> 'o list \<Rightarrow> 's option" where
  "put_many put s [] = Some s"
| "put_many put s (p # ps) = do { s \<leftarrow> put s (Some p); put_many put s ps }"

locale object_pool =
  fixes ok :: "'s \<Rightarrow> bool" and live :: "'s \<Rightarrow> 'o set" and room :: "nat \<Rightarrow> 's \<Rightarrow> bool"
    and get :: "'s \<Rightarrow> ('o option \<times> 's) option" and put :: "'s \<Rightarrow> 'o option \<Rightarrow> 's option"
  assumes get_new: "ok s \<Longrightarrow> room (Suc n) s \<Longrightarrow>
      \<exists>p s'. get s = Some (Some p, s') \<and> p \<notin> live s \<and> live s' = insert p (live s) \<and> ok s' \<and> room n s'"
    and put_live: "ok s \<Longrightarrow> p \<in> live s \<Longrightarrow> \<exists>s'. put s (Some p) = Some s' \<and> live s' = live s - {p} \<and> ok s' \<and> (room n s \<longrightarrow> room (Suc n) s')"
begin

lemma get_many_distinct:
  "ok s \<Longrightarrow> room n s \<Longrightarrow>
   \<exists>ps s'. get_many get n s = Some (map Some ps, s') \<and> length ps = n \<and> distinct ps \<and> set ps \<inter> live s = {} \<and> live s' = set ps \<union> live s \<and> ok s'"
proof (induction n arbitrary: s)
  case (Suc n)
  obtain p s1 where p: "get s = Some (Some p, s1)" "p \<notin> live s" "live s1 = insert p (live s)" "ok s1" "room n s1"
    using get_new [OF Suc.prems] by blast
  obtain ps s2 where ps: "get_many get n s1 = Some (map Some ps, s2)" "length ps = n" "distinct ps" "set ps \<inter> live s1 = {}"
      "live s2 = set ps \<union> live s1" "ok s2"
    using Suc.IH [OF p(4,5)] by blast
  show ?case by (rule exI [of _ "p # ps"], rule exI [of _ s2]) (use p ps in auto)
qed auto

lemma put_many_live:
  "ok s \<Longrightarrow> distinct ps \<Longrightarrow> set ps \<subseteq> live s \<Longrightarrow> \<exists>s'. put_many put s ps = Some s' \<and> live s' = live s - set ps \<and> ok s'"
proof (induction ps arbitrary: s)
  case (Cons p ps)
  obtain s1 where s1: "put s (Some p) = Some s1" "live s1 = live s - {p}" "ok s1" using put_live [of s p 0] Cons.prems by auto
  have "set ps \<subseteq> live s1" using Cons.prems(2,3) s1(2) by auto
  then obtain s' where "put_many put s1 ps = Some s'" "live s' = live s1 - set ps" "ok s'" using Cons.IH [OF s1(3)] Cons.prems(2) by auto
  then show ?case using s1 by auto
qed auto

theorem get_then_put:
  assumes "ok s" "room n s"
  shows "\<exists>ps s1 s2. get_many get n s = Some (map Some ps, s1) \<and> length ps = n \<and> distinct ps \<and> set ps \<inter> live s = {} \<and>
    put_many put s1 ps = Some s2 \<and> live s2 = live s \<and> ok s2"
proof -
  obtain ps s1 where ps: "get_many get n s = Some (map Some ps, s1)" "length ps = n" "distinct ps" "set ps \<inter> live s = {}"
      "live s1 = set ps \<union> live s" "ok s1"
    using get_many_distinct [OF assms] by blast
  then obtain s2 where "put_many put s1 ps = Some s2" "live s2 = live s1 - set ps" "ok s2" using put_many_live [of s1 ps] by auto
  then show ?thesis using ps by auto
qed

end

section \<open>The caches are pools\<close>

definition live_objs :: "vmem_chunk list list \<Rightarrow> obj set" where
  "live_objs zones = {(z, i). z < length zones \<and> i < length (zones ! z) \<and> ch_taken (zones ! z ! i) \<noteq> 0}"

definition live_of :: "vmem_aux \<Rightarrow> obj set" where
  "live_of aux = live_objs (ma_zones aux)"

definition zones_wf :: "nat \<Rightarrow> vmem_chunk list list \<Rightarrow> bool" where
  "zones_wf first zones \<longleftrightarrow> (\<forall>chunks \<in> set zones. length chunks = first \<and> (\<forall>c \<in> set chunks. ch_magic c = CHUNK_MAGIC))"

definition mem_wf :: "vmem_aux \<Rightarrow> bool" where
  "mem_wf aux \<longleftrightarrow> 0 < ma_first aux \<and> zones_wf (nat (ma_first aux)) (ma_zones aux) \<and>
     ma_capc aux = ma_first aux * int (length (ma_zones aux)) \<and> ma_used aux = int (card (live_of aux)) \<and> ma_used aux < 2 ^ 31"

text \<open>The counters, which are \<open>int\<close>s, can take \<open>n\<close> more objects.\<close>

definition mem_room :: "nat \<Rightarrow> vmem_aux \<Rightarrow> bool" where
  "mem_room n aux \<longleftrightarrow> ma_used aux + int n + ma_first aux < 2 ^ 31"

subsection \<open>Looking for a free chunk\<close>

lemma free_chunk_cases:
  "i + n = length chunks \<Longrightarrow>
   (\<exists>j < length chunks. free_chunk n i chunks = Some (Some j) \<and> ch_taken (chunks ! j) = 0) \<or>
   (free_chunk n i chunks = Some None \<and> (\<forall>j < length chunks. i \<le> j \<longrightarrow> ch_taken (chunks ! j) \<noteq> 0))"
proof (induction n arbitrary: i)
  case (Suc n)
  have r: "rd chunks i = Some (chunks ! i)" using Suc.prems by (simp add: rd_def)
  show ?case
  proof (cases "ch_taken (chunks ! i) = 0")
    case True
    then show ?thesis using r Suc.prems by simp
  next
    case False
    then have "i \<le> j \<longleftrightarrow> j = i \<or> i + 1 \<le> j" "ch_taken (chunks ! i) \<noteq> 0" for j by auto
    then show ?thesis using r Suc.IH [of "i + 1"] Suc.prems by auto
  qed
qed auto

lemma free_obj_cases:
  "\<forall>chunks \<in> set zones. length chunks = first \<Longrightarrow>
   (\<exists>k j. free_obj first z zones = Some (Some (z + k, j)) \<and> k < length zones \<and> j < first \<and> ch_taken (zones ! k ! j) = 0) \<or>
   (free_obj first z zones = Some None \<and> (\<forall>k < length zones. \<forall>j < first. ch_taken (zones ! k ! j) \<noteq> 0))"
proof (induction zones arbitrary: z)
  case (Cons chunks zones)
  have len: "length chunks = first" using Cons.prems by simp
  consider j where "j < first" "free_chunk first 0 chunks = Some (Some j)" "ch_taken (chunks ! j) = 0"
    | "free_chunk first 0 chunks = Some None" "\<forall>j < first. ch_taken (chunks ! j) \<noteq> 0"
    using free_chunk_cases [of 0 first chunks] len by auto
  then show ?case
  proof cases
    case (1 j)
    then show ?thesis by (intro disjI1 exI [of _ 0] exI [of _ j]) simp
  next
    case 2
    have "\<forall>chunks \<in> set zones. length chunks = first" using Cons.prems by simp
    from Cons.IH [OF this, of "z + 1"] show ?thesis
    proof
      assume "\<exists>k j. free_obj first (z + 1) zones = Some (Some (z + 1 + k, j)) \<and> k < length zones \<and> j < first \<and> ch_taken (zones ! k ! j) = 0"
      then obtain k j where "free_obj first (z + 1) zones = Some (Some (z + 1 + k, j))" "k < length zones" "j < first"
          "ch_taken (zones ! k ! j) = 0" by blast
      then show ?thesis using 2 by (intro disjI1 exI [of _ "Suc k"] exI [of _ j]) simp
    next
      assume n: "free_obj first (z + 1) zones = Some None \<and> (\<forall>k < length zones. \<forall>j < first. ch_taken (zones ! k ! j) \<noteq> 0)"
      have "\<forall>k < length (chunks # zones). \<forall>j < first. ch_taken ((chunks # zones) ! k ! j) \<noteq> 0"
        using 2(2) n by (auto simp: nth_Cons split: nat.split)
      then show ?thesis using 2(1) n by simp
    qed
  qed
qed simp

definition slots :: "vmem_aux \<Rightarrow> obj set" where
  "slots aux = {..<length (ma_zones aux)} \<times> {..<nat (ma_first aux)}"

lemma card_slots: "mem_wf aux \<Longrightarrow> int (card (slots aux)) = ma_capc aux"
  by (simp add: slots_def mem_wf_def)

lemma live_slots: "mem_wf aux \<Longrightarrow> live_of aux \<subseteq> slots aux"
  by (auto simp: live_of_def live_objs_def slots_def mem_wf_def zones_wf_def)

lemma slots_finite [simp]: "finite (slots aux)"
  by (simp add: slots_def)

lemma used_le_capc: "mem_wf aux \<Longrightarrow> ma_used aux \<le> ma_capc aux"
  using card_slots card_mono [OF slots_finite live_slots] by (fastforce simp: mem_wf_def)

lemma slot_nth: "mem_wf aux \<Longrightarrow> (z, i) \<in> slots aux \<longleftrightarrow> z < length (ma_zones aux) \<and> i < length (ma_zones aux ! z)"
  by (auto simp: slots_def mem_wf_def zones_wf_def)

lemma free_obj_live:
  assumes "mem_wf aux"
  shows "if live_of aux = slots aux then free_obj (nat (ma_first aux)) 0 (ma_zones aux) = Some None
    else \<exists>p \<in> slots aux - live_of aux. free_obj (nat (ma_first aux)) 0 (ma_zones aux) = Some (Some p)"
proof -
  have len: "\<forall>chunks \<in> set (ma_zones aux). length chunks = nat (ma_first aux)" using assms by (simp add: mem_wf_def zones_wf_def)
  have l: "(k, j) \<in> live_of aux \<longleftrightarrow> ch_taken (ma_zones aux ! k ! j) \<noteq> 0" if "(k, j) \<in> slots aux" for k j
    using that slot_nth [OF assms] by (simp add: live_of_def live_objs_def)
  show ?thesis
  proof (rule disjE [OF free_obj_cases [OF len, of 0]])
    assume "\<exists>k j. free_obj (nat (ma_first aux)) 0 (ma_zones aux) = Some (Some (0 + k, j)) \<and> k < length (ma_zones aux) \<and>
      j < nat (ma_first aux) \<and> ch_taken (ma_zones aux ! k ! j) = 0"
    then obtain k j where kj: "free_obj (nat (ma_first aux)) 0 (ma_zones aux) = Some (Some (k, j))" "(k, j) \<in> slots aux"
        "ch_taken (ma_zones aux ! k ! j) = 0" by (auto simp: slots_def)
    then show ?thesis using l [OF kj(2)] by auto
  next
    assume a: "free_obj (nat (ma_first aux)) 0 (ma_zones aux) = Some None \<and>
      (\<forall>k < length (ma_zones aux). \<forall>j < nat (ma_first aux). ch_taken (ma_zones aux ! k ! j) \<noteq> 0)"
    then have "slots aux \<subseteq> live_of aux" using l by (auto simp: slots_def)
    then show ?thesis using a live_slots [OF assms] by auto
  qed
qed

subsection \<open>Taking and freeing a chunk\<close>

lemma live_set_taken:
  assumes "(z, i) \<in> slots aux" "mem_wf aux"
  shows "live_objs (set_taken (ma_zones aux) (z, i) v) = (if v = 0 then live_of aux - {(z, i)} else insert (z, i) (live_of aux))"
  using slot_nth [OF assms(2), of z i] assms(1)
  by (auto simp: live_objs_def live_of_def set_taken_def nth_list_update split: if_splits)

lemma set_taken_wf:
  assumes "mem_wf aux" "(z, i) \<in> slots aux"
  shows "zones_wf (nat (ma_first aux)) (set_taken (ma_zones aux) (z, i) v)" "length (set_taken (ma_zones aux) (z, i) v) = length (ma_zones aux)"
proof -
  have z: "z < length (ma_zones aux)" "i < length (ma_zones aux ! z)" using slot_nth [OF assms(1), of z i] assms(2) by auto
  then have "ma_zones aux ! z \<in> set (ma_zones aux)" "ma_zones aux ! z ! i \<in> set (ma_zones aux ! z)" by simp_all
  then have "ch_magic (ma_zones aux ! z ! i) = CHUNK_MAGIC" "length (ma_zones aux ! z) = nat (ma_first aux)"
      "\<forall>c \<in> set (ma_zones aux ! z). ch_magic c = CHUNK_MAGIC" "zones_wf (nat (ma_first aux)) (ma_zones aux)"
    using assms(1) unfolding mem_wf_def zones_wf_def by blast+
  then show "zones_wf (nat (ma_first aux)) (set_taken (ma_zones aux) (z, i) v)"
    by (auto simp: zones_wf_def set_taken_def dest!: set_update_subset_insert [THEN subsetD])
qed (simp add: set_taken_def)

lemma extend_ok:
  assumes "mem_wf aux" "ma_used aux = ma_capc aux" "mem_room (Suc n) aux"
  shows "\<exists>aux'. aux_extend True aux = Some (0, aux') \<and> mem_wf aux' \<and> live_of aux' = live_of aux \<and> ma_used aux' = ma_used aux \<and>
    ma_first aux' = ma_first aux \<and> ma_used aux' < ma_capc aux'"
proof -
  let ?zone = "replicate (nat (ma_first aux)) \<lparr>ch_magic = CHUNK_MAGIC, ch_taken = 0\<rparr>"
  have live: "live_objs (ma_zones aux @ [?zone]) = live_of aux"
    by (auto simp: live_objs_def live_of_def nth_append less_Suc_eq split: if_splits)
  have "0 \<le> ma_capc aux" "0 < ma_first aux" using assms(1) by (simp_all add: mem_wf_def)
  then have "int_add (ma_capc aux) (ma_first aux) = Some (ma_capc aux + ma_first aux)"
    using assms(2,3) by (intro int_add_ok) (simp add: int32_ok_def mem_room_def)
  then show ?thesis
    using assms(1,2) live by (auto simp: aux_extend_def mem_wf_def zones_wf_def live_of_def algebra_simps)
qed

lemma alloc_found:
  assumes "free_obj (nat (ma_first aux)) 0 (ma_zones aux) = Some (Some p)" "ma_used aux < ma_capc aux" "int32_ok (ma_used aux + 1)"
  shows "vmem_aux_alloc mem aux = Some (Some p, aux\<lparr>ma_zones := set_taken (ma_zones aux) p 1, ma_used := ma_used aux + 1\<rparr>)"
  using assms by (simp add: vmem_aux_alloc_def)

lemma alloc_free_chunk:
  assumes "mem_wf aux" "ma_used aux < ma_capc aux" "mem_room (Suc n) aux"
  shows "\<exists>p aux'. vmem_aux_alloc mem aux = Some (Some p, aux') \<and> p \<notin> live_of aux \<and> live_of aux' = insert p (live_of aux) \<and>
    mem_wf aux' \<and> mem_room n aux'"
proof -
  have "live_of aux \<noteq> slots aux" using assms(2) card_slots [OF assms(1)] assms(1) by (auto simp: mem_wf_def)
  then obtain p where p: "p \<in> slots aux" "p \<notin> live_of aux" "free_obj (nat (ma_first aux)) 0 (ma_zones aux) = Some (Some p)"
    using free_obj_live [OF assms(1)] by auto
  obtain z i where zi: "p = (z, i)" by (cases p)
  let ?aux = "aux\<lparr>ma_zones := set_taken (ma_zones aux) p 1, ma_used := ma_used aux + 1\<rparr>"
  have "0 \<le> ma_used aux" "0 < ma_first aux" using assms(1) by (simp_all add: mem_wf_def)
  then have "int32_ok (ma_used aux + 1)" using assms(3) by (simp add: int32_ok_def mem_room_def)
  note alloc_found [OF p(3) assms(2) this]
  moreover have live: "live_of ?aux = insert p (live_of aux)"
    using live_set_taken [OF _ assms(1), of z i 1] p(1) by (simp add: zi live_of_def)
  moreover have "mem_wf ?aux"
  proof -
    have "finite (live_of aux)" using finite_subset [OF live_slots [OF assms(1)]] by simp
    then have "int (card (live_of ?aux)) = ma_used aux + 1" using p(2) assms(1) unfolding live by (simp add: mem_wf_def)
    then show ?thesis using set_taken_wf [OF assms(1), of z i 1] p(1) assms(1,3) by (simp add: mem_wf_def zi mem_room_def)
  qed
  moreover have "mem_room n ?aux" using assms(3) by (simp add: mem_room_def)
  ultimately show ?thesis using p(2) by blast
qed

lemma alloc_ok:
  assumes "mem_wf aux" "mem_room (Suc n) aux"
  shows "\<exists>p aux'. vmem_aux_alloc True aux = Some (Some p, aux') \<and> p \<notin> live_of aux \<and> live_of aux' = insert p (live_of aux) \<and>
    mem_wf aux' \<and> mem_room n aux'"
proof (cases "ma_used aux < ma_capc aux")
  case True
  then show ?thesis using alloc_free_chunk assms by blast
next
  case False
  then have full: "ma_used aux = ma_capc aux" using used_le_capc [OF assms(1)] by simp
  obtain aux1 where e: "aux_extend True aux = Some (0, aux1)" "mem_wf aux1" "live_of aux1 = live_of aux" "ma_used aux1 = ma_used aux"
      "ma_first aux1 = ma_first aux" "ma_used aux1 < ma_capc aux1"
    using extend_ok [OF assms(1) full assms(2)] by blast
  have "mem_room (Suc n) aux1" using e(4,5) assms(2) by (simp add: mem_room_def)
  moreover have "vmem_aux_alloc True aux = vmem_aux_alloc True aux1" using full e(1,6) by (simp add: vmem_aux_alloc_def)
  ultimately show ?thesis using alloc_free_chunk [OF e(2,6)] e(3) by metis
qed

lemma free_slot:
  assumes "mem_wf aux" "p \<in> slots aux" "int32_ok (ma_used aux - 1)"
  shows "vmem_aux_free aux (Some p) = Some (aux\<lparr>ma_zones := set_taken (ma_zones aux) p 0, ma_used := ma_used aux - 1\<rparr>)"
proof -
  obtain z i where zi: "p = (z, i)" by (cases p)
  have n: "z < length (ma_zones aux)" "i < length (ma_zones aux ! z)" using slot_nth [OF assms(1), of z i] assms(2) zi by auto
  then have "ma_zones aux ! z \<in> set (ma_zones aux)" "ma_zones aux ! z ! i \<in> set (ma_zones aux ! z)" by simp_all
  then have "ch_magic (ma_zones aux ! z ! i) = CHUNK_MAGIC" using assms(1) unfolding mem_wf_def zones_wf_def by blast
  moreover have "int_add (ma_used aux) (-1) = Some (ma_used aux - 1)" using assms(3) by (simp add: int_add_def)
  ultimately show ?thesis using n by (simp add: vmem_aux_free_def zi rd_def)
qed

lemma free_ok:
  assumes "mem_wf aux" "p \<in> live_of aux"
  shows "\<exists>aux'. vmem_aux_free aux (Some p) = Some aux' \<and> live_of aux' = live_of aux - {p} \<and> mem_wf aux' \<and>
    (mem_room n aux \<longrightarrow> mem_room (Suc n) aux')"
proof -
  obtain z i where zi: "p = (z, i)" by (cases p)
  let ?aux = "aux\<lparr>ma_zones := set_taken (ma_zones aux) p 0, ma_used := ma_used aux - 1\<rparr>"
  have p: "p \<in> slots aux" using live_slots [OF assms(1)] assms(2) by blast
  have fin: "finite (live_of aux)" using finite_subset [OF live_slots [OF assms(1)]] by simp
  then have "0 < card (live_of aux)" using assms(2) by (auto simp: card_gt_0_iff)
  then have c: "int (card (live_of aux - {p})) = ma_used aux - 1" "0 < ma_used aux" "ma_used aux < 2 ^ 31"
    using assms fin by (auto simp: mem_wf_def card_Diff_singleton_if)
  have "vmem_aux_free aux (Some p) = Some ?aux"
    using free_slot [OF assms(1) p] c by (simp add: int32_ok_def)
  moreover have live: "live_of ?aux = live_of aux - {p}"
    using live_set_taken [OF _ assms(1), of z i 0] p by (simp add: zi live_of_def)
  moreover have "mem_wf ?aux"
    using set_taken_wf [OF assms(1), of z i 0] p assms(1) c(1) unfolding mem_wf_def live by (simp add: zi)
  moreover have "mem_room n aux \<longrightarrow> mem_room (Suc n) ?aux" by (simp add: mem_room_def)
  ultimately show ?thesis by blast
qed

interpretation cache: object_pool mem_wf live_of mem_room "vmem_aux_alloc True" vmem_aux_free
  by unfold_locales (use alloc_ok free_ok in blast)+

text \<open>A cache as it is set up has no objects.\<close>

lemma init_wf:
  assumes "0 \<le> first_capc" "first_capc < 2 ^ 31"
  shows "mem_wf (MEM_AUX_INIT obj_sz first_capc)" "live_of (MEM_AUX_INIT obj_sz first_capc) = {}"
  using assms by (auto simp: mem_wf_def MEM_AUX_INIT_def live_of_def live_objs_def zones_wf_def VMEM_FIRST_CAPC_def)

lemma init_is_macro: "0 \<le> obj_sz \<Longrightarrow> 0 \<le> first_capc \<Longrightarrow> vmem_aux_init aux obj_sz first_capc = (0, MEM_AUX_INIT obj_sz first_capc)"
  by (simp add: vmem_aux_init_def MEM_AUX_INIT_def)

text \<open>Without memory for a new zone \<open>NULL\<close> is returned and nothing changes.\<close>

lemma alloc_no_memory: "ma_used aux = ma_capc aux \<Longrightarrow> vmem_aux_alloc False aux = Some (None, aux)"
  by (simp add: vmem_aux_alloc_def aux_extend_def)

subsection \<open>Freeing an object twice\<close>

text \<open>The counter is then one too low, and when all chunks are taken the next allocation does not add a zone.\<close>

lemma alloc_counter_low:
  assumes "mem_wf aux" "live_of aux = slots aux" "k < ma_capc aux"
  shows "vmem_aux_alloc mem (aux\<lparr>ma_used := k\<rparr>) = None"
  using free_obj_live [OF assms(1)] assms(2,3) by (simp add: vmem_aux_alloc_def)

lemma free_again:
  assumes "mem_wf aux" "p \<in> slots aux" "p \<notin> live_of aux"
  shows "vmem_aux_free aux (Some p) = Some (aux\<lparr>ma_used := ma_used aux - 1\<rparr>)"
proof -
  obtain z i where zi: "p = (z, i)" by (cases p)
  have n: "z < length (ma_zones aux)" "i < length (ma_zones aux ! z)" using slot_nth [OF assms(1), of z i] assms(2) zi by auto
  then have "(ma_zones aux ! z ! i)\<lparr>ch_taken := 0\<rparr> = ma_zones aux ! z ! i" using assms(3) by (simp add: zi live_of_def live_objs_def)
  then have "set_taken (ma_zones aux) p 0 = ma_zones aux" using n by (simp add: set_taken_def zi)
  moreover have "0 \<le> ma_used aux" "ma_used aux < 2 ^ 31" using assms(1) by (simp_all add: mem_wf_def)
  ultimately show ?thesis using free_slot [OF assms(1,2)] by (simp add: int32_ok_def)
qed

theorem double_free_crash:
  assumes "mem_wf aux" "live_of aux = slots aux" "p \<in> live_of aux" "mem_room 1 aux"
  shows "\<exists>aux1 aux2 aux3. vmem_aux_free aux (Some p) = Some aux1 \<and> vmem_aux_free aux1 (Some p) = Some aux2 \<and>
    vmem_aux_alloc True aux2 = Some (Some p, aux3) \<and> vmem_aux_alloc True aux3 = None"
proof -
  obtain aux1 where f: "vmem_aux_free aux (Some p) = Some aux1" "live_of aux1 = live_of aux - {p}" "mem_wf aux1"
    using free_ok [OF assms(1,3)] by blast
  have p: "p \<in> slots aux" using assms(2,3) by blast
  have aux1: "aux1 = aux\<lparr>ma_zones := set_taken (ma_zones aux) p 0, ma_used := ma_used aux - 1\<rparr>"
    using free_slot [OF assms(1) p] f(1) assms(1) by (simp add: vmem_aux_free_def int_add_def mem_wf_def split: Option.bind_splits if_splits)
  obtain z i where zi: "p = (z, i)" by (cases p)
  have sl: "slots aux1 = slots aux" by (simp add: slots_def aux1 set_taken_def)
  have full: "ma_used aux = ma_capc aux" using card_slots [OF assms(1)] assms(1,2) by (simp add: mem_wf_def)
  have low: "ma_used aux1 < ma_capc aux1" "mem_room (Suc 1) aux1" using full assms(4) by (simp_all add: aux1 mem_room_def)
  have bound: "0 \<le> ma_used aux1" "ma_used aux1 < 2 ^ 31" "0 < ma_first aux1" using f(3) by (simp_all add: mem_wf_def)
  have "live_of aux1 \<noteq> slots aux1" "slots aux1 - live_of aux1 = {p}" using f(2) assms(2) p sl by auto
  then have fo: "free_obj (nat (ma_first aux1)) 0 (ma_zones aux1) = Some (Some p)" using free_obj_live [OF f(3)] by auto
  let ?aux2 = "aux1\<lparr>ma_used := ma_used aux1 - 1\<rparr>"
  let ?aux4 = "aux1\<lparr>ma_zones := set_taken (ma_zones aux1) p 1, ma_used := ma_used aux1 + 1\<rparr>"
  have two: "vmem_aux_free aux1 (Some p) = Some ?aux2" by (rule free_again [OF f(3)]) (use p sl f(2) in auto)
  have a2: "vmem_aux_alloc True ?aux2 = Some (Some p, ?aux4\<lparr>ma_used := ma_used aux1\<rparr>)"
    using alloc_found [of ?aux2 p] fo low bound by (simp add: int32_ok_def)
  have "int32_ok (ma_used aux1 + 1)" using low bound by (simp add: int32_ok_def mem_room_def)
  note a1 = alloc_found [OF fo low(1) this, of True]
  have wf4: "mem_wf ?aux4" "live_of ?aux4 = insert p (live_of aux1)"
    using alloc_free_chunk [OF f(3) low, of True] a1 by auto
  have "slots ?aux4 = slots aux" by (simp add: slots_def aux1 set_taken_def)
  then have "live_of ?aux4 = slots ?aux4" using wf4(2) f(2) assms(2) p by auto
  then have "vmem_aux_alloc True (?aux4\<lparr>ma_used := ma_used aux1\<rparr>) = None" by (rule alloc_counter_low [OF wf4(1)]) (use low in simp)
  then show ?thesis using f(1) two a2 by blast
qed

end
