(* ===== verification/HashGen.thy ===== *)
theory HashGen
  imports LsctlC
begin

section \<open>Service hashes (lsctl/vhashgen.c)\<close>

text \<open>
  Services are announced and looked up by a hash of a magic text, with or without a cookie. The generator is
  written after SHA-1 of FIPS 180; its context takes a message byte by byte, hashes each full block of 64, and pads the
  last. The result is compared with a reference that pads the whole message, cuts it into blocks and folds the
  compression over them. The third of the four round functions is not the standard's; the reference is stated for
  the one of the code.
\<close>

subsection \<open>The compression\<close>

definition sha1_circular_shift :: "nat \<Rightarrow> u32 \<Rightarrow> u32" where
  "sha1_circular_shift bits w = (push_bit bits w AND 0xFFFFFFFF) OR drop_bit (32 - bits) w"

type_synonym regs = "u32 \<times> u32 \<times> u32 \<times> u32 \<times> u32"

definition sha1_step :: "(u32 \<Rightarrow> u32 \<Rightarrow> u32 \<Rightarrow> u32) \<Rightarrow> u32 \<Rightarrow> u32 \<Rightarrow> regs \<Rightarrow> regs" where
  "sha1_step f k w r = (let (a, b, c, d, e) = r in
     ((sha1_circular_shift 5 a + f b c d + e + w + k) AND 0xFFFFFFFF, a, sha1_circular_shift 30 b, c, d))"

definition f_ch :: "u32 \<Rightarrow> u32 \<Rightarrow> u32 \<Rightarrow> u32" where
  "f_ch b c d = (b AND c) OR (NOT b AND d)"

definition f_parity :: "u32 \<Rightarrow> u32 \<Rightarrow> u32 \<Rightarrow> u32" where
  "f_parity b c d = b XOR c XOR d"

definition f_third :: "u32 \<Rightarrow> u32 \<Rightarrow> u32 \<Rightarrow> u32" where
  "f_third b c d = (b AND c) OR (b AND c) OR (c AND d)"

text \<open>The words of a block, most significant byte first, and the schedule of 80 words.\<close>

definition block_words :: "bytes \<Rightarrow> u32 list" where
  "block_words buf = map (\<lambda>i. push_bit 24 (ucast (buf ! (i * 4))) OR push_bit 16 (ucast (buf ! (i * 4 + 1))) OR
     push_bit 8 (ucast (buf ! (i * 4 + 2))) OR ucast (buf ! (i * 4 + 3))) [0..<16]"

fun schedule :: "nat \<Rightarrow> nat \<Rightarrow> u32 list \<Rightarrow> u32 list" where
  "schedule 0 i seq' = seq'"
| "schedule (Suc n) i seq' =
     schedule n (i + 1) (seq' @ [sha1_circular_shift 1 (seq' ! (i - 3) XOR seq' ! (i - 14) XOR seq' ! (i - 16))])"

definition compress :: "(u32 \<Rightarrow> u32 \<Rightarrow> u32 \<Rightarrow> u32) \<Rightarrow> regs \<Rightarrow> bytes \<Rightarrow> regs" where
  "compress f digest msgbuf = (let
     seq' = schedule 64 16 (block_words msgbuf);
     r = digest;
     r = fold (sha1_step f_ch 0x5A827999) (take 20 seq') r;
     r = fold (sha1_step f_parity 0x6ED9EBA1) (take 20 (drop 20 seq')) r;
     r = fold (sha1_step f 0x8F1BBCDC) (take 20 (drop 40 seq')) r;
     r = fold (sha1_step f_parity 0xCA62C1D6) (take 20 (drop 60 seq')) r;
     (a, b, c, d, e) = r;
     (h0, h1, h2, h3, h4) = digest
   in ((h0 + a) AND 0xFFFFFFFF, (h1 + b) AND 0xFFFFFFFF, (h2 + c) AND 0xFFFFFFFF, (h3 + d) AND 0xFFFFFFFF, (h4 + e) AND 0xFFFFFFFF))"

subsection \<open>The context\<close>

record vhashgen_ctxt_sha1 =
  sc_digest :: regs
  sc_len_low :: int
  sc_len_high :: int
  sc_msgbuf :: bytes
  sc_cursor :: nat
  sc_oops :: bool
  sc_done :: bool

definition vhashgen_init :: vhashgen_ctxt_sha1 where
  "vhashgen_init = \<lparr>sc_digest = (0, 0, 0, 0, 0), sc_len_low = 0, sc_len_high = 0, sc_msgbuf = replicate 64 0, sc_cursor = 0,
     sc_oops = False, sc_done = False\<rparr>"

definition aux_sha1_digest_msgbuf :: "vhashgen_ctxt_sha1 \<Rightarrow> vhashgen_ctxt_sha1" where
  "aux_sha1_digest_msgbuf ctxt = ctxt\<lparr>sc_digest := compress f_third (sc_digest ctxt) (sc_msgbuf ctxt), sc_cursor := 0\<rparr>"

definition put_byte :: "vhashgen_ctxt_sha1 \<Rightarrow> byte \<Rightarrow> vhashgen_ctxt_sha1 option" where
  "put_byte ctxt b = do {
     buf \<leftarrow> wr (sc_msgbuf ctxt) (sc_cursor ctxt) b;
     Some (ctxt\<lparr>sc_msgbuf := buf, sc_cursor := sc_cursor ctxt + 1\<rparr>)
   }"

text \<open>Zeros up to a limit: \<open>n\<close> is how many are missing.\<close>

fun put_zeros :: "nat \<Rightarrow> vhashgen_ctxt_sha1 \<Rightarrow> vhashgen_ctxt_sha1 option" where
  "put_zeros 0 ctxt = Some ctxt"
| "put_zeros (Suc n) ctxt = do { ctxt \<leftarrow> put_byte ctxt 0; put_zeros n ctxt }"

definition len_byte :: "int \<Rightarrow> nat \<Rightarrow> byte" where
  "len_byte len k = word_of_int (drop_bit k len AND 0xFF)"

definition aux_sha1_padding_msgbuf :: "vhashgen_ctxt_sha1 \<Rightarrow> vhashgen_ctxt_sha1 option" where
  "aux_sha1_padding_msgbuf ctxt = do {
     ctxt \<leftarrow> (if sc_cursor ctxt > 55 then do {
         ctxt \<leftarrow> put_byte ctxt 0x80;
         ctxt \<leftarrow> put_zeros (64 - sc_cursor ctxt) ctxt;
         let ctxt = aux_sha1_digest_msgbuf ctxt;
         put_zeros (56 - sc_cursor ctxt) ctxt
       }
       else do {
         ctxt \<leftarrow> put_byte ctxt 0x80;
         put_zeros (56 - sc_cursor ctxt) ctxt
       });
     let buf = sc_msgbuf ctxt;
     vassert (length buf = 64);
     let buf = take 56 buf @ map (len_byte (sc_len_high ctxt)) [24, 16, 8, 0] @ map (len_byte (sc_len_low ctxt)) [24, 16, 8, 0];
     Some (aux_sha1_digest_msgbuf (ctxt\<lparr>sc_msgbuf := buf\<rparr>))
   }"

text \<open>The cursor is not reset; it is 0 whenever a result has been taken.\<close>

definition vhashgen_sha1_reset :: "vhashgen_ctxt_sha1 \<Rightarrow> vhashgen_ctxt_sha1" where
  "vhashgen_sha1_reset ctxt = ctxt\<lparr>sc_len_low := 0, sc_len_high := 0,
     sc_digest := (0x67452301, 0xEFCDAB89, 0x98BADCFE, 0x10325476, 0xC3D2E1F0), sc_done := False, sc_oops := False\<rparr>"

text \<open>The length in bits is counted in two \<open>int\<close>s, of which the lower one overflows before it is carried.\<close>

fun input_loop :: "nat \<Rightarrow> bytes \<Rightarrow> vhashgen_ctxt_sha1 \<Rightarrow> vhashgen_ctxt_sha1 option" where
  "input_loop 0 msg ctxt = Some ctxt"
| "input_loop (Suc n) msg ctxt =
     (if sc_oops ctxt then Some ctxt
      else do {
        b \<leftarrow> rd msg 0;
        ctxt \<leftarrow> put_byte ctxt b;
        low \<leftarrow> int_add (sc_len_low ctxt) 8;
        let ctxt = ctxt\<lparr>sc_len_low := low\<rparr>;
        ctxt \<leftarrow> (if low = 0 then do {
            high \<leftarrow> int_add (sc_len_high ctxt) 1;
            Some (ctxt\<lparr>sc_len_high := high, sc_oops := high = 0\<rparr>)
          } else Some ctxt);
        input_loop n (drop 1 msg) (if sc_cursor ctxt = 64 then aux_sha1_digest_msgbuf ctxt else ctxt)
      })"

text \<open>The macro \<open>vassert\<close> of this library makes of the assertion on the length that it is not 0.\<close>

definition vhashgen_sha1_input :: "vhashgen_ctxt_sha1 \<Rightarrow> bytes \<Rightarrow> int \<Rightarrow> vhashgen_ctxt_sha1 option" where
  "vhashgen_sha1_input ctxt msg len = do {
     vassert_pos len;
     if len \<le> 0 then Some (ctxt\<lparr>sc_oops := True\<rparr>)
     else if sc_done ctxt \<or> sc_oops ctxt then Some (ctxt\<lparr>sc_oops := True\<rparr>)
     else input_loop (nat len) msg ctxt
   }"

text \<open>The five words are stored as the machine stores words.\<close>

definition vhashgen_sha1_result :: "vhashgen_ctxt_sha1 \<Rightarrow> vsrvcHash \<Rightarrow> (int \<times> vsrvcHash \<times> vhashgen_ctxt_sha1) option" where
  "vhashgen_sha1_result ctxt hash =
     (if sc_oops ctxt then Some (-1, hash, ctxt)
      else do {
        ctxt \<leftarrow> (if \<not> sc_done ctxt then do {
            ctxt \<leftarrow> aux_sha1_padding_msgbuf ctxt;
            Some (ctxt\<lparr>sc_done := True\<rparr>)
          } else Some ctxt);
        let (h0, h1, h2, h3, h4) = sc_digest ctxt;
        Some (0, le32 h0 @ le32 h1 @ le32 h2 @ le32 h3 @ le32 h4, ctxt)
      })"

definition vhashgen_hash :: "vhashgen_ctxt_sha1 \<Rightarrow> bytes \<Rightarrow> int \<Rightarrow> vsrvcHash \<Rightarrow> (int \<times> vsrvcHash \<times> vhashgen_ctxt_sha1) option" where
  "vhashgen_hash gen msg len hash = do {
     vassert_pos len;
     gen \<leftarrow> vhashgen_sha1_input (vhashgen_sha1_reset gen) msg len;
     vhashgen_sha1_result gen hash
   }"

definition vhashgen_hash_with_cookie ::
  "vhashgen_ctxt_sha1 \<Rightarrow> bytes \<Rightarrow> int \<Rightarrow> bytes \<Rightarrow> int \<Rightarrow> vsrvcHash \<Rightarrow> (int \<times> vsrvcHash \<times> vhashgen_ctxt_sha1) option" where
  "vhashgen_hash_with_cookie gen content len cookie cookie_len hash = do {
     vassert_pos len;
     vassert_pos cookie_len;
     gen \<leftarrow> vhashgen_sha1_input (vhashgen_sha1_reset gen) content len;
     gen \<leftarrow> vhashgen_sha1_input gen cookie cookie_len;
     vhashgen_sha1_result gen hash
   }"

subsection \<open>The calls of the client library (lsctl/vdhtapi.c)\<close>

definition VSRVC_MAGIC_LEN :: int where "VSRVC_MAGIC_LEN = 128"

definition vdhtc_hash :: "bool \<Rightarrow> bytes option \<Rightarrow> int \<Rightarrow> vsrvcHash option \<Rightarrow> (int \<times> vsrvcHash option) option" where
  "vdhtc_hash mem magic len hash =
     (case (magic, hash) of
        (Some magic, Some h) \<Rightarrow>
          if len \<noteq> VSRVC_MAGIC_LEN then Some (-1, hash)
          else if \<not> mem then Some (-1, hash)
          else do {
            (ret, h, gen) \<leftarrow> vhashgen_hash vhashgen_init magic len h;
            Some (if ret < 0 then -1 else 0, Some h)
          }
      | _ \<Rightarrow> Some (-1, hash))"

definition vdhtc_hash_with_cookie ::
  "bool \<Rightarrow> bytes option \<Rightarrow> int \<Rightarrow> bytes option \<Rightarrow> int \<Rightarrow> vsrvcHash option \<Rightarrow> (int \<times> vsrvcHash option) option" where
  "vdhtc_hash_with_cookie mem magic len cookie cookie_len hash =
     (case (magic, cookie, hash) of
        (Some magic, Some cookie, Some h) \<Rightarrow>
          if len \<noteq> VSRVC_MAGIC_LEN \<or> cookie_len \<le> 0 then Some (-1, hash)
          else if \<not> mem then Some (-1, hash)
          else do {
            (ret, h, gen) \<leftarrow> vhashgen_hash_with_cookie vhashgen_init magic len cookie cookie_len h;
            Some (if ret < 0 then -1 else 0, Some h)
          }
      | _ \<Rightarrow> Some (-1, hash))"

section \<open>The whole message at once\<close>

text \<open>The reference: the message with its padding, in blocks.\<close>

function sha_blocks :: "bytes \<Rightarrow> bytes list" where
  "sha_blocks m = (if length m < 64 then [] else take 64 m # sha_blocks (drop 64 m))"
  by auto
termination
  by (relation "measure length") auto

declare sha_blocks.simps [simp del]

definition sha_pad :: "bytes \<Rightarrow> bytes" where
  "sha_pad m = m @ 0x80 # replicate ((119 - length m mod 64) mod 64) 0 @
     map (\<lambda>k. word_of_nat (drop_bit k (8 * length m))) [56, 48, 40, 32, 24, 16, 8, 0]"

definition sha_init :: regs where
  "sha_init = (0x67452301, 0xEFCDAB89, 0x98BADCFE, 0x10325476, 0xC3D2E1F0)"

definition store_regs :: "regs \<Rightarrow> bytes" where
  "store_regs r = (let (h0, h1, h2, h3, h4) = r in le32 h0 @ le32 h1 @ le32 h2 @ le32 h3 @ le32 h4)"

definition sha_hash :: "bytes \<Rightarrow> vsrvcHash" where
  "sha_hash m = store_regs (foldl (compress f_third) sha_init (sha_blocks (sha_pad m)))"

lemma sha_blocks_short: "length r < 64 \<Longrightarrow> sha_blocks r = []"
  by (simp add: sha_blocks.simps)

lemma sha_blocks_Cons: "length b = 64 \<Longrightarrow> sha_blocks (b @ m) = b # sha_blocks m"
  by (simp add: sha_blocks.simps [of "b @ m"])

lemma sha_blocks_concat: "\<forall>b \<in> set bs. length b = 64 \<Longrightarrow> sha_blocks (concat bs @ m) = bs @ sha_blocks m"
  by (induction bs) (auto simp: sha_blocks_Cons)

lemma length_concat_blocks: "\<forall>b \<in> set bs. length b = 64 \<Longrightarrow> length (concat bs) = 64 * length bs"
  by (induction bs) auto

section \<open>Taking a message byte by byte\<close>

text \<open>The context has hashed the blocks \<open>bs\<close> and holds the bytes \<open>r\<close> of the next.\<close>

definition absorbed :: "bytes list \<Rightarrow> bytes \<Rightarrow> vhashgen_ctxt_sha1 \<Rightarrow> bool" where
  "absorbed bs r ctxt \<longleftrightarrow> (\<forall>b \<in> set bs. length b = 64) \<and> length r < 64 \<and> length (sc_msgbuf ctxt) = 64 \<and> sc_cursor ctxt = length r \<and>
     take (length r) (sc_msgbuf ctxt) = r \<and> sc_digest ctxt = foldl (compress f_third) sha_init bs \<and>
     sc_len_low ctxt = 8 * int (64 * length bs + length r) \<and> sc_len_high ctxt = 0 \<and> \<not> sc_oops ctxt \<and> \<not> sc_done ctxt"

text \<open>A context that is ready: new, or after a result was taken.\<close>

definition gen_ready :: "vhashgen_ctxt_sha1 \<Rightarrow> bool" where
  "gen_ready ctxt \<longleftrightarrow> length (sc_msgbuf ctxt) = 64 \<and> sc_cursor ctxt = 0"

lemma init_ready: "gen_ready vhashgen_init"
  by (simp add: gen_ready_def vhashgen_init_def)

lemma reset_absorbed: "gen_ready ctxt \<Longrightarrow> absorbed [] [] (vhashgen_sha1_reset ctxt)"
  by (simp add: gen_ready_def absorbed_def vhashgen_sha1_reset_def sha_init_def)

lemma put_byte_spec:
  assumes "length (sc_msgbuf ctxt) = 64" "sc_cursor ctxt = length r" "take (length r) (sc_msgbuf ctxt) = r" "length r < 64"
  shows "\<exists>buf. put_byte ctxt b = Some (ctxt\<lparr>sc_msgbuf := buf, sc_cursor := length (r @ [b])\<rparr>) \<and> length buf = 64 \<and>
    take (length (r @ [b])) buf = r @ [b]"
  using assms by (auto simp: put_byte_def take_Suc_conv_app_nth)

text \<open>One turn of the loop.\<close>

lemma input_step:
  assumes "absorbed bs r ctxt" "8 * int (64 * length bs + length r + 1) < 2 ^ 31"
  shows "\<exists>bs' r' ctxt'. input_loop (Suc n) (b # msg) ctxt = input_loop n msg ctxt' \<and> absorbed bs' r' ctxt' \<and>
    concat bs' @ r' = concat bs @ r @ [b]"
proof -
  note a = assms(1) [unfolded absorbed_def]
  obtain buf where buf: "put_byte ctxt b = Some (ctxt\<lparr>sc_msgbuf := buf, sc_cursor := length (r @ [b])\<rparr>)" "length buf = 64"
      "take (length (r @ [b])) buf = r @ [b]"
    using put_byte_spec [of ctxt r b] a by blast
  let ?ctxt = "ctxt\<lparr>sc_msgbuf := buf, sc_cursor := length (r @ [b]), sc_len_low := sc_len_low ctxt + 8\<rparr>"
  have low: "int_add (sc_len_low ctxt) 8 = Some (sc_len_low ctxt + 8)" "sc_len_low ctxt + 8 \<noteq> 0"
    using a assms(2) by (auto simp: int_add_def int32_ok_def)
  let ?next = "if length (r @ [b]) = 64 then aux_sha1_digest_msgbuf ?ctxt else ?ctxt"
  have step: "input_loop (Suc n) (b # msg) ctxt = input_loop n msg ?next"
    using a buf(1) low by (simp add: rd_def)
  show ?thesis
  proof (cases "length (r @ [b]) = 64")
    case True
    then have "buf = r @ [b]" using buf(2,3) by simp
    then have "absorbed (bs @ [r @ [b]]) [] ?next"
      using a True buf(2) by (simp add: absorbed_def aux_sha1_digest_msgbuf_def)
    then show ?thesis using step by (intro exI [of _ "bs @ [r @ [b]]"] exI [of _ "[]"] exI [of _ ?next]) simp
  next
    case False
    then have "absorbed bs (r @ [b]) ?next" using a buf(2,3) by (simp add: absorbed_def)
    then show ?thesis using step by (intro exI [of _ bs] exI [of _ "r @ [b]"] exI [of _ ?next]) simp
  qed
qed

lemma input_loop_absorbs:
  "absorbed bs r ctxt \<Longrightarrow> 8 * int (length (concat bs @ r @ msg)) < 2 ^ 31 \<Longrightarrow>
   \<exists>bs' r' ctxt'. input_loop (length msg) msg ctxt = Some ctxt' \<and> absorbed bs' r' ctxt' \<and> concat bs' @ r' = concat bs @ r @ msg"
proof (induction msg arbitrary: bs r ctxt)
  case (Cons b msg)
  have "\<forall>b \<in> set bs. length b = 64" using Cons.prems(1) by (simp add: absorbed_def)
  then have "length (concat bs) = 64 * length bs" by (rule length_concat_blocks)
  then have "8 * int (64 * length bs + length r + 1) < 2 ^ 31" using Cons.prems(2) by simp
  from input_step [OF Cons.prems(1) this, of "length msg" b msg] obtain bs1 r1 ctxt1 where
      s: "input_loop (Suc (length msg)) (b # msg) ctxt = input_loop (length msg) msg ctxt1" "absorbed bs1 r1 ctxt1"
      "concat bs1 @ r1 = concat bs @ r @ [b]" by blast
  have e: "concat bs1 @ r1 @ msg = concat bs @ r @ b # msg" using s(3) by (metis append.assoc append_Cons append_Nil)
  have "8 * int (length (concat bs1 @ r1 @ msg)) < 2 ^ 31" using Cons.prems(2) unfolding e .
  from Cons.IH [OF s(2) this] show ?case unfolding length_Cons s(1) e .
qed auto

lemma input_absorbs:
  assumes "absorbed bs r ctxt" "msg \<noteq> []" "8 * int (length (concat bs @ r @ msg)) < 2 ^ 31"
  shows "\<exists>bs' r' ctxt'. vhashgen_sha1_input ctxt msg (int (length msg)) = Some ctxt' \<and> absorbed bs' r' ctxt' \<and>
    concat bs' @ r' = concat bs @ r @ msg"
  using input_loop_absorbs [OF assms(1,3)] assms(1,2) by (auto simp: vhashgen_sha1_input_def absorbed_def)

section \<open>The result\<close>

lemma put_zeros_spec:
  assumes "length (sc_msgbuf ctxt) = 64" "sc_cursor ctxt = length r" "take (length r) (sc_msgbuf ctxt) = r" "length r + n \<le> 64"
  shows "\<exists>buf. put_zeros n ctxt = Some (ctxt\<lparr>sc_msgbuf := buf, sc_cursor := length r + n\<rparr>) \<and> length buf = 64 \<and>
    take (length r + n) buf = r @ replicate n 0"
  using assms
proof (induction n arbitrary: ctxt r)
  case 0
  then show ?case by (intro exI [of _ "sc_msgbuf ctxt"]) simp
next
  case (Suc n)
  obtain buf where buf: "put_byte ctxt 0 = Some (ctxt\<lparr>sc_msgbuf := buf, sc_cursor := length (r @ [0])\<rparr>)" "length buf = 64"
      "take (length (r @ [0])) buf = r @ [0]"
    using put_byte_spec [of ctxt r 0] Suc.prems by auto
  obtain buf' where "put_zeros n (ctxt\<lparr>sc_msgbuf := buf, sc_cursor := length (r @ [0])\<rparr>) =
      Some (ctxt\<lparr>sc_msgbuf := buf', sc_cursor := length r + Suc n\<rparr>)" "length buf' = 64" "take (length r + Suc n) buf' = (r @ [0]) @ replicate n 0"
    using Suc.IH [of "ctxt\<lparr>sc_msgbuf := buf, sc_cursor := length (r @ [0])\<rparr>" "r @ [0]"] buf Suc.prems by auto
  then show ?case using buf by (intro exI [of _ buf']) simp
qed

lemma len_byte_nat: "len_byte (int n) k = word_of_nat (drop_bit k n)"
proof -
  have "len_byte (int n) k = word_of_int (take_bit 8 (int (drop_bit k n)))"
    by (simp add: len_byte_def take_bit_eq_mask mask_eq_exp_minus_1 drop_bit_of_nat flip: of_nat_drop_bit)
  also have "\<dots> = word_of_int (int (drop_bit k n))" by (simp only: word_of_int_eq_iff) simp
  finally show ?thesis by simp
qed

lemma len_byte_0: "len_byte 0 k = 0"
  by (simp add: len_byte_def)

definition len_bytes :: "nat \<Rightarrow> bytes" where
  "len_bytes n = map (\<lambda>k. word_of_nat (drop_bit k n)) [56, 48, 40, 32, 24, 16, 8, 0]"

lemma len_bytes_eq:
  assumes "n < 2 ^ 31"
  shows "map (len_byte 0) [24, 16, 8, 0] @ map (len_byte (int n)) [24, 16, 8, 0] = len_bytes n"
proof -
  have "drop_bit k n = 0" if "31 \<le> k" for k
  proof -
    have "(2 :: nat) ^ 31 \<le> 2 ^ k" using that by (intro power_increasing) auto
    then show ?thesis using assms by (simp add: drop_bit_eq_div)
  qed
  then show ?thesis by (simp add: len_bytes_def len_byte_nat len_byte_0)
qed

lemma pad_mod: "k \<le> 55 \<Longrightarrow> (119 - k) mod 64 = 55 - k" "55 < k \<Longrightarrow> k < 64 \<Longrightarrow> (119 - k) mod 64 = (63 - k) + 56" for k :: nat
proof -
  show "(119 - k) mod 64 = 55 - k" if "k \<le> 55"
  proof -
    have "119 - k = (55 - k) + 64" using that by simp
    then have "(119 - k) mod 64 = (55 - k) mod 64" by (simp only: mod_add_self2)
    then show ?thesis by simp
  qed
qed simp

lemma pad_short: "length m mod 64 \<le> 55 \<Longrightarrow> sha_pad m = m @ 0x80 # replicate (55 - length m mod 64) 0 @ len_bytes (8 * length m)"
  by (simp add: sha_pad_def len_bytes_def pad_mod(1))

lemma pad_long: "55 < length m mod 64 \<Longrightarrow>
    sha_pad m = m @ 0x80 # replicate (63 - length m mod 64) 0 @ replicate 56 0 @ len_bytes (8 * length m)"
proof -
  assume long: "55 < length m mod 64"
  have "(119 - length m mod 64) mod 64 = (63 - length m mod 64) + 56" by (rule pad_mod(2) [OF long]) simp
  then show ?thesis unfolding sha_pad_def len_bytes_def by (simp only: replicate_add) simp
qed

text \<open>The last block, once it is filled up to its length.\<close>

lemma length_bytes_8 [simp]: "length (len_bytes n) = 8"
  by (simp add: len_bytes_def)

lemma padding_spec:
  assumes "absorbed bs r ctxt" "8 * int (length (concat bs @ r)) < 2 ^ 31"
  shows "\<exists>ctxt'. aux_sha1_padding_msgbuf ctxt = Some ctxt' \<and> gen_ready ctxt' \<and> sc_oops ctxt' = sc_oops ctxt \<and>
    sc_digest ctxt' = foldl (compress f_third) sha_init (sha_blocks (sha_pad (concat bs @ r)))"
proof -
  note a = assms(1) [unfolded absorbed_def]
  let ?m = "concat bs @ r" and ?n = "8 * length (concat bs @ r)"
  have bs: "\<forall>b \<in> set bs. length b = 64" using a by blast
  have len: "length ?m = 64 * length bs + length r" using length_concat_blocks [OF bs] by simp
  have md: "length ?m mod 64 = length r" using a unfolding len by simp
  have tail: "map (len_byte (sc_len_high ctxt)) [24, 16, 8, 0] @ map (len_byte (sc_len_low ctxt)) [24, 16, 8, 0] = len_bytes ?n"
  proof -
    have "sc_len_low ctxt = int ?n" using a len by simp
    moreover have "sc_len_high ctxt = 0" "?n < 2 ^ 31" using a assms(2) by auto
    ultimately show ?thesis using len_bytes_eq [of ?n] by metis
  qed
  obtain buf where buf: "put_byte ctxt 0x80 = Some (ctxt\<lparr>sc_msgbuf := buf, sc_cursor := length (r @ [0x80])\<rparr>)" "length buf = 64"
      "take (length (r @ [0x80])) buf = r @ [0x80]"
    using put_byte_spec [of ctxt r "0x80"] a by blast
  let ?c1 = "ctxt\<lparr>sc_msgbuf := buf, sc_cursor := length (r @ [0x80])\<rparr>"
  show ?thesis
  proof (cases "length r > 55")
    case False
    obtain buf2 where buf2: "put_zeros (55 - length r) ?c1 = Some (?c1\<lparr>sc_msgbuf := buf2, sc_cursor := 56\<rparr>)" "length buf2 = 64"
        "take 56 buf2 = (r @ [0x80]) @ replicate (55 - length r) 0"
      using put_zeros_spec [of ?c1 "r @ [0x80]" "55 - length r"] buf False by auto
    let ?block = "r @ 0x80 # replicate (55 - length r) 0 @ len_bytes ?n"
    have "sha_pad ?m = concat bs @ ?block @ []" using pad_short [of ?m] md False by simp
    moreover have "length ?block = 64" using False by simp
    ultimately have "sha_blocks (sha_pad ?m) = bs @ [?block]"
      by (simp only: sha_blocks_concat [OF bs] sha_blocks_Cons) (simp add: sha_blocks_short)
    moreover have "aux_sha1_padding_msgbuf ctxt =
        Some (aux_sha1_digest_msgbuf (?c1\<lparr>sc_cursor := 56, sc_msgbuf := ?block\<rparr>))"
      using a False buf buf2 tail by (simp add: aux_sha1_padding_msgbuf_def)
    ultimately show ?thesis using a \<open>length ?block = 64\<close> by (simp add: aux_sha1_digest_msgbuf_def gen_ready_def)
  next
    case True
    have lr: "length r < 64" using a by simp
    obtain buf2 where buf2: "put_zeros (63 - length r) ?c1 = Some (?c1\<lparr>sc_msgbuf := buf2, sc_cursor := 64\<rparr>)" "length buf2 = 64"
        "take 64 buf2 = (r @ [0x80]) @ replicate (63 - length r) 0"
      using put_zeros_spec [of ?c1 "r @ [0x80]" "63 - length r"] buf lr by auto
    let ?b1 = "r @ 0x80 # replicate (63 - length r) 0" and ?b2 = "replicate 56 0 @ len_bytes ?n"
    have b1: "buf2 = ?b1" using buf2(2,3) by simp
    let ?c2 = "aux_sha1_digest_msgbuf (?c1\<lparr>sc_msgbuf := buf2, sc_cursor := 64\<rparr>)"
    have c2: "length (sc_msgbuf ?c2) = 64" "sc_cursor ?c2 = length ([] :: bytes)" "sc_len_low ?c2 = sc_len_low ctxt"
        "sc_len_high ?c2 = sc_len_high ctxt" "sc_oops ?c2 = sc_oops ctxt"
        "sc_digest ?c2 = foldl (compress f_third) sha_init (bs @ [?b1])"
      using a buf2(2) b1 by (simp_all add: aux_sha1_digest_msgbuf_def)
    obtain buf3 where buf3: "put_zeros 56 ?c2 = Some (?c2\<lparr>sc_msgbuf := buf3, sc_cursor := 56\<rparr>)" "length buf3 = 64"
        "take 56 buf3 = replicate 56 0"
      using put_zeros_spec [of ?c2 "[]" 56] c2 by auto
    have l: "length ?b1 = 64" "length ?b2 = 64" using lr by simp_all
    have "sha_pad ?m = concat bs @ ?b1 @ ?b2 @ []" using pad_long [of ?m] md True by simp
    then have blocks: "sha_blocks (sha_pad ?m) = bs @ [?b1, ?b2]"
      by (simp only: sha_blocks_concat [OF bs] sha_blocks_Cons [OF l(1)] sha_blocks_Cons [OF l(2)]) (simp add: sha_blocks_short)
    have "aux_sha1_padding_msgbuf ctxt = Some (aux_sha1_digest_msgbuf (?c2\<lparr>sc_cursor := 56, sc_msgbuf := ?b2\<rparr>))"
      using a True buf buf2(1) buf3 tail c2 by (simp add: aux_sha1_padding_msgbuf_def)
    then show ?thesis
      unfolding blocks using c2 l(2) by (simp add: aux_sha1_digest_msgbuf_def gen_ready_def)
  qed
qed

text \<open>A hash is the reference's of the message, and the generator can be used again.\<close>

lemma result_spec:
  assumes "absorbed bs r ctxt" "8 * int (length (concat bs @ r)) < 2 ^ 31"
  shows "\<exists>ctxt'. vhashgen_sha1_result ctxt hash = Some (0, sha_hash (concat bs @ r), ctxt') \<and> gen_ready ctxt'"
proof -
  obtain c where c: "aux_sha1_padding_msgbuf ctxt = Some c" "gen_ready c"
      "sc_digest c = foldl (compress f_third) sha_init (sha_blocks (sha_pad (concat bs @ r)))"
    using padding_spec [OF assms] by blast
  have "\<not> sc_oops ctxt" "\<not> sc_done ctxt" using assms(1) by (simp_all add: absorbed_def)
  then show ?thesis
    using c by (simp add: vhashgen_sha1_result_def sha_hash_def store_regs_def gen_ready_def split: prod.split)
qed

theorem hash_spec:
  assumes "gen_ready gen" "msg \<noteq> []" "8 * int (length msg) < 2 ^ 31"
  shows "\<exists>gen'. vhashgen_hash gen msg (int (length msg)) old = Some (0, sha_hash msg, gen') \<and> gen_ready gen'"
proof -
  obtain bs r c where c: "vhashgen_sha1_input (vhashgen_sha1_reset gen) msg (int (length msg)) = Some c" "absorbed bs r c" "concat bs @ r = msg"
    using input_absorbs [OF reset_absorbed [OF assms(1)] assms(2)] assms(3) by auto
  then show ?thesis using result_spec [OF c(2)] assms(2,3) by (auto simp: vhashgen_hash_def)
qed

text \<open>Content and cookie are hashed as one message.\<close>

theorem hash_with_cookie_spec:
  assumes "gen_ready gen" "content \<noteq> []" "cookie \<noteq> []" "8 * int (length (content @ cookie)) < 2 ^ 31"
  shows "\<exists>gen'. vhashgen_hash_with_cookie gen content (int (length content)) cookie (int (length cookie)) old =
    Some (0, sha_hash (content @ cookie), gen') \<and> gen_ready gen'"
proof -
  have l: "8 * int (length (concat [] @ [] @ content)) < 2 ^ 31" using assms(4) by simp
  obtain bs r c where c: "vhashgen_sha1_input (vhashgen_sha1_reset gen) content (int (length content)) = Some c" "absorbed bs r c"
      "concat bs @ r = content"
    using input_absorbs [OF reset_absorbed [OF assms(1)] assms(2) l] by auto
  have e: "concat bs @ r @ cookie = content @ cookie" using c(3) by (metis append.assoc)
  obtain bs' r' c' where c': "vhashgen_sha1_input c cookie (int (length cookie)) = Some c'" "absorbed bs' r' c'"
      "concat bs' @ r' = content @ cookie"
    using input_absorbs [OF c(2) assms(3)] assms(4) unfolding e by auto
  then show ?thesis using result_spec [OF c'(2)] c(1) assms(2-4) by (auto simp: vhashgen_hash_with_cookie_def)
qed

corollary vdhtc_hash_spec:
  assumes "length magic = 128"
  shows "vdhtc_hash True (Some magic) 128 (Some old) = Some (0, Some (sha_hash magic))"
proof -
  have "magic \<noteq> []" using assms by auto
  then show ?thesis using hash_spec [OF init_ready, of magic old] assms by (auto simp: vdhtc_hash_def VSRVC_MAGIC_LEN_def)
qed

corollary vdhtc_hash_with_cookie_spec:
  assumes "length magic = 128" "cookie \<noteq> []" "length cookie < 2 ^ 28 - 128"
  shows "vdhtc_hash_with_cookie True (Some magic) 128 (Some cookie) (int (length cookie)) (Some old) = Some (0, Some (sha_hash (magic @ cookie)))"
proof -
  have "magic \<noteq> []" using assms by auto
  then show ?thesis
    using hash_with_cookie_spec [OF init_ready, of magic cookie old] assms by (auto simp: vdhtc_hash_with_cookie_def VSRVC_MAGIC_LEN_def)
qed

lemma length_sha_hash: "tok_wf (sha_hash m)"
  by (simp add: sha_hash_def store_regs_def tok_wf_def VTOKEN_LEN_def split: prod.split)

subsection \<open>Against the standard\<close>

text \<open>
  FIPS 180 has the majority of three bits in the third round function and four words in the schedule; the code has another function and
  leaves out the word eight places back.
\<close>

definition f_maj :: "u32 \<Rightarrow> u32 \<Rightarrow> u32 \<Rightarrow> u32" where
  "f_maj b c d = (b AND c) OR (b AND d) OR (c AND d)"

lemma f_third_maj: "f_third b c d = f_maj b c d \<longleftrightarrow> b AND d AND NOT c = 0"
  by (auto simp: f_third_def f_maj_def bit_eq_iff bit_simps)

lemma schedule_word_16:
  "length ws = 16 \<Longrightarrow> schedule 1 16 ws = ws @ [sha1_circular_shift 1 (ws ! 13 XOR ws ! 2 XOR ws ! 0)]"
  by simp

text \<open>Calls with a length of 0 crash, and with a negative one fail.\<close>

lemma hash_bad_length: "vhashgen_hash gen msg 0 old = None" "len < 0 \<Longrightarrow> \<exists>gen'. vhashgen_hash gen msg len old = Some (-1, old, gen')"
  by (simp_all add: vhashgen_hash_def vhashgen_sha1_input_def vhashgen_sha1_result_def vhashgen_sha1_reset_def)

end
