(* ===== verification/HashMap.thy ===== *)
theory HashMap
  imports VPrelude
begin

section \<open>Hash maps (utils/vhashmap.c)\<close>

text \<open>
  A map is an array of buckets, a bucket the list of the values of its items. No other part of the program uses it. The array
  is allocated by the first addition and its slots, pointers to buckets, are never set: a slot that is not set is \<open>None\<close>, and
  following it crashes. The callbacks are arguments; the one that frees a value works on a state \<open>'s\<close>. The keys are of type \<open>'k\<close>.
\<close>

subsection \<open>State\<close>

record 'v vhashmap =
  hm_capc :: int
  hm_mask :: int
  hm_used :: int
  hm_buckets :: "'v list option list option"

text \<open>\<open>ret <<= 1\<close> on an \<open>int\<close>: with no shift left the next one overflows.\<close>

fun power_loop :: "nat \<Rightarrow> int \<Rightarrow> int \<Rightarrow> int option" where
  "power_loop 0 u ret = (if ret < u then None else Some ret)"
| "power_loop (Suc n) u ret = (if ret < u then power_loop n u (push_bit 1 ret) else Some ret)"

definition aux_power_of_2 :: "int \<Rightarrow> int option" where
  "aux_power_of_2 u = power_loop 30 u 1"

definition vhashmap_init :: "int \<Rightarrow> 'v vhashmap option" where
  "vhashmap_init capc = do {
     vassert (capc > 0);
     p \<leftarrow> aux_power_of_2 capc;
     Some \<lparr>hm_capc = p, hm_mask = p - 1, hm_used = 0, hm_buckets = None\<rparr>
   }"

definition vhashmap_size :: "'v vhashmap \<Rightarrow> int" where
  "vhashmap_size hm = hm_used hm"

subsection \<open>Operations\<close>

definition bucket_of :: "'v list option list \<Rightarrow> nat \<Rightarrow> 'v list option" where
  "bucket_of bs i = do { b \<leftarrow> rd bs i; b }"

definition hash_slot :: "('k \<Rightarrow> int) \<Rightarrow> 'v vhashmap \<Rightarrow> 'k \<Rightarrow> nat" where
  "hash_slot hash_cb hm key = nat (hash_cb key AND hm_mask hm)"

definition vhashmap_get :: "('k \<Rightarrow> int) \<Rightarrow> ('k \<Rightarrow> 'v \<Rightarrow> bool) \<Rightarrow> 'v vhashmap \<Rightarrow> 'k \<Rightarrow> 'v option option" where
  "vhashmap_get hash_cb cmp_cb hm key =
     (case hm_buckets hm of
        None \<Rightarrow> Some None
      | Some bs \<Rightarrow> do {
          vals \<leftarrow> bucket_of bs (hash_slot hash_cb hm key);
          Some (map_option (\<lambda>j. vals ! j) (find_idx (cmp_cb key) vals))
        })"

text \<open>\<open>mem\<close> says whether the item can be allocated, \<open>room\<close> whether the array can; it has the space of twice as many pointers.\<close>

definition vhashmap_add ::
  "('k \<Rightarrow> int) \<Rightarrow> ('k \<Rightarrow> 'v \<Rightarrow> bool) \<Rightarrow> ('v \<Rightarrow> 's \<Rightarrow> 's) \<Rightarrow> bool \<Rightarrow> bool \<Rightarrow> 'v vhashmap \<Rightarrow> 'k \<Rightarrow> 'v \<Rightarrow> 's \<Rightarrow>
     (int \<times> 'v vhashmap \<times> 's) option" where
  "vhashmap_add hash_cb cmp_cb free_cb room mem hm key val s =
     (let hm = (if hm_buckets hm = None \<and> room then hm\<lparr>hm_buckets := Some (replicate (2 * nat (hm_capc hm)) None)\<rparr> else hm) in
      case hm_buckets hm of
        None \<Rightarrow> Some (-1, hm, s)
      | Some bs \<Rightarrow> do {
          let i = hash_slot hash_cb hm key;
          vals \<leftarrow> bucket_of bs i;
          case find_idx (cmp_cb key) vals of
            Some j \<Rightarrow> Some (0, hm\<lparr>hm_buckets := Some (bs[i := Some (vals[j := val])])\<rparr>, free_cb (vals ! j) s)
          | None \<Rightarrow>
              if \<not> mem then Some (-1, hm, s)
              else Some (0, hm\<lparr>hm_buckets := Some (bs[i := Some (vals @ [val])]), hm_used := hm_used hm + 1\<rparr>, s)
        })"

definition vhashmap_del :: "('k \<Rightarrow> int) \<Rightarrow> ('k \<Rightarrow> 'v \<Rightarrow> bool) \<Rightarrow> 'v vhashmap \<Rightarrow> 'k \<Rightarrow> ('v option \<times> 'v vhashmap) option" where
  "vhashmap_del hash_cb cmp_cb hm key =
     (case hm_buckets hm of
        None \<Rightarrow> Some (None, hm)
      | Some bs \<Rightarrow> do {
          let i = hash_slot hash_cb hm key;
          vals \<leftarrow> bucket_of bs i;
          case find_idx (cmp_cb key) vals of
            None \<Rightarrow> Some (None, hm)
          | Some j \<Rightarrow> Some (Some (vals ! j), hm\<lparr>hm_buckets := Some (bs[i := Some (list_del j vals)]), hm_used := hm_used hm - 1\<rparr>)
        })"

text \<open>The inner loop is left at the value, the outer one is not: a bucket that is not empty and does not have the value sets \<open>item\<close> to \<open>NULL\<close> again.\<close>

fun del_by_value_loop :: "nat \<Rightarrow> 'v list option list \<Rightarrow> nat \<Rightarrow> 'v \<Rightarrow> bool \<Rightarrow> (nat \<times> nat) option \<Rightarrow> (bool \<times> (nat \<times> nat) option) option" where
  "del_by_value_loop 0 bs i val found item = Some (found, item)"
| "del_by_value_loop (Suc n) bs i val found item = do {
     vals \<leftarrow> bucket_of bs i;
     case find_idx (\<lambda>v. v = val) vals of
       Some j \<Rightarrow> del_by_value_loop n bs (i + 1) val True (Some (i, j))
     | None \<Rightarrow> del_by_value_loop n bs (i + 1) val found (if vals = [] then item else None)
   }"

definition vhashmap_del_by_value :: "'v vhashmap \<Rightarrow> 'v \<Rightarrow> ('v option \<times> 'v vhashmap) option" where
  "vhashmap_del_by_value hm val =
     (case hm_buckets hm of
        None \<Rightarrow> Some (None, hm)
      | Some bs \<Rightarrow> do {
          (found, item) \<leftarrow> del_by_value_loop (nat (hm_capc hm)) bs 0 val False None;
          if \<not> found then Some (None, hm)
          else do {
            (i, j) \<leftarrow> item;
            vals \<leftarrow> bucket_of bs i;
            Some (Some val, hm\<lparr>hm_buckets := Some (bs[i := Some (list_del j vals)]), hm_used := hm_used hm - 1\<rparr>)
          }
        })"

fun zero_loop :: "('v \<Rightarrow> 's \<Rightarrow> 's) \<Rightarrow> nat \<Rightarrow> nat \<Rightarrow> 'v list option list \<Rightarrow> int \<Rightarrow> 's \<Rightarrow> ('v list option list \<times> int \<times> 's) option" where
  "zero_loop free_cb 0 i bs used s = Some (bs, used, s)"
| "zero_loop free_cb (Suc n) i bs used s = do {
     vals \<leftarrow> bucket_of bs i;
     zero_loop free_cb n (i + 1) (bs[i := Some []]) (used - int (length vals)) (fold free_cb vals s)
   }"

definition vhashmap_zero :: "('v \<Rightarrow> 's \<Rightarrow> 's) \<Rightarrow> 'v vhashmap \<Rightarrow> 's \<Rightarrow> ('v vhashmap \<times> 's) option" where
  "vhashmap_zero free_cb hm s =
     (case hm_buckets hm of
        None \<Rightarrow> Some (hm, s)
      | Some bs \<Rightarrow> do {
          (bs, used, s) \<leftarrow> zero_loop free_cb (nat (hm_capc hm)) 0 bs (hm_used hm) s;
          Some (hm\<lparr>hm_buckets := Some bs, hm_used := used\<rparr>, s)
        })"

fun iterate_vals :: "('v \<Rightarrow> 's \<Rightarrow> int \<times> 's) \<Rightarrow> 'v list \<Rightarrow> 's \<Rightarrow> bool \<times> 's" where
  "iterate_vals cb [] s = (False, s)"
| "iterate_vals cb (v # vs) s = (case cb v s of (ret, s) \<Rightarrow> if ret > 0 then (True, s) else iterate_vals cb vs s)"

fun iterate_buckets :: "('v \<Rightarrow> 's \<Rightarrow> int \<times> 's) \<Rightarrow> nat \<Rightarrow> nat \<Rightarrow> 'v list option list \<Rightarrow> 's \<Rightarrow> 's option" where
  "iterate_buckets cb 0 i bs s = Some s"
| "iterate_buckets cb (Suc n) i bs s = do {
     vals \<leftarrow> bucket_of bs i;
     let (stop, s) = iterate_vals cb vals s;
     if stop then Some s else iterate_buckets cb n (i + 1) bs s
   }"

definition vhashmap_iterate :: "('v \<Rightarrow> 's \<Rightarrow> int \<times> 's) \<Rightarrow> 'v vhashmap \<Rightarrow> 's \<Rightarrow> 's option" where
  "vhashmap_iterate cb hm s =
     (case hm_buckets hm of None \<Rightarrow> Some s | Some bs \<Rightarrow> iterate_buckets cb (nat (hm_capc hm)) 0 bs s)"
subsection \<open>The capacity\<close>

text \<open>The capacity is the least power of two that is enough; no \<open>int\<close> is for more than \<open>2 ^ 30\<close>, where the shift overflows.\<close>

lemma push_power: "push_bit 1 (2 ^ m :: int) = 2 ^ Suc m"
  by (simp add: push_bit_eq_mult)

lemma power_loop_some:
  "power_loop n u (2 ^ m) = Some p \<Longrightarrow> 0 < m \<longrightarrow> 2 ^ (m - 1) < u \<Longrightarrow> \<exists>k \<le> m + n. p = 2 ^ k \<and> u \<le> p \<and> (0 < k \<longrightarrow> 2 ^ (k - 1) < u)"
proof (induction n arbitrary: m)
  case 0
  then show ?case by (intro exI [of _ m]) (simp split: if_splits)
next
  case (Suc n)
  show ?case
  proof (cases "2 ^ m < u")
    case True
    then have "power_loop n u (2 ^ Suc m) = Some p" using Suc.prems(1) by (simp del: power_Suc add: push_power [simplified])
    from Suc.IH [OF this] True show ?thesis by simp
  next
    case False
    then show ?thesis using Suc.prems by (intro exI [of _ m]) simp
  qed
qed

lemma power_loop_none: "power_loop n u (2 ^ m) = None \<longleftrightarrow> 2 ^ (m + n) < u"
proof (induction n arbitrary: m)
  case (Suc n)
  have "2 ^ m \<le> (2 ^ (m + Suc n) :: int)" by (rule power_increasing) simp_all
  then show ?case using Suc.IH [of "Suc m"] by (simp add: push_power [simplified] mult.commute)
qed simp

lemma power_of_2_spec:
  "aux_power_of_2 u = Some p \<Longrightarrow> \<exists>k \<le> 30. p = 2 ^ k \<and> u \<le> p \<and> (0 < k \<longrightarrow> 2 ^ (k - 1) < u)"
  "aux_power_of_2 u = None \<longleftrightarrow> 2 ^ 30 < u"
  using power_loop_some [of 30 u 0 p] power_loop_none [of 30 u 0] by (simp_all add: aux_power_of_2_def)

subsection \<open>A map as the code sets it up\<close>

text \<open>The first addition to a new map follows a pointer that was never set; everything else finds the map empty.\<close>

lemma new_map_crashes:
  assumes "vhashmap_init capc = Some hm"
  shows "vhashmap_add hash_cb cmp_cb free_cb True mem hm key val s = None"
    "vhashmap_add hash_cb cmp_cb free_cb False mem hm key val s = Some (-1, hm, s)"
    "vhashmap_get hash_cb cmp_cb hm key = Some None" "vhashmap_del hash_cb cmp_cb hm key = Some (None, hm)"
    "vhashmap_del_by_value hm val = Some (None, hm)" "vhashmap_zero free_cb hm s = Some (hm, s)" "vhashmap_iterate cb hm t = Some t"
proof -
  have hm: "hm_buckets hm = None" using assms by (auto simp: vhashmap_init_def vassert_def split: if_splits Option.bind_splits)
  then show "vhashmap_add hash_cb cmp_cb free_cb True mem hm key val s = None"
    by (simp add: vhashmap_add_def bucket_of_def rd_def Let_def)
  show "vhashmap_add hash_cb cmp_cb free_cb False mem hm key val s = Some (-1, hm, s)"
    "vhashmap_get hash_cb cmp_cb hm key = Some None" "vhashmap_del hash_cb cmp_cb hm key = Some (None, hm)"
    "vhashmap_del_by_value hm val = Some (None, hm)" "vhashmap_zero free_cb hm s = Some (hm, s)" "vhashmap_iterate cb hm t = Some t"
    using hm by (simp_all add: vhashmap_add_def vhashmap_get_def vhashmap_del_def vhashmap_del_by_value_def vhashmap_zero_def vhashmap_iterate_def)
qed

subsection \<open>A map with its buckets\<close>

text \<open>With buckets in its slots, which the code does not give it, a map would look up what was added last under a key.\<close>

definition hm_ready :: "'v vhashmap \<Rightarrow> bool" where
  "hm_ready hm \<longleftrightarrow> (\<exists>k bs. hm_mask hm = 2 ^ k - 1 \<and> hm_capc hm = 2 ^ k \<and> hm_buckets hm = Some bs \<and> (\<forall>i < 2 ^ k. i < length bs \<and> bs ! i \<noteq> None))"

lemma hash_slot_lt: "hm_mask hm = 2 ^ k - 1 \<Longrightarrow> hash_slot h hm key < 2 ^ k"
proof -
  assume m: "hm_mask hm = 2 ^ k - 1"
  have "h key AND (2 ^ k - 1) = h key mod 2 ^ k"
    by (simp add: mask_eq_exp_minus_1 [symmetric] take_bit_eq_mask [symmetric] take_bit_eq_mod)
  moreover have "h key mod 2 ^ k < 2 ^ k" "0 \<le> h key mod 2 ^ k" by simp_all
  ultimately show ?thesis by (simp add: hash_slot_def m nat_less_iff)
qed

lemma ready_bucket:
  assumes "hm_ready hm"
  shows "\<exists>bs vals. hm_buckets hm = Some bs \<and> hash_slot h hm key < length bs \<and> bs ! hash_slot h hm key = Some vals"
proof -
  obtain k bs where r: "hm_mask hm = 2 ^ k - 1" "hm_buckets hm = Some bs" "\<forall>i < 2 ^ k. i < length bs \<and> bs ! i \<noteq> None"
    using assms by (auto simp: hm_ready_def)
  have "hash_slot h hm key < length bs" "bs ! hash_slot h hm key \<noteq> None"
    using r(3) [rule_format, OF hash_slot_lt [OF r(1), of h key]] by simp_all
  then show ?thesis using r(2) by auto
qed

lemma ready_put:
  assumes "hm_ready hm" "hm_buckets hm = Some bs" "hm_buckets hm' = Some (bs[i := Some vals])" "hm_mask hm' = hm_mask hm" "hm_capc hm' = hm_capc hm"
  shows "hm_ready hm'"
proof -
  have "bs[i := Some vals] ! j \<noteq> None" if "bs ! j \<noteq> None" "j < length bs" for j
    using that by (cases "j = i") simp_all
  then show ?thesis using assms unfolding hm_ready_def by fastforce
qed

lemma find_idx_find: "map_option ((!) xs) (find_idx p xs) = List.find p xs"
  by (induction xs) (auto simp: option.map_comp comp_def simp del: find_idx_None)
lemma get_find:
  assumes "hm_buckets hm = Some bs" "hash_slot h hm key < length bs" "bs ! hash_slot h hm key = Some vals"
  shows "vhashmap_get h cmp hm key = Some (List.find (cmp key) vals)"
  using assms by (simp add: vhashmap_get_def bucket_of_def find_idx_find [symmetric])

lemma find_put:
  assumes "kf val = key"
  shows "List.find (\<lambda>v. kf v = k) (case find_idx (\<lambda>v. kf v = key) vals of None \<Rightarrow> vals @ [val] | Some j \<Rightarrow> vals[j := val]) =
     (if k = key then Some val else List.find (\<lambda>v. kf v = k) vals)"
proof (induction vals)
  case Nil
  then show ?case using assms by simp
next
  case (Cons v vals)
  show ?case
  proof (cases "kf v = key")
    case True
    then show ?thesis using assms by simp
  next
    case False
    then show ?thesis using Cons.IH by (cases "k = key"; cases "find_idx (\<lambda>v. kf v = key) vals") (simp_all del: find_idx_None)
  qed
qed

text \<open>The keys are those of the values: the comparison says whether a value has a key.\<close>

lemma hm_get_add:
  assumes r: "hm_ready hm" and cmp: "\<And>k v. cmp k v \<longleftrightarrow> kf v = k" and v: "kf val = key"
  shows "\<exists>hm' s'. vhashmap_add h cmp free_cb room True hm key val s = Some (0, hm', s') \<and> hm_ready hm' \<and>
     (\<forall>k. vhashmap_get h cmp hm' k = (if k = key then Some (Some val) else vhashmap_get h cmp hm k))"
proof -
  obtain bs vals where b: "hm_buckets hm = Some bs" "hash_slot h hm key < length bs" "bs ! hash_slot h hm key = Some vals"
    using ready_bucket [OF r, of h key] by auto
  have cmp': "cmp = (\<lambda>k v. kf v = k)" using cmp by (intro ext) simp
  let ?i = "hash_slot h hm key"
  let ?vals = "case find_idx (cmp key) vals of None \<Rightarrow> vals @ [val] | Some j \<Rightarrow> vals[j := val]"
  let ?bs = "bs[?i := Some ?vals]"
  obtain hm' s' where a: "vhashmap_add h cmp free_cb room True hm key val s = Some (0, hm', s')" "hm_buckets hm' = Some ?bs"
      "hm_mask hm' = hm_mask hm" "hm_capc hm' = hm_capc hm"
    using b by (cases "find_idx (cmp key) vals") (simp_all add: vhashmap_add_def bucket_of_def Let_def del: find_idx_None)
  have "hm_ready hm'" by (rule ready_put [OF r b(1) a(2-4)])
  moreover have "vhashmap_get h cmp hm' k = (if k = key then Some (Some val) else vhashmap_get h cmp hm k)" for k
  proof -
    obtain w where w: "hash_slot h hm k < length bs" "bs ! hash_slot h hm k = Some w" using ready_bucket [OF r, of h k] b(1) by auto
    have same: "hash_slot h hm' k = hash_slot h hm k" by (simp add: hash_slot_def a)
    have w': "?bs ! hash_slot h hm k = Some (if hash_slot h hm k = ?i then ?vals else w)" using b(2) w by (simp add: nth_list_update)
    have "vhashmap_get h cmp hm' k = Some (List.find (cmp k) (if hash_slot h hm k = ?i then ?vals else w))"
      using get_find [OF a(2), of h k _ cmp, unfolded same, OF _ w'] w(1) by (simp only: length_list_update)
    moreover have "vhashmap_get h cmp hm k = Some (List.find (cmp k) w)" by (rule get_find [OF b(1) w])
    moreover have "hash_slot h hm k = ?i \<Longrightarrow> w = vals" using b w by simp
    moreover have "List.find (cmp k) ?vals = (if k = key then Some val else List.find (cmp k) vals)"
      using find_put [of kf val key k vals, OF v] by (simp add: cmp')
    ultimately show ?thesis by (cases "hash_slot h hm k = ?i") auto
  qed
  ultimately show ?thesis using a(1) by blast
qed
text \<open>
  \<open>vhashmap_del_by_value\<close> goes on after the bucket of the value: any later bucket with an item makes it unlink the item at address 0.
\<close>

lemma del_by_value_crashes:
  assumes "hm_capc hm = 2" "hm_buckets hm = Some (Some xs # Some ys # bs)" "val \<in> set xs" "val \<notin> set ys" "ys \<noteq> []"
  shows "vhashmap_del_by_value hm val = None"
proof -
  obtain j where j: "find_idx (\<lambda>v. v = val) xs = Some j" using assms(3) by (cases "find_idx (\<lambda>v. v = val) xs") auto
  have n: "find_idx (\<lambda>v. v = val) ys = None" using assms(4) by auto
  have "del_by_value_loop 2 (Some xs # Some ys # bs) 0 val False None = Some (True, None)"
    using assms(5) by (simp add: numeral_2_eq_2 bucket_of_def j n)
  then show ?thesis using assms(1,2) by (simp add: vhashmap_del_by_value_def)
qed

end
