(* ===== verification/Upnp.thy ===== *)
theory Upnp
  imports AddrText
begin

section \<open>Port mappings (vupnpc.c)\<close>

text \<open>
  The client of the miniupnp library asks a gateway to forward the port of a local address. The calls of the library are
  parameters, on a state \<open>'w\<close>; a list of devices is a \<open>'d\<close>, what is known of the gateway found (its URLs and data) a \<open>'c\<close>, and
  freeing a list that is not allocated crashes. \<open>aux_node_get_uaddrs\<close> of \<open>VNode\<close> takes the mapping as a
  function; this is where it comes from. The local address that \<open>UPNP_GetValidIGD\<close> writes to \<open>lan_iaddr\<close> is never read.
\<close>

subsection \<open>State\<close>

datatype upnpc_state = UPNPC_RAW | UPNPC_READY | UPNPC_ACTIVE

record ('d, 'c) vupnpc =
  up_state :: upnpc_state
  up_devlist :: "'d option"
  up_cfg :: "'c option"

record ('d, 'c, 'w) upnp_lib =
  ul_discover :: "'w \<Rightarrow> 'd option \<times> 'w"
  ul_free :: "'d \<Rightarrow> 'w \<Rightarrow> 'w option"
  ul_valid_igd :: "'d \<Rightarrow> 'w \<Rightarrow> (int \<times> 'c option) \<times> 'w"
  ul_external_ip :: "'c option \<Rightarrow> 'w \<Rightarrow> (int \<times> bytes) \<times> 'w"
  ul_add :: "'c option \<Rightarrow> bytes \<Rightarrow> bytes \<Rightarrow> bytes \<Rightarrow> bytes \<Rightarrow> 'w \<Rightarrow> int \<times> 'w"
  ul_entry :: "'c option \<Rightarrow> bytes \<Rightarrow> bytes \<Rightarrow> 'w \<Rightarrow> (int \<times> bytes \<times> bytes) \<times> 'w"
  ul_delete :: "'c option \<Rightarrow> bytes \<Rightarrow> bytes \<Rightarrow> 'w \<Rightarrow> int \<times> 'w"

definition vupnpc_init :: "('d, 'c) vupnpc" where
  "vupnpc_init = \<lparr>up_state = UPNPC_RAW, up_devlist = None, up_cfg = None\<rparr>"

subsection \<open>Operations\<close>

definition vupnpc_setup :: "('d, 'c, 'w) upnp_lib \<Rightarrow> ('d, 'c) vupnpc \<Rightarrow> 'w \<Rightarrow> (int \<times> ('d, 'c) vupnpc \<times> 'w) option" where
  "vupnpc_setup lib up w =
     (if up_state up \<noteq> UPNPC_RAW then Some (-1, up, w)
      else let up = up\<lparr>up_devlist := None, up_cfg := None\<rparr>; (devs, w) = ul_discover lib w; up = up\<lparr>up_devlist := devs\<rparr> in
        case devs of
          None \<Rightarrow> Some (0, up, w)
        | Some d \<Rightarrow>
            let ((ret, cfg), w) = ul_valid_igd lib d w; up = up\<lparr>up_cfg := cfg\<rparr> in
            if ret = 0 then do { w \<leftarrow> ul_free lib d w; Some (0, up, w) }
            else Some (0, up\<lparr>up_state := UPNPC_READY\<rparr>, w))"

text \<open>The pointer to the list stays.\<close>

definition vupnpc_shutdown :: "('d, 'c, 'w) upnp_lib \<Rightarrow> ('d, 'c) vupnpc \<Rightarrow> 'w \<Rightarrow> (int \<times> ('d, 'c) vupnpc \<times> 'w) option" where
  "vupnpc_shutdown lib up w =
     (case up_state up of
        UPNPC_RAW \<Rightarrow> Some (0, up, w)
      | _ \<Rightarrow> do {
          w \<leftarrow> (case up_devlist up of None \<Rightarrow> Some w | Some d \<Rightarrow> ul_free lib d w);
          Some (0, up\<lparr>up_state := UPNPC_RAW\<rparr>, w)
        })"

definition vupnpc_workable :: "('d, 'c) vupnpc \<Rightarrow> bool" where
  "vupnpc_workable up = (case up_state up of UPNPC_ACTIVE \<Rightarrow> True | UPNPC_READY \<Rightarrow> True | UPNPC_RAW \<Rightarrow> False)"

definition upnp_protos :: "int \<Rightarrow> bytes option" where
  "upnp_protos proto = (if proto = 0 then Some (cstr ''UDP'') else if proto = 1 then Some (cstr ''TCP'') else None)"

definition dotted :: "u32 \<Rightarrow> bytes" where
  "dotted s_addr = (let uiaddr = htonl s_addr; part = (\<lambda>k. dec_nat (unat (drop_bit k uiaddr AND 0xff))) in
     part 24 @ 46 # part 16 @ 46 # part 8 @ 46 # part 0)"

text \<open>The results of the library are tested for being negative. The texts are those in the buffers, without the zero at their end.\<close>

definition vupnpc_map ::
  "('d, 'c, 'w) upnp_lib \<Rightarrow> ('d, 'c) vupnpc \<Rightarrow> sockaddr_in \<Rightarrow> int \<Rightarrow> sockaddr_in \<Rightarrow> 'w \<Rightarrow> (int \<times> sockaddr_in \<times> ('d, 'c) vupnpc \<times> 'w) option" where
  "vupnpc_map lib up laddr proto eaddr w =
     (if up_state up \<noteq> UPNPC_READY \<and> up_state up \<noteq> UPNPC_ACTIVE then Some (-1, eaddr, up, w)
      else do {
        let siaddr = dotted (sin_addr laddr);
        let siport = dec_nat (unat (htons (sin_port laddr)));
        let seport = dec_nat (unat (htons (sin_port laddr)));
        sproto \<leftarrow> upnp_protos proto;
        let eport = htons (sin_port laddr);
        let ((ret, seaddr), w) = ul_external_ip lib (up_cfg up) w;
        if ret < 0 \<or> seaddr = [] then Some (-1, eaddr, up, w)
        else do {
          let (ret, w) = ul_add lib (up_cfg up) seport siport siaddr sproto w;
          if ret < 0 then Some (-1, eaddr, up, w)
          else do {
            let ((ret, siaddr_tmp, siport_tmp), w) = ul_entry lib (up_cfg up) seport sproto w;
            if ret < 0 \<or> siaddr_tmp = [] then Some (-1, eaddr, up, w)
            else if siaddr \<noteq> siaddr_tmp \<or> siport \<noteq> siport_tmp then Some (-1, eaddr, up, w)
            else do {
              (ret, eaddr) \<leftarrow> vsockaddr_convert (seaddr @ [0]) eport;
              Some (0, eaddr, up\<lparr>up_state := UPNPC_ACTIVE\<rparr>, w)
            }
          }
        }
      })"

definition vupnpc_unmap :: "('d, 'c, 'w) upnp_lib \<Rightarrow> ('d, 'c) vupnpc \<Rightarrow> u16 \<Rightarrow> int \<Rightarrow> 'w \<Rightarrow> (int \<times> ('d, 'c) vupnpc \<times> 'w) option" where
  "vupnpc_unmap lib up eport proto w = do {
     vassert (eport > 0);
     vassert (proto \<ge> 0);
     vassert (proto < 2);
     if up_state up \<noteq> UPNPC_ACTIVE then Some (-1, up, w)
     else do {
       sproto \<leftarrow> upnp_protos proto;
       let (ret, w) = ul_delete lib (up_cfg up) (dec_nat (unat eport)) sproto w;
       if ret < 0 then Some (-1, up, w)
       else Some (0, up\<lparr>up_state := UPNPC_READY\<rparr>, w)
     }
   }"

definition vupnpc_deinit :: "('d, 'c, 'w) upnp_lib \<Rightarrow> ('d, 'c) vupnpc \<Rightarrow> 'w \<Rightarrow> (('d, 'c) vupnpc \<times> 'w) option" where
  "vupnpc_deinit lib up w = map_option snd (vupnpc_shutdown lib up w)"

subsection \<open>The text of an address\<close>

text \<open>The parts taken from the shifted word are the bytes in network order.\<close>

lemma unat_low_byte: "unat (x AND 0xff :: u32) = unat (ucast x :: byte)"
proof -
  have m: "(0xff :: u32) = mask 8" by (simp add: mask_eq_exp_minus_1)
  show ?thesis unfolding m by (simp add: take_bit_eq_mask [symmetric] unsigned_take_bit_eq unsigned_ucast_eq)
qed

lemma dotted_inet_ntoa: "dotted a = inet_ntoa a"
  by (simp add: dotted_def inet_ntoa_def Let_def unat_low_byte htonl_def le32_def of_le32_bytes)

subsection \<open>The device list is freed once\<close>

text \<open>
  What the module relies on: a list that \<open>upnpDiscover\<close> returns is a new one, a live list can be freed, and no other call allocates or
  frees a list. \<open>live\<close> gives the lists allocated.
\<close>

definition upnp_lib_ok :: "('d, 'c, 'w) upnp_lib \<Rightarrow> ('w \<Rightarrow> 'd set) \<Rightarrow> bool" where
  "upnp_lib_ok lib live \<longleftrightarrow>
     (\<forall>w. case ul_discover lib w of
        (None, w') \<Rightarrow> live w' = live w
      | (Some d, w') \<Rightarrow> d \<notin> live w \<and> live w' = insert d (live w)) \<and>
     (\<forall>d w. d \<in> live w \<longrightarrow> (\<exists>w'. ul_free lib d w = Some w' \<and> live w' = live w - {d})) \<and>
     (\<forall>d w. live (snd (ul_valid_igd lib d w)) = live w) \<and>
     (\<forall>c w. live (snd (ul_external_ip lib c w)) = live w) \<and>
     (\<forall>c a b e f w. live (snd (ul_add lib c a b e f w)) = live w) \<and>
     (\<forall>c a b w. live (snd (ul_entry lib c a b w)) = live w) \<and>
     (\<forall>c a b w. live (snd (ul_delete lib c a b w)) = live w)"

lemma upnp_lib_okD:
  assumes "upnp_lib_ok lib live"
  shows "ul_discover lib w = (None, w') \<Longrightarrow> live w' = live w"
    "ul_discover lib w = (Some d, w') \<Longrightarrow> d \<notin> live w \<and> live w' = insert d (live w)"
    "d \<in> live w \<Longrightarrow> \<exists>w'. ul_free lib d w = Some w' \<and> live w' = live w - {d}"
    "ul_valid_igd lib d w = (rv, w') \<Longrightarrow> live w' = live w"
    "ul_external_ip lib c w = (re, w') \<Longrightarrow> live w' = live w"
    "ul_add lib c s1 s2 s3 s4 w = (ra, w') \<Longrightarrow> live w' = live w"
    "ul_entry lib c s1 s2 w = (rn, w') \<Longrightarrow> live w' = live w"
    "ul_delete lib c s1 s2 w = (ra, w') \<Longrightarrow> live w' = live w"
proof -
  note ok = assms [unfolded upnp_lib_ok_def]
  show "ul_discover lib w = (None, w') \<Longrightarrow> live w' = live w"
    "ul_discover lib w = (Some d, w') \<Longrightarrow> d \<notin> live w \<and> live w' = insert d (live w)"
    using ok [THEN conjunct1, rule_format, of w] by auto
  show "d \<in> live w \<Longrightarrow> \<exists>w'. ul_free lib d w = Some w' \<and> live w' = live w - {d}" using ok [THEN conjunct2, THEN conjunct1] by blast
  show "ul_valid_igd lib d w = (rv, w') \<Longrightarrow> live w' = live w"
    "ul_external_ip lib c w = (re, w') \<Longrightarrow> live w' = live w"
    "ul_add lib c s1 s2 s3 s4 w = (ra, w') \<Longrightarrow> live w' = live w"
    "ul_entry lib c s1 s2 w = (rn, w') \<Longrightarrow> live w' = live w"
    "ul_delete lib c s1 s2 w = (ra, w') \<Longrightarrow> live w' = live w"
    using ok by (metis snd_conv)+
qed

text \<open>The lists allocated beside \<open>L\<close> are the one of a working mapper.\<close>

definition upnp_inv :: "('w \<Rightarrow> 'd set) \<Rightarrow> 'd set \<Rightarrow> ('d, 'c) vupnpc \<times> 'w \<Rightarrow> bool" where
  "upnp_inv live L = (\<lambda>(up, w).
     if vupnpc_workable up then \<exists>d. up_devlist up = Some d \<and> d \<notin> L \<and> live w = insert d L else live w = L)"

lemma workable_eq: "vupnpc_workable up \<longleftrightarrow> up_state up \<noteq> UPNPC_RAW"
  by (simp add: vupnpc_workable_def split: upnpc_state.split)

lemma setup_inv:
  assumes ok: "upnp_lib_ok lib live" and inv: "upnp_inv live L (up, w)"
  shows "\<exists>r s. vupnpc_setup lib up w = Some (r, s) \<and> upnp_inv live L s"
proof (cases "up_state up = UPNPC_RAW")
  case False
  then show ?thesis using inv by (auto simp: vupnpc_setup_def)
next
  case raw: True
  obtain devs w1 where dis: "ul_discover lib w = (devs, w1)" by (cases "ul_discover lib w")
  show ?thesis
  proof (cases devs)
    case None
    then show ?thesis using raw inv dis upnp_lib_okD(1) [OF ok, of w w1] by (force simp: vupnpc_setup_def upnp_inv_def workable_eq)
  next
    case (Some d)
    obtain ret cfg w2 where v: "ul_valid_igd lib d w1 = ((ret, cfg), w2)" by (metis prod.collapse)
    have l: "d \<notin> L" "live w2 = insert d L"
      using upnp_lib_okD(2) [OF ok dis [unfolded Some]] upnp_lib_okD(4) [OF ok v] inv raw by (simp_all add: upnp_inv_def workable_eq)
    obtain w3 where "ul_free lib d w2 = Some w3" "live w3 = L" using upnp_lib_okD(3) [OF ok, of d w2] l by auto
    then show ?thesis using raw dis v Some l by (cases "ret = 0"; force simp: vupnpc_setup_def upnp_inv_def workable_eq)
  qed
qed

lemma shutdown_inv:
  assumes ok: "upnp_lib_ok lib live" and inv: "upnp_inv live L (up, w)"
  shows "\<exists>r s. vupnpc_shutdown lib up w = Some (r, s) \<and> upnp_inv live L s"
proof (cases "up_state up = UPNPC_RAW")
  case True
  then show ?thesis using inv by (simp add: vupnpc_shutdown_def)
next
  case False
  then obtain d where d: "up_devlist up = Some d" "d \<notin> L" "live w = insert d L" using inv by (auto simp: upnp_inv_def workable_eq)
  then obtain w' where "ul_free lib d w = Some w'" "live w' = L" using upnp_lib_okD(3) [OF ok, of d w] by auto
  then have "vupnpc_shutdown lib up w = Some (0, up\<lparr>up_state := UPNPC_RAW\<rparr>, w')" "upnp_inv live L (up\<lparr>up_state := UPNPC_RAW\<rparr>, w')"
    using False d by (simp_all add: vupnpc_shutdown_def upnp_inv_def workable_eq split: upnpc_state.split)
  then show ?thesis by blast
qed
text \<open>Mapping and unmapping neither look at the list nor change whether the mapper works.\<close>

lemma map_inv:
  assumes ok: "upnp_lib_ok lib live" and inv: "upnp_inv live L (up, w)"
    and a: "htons (sin_port laddr) > 0" "proto = 0 \<or> proto = 1"
  shows "\<exists>r e s. vupnpc_map lib up laddr proto eaddr w = Some (r, e, s) \<and> upnp_inv live L s"
proof (cases "vupnpc_workable up")
  case False
  then show ?thesis using inv by (auto simp: vupnpc_map_def workable_eq)
next
  case True
  then have st: "\<not> (up_state up \<noteq> UPNPC_READY \<and> up_state up \<noteq> UPNPC_ACTIVE)" by (cases "up_state up") (simp_all add: workable_eq)
  obtain p where p: "upnp_protos proto = Some p" using a by (auto simp: upnp_protos_def)
  have inv': "upnp_inv live L (up, w')" "upnp_inv live L (up\<lparr>up_state := UPNPC_ACTIVE\<rparr>, w')" if "live w' = live w" for w'
    using inv True that by (simp_all add: upnp_inv_def workable_eq)
  let ?port = "dec_nat (unat (htons (sin_port laddr)))"
  obtain r1 ip w1 where q1: "ul_external_ip lib (up_cfg up) w = ((r1, ip), w1)" by (metis prod.collapse)
  obtain r2 w2 where q2: "ul_add lib (up_cfg up) ?port ?port (dotted (sin_addr laddr)) p w1 = (r2, w2)" by (metis prod.collapse)
  obtain r3 t1 t2 w3 where q3: "ul_entry lib (up_cfg up) ?port p w2 = ((r3, t1, t2), w3)" by (metis prod.collapse)
  have l: "live w1 = live w" "live w2 = live w" "live w3 = live w"
    using upnp_lib_okD(5) [OF ok q1] upnp_lib_okD(6) [OF ok q2] upnp_lib_okD(7) [OF ok q3] by simp_all
  obtain e where e: "vsockaddr_convert (ip @ [0]) (htons (sin_port laddr)) = Some e"
    using a by (simp add: vsockaddr_convert_def cstring_def Let_def)
  show ?thesis using inv' l by (auto simp: vupnpc_map_def st p q1 q2 q3 e Let_def split: prod.splits)
qed

lemma unmap_inv:
  assumes ok: "upnp_lib_ok lib live" and inv: "upnp_inv live L (up, w)" and a: "eport > 0" "proto = 0 \<or> proto = 1"
  shows "\<exists>r s. vupnpc_unmap lib up eport proto w = Some (r, s) \<and> upnp_inv live L s"
proof -
  obtain p where p: "upnp_protos proto = Some p" using a by (auto simp: upnp_protos_def)
  obtain r w1 where q: "ul_delete lib (up_cfg up) (dec_nat (unat eport)) p w = (r, w1)" by (metis prod.collapse)
  have l: "live w1 = live w" by (rule upnp_lib_okD(8) [OF ok q])
  show ?thesis using inv a l by (auto simp: vupnpc_unmap_def p q upnp_inv_def workable_eq)
qed

subsection \<open>A module at work\<close>

datatype upnp_call = UpSetup | UpShutdown | UpMap sockaddr_in int sockaddr_in | UpUnmap u16 int

text \<open>The callers pass a protocol of the table and a port other than zero.\<close>

definition upnp_call_ok :: "upnp_call \<Rightarrow> bool" where
  "upnp_call_ok c \<longleftrightarrow> (case c of
     UpMap laddr proto _ \<Rightarrow> htons (sin_port laddr) > 0 \<and> (proto = 0 \<or> proto = 1)
   | UpUnmap eport proto \<Rightarrow> eport > 0 \<and> (proto = 0 \<or> proto = 1)
   | _ \<Rightarrow> True)"

definition upnp_do :: "('d, 'c, 'w) upnp_lib \<Rightarrow> upnp_call \<Rightarrow> ('d, 'c) vupnpc \<times> 'w \<Rightarrow> (('d, 'c) vupnpc \<times> 'w) option" where
  "upnp_do lib c = (\<lambda>(up, w). case c of
     UpSetup \<Rightarrow> map_option snd (vupnpc_setup lib up w)
   | UpShutdown \<Rightarrow> map_option snd (vupnpc_shutdown lib up w)
   | UpMap laddr proto eaddr \<Rightarrow> map_option (snd \<circ> snd) (vupnpc_map lib up laddr proto eaddr w)
   | UpUnmap eport proto \<Rightarrow> map_option snd (vupnpc_unmap lib up eport proto w))"

fun upnp_run :: "('d, 'c, 'w) upnp_lib \<Rightarrow> upnp_call list \<Rightarrow> ('d, 'c) vupnpc \<times> 'w \<Rightarrow> (('d, 'c) vupnpc \<times> 'w) option" where
  "upnp_run lib [] s = Some s"
| "upnp_run lib (c # cs) s = do { s \<leftarrow> upnp_do lib c s; upnp_run lib cs s }"

lemma upnp_do_inv:
  assumes "upnp_lib_ok lib live" "upnp_inv live L s" "upnp_call_ok c"
  shows "\<exists>s'. upnp_do lib c s = Some s' \<and> upnp_inv live L s'"
proof (cases s)
  case (Pair up w)
  then have inv: "upnp_inv live L (up, w)" using assms by simp
  note ok = assms(1)
  show ?thesis
  proof (cases c)
    case UpSetup
    then show ?thesis using setup_inv [OF ok inv] by (auto simp: upnp_do_def Pair)
  next
    case UpShutdown
    then show ?thesis using shutdown_inv [OF ok inv] by (auto simp: upnp_do_def Pair)
  next
    case (UpMap laddr proto eaddr)
    then have "htons (sin_port laddr) > 0" "proto = 0 \<or> proto = 1" using assms(3) by (simp_all add: upnp_call_ok_def)
    from map_inv [OF ok inv this, of eaddr] UpMap show ?thesis by (auto simp: upnp_do_def Pair)
  next
    case (UpUnmap eport proto)
    then have "eport > 0" "proto = 0 \<or> proto = 1" using assms(3) by (simp_all add: upnp_call_ok_def)
    from unmap_inv [OF ok inv this] UpUnmap show ?thesis by (auto simp: upnp_do_def Pair)
  qed
qed

lemma upnp_run_inv:
  "upnp_lib_ok lib live \<Longrightarrow> upnp_inv live L s \<Longrightarrow> list_all upnp_call_ok cs \<Longrightarrow>
     \<exists>s'. upnp_run lib cs s = Some s' \<and> upnp_inv live L s'"
proof (induction cs arbitrary: s)
  case (Cons c cs)
  obtain s1 where "upnp_do lib c s = Some s1" "upnp_inv live L s1" using upnp_do_inv [of lib live L s c] Cons.prems by auto
  then show ?case using Cons.IH [of s1] Cons.prems by auto
qed simp

text \<open>Started, used in any order and closed down, the module leaves the lists allocated that were there before.\<close>

lemma upnp_run_frees:
  assumes "upnp_lib_ok lib live" "list_all upnp_call_ok cs"
  shows "\<exists>up w up' w'. upnp_run lib cs (vupnpc_init, w0) = Some (up, w) \<and>
     vupnpc_deinit lib up w = Some (up', w') \<and> live w' = live w0 \<and> \<not> vupnpc_workable up'"
proof -
  have i: "upnp_inv live (live w0) (vupnpc_init, w0)" by (simp add: upnp_inv_def vupnpc_init_def workable_eq)
  obtain up w where s: "upnp_run lib cs (vupnpc_init, w0) = Some (up, w)" "upnp_inv live (live w0) (up, w)"
    using upnp_run_inv [OF assms(1) i assms(2)] by auto
  obtain r up' w' where t: "vupnpc_shutdown lib up w = Some (r, up', w')" "upnp_inv live (live w0) (up', w')"
    using shutdown_inv [OF assms(1) s(2)] by auto
  have "up_state up' = UPNPC_RAW" using t(1) by (auto simp: vupnpc_shutdown_def split: upnpc_state.splits option.splits Option.bind_splits)
  then show ?thesis using s(1) t by (auto simp: vupnpc_deinit_def upnp_inv_def workable_eq)
qed

text \<open>A mapping that succeeds was confirmed by the gateway for the local address, and gives the external address under the same port.\<close>

lemma map_success:
  assumes "vupnpc_map lib up laddr proto eaddr w = Some (0, e, up', w')"
  shows "\<exists>p ip r1 w1 r2 w2 r3. let port = dec_nat (unat (htons (sin_port laddr))) in
     vupnpc_workable up \<and> up_state up' = UPNPC_ACTIVE \<and> upnp_protos proto = Some p \<and>
     ul_external_ip lib (up_cfg up) w = ((r1, ip), w1) \<and>
     ul_add lib (up_cfg up) port port (inet_ntoa (sin_addr laddr)) p w1 = (r2, w2) \<and>
     ul_entry lib (up_cfg up) port p w2 = ((r3, inet_ntoa (sin_addr laddr), port), w') \<and>
     sin_port e = sin_port laddr \<and> (\<forall>a. inet_aton (until_nul (ip @ [0])) = Some a \<longrightarrow> sin_addr e = a)"
proof -
  have st: "\<not> (up_state up \<noteq> UPNPC_READY \<and> up_state up \<noteq> UPNPC_ACTIVE)"
    using assms by (simp add: vupnpc_map_def split: if_split_asm)
  let ?port = "dec_nat (unat (htons (sin_port laddr)))"
  obtain p where p: "upnp_protos proto = Some p" using assms st by (cases "upnp_protos proto") (auto simp: vupnpc_map_def Let_def)
  obtain r1 ip w1 where q1: "ul_external_ip lib (up_cfg up) w = ((r1, ip), w1)" by (metis prod.collapse)
  obtain r2 w2 where q2: "ul_add lib (up_cfg up) ?port ?port (dotted (sin_addr laddr)) p w1 = (r2, w2)" by (metis prod.collapse)
  obtain r3 t1 t2 w3 where q3: "ul_entry lib (up_cfg up) ?port p w2 = ((r3, t1, t2), w3)" by (metis prod.collapse)
  obtain r where m: "vsockaddr_convert (ip @ [0]) (htons (sin_port laddr)) = Some (r, e)" "up' = up\<lparr>up_state := UPNPC_ACTIVE\<rparr>"
      "t1 = dotted (sin_addr laddr)" "t2 = ?port" "w3 = w'"
    using assms by (auto simp: vupnpc_map_def st p q1 q2 q3 Let_def split: if_splits Option.bind_splits)
  have "sin_port e = sin_port laddr" "inet_aton (until_nul (ip @ [0])) = Some a \<Longrightarrow> sin_addr e = a" for a
    using m(1) by (auto simp: vsockaddr_convert_def cstring_def vassert_def Let_def split: option.splits if_splits)
  then show ?thesis using st p q1 q2 q3 m(2-5) by (auto simp: Let_def dotted_inet_ntoa workable_eq)
qed

end
