(* ===== verification/Identity.thy ===== *)
theory Identity
  imports Config
begin

section \<open>The ID of the host (vhost.c)\<close>

text \<open>
  A host keeps its node ID in a table of its SQLite file: \<open>_aux_vhost_get_nodeId\<close> reads it, or makes one and stores it when the table is
  not there. SQLite is a parameter on a state \<open>'w\<close>: \<open>sq_open\<close> opens the file, \<open>sq_exec\<close> runs a statement and gives the rows
  it hands to the callback, of each the text of its first column, \<open>None\<close> for a null value.
\<close>

record 'w sqlite =
  sq_open :: "bytes \<Rightarrow> 'w \<Rightarrow> int \<times> 'w"
  sq_exec :: "bytes \<Rightarrow> 'w \<Rightarrow> (int \<times> bytes option list) \<times> 'w"

text \<open>The name of the table, and its text in quotes.\<close>

definition VNODEID_TB :: bytes where
  "VNODEID_TB = 39 # cstr ''dht_public_id'' @ [39]"

definition nodeId_select :: bytes where
  "nodeId_select = cstr ''select * from '' @ VNODEID_TB"

definition nodeId_create :: bytes where
  "nodeId_create = cstr ''CREATE TABLE '' @ VNODEID_TB @ cstr '' (id char(160))''"

definition nodeId_insert :: "bytes \<Rightarrow> bytes" where
  "nodeId_insert sid = cstr ''insert into '' @ VNODEID_TB @ cstr '' (id) values ('' @ 39 # sid @ [39, 41]"

text \<open>The callback ignores what the parser returns and goes on to the next row.\<close>

definition get_nodeId_cb :: "bytes option \<Rightarrow> vtoken \<Rightarrow> vtoken option" where
  "get_nodeId_cb val myid = do {
     sid \<leftarrow> val;
     (ret, myid) \<leftarrow> vtoken_unstrlize (sid @ [0]) myid;
     Some myid
   }"

fun get_nodeId_rows :: "bytes option list \<Rightarrow> vtoken \<Rightarrow> vtoken option" where
  "get_nodeId_rows [] myid = Some myid"
| "get_nodeId_rows (v # vs) myid = do { myid \<leftarrow> get_nodeId_cb v myid; get_nodeId_rows vs myid }"

text \<open>
  \<open>fresh\<close> is what \<open>vtoken_make\<close> writes. The name of the file is copied into a buffer of \<open>BUF_SZ\<close> bytes with \<open>strncpy\<close>, which
  leaves no zero when it fills the buffer. The buffer of the text of the ID has 64 bytes, so the print does not stop half way.
\<close>

definition aux_vhost_get_nodeId ::
  "'w sqlite \<Rightarrow> vtoken \<Rightarrow> vcfg_item vdict \<Rightarrow> vtoken \<Rightarrow> 'w \<Rightarrow> (int \<times> vtoken \<times> 'w) option" where
  "aux_vhost_get_nodeId sq fresh cfg myid w = do {
     file \<leftarrow> vcfg_get_host_db_file cfg;
     vassert (int (length file) < BUF_SZ);
     let (ret, w) = sq_open sq file w;
     if ret \<noteq> 0 then Some (-1, myid, w)
     else do {
       let ((ret, rows), w) = sq_exec sq nodeId_select w;
       myid \<leftarrow> get_nodeId_rows rows myid;
       if ret = 0 then Some (0, myid, w)
       else do {
         let ((ret, _), w) = sq_exec sq nodeId_create w;
         if ret \<noteq> 0 then Some (-1, myid, w)
         else do {
           let myid = fresh;
           printed \<leftarrow> vtoken_strlize myid 64;
           sid \<leftarrow> printed;
           let ((ret, _), w) = sq_exec sq (nodeId_insert sid) w;
           Some (if ret \<noteq> 0 then -1 else 0, myid, w)
         }
       }
     }
   }"

subsection \<open>What SQLite promises\<close>

text \<open>
  \<open>table\<close> gives the rows of the table, \<open>None\<close> when there is no such table: opening a file leaves them, a select of a missing table
  fails, a creation makes an empty table, and an insertion of a text without quotes adds a row.
\<close>

definition sqlite_ok :: "'w sqlite \<Rightarrow> ('w \<Rightarrow> bytes list option) \<Rightarrow> bool" where
  "sqlite_ok sq table \<longleftrightarrow>
     (\<forall>file w. fst (sq_open sq file w) = 0 \<longrightarrow> table (snd (sq_open sq file w)) = table w) \<and>
     (\<forall>w. case table w of
        None \<Rightarrow> fst (fst (sq_exec sq nodeId_select w)) \<noteq> 0 \<and> snd (fst (sq_exec sq nodeId_select w)) = []
      | Some rows \<Rightarrow> fst (sq_exec sq nodeId_select w) = (0, map Some rows)) \<and>
     (\<forall>w. table (snd (sq_exec sq nodeId_select w)) = table w) \<and>
     (\<forall>w. fst (fst (sq_exec sq nodeId_create w)) = 0 \<longrightarrow> table (snd (sq_exec sq nodeId_create w)) = Some []) \<and>
     (\<forall>w sid rows. fst (fst (sq_exec sq (nodeId_insert sid) w)) = 0 \<longrightarrow> table w = Some rows \<longrightarrow> 39 \<notin> set sid \<longrightarrow>
        table (snd (sq_exec sq (nodeId_insert sid) w)) = Some (rows @ [sid]))"

lemma sqlite_okD:
  assumes "sqlite_ok sq table"
  shows "sq_open sq file w = (0, w') \<Longrightarrow> table w' = table w"
    "sq_exec sq nodeId_select w = ((r, rows), w') \<Longrightarrow> table w' = table w"
    "sq_exec sq nodeId_select w = ((r, rows), w') \<Longrightarrow> table w = None \<Longrightarrow> r \<noteq> 0 \<and> rows = []"
    "sq_exec sq nodeId_select w = ((r, rows), w') \<Longrightarrow> table w = Some ts \<Longrightarrow> r = 0 \<and> rows = map Some ts"
    "sq_exec sq nodeId_create w = ((0, rows), w') \<Longrightarrow> table w' = Some []"
    "sq_exec sq (nodeId_insert sid) w = ((0, rows), w') \<Longrightarrow> table w = Some ts \<Longrightarrow> 39 \<notin> set sid \<Longrightarrow> table w' = Some (ts @ [sid])"
proof -
  note ok = assms [unfolded sqlite_ok_def]
  show "sq_open sq file w = (0, w') \<Longrightarrow> table w' = table w" using ok [THEN conjunct1] by (metis fst_conv snd_conv)
  show "sq_exec sq nodeId_select w = ((r, rows), w') \<Longrightarrow> table w = None \<Longrightarrow> r \<noteq> 0 \<and> rows = []"
    "sq_exec sq nodeId_select w = ((r, rows), w') \<Longrightarrow> table w = Some ts \<Longrightarrow> r = 0 \<and> rows = map Some ts"
    using ok [THEN conjunct2, THEN conjunct1, rule_format, of w] by simp_all
  show "sq_exec sq nodeId_select w = ((r, rows), w') \<Longrightarrow> table w' = table w"
    "sq_exec sq nodeId_create w = ((0, rows), w') \<Longrightarrow> table w' = Some []"
    "sq_exec sq (nodeId_insert sid) w = ((0, rows), w') \<Longrightarrow> table w = Some ts \<Longrightarrow> 39 \<notin> set sid \<Longrightarrow> table w' = Some (ts @ [sid])"
    using ok [THEN conjunct2, THEN conjunct2] by (metis fst_conv snd_conv)+
qed

lemma hex_digit_no_quote: "n < 16 \<Longrightarrow> hex_digit n \<noteq> 39"
proof
  assume "n < 16" "hex_digit n = 39"
  then have "sscanf_x1 39 0 = (1, ucast n)" using sscanf_hex_digit [of n 0] by simp
  then show False by (simp add: sscanf_x1_def c_isspace_def)
qed

lemma hex_of_no_quote: "39 \<notin> set (hex_of t)"
proof -
  have "hex_digit (drop_bit 4 x) \<noteq> 39" "hex_digit (x AND 15) \<noteq> 39" for x
    by (rule hex_digit_no_quote, rule nibble_lt)+
  then show ?thesis by (auto simp: hex_of_def)
qed

text \<open>A start that reports success on a file without the table stores the ID it took.\<close>

lemma first_start_stores:
  assumes "sqlite_ok sq table" "table w = None" "tok_wf fresh" "vcfg_get_host_db_file cfg = Some file"
    and r: "aux_vhost_get_nodeId sq fresh cfg myid w = Some (0, t, w')"
  shows "t = fresh \<and> table w' = Some [hex_of fresh]"
proof -
  note ok = sqlite_okD [OF assms(1)]
  obtain r0 w0 where o: "sq_open sq file w = (r0, w0)" by (metis prod.collapse)
  obtain r1 rows w1 where s: "sq_exec sq nodeId_select w0 = ((r1, rows), w1)" by (metis prod.collapse)
  obtain r2 q2 w2 where c: "sq_exec sq nodeId_create w1 = ((r2, q2), w2)" by (metis prod.collapse)
  obtain r3 q3 w3 where n: "sq_exec sq (nodeId_insert (hex_of fresh)) w2 = ((r3, q3), w3)" by (metis prod.collapse)
  have f: "vtoken_strlize fresh 64 = Some (Some (hex_of fresh))" using vtoken_strlize_spec [OF assms(3), of 64] by simp
  have z: "r0 = 0" using r by (auto simp: aux_vhost_get_nodeId_def assms(4) o vassert_def split: if_splits)
  have t0: "table w0 = None" using ok(1) [OF o [unfolded z]] assms(2) by simp
  have s1: "r1 \<noteq> 0" "rows = []" using ok(3) [OF s t0] by simp_all
  have e: "t = fresh" "w' = w3" "r2 = 0" "r3 = 0"
    using r by (auto simp: aux_vhost_get_nodeId_def assms(4) o z s s1 c n f vassert_def split: if_splits)
  have t2: "table w2 = Some []" by (rule ok(5) [OF c [unfolded e(3)]])
  have "table w3 = Some ([] @ [hex_of fresh])"
    by (rule ok(6) [OF n [unfolded e(4)] t2 hex_of_no_quote])
  then show ?thesis using e by simp
qed

text \<open>A start on a file whose table has the texts of IDs takes the last of them, or keeps what was there when it has none.\<close>

lemma get_nodeId_rows_hex:
  "\<forall>t \<in> set ts. tok_wf t \<Longrightarrow> tok_wf myid \<Longrightarrow> get_nodeId_rows (map (Some \<circ> hex_of) ts) myid = Some (last (myid # ts))"
proof (induction ts arbitrary: myid)
  case (Cons t ts)
  have "vtoken_unstrlize (hex_of t @ [0]) myid = Some (0, t)" using vtoken_hex_roundtrip Cons.prems by simp
  then show ?case using Cons.IH [of t] Cons.prems by (simp add: get_nodeId_cb_def)
qed simp

lemma later_start_reads:
  assumes "sqlite_ok sq table" "table w = Some (map hex_of ts)" "\<forall>t \<in> set ts. tok_wf t" "tok_wf myid"
    and "vcfg_get_host_db_file cfg = Some file" "int (length file) < BUF_SZ" "fst (sq_open sq file w) = 0"
  shows "\<exists>w'. aux_vhost_get_nodeId sq fresh cfg myid w = Some (0, last (myid # ts), w') \<and> table w' = table w"
proof -
  note ok = sqlite_okD [OF assms(1)]
  obtain w0 where o: "sq_open sq file w = (0, w0)" using assms(7) by (metis prod.collapse)
  obtain r1 rows w1 where s: "sq_exec sq nodeId_select w0 = ((r1, rows), w1)" by (metis prod.collapse)
  have t0: "table w0 = table w" by (rule ok(1) [OF o])
  have "r1 = 0" "rows = map Some (map hex_of ts)" "table w1 = table w0"
    using ok(4) [OF s, of "map hex_of ts"] ok(2) [OF s] t0 assms(2) by simp_all
  then show ?thesis using o s t0 get_nodeId_rows_hex [OF assms(3,4)] assms(5,6)
    by (simp add: aux_vhost_get_nodeId_def vassert_def)
qed
text \<open>The ID stored by the first start is the ID of every later one, whatever would have been made then.\<close>

lemma restart_keeps_id:
  assumes "sqlite_ok sq table" "table w = None" "tok_wf fresh" "tok_wf myid"
    and "vcfg_get_host_db_file cfg = Some file" "int (length file) < BUF_SZ"
    and "aux_vhost_get_nodeId sq fresh cfg junk w = Some (0, t, w1)"
    and "table w2 = table w1" "fst (sq_open sq file w2) = 0"
  shows "t = fresh \<and> (\<exists>w3. aux_vhost_get_nodeId sq other cfg myid w2 = Some (0, t, w3) \<and> table w3 = table w1)"
proof -
  have f: "t = fresh" "table w1 = Some [hex_of fresh]" using first_start_stores [OF assms(1-3,5,7)] by simp_all
  then have "table w2 = Some (map hex_of [fresh])" using assms(8) by simp
  from later_start_reads [OF assms(1) this _ assms(4-6,9), of other] show ?thesis using assms(3,8) f by simp
qed

text \<open>A table without rows, left by a start that stopped before the insertion, makes every later start take the ID of zeros and report success.\<close>

theorem empty_table_gives_zero_id:
  assumes "sqlite_ok sq table" "table w = Some []"
    and "vcfg_get_host_db_file cfg = Some file" "int (length file) < BUF_SZ" "fst (sq_open sq file w) = 0"
  shows "\<exists>w'. aux_vhost_get_nodeId sq fresh cfg (replicate 20 0) w = Some (0, replicate 20 0, w') \<and> table w' = Some []"
proof -
  have "table w = Some (map hex_of [])" "tok_wf (replicate 20 0)" using assms(2) by (simp_all add: tok_wf_def VTOKEN_LEN_def)
  from later_start_reads [OF assms(1) this(1) _ this(2) assms(3-5)] show ?thesis using assms(2) by simp
qed

subsection \<open>A file of one table\<close>

definition sqlite_x :: "bytes list option sqlite" where
  "sqlite_x = \<lparr>sq_open = \<lambda>file w. (0, w),
     sq_exec = \<lambda>q w.
       if q = nodeId_select then (case w of None \<Rightarrow> ((1, []), w) | Some rows \<Rightarrow> ((0, map Some rows), w))
       else if q = nodeId_create then (case w of None \<Rightarrow> ((0, []), Some []) | Some _ \<Rightarrow> ((1, []), w))
       else (case w of None \<Rightarrow> ((1, []), w) | Some rows \<Rightarrow> ((0, []), Some (rows @ [take (length q - 44) (drop 42 q)])))\<rparr>"

lemma nodeId_texts: "nodeId_create \<noteq> nodeId_select" "nodeId_insert s \<noteq> nodeId_select" "nodeId_insert s \<noteq> nodeId_create"
proof -
  have "hd nodeId_create = 67" "hd nodeId_select = 115" "hd (nodeId_insert s) = 105"
    by (simp_all add: nodeId_create_def nodeId_select_def nodeId_insert_def cstr_def)
  then show "nodeId_create \<noteq> nodeId_select" "nodeId_insert s \<noteq> nodeId_select" "nodeId_insert s \<noteq> nodeId_create" by force+
qed

lemma nodeId_insert_text: "take (length (nodeId_insert s) - 44) (drop 42 (nodeId_insert s)) = s"
  by (simp add: nodeId_insert_def VNODEID_TB_def cstr_def)

lemma sqlite_x_ok: "sqlite_ok sqlite_x (\<lambda>w. w)"
  by (auto simp: sqlite_ok_def sqlite_x_def nodeId_texts nodeId_insert_text split: option.splits)
lemma empty_table_gives_zero_id_witness:
  "\<exists>w'. aux_vhost_get_nodeId sqlite_x (replicate 20 7) vdict_init (replicate 20 0) (Some []) = Some (0, replicate 20 0, w') \<and> w' = Some []"
  by (rule empty_table_gives_zero_id [OF sqlite_x_ok refl, of vdict_init "cstr ''vdht.db''"]; code_simp)

end
