(* ===== verification/Spec2Isabelle.thy ===== *)
theory Spec2Isabelle
  imports Machine Closest Locks LsctlProto ConfigRender Settings Rpc Nice VList VMem HashGen HashMap Upnp Identity
begin

text \<open>
  A verification development for \<open>vdht\<close>, a daemon that takes part in a distributed hash table, and its client
  library. The file names are those under \<open>src/\<close>.

  \<^bold>\<open>The program.\<close> A daemon has one \<open>vhost\<close>. It receives datagrams through a socket (\<open>vrpc\<close>, watched by a \<open>vwaiter\<close>), hands
  them to a messenger (\<open>vmsger\<close>), which calls what is registered for their kind: the \<open>vroute\<close> for messages of the DHT, the
  control socket (\<open>vlsctl\<close>) for requests of clients. The route decodes a message (\<open>vdht.c\<close> over \<open>vdht_core.c\<close>), matches a response with
  the ticket of its query (\<open>vroute_tckt.c\<close>), updates the table of nodes (\<open>vroute_node.c\<close>) and of services
  (\<open>vroute_srvc.c\<close>), and answers through the outgoing queue of the messenger. A timer (\<open>vticker\<close>) drives the \<open>vnode\<close>, which starts,
  maintains and stores the tables and knows the addresses and services of the host itself. Clients use
  \<open>vdhtapi.c\<close>, which packs requests with \<open>vlsctlc.c\<close>.

  \<^bold>\<open>Conventions.\<close> A \<open>struct\<close> is a record, an array whose length is fixed by its type a list of that length; bytes and
  the fields with a fixed width are words, an \<open>int\<close> is an \<open>int\<close> with its overflow written out where the code can get there. A C function
  that can crash (an assertion, an access outside an object, undefined behaviour) returns an \<open>option\<close>, \<open>None\<close> for the crash; what the code itself
  reports as failure stays a value of the result (\<open>-1\<close>, \<open>NULL\<close> as \<open>Some None\<close>). A function that changes an object
  returns it. Loops that need not end, or whose end is to be proved, give an \<open>outcome option\<close>: \<open>None\<close> for no end,
  \<open>Some Crash\<close> for a crash. Memory, time, randomness and the calls of libraries (SQLite, miniupnp, the socket calls, \<open>getaddrinfo\<close>) are
  arguments; whether an allocation succeeds is the flag \<open>mem\<close>.

  \<^bold>\<open>Data and utilities.\<close>
  \<^item> \<open>VPrelude\<close>: words, bytes, lists accessed by index, outcomes, and the collections of simplification and introduction rules the others share.
  \<^item> \<open>VArray\<close> (\<open>utils/varray.c\<close>): the arrays of pointers and the sorted array; every operation refines one on lists; locale \<open>ranking\<close>, what
    insertion gives under a comparison that is an order.
  \<^item> \<open>VDict\<close> (\<open>utils/vdict.c\<close>), \<open>VList\<close> (\<open>utils/vlist.h\<close>, on an explicit store of nodes: the rings refine lists and leave other nodes alone),
    \<open>VMem\<close> (\<open>utils/vmem.c\<close>: locale \<open>object_pool\<close>, interpreted as \<open>cache\<close>), \<open>HashMap\<close> (\<open>utils/vhashmap.c\<close>, which cannot take its first value).
  \<^item> \<open>NodeId\<close>, \<open>NodeInfo\<close> (\<open>vnodeId.c\<close>, part of \<open>utils/vmisc.c\<close>): IDs, their distance and text, versions, node and service infos with their addresses;
    locale \<open>addr_holder\<close>, interpreted for both kinds of info.
  \<^item> \<open>AddrText\<close> (\<open>utils/vmisc.c\<close>): addresses as text, with the C library's \<open>inet_aton\<close>.
  \<^item> \<open>HashGen\<close> (\<open>lsctl/vhashgen.c\<close>): the hash of a service; equal to a reference on whole messages.

  \<^bold>\<open>The DHT.\<close>
  \<^item> \<open>BeCodec\<close> (\<open>vdht_core.c\<close>): the bencode decoder and encoder; round trip, and that the decoder's fuel, twice the bytes and one, is always enough.
  \<^item> \<open>DhtMsg\<close> (\<open>vdht.c\<close>): the thirteen messages, each decoded to what was encoded.
  \<^item> \<open>TcktSpace\<close> (\<open>vroute_tckt.c\<close>): the tickets; locale \<open>pending_checks\<close>: as many responses are accepted as there were queries; what
    happens when the array has no free slot.
  \<^item> \<open>NodeSpace\<close>, \<open>Closest\<close>, \<open>Persist\<close> (\<open>vroute_node.c\<close>): the table of nodes, its invariant, what a look-up for the closest nodes gives,
    storing and loading. Locale \<open>dht_ops\<close>: what the table needs of the route; interpreted in \<open>Route\<close>.
  \<^item> \<open>SrvcSpace\<close> (\<open>vroute_srvc.c\<close>): the table of services.
  \<^item> \<open>Msger\<close> (\<open>vmsger.c\<close>, \<open>vticker.c\<close>, the packing functions of \<open>vhost.c\<close>): buffers, queue and dispatch; locale \<open>fifo\<close>.
  \<^item> \<open>Route\<close> (\<open>vroute.c\<close>): the operations that send queries and answers, and the handlers of all messages; \<open>Keeps\<close>: what none of them changes.

  \<^bold>\<open>The daemon.\<close>
  \<^item> \<open>VNode\<close>, \<open>Host\<close> (\<open>vnode.c\<close>, \<open>vhost.c\<close>): the addresses and services of the host, its modes, the ticks, the requests of clients.
  \<^item> \<open>Machine\<close>: a host as a state machine, the relation \<open>host_step\<close> over requests, ticks, arriving and leaving datagrams; reachable states and their invariants.
  \<^item> \<open>Locks\<close> (\<open>utils/vsys.c\<close>, and where locks are taken in \<open>vmsger.c\<close>, \<open>vroute.c\<close>, \<open>vnode.c\<close>, \<open>vrpc.c\<close>, \<open>vticker.c\<close>): recursive mutexes under
    any scheduler; threads that take locks in one order return; the daemon's threads do but for one handler.
  \<^item> \<open>Rpc\<close> (\<open>vrpc.c\<close>): channels over UDP and the waiter. \<open>Upnp\<close> (\<open>vupnpc.c\<close>): port mappings. \<open>Nice\<close> (\<open>vnode_nice.c\<close>, \<open>utils/vsys.c\<close>): the load announced.
  \<^item> \<open>Identity\<close> (\<open>vhost.c\<close>): the node ID in its database.
  \<^item> \<open>Config\<close>, \<open>Settings\<close> (\<open>vcfg.c\<close>): the parser of the configuration file and the settings read from the tree; \<open>ConfigText\<close>: that it returns and what it builds;
    \<open>ConfigRender\<close>: every well-formed tree has a text that is parsed back. The fuel is the length of the text and two.

  \<^bold>\<open>The clients.\<close>
  \<^item> \<open>LsctlC\<close>, \<open>DhtApi\<close> (\<open>lsctl/vlsctlc.c\<close>, \<open>lsctl/vdhtapi.c\<close>): packing a request, unpacking a response, the calls of the library.
  \<^item> \<open>Lsctl\<close> (\<open>vlsctl.c\<close>, \<open>vapp.c\<close>): unpacking and executing the requests in the daemon, with the arguments of running searches in a store.
  \<^item> \<open>LsctlProto\<close>: a call of the library performs the operation of the same name in the daemon, and a search gets its answer back.

  \<^bold>\<open>Bounds and fuel.\<close> A loop over the \<open>n\<close> items of an array recurses on \<open>n\<close>. The loop over the addresses of a node that grows
  them has the first argument 12, the most addresses there can be (\<open>uaddrs_loop_total\<close>); the loops over the texts of addresses have the length of the text and
  one; the shifts of \<open>aux_power_of_2\<close> stop at 30, where the next would overflow; \<open>be_decode_fuel\<close> and \<open>config_parser_returns\<close> show that the
  decoder's and the parser's fuel never runs out.

  \<^bold>\<open>This theory\<close> states the properties of the components and those that span several: two nodes that talk, restarts, reachable
  states of a host, the threads of a daemon, a client and its daemon, a message on its way from one host to another. They are
  numbered \<open>C1\<close>, \<open>C2\<close>, \<open>...\<close>; the theorems without a number are weaker or more special. Theorems whose names speak of
  crashes, deadlocks or stops state what goes wrong in the code. Where a crash can be reached from outside (a full array of
  tickets, a message a decoder dies on), the properties say when it happens; where they exclude it by a hypothesis (a node info of
  unknown version with several addresses, more than 31 candidates for the closest nodes, a stored peer with the port 0), their
  text names the condition.

  \<^bold>\<open>Not modelled.\<close> Functions that only print (\<open>dump\<close>, \<open>inspect\<close>, \<open>vlog.c\<close>, \<open>vperf.c\<close>); functions that only free memory; the wrappers of threads,
  conditions and timers in \<open>utils/vsys.c\<close>, which pass their arguments to POSIX; the Unix-socket operations of \<open>vrpc.c\<close>, whose addresses are a union that
  overlays two layouts, and the socket calls of \<open>lsctl/vdhtapi.c\<close>; the enumeration of network interfaces with \<open>ioctl\<close> in \<open>utils/vmisc.c\<close>;
  the programs (\<open>vmain.c\<close>, \<open>lsctl/vlsctlc_main.c\<close>, \<open>hashgen/vhashgen_main.c\<close>, \<open>example/\<close>) and the pass-through functions of \<open>vdhtapp.c\<close>. Failing
  allocations are modelled where the code handles them, except in the codec and the configuration, where they are taken to succeed. What holds between the lock operations of two
  threads is not modelled: a step of \<open>Machine\<close> runs to its end.
\<close>

section \<open>Sample values for the witnesses\<close>

definition id_a :: vtoken where "id_a = 0 # replicate 19 0"
definition id_b :: vtoken where "id_b = 1 # replicate 19 0"
definition id_c :: vtoken where "id_c = 2 # replicate 19 0"
definition ver_x :: vtoken where "ver_x = 1 # replicate 19 0"
definition nonce_x :: vnonce where "nonce_x = [1, 2, 3, 4]"

definition space_x :: node_space where
  "space_x = \<lparr>ns_myid = id_a, ns_myver = ver_x, ns_zaddr = sockaddr_zero, ns_bucket_sz = 10,
     ns_init_next_tmo = 2, ns_max_next_tmo = 60, ns_max_next_tmo_unreachable = 240, ns_next_tmo_step = 5,
     ns_max_probe_tms = 3, ns_max_ping_tms = 3,
     ns_bucket = replicate NBUCKETS \<lparr>bk_peers = varray_init 8, bk_ts = 0\<rparr>\<rparr>"

text \<open>A space whose buckets take no peer at all.\<close>

definition space_0 :: node_space where "space_0 = space_x\<lparr>ns_bucket_sz := 0\<rparr>"

definition node_b :: vnodeInfo where
  "node_b = \<lparr>ni_id = id_b, ni_ver = ver_x, ni_weight = 0, ni_naddrs = 1, ni_capc = 12,
     ni_addrs = replicate 12 vsockaddr_zero, ni_heap = False\<rparr>"

definition srvc_b :: vsrvcInfo where
  "srvc_b = \<lparr>si_hash = id_c, si_hostid = id_b, si_nice = 5, si_proto = 1, si_naddrs = 1, si_capc = 12,
     si_addrs = replicate 12 vsockaddr_zero, si_heap = False\<rparr>"

lemmas sample_defs = id_a_def id_b_def id_c_def ver_x_def nonce_x_def

lemma sample_toks [simp]:
  "tok_wf id_a" "tok_wf id_b" "tok_wf id_c" "tok_wf ver_x" "nonce_wf nonce_x"
  by (simp_all add: sample_defs tok_wf_def VTOKEN_LEN_def nonce_wf_def VNONCE_LEN_def)

lemma sample_ids [simp]: "id_b \<noteq> id_a" "id_a \<noteq> id_b" "id_c \<noteq> id_a" "id_c \<noteq> id_b" "id_b \<noteq> id_c"
  by (simp_all add: sample_defs)

lemma space_x_wf [simp]: "space_wf space_x" "space_wf space_0"
  by (simp_all add: space_wf_def bucket_wf_def space_x_def space_0_def)

lemma space_x_empty [simp]:
  "i < NBUCKETS \<Longrightarrow> bucket_list space_x i = []" "i < NBUCKETS \<Longrightarrow> bucket_list space_0 i = []"
  by (simp_all add: bucket_list_def space_x_def space_0_def)

lemma space_x_fields [simp]:
  "ns_myid space_x = id_a" "ns_myver space_x = ver_x" "ns_bucket_sz space_x = 10"
  "ns_myid space_0 = id_a" "ns_myver space_0 = ver_x" "ns_bucket_sz space_0 = 0"
  by (simp_all add: space_x_def space_0_def)

lemma node_b_news: "node_news node_b" "ni_id node_b = id_b" "int32_ok (ni_weight node_b + 1)" "int32_ok (ni_weight node_b)"
  by (simp_all add: node_news_def node_src_def node_b_def addrs_distinct_def ni_list_def int32_ok_def)

lemma node_b_add_ok: "add_ok space_x node_b VADD_BY_OTHER" "add_ok space_0 node_b VADD_BY_OTHER"
  by (simp_all add: add_ok_def node_b_news)

lemma node_b_wf: "node_wf node_b" "node_sendable node_b" "node_room node_b"
  by (simp_all add: node_wf_def node_sendable_def node_room_def node_b_def addrs_distinct_def ni_list_def int32_ok_def
      slot_wf_def vsockaddr_zero_def sockaddr_zero_def)

lemma srvc_b_wf: "srvc_wf srvc_b" "srvc_sendable srvc_b" "srvc_room srvc_b"
  by (simp_all add: srvc_wf_def srvc_sendable_def srvc_room_def srvc_b_def addrs_distinct_def si_list_def int16_ok_def
      slot_wf_def vsockaddr_zero_def sockaddr_zero_def VSOCKADDR_BUTT_def)

section \<open>The routing table\<close>

text \<open>
  C1. Adding a received node to a well-formed routing table, while memory lasts, returns 0 without a crash, and leaves the table well-formed:
  every peer is in the bucket its ID's distance selects, no ID twice, no bucket above its size. Our own ID stays, and with
  our own ID as the node nothing changes at all. No bucket but the one of the node's distance changes; in that one the IDs
  stay, in order, when the node is known already, and the new ID comes at their end when it is new and the bucket has
  room. The node info must be usable: a 20-byte ID and version, one to twelve distinct addresses, exactly one when its
  version is unknown (what the code makes of the sender of a ping), and a weight that can grow by one. A node info without
  addresses, or one of unknown version with several, is not covered: with a new node of the first kind the code reads before the
  addresses (\<open>vpeer_init_addressless\<close>), with a known one of the second it can read freed memory (\<open>vnodeInfo_merge_fake_stale\<close>).
\<close>

theorem add_node_keeps_table:
  assumes "space_wf space" "node_news nodei" "int32_ok (ni_weight nodei + 1)" "flag = VADD_BY_OTHER \<or> flag = VADD_BY_PING_RSP"
  defines "ids s \<equiv> map pid (bucket_list s (home space nodei))"
  shows "if ni_id nodei = ns_myid space then vroute_node_space_add_node True now space nodei flag = Some (0, space, nodei)
    else \<exists>space'. vroute_node_space_add_node True now space nodei flag = Some (0, space', weighed space nodei) \<and>
      space_wf space' \<and> ns_myid space' = ns_myid space \<and>
      (\<forall>i. i \<noteq> home space nodei \<longrightarrow> bucket_list space' i = bucket_list space i) \<and>
      (ni_id nodei \<in> set (ids space) \<longrightarrow> ids space' = ids space) \<and>
      (ni_id nodei \<notin> set (ids space) \<and> int (length (ids space)) < ns_bucket_sz space \<longrightarrow> ids space' = ids space @ [ni_id nodei])"
proof (cases "ni_id nodei = ns_myid space")
  case True
  then show ?thesis using add_node_self [OF assms(1), of nodei] assms(2) by (simp add: node_news_def node_src_def)
next
  case False
  then have "add_ok space nodei flag" using assms by (simp add: add_ok_def)
  from add_node_placed [OF this, of now] False show ?thesis unfolding ids_def by auto
qed

lemma add_node_keeps_table_witness:
  "\<exists>space'. vroute_node_space_add_node True 7 space_x node_b VADD_BY_OTHER = Some (0, space', weighed space_x node_b) \<and>
    space_wf space' \<and> ns_myid space' = id_a \<and> map pid (bucket_list space' (home space_x node_b)) = [id_b]"
proof -
  have ok: "space_wf space_x" "node_news node_b" "int32_ok (ni_weight node_b + 1)" "ni_id node_b \<noteq> ns_myid space_x"
    using node_b_add_ok(1) by (simp_all add: add_ok_def)
  show ?thesis
    using add_node_keeps_table [OF ok(1-3), of VADD_BY_OTHER 7] ok(4)
    by (auto simp: bucket_list_def space_x_def va_list_def varray_init_def node_b_news)
qed



text \<open>
  A full bucket never takes a new node, whatever the ping counts and weights of its peers: the
  node info of every peer of the table stays as it was. The comment in the source says that the worst
  peer is replaced, but merging the info of another node into it changes nothing.
\<close>

theorem full_bucket_keeps_nodes:
  assumes "add_ok space nodei flag" "ni_id nodei \<notin> set (map pid (bucket_list space (home space nodei)))"
    "int (length (bucket_list space (home space nodei))) = ns_bucket_sz space"
  shows "\<exists>space'. vroute_node_space_add_node True now space nodei flag = Some (0, space', weighed space nodei) \<and>
    (\<forall>i. map vp_nodei (bucket_list space' i) = map vp_nodei (bucket_list space i))"
  by (rule add_node_full [OF assms])

lemma full_bucket_keeps_nodes_witness:
  "\<exists>space'. vroute_node_space_add_node True 7 space_0 node_b VADD_BY_OTHER = Some (0, space', weighed space_0 node_b) \<and>
    (\<forall>i. map vp_nodei (bucket_list space' i) = map vp_nodei (bucket_list space_0 i))"
  using full_bucket_keeps_nodes [OF node_b_add_ok(2), of 7] by (auto simp: node_b_news)


section \<open>The ticket space\<close>

text \<open>
  C3. While the ticket array has a free slot, of any number of responses carrying a nonce exactly as many are accepted as
  queries with that nonce are outstanding; each acceptance uses one up and the other outstanding nonces are untouched,
  so a response cannot be replayed and one that was never asked for is refused. When all slots of the array are in use,
  responses nobody waits for are refused all the same, and the first one that is waited for crashes the daemon: removing
  its ticket reads past the slots.
\<close>

theorem responses_accepted_once:
  assumes "tickets_wf tspace" "nonce_wf n"
  shows "if tckt_room tspace
    then \<exists>tspace'. settle_times (settle_check space u) k n tspace = Some (min k (count (pending tspace) n), tspace') \<and>
      tickets_wf tspace' \<and> tckt_room tspace' \<and> count (pending tspace') n = count (pending tspace) n - k \<and>
      (\<forall>m. m \<noteq> n \<longrightarrow> count (pending tspace') m = count (pending tspace) m)
    else settle_times (settle_check space u) k n tspace =
      (if k = 0 \<or> n \<notin># pending tspace then Some (0, tspace) else None)"
  using tickets.settle_times_count [OF assms(1) _ assms(2)] settle_times_full [OF assms(1) _ assms(2)] by simp

definition tspace_x :: "nat tckt_space" where
  "tspace_x = \<lparr>ts_overdue_tmo = 3, ts_tickets = \<lparr>va_used = 1, va_capc = 2, va_first = 2,
     va_items = [Some \<lparr>tk_ts = 0, tk_info = NonceCheck nonce_x\<rparr>, None]\<rparr>\<rparr>"

lemma tspace_x_ok [simp]:
  "tickets_wf tspace_x" "tckt_room tspace_x" "pending tspace_x = {#nonce_x#}" "tckt_wf tspace_x"
  "tickets tspace_x = [\<lparr>tk_ts = 0, tk_info = NonceCheck nonce_x\<rparr>]" "ts_overdue_tmo tspace_x = 3"
  by (auto simp: tickets_wf_def tckt_wf_def tckt_room_def pending_def tickets_def tspace_x_def va_wf_def va_list_def
      map_filter_simps intro: exI [of _ 0])

lemma responses_accepted_once_witness:
  "\<exists>tspace'. settle_times (settle_check space_x 0) 5 nonce_x tspace_x = Some (1, tspace') \<and> pending tspace' = {#}"
proof -
  obtain t where 1: "settle_times (settle_check space_x 0) 5 nonce_x tspace_x = Some (1, t)"
      and "count (pending t) nonce_x = 0" "\<forall>m. m \<noteq> nonce_x \<longrightarrow> count (pending t) m = 0"
    using responses_accepted_once [OF tspace_x_ok(1), of nonce_x space_x 0 5] by auto
  then have "pending t = {#}" by (metis count_empty multiset_eqI)
  with 1 show ?thesis by blast
qed

text \<open>
  C4. The search loop over the ticket array, which deletes while it runs, computes what the recursive
  specification computes on the list of tickets: tickets of other types and tickets that do not match
  stay in order, each match is punched in order and removed, and a nonce check stops at the first match. It crashes
  exactly when punching a matching ticket does, or when a ticket matches and all slots of the array are in use
  (removing it reads past the slots); a search that matches nothing changes nothing even then.
\<close>

theorem check_ticket_refines_list:
  assumes "tckt_wf tspace"
  shows "if tckt_room tspace \<or> (\<forall>t \<in> set (tickets tspace). \<not> punches argv (tk_info t))
    then (case check_list argv (tickets tspace) space u of
        None \<Rightarrow> vroute_tckt_space_check_ticket True tspace argv space u = None
      | Some (f, l, space', u') \<Rightarrow> \<exists>tspace'. vroute_tckt_space_check_ticket True tspace argv space u = Some (f, tspace', space', u') \<and>
          tckt_wf tspace' \<and> (tckt_room tspace \<longrightarrow> tckt_room tspace') \<and> tickets tspace' = l \<and> ts_overdue_tmo tspace' = ts_overdue_tmo tspace)
    else vroute_tckt_space_check_ticket True tspace argv space u = None"
  using check_ticket_cases [OF assms, of argv space u] unfolding removable_def .

lemma check_ticket_refines_list_witness:
  "\<exists>tspace'. vroute_tckt_space_check_ticket True tspace_x (QueryNonce nonce_x) space_x 0 = Some (True, tspace', space_x, 0) \<and>
    tickets tspace' = []"
proof -
  have "check_list (QueryNonce nonce_x) (tickets tspace_x) space_x 0 = Some (True, [], space_x, 0)"
    by (simp add: vticket_punch_def)
  with check_ticket_refines_list [OF tspace_x_ok(4), of "QueryNonce nonce_x" space_x 0] show ?thesis by auto
qed

text \<open>
  C5. Reaping removes exactly the tickets that are \<open>overdue_tmo\<close> seconds old or older, keeps the others
  in order, and tells the clients of the service probes among the removed ones, in order, that nothing was found, provided
  the ticket array has a free slot. When all its slots are in use, reaping changes nothing if no ticket is overdue, and
  crashes the daemon if one is: removing it reads past the slots.
\<close>

theorem reap_removes_overdue:
  assumes "tckt_wf tspace"
  shows "if tckt_room tspace
    then \<exists>tspace'. vroute_tckt_space_timed_reap True now tspace u =
        Some (tspace', fold vticket_timedout_punch (filter (overdue now (ts_overdue_tmo tspace)) (tickets tspace)) u) \<and>
      tckt_wf tspace' \<and> tckt_room tspace' \<and> ts_overdue_tmo tspace' = ts_overdue_tmo tspace \<and>
      tickets tspace' = filter (\<lambda>t. \<not> overdue now (ts_overdue_tmo tspace) t) (tickets tspace)
    else vroute_tckt_space_timed_reap True now tspace u =
      (if \<exists>t \<in> set (tickets tspace). overdue now (ts_overdue_tmo tspace) t then None else Some (tspace, u))"
  using timed_reap_spec [OF assms] timed_reap_full [OF assms] by simp

lemma reap_removes_overdue_witness:
  "\<exists>tspace'. vroute_tckt_space_timed_reap True 3 tspace_x 5 = Some (tspace', 5) \<and> tickets tspace' = []"
  using reap_removes_overdue [OF tspace_x_ok(4), of 3 5] by (auto simp: overdue_def vticket_timedout_punch_def)

text \<open>
  When the ticket array is full (as with the eighth ticket) and its first ticket is overdue,
  reaping reads past the end of the array.
\<close>

theorem reap_full_array_crashes:
  assumes "tckt_wf tspace" "\<not> tckt_room tspace" "tickets tspace \<noteq> []"
    "overdue now (ts_overdue_tmo tspace) (hd (tickets tspace))"
  shows "vroute_tckt_space_timed_reap True now tspace u = None"
  by (rule reap_full_crashes [OF assms])

definition tspace_full :: "nat tckt_space" where
  "tspace_full = \<lparr>ts_overdue_tmo = 3, ts_tickets = \<lparr>va_used = 8, va_capc = 8, va_first = 8,
     va_items = replicate 8 (Some \<lparr>tk_ts = 0, tk_info = NonceCheck nonce_x\<rparr>)\<rparr>\<rparr>"

lemma reap_full_array_crashes_witness: "vroute_tckt_space_timed_reap True 3 tspace_full 0 = None"
  by (rule reap_full_array_crashes)
    (simp_all add: tckt_wf_def tckt_room_def tickets_def tspace_full_def va_wf_def va_list_def overdue_def exI [of _ 0])

section \<open>Messages and their encoding\<close>

text \<open>
  C6. Bencoding round trip: encoding a well-formed tree into a buffer that is large enough succeeds, and
  decoding the bytes written, whatever follows them, gives the tree back.
\<close>

theorem bencode_roundtrip:
  assumes "be_wf n" "int (length (be_enc n)) < len"
  shows "\<exists>s. be_encode n len = Some (Some s) \<and> be_decode (s @ rest) (int (length s)) = Some (Some n)"
  using be_decode_encode [OF assms, of rest] by metis

lemma bencode_roundtrip_witness:
  "\<exists>s. be_encode (BeList [BeInt 7, BeStr [1]]) 20 = Some (Some s) \<and> be_decode (s @ [9]) (int (length s)) = Some (Some (BeList [BeInt 7, BeStr [1]]))"
  by (rule bencode_roundtrip) (simp_all add: int32_ok_def dec_int_def dec_nat.simps)

text \<open>
  A ping response fits the message buffer and is understood by its receiver as a ping response with the
  same nonce and the sender's node info.
\<close>

theorem ping_rsp_roundtrip:
  assumes "nonce_wf nonce" "tok_wf src" "node_sendable n" "nonce_wf n0" "node_room old"
  shows "arrives (vdht_enc_ping_rsp nonce src n vdht_buf_len) VDHT_PING_R
    (\<lambda>d. vdht_dec_ping_rsp d n0 old) (nonce, node_received n old) rest"
  by (rule ping_rsp_arrives [OF assms])

lemma ping_rsp_roundtrip_witness:
  "arrives (vdht_enc_ping_rsp nonce_x id_b node_b vdht_buf_len) VDHT_PING_R
    (\<lambda>d. vdht_dec_ping_rsp d nonce_x node_b) (nonce_x, node_received node_b node_b) []"
  by (rule ping_rsp_roundtrip) (simp_all add: node_b_wf)

text \<open>
  C7. A response with up to 13 closest nodes fits the message buffer, and the receiver gets the same
  nodes in the same order (the code sends at most eight).
\<close>

theorem closest_nodes_roundtrip:
  assumes "nonce_wf nonce" "tok_wf src" "va_wf closest" "\<forall>n \<in> set (va_list closest). node_sendable n"
    "length (va_list closest) \<le> 13" "nonce_wf n0" "tok_wf t0"
  shows "\<exists>received. va_list received = map (\<lambda>n. node_received n relax_zero) (va_list closest) \<and>
    arrives (vdht_enc_find_closest_nodes_rsp nonce src closest vdht_buf_len) VDHT_FIND_CLOSEST_NODES_R
      (\<lambda>d. vdht_dec_find_closest_nodes_rsp (\<lambda>_. True) True d n0 t0 (varray_init 0)) (nonce, src, received) rest"
  by (rule find_closest_nodes_rsp_arrives [OF assms])

definition nodes_x :: "vnodeInfo varray" where
  "nodes_x = \<lparr>va_used = 1, va_capc = 8, va_first = 8, va_items = Some node_b # replicate 7 None\<rparr>"

lemma nodes_x_wf: "va_wf nodes_x" "va_list nodes_x = [node_b]"
  by (auto simp: nodes_x_def va_wf_def va_list_def intro: exI [of _ 0])

lemma closest_nodes_roundtrip_witness:
  "\<exists>received. va_list received = [node_received node_b relax_zero] \<and>
    arrives (vdht_enc_find_closest_nodes_rsp nonce_x id_b nodes_x vdht_buf_len) VDHT_FIND_CLOSEST_NODES_R
      (\<lambda>d. vdht_dec_find_closest_nodes_rsp (\<lambda>_. True) True d nonce_x id_a (varray_init 0)) (nonce_x, id_b, received) []"
  using closest_nodes_roundtrip [of nonce_x id_b nodes_x nonce_x id_a "[]"] by (simp add: nodes_x_wf node_b_wf)

text \<open>
  C8. A service announcement that can be sent (a well-formed service info: hash and host ID of 20 bytes, up to twelve distinct
  addresses of known types; nice value and protocol of 16 bits) fits the message buffer. Its receiver, with room for twelve
  addresses, understands it as an announcement, and gets the sender's ID, the nonce, and the hash, host ID, nice value, protocol and
  addresses in order, whatever follows the message in the buffer.
\<close>

theorem post_service_roundtrip:
  assumes "nonce_wf nonce" "tok_wf src" "srvc_sendable s" "nonce_wf n0" "tok_wf t0" "srvc_room old"
  shows "arrives (vdht_enc_post_service nonce src s vdht_buf_len) VDHT_POST_SERVICE
    (\<lambda>d. vdht_dec_post_service d n0 t0 old) (nonce, src, srvc_received s old) rest"
  by (rule post_service_arrives [OF assms])

lemma post_service_roundtrip_witness:
  "arrives (vdht_enc_post_service nonce_x id_b srvc_b vdht_buf_len) VDHT_POST_SERVICE
    (\<lambda>d. vdht_dec_post_service d nonce_x id_a srvc_b) (nonce_x, id_b, srvc_received srvc_b srvc_b) []"
  by (rule post_service_roundtrip) (simp_all add: srvc_b_wf)

section \<open>IDs\<close>

text \<open>
  C9. The bucket of another node's ID is the position of the highest bit in which the IDs differ: the
  XOR distance, read as a big-endian number, lies between two to the bucket and the next power of two.
\<close>

theorem bucket_is_log_distance:
  assumes "tok_wf a" "tok_wf b" "a \<noteq> b"
  shows "2 ^ vnodeId_bucket a b \<le> be_val (vnodeId_dist a b) \<and> be_val (vnodeId_dist a b) < 2 ^ (vnodeId_bucket a b + 1)"
  by (rule vnodeId_bucket_spec [OF assms])

lemma bucket_is_log_distance_witness:
  "2 ^ vnodeId_bucket id_a id_b \<le> be_val (vnodeId_dist id_a id_b) \<and>
   be_val (vnodeId_dist id_a id_b) < 2 ^ (vnodeId_bucket id_a id_b + 1)"
  by (rule bucket_is_log_distance) simp_all

text \<open>The distance of IDs satisfies the triangle inequality.\<close>

theorem distance_triangle:
  assumes "tok_wf a" "tok_wf b" "tok_wf c"
  shows "be_val (vnodeId_dist a c) \<le> be_val (vnodeId_dist a b) + be_val (vnodeId_dist b c)"
  by (rule vnodeId_dist_triangle [OF assms])

lemma distance_triangle_witness:
  "be_val (vnodeId_dist id_a id_c) \<le> be_val (vnodeId_dist id_a id_b) + be_val (vnodeId_dist id_b id_c)"
  by (rule distance_triangle) simp_all

text \<open>C10. Comparing metrics compares the big-endian numbers: 1 when the first is the smaller one.\<close>

theorem metric_cmp_is_order:
  assumes "tok_wf a" "tok_wf b"
  shows "vnodeMetric_cmp a b = sgn (int (be_val b) - int (be_val a))"
  by (rule vnodeMetric_cmp_spec [OF assms])

lemma metric_cmp_is_order_witness: "vnodeMetric_cmp id_a id_b = sgn (int (be_val id_b) - int (be_val id_a))"
  by (rule metric_cmp_is_order) simp_all

text \<open>An ID printed in hexadecimal is read back as the same ID.\<close>

theorem token_text_roundtrip:
  assumes "tok_wf t" "tok_wf old" "40 < len"
  shows "\<exists>s. vtoken_strlize t len = Some (Some s) \<and> vtoken_unstrlize (s @ 0 # rest) old = Some (0, t)"
  using vtoken_hex_roundtrip [OF assms(1,2)] vtoken_strlize_spec [OF assms(1), of len] assms(3) by auto

lemma token_text_roundtrip_witness:
  "\<exists>s. vtoken_strlize id_b 64 = Some (Some s) \<and> vtoken_unstrlize (s @ 0 # []) id_a = Some (0, id_b)"
  by (rule token_text_roundtrip) simp_all

text \<open>
  C11. The text of a version, one or more bytes in decimal with dots between them, is parsed into these bytes when there are
  at most 20, and the rest of the version is kept; a text of more bytes is written past the version, which crashes.
\<close>

theorem version_parse:
  assumes "ds \<noteq> []" "tok_wf ver"
  shows "vnodeVer_unstrlize (ver_text ds @ 0 # rest) ver =
    (if length ds \<le> VTOKEN_LEN then Some (0, ds @ drop (length ds) ver) else None)"
  by (rule vnodeVer_unstrlize_spec [OF assms])

lemma version_parse_witness: "vnodeVer_unstrlize (ver_text [0, 0, 0, 1, 0] @ 0 # []) id_a = Some (0, [0, 0, 0, 1, 0] @ drop 5 id_a)"
  using version_parse [of "[0, 0, 0, 1, 0]" id_a "[]"] by (simp add: VTOKEN_LEN_def numeral_eq_Suc)

section \<open>Node infos\<close>

text \<open>
  Adding an address an info does not have keeps it well-formed (it grows when its slots are used up)
  and inserts the address before the ones of a greater type, up to twelve addresses.
\<close>

theorem add_addr_inserts:
  assumes "node_wf n" "ni_naddrs n < 12" "\<not> addr_in (ni_list n) a"
  shows "\<exists>n'. vnodeInfo_add_addr True n a t = Some (1, n') \<and> node_wf n' \<and> ni_naddrs n' = ni_naddrs n + 1 \<and>
    ni_list n' = addr_ins VSOCKADDR_TYPE \<lparr>va_addr = a, va_type = t\<rparr> (ni_list n)"
  using vnodeInfo_add_addr_new [OF assms] by blast

lemma add_addr_inserts_witness:
  "\<exists>n'. vnodeInfo_add_addr True (node_b\<lparr>ni_naddrs := 0\<rparr>) sockaddr_zero 1 = Some (1, n') \<and>
    ni_list n' = [\<lparr>va_addr = sockaddr_zero, va_type = 1\<rparr>]"
proof -
  have "node_wf (node_b\<lparr>ni_naddrs := 0\<rparr>)" "\<not> addr_in (ni_list (node_b\<lparr>ni_naddrs := 0\<rparr>)) sockaddr_zero"
    by (simp_all add: node_wf_def node_b_def ni_list_def addrs_distinct_def addr_in_def)
  then show ?thesis using add_addr_inserts [of "node_b\<lparr>ni_naddrs := 0\<rparr>" sockaddr_zero 1]
    by (auto simp: node_b_def ni_list_def addr_ins_def)
qed

text \<open>
  C12. What merging one node info into a well-formed one leaves, while memory lasts, for a source with a 20-byte ID and version and up to twelve distinct
  addresses, at most one when its version is unknown: it never crashes, the result is well-formed, and its ID stays. The
  info of another node changes nothing. A source of unknown version only adds its address, in the order of the types, if it
  is not there and a slot is left. Any other source hands over its version and weight: with as many addresses as the
  target has, they are overwritten slot by slot, keeping their types; with another number the list is replaced by the
  source's, in the order of the types. (A source of unknown version with more addresses is excluded: when the first one
  makes the target grow, the next is looked up in freed memory, \<open>vnodeInfo_merge_fake_stale\<close>.)
\<close>

theorem merge_total:
  assumes "node_wf d" "node_src s" "ni_ver s = vnodeVer_unknown \<Longrightarrow> ni_naddrs s \<le> 1"
  shows "\<exists>r d'. vnodeInfo_merge True d s = Some (r, d') \<and> node_wf d' \<and> ni_id d' = ni_id d \<and>
    (if ni_id d \<noteq> ni_id s then r = 0 \<and> d' = d
     else if ni_ver s = vnodeVer_unknown then
       ni_ver d' = ni_ver d \<and> ni_weight d' = ni_weight d \<and>
       ni_list d' = (if ni_naddrs s = 0 \<or> addr_in (ni_list d) (va_addr (hd (ni_list s))) \<or> ni_naddrs d = 12 then ni_list d
         else addr_ins VSOCKADDR_TYPE (hd (ni_list s)) (ni_list d))
     else
       ni_ver d' = ni_ver s \<and> ni_weight d' = ni_weight s \<and>
       ni_list d' = (if ni_naddrs d = ni_naddrs s then map2 merge_slot (ni_list d) (ni_list s)
         else fold (addr_ins VSOCKADDR_TYPE) (ni_list s) []))"
  by (rule vnodeInfo_merge_cases [OF assms])

lemma merge_total_witness:
  "\<exists>r d'. vnodeInfo_merge True node_b node_b = Some (r, d') \<and> node_wf d' \<and> ni_id d' = id_b \<and> ni_ver d' = ni_ver node_b"
  using merge_total [OF node_b_wf(1), of node_b] node_b_news(1) by (auto simp: node_b_news node_news_def split: if_splits)

section \<open>Arrays\<close>

text \<open>
  C13. Inserting before an item of an array refines insertion into a list when the array, grown first if all its slots were in use,
  keeps a free slot behind the new item; when it does not, the shifting loop writes past the end of the slots and crashes.
\<close>

theorem varray_add_refines:
  assumes "va_wf a" "i < va_used a"
  shows "(va_used a + 1 < grown_capc a \<longrightarrow>
      (\<exists>a'. varray_add True a (int i) (Some x) = Some (0, a') \<and> va_wf a' \<and> va_list a' = list_ins i x (va_list a)))
    \<and> (grown_capc a \<le> va_used a + 1 \<longrightarrow> varray_add True a (int i) (Some x) = None)"
  using varray_add_spec [OF assms, of x] by blast

lemma varray_add_refines_witness:
  "\<exists>a'. varray_add True nodes_x (int 0) (Some node_b) = Some (0, a') \<and> va_list a' = [node_b, node_b]"
  using varray_add_refines [of nodes_x 0 node_b] nodes_x_wf by (auto simp: nodes_x_def grown_capc_def)

text \<open>
  C14. Deleting from an array by index refines deletion from a list and returns the item deleted, and
  reads past the end of the slots exactly when the array is full.
\<close>

theorem varray_del_refines:
  assumes "va_wf a" "i < va_used a"
  shows "(va_used a < va_capc a \<longrightarrow>
      (\<exists>a'. varray_del True a (int i) = Some (Some (va_list a ! i), a') \<and> va_wf a' \<and> va_list a' = list_del i (va_list a)))
    \<and> (va_used a = va_capc a \<longrightarrow> varray_del True a (int i) = None)"
  using varray_del_spec [OF assms] by blast

lemma varray_del_refines_witness:
  "\<exists>a'. varray_del True nodes_x (int 0) = Some (Some node_b, a') \<and> va_list a' = []"
  using varray_del_refines [of nodes_x 0] nodes_x_wf by (auto simp: nodes_x_def)

section \<open>Lists and memory\<close>

text \<open>
  C15. The intrusive lists act as lists of objects: a node that is in no list is added behind the others, any object of a list is taken out of it
  wherever it stands, the links in both directions are right again, and no node outside the list is changed.
\<close>

theorem intrusive_lists_refine:
  assumes "ring h head xs"
  shows "(new \<notin> set (head # xs) \<and> h new \<noteq> None \<longrightarrow>
      (\<exists>h'. vlist_add_tail h head new = Some (new, h') \<and> ring h' head (xs @ [new]) \<and> (\<forall>x. x \<notin> set (head # new # xs) \<longrightarrow> h' x = h x)))
    \<and> (xs = ys @ e # zs \<longrightarrow>
      (\<exists>h'. vlist_del h e = Some (e, h') \<and> ring h' head (ys @ zs) \<and> (\<forall>x. x \<notin> set (head # ys @ zs) \<longrightarrow> h' x = h x)))
    \<and> vlist_is_empty h head = Some (xs = []) \<and> vlist_find_node h head condition = Some (Done (find condition xs))"
  using add_tail_ring [OF assms, of new] del_ring [of h head ys e zs] is_empty_ring [OF assms] find_node_ring [OF assms] assms by blast

definition store_x :: store where
  "store_x = [0 \<mapsto> \<lparr>vl_next = 1, vl_prev = 2\<rparr>, 1 \<mapsto> \<lparr>vl_next = 2, vl_prev = 0\<rparr>, 2 \<mapsto> \<lparr>vl_next = 0, vl_prev = 1\<rparr>, 3 \<mapsto> \<lparr>vl_next = 7, vl_prev = 7\<rparr>]"

lemma store_x_ring: "ring store_x 0 [1, 2]"
  by (simp add: ring_def store_x_def get_next_def get_prev_def)

lemma intrusive_lists_refine_witness:
  "\<exists>h'. vlist_del store_x 1 = Some (1, h') \<and> ring h' 0 [2] \<and> h' 3 = store_x 3"
  using intrusive_lists_refine [OF store_x_ring, of 3 "[]" 1 "[2]" "\<lambda>_. True"] by auto

text \<open>
  C16. Objects taken from a cache are never given out twice, and when they are all given back the cache has the objects it had:
  the caches are pools, whatever was allocated and freed before.
\<close>

theorem cache_objects_are_distinct:
  assumes "mem_wf aux" "mem_room n aux"
  shows "\<exists>ps aux1 aux2. get_many (vmem_aux_alloc True) n aux = Some (map Some ps, aux1) \<and> length ps = n \<and> distinct ps \<and>
    set ps \<inter> live_of aux = {} \<and> put_many vmem_aux_free aux1 ps = Some aux2 \<and> live_of aux2 = live_of aux \<and> mem_wf aux2"
  by (rule cache.get_then_put [OF assms])

lemma cache_objects_are_distinct_witness:
  "\<exists>ps aux1. get_many (vmem_aux_alloc True) 20 (MEM_AUX_INIT 32 8) = Some (map Some ps, aux1) \<and> length ps = 20 \<and> distinct ps"
proof -
  have "mem_room 20 (MEM_AUX_INIT 32 8)" by (simp add: mem_room_def MEM_AUX_INIT_def)
  with init_wf(1) [of 8 32] show ?thesis using cache_objects_are_distinct [of "MEM_AUX_INIT 32 8" 20] by auto
qed

text \<open>
  An object that is freed twice is not noticed, since the assertion that would assigns: in a cache with no free chunk the counter is then too low, the
  next allocation still succeeds, and the one after it fails an assertion instead of adding a zone.
\<close>

theorem double_free_stops_daemon:
  assumes "mem_wf aux" "live_of aux = slots aux" "p \<in> live_of aux" "mem_room 1 aux"
  shows "\<exists>aux1 aux2 aux3. vmem_aux_free aux (Some p) = Some aux1 \<and> vmem_aux_free aux1 (Some p) = Some aux2 \<and>
    vmem_aux_alloc True aux2 = Some (Some p, aux3) \<and> vmem_aux_alloc True aux3 = None"
  by (rule double_free_crash [OF assms])

definition aux_x :: vmem_aux where
  "aux_x = \<lparr>ma_obj_sz = 32, ma_used = 1, ma_capc = 1, ma_first = 1, ma_zones = [[\<lparr>ch_magic = CHUNK_MAGIC, ch_taken = 1\<rparr>]]\<rparr>"

lemma aux_x_live: "live_of aux_x = {(0, 0)}" "slots aux_x = {(0, 0)}"
  by (auto simp: aux_x_def live_of_def live_objs_def slots_def)

lemma double_free_stops_daemon_witness:
  "\<exists>aux1 aux2 aux3. vmem_aux_free aux_x (Some (0, 0)) = Some aux1 \<and> vmem_aux_free aux1 (Some (0, 0)) = Some aux2 \<and>
    vmem_aux_alloc True aux2 = Some (Some (0, 0), aux3) \<and> vmem_aux_alloc True aux3 = None"
proof -
  have "mem_wf aux_x" unfolding mem_wf_def aux_x_live by (simp add: aux_x_def zones_wf_def)
  moreover have "mem_room 1 aux_x" by (simp add: mem_room_def aux_x_def)
  ultimately show ?thesis using double_free_stops_daemon [of aux_x "(0, 0)"] by (simp add: aux_x_live)
qed

section \<open>Service hashes\<close>

text \<open>
  C17. Taking a magic and a cookie byte by byte, with a partial block carried over from one to the other and the padding in one or two blocks, gives the
  hash the reference computes of the two as one message, padded and cut into blocks beforehand.
\<close>

theorem service_hash_is_reference:
  assumes "length magic = 128" "cookie \<noteq> []" "length cookie < 2 ^ 28 - 128"
  shows "vdhtc_hash_with_cookie True (Some magic) 128 (Some cookie) (int (length cookie)) (Some old) = Some (0, Some (sha_hash (magic @ cookie)))"
  by (rule vdhtc_hash_with_cookie_spec [OF assms])

lemma service_hash_is_reference_witness:
  "vdhtc_hash_with_cookie True (Some (replicate 128 7)) 128 (Some [1, 2, 3]) 3 (Some id_a) = Some (0, Some (sha_hash (replicate 128 7 @ [1, 2, 3])))"
  using service_hash_is_reference [of "replicate 128 7" "[1, 2, 3]" id_a] by simp

section \<open>Two nodes talking\<close>

definition env_x :: renv where
  "env_x = \<lparr>re_mem = True, re_now = 7, re_later = 7, re_rnd = \<lambda>s i. s, re_pick = \<lambda>n. 0, re_self = 1, re_pid = 2,
     re_mac = [1, 2, 3, 4, 5, 6], re_nonce0 = replicate 4 0, re_fromId0 = replicate 20 0, re_targetId0 = replicate 20 0,
     re_addr0 = vsockaddr_zero\<rparr>"

definition host_x :: "vnodeInfo \<Rightarrow> vnode" where
  "host_x nodei = \<lparr>vn_is_symm_nat = False, vn_tick_tmo = 30, vn_tick_ts = 0, vn_wb_tmo = 5, vn_wb_ts = 0,
     vn_mode = VDHT_RUN, vn_nice = 5, vn_services = varray_init 4, vn_nodei = nodei,
     vn_nat = \<lparr>np_dirty_mark = False, np_laddr = sockaddr_zero, np_eaddr = sockaddr_zero\<rparr>,
     vn_reflex_ts = 0, vn_nreflexs = 0\<rparr>"

definition route_x :: "vtoken \<Rightarrow> nat vroute" where
  "route_x me = \<lparr>rt_myid = me, rt_props = 3, rt_node_space = space_x\<lparr>ns_myid := me\<rparr>,
     rt_srvc_space = vroute_srvc_space_init 10, rt_tckt_space = vroute_tckt_space_init,
     rt_msger = \<lparr>mq_msgs = [], mq_pack_cb = aux_vhost_pack_msg_cb\<rparr>,
     rt_node = host_x (node_b\<lparr>ni_id := me\<rparr>), rt_client = 0, rt_nonce_magic = 0, rt_token_magic = 0, rt_mac_hash = 0\<rparr>"

lemma ver_x_known: "ver_x \<noteq> vnodeVer_unknown"
proof -
  have "ver_x ! 0 \<noteq> vnodeVer_unknown ! 0" by (simp add: ver_x_def vnodeVer_unknown_def VTOKEN_LEN_def)
  then show ?thesis by metis
qed

lemma env_x_wf [simp]: "env_wf env_x"
  by (simp add: env_wf_def env_x_def nonce0_wf tok0_wf slot_wf_def vsockaddr_zero_def sockaddr_zero_def)

lemma node_b_as: "tok_wf me \<Longrightarrow> node_wf (node_b\<lparr>ni_id := me\<rparr>)" "tok_wf me \<Longrightarrow> node_sendable (node_b\<lparr>ni_id := me\<rparr>)"
  using node_b_wf by (simp_all add: node_wf_def node_sendable_def ni_list_def node_b_def)

lemma host_x_wf: "tok_wf me \<Longrightarrow> vnode_wf (host_x (node_b\<lparr>ni_id := me\<rparr>))"
  using node_b_as by (simp add: vnode_wf_def host_x_def services_of_def node_b_def)

lemma route_x_wf: "tok_wf me \<Longrightarrow> route_wf (route_x me)"
  using node_b_as host_x_wf space_x_wf(1)
  by (simp add: route_wf_def send_inv_def route_x_def srvc_init_spec tickets_wf_def tckt_wf_def tickets_def
      vroute_tckt_space_init_def space_wf_def bucket_wf_def space_x_def host_x_def)

text \<open>
  C18. A ping and its answer: when \<open>a\<close> pings \<open>b\<close>, the message in \<open>a\<close>'s queue, delivered to \<open>b\<close> over the network,
  makes \<open>b\<close> put one answer into its own queue, addressed to where the ping came from; that answer, delivered to
  \<open>a\<close>, is accepted and puts \<open>b\<close> into \<open>a\<close>'s routing table, in the bucket of its distance, with the version and
  the addresses it announces. This passes through encoding, packing, unpacking, dispatch, decoding and the ticket
  check of the models of both nodes. The conditions: both routes are well-formed and memory is not exhausted, \<open>a\<close> may send
  pings and \<open>b\<close> may answer them, \<open>b\<close> announces a known version, its own ID, at least one address and a weight that can
  grow by one, \<open>b\<close> is not \<open>a\<close> itself, not yet in \<open>a\<close>'s table, and its bucket there is not full, and \<open>a\<close>'s ticket
  array keeps a free slot after one more ticket.
\<close>

theorem ping_is_answered:
  assumes "route_wf a" "route_wf b" "env_wf ea" "env_wf eb" "has_prop a VDHT_PING" "has_prop b VDHT_PING_R"
    "announces b" "can_join a (vn_nodei (rt_node b))" "room_after a"
  shows "\<exists>a1 m1 b1 m2 a2. vroute_dht_ping ea conn a = Some (0, a1) \<and>
    mq_msgs (rt_msger a1) = mq_msgs (rt_msger a) @ [m1] \<and>
    host_receive eb um (delivered addr_a addr_b rest m1) b = Some (0, b1) \<and>
    mq_msgs (rt_msger b1) = mq_msgs (rt_msger b) @ [m2] \<and> ms_addr m2 = addr_a \<and>
    host_receive ea um' (delivered addr_b' addr_a' rest' m2) a1 = Some (0, a2) \<and>
    joined a (vn_nodei (rt_node b)) a2 \<and> route_wf b1"
  by (rule ping_exchange [OF assms])

lemma route_x_ready:
  "has_prop (route_x me) VDHT_PING" "has_prop (route_x me) VDHT_PING_R" "announces (route_x me)" "room_after (route_x me)"
  "can_join (route_x id_a) (vn_nodei (rt_node (route_x id_b)))"
  by (simp_all add: has_prop_def route_x_def announces_def room_after_def can_join_def host_x_def node_b_def
      vroute_tckt_space_init_def grown_capc_def int32_ok_def ver_x_known bucket_list_def space_x_def
      del: varray_init_def)
    (simp_all add: varray_init_def va_list_def)

lemma ping_is_answered_witness:
  "\<exists>a1 a2. vroute_dht_ping env_x conn_zero (route_x id_a) = Some (0, a1) \<and> joined (route_x id_a) node_b a2"
proof -
  have b: "vn_nodei (rt_node (route_x id_b)) = node_b" by (simp add: route_x_def host_x_def node_b_def)
  show ?thesis
    using ping_is_answered [OF route_x_wf [of id_a] route_x_wf [of id_b] env_x_wf env_x_wf route_x_ready(1,2,3,5,4)]
    by (fastforce simp: b)
qed

text \<open>
  C19. A response that no ticket waits for changes nothing: whatever kind of response it is, when the decoder of its kind
  returns, its nonce is the one of the message, and if no ticket of the well-formed ticket space waits for it the handler returns -1 and
  leaves the whole state of the route as it was. On a message the decoder dies on, such as one without a key it asserts, the
  handler crashes.
\<close>

theorem unasked_responses_ignored:
  assumes "k \<in> rsp_kinds"
  shows "case rsp_nonce k env ctxt of
      None \<Rightarrow> route_cb_ops k env conn ctxt route = None
    | Some nonce \<Rightarrow> msg_nonce env ctxt = Some nonce \<and>
        (unasked nonce route \<longrightarrow> route_cb_ops k env conn ctxt route = Some (-1, route))"
  by (rule unasked_ignored [OF assms])

definition ctxt_x :: be_node where
  "ctxt_x = BeDict [(cstr ''t'', BeStr nonce_x), (cstr ''a'', BeDict [(cstr ''id'', BeStr id_b)])]"

lemma ctxt_x_dec:
  "vdht_dec_probe_rsp ctxt_x (re_nonce0 env_x) (re_fromId0 env_x) = Some (nonce_x, id_b)"
  "msg_nonce env_x ctxt_x = Some nonce_x"
  by (simp_all add: vdht_dec_probe_rsp_def msg_nonce_def dec_buf_def ctxt_x_def cstr_def be_unpack_buf.simps sample_defs env_x_def
      VNONCE_LEN_def VTOKEN_LEN_def)

lemma route_x_unasked: "unasked n (route_x me)"
  by (simp add: unasked_def route_x_def tckt_init_spec)

lemma unasked_responses_ignored_witness:
  "route_cb_ops VDHT_PROBE_R env_x conn_zero ctxt_x (route_x id_a) = Some (-1, route_x id_a)"
proof -
  have "VDHT_PROBE_R \<in> rsp_kinds" by (simp add: rsp_kinds_def)
  moreover have "rsp_nonce VDHT_PROBE_R env_x ctxt_x = Some nonce_x" by (simp add: rsp_nonce_def ctxt_x_dec)
  ultimately show ?thesis
    using unasked_responses_ignored [of VDHT_PROBE_R env_x conn_zero ctxt_x "route_x id_a"] route_x_unasked by simp
qed

text \<open>
  C20. Every query the node can be told to send, with well-formed arguments and memory, returns 0 without a crash. When its
  kind is enabled, exactly one message is added to the queue, at its end: the bytes the encoder of the kind makes with a fresh
  nonce, packed and addressed by the connection; and exactly the tickets of the kind are added to the ticket space: one that
  waits for the nonce, for a probe also one for the connection, for the announcement of a service none. When its kind is
  disabled nothing changes. The tables of the route, the node and its clients are never touched.
\<close>

theorem queries_total:
  assumes "re_mem env" "send_inv route" "call_wf c"
  shows "\<exists>route'. route_dht env c route = Some (0, route') \<and> send_inv route' \<and> rest_same route route' \<and>
    (if call_enabled route c then
       (\<exists>s. call_enc c (rt_myid route) (nonce_now env route) = Some (Some s) \<and>
          mq_msgs (rt_msger route') = mq_msgs (rt_msger route) @ [packed (datagram (call_conn c) s)]) \<and>
       tickets (rt_tckt_space route') =
         tickets (rt_tckt_space route) @ map (vticket_init (re_now env)) (call_tickets (nonce_now env route) c)
     else route' = route)"
  using route_dht_sent [OF assms] unfolding asked_by_def .

lemma queries_total_witness:
  "\<exists>route'. route_dht env_x (DhtProbe conn_zero id_c) (route_x id_a) = Some (0, route') \<and> send_inv route' \<and>
    length (mq_msgs (rt_msger route')) = length (mq_msgs (rt_msger (route_x id_a))) + 1 \<and>
    length (tickets (rt_tckt_space route')) = length (tickets (rt_tckt_space (route_x id_a))) + 2"
proof -
  have "send_inv (route_x id_a)" using route_wfD(1) [OF route_x_wf] by simp
  moreover have "call_wf (DhtProbe conn_zero id_c)" by simp
  ultimately show ?thesis
    using queries_total [of env_x "route_x id_a" "DhtProbe conn_zero id_c"] env_wfD(1) [OF env_x_wf] by auto
qed

section \<open>The service space\<close>

text \<open>
  C21. Adding a received service (a hash and a host ID of 20 bytes, up to twelve distinct addresses of known
  types) never crashes and keeps the service space well-formed: in the bucket of the host
  it replaces the entry of the same host and hash if there is one, else it is appended while the bucket has room,
  else it takes the place of the first of those received longest ago; when all were received just now the bucket
  stays as it is. The other buckets stay.
\<close>

theorem add_service_places:
  assumes "srvcs_wf space" "srvc_src s"
  shows "\<exists>space' v. vroute_srvc_space_add_service True now space s = Some (0, space') \<and> srvcs_wf space' \<and>
    ss_bucket_sz space' = ss_bucket_sz space \<and> stored s now v \<and>
    sbucket space' s = (case find_idx (\<lambda>v. skey (sv_srvci v) = skey s) (sbucket space s) of
        Some k \<Rightarrow> (sbucket space s)[k := v]
      | None \<Rightarrow>
          if int (length (sbucket space s)) < ss_bucket_sz space then sbucket space s @ [v]
          else (case oldest now (sbucket space s) of Some k \<Rightarrow> (sbucket space s)[k := v] | None \<Rightarrow> sbucket space s)) \<and>
    (\<forall>i. i \<noteq> vsrvcId_bucket (si_hostid s) \<longrightarrow> srvc_list space' i = srvc_list space i)"
proof -
  obtain space' v where "vroute_srvc_space_add_service True now space s = Some (0, space')" "srvcs_wf space'"
      "ss_bucket_sz space' = ss_bucket_sz space" "stored s now v"
      "added (ss_bucket_sz space) now s v (sbucket space s) (sbucket space' s)"
      "\<forall>i. i \<noteq> vsrvcId_bucket (si_hostid s) \<longrightarrow> srvc_list space' i = srvc_list space i"
    using add_service_spec [OF assms] by blast
  then show ?thesis by (auto simp: added_def simp del: find_idx_None split: option.splits if_splits)
qed

lemma add_service_places_witness:
  "\<exists>space'. vroute_srvc_space_add_service True 7 (vroute_srvc_space_init 10) srvc_b = Some (0, space') \<and> srvcs_wf space'"
proof -
  have "srvc_src srvc_b" using srvc_b_wf(1) by (simp add: srvc_src_def srvc_wf_def srvc_b_def)
  then show ?thesis using add_service_places [OF srvc_init_spec(1) [of 10], of srvc_b 7] by auto
qed

text \<open>
  C22. Looking a service up by its hash gives, of all stored entries with that hash, one whose host is the most
  available (least nice), with its host, protocol and addresses; it reports nothing exactly when no host offers it
  below the nice limit of the search.
\<close>

theorem get_service_best:
  assumes "srvcs_wf space" "tok_wf hash" "srvc_wf out"
  shows "(offers space hash = {} \<and> vroute_srvc_space_get_service True space hash out = Some (False, out)) \<or>
    (\<exists>v \<in> offers space hash. \<exists>out'. vroute_srvc_space_get_service True space hash out = Some (True, out') \<and> srvc_wf out' \<and>
       skey out' = skey (sv_srvci v) \<and> si_nice out' = si_nice (sv_srvci v) \<and> si_proto out' = si_proto (sv_srvci v) \<and>
       si_list out' = fold (addr_ins (\<lambda>t. t)) (si_list (sv_srvci v)) [] \<and>
       (\<forall>w \<in> offers space hash. si_nice (sv_srvci v) \<le> si_nice (sv_srvci w)))"
  by (rule get_service_spec [OF assms])

lemma get_service_best_witness:
  "vroute_srvc_space_get_service True (vroute_srvc_space_init 10) id_c srvc_b = Some (False, srvc_b)"
proof -
  have "offers (vroute_srvc_space_init 10) id_c = {}" by (auto simp: offers_def srvc_init_spec(2))
  then show ?thesis using get_service_best [OF srvc_init_spec(1) [of 10], of id_c srvc_b] srvc_b_wf(1) by auto
qed

section \<open>The messenger\<close>

text \<open>
  C23. Messages leave in the order in which they were queued, each packed once: after any list of pushes onto an
  empty queue, that many pops give the packed messages in order.
\<close>

theorem messages_in_order:
  assumes "mq_pack_cb q = aux_vhost_pack_msg_cb" "push_all send_dht mus q = Some q'" "mq_msgs q = []"
  shows "fst (pop_upto take_msg (length mus) q') = map packed mus"
  by (rule outq.sent_in_order [OF assms])

definition msg_x :: "nat \<Rightarrow> vmsg_usr" where
  "msg_x n = datagram conn_zero (replicate n 0)"

lemma messages_in_order_witness:
  "\<exists>q'. push_all send_dht [msg_x 1, msg_x 2] \<lparr>mq_msgs = [], mq_pack_cb = aux_vhost_pack_msg_cb\<rparr> = Some q' \<and>
     fst (pop_upto take_msg 2 q') = [packed (msg_x 1), packed (msg_x 2)]"
proof -
  let ?q = "\<lparr>mq_msgs = [], mq_pack_cb = aux_vhost_pack_msg_cb\<rparr>"
  have d: "\<forall>mu \<in> set [msg_x 1, msg_x 2]. dht_msg mu" by (simp add: dht_msg_def msg_x_def datagram_def)
  have p: "push_all send_dht [msg_x 1, msg_x 2] ?q =
      Some (?q\<lparr>mq_msgs := mq_msgs ?q @ map packed [msg_x 1, msg_x 2]\<rparr>)"
    by (rule send_dht_all [OF _ d]) simp
  show ?thesis using p messages_in_order [OF _ p] by (simp add: numeral_2_eq_2)
qed

text \<open>
  What the receiving host makes of a datagram that starts with the DHT's magic number: with a negative message
  kind, or without a single byte after the 8 of the header, an assertion fails and the process dies; otherwise the
  kind, the addresses and the rest of the data are handed on.
\<close>

theorem short_datagram_crashes:
  assumes "length (ms_data sm) \<ge> 8" "of_le32 (ms_data sm) = DHT_MAGIC"
  shows "aux_vhost_unpack_msg_cb sm um =
    (if sint (of_le32 (drop 4 (ms_data sm))) < 0 \<or> ms_len sm \<le> 8 then None
     else Some (0, \<lparr>mu_msgId = sint (of_le32 (drop 4 (ms_data sm))), mu_addr = ms_addr sm,
       mu_spec = ms_spec sm, mu_len = ms_len sm - 8, mu_data = drop 8 (ms_data sm)\<rparr>))"
  by (rule unpack_magic [OF assms])

lemma short_datagram_crashes_witness:
  "aux_vhost_unpack_msg_cb \<lparr>ms_addr = sockaddr_zero, ms_spec = sockaddr_zero, ms_len = 4,
     ms_data = le32 DHT_MAGIC @ replicate 4 0\<rparr> (msg_x 1) = None"
  by (subst short_datagram_crashes) (simp_all)

section \<open>The routing table on disk\<close>

text \<open>
  C24. The text of an Internet address with a port, in any buffer that can hold 21 characters and the final zero, reads
  back as the same address, whatever follows the digits of the port.
\<close>

theorem address_text_roundtrip:
  assumes "inet_addr_wf a" "22 \<le> len" "\<not> c_isdigit c"
  shows "\<exists>t. vsockaddr_strlize a len = Some (Some t) \<and> vsockaddr_unstrlize (t @ c # rest) a0 = Some (0, a)"
  using vsockaddr_strlize_spec [of a len] vsockaddr_unstrlize_text [OF assms(1,3)] length_addr_text [of a] assms(2) by simp

definition addr_x :: sockaddr_in where
  "addr_x = \<lparr>sin_family = AF_INET, sin_port = 13330, sin_addr = 16777343, sin_zero = replicate 8 0\<rparr>"

lemma addr_x_wf [simp]: "inet_addr_wf addr_x"
  by (simp add: inet_addr_wf_def addr_x_def)

lemma address_text_roundtrip_witness:
  "\<exists>t. vsockaddr_strlize addr_x 64 = Some (Some t) \<and> vsockaddr_unstrlize (t @ [0]) sockaddr_zero = Some (0, addr_x)"
  using address_text_roundtrip [OF addr_x_wf, of 64 0 "[]" sockaddr_zero] by (simp add: c_isdigit_def)

text \<open>A routing table that holds one peer, and a database that is the list of its rows.\<close>

definition node_p :: "u16 \<Rightarrow> vnodeInfo" where
  "node_p port = node_b\<lparr>ni_addrs := \<lparr>va_addr = addr_x\<lparr>sin_port := port\<rparr>, va_type = 1\<rparr> # replicate 11 vsockaddr_zero,
     ni_heap := True\<rparr>"

definition peer_p :: "u16 \<Rightarrow> vpeer" where
  "peer_p port = \<lparr>vp_conn = conn_zero, vp_nodei = node_p port, vp_tick_ts = 0, vp_next_tmo = 0, vp_ntry_pings = 0, vp_ntry_probes = 0\<rparr>"

definition space_p :: "u16 \<Rightarrow> node_space" where
  "space_p port = space_x\<lparr>ns_bucket := (ns_bucket space_x)[vnodeId_bucket id_a id_b :=
     \<lparr>bk_peers = \<lparr>va_used = 1, va_capc = 8, va_first = 8, va_items = Some (peer_p port) # replicate 7 None\<rparr>, bk_ts = 0\<rparr>]\<rparr>"

definition exec_x :: "peer_row \<Rightarrow> peer_row list \<Rightarrow> int \<times> peer_row list" where
  "exec_x row db = (0, db @ [row])"

definition junk_x :: load_junk where
  "junk_x = \<lparr>lj_id = replicate 20 0, lj_ver = replicate 20 0, lj_addr = vsockaddr_zero\<rparr>"
lemma space_p_list:
  "i < NBUCKETS \<Longrightarrow> bucket_list (space_p port) i = (if i = vnodeId_bucket id_a id_b then [peer_p port] else [])"
  by (simp add: bucket_list_def space_p_def space_x_def va_list_def varray_init_def)

lemma node_p_ok:
  "node_wf (node_p port)" "ni_list (node_p port) = [\<lparr>va_addr = addr_x\<lparr>sin_port := port\<rparr>, va_type = 1\<rparr>]" "ni_id (node_p port) = id_b"
  by (simp_all add: node_wf_def node_p_def node_b_def ni_list_def addrs_distinct_def)

lemma space_p_ok:
  "space_wf (space_p port)" "ns_myid (space_p port) = id_a" "ns_bucket_sz (space_p port) = 10" "storable (space_p port) (peer_p port)"
proof -
  have "peer_wf id_a (vnodeId_bucket id_a id_b) (peer_p port)"
    using node_p_ok [of port] by (simp add: peer_wf_def pid_def peer_p_def) (simp add: node_p_def node_b_def)
  then show "space_wf (space_p port)"
    using space_x_wf(1) by (auto simp: space_wf_def bucket_wf_def space_p_def space_x_def nth_list_update va_list_def va_wf_def
        intro: exI [of _ 0])
  show "ns_myid (space_p port) = id_a" "ns_bucket_sz (space_p port) = 10" by (simp_all add: space_p_def space_x_def)
  show "storable (space_p port) (peer_p port)"
    by (simp add: storable_def space_p_def space_x_def peer_p_def node_p_def node_b_def ver_x_known)
qed

lemma space_p_peers: "concat (map (bucket_list (space_p port)) [0..<NBUCKETS]) = [peer_p port]"
proof -
  have one: "concat (map (\<lambda>i. if i = k then [x] else []) [0..<m]) = (if k < m then [x] else [])" for k m :: nat and x :: vpeer
    by (induction m) auto
  have buckets: "map (bucket_list (space_p port)) [0..<NBUCKETS] =
      map (\<lambda>i. if i = vnodeId_bucket id_a id_b then [peer_p port] else []) [0..<NBUCKETS]"
    by (rule map_cong) (simp_all add: space_p_list)
  show ?thesis
    unfolding buckets using one [of "vnodeId_bucket id_a id_b" "peer_p port" NBUCKETS] bucket_in_range [of id_a id_b] by simp
qed

lemma space_p_stored: "stored_nodes (space_p port) = [node_p port]"
proof -
  have "vp_nodei (peer_p port) = node_p port" by (simp add: peer_p_def)
  then show ?thesis using space_p_peers space_p_ok(4) by (simp add: stored_nodes_def)
qed

lemma db_x: "peer_db exec_x Some" "junk_wf junk_x"
  by (simp_all add: peer_db_def exec_x_def junk_wf_def junk_x_def tok_wf_def VTOKEN_LEN_def)

text \<open>
  C25. The routing table survives a restart: what a well-formed table writes to an empty database, loaded into an empty
  table of the same node with buckets at least as large, gives in every bucket, in order, the peers that were worth storing,
  with their IDs, the five bytes of their versions and their addresses in the order of their types. Every peer stored must
  have at least one address, only Internet addresses with a port other than 0, and a version whose first five bytes are not all
  0; a peer with the port 0 may even stop the restart (\<open>port_zero_stops_restart\<close>).
\<close>

theorem table_survives_restart:
  assumes "space_wf space" "peer_db exec select" "select db = Some []" "\<forall>n \<in> set (stored_nodes space). row_wf n"
    "space_wf fresh" "ns_myid fresh = ns_myid space" "ns_bucket_sz space \<le> ns_bucket_sz fresh"
    "\<forall>i < NBUCKETS. bucket_list fresh i = []" "junk_wf junk"
  shows "\<exists>db' fresh'. vroute_node_space_store True exec space db = Some (0, space, db') \<and>
    vroute_node_space_load True now junk (select db') fresh = Some (0, fresh') \<and> space_wf fresh' \<and>
    (\<forall>i < NBUCKETS. map brief (bucket_list fresh' i) =
       map (\<lambda>p. restored junk (vp_nodei p)) (filter (storable space) (bucket_list space i)))"
  by (rule store_then_load [OF assms])

lemma table_survives_restart_witness:
  "\<exists>db' fresh'. vroute_node_space_store True exec_x (space_p 13330) [] = Some (0, space_p 13330, db') \<and>
    vroute_node_space_load True 7 junk_x (Some db') space_x = Some (0, fresh') \<and>
    map brief (bucket_list fresh' (vnodeId_bucket id_a id_b)) = [restored junk_x (node_p 13330)]"
proof -
  have "row_wf (node_p 13330)"
    using node_p_ok [of 13330] addr_x_wf by (auto simp: row_wf_def inet_addr_wf_def)
      (simp_all add: node_p_def node_b_def ver_x_def numeral_eq_Suc)
  then have rows: "\<forall>n \<in> set (stored_nodes (space_p 13330)). row_wf n" by (simp add: space_p_stored)
  show ?thesis
    using table_survives_restart [OF space_p_ok(1) db_x(1) refl rows space_x_wf(1) _ _ _ db_x(2), of 7] bucket_in_range [of id_a id_b]
    by (auto simp: space_p_ok space_p_list) (auto simp: peer_p_def)
qed

text \<open>
  A peer that announced the port 0 for its first address is stored like any other, and if it comes first, loading the
  database fails an assertion: the daemon cannot start again.
\<close>

theorem port_zero_stops_restart:
  assumes "space_wf space" "peer_db exec select" "select db = Some []" "stored_nodes space = n # ns"
    "ni_list n = v # vs" "sin_port (va_addr v) = 0" "junk_wf junk"
  shows "\<exists>db'. vroute_node_space_store True exec space db = Some (0, space, db') \<and>
    vroute_node_space_load True now junk (select db') fresh = None"
proof -
  note ids = stored_nodes_ids [OF assms(1)]
  have "tok_wf (ni_id n)" "tok_wf (ni_ver n)" using ids(3) [of n] assms(4) by (auto simp: node_wf_def)
  note crash = load_port_zero [OF assms(5,6) this assms(7)]
  have "distinct (map (\<lambda>n. hex_of (ni_id n)) (n # ns))" using stored_rows_distinct [OF assms(1)] by (simp add: assms(4))
  then have "select (fold (\<lambda>n db. snd (exec (row_of n) db)) (n # ns) db) = Some (map row_of (n # ns))"
    using select_rows [OF assms(2,3), of "n # ns"] by simp
  then show ?thesis using store_spec [OF assms(1), of exec db] crash by (simp add: assms(4) vroute_node_space_load_def)
qed

lemma port_zero_stops_restart_witness:
  "\<exists>db'. vroute_node_space_store True exec_x (space_p 0) [] = Some (0, space_p 0, db') \<and>
    vroute_node_space_load True 7 junk_x (Some db') space_x = None"
  using port_zero_stops_restart [OF space_p_ok(1) db_x(1) refl space_p_stored node_p_ok(2) _ db_x(2), of 0 7 space_x] by simp
text \<open>
  C26. What a query for the closest nodes is answered with: of the peers with a known version that still answer, other than the one
  asked for, and when these are at most 31, each with an address and a weight away from the least int, and agree in version,
  weight and unanswered pings, the nearest ones to the target by XOR distance, nearest
  first, at most as many as asked for, each with its ID, version, weight and addresses. With more of them the sorted insertion
  can write past its array and crash: it does at the 32nd unless that one belongs behind all 31
  before it (\<open>find_closest_overflow\<close>).
\<close>

theorem closest_nodes_are_nearest:
  assumes "space_wf space" "tok_wf t" "length (candidates space t) \<le> 31" "\<forall>p \<in> set (candidates space t). peer_ok p \<and> in_class t c p"
    "0 < num" "va_wf closest" "va_list closest = []"
  shows "\<exists>near closest'. vroute_node_space_find_closest_nodes True space t closest num = Some (int (length near), closest') \<and>
    map told (va_list closest') = map (passed_on space) near \<and> length near = min (nat num) (length (candidates space t)) \<and>
    set near \<subseteq> set (candidates space t) \<and> sorted (map (peer_dist t) near) \<and>
    (\<forall>p \<in> set near. \<forall>q \<in> set (candidates space t) - set near. peer_dist t p \<le> peer_dist t q)"
  by (rule find_closest_nearest [OF assms])

lemma candidates_p: "candidates (space_p 13330) id_c = [peer_p 13330]"
proof -
  have "candidate (space_p 13330) id_c (peer_p 13330)"
    by (simp add: candidate_def pid_def space_p_def space_x_def peer_p_def node_p_def node_b_def ver_x_known)
  then show ?thesis by (simp add: candidates_def space_p_peers)
qed

lemma closest_nodes_are_nearest_witness:
  "\<exists>closest'. vroute_node_space_find_closest_nodes True (space_p 13330) id_c (varray_init 8) 8 = Some (1, closest') \<and>
    map told (va_list closest') = [passed_on (space_p 13330) (peer_p 13330)]"
proof -
  have "peer_ok (peer_p 13330)" "in_class id_c (peer_p 13330) (peer_p 13330)"
    using node_p_ok(1) [of 13330]
    by (simp_all add: peer_ok_def in_class_def alike_def pid_def peer_p_def) (simp_all add: node_p_def node_b_def int32_ok_def)
  then have "\<forall>p \<in> set (candidates (space_p 13330) id_c). peer_ok p \<and> in_class id_c (peer_p 13330) p" by (simp add: candidates_p)
  from closest_nodes_are_nearest [OF space_p_ok(1) _ _ this, of 8 "varray_init 8"]
  obtain near closest' where "vroute_node_space_find_closest_nodes True (space_p 13330) id_c (varray_init 8) 8 = Some (int (length near), closest')"
      "map told (va_list closest') = map (passed_on (space_p 13330)) near" "length near = 1" "set near \<subseteq> {peer_p 13330}"
    by (auto simp: candidates_p)
  then show ?thesis by (auto simp: length_Suc_conv)
qed

section \<open>The host over time\<close>

text \<open>
  C27. What any event does to the mode of the node: only the requests to start and stop and the ticks change it, along
  \<open>OFF\<close>, \<open>UP\<close>, \<open>RUN\<close>, \<open>DOWN\<close>, \<open>OFF\<close>; no message from the network and no other request of a client does.
\<close>

theorem mode_transitions:
  assumes "host_step host ev host'"
  shows "mode_of host' = next_mode ev (mode_of host)"
  by (rule step_mode [OF assms])

definition vhost_x :: "vnode_mode \<Rightarrow> (nat, peer_row list) vhost" where
  "vhost_x m = \<lparr>ho_route = (route_x id_a)\<lparr>rt_node := (host_x (node_b\<lparr>ni_id := id_a\<rparr>))\<lparr>vn_mode := m\<rparr>\<rparr>, ho_db = [],
     ho_zaddr = sockaddr_zero, ho_to_quit = False\<rparr>"

lemma vhost_x_start: "\<exists>host'. host_step (vhost_x VDHT_OFF) EvStart host'"
  by (cases "vhost_start (vhost_x VDHT_OFF)") (auto intro: host_step.start)

lemma mode_transitions_witness:
  "\<exists>host'. host_step (vhost_x VDHT_OFF) EvStart host' \<and> mode_of host' = VDHT_UP"
  using vhost_x_start mode_transitions by (fastforce simp: next_mode_def vhost_x_def)

text \<open>
  C28. In every state a host can reach, by any sequence of datagrams, ticks and requests, its identity, its capabilities
  and the packing of its messages are those it was initialised with, the node is not in the error mode, and it has begun at most
  three rounds of queries for its reflexive addresses.
\<close>

theorem reachable_states_keep_identity:
  assumes "reachable host0 host" "mode_of host0 \<noteq> VDHT_ERR" "vn_nreflexs (rt_node (ho_route host0)) \<le> 3"
  shows "rt_myid (ho_route host) = rt_myid (ho_route host0) \<and> rt_props (ho_route host) = rt_props (ho_route host0) \<and>
    ni_id (vn_nodei (rt_node (ho_route host))) = ni_id (vn_nodei (rt_node (ho_route host0))) \<and>
    mq_pack_cb (rt_msger (ho_route host)) = mq_pack_cb (rt_msger (ho_route host0)) \<and>
    mode_of host \<noteq> VDHT_ERR \<and> vn_nreflexs (rt_node (ho_route host)) \<le> 3"
  using reachable_inv [OF assms] unfolding host_inv_def .

lemma reachable_states_keep_identity_witness:
  "\<exists>host. reachable (vhost_x VDHT_OFF) host \<and> rt_myid (ho_route host) = id_a \<and> mode_of host \<noteq> VDHT_ERR"
proof -
  obtain h where h: "reachable (vhost_x VDHT_OFF) h" using vhost_x_start reachable.intros by blast
  have "mode_of (vhost_x VDHT_OFF) \<noteq> VDHT_ERR" "vn_nreflexs (rt_node (ho_route (vhost_x VDHT_OFF))) \<le> 3"
    "rt_myid (ho_route (vhost_x VDHT_OFF)) = id_a"
    by (simp_all add: vhost_x_def host_x_def route_x_def)
  then show ?thesis using h reachable_states_keep_identity [OF h] by metis
qed

text \<open>
  C29. A stopped node goes off: in the mode \<open>DOWN\<close> a tick cannot crash, whatever its environment; it stores the rows
  of the table, if the database opens, and the node is off.
\<close>

theorem stopping_completes:
  assumes "mode_of host = VDHT_DOWN" "space_wf (rt_node_space (ho_route host))"
  shows "\<exists>host'. host_step host (EvTick ne) host' \<and> mode_of host' = VDHT_OFF \<and>
    (ne_opens ne \<longrightarrow> ho_db host' =
       fold (\<lambda>n db. snd (ne_exec ne (row_of n) db)) (stored_nodes (rt_node_space (ho_route host))) (ho_db host))"
  by (rule tick_down [OF assms])

lemma stopping_completes_witness:
  "\<exists>host'. host_step (vhost_x VDHT_DOWN) (EvTick \<lparr>ne_env = env_x, ne_junk = junk_x, ne_select = Some, ne_opens = True,
     ne_exec = exec_x, ne_boot = [], ne_upnp = None, ne_nice = 5\<rparr>) host' \<and> mode_of host' = VDHT_OFF"
proof -
  have "mode_of (vhost_x VDHT_DOWN) = VDHT_DOWN" "space_wf (rt_node_space (ho_route (vhost_x VDHT_DOWN)))"
    using route_wfD(2) [OF route_x_wf [of id_a]] by (simp_all add: vhost_x_def)
  from stopping_completes [OF this] show ?thesis by blast
qed

text \<open>
  C30. No datagram that was queued is lost or overtaken on its way to the socket: sending takes the first one from the
  queue, and every other event leaves those in the queue where they are and adds at most new ones behind them.
\<close>

theorem queue_keeps_datagrams:
  assumes "host_step host ev host'"
  shows "if sends ev then queue_of host \<noteq> [] \<and> queue_of host' = tl (queue_of host)
    else \<exists>ms. queue_of host' = queue_of host @ ms"
  by (rule step_queue [OF assms])

lemma queue_keeps_datagrams_witness:
  "\<exists>host' ms. host_step (vhost_x VDHT_OFF) EvStart host' \<and> queue_of host' = queue_of (vhost_x VDHT_OFF) @ ms"
  using vhost_x_start queue_keeps_datagrams by (fastforce simp: sends_def)

section \<open>Threads\<close>

text \<open>
  C31. Without reflex responses the threads of the daemon never block each other for ever: whatever the scheduler does, as long as one has not
  returned some thread can go on, and after as many steps as the threads have lock operations all have returned.
\<close>

theorem daemon_threads_return:
  assumes "\<forall>p \<in> set ps. daemon_thread False p" "runs n (boot ps) w"
  shows "n \<le> steps_left (boot ps) \<and> (n < steps_left (boot ps) \<longrightarrow> (\<exists>w'. sched w w')) \<and> (n = steps_left (boot ps) \<longrightarrow> all_done w)"
  using ordered_programs_return [OF _ assms(2)] daemon_ordered assms(1) by blast

lemma daemon_threads_return_witness: "\<exists>w. sched (boot [tick_thread, tick_thread]) w"
  using daemon_threads_return [OF _ runs.intros(1), of "[tick_thread, tick_thread]"] tick_thread_daemon
  by (simp add: steps_left_def boot_def thread_ops)

text \<open>
  With them it can happen: the timer's thread enters the lock of the node and then wants that of the route, the thread of the sockets
  handles a reflex response under the lock of the route and wants that of the node. Both wait for ever.
\<close>

theorem reflex_response_deadlocks:
  "daemon_thread True tick_thread \<and> daemon_thread True reflex_thread \<and>
   (\<exists>w. reaches (boot [tick_thread, reflex_thread]) w \<and> deadlocked w)"
  by (intro conjI tick_thread_daemon reflex_thread_daemon reflex_deadlocks)

section \<open>The control socket\<close>

text \<open>
  C32. A call of the client library does in the daemon what it is named for: the request is packed, received, unpacked and executed, with the
  arguments it was given, and the client gets 0 whatever the daemon's result was (searches, which wait for a response, apart).
\<close>

theorem client_request_performed:
  assumes "api_ok r"
  shows "api_call r (daemon env me) (Some app) = Some (0, map_option snd (perform env app me r))"
  by (rule api_performs [OF assms])

lemma client_request_performed_witness:
  "\<forall>env me app. api_call (JoinNode addr_x) (daemon env me) (Some app) = Some (0, map_option snd (vappmain_join_wellknown_node env app (canon addr_x)))"
proof (intro allI)
  fix env me app
  show "api_call (JoinNode addr_x) (daemon env me) (Some app) = Some (0, map_option snd (vappmain_join_wellknown_node env app (canon addr_x)))"
    using client_request_performed [of "JoinNode addr_x" env me app] by simp
qed

section \<open>The configuration file\<close>

text \<open>C33. The parser of the configuration file returns, or crashes, for every file; its fuel never runs out.\<close>

theorem config_parser_returns: "vcfg_parse f vdict_init \<noteq> None"
  using vcfg_parse_settles [of vdict_init f] by (auto simp: settles_def simp del: item_ok.simps)

text \<open>
  C34. What the parser builds is a well-formed tree, even when it reports an error: keys are words joined by underscores and fit their buffer,
  values are not empty and have no blanks, tuples hold values only, lists no bare values, and the depths are right.
\<close>

theorem parsed_config_well_formed:
  assumes "vcfg_parse f vdict_init = Some (Done (ret, d))"
  shows "dict_ok 0 d"
  using vcfg_parse_settles [of vdict_init f] assms by (auto simp: settles_def simp del: item_ok.simps)

text \<open>C35. Every well-formed tree, written as a configuration file, is read back as the same tree.\<close>

theorem config_file_roundtrip:
  assumes "dict_ok 0 d"
  shows "vcfg_parse (Some (render_cfg d)) vdict_init = Some (Done (0, d))"
  by (rule parse_render [OF assms])

definition cfg_x :: "vcfg_item vdict" where
  "cfg_x = VDict 1 [(cstr ''dht'', CFG_DICT 1 (VDict 1 [(cstr ''address'', CFG_TUPLE 2 [CFG_STR 3 (cstr ''0.0.0.0''), CFG_STR 3 (cstr ''12300'')])]))]"

lemma cfg_x_ok: "dict_ok 0 cfg_x"
  by (simp add: cfg_x_def cstr_def key_ok_def str_ok_def is_word_def is_value_def)

lemma config_file_roundtrip_witness: "vcfg_parse (Some (render_cfg cfg_x)) vdict_init = Some (Done (0, cfg_x))"
  by (rule config_file_roundtrip [OF cfg_x_ok])

lemma parsed_config_well_formed_witness: "dict_ok 0 (cfg_x)"
  by (rule parsed_config_well_formed [OF parse_render [OF cfg_x_ok]])

text \<open>
  C36. Two texts no parser should die of: a value with a blank inside writes past the buffer allocated for it, and a file whose last value is
  followed by a newline and nothing else is read past its end.
\<close>

theorem config_text_crashes:
  assumes "key_ok k" "str_ok s"
  shows "vcfg_parse (Some (key_text k @ 58 # s @ [10])) vdict_init = Some Crash \<and>
    (t \<noteq> [] \<and> (\<forall>c \<in> set t. is_value c) \<longrightarrow> vcfg_parse (Some (key_text k @ 58 # s @ 32 # t)) vdict_init = Some Crash)"
  using last_newline_crash [OF assms] two_words_crash [OF assms] by blast

lemma config_text_crashes_witness: "vcfg_parse (Some (key_text (cstr ''a'') @ 58 # cstr ''b'' @ [10])) vdict_init = Some Crash"
  by (rule config_text_crashes [THEN conjunct1]) (simp_all add: cstr_def key_ok_def str_ok_def is_word_def is_value_def)

section \<open>Sockets\<close>

text \<open>
  C37. A message one host has queued reaches the callbacks of another: sending gives its datagram to the socket, and when the network delivers
  the datagram, receiving it calls the callback for DHT messages with the bytes that were sent, followed by zeros, the sender's address
  and the local address it was sent to.
\<close>

theorem datagram_reaches_receiver:
  fixes r :: 'r and r2 :: 'q and a :: "(vudp, 'w, 'r) vrpc" and b :: "(vudp, 'w, 'q) vrpc"
  assumes "rpc_impl a = Some ua" "rpc_base_ops a = Some (udp_base_ops mem sys)" "room (rpc_stat a)"
    "mg_get (rpc_msger a) r = q" "mq_msgs q = packed mu # rest"
    "rpc_impl b = Some ub" "rpc_base_ops b = Some (udp_base_ops mem sys)" "room (rpc_stat b)"
    "rpc_rcvm b = Some rcvm" "length (ms_data rcvm) = 8 * nat BUF_SZ"
    "mi_unpack_cb (mg_in (rpc_msger b)) = aux_vhost_unpack_msg_cb"
    "dht_msg mu" "mu_len mu = int (length (mu_data mu))" "mu_len mu + 8 \<le> 8 * BUF_SZ"
    "us_sendmsg sys (udp_sock_fd ua) (ms_data (packed mu)) (mu_addr mu) (sin_addr (mu_spec mu)) w = (n, w1)" "0 \<le> n" "n \<le> 65535"
    "us_recvmsg sys (udp_sock_fd ub) w1 = (Some (ms_data (packed mu), sender, pktinfo), w2)"
    "dsptch_cbs (mi_cbs (mg_in (rpc_msger b)))
        (mu\<lparr>mu_addr := sender, mu_spec := set_spec ub pktinfo sockaddr_zero,
            mu_data := mu_data mu @ replicate (nat (8 * BUF_SZ - 8 - mu_len mu)) 0\<rparr>) r2 = Some r3"
  shows "\<exists>a' b'. vrpc_snd a r w = Some (0, a', mg_put (rpc_msger a) (q\<lparr>mq_msgs := rest\<rparr>) r, w1) \<and>
    vrpc_rcv junk b r2 w1 = Some (0, b', r3, w2)"
  using send_receive [OF assms] by blast

text \<open>
  When the socket of a channel reports an exception and cannot be opened again, the round ends as if nothing had happened, and the next
  one dies of an assertion, whatever happens in between.
\<close>

theorem failed_reopen_stops_daemon:
  fixes wt :: "('i, 'w, 'r) vwaiter"
  assumes "va_wf (wt_rpcs wt)" "va_list (wt_rpcs wt) = [rpc]" "rpc_impl rpc = Some i" "rpc_base_ops rpc = Some ops"
    "0 \<le> bo_getfd ops i" "bo_getfd ops i < 1024"
    "\<And>s. select s w = ((1, {}, {}, {bo_getfd ops i}), w1)" "bo_open ops (rpc_addr rpc) (bo_close ops i w1) = (None, w2)"
  shows "\<exists>wt'. vwaiter_laundry select junk wt r w = Some (0, wt', r, w2) \<and> (\<forall>select' r' w'. vwaiter_laundry select' junk wt' r' w' = None)"
  by (rule failed_reopen) (rule assms)+

text \<open>A channel whose kernel keeps the datagrams on their way in a list and lets no socket be opened.\<close>

definition sys_x :: "(bytes list) udp_sys" where
  "sys_x = \<lparr>us_socket = \<lambda>w. (-1, w), us_setsockopts = \<lambda>fd w. w, us_bind = \<lambda>fd a w. (0, w), us_fcntl = \<lambda>fd w. (0, w), us_close = \<lambda>fd w. w,
     us_sendmsg = \<lambda>fd d a s w. (int (length d), w @ [d]),
     us_recvmsg = \<lambda>fd w. case w of [] \<Rightarrow> (None, w) | d # ds \<Rightarrow> (Some (d, addr_x, []), ds)\<rparr>"

definition rpc_x :: "bool \<Rightarrow> (vudp, bytes list, vmsg_usr list \<times> vmsg_outq) vrpc" where
  "rpc_x rcv = \<lparr>rpc_ptr = 1, rpc_mode = 1, rpc_addr = addr_x,
     rpc_rcvm = Some \<lparr>ms_addr = addr_x, ms_spec = addr_x, ms_len = 8192, ms_data = replicate 8192 0\<rparr>, rpc_sndm = None,
     rpc_msger = \<lparr>mg_in = \<lparr>mi_cbs = [\<lparr>mcb_msgId = VMSG_DHT, mcb_cb = \<lambda>mu (l, q). Some (0, l @ [mu], q)\<rparr>],
       mi_unpack_cb = aux_vhost_unpack_msg_cb\<rparr>, mg_get = snd, mg_put = \<lambda>q r. (fst r, q)\<rparr>,
     rpc_base_ops = Some (udp_base_ops True sys_x), rpc_impl = Some \<lparr>udp_addr = addr_x, udp_port = 13330, udp_sock_fd = 7\<rparr>,
     rpc_stat = \<lparr>st_nsnds = 0, st_nrcvs = 0, st_nerrs = 0, st_snd_bytes = 0, st_rcv_bytes = 0\<rparr>\<rparr>"

text \<open>One channel sends a message of two bytes, the other hands it to its callback.\<close>

lemma rpc_x_ok: "rpc_impl (rpc_x t) = Some \<lparr>udp_addr = addr_x, udp_port = 13330, udp_sock_fd = 7\<rparr>"
    "rpc_base_ops (rpc_x t) = Some (udp_base_ops True sys_x)" "room (rpc_stat (rpc_x t))"
    "rpc_rcvm (rpc_x t) = Some \<lparr>ms_addr = addr_x, ms_spec = addr_x, ms_len = 8192, ms_data = replicate 8192 0\<rparr>"
    "mi_unpack_cb (mg_in (rpc_msger (rpc_x t))) = aux_vhost_unpack_msg_cb"
  by (simp_all add: rpc_x_def room_def)

lemma datagram_reaches_receiver_witness:
  "\<exists>a' b' got q. vrpc_snd (rpc_x True) ([], \<lparr>mq_msgs = [packed (msg_x 2)], mq_pack_cb = aux_vhost_pack_msg_cb\<rparr>) [] =
      Some (0, a', ([], q), [ms_data (packed (msg_x 2))]) \<and>
    vrpc_rcv (msg_x 1) (rpc_x False) ([], q) [ms_data (packed (msg_x 2))] = Some (0, b', ([got], q), []) \<and> mu_addr got = addr_x"
proof -
  let ?q = "\<lparr>mq_msgs = [packed (msg_x 2)], mq_pack_cb = aux_vhost_pack_msg_cb\<rparr>"
  let ?got = "(msg_x 2)\<lparr>mu_addr := addr_x, mu_spec := set_spec \<lparr>udp_addr = addr_x, udp_port = 13330, udp_sock_fd = 7\<rparr> [] sockaddr_zero,
            mu_data := mu_data (msg_x 2) @ replicate (nat (8 * BUF_SZ - 8 - mu_len (msg_x 2))) 0\<rparr>"
  have mu: "dht_msg (msg_x 2)" "mu_len (msg_x 2) = int (length (mu_data (msg_x 2)))" "mu_len (msg_x 2) + 8 \<le> 8 * BUF_SZ"
    by (simp_all add: dht_msg_def msg_x_def datagram_def BUF_SZ_def)
  have len: "length (ms_data (packed (msg_x 2))) = 10" by (simp add: packed_def msg_x_def datagram_def)
  have "dsptch_cbs (mi_cbs (mg_in (rpc_msger (rpc_x False)))) ?got ([], ?q\<lparr>mq_msgs := []\<rparr>) = Some ([?got], ?q\<lparr>mq_msgs := []\<rparr>)"
    using mu(1) by (simp add: rpc_x_def dht_msg_def)
  note got = datagram_reaches_receiver [OF rpc_x_ok(1-3) _ _ rpc_x_ok(1-4) _ rpc_x_ok(5) mu _ _ _ _ this, of True]
  show ?thesis
    using got [of "([], ?q)" ?q "[]" "[]" 10 "[ms_data (packed (msg_x 2))]" "[]" "msg_x 1"] len
    by (auto simp: rpc_x_def sys_x_def BUF_SZ_def)
qed

definition rpcs_x :: "(vudp, bytes list, vmsg_usr list \<times> vmsg_outq) vwaiter" where
  "rpcs_x = vwaiter_init\<lparr>wt_rpcs := \<lparr>va_used = 1, va_capc = 8, va_first = 8, va_items = Some (rpc_x True) # replicate 7 None\<rparr>\<rparr>"

lemma failed_reopen_stops_daemon_witness:
  "\<exists>wt'. vwaiter_laundry (\<lambda>s w. ((1, {}, {}, {7}), w)) (msg_x 1) rpcs_x ([], undefined) [] = Some (0, wt', ([], undefined), [])"
proof -
  have "va_wf (wt_rpcs rpcs_x)" "va_list (wt_rpcs rpcs_x) = [rpc_x True]"
    by (auto simp: rpcs_x_def va_wf_def va_list_def intro: exI [of _ 0])
  from failed_reopen_stops_daemon [OF this rpc_x_ok(1,2), of "\<lambda>s w. ((1, {}, {}, {7}), w)" "[]" "[]" "[]" "msg_x 1" "([], undefined)"]
  show ?thesis
    by (auto simp: udp_base_ops_def vrpc_udp_getfd_def vrpc_udp_close_def vrpc_udp_open_def sys_x_def)
qed

section \<open>Start-up\<close>

text \<open>
  C38. The ID a host takes is stored and kept: a first start that succeeds on a file without the table of IDs takes the fresh ID, and every later
  start on that file reads the same one, whatever ID would have been made then. What is relied on of SQLite is \<open>sqlite_ok\<close>.
\<close>

theorem node_id_survives_restart:
  assumes "sqlite_ok sq table" "table w = None" "tok_wf fresh" "tok_wf myid"
    and "vcfg_get_host_db_file cfg = Some file" "int (length file) < BUF_SZ"
    and "aux_vhost_get_nodeId sq fresh cfg junk w = Some (0, t, w1)"
    and "table w2 = table w1" "fst (sq_open sq file w2) = 0"
  shows "t = fresh \<and> (\<exists>w3. aux_vhost_get_nodeId sq other cfg myid w2 = Some (0, t, w3) \<and> table w3 = table w1)"
  by (rule restart_keeps_id [OF assms])

lemma node_id_survives_restart_witness:
  "\<exists>t w1 w3. aux_vhost_get_nodeId sqlite_x (replicate 20 7) vdict_init (replicate 20 0) None = Some (0, t, w1) \<and>
     t = replicate 20 7 \<and> aux_vhost_get_nodeId sqlite_x (replicate 20 9) vdict_init (replicate 20 0) w1 = Some (0, t, w3)"
proof -
  have c: "vcfg_get_host_db_file vdict_init = Some (cstr ''vdht.db'')"
    by code_simp
  have p: "vtoken_strlize (replicate 20 7) 64 = Some (Some (hex_of (replicate 20 7)))"
    by (subst vtoken_strlize_spec) (simp_all add: tok_wf_def VTOKEN_LEN_def)
  obtain w1 where r: "aux_vhost_get_nodeId sqlite_x (replicate 20 7) vdict_init (replicate 20 0) None = Some (0, replicate 20 7, w1)"
    using nodeId_texts by (simp add: aux_vhost_get_nodeId_def c p sqlite_x_def BUF_SZ_def cstr_def Let_def)
  have f: "int (length (cstr ''vdht.db'')) < BUF_SZ" "fst (sq_open sqlite_x (cstr ''vdht.db'') w1) = 0"
    by (simp_all add: BUF_SZ_def cstr_def sqlite_x_def)
  show ?thesis
    using node_id_survives_restart [OF sqlite_x_ok refl _ _ c f(1) r refl f(2), of "replicate 20 0" "replicate 20 9"] r
    by (auto simp: tok_wf_def VTOKEN_LEN_def)
qed

text \<open>
  C39. Whatever is done with the port mapper, in any order, it does not crash and frees each list of devices exactly once: set up, used and closed
  down, it leaves the lists allocated that were there before. What is relied on of the library is \<open>upnp_lib_ok\<close>.
\<close>

theorem upnp_frees_its_lists:
  assumes "upnp_lib_ok lib live" "list_all upnp_call_ok cs"
  shows "\<exists>up w up' w'. upnp_run lib cs (vupnpc_init, w0) = Some (up, w) \<and>
     vupnpc_deinit lib up w = Some (up', w') \<and> live w' = live w0 \<and> \<not> vupnpc_workable up'"
  by (rule upnp_run_frees [OF assms])

text \<open>A gateway that maps every port, and numbers the lists it gives.\<close>

definition upnp_x :: "(nat, unit, nat \<times> nat list) upnp_lib" where
  "upnp_x = \<lparr>ul_discover = \<lambda>(n, l). (Some n, n + 1, n # l),
     ul_free = \<lambda>d (n, l). if d \<in> set l then Some (n, removeAll d l) else None,
     ul_valid_igd = \<lambda>d w. ((1, Some ()), w), ul_external_ip = \<lambda>c w. ((0, cstr ''9.8.7.6''), w),
     ul_add = \<lambda>c sp ip a p w. (0, w), ul_entry = \<lambda>c sp p w. ((0, cstr ''1.2.3.4'', sp), w), ul_delete = \<lambda>c sp p w. (0, w)\<rparr>"

definition upnp_live_x :: "nat \<times> nat list \<Rightarrow> nat set" where
  "upnp_live_x = (\<lambda>(n, l). {d \<in> set l. d < n})"

lemma upnp_x_ok: "upnp_lib_ok upnp_x upnp_live_x"
  by (auto simp: upnp_lib_ok_def upnp_x_def upnp_live_x_def)

definition upnp_calls_x :: "upnp_call list" where
  "upnp_calls_x = (let a = sockaddr_zero\<lparr>sin_port := htons 80, sin_addr := 0x04030201\<rparr> in
     [UpSetup, UpMap a 0 a, UpUnmap 80 0, UpSetup, UpShutdown, UpSetup, UpMap a 1 a])"

lemma upnp_frees_its_lists_witness:
  "\<exists>up w up' w'. upnp_run upnp_x upnp_calls_x (vupnpc_init, (0, [])) = Some (up, w) \<and>
     vupnpc_deinit upnp_x up w = Some (up', w') \<and> upnp_live_x w' = {} \<and> \<not> vupnpc_workable up'"
proof -
  have "list_all upnp_call_ok upnp_calls_x" by (simp add: upnp_calls_x_def upnp_call_ok_def Let_def)
  from upnp_frees_its_lists [OF upnp_x_ok this, of "(0, [])"] show ?thesis by (simp add: upnp_live_x_def)
qed
section \<open>The load of the host\<close>

text \<open>
  C40. The nice value a node announces stays within bounds through every measurement that returns, whatever the files in \<open>/proc\<close> say: at most 14, and
  not negative if the ratios read are not; the weights and criteria never change.
\<close>

theorem nice_value_bounded:
  assumes "nice_wf nn" "vnode_nice_get_nice stat meminfo nn prev = Some (v, nn', prev')"
  shows "nice_wf nn' \<and> v \<le> 14 \<and> v = nn_prev_nice_val nn' \<and>
    (0 \<le> nn_prev_nice_val nn \<and> 0 \<le> rs_ratio (nn_cpu nn') \<and> 0 \<le> rs_ratio (nn_mem nn') \<longrightarrow> 0 \<le> v)"
  using get_nice_range [OF assms] by blast

lemma nice_value_bounded_witness:
  "\<exists>v nn' prev'. vnode_nice_get_nice None None vnode_nice_init \<lparr>prev_idle = 0, prev_busy = 0\<rparr> = Some (v, nn', prev') \<and> nice_wf nn' \<and> v \<le> 14"
proof -
  have "\<exists>v nn' prev'. vnode_nice_get_nice None None vnode_nice_init \<lparr>prev_idle = 0, prev_busy = 0\<rparr> = Some (v, nn', prev')"
    by (simp add: vnode_nice_get_nice_def vsys_get_cpu_ratio_def vsys_get_mem_ratio_def vsys_get_io_ratio_def vsys_get_net_ratio_def)
  then show ?thesis using nice_value_bounded [OF nice_wf_init] by metis
qed

end
